(* ===== verification/Prelude.thy ===== *)
theory Prelude
  imports Main "HOL-Library.Char_ord" "HOL-Library.List_Lexorder"
begin

text \<open>
  The vocabulary the component theories share: the result type of fallible Go functions,
  the byte-string helpers the sources use from the packages strings, strconv and slices,
  the length-framed encoding every digest preimage is written in, first-seen
  deduplication, and the proof collections.

  Go strings are byte strings: a \<open>string\<close> here is a list of 8-bit characters, ordered
  bytewise (\<open>List_Lexorder\<close> over \<open>Char_ord\<close>), as the Go operator is.
\<close>

named_theorems model_defs \<open>definitions that proofs about one component unfold together\<close>
named_theorems frame_simps \<open>injectivity of the length-framed digest encodings\<close>

section \<open>Fallible results\<close>

text \<open>A Go function returning a value and an error is a sum, the error on the left.\<close>

type_synonym 'a result = "string + 'a"

fun bind_res :: "'e + 'a \<Rightarrow> ('a \<Rightarrow> 'e + 'b) \<Rightarrow> 'e + 'b" where
  "bind_res (Inl e) f = Inl e"
| "bind_res (Inr x) f = f x"

lemma bind_res_Inr_iff: "bind_res m f = Inr y \<longleftrightarrow> (\<exists>x. m = Inr x \<and> f x = Inr y)"
  by (cases m) auto

lemma bind_res_Inl_iff:
  "bind_res m f = Inl e \<longleftrightarrow> m = Inl e \<or> (\<exists>x. m = Inr x \<and> f x = Inl e)"
  by (cases m) auto

fun map_res :: "('a \<Rightarrow> 'e + 'b) \<Rightarrow> 'a list \<Rightarrow> 'e + 'b list" where
  "map_res f [] = Inr []"
| "map_res f (x # xs) =
     (case f x of Inl e \<Rightarrow> Inl e
      | Inr y \<Rightarrow> (case map_res f xs of Inl e \<Rightarrow> Inl e | Inr ys \<Rightarrow> Inr (y # ys)))"

fun fold_res :: "('a \<Rightarrow> 's \<Rightarrow> 'e + 's) \<Rightarrow> 'a list \<Rightarrow> 's \<Rightarrow> 'e + 's" where
  "fold_res f [] s = Inr s"
| "fold_res f (x # xs) s = bind_res (f x s) (fold_res f xs)"

lemma map_res_length: "map_res f xs = Inr ys \<Longrightarrow> length ys = length xs"
  by (induction xs arbitrary: ys) (auto split: sum.splits)

lemma map_res_nth: "map_res f xs = Inr ys \<Longrightarrow> i < length xs \<Longrightarrow> f (xs ! i) = Inr (ys ! i)"
proof (induction xs arbitrary: ys i)
  case (Cons x xs)
  then show ?case by (cases i) (auto split: sum.splits)
qed simp

lemma map_res_all: "(\<And>x. x \<in> set xs \<Longrightarrow> f x = Inr (g x)) \<Longrightarrow> map_res f xs = Inr (map g xs)"
  by (induction xs) auto

section \<open>Byte strings\<close>

definition nul :: char where "nul = CHR 0x00"
definition newline :: char where "newline = CHR 0x0A"

text \<open>strings.IndexByte, with None for the Go value -1.\<close>

fun index_byte :: "char \<Rightarrow> string \<Rightarrow> nat option" where
  "index_byte c [] = None"
| "index_byte c (x # xs) = (if x = c then Some 0 else map_option Suc (index_byte c xs))"

lemma index_byte_None: "index_byte c s = None \<longleftrightarrow> c \<notin> set s"
  by (induction s) auto

lemma index_byte_Some:
  "index_byte c s = Some i \<Longrightarrow> i < length s \<and> s ! i = c \<and> c \<notin> set (take i s)"
proof (induction s arbitrary: i)
  case (Cons x xs)
  then show ?case by (cases i) (auto split: if_splits)
qed simp

lemma index_byte_append: "c \<notin> set s \<Longrightarrow> index_byte c (s @ c # t) = Some (length s)"
  by (induction s) auto

text \<open>strings.Cut at a one-byte separator: before, after, found.\<close>

definition cut_byte :: "char \<Rightarrow> string \<Rightarrow> string \<times> string \<times> bool" where
  "cut_byte c s = (case index_byte c s of
      None \<Rightarrow> (s, [], False)
    | Some i \<Rightarrow> (take i s, drop (Suc i) s, True))"

lemma cut_byte_append: "c \<notin> set s \<Longrightarrow> cut_byte c (s @ c # t) = (s, t, True)"
  by (simp add: cut_byte_def index_byte_append)

lemma cut_byte_join: "cut_byte c s = (a, b, True) \<Longrightarrow> s = a @ c # b \<and> c \<notin> set a"
  by (auto simp: cut_byte_def id_take_nth_drop dest!: index_byte_Some split: option.splits)

definition has_prefix :: "string \<Rightarrow> string \<Rightarrow> bool" where
  "has_prefix s p \<longleftrightarrow> take (length p) s = p"

definition has_suffix :: "string \<Rightarrow> string \<Rightarrow> bool" where
  "has_suffix s p \<longleftrightarrow> length p \<le> length s \<and> drop (length s - length p) s = p"

lemma has_prefix_append [simp]: "has_prefix (p @ s) p"
  by (simp add: has_prefix_def)

lemma has_prefixD: "has_prefix s p \<Longrightarrow> s = p @ drop (length p) s"
  unfolding has_prefix_def by (metis append_take_drop_id)

text \<open>strings.CutPrefix and strings.CutSuffix, None when the affix is absent.\<close>

definition cut_prefix :: "string \<Rightarrow> string \<Rightarrow> string option" where
  "cut_prefix s p = (if has_prefix s p then Some (drop (length p) s) else None)"

definition cut_suffix :: "string \<Rightarrow> string \<Rightarrow> string option" where
  "cut_suffix s p = (if has_suffix s p then Some (take (length s - length p) s) else None)"

lemma cut_suffix_append [simp]: "cut_suffix (s @ p) p = Some s"
  by (simp add: cut_suffix_def has_suffix_def)

text \<open>strings.Join.\<close>

fun join_with :: "string \<Rightarrow> string list \<Rightarrow> string" where
  "join_with sep [] = []"
| "join_with sep [x] = x"
| "join_with sep (x # y # ys) = x @ sep @ join_with sep (y # ys)"

text \<open>The index of a substring, for strings.Contains and strings.Index.\<close>

fun index_of :: "string \<Rightarrow> string \<Rightarrow> nat option" where
  "index_of p [] = (if p = [] then Some 0 else None)"
| "index_of p (x # xs) =
     (if has_prefix (x # xs) p then Some 0 else map_option Suc (index_of p xs))"

definition contains_str :: "string \<Rightarrow> string \<Rightarrow> bool" where
  "contains_str s p \<longleftrightarrow> index_of p s \<noteq> None"

text \<open>strings.Split at a one-byte separator.\<close>

fun split_byte :: "char \<Rightarrow> string \<Rightarrow> string list" where
  "split_byte c [] = [[]]"
| "split_byte c (x # xs) =
     (if x = c then [] # split_byte c xs
      else (case split_byte c xs of [] \<Rightarrow> [[x]] | w # ws \<Rightarrow> (x # w) # ws))"

lemma split_byte_nonempty [simp]: "split_byte c s \<noteq> []"
  by (induction s) (auto split: list.splits)

lemma join_split_byte: "join_with [c] (split_byte c s) = s"
proof (induction s)
  case (Cons x xs)
  obtain w ws where sp: "split_byte c xs = w # ws"
    by (cases "split_byte c xs") auto
  with Cons show ?case by (cases ws) auto
qed simp

lemma split_byte_no_sep: "w \<in> set (split_byte c s) \<Longrightarrow> c \<notin> set w"
  by (induction s arbitrary: w) (auto split: list.splits if_splits)

section \<open>Decimal numerals\<close>

text \<open>strconv.Itoa and the verb %d on a non-negative number.\<close>

definition digit_char :: "nat \<Rightarrow> char" where
  "digit_char d = char_of (48 + d)"

fun show_nat :: "nat \<Rightarrow> string" where
  "show_nat n = (if n < 10 then [digit_char n] else show_nat (n div 10) @ [digit_char (n mod 10)])"

declare show_nat.simps [simp del]

definition digit_val :: "char \<Rightarrow> nat" where
  "digit_val c = of_char c - 48"

definition read_nat :: "string \<Rightarrow> nat" where
  "read_nat s = foldl (\<lambda>a c. 10 * a + digit_val c) 0 s"

definition is_digit :: "char \<Rightarrow> bool" where
  "is_digit c \<longleftrightarrow> 48 \<le> (of_char c :: nat) \<and> (of_char c :: nat) \<le> 57"

lemma digit_val_char [simp]: "d < 10 \<Longrightarrow> digit_val (digit_char d) = d"
  by (simp add: digit_val_def digit_char_def)

lemma is_digit_digit_char [simp]: "d < 10 \<Longrightarrow> is_digit (digit_char d)"
  by (simp add: is_digit_def digit_char_def)

lemma show_nat_digits: "c \<in> set (show_nat n) \<Longrightarrow> is_digit c"
proof (induction n rule: show_nat.induct)
  case (1 n)
  then show ?case by (subst (asm) (2) show_nat.simps) (auto split: if_splits)
qed

lemma show_nat_nonempty [simp]: "show_nat n \<noteq> []"
  by (subst show_nat.simps) simp

lemma read_show_nat [simp]: "read_nat (show_nat n) = n"
proof (induction n rule: show_nat.induct)
  case (1 n)
  show ?case
  proof (cases "n < 10")
    case True
    then show ?thesis by (subst show_nat.simps) (simp add: read_nat_def)
  next
    case False
    with 1 have "read_nat (show_nat (n div 10)) = n div 10" by simp
    with False show ?thesis by (subst show_nat.simps) (simp add: read_nat_def)
  qed
qed

lemma show_nat_inj [frame_simps]: "show_nat m = show_nat n \<longleftrightarrow> m = n"
  by (metis read_show_nat)

lemma digit_neq_colon: "is_digit c \<Longrightarrow> c \<noteq> CHR '':''"
  by (auto simp: is_digit_def)

text \<open>The verb %d on a signed number.\<close>

definition show_int :: "int \<Rightarrow> string" where
  "show_int i = (if i < 0 then CHR ''-'' # show_nat (nat (- i)) else show_nat (nat i))"

section \<open>Length-framed fields\<close>

text \<open>
  The sources write every variable-length field of a digest preimage as its byte length,
  a colon and its bytes (the format %d:%s). \<open>framed_append\<close> is why that is safe: a
  framed field followed by anything can be read back in one way only.
\<close>

definition framed :: "string \<Rightarrow> string" where
  "framed s = show_nat (length s) @ '':'' @ s"

lemma takeWhile_digits:
  "takeWhile is_digit (show_nat n @ '':'' @ t) = show_nat n"
proof -
  have "takeWhile is_digit (show_nat n @ '':'' @ t)
      = show_nat n @ takeWhile is_digit ('':'' @ t)"
    by (rule takeWhile_append2) (rule show_nat_digits)
  also have "takeWhile is_digit ('':'' @ t) = []"
    by (simp add: is_digit_def)
  finally show ?thesis by simp
qed

lemma framed_append [frame_simps]: "framed s @ x = framed t @ y \<longleftrightarrow> s = t \<and> x = y"
proof
  assume eq: "framed s @ x = framed t @ y"
  then have "takeWhile is_digit (framed s @ x) = takeWhile is_digit (framed t @ y)"
    by simp
  then have "show_nat (length s) = show_nat (length t)"
    using takeWhile_digits [of "length s" "s @ x"] takeWhile_digits [of "length t" "t @ y"]
    by (simp add: framed_def)
  then have len: "length s = length t" by (simp add: show_nat_inj)
  with eq show "s = t \<and> x = y" by (simp add: framed_def)
qed simp

lemma framed_inj [frame_simps]: "framed s = framed t \<longleftrightarrow> s = t"
  using framed_append [of s "[]" t "[]"] by simp

text \<open>The verb %t.\<close>

definition show_bool :: "bool \<Rightarrow> string" where
  "show_bool b = (if b then ''true'' else ''false'')"

lemma show_bool_append [frame_simps]: "show_bool a @ x = show_bool b @ y \<longleftrightarrow> a = b \<and> x = y"
  by (auto simp: show_bool_def)

section \<open>Sorting and deduplication\<close>

text \<open>
  slices.Sort followed by slices.Compact. Sorting a list of strings has one result, so the
  library's insertion sort stands for Go's.
\<close>

definition sort_compact :: "string list \<Rightarrow> string list" where
  "sort_compact xs = remdups_adj (sort xs)"

lemma set_sort_compact [simp]: "set (sort_compact xs) = set xs"
  by (simp add: sort_compact_def)

lemma distinct_remdups_adj: "sorted xs \<Longrightarrow> distinct (remdups_adj xs)"
  for xs :: "'a::linorder list"
  by (induction xs rule: remdups_adj.induct) (auto simp: order_le_less)

lemma sorted_distinct_sort_compact: "sorted (sort_compact xs) \<and> distinct (sort_compact xs)"
  by (simp add: sort_compact_def sorted_remdups_adj distinct_remdups_adj)

lemma sort_compact_cong: "set xs = set ys \<Longrightarrow> sort_compact xs = sort_compact ys"
  using sorted_distinct_sort_compact by (metis set_sort_compact sorted_distinct_set_unique)

text \<open>The seen-map loop: keep the first occurrence of every element, in order.\<close>

fun first_seen_from :: "'a list \<Rightarrow> 'a list \<Rightarrow> 'a list" where
  "first_seen_from seen [] = []"
| "first_seen_from seen (x # xs) =
     (if x \<in> set seen then first_seen_from seen xs
      else x # first_seen_from (x # seen) xs)"

definition first_seen :: "'a list \<Rightarrow> 'a list" where
  "first_seen xs = first_seen_from [] xs"

lemma set_first_seen_from: "set (first_seen_from seen xs) = set xs - set seen"
  by (induction xs arbitrary: seen) auto

lemma set_first_seen [simp]: "set (first_seen xs) = set xs"
  by (simp add: first_seen_def set_first_seen_from)

lemma distinct_first_seen_from: "distinct (first_seen_from seen xs)"
  by (induction xs arbitrary: seen) (auto simp: set_first_seen_from)

lemma distinct_first_seen [simp]: "distinct (first_seen xs)"
  by (simp add: first_seen_def distinct_first_seen_from)

lemma first_seen_empty_iff [simp]: "first_seen xs = [] \<longleftrightarrow> xs = []"
  by (metis set_empty set_first_seen)

section \<open>Maps\<close>

text \<open>A read of a Go map: the element type's zero value when the key is absent.\<close>

definition map_get :: "'v \<Rightarrow> ('k \<rightharpoonup> 'v) \<Rightarrow> 'k \<Rightarrow> 'v" where
  "map_get zero m k = (case m k of Some v \<Rightarrow> v | None \<Rightarrow> zero)"

lemma map_get_simps [simp]:
  "m k = None \<Longrightarrow> map_get z m k = z" "m k = Some v \<Longrightarrow> map_get z m k = v"
  by (simp_all add: map_get_def)

lemma map_get_upd [simp]: "map_get z (m(k \<mapsto> v)) k' = (if k' = k then v else map_get z m k')"
  by (simp add: map_get_def)

section \<open>Bounded lists in texts\<close>

text \<open>internal/render: at most three names, then how many more.\<close>

definition ListCap :: nat where "ListCap = 3"

definition capped_list :: "string list \<Rightarrow> string" where
  "capped_list names =
     (if length names \<le> ListCap then join_with '', '' names
      else join_with '', '' (take ListCap names) @ '', and ''
        @ show_nat (length names - ListCap) @ '' more'')"

text \<open>countNoun (view.go).\<close>

definition count_noun :: "nat \<Rightarrow> string \<Rightarrow> string" where
  "count_noun n noun = (if n = 1 then ''1 '' @ noun else show_nat n @ '' '' @ noun @ ''s'')"

end
