(* ===== verification/Sha256.thy ===== *)
theory Sha256
  imports Prelude "HOL-Library.Word"
begin

text \<open>
  The functions of crypto/sha256 and encoding/hex the sources call (FIPS 180-4), and the
  digest every component truncates from them: the first 32 hexadecimal characters of the
  SHA-256 of a byte string (digest in internal/guard/guard.go, FromSum in
  internal/closure/internal/digest/digest.go). The function is executable; the proofs of
  the development use it only through its type and length, never through its value, and
  state what a digest binds over its preimage.
\<close>

unbundle bit_operations_syntax

type_synonym w32 = "32 word"

definition sha_k :: "w32 list" where
  "sha_k = [
   1116352408, 1899447441, 3049323471, 3921009573, 961987163, 1508970993, 2453635748, 2870763221,
   3624381080, 310598401, 607225278, 1426881987, 1925078388, 2162078206, 2614888103, 3248222580,
   3835390401, 4022224774, 264347078, 604807628, 770255983, 1249150122, 1555081692, 1996064986,
   2554220882, 2821834349, 2952996808, 3210313671, 3336571891, 3584528711, 113926993, 338241895,
   666307205, 773529912, 1294757372, 1396182291, 1695183700, 1986661051, 2177026350, 2456956037,
   2730485921, 2820302411, 3259730800, 3345764771, 3516065817, 3600352804, 4094571909, 275423344,
   430227734, 506948616, 659060556, 883997877, 958139571, 1322822218, 1537002063, 1747873779,
   1955562222, 2024104815, 2227730452, 2361852424, 2428436474, 2756734187, 3204031479, 3329325298]"

definition sha_h0 :: "w32 list" where
  "sha_h0 = [1779033703, 3144134277, 1013904242, 2773480762,
             1359893119, 2600822924, 528734635, 1541459225]"

definition rotr :: "nat \<Rightarrow> w32 \<Rightarrow> w32" where
  "rotr n x = drop_bit n x OR push_bit (32 - n) x"

definition be32 :: "w32 list \<Rightarrow> w32" where
  "be32 bs = foldl (\<lambda>a b. push_bit 8 a OR b) 0 bs"

fun chunks_of :: "nat \<Rightarrow> 'a list \<Rightarrow> 'a list list" where
  "chunks_of n xs =
     (if n = 0 \<or> xs = [] then [] else take n xs # chunks_of n (drop n xs))"

declare chunks_of.simps [simp del]

definition small_sigma0 :: "w32 \<Rightarrow> w32" where
  "small_sigma0 x = rotr 7 x XOR rotr 18 x XOR drop_bit 3 x"

definition small_sigma1 :: "w32 \<Rightarrow> w32" where
  "small_sigma1 x = rotr 17 x XOR rotr 19 x XOR drop_bit 10 x"

definition big_sigma0 :: "w32 \<Rightarrow> w32" where
  "big_sigma0 x = rotr 2 x XOR rotr 13 x XOR rotr 22 x"

definition big_sigma1 :: "w32 \<Rightarrow> w32" where
  "big_sigma1 x = rotr 6 x XOR rotr 11 x XOR rotr 25 x"

text \<open>The message schedule, newest word first while it grows.\<close>

fun schedule :: "nat \<Rightarrow> w32 list \<Rightarrow> w32 list" where
  "schedule 0 ws = rev ws"
| "schedule (Suc n) ws =
     schedule n ((small_sigma1 (ws ! 1) + ws ! 6 + small_sigma0 (ws ! 14) + ws ! 15) # ws)"

fun sha_round :: "w32 list \<Rightarrow> w32 \<times> w32 \<Rightarrow> w32 list" where
  "sha_round [a, b, c, d, e, f, g, h] (k, w) =
     (let t1 = h + big_sigma1 e + ((e AND f) XOR (NOT e AND g)) + k + w;
          t2 = big_sigma0 a + ((a AND b) XOR (a AND c) XOR (b AND c))
      in [t1 + t2, a, b, c, d + t1, e, f, g])"
| "sha_round xs _ = xs"

definition compress_block :: "w32 list \<Rightarrow> w32 list \<Rightarrow> w32 list" where
  "compress_block h blk =
     (let ws = schedule 48 (rev (map be32 (chunks_of 4 blk)))
      in map2 (+) h (foldl sha_round h (zip sha_k ws)))"

fun be_bytes :: "nat \<Rightarrow> int \<Rightarrow> int list" where
  "be_bytes 0 x = []"
| "be_bytes (Suc n) x = be_bytes n (x div 256) @ [x mod 256]"

definition sha_pad :: "w32 list \<Rightarrow> w32 list" where
  "sha_pad m = (let l = length m in
     m @ [128] @ replicate ((119 - l mod 64) mod 64) 0
       @ map word_of_int (be_bytes 8 (8 * int l)))"

definition sha256 :: "string \<Rightarrow> int list" where
  "sha256 s = concat (map (\<lambda>w. be_bytes 4 (uint w))
     (foldl compress_block sha_h0 (chunks_of 64 (sha_pad (map of_char s)))))"

text \<open>hex.EncodeToString on a list of byte values.\<close>

definition hex_digit :: "int \<Rightarrow> char" where
  "hex_digit d = char_of (nat (if d < 10 then 48 + d else 87 + d))"

definition hex_encode :: "int list \<Rightarrow> string" where
  "hex_encode bs = concat (map (\<lambda>b. [hex_digit (b div 16), hex_digit (b mod 16)]) bs)"

definition sha256_hex :: "string \<Rightarrow> string" where
  "sha256_hex s = hex_encode (sha256 s)"

definition digest :: "string \<Rightarrow> string" where
  "digest s = take 32 (sha256_hex s)"

section \<open>Lengths\<close>

lemma length_hex_encode [simp]: "length (hex_encode bs) = 2 * length bs"
  by (induction bs) (simp_all add: hex_encode_def)

lemma length_be_bytes [simp]: "length (be_bytes n x) = n"
  by (induction n arbitrary: x) simp_all

lemma length_sha_round: "length h = 8 \<Longrightarrow> length (sha_round h kw) = 8"
  by (induction h kw rule: sha_round.induct) (simp_all add: Let_def)

lemma length_foldl_sha_round: "length h = 8 \<Longrightarrow> length (foldl sha_round h kws) = 8"
  by (induction kws arbitrary: h) (simp_all add: length_sha_round)

lemma length_compress_block: "length h = 8 \<Longrightarrow> length (compress_block h blk) = 8"
  by (simp add: compress_block_def Let_def length_foldl_sha_round)

lemma length_foldl_compress: "length h = 8 \<Longrightarrow> length (foldl compress_block h blks) = 8"
  by (induction blks arbitrary: h) (simp_all add: length_compress_block)

lemma length_concat_const: "(\<And>x. x \<in> set xs \<Longrightarrow> length (f x) = k) \<Longrightarrow>
    length (concat (map f xs)) = k * length xs"
  by (induction xs) simp_all

lemma length_sha256 [simp]: "length (sha256 s) = 32"
  unfolding sha256_def
  by (subst length_concat_const [where k = 4])
    (simp_all add: length_foldl_compress sha_h0_def)

lemma length_sha256_hex [simp]: "length (sha256_hex s) = 64"
  by (simp add: sha256_hex_def)

lemma length_digest [simp]: "length (digest s) = 32"
  by (simp add: digest_def)

lemma digest_nonempty [simp]: "digest s \<noteq> []"
  by (metis length_digest list.size(3) zero_neq_numeral)

lemma sha256_hex_nonempty [simp]: "sha256_hex s \<noteq> []"
  by (metis length_sha256_hex list.size(3) zero_neq_numeral)

section \<open>Digests as identities\<close>

text \<open>
  An identity the sources keep is the digest of a text written from the facts it stands
  for. The contract a text owes: it depends on those facts alone and determines them. Then
  equal facts have equal identities, and unequal facts are digested from unequal texts.
\<close>

locale identity_text =
  fixes text_of :: "'a \<Rightarrow> string" and facts_of :: "'a \<Rightarrow> 'f"
  assumes text_determines: "text_of a = text_of b \<Longrightarrow> facts_of a = facts_of b"
    and facts_determine: "facts_of a = facts_of b \<Longrightarrow> text_of a = text_of b"
begin

lemma exact: "text_of a = text_of b \<longleftrightarrow> facts_of a = facts_of b"
  using text_determines facts_determine by blast

lemma same_identity: "facts_of a = facts_of b \<Longrightarrow> digest (text_of a) = digest (text_of b)"
  using facts_determine by metis

end

end
