(* ===== verification/Env_Policy.thy ===== *)
theory Env_Policy
  imports Prelude "HOL-Library.Product_Lexorder" "HOL-Library.Multiset"
begin

text \<open>
  gotool/env.go, the environment policy: every process environment is the complete
  key=value list in one deterministic order with no duplicate key; and gotool/memo.go's
  key of a directory and an environment. A platform record stands for what the build
  target decides: whether it is Windows, and there the Unicode tables of strings.ToUpper
  and strings.EqualFold. On every other platform keys compare bytewise and the tables are
  never consulted. The lemmas show which environments are admitted, that the order is
  canonical, that the setters keep it, and what each derived environment binds.
\<close>

record platform =
  windows :: bool
  to_upper :: "string \<Rightarrow> string"
  fold_eq :: "string \<Rightarrow> string \<Rightarrow> bool"

section \<open>Entries and keys\<close>

text \<open>split: the name and the value of an entry, None where the Go result is false.\<close>

definition env_split :: "platform \<Rightarrow> string \<Rightarrow> (string \<times> string) option" where
  "env_split P entry = (case index_byte CHR ''='' entry of
      None \<Rightarrow> None
    | Some equals \<Rightarrow>
        (if 0 < equals then Some (take equals entry, drop (Suc equals) entry)
         else if windows P then
           (case index_byte CHR ''='' (drop 1 entry) of
              Some second \<Rightarrow>
                (if 0 < second
                 then Some (take (Suc second) entry, drop (Suc (Suc second)) entry) else None)
            | None \<Rightarrow> None)
         else None))"

definition equal_key :: "platform \<Rightarrow> string \<Rightarrow> string \<Rightarrow> bool" where
  "equal_key P left right = (if windows P then fold_eq P left right else left = right)"

definition key_identity :: "platform \<Rightarrow> string \<Rightarrow> string" where
  "key_identity P key = (if windows P then to_upper P key else key)"

definition entry_key :: "platform \<Rightarrow> string \<Rightarrow> string" where
  "entry_key P entry =
     key_identity P (case env_split P entry of Some (name, _) \<Rightarrow> name | None \<Rightarrow> [])"

definition entry_less :: "platform \<Rightarrow> string \<Rightarrow> string \<Rightarrow> bool" where
  "entry_less P a b = (let left = entry_key P a; right = entry_key P b
     in if left = right then a < b else left < right)"

section \<open>Normalizing, looking up, setting\<close>

fun admit_entries :: "platform \<Rightarrow> string list \<Rightarrow> nat \<Rightarrow> string list \<Rightarrow> string list result" where
  "admit_entries P seen i [] = Inr []"
| "admit_entries P seen i (entry # es) =
     (if nul \<in> set entry then Inl (''environment entry '' @ show_nat i @ '' contains NUL'')
      else case env_split P entry of
        None \<Rightarrow> Inl (''environment entry '' @ show_nat i
                  @ '' is malformed: expected non-empty key=value'')
      | Some (key, _) \<Rightarrow>
          (if key_identity P key \<in> set seen
           then Inl (''environment contains duplicate key '' @ key)
           else bind_res (admit_entries P (key_identity P key # seen) (Suc i) es)
                  (\<lambda>out. Inr (entry # out))))"

definition sort_entries :: "platform \<Rightarrow> string list \<Rightarrow> string list" where
  "sort_entries P es = sort_key (\<lambda>e. (entry_key P e, e)) es"

definition normalize_env :: "platform \<Rightarrow> string list \<Rightarrow> string list result" where
  "normalize_env P env = bind_res (admit_entries P [] 0 env) (\<lambda>es. Inr (sort_entries P es))"

text \<open>LookupEnv: the first entry under the key, None where the Go result is false.\<close>

fun lookup_env :: "platform \<Rightarrow> string list \<Rightarrow> string \<Rightarrow> string option" where
  "lookup_env P [] key = None"
| "lookup_env P (entry # es) key = (case env_split P entry of
      Some (name, v) \<Rightarrow> (if equal_key P name key then Some v else lookup_env P es key)
    | None \<Rightarrow> lookup_env P es key)"

definition unset_env :: "platform \<Rightarrow> string list \<Rightarrow> string \<Rightarrow> string list" where
  "unset_env P env key = filter (\<lambda>entry. case env_split P entry of
      Some (name, _) \<Rightarrow> \<not> equal_key P name key | None \<Rightarrow> True) env"

text \<open>sort.Search: the binary search of the library, on an arbitrary predicate.\<close>

function search_from :: "(nat \<Rightarrow> bool) \<Rightarrow> nat \<Rightarrow> nat \<Rightarrow> nat" where
  "search_from f i j =
     (if i < j then (let h = (i + j) div 2 in
        if \<not> f h then search_from f (Suc h) j else search_from f i h)
      else i)"
  by pat_completeness auto
termination
  by (relation "measure (\<lambda>(f, i, j). j - i)") auto

declare search_from.simps [simp del]

definition set_env :: "platform \<Rightarrow> string list \<Rightarrow> string \<Rightarrow> string \<Rightarrow> string list" where
  "set_env P env key v =
     (let out = unset_env P env key;
          entry = key @ ''='' @ v;
          i = search_from (\<lambda>i. entry_less P entry (out ! i)) 0 (length out)
      in take i out @ entry # drop i out)"

definition drop_key :: "platform \<Rightarrow> string \<Rightarrow> string list \<Rightarrow> string list" where
  "drop_key P key es = filter (\<lambda>entry.
     \<not> equal_key P (case env_split P entry of Some (name, _) \<Rightarrow> name | None \<Rightarrow> []) key) es"

text \<open>EnvForCommand; \<open>abs_path\<close> is filepath.Abs in the process's directory.\<close>

definition env_for_command ::
    "platform \<Rightarrow> (string \<Rightarrow> string result) \<Rightarrow> string list \<Rightarrow> string \<Rightarrow> string list result" where
  "env_for_command P abs_path env dir =
     (if dir = [] then normalize_env P env
      else bind_res (abs_path dir) (\<lambda>a.
        bind_res (normalize_env P env) (\<lambda>normalized.
          normalize_env P (drop_key P ''PWD'' normalized @ [''PWD='' @ a]))))"

definition env_for_packages :: "platform \<Rightarrow> string list \<Rightarrow> string list result" where
  "env_for_packages P env =
     bind_res (normalize_env P env) (\<lambda>normalized.
       case lookup_env P normalized ''GOPACKAGESDRIVER'' of
         Some driver \<Rightarrow>
           (if driver \<noteq> [] \<and> driver \<noteq> ''off''
            then Inl (''GOPACKAGESDRIVER='' @ driver
              @ '' is unsupported because freshness analysis requires Go package loading'')
            else normalize_env P
              (drop_key P ''GOPACKAGESDRIVER'' normalized @ [''GOPACKAGESDRIVER=off'']))
       | None \<Rightarrow> normalize_env P
              (drop_key P ''GOPACKAGESDRIVER'' normalized @ [''GOPACKAGESDRIVER=off'']))"

text \<open>
  goBuildCache and PreserveBuildCache: the explicit GOCACHE, else what the go command
  answers (\<open>ask\<close>), an error and an empty answer both refused.
\<close>

definition go_build_cache ::
    "platform \<Rightarrow> string list \<Rightarrow> string result \<Rightarrow> string result" where
  "go_build_cache P env ask = (case lookup_env P env ''GOCACHE'' of
      Some cache \<Rightarrow> (if cache \<noteq> [] then Inr cache else
        (case ask of
           Inl e \<Rightarrow> Inl (''test environment: determine Go build cache: '' @ e)
         | Inr c \<Rightarrow> (if c = [] then Inl ''test environment: go env supplied no GOCACHE'' else Inr c)))
    | None \<Rightarrow>
        (case ask of
           Inl e \<Rightarrow> Inl (''test environment: determine Go build cache: '' @ e)
         | Inr c \<Rightarrow> (if c = [] then Inl ''test environment: go env supplied no GOCACHE'' else Inr c)))"

definition preserve_build_cache ::
    "platform \<Rightarrow> string result \<Rightarrow> string list \<Rightarrow> string list result" where
  "preserve_build_cache P ask env =
     bind_res (normalize_env P env) (\<lambda>normalized.
       bind_res (go_build_cache P normalized ask) (\<lambda>cache.
         Inr (set_env P normalized ''GOCACHE'' cache)))"

text \<open>memoKey; \<open>coordinate\<close> is gotool.Coordinate, the canonical spelling of a directory.\<close>

definition memo_key ::
    "platform \<Rightarrow> (string \<Rightarrow> string) \<Rightarrow> string \<Rightarrow> string list \<Rightarrow> string result" where
  "memo_key P coordinate dir env = (case normalize_env P env of
      Inl e \<Rightarrow> Inl (''gotool: memo key: '' @ e)
    | Inr normalized \<Rightarrow>
        Inr (coordinate dir @ concat (map (\<lambda>entry. nul # entry)
          (filter (\<lambda>entry. \<not> (dir \<noteq> [] \<and>
             equal_key P (fst (cut_byte CHR ''='' entry)) ''PWD'')) normalized))))"

section \<open>The admitted environments\<close>

definition entry_ok :: "platform \<Rightarrow> string \<Rightarrow> bool" where
  "entry_ok P e \<longleftrightarrow> nul \<notin> set e \<and> env_split P e \<noteq> None"

definition env_ok :: "platform \<Rightarrow> string list \<Rightarrow> bool" where
  "env_ok P env \<longleftrightarrow> list_all (entry_ok P) env \<and> distinct (map (entry_key P) env)"

definition normalized_env :: "platform \<Rightarrow> string list \<Rightarrow> bool" where
  "normalized_env P env \<longleftrightarrow> env_ok P env \<and> sorted (map (\<lambda>e. (entry_key P e, e)) env)"

lemma entry_less_pair: "entry_less P a b \<longleftrightarrow> (entry_key P a, a) < (entry_key P b, b)"
  by (auto simp: entry_less_def Let_def less_prod_simp)

lemma admit_entries_iff:
  "admit_entries P seen i env = Inr out \<longleftrightarrow>
     out = env \<and> env_ok P env \<and> set (map (entry_key P) env) \<inter> set seen = {}"
proof (induction env arbitrary: seen i out)
  case Nil
  then show ?case by (auto simp: env_ok_def)
next
  case (Cons e es)
  then show ?case
    by (auto simp: env_ok_def entry_ok_def entry_key_def bind_res_Inr_iff split: option.splits)
qed

lemma normalize_env_iff:
  "normalize_env P env = Inr out \<longleftrightarrow> env_ok P env \<and> out = sort_entries P env"
  by (auto simp: normalize_env_def bind_res_Inr_iff admit_entries_iff)

lemma set_sort_entries [simp]: "set (sort_entries P env) = set env"
  by (simp add: sort_entries_def)

lemma mset_sort_entries [simp]: "mset (sort_entries P env) = mset env"
  by (simp add: sort_entries_def)

lemma env_ok_mset:
  assumes "mset a = mset b" shows "env_ok P a = env_ok P b"
proof -
  have "distinct (map (entry_key P) a) = distinct (map (entry_key P) b)"
    using assms by (metis mset_eq_imp_distinct_iff mset_map)
  moreover have "set a = set b" using assms by (rule mset_eq_setD)
  ultimately show ?thesis by (simp add: env_ok_def list_all_iff)
qed

lemma normalized_sort_entries: "env_ok P env \<Longrightarrow> normalized_env P (sort_entries P env)"
  using env_ok_mset [of "sort_entries P env" env P]
  by (simp add: normalized_env_def sort_entries_def)

lemma normalize_env_normalized: "normalize_env P env = Inr out \<Longrightarrow> normalized_env P out"
  by (auto simp: normalize_env_iff normalized_sort_entries)

lemma pair_inj: "inj_on (\<lambda>e. (entry_key P e, e)) A"
  by (auto intro: inj_onI)

lemma sort_entries_id: "normalized_env P env \<Longrightarrow> sort_entries P env = env"
  by (simp add: normalized_env_def sort_entries_def sorted_sort_id sort_key_id_if_sorted)

lemma normalize_env_id: "normalized_env P env \<Longrightarrow> normalize_env P env = Inr env"
  by (simp add: normalize_env_iff sort_entries_id) (simp add: normalized_env_def)

lemma sort_entries_mset:
  assumes "mset a = mset b" shows "sort_entries P a = sort_entries P b"
proof -
  let ?k = "\<lambda>e. (entry_key P e, e)"
  have "mset (map ?k (sort_entries P a)) = mset (map ?k (sort_entries P b))"
    using assms by simp
  moreover have "sorted (map ?k (sort_entries P a))" "sorted (map ?k (sort_entries P b))"
    by (simp_all add: sort_entries_def)
  ultimately have "map ?k (sort_entries P a) = map ?k (sort_entries P b)"
    by (metis properties_for_sort)
  then show ?thesis by (rule map_injective) (simp add: inj_def)
qed

lemma normalize_env_mset:
  "mset a = mset b \<Longrightarrow> normalize_env P a = Inr out \<Longrightarrow> normalize_env P b = Inr out"
  using env_ok_mset [of a b P] sort_entries_mset [of a b P] by (simp add: normalize_env_iff)

section \<open>The setter keeps the order\<close>

text \<open>The binary search finds the first index of an upward closed predicate.\<close>

lemma search_from_spec:
  assumes "i \<le> j" and "\<forall>k l. i \<le> k \<and> k \<le> l \<and> l < j \<and> f k \<longrightarrow> f l"
  shows "i \<le> search_from f i j \<and> search_from f i j \<le> j
    \<and> (\<forall>k. i \<le> k \<and> k < search_from f i j \<longrightarrow> \<not> f k)
    \<and> (\<forall>k. search_from f i j \<le> k \<and> k < j \<longrightarrow> f k)"
  using assms
proof (induction f i j rule: search_from.induct)
  case (1 f i j)
  show ?case
  proof (cases "i < j")
    case False
    with "1.prems"(1) show ?thesis by (subst (1 2 3 4) search_from.simps) auto
  next
    case True
    define h where "h = (i + j) div 2"
    have h: "i \<le> h" "h < j" using True by (auto simp: h_def)
    show ?thesis
    proof (cases "f h")
      case True
      note IH = "1.IH"(2) [OF \<open>i < j\<close> h_def, simplified, OF True h(1)]
      have "search_from f i j = search_from f i h"
        using \<open>i < j\<close> True by (subst search_from.simps) (simp add: h_def Let_def)
      moreover have "\<forall>k. h \<le> k \<and> k < j \<longrightarrow> f k"
        using "1.prems"(2) True h by blast
      ultimately show ?thesis using IH "1.prems"(2) h by (smt (verit) le_trans nat_le_linear not_less order_less_trans)
    next
      case False
      note IH = "1.IH"(1) [OF \<open>i < j\<close> h_def, simplified, OF False]
      have eq: "search_from f i j = search_from f (Suc h) j"
        using \<open>i < j\<close> False by (subst search_from.simps) (simp add: h_def Let_def)
      have "\<forall>k. i \<le> k \<and> k < Suc h \<longrightarrow> \<not> f k"
        using "1.prems"(2) False h by (metis less_Suc_eq_le)
      then show ?thesis using IH "1.prems"(2) h eq by (smt (verit) Suc_leI le_Suc_eq le_trans not_less)
    qed
  qed
qed

lemma sorted_insert_at:
  fixes e :: "'a::linorder"
  assumes "sorted xs" and "r \<le> length xs"
    and below: "\<forall>k<r. xs ! k \<le> e" and above: "\<forall>k. r \<le> k \<and> k < length xs \<longrightarrow> e \<le> xs ! k"
  shows "sorted (take r xs @ e # drop r xs)"
proof -
  have "x \<le> e" if "x \<in> set (take r xs)" for x
    using that below assms(2) by (auto simp: in_set_conv_nth)
  moreover have "e \<le> y" if "y \<in> set (drop r xs)" for y
    using that above by (auto simp: in_set_conv_nth)
  moreover have "x \<le> y" if "x \<in> set (take r xs)" "y \<in> set (drop r xs)" for x y
    using calculation that by (meson order_trans)
  ultimately show ?thesis
    using assms(1) by (auto simp: sorted_append sorted_wrt_take sorted_wrt_drop)
qed

lemma env_ok_filter: "env_ok P env \<Longrightarrow> env_ok P (filter Q env)"
  by (auto simp: env_ok_def list_all_iff distinct_map inj_on_def)

lemma normalized_filter: "normalized_env P env \<Longrightarrow> normalized_env P (filter Q env)"
  by (simp add: normalized_env_def env_ok_filter sorted_filter)

text \<open>A name and a value that make an entry off Windows.\<close>

definition name_ok :: "string \<Rightarrow> bool" where
  "name_ok k \<longleftrightarrow> k \<noteq> [] \<and> CHR ''='' \<notin> set k \<and> nul \<notin> set k"

lemma env_split_name: "k \<noteq> [] \<Longrightarrow> CHR ''='' \<notin> set k \<Longrightarrow>
    env_split P (k @ CHR ''='' # v) = Some (k, v)"
  by (simp add: env_split_def index_byte_append)

lemma entry_ok_name: "name_ok k \<Longrightarrow> nul \<notin> set v \<Longrightarrow> entry_ok P (k @ CHR ''='' # v)"
  by (auto simp: entry_ok_def name_ok_def env_split_name nul_def)

lemma entry_key_unix: "\<not> windows P \<Longrightarrow>
    entry_key P e = (case env_split P e of Some (k, _) \<Rightarrow> k | None \<Rightarrow> [])"
  by (simp add: entry_key_def key_identity_def)

lemma unset_env_unix: "\<not> windows P \<Longrightarrow> env_ok P env \<Longrightarrow>
    unset_env P env k = filter (\<lambda>e. entry_key P e \<noteq> k) env"
  unfolding unset_env_def
  by (rule filter_cong)
    (auto simp: env_ok_def list_all_iff entry_ok_def entry_key_unix equal_key_def split: option.splits)

lemma drop_key_unix: "\<not> windows P \<Longrightarrow> env_ok P env \<Longrightarrow>
    drop_key P k env = filter (\<lambda>e. entry_key P e \<noteq> k) env"
  unfolding drop_key_def
  by (rule filter_cong) (auto simp: entry_key_unix equal_key_def)

lemma env_ok_distinct_entry: "env_ok P env \<Longrightarrow> a \<in> set env \<Longrightarrow> b \<in> set env \<Longrightarrow>
    entry_key P a = entry_key P b \<Longrightarrow> a = b"
  by (auto simp: env_ok_def distinct_map inj_on_def)

text \<open>Looking a key up in an admitted environment is membership.\<close>

lemma lookup_env_unix:
  "\<not> windows P \<Longrightarrow> env_ok P env \<Longrightarrow>
     lookup_env P env k = Some v \<longleftrightarrow> (\<exists>e\<in>set env. env_split P e = Some (k, v))"
proof (induction env)
  case (Cons e es)
  then have ok: "env_ok P es" by (simp add: env_ok_def)
  from Cons.prems obtain n w where sp: "env_split P e = Some (n, w)"
    by (auto simp: env_ok_def entry_ok_def)
  show ?case
  proof (cases "n = k")
    case True
    have "\<not> (\<exists>e'\<in>set es. env_split P e' = Some (k, u))" for u
      using Cons.prems sp True by (force simp: env_ok_def entry_key_unix)
    with True sp Cons.prems(1) show ?thesis by (auto simp: equal_key_def)
  next
    case False
    with sp Cons.IH [OF Cons.prems(1) ok] Cons.prems(1) show ?thesis by (auto simp: equal_key_def)
  qed
qed simp

lemma set_env_parts:
  assumes unix: "\<not> windows P" and norm: "normalized_env P env" and k: "name_ok k"
    and v: "nul \<notin> set v"
  shows "normalized_env P (set_env P env k v)
    \<and> set (set_env P env k v) = insert (k @ CHR ''='' # v) {e \<in> set env. entry_key P e \<noteq> k}"
proof -
  define out where "out = unset_env P env k"
  define e where "e = k @ CHR ''='' # v"
  define r where "r = search_from (\<lambda>i. entry_less P e (out ! i)) 0 (length out)"
  let ?p = "\<lambda>x. (entry_key P x, x)"
  have ok: "env_ok P env" using norm by (simp add: normalized_env_def)
  have out: "out = filter (\<lambda>x. entry_key P x \<noteq> k) env"
    by (simp add: out_def unset_env_unix unix ok)
  then have nout: "normalized_env P out" using norm by (simp add: normalized_filter)
  have ek: "entry_key P e = k"
    using k by (simp add: e_def entry_key_unix unix name_ok_def env_split_name)
  have res: "set_env P env k v = take r out @ e # drop r out"
    by (simp add: set_env_def Let_def out_def e_def r_def)
  have srt: "sorted (map ?p out)" using nout by (simp add: normalized_env_def)
  have mono: "entry_less P e (out ! m)"
    if "l \<le> m" "m < length out" "entry_less P e (out ! l)" for l m
    using that sorted_nth_mono [OF srt, of l m] by (auto simp: entry_less_pair)
  then have mono': "\<forall>l m. 0 \<le> l \<and> l \<le> m \<and> m < length out \<and> entry_less P e (out ! l)
      \<longrightarrow> entry_less P e (out ! m)"
    by blast
  have spec: "r \<le> length out \<and> (\<forall>i<r. \<not> entry_less P e (out ! i))
      \<and> (\<forall>i. r \<le> i \<and> i < length out \<longrightarrow> entry_less P e (out ! i))"
    using search_from_spec [of 0 "length out" "\<lambda>i. entry_less P e (out ! i)", OF le0 mono']
    unfolding r_def by blast
  have "sorted (take r (map ?p out) @ ?p e # drop r (map ?p out))"
    by (rule sorted_insert_at [OF srt]) (use spec in \<open>auto simp: entry_less_pair not_less less_imp_le\<close>)
  then have sorted: "sorted (map ?p (take r out @ e # drop r out))"
    by (simp add: take_map drop_map)
  have setr: "set (take r out @ e # drop r out) = insert e (set out)"
    by (metis Un_insert_right append_take_drop_id list.set(2) set_append)
  have "mset (take r out @ e # drop r out) = mset (e # out)"
    using mset_append [of "take r out" "drop r out"] by simp
  moreover have "env_ok P (e # out)"
    using nout entry_ok_name [OF k v] ek out
    by (auto simp: normalized_env_def env_ok_def e_def)
  ultimately have "env_ok P (take r out @ e # drop r out)" by (metis env_ok_mset)
  with sorted setr res out show ?thesis by (auto simp: normalized_env_def e_def)
qed

lemma env_split_entry_key:
  "\<not> windows P \<Longrightarrow> env_split P e = Some (k, v) \<Longrightarrow> entry_key P e = k"
  by (simp add: entry_key_unix)

lemma lookup_set_env:
  assumes "\<not> windows P" "normalized_env P env" "name_ok k" "nul \<notin> set v"
  shows "lookup_env P (set_env P env k v) j = (if j = k then Some v else lookup_env P env j)"
proof -
  note parts = set_env_parts [OF assms]
  have ok: "env_ok P (set_env P env k v)" "env_ok P env"
    using parts assms(2) by (auto simp: normalized_env_def)
  have e: "env_split P (k @ CHR ''='' # v) = Some (k, v)"
    using assms(3) by (simp add: name_ok_def env_split_name)
  have "lookup_env P (set_env P env k v) j = Some w \<longleftrightarrow>
      (if j = k then Some v else lookup_env P env j) = Some w" for w
    using parts e env_split_entry_key [OF assms(1)]
    by (auto simp: lookup_env_unix [OF assms(1) ok(1)] lookup_env_unix [OF assms(1) ok(2)])
  then show ?thesis by (metis option.exhaust)
qed

section \<open>The derived environments\<close>

lemma normalized_env_unique:
  assumes "normalized_env P a" "normalized_env P b" "set a = set b"
  shows "a = b"
proof -
  have "distinct a" "distinct b"
    using assms(1,2) by (simp_all add: normalized_env_def env_ok_def distinct_map)
  with assms(3) have "mset a = mset b" by (simp add: set_eq_iff_mset_eq_distinct)
  with assms(1,2) show ?thesis by (metis sort_entries_id sort_entries_mset)
qed

text \<open>Replacing a key by filtering, appending and normalizing again is the setter.\<close>

lemma normalize_replaced:
  assumes "\<not> windows P" "normalized_env P env" "name_ok k" "nul \<notin> set v"
  shows "normalize_env P (drop_key P k env @ [k @ CHR ''='' # v]) = Inr (set_env P env k v)"
proof -
  let ?new = "drop_key P k env @ [k @ CHR ''='' # v]"
  have ok: "env_ok P env" using assms(2) by (simp add: normalized_env_def)
  have key: "entry_key P (k @ CHR ''='' # v) = k"
    using assms by (simp add: entry_key_unix name_ok_def env_split_name)
  have "env_ok P (filter (\<lambda>e. entry_key P e \<noteq> k) env)" using ok by (rule env_ok_filter)
  with entry_ok_name [OF assms(3,4)] key
  have okn: "env_ok P ?new"
    by (auto simp: env_ok_def drop_key_unix [OF assms(1) ok])
  have "sort_entries P ?new = set_env P env k v"
    using set_env_parts [OF assms] normalized_sort_entries [OF okn]
    by (intro normalized_env_unique) (auto simp: drop_key_unix [OF assms(1) ok])
  with okn show ?thesis by (simp add: normalize_env_iff)
qed

lemma name_ok_PWD: "name_ok ''PWD''" and name_ok_driver: "name_ok ''GOPACKAGESDRIVER''"
  and name_ok_GOCACHE: "name_ok ''GOCACHE''"
  by (simp_all add: name_ok_def nul_def)

lemma env_for_command_setter:
  assumes "\<not> windows P" "normalize_env P env = Inr n" "dir \<noteq> []" "abs_path dir = Inr a"
    "nul \<notin> set a"
  shows "env_for_command P abs_path env dir = Inr (set_env P n ''PWD'' a)"
  using normalize_replaced [OF assms(1) normalize_env_normalized [OF assms(2)] name_ok_PWD assms(5)]
    assms by (simp add: env_for_command_def)

lemma env_for_packages_setter:
  assumes "\<not> windows P" "normalize_env P env = Inr n"
    and "lookup_env P n ''GOPACKAGESDRIVER'' \<in> {None, Some [], Some ''off''}"
  shows "env_for_packages P env = Inr (set_env P n ''GOPACKAGESDRIVER'' ''off'')"
  using normalize_replaced [OF assms(1) normalize_env_normalized [OF assms(2)] name_ok_driver,
      of "''off''"] assms by (auto simp: env_for_packages_def nul_def)

lemma env_for_packages_refuses:
  assumes "normalize_env P env = Inr n" "lookup_env P n ''GOPACKAGESDRIVER'' = Some d"
    and "d \<noteq> []" "d \<noteq> ''off''"
  shows "\<exists>e. env_for_packages P env = Inl e"
  using assms by (simp add: env_for_packages_def)

section \<open>The memo key\<close>

lemma split_byte_single: "c \<notin> set s \<Longrightarrow> split_byte c s = [s]"
  by (induction s) auto

lemma split_byte_append_sep: "c \<notin> set s \<Longrightarrow> split_byte c (s @ c # t) = s # split_byte c t"
  by (induction s) auto

lemma split_byte_concat:
  "c \<notin> set s \<Longrightarrow> (\<And>e. e \<in> set es \<Longrightarrow> c \<notin> set e) \<Longrightarrow>
     split_byte c (s @ concat (map (\<lambda>e. c # e) es)) = s # es"
  by (induction es arbitrary: s) (simp_all add: split_byte_single split_byte_append_sep)

definition keyed_entries :: "platform \<Rightarrow> string \<Rightarrow> string list \<Rightarrow> string list" where
  "keyed_entries P dir normalized = filter (\<lambda>entry. \<not> (dir \<noteq> [] \<and>
      equal_key P (fst (cut_byte CHR ''='' entry)) ''PWD'')) normalized"

lemma memo_key_split:
  assumes "memo_key P coordinate dir env = Inr k" "nul \<notin> set (coordinate dir)"
  shows "\<exists>n. normalize_env P env = Inr n
    \<and> split_byte nul k = coordinate dir # keyed_entries P dir n"
proof -
  from assms(1) obtain n where n: "normalize_env P env = Inr n"
    and k: "k = coordinate dir @ concat (map (\<lambda>e. nul # e) (keyed_entries P dir n))"
    by (auto simp: memo_key_def keyed_entries_def split: sum.splits)
  have "nul \<notin> set e" if "e \<in> set (keyed_entries P dir n)" for e
    using that normalize_env_normalized [OF n]
    by (auto simp: keyed_entries_def normalized_env_def env_ok_def entry_ok_def list_all_iff)
  with assms(2) n k show ?thesis by (auto simp: split_byte_concat)
qed

section \<open>Properties\<close>

text \<open>
  C27: normalizing is canonical and idempotent: an admitted environment normalizes to a
  permutation of itself, normalizing that changes nothing, and every reordering of the
  input has the same answer.
\<close>

theorem normalize_env_canonical:
  assumes "normalize_env P env = Inr out"
  shows "mset out = mset env \<and> normalize_env P out = Inr out
    \<and> (mset env' = mset env \<longrightarrow> normalize_env P env' = Inr out)"
  using assms normalize_env_id [OF normalize_env_normalized [OF assms]]
    normalize_env_mset [of env env' P out]
  by (auto simp: normalize_env_iff)

definition unix_platform :: platform where
  "unix_platform = \<lparr>windows = False, to_upper = (\<lambda>s. s), fold_eq = (\<lambda>a b. a = b)\<rparr>"

lemma example_env: "normalize_env unix_platform [''B=1'', ''A=2''] = Inr [''A=2'', ''B=1'']"
  by (simp add: normalize_env_def sort_entries_def env_split_def key_identity_def entry_key_def
      unix_platform_def cut_byte_def nul_def less_prod_simp Let_def)

theorem normalize_env_canonical_witness:
  "normalize_env unix_platform [''A=2'', ''B=1''] = Inr [''A=2'', ''B=1'']"
  using normalize_env_canonical [OF example_env] by blast

text \<open>
  the setter replaces exactly one binding: over a normalized environment the result is
  normalized, the key is bound to the new value and every other lookup is unchanged.
\<close>

theorem set_env_replaces:
  assumes "\<not> windows P" "normalized_env P env" "name_ok k" "nul \<notin> set v"
  shows "normalized_env P (set_env P env k v)
    \<and> lookup_env P (set_env P env k v) j = (if j = k then Some v else lookup_env P env j)"
  using set_env_parts [OF assms] lookup_set_env [OF assms] by blast

theorem set_env_replaces_witness:
  "lookup_env unix_platform (set_env unix_platform [''A=2'', ''B=1''] ''B'' ''7'') ''B'' = Some ''7''"
  using set_env_replaces [of unix_platform "[''A=2'', ''B=1'']" "''B''" "''7''" "''B''"]
    normalize_env_normalized [OF example_env]
  by (simp add: unix_platform_def name_ok_def nul_def)

text \<open>
  the environment of a command is the normalized input with PWD set to the command's
  absolute directory, and nothing else changed.
\<close>

theorem env_for_command_sets_pwd:
  assumes "\<not> windows P" "normalize_env P env = Inr n" "dir \<noteq> []" "abs_path dir = Inr a"
    "nul \<notin> set a"
  shows "\<exists>out. env_for_command P abs_path env dir = Inr out \<and> normalized_env P out
    \<and> (\<forall>j. lookup_env P out j = (if j = ''PWD'' then Some a else lookup_env P n j))"
  using env_for_command_setter [of P env n dir abs_path a] assms set_env_parts [OF assms(1)
      normalize_env_normalized [OF assms(2)] name_ok_PWD assms(5)]
    lookup_set_env [OF assms(1) normalize_env_normalized [OF assms(2)] name_ok_PWD assms(5)]
  by simp

theorem env_for_command_sets_pwd_witness:
  "\<exists>out. env_for_command unix_platform Inr [''B=1'', ''A=2''] ''/d'' = Inr out
    \<and> lookup_env unix_platform out ''PWD'' = Some ''/d''"
  using env_for_command_sets_pwd [of unix_platform _ _ "''/d''" Inr "''/d''", OF _ example_env]
  by (auto simp: unix_platform_def nul_def)

text \<open>
  a memo key determines the directory's coordinate and every entry of the environment
  it was computed under, but for the PWD entry a directory overrides.
\<close>

theorem memo_key_injective:
  assumes "memo_key P coordinate dir env = Inr k" "memo_key P coordinate dir' env' = Inr k"
    and "nul \<notin> set (coordinate dir)" "nul \<notin> set (coordinate dir')"
  shows "\<exists>n n'. normalize_env P env = Inr n \<and> normalize_env P env' = Inr n'
    \<and> coordinate dir = coordinate dir' \<and> keyed_entries P dir n = keyed_entries P dir' n'"
  using memo_key_split [OF assms(1,3)] memo_key_split [OF assms(2,4)] by auto

theorem memo_key_injective_witness:
  "\<exists>n n'. normalize_env unix_platform [''B=1'', ''A=2''] = Inr n
    \<and> normalize_env unix_platform [''A=2'', ''B=1''] = Inr n'
    \<and> keyed_entries unix_platform [] n = keyed_entries unix_platform [] n'"
  using memo_key_injective [of unix_platform "\<lambda>d. d" "[]" "[''B=1'', ''A=2'']" _ "[]"
      "[''A=2'', ''B=1'']"]
    example_env normalize_env_id [OF normalize_env_normalized [OF example_env]]
  by (simp add: memo_key_def nul_def)

end
