(* ===== verification/Guards.thy ===== *)
theory Guards
  imports Sha256 Env_Policy
begin

text \<open>
  internal/guard: the environment facts a recording is compared on. \<open>compare_facts\<close> is
  the comparison under a result kind's policy, \<open>capture\<close> and \<open>capture_runtime\<close> gather
  the values, \<open>toolchain_of\<close>, \<open>build_config_text\<close> and \<open>runtime_config_text\<close> derive them.
  What the host answers is a parameter: the \<open>go env\<close> snapshot (a lookup function, empty
  for an absent key), the machine facts, the caller's context. The lemmas show that
  agreement is agreement on every applicable value with none missing, and that each digest
  preimage determines the values it was written from.
\<close>

section \<open>Result kinds and guard values\<close>

text \<open>
  Kind is a Go int with the two named values; every other int is a value a decoded record
  can carry, so the type keeps it.
\<close>

type_synonym kind = int

definition CodeResult :: kind where "CodeResult = 1"
definition Measurement :: kind where "Measurement = 2"

definition valid_kind :: "kind \<Rightarrow> bool" where
  "valid_kind k \<longleftrightarrow> k = CodeResult \<or> k = Measurement"

lemma CodeResult_neq_Measurement [simp]: "CodeResult \<noteq> Measurement" "Measurement \<noteq> CodeResult"
  by (simp_all add: CodeResult_def Measurement_def)

definition invalid_kind_error :: "kind \<Rightarrow> string" where
  "invalid_kind_error k = ''guard: invalid result kind '' @ show_int k"

record guards =
  g_toolchain :: string
  g_build_config :: string
  g_machine :: string
  g_runtime_config :: string

record runtime_guards =
  rg_machine :: string
  rg_runtime_config :: string

definition no_runtime_guards :: runtime_guards where
  "no_runtime_guards = \<lparr>rg_machine = [], rg_runtime_config = []\<rparr>"

section \<open>Comparing\<close>

datatype axis = NoAxis | KindAxis | ToolchainAxis | BuildConfigAxis | MachineAxis | RuntimeConfigAxis

fun axis_string :: "axis \<Rightarrow> string" where
  "axis_string KindAxis = ''kind''"
| "axis_string ToolchainAxis = ''toolchain''"
| "axis_string BuildConfigAxis = ''buildconfig''"
| "axis_string MachineAxis = ''machine''"
| "axis_string RuntimeConfigAxis = ''runtimeconfig''"
| "axis_string NoAxis = ''''"

record mismatch =
  m_axis :: axis
  m_missing :: bool

definition agreement :: mismatch where
  "agreement = \<lparr>m_axis = NoAxis, m_missing = False\<rparr>"

fun first_mismatch :: "(axis \<times> string \<times> string) list \<Rightarrow> mismatch" where
  "first_mismatch [] = agreement"
| "first_mismatch ((a, r, c) # ps) =
     (if r = [] \<or> r \<noteq> c then \<lparr>m_axis = a, m_missing = (r = [] \<or> c = [])\<rparr>
      else first_mismatch ps)"

definition guard_pairs :: "guards \<Rightarrow> guards \<Rightarrow> kind \<Rightarrow> (axis \<times> string \<times> string) list" where
  "guard_pairs recorded current kind =
     [(ToolchainAxis, g_toolchain recorded, g_toolchain current),
      (BuildConfigAxis, g_build_config recorded, g_build_config current)]
     @ (if kind = Measurement
        then [(MachineAxis, g_machine recorded, g_machine current),
              (RuntimeConfigAxis, g_runtime_config recorded, g_runtime_config current)]
        else [])"

definition compare_facts :: "guards \<Rightarrow> guards \<Rightarrow> kind \<Rightarrow> mismatch" where
  "compare_facts recorded current kind =
     (if \<not> valid_kind kind then \<lparr>m_axis = KindAxis, m_missing = False\<rparr>
      else first_mismatch (guard_pairs recorded current kind))"

definition compare_guards :: "guards \<Rightarrow> guards \<Rightarrow> kind \<Rightarrow> string" where
  "compare_guards recorded current kind = axis_string (m_axis (compare_facts recorded current kind))"

section \<open>Deriving the code guards\<close>

text \<open>toolchainOf: refused when any of the three values is empty.\<close>

definition toolchain_keys :: "string list" where
  "toolchain_keys = [''GOVERSION'', ''GOHOSTOS'', ''GOHOSTARCH'']"

definition toolchain_of :: "(string \<Rightarrow> string) \<Rightarrow> string result" where
  "toolchain_of snap = (case find (\<lambda>k. snap k = []) toolchain_keys of
      Some k \<Rightarrow> Inl (''guard: toolchain identity: go env -json answered no '' @ k)
    | None \<Rightarrow> Inr (snap ''GOVERSION'' @ '' '' @ snap ''GOHOSTOS'' @ ''/'' @ snap ''GOHOSTARCH''))"

definition build_config_go_env_keys :: "string list" where
  "build_config_go_env_keys = [
     ''GOOS'', ''GOARCH'',
     ''GOAMD64'', ''GOARM'', ''GOARM64'', ''GO386'', ''GOEXPERIMENT'',
     ''CGO_ENABLED'', ''CGO_CFLAGS'', ''CGO_CPPFLAGS'', ''CGO_CXXFLAGS'', ''CGO_FFLAGS'', ''CGO_LDFLAGS'',
     ''CC'', ''CXX'', ''PKG_CONFIG'', ''GOFLAGS'']"

definition build_config_os_env_keys :: "string list" where
  "build_config_os_env_keys =
     [''PKG_CONFIG_PATH'', ''PKG_CONFIG_LIBDIR'', ''PKG_CONFIG_SYSROOT_DIR'']"

definition env_value :: "platform \<Rightarrow> string list \<Rightarrow> string \<Rightarrow> string" where
  "env_value P env k = (case lookup_env P env k of Some v \<Rightarrow> v | None \<Rightarrow> [])"

text \<open>The map the Go loop fills before it sorts the keys.\<close>

definition build_config_value ::
    "platform \<Rightarrow> (string \<Rightarrow> string) \<Rightarrow> string list \<Rightarrow> string \<Rightarrow> string" where
  "build_config_value P look process_env k =
     (if k \<in> set build_config_os_env_keys then env_value P process_env k else look k)"

definition build_config_keys :: "string list" where
  "build_config_keys = sort (build_config_go_env_keys @ build_config_os_env_keys)"

definition build_config_text ::
    "platform \<Rightarrow> (string \<Rightarrow> string) \<Rightarrow> string list \<Rightarrow> string list \<Rightarrow> string" where
  "build_config_text P look process_env build_inputs =
     concat (map (\<lambda>k. ''env '' @ framed k @ '' ''
        @ framed (build_config_value P look process_env k) @ [newline]) build_config_keys)
     @ concat (map (\<lambda>i. ''buildinput '' @ framed i @ [newline]) build_inputs)"

definition build_config_digest ::
    "platform \<Rightarrow> (string \<Rightarrow> string) \<Rightarrow> string list \<Rightarrow> string list \<Rightarrow> string" where
  "build_config_digest P look process_env build_inputs =
     digest (build_config_text P look process_env build_inputs)"

section \<open>Deriving the measurement guards\<close>

definition runtime_config_env_keys :: "string list" where
  "runtime_config_env_keys = [''GOGC'', ''GODEBUG'', ''GOMEMLIMIT'', ''GOMAXPROCS'']"

definition runtime_config_text :: "platform \<Rightarrow> string list \<Rightarrow> string" where
  "runtime_config_text P env = ''gofresh/runtime-config@1'' @ [newline]
     @ show_nat (length runtime_config_env_keys) @ '':''
     @ concat (map (\<lambda>k. framed k @ framed (env_value P env k)) runtime_config_env_keys)"

definition runtime_config :: "platform \<Rightarrow> string list \<Rightarrow> string" where
  "runtime_config P env = digest (runtime_config_text P env)"

section \<open>Capturing\<close>

text \<open>
  A context is asked for its error at fixed points; \<open>ctx\<close> is the list of answers, one per
  point (None: still live), so every cancellation a run can observe is a value of it.
  Points past the end of the list are live. \<open>machine\<close> is gatherFacts with its fingerprint.
\<close>

definition ctx_at :: "string option list \<Rightarrow> nat \<Rightarrow> string option" where
  "ctx_at ctx n = (if n < length ctx then ctx ! n else None)"

definition capture_runtime_for ::
    "string option list \<Rightarrow> string list \<Rightarrow> kind \<Rightarrow> string result \<Rightarrow> (string list \<Rightarrow> string)
      \<Rightarrow> runtime_guards result" where
  "capture_runtime_for ctx env kind machine runtime_guard =
     (case ctx_at ctx 0 of Some e \<Rightarrow> Inl e
      | None \<Rightarrow>
         (if kind = CodeResult then Inr no_runtime_guards
          else (case ctx_at ctx 1 of Some e \<Rightarrow> Inl e
            | None \<Rightarrow> (case machine of Inl e \<Rightarrow> Inl e
                | Inr fp \<Rightarrow> Inr \<lparr>rg_machine = fp, rg_runtime_config = runtime_guard env\<rparr>))))"

text \<open>
  CaptureRuntime: a nil context (None) is refused; the deferred function replaces any
  answer by the context's error at return, the last point asked.
\<close>

definition capture_runtime ::
    "platform \<Rightarrow> string option list option \<Rightarrow> string option \<Rightarrow> string list \<Rightarrow> kind \<Rightarrow> string result
      \<Rightarrow> runtime_guards result" where
  "capture_runtime P mctx at_return env kind machine =
     (case mctx of None \<Rightarrow> Inl ''guard: nil runtime context''
      | Some ctx \<Rightarrow>
         (case at_return of Some e \<Rightarrow> Inl e
          | None \<Rightarrow>
             (case ctx_at ctx 0 of Some e \<Rightarrow> Inl e
              | None \<Rightarrow>
                 (if \<not> valid_kind kind then Inl (invalid_kind_error kind)
                  else (case normalize_env P env of
                      Inl e \<Rightarrow> Inl (''guard: runtime env: '' @ e)
                    | Inr n \<Rightarrow>
                        capture_runtime_for (drop 1 ctx) n kind machine (runtime_config P))))))"

text \<open>
  captureFor, whose reader already holds the pass's snapshot; and Capture, which normalizes
  both environments before it asks for one. \<open>snapshot\<close> is the reader's answer.
\<close>

definition capture_for ::
    "platform \<Rightarrow> string option list \<Rightarrow> (string \<Rightarrow> string) result \<Rightarrow> string list \<Rightarrow> kind
      \<Rightarrow> string list \<Rightarrow> string result \<Rightarrow> (string list \<Rightarrow> string) \<Rightarrow> guards result" where
  "capture_for P ctx snapshot env kind build_inputs machine runtime_guard =
     (if \<not> valid_kind kind then Inl (invalid_kind_error kind)
      else bind_res snapshot (\<lambda>snap.
        bind_res (toolchain_of snap) (\<lambda>tc.
          bind_res (capture_runtime_for ctx env kind machine runtime_guard) (\<lambda>rt.
            Inr \<lparr>g_toolchain = tc,
                 g_build_config = build_config_digest P snap env build_inputs,
                 g_machine = rg_machine rt, g_runtime_config = rg_runtime_config rt\<rparr>))))"

definition capture_guards ::
    "platform \<Rightarrow> string option list \<Rightarrow> ((string \<Rightarrow> string) result \<times> string list) option
      \<Rightarrow> string list \<Rightarrow> kind \<Rightarrow> string list \<Rightarrow> string result \<Rightarrow> guards result" where
  "capture_guards P ctx reader runtime_env kind build_inputs machine =
     (case reader of None \<Rightarrow> Inl ''guard: nil environment reader''
      | Some (snapshot, reader_env) \<Rightarrow>
         (if \<not> valid_kind kind then Inl (invalid_kind_error kind)
          else (case normalize_env P reader_env of
              Inl e \<Rightarrow> Inl (''guard: '' @ e)
            | Inr normalized \<Rightarrow>
                (case normalize_env P runtime_env of
                   Inl e \<Rightarrow> Inl (''guard: runtime env: '' @ e)
                 | Inr normalized_runtime \<Rightarrow>
                     bind_res snapshot (\<lambda>_. capture_for P ctx snapshot normalized kind build_inputs
                       machine (\<lambda>_. runtime_config P normalized_runtime))))))"

section \<open>What agreement means\<close>

text \<open>The guards a kind selects: the specification the ordered comparison implements.\<close>

definition applicable_guards :: "kind \<Rightarrow> (guards \<Rightarrow> string) list" where
  "applicable_guards kind =
     [g_toolchain, g_build_config]
     @ (if kind = Measurement then [g_machine, g_runtime_config] else [])"

lemma first_mismatch_agreement:
  "NoAxis \<notin> fst ` set ps \<Longrightarrow>
     m_axis (first_mismatch ps) = NoAxis \<longleftrightarrow> (\<forall>(a, r, c) \<in> set ps. r \<noteq> [] \<and> r = c)"
  by (induction ps rule: first_mismatch.induct) (auto simp: agreement_def)

lemma guard_pairs_selected:
  "(\<forall>(a, r, c) \<in> set (guard_pairs recorded current kind). r \<noteq> [] \<and> r = c)
     \<longleftrightarrow> (\<forall>sel \<in> set (applicable_guards kind). sel recorded \<noteq> [] \<and> sel recorded = sel current)"
  by (auto simp: guard_pairs_def applicable_guards_def)

lemma guard_pairs_axes: "NoAxis \<notin> fst ` set (guard_pairs recorded current kind)"
  by (auto simp: guard_pairs_def)

lemma compare_facts_agrees:
  "m_axis (compare_facts recorded current kind) = NoAxis \<longleftrightarrow>
     valid_kind kind
     \<and> (\<forall>sel \<in> set (applicable_guards kind). sel recorded \<noteq> [] \<and> sel recorded = sel current)"
  using first_mismatch_agreement [OF guard_pairs_axes] guard_pairs_selected
  by (simp add: compare_facts_def)

lemma axis_string_empty: "axis_string a = [] \<longleftrightarrow> a = NoAxis"
  by (cases a) simp_all

lemma compare_guards_agrees:
  "compare_guards recorded current kind = [] \<longleftrightarrow>
     valid_kind kind
     \<and> (\<forall>sel \<in> set (applicable_guards kind). sel recorded \<noteq> [] \<and> sel recorded = sel current)"
  by (simp add: compare_guards_def axis_string_empty compare_facts_agrees)

text \<open>Agreement is a partial equivalence: it never relates a record with a missing value.\<close>

lemma compare_facts_sym:
  "m_axis (compare_facts a b kind) = NoAxis \<longleftrightarrow> m_axis (compare_facts b a kind) = NoAxis"
  by (auto simp: compare_facts_agrees)

lemma compare_facts_trans:
  "m_axis (compare_facts a b kind) = NoAxis \<Longrightarrow> m_axis (compare_facts b c kind) = NoAxis \<Longrightarrow>
     m_axis (compare_facts a c kind) = NoAxis"
  by (auto simp: compare_facts_agrees)

section \<open>What the digest preimages determine\<close>

lemma toolchain_of_complete:
  "toolchain_of snap = Inr t \<Longrightarrow>
     snap ''GOVERSION'' \<noteq> [] \<and> snap ''GOHOSTOS'' \<noteq> [] \<and> snap ''GOHOSTARCH'' \<noteq> [] \<and> t \<noteq> []"
  by (auto simp: toolchain_of_def toolchain_keys_def split: option.splits if_splits)

lemma framed_lines_prefix:
  "concat (map (\<lambda>k. pre @ framed k @ mid @ framed (f k) @ suf) ks) @ x
     = concat (map (\<lambda>k. pre @ framed k @ mid @ framed (g k) @ suf) ks) @ y
   \<longleftrightarrow> (\<forall>k \<in> set ks. f k = g k) \<and> x = y"
  by (induction ks) (auto simp: framed_append)

lemma framed_list_inj:
  "concat (map (\<lambda>i. pre @ framed i @ suf) a) = concat (map (\<lambda>i. pre @ framed i @ suf) b)
     \<longleftrightarrow> a = b" if "pre \<noteq> []"
proof (induction a arbitrary: b)
  case Nil
  with that show ?case by (cases b) auto
next
  case (Cons i a)
  with that show ?case by (cases b) (auto simp: framed_append)
qed

lemma build_config_text_inj:
  "build_config_text P f e a = build_config_text Q g e' b \<longleftrightarrow>
     (\<forall>k \<in> set build_config_keys. build_config_value P f e k = build_config_value Q g e' k)
     \<and> a = b"
  using framed_lines_prefix [of "''env ''" "'' ''" "build_config_value P f e" "[newline]"
      build_config_keys _ "build_config_value Q g e'"]
    framed_list_inj [of "''buildinput ''" "[newline]" a b]
  by (simp add: build_config_text_def)

lemma runtime_config_text_inj:
  "runtime_config_text P e = runtime_config_text Q e' \<longleftrightarrow>
     (\<forall>k \<in> set runtime_config_env_keys. env_value P e k = env_value Q e' k)"
  using framed_lines_prefix [of "[]" "[]" "env_value P e" "[]" runtime_config_env_keys "[]"
      "env_value Q e'" "[]"]
  by (simp add: runtime_config_text_def)

lemma build_config_digest_nonempty: "build_config_digest P f e a \<noteq> []"
  by (simp add: build_config_digest_def digest_nonempty)

lemma runtime_config_nonempty: "runtime_config P e \<noteq> []"
  by (simp add: runtime_config_def digest_nonempty)

section \<open>What capturing yields\<close>

lemma capture_runtime_for_code:
  "capture_runtime_for ctx env CodeResult machine rg = Inr rt \<Longrightarrow> rt = no_runtime_guards"
  by (auto simp: capture_runtime_for_def split: option.splits)

lemma capture_runtime_for_measurement:
  "capture_runtime_for ctx env Measurement machine rg = Inr rt \<Longrightarrow>
     machine = Inr (rg_machine rt) \<and> rg_runtime_config rt = rg env"
  by (auto simp: capture_runtime_for_def split: option.splits sum.splits)

lemma capture_for_selected:
  assumes "capture_for P ctx snapshot env kind inputs machine rg = Inr g"
    and "machine \<noteq> Inr []" "rg env \<noteq> []" "sel \<in> set (applicable_guards kind)"
  shows "sel g \<noteq> []"
proof -
  from assms(1) have "valid_kind kind" by (auto simp: capture_for_def split: if_splits)
  with assms show ?thesis
    by (auto simp: capture_for_def bind_res_Inr_iff applicable_guards_def valid_kind_def
        build_config_digest_nonempty dest!: toolchain_of_complete capture_runtime_for_measurement
        split: if_splits)
qed

lemma capture_guards_parts:
  assumes "capture_guards P ctx reader runtime_env kind inputs machine = Inr g"
  obtains snap env n nr where "reader = Some (Inr snap, env)" "normalize_env P env = Inr n"
    "normalize_env P runtime_env = Inr nr" "valid_kind kind"
    "capture_for P ctx (Inr snap) n kind inputs machine (\<lambda>_. runtime_config P nr) = Inr g"
  using assms
  by (auto simp: capture_guards_def bind_res_Inr_iff split: option.splits prod.splits sum.splits
      if_splits)

lemma capture_for_parts:
  assumes "capture_for P ctx (Inr snap) env kind inputs machine rg = Inr g"
  shows "toolchain_of snap = Inr (g_toolchain g)"
    and "g_build_config g = build_config_digest P snap env inputs"
    and "kind = CodeResult \<Longrightarrow> g_machine g = [] \<and> g_runtime_config g = []"
    and "kind = Measurement \<Longrightarrow> machine = Inr (g_machine g) \<and> g_runtime_config g = rg env"
  using assms
  by (auto simp: capture_for_def bind_res_Inr_iff no_runtime_guards_def
      dest!: capture_runtime_for_code capture_runtime_for_measurement split: if_splits)

section \<open>The digest texts as identities\<close>

interpretation build_id: identity_text
  "\<lambda>(P, f, e, a). build_config_text P f e a"
  "\<lambda>(P, f, e, a). (map (build_config_value P f e) build_config_keys, a)"
  by unfold_locales (auto simp: build_config_text_inj)

interpretation runtime_id: identity_text
  "\<lambda>(P, e). runtime_config_text P e"
  "\<lambda>(P, e). map (env_value P e) runtime_config_env_keys"
  by unfold_locales (auto simp: runtime_config_text_inj)

section \<open>Properties\<close>

text \<open>
  the guards agree exactly when the kind is a result kind and every guard the kind
  selects is recorded and equal to the current one. A missing value is a mismatch, and the
  machine and runtime-configuration guards are never consulted for a code result.
\<close>

theorem guards_agree_iff:
  "compare_guards recorded current kind = [] \<longleftrightarrow>
     (kind = CodeResult \<or> kind = Measurement)
     \<and> g_toolchain recorded \<noteq> [] \<and> g_toolchain recorded = g_toolchain current
     \<and> g_build_config recorded \<noteq> [] \<and> g_build_config recorded = g_build_config current
     \<and> (if kind = Measurement
        then g_machine recorded \<noteq> [] \<and> g_machine recorded = g_machine current
          \<and> g_runtime_config recorded \<noteq> [] \<and> g_runtime_config recorded = g_runtime_config current
        else True)"
  by (auto simp: compare_guards_agrees valid_kind_def applicable_guards_def)

text \<open>
  C24: the text a build-configuration guard digests is the same for two environments exactly
  when every build-affecting setting and the build inputs are, and so is the text of a
  runtime-configuration guard with its four variables: no setting is lost by the framing, and
  nothing else moves a guard.
\<close>

theorem guard_texts_exact:
  "build_config_digest P f e a = digest (build_config_text P f e a)
   \<and> (build_config_text P f e a = build_config_text P g e' b \<longleftrightarrow>
     map (build_config_value P f e) build_config_keys = map (build_config_value P g e') build_config_keys
     \<and> a = b)
   \<and> runtime_config P e = digest (runtime_config_text P e)
   \<and> (runtime_config_text P e = runtime_config_text P e' \<longleftrightarrow>
     env_value P e ''GOGC'' = env_value P e' ''GOGC''
     \<and> env_value P e ''GODEBUG'' = env_value P e' ''GODEBUG''
     \<and> env_value P e ''GOMEMLIMIT'' = env_value P e' ''GOMEMLIMIT''
     \<and> env_value P e ''GOMAXPROCS'' = env_value P e' ''GOMAXPROCS'')"
  using build_id.exact [of "(P, f, e, a)" "(P, g, e', b)"] runtime_id.exact [of "(P, e)" "(P, e')"]
  by (auto simp: build_config_digest_def runtime_config_def runtime_config_env_keys_def)

text \<open>
  C25: a capture yields every guard its kind selects, none of them empty, and a code result
  carries no measurement guard; the machine facts are the only part that may be missing.
\<close>

theorem capture_selects:
  assumes "capture_guards P ctx reader runtime_env kind inputs machine = Inr g"
    and "machine \<noteq> Inr []"
  shows "list_all (\<lambda>sel. sel g \<noteq> []) (applicable_guards kind)
    \<and> (kind = CodeResult \<longrightarrow> g_machine g = [] \<and> g_runtime_config g = [])"
proof -
  from assms(1) obtain snap env n nr where
    "capture_for P ctx (Inr snap) n kind inputs machine (\<lambda>_. runtime_config P nr) = Inr g"
    by (rule capture_guards_parts)
  with assms(2) capture_for_selected [of P ctx "Inr snap" n kind inputs machine
      "\<lambda>_. runtime_config P nr" g] capture_for_parts(3) [of P ctx snap n kind inputs machine _ g]
  show ?thesis by (auto simp: list_all_iff runtime_config_nonempty)
qed

theorem capture_selects_witness:
  "\<exists>g. capture_guards unix_platform [] (Some (Inr (\<lambda>k. ''x''), [])) [] CodeResult [] (Inl ''off'')
      = Inr g \<and> g_toolchain g \<noteq> [] \<and> g_machine g = []"
proof -
  obtain g where g: "capture_guards unix_platform [] (Some (Inr (\<lambda>k. ''x''), [])) [] CodeResult []
      (Inl ''off'') = Inr g"
    by (simp add: capture_guards_def capture_for_def capture_runtime_for_def ctx_at_def
        toolchain_of_def toolchain_keys_def valid_kind_def normalize_env_def sort_entries_def)
  with capture_selects [OF g] show ?thesis by (simp add: applicable_guards_def)
qed

end
