(* ===== verification/Go_Json.thy ===== *)
theory Go_Json
  imports Prelude
begin

text \<open>
  The encoder of encoding/json on strings and on arrays of strings, as the sources use it
  for canonical keys (session.go, \<open>outcomeSubject\<close>): HTML-sensitive and control bytes
  escaped, well-formed UTF-8 kept, U+2028 and U+2029 escaped, every malformed byte replaced
  by the escape of U+FFFD. The lemmas show that the encoding of well-formed UTF-8 is
  injective and self-delimiting, which is what makes it a key.
\<close>

section \<open>UTF-8\<close>

abbreviation byte_of :: "char \<Rightarrow> nat" where
  "byte_of \<equiv> of_char"

definition continuation :: "nat \<Rightarrow> bool" where
  "continuation b \<longleftrightarrow> 0x80 \<le> b \<and> b \<le> 0xBF"

text \<open>
  utf8.DecodeRuneInString: the length in bytes of the well-formed encoding at the head of a
  list of bytes, 0 where the function answers RuneError with width 1.
\<close>

fun utf8_size :: "nat list \<Rightarrow> nat" where
  "utf8_size [] = 0"
| "utf8_size (a # rest) =
     (if a < 0x80 then 1
      else if 0xC2 \<le> a \<and> a \<le> 0xDF then
        (case rest of b # _ \<Rightarrow> if continuation b then 2 else 0 | _ \<Rightarrow> 0)
      else if 0xE0 \<le> a \<and> a \<le> 0xEF then
        (case rest of b # c # _ \<Rightarrow>
           if (if a = 0xE0 then 0xA0 else 0x80) \<le> b \<and> b \<le> (if a = 0xED then 0x9F else 0xBF)
             \<and> continuation c then 3 else 0
         | _ \<Rightarrow> 0)
      else if 0xF0 \<le> a \<and> a \<le> 0xF4 then
        (case rest of b # c # d # _ \<Rightarrow>
           if (if a = 0xF0 then 0x90 else 0x80) \<le> b \<and> b \<le> (if a = 0xF4 then 0x8F else 0xBF)
             \<and> continuation c \<and> continuation d then 4 else 0
         | _ \<Rightarrow> 0)
      else 0)"

lemma utf8_size_le: "utf8_size bs \<le> length bs"
  by (cases bs) (auto split: list.splits)

section \<open>The encoder\<close>

definition hex_digit :: "nat \<Rightarrow> char" where
  "hex_digit n = (''0123456789abcdef'' ! n)"

definition html_safe :: "nat \<Rightarrow> bool" where
  "html_safe b \<longleftrightarrow> 0x20 \<le> b \<and> b < 0x80 \<and> b \<notin> {0x22, 0x26, 0x3C, 0x3E, 0x5C}"

definition backslash :: char where "backslash = CHR 0x5C"

definition escape_ascii :: "char \<Rightarrow> string" where
  "escape_ascii c = (let b = byte_of c in
     if html_safe b then [c]
     else if b = 0x22 \<or> b = 0x5C then [backslash, c]
     else if b = 8 then [backslash, CHR ''b'']
     else if b = 12 then [backslash, CHR ''f'']
     else if b = 10 then [backslash, CHR ''n'']
     else if b = 13 then [backslash, CHR ''r'']
     else if b = 9 then [backslash, CHR ''t'']
     else backslash # ''u00'' @ [hex_digit (b div 16), hex_digit (b mod 16)])"

definition escape_multi :: "string \<Rightarrow> string" where
  "escape_multi cs =
     (if map byte_of cs = [0xE2, 0x80, 0xA8] then backslash # ''u2028''
      else if map byte_of cs = [0xE2, 0x80, 0xA9] then backslash # ''u2029''
      else cs)"

function json_escape :: "string \<Rightarrow> string" where
  "json_escape [] = []"
| "json_escape (c # cs) =
     (if byte_of c < 0x80 then escape_ascii c @ json_escape cs
      else (case utf8_size (map byte_of (c # cs)) of
          0 \<Rightarrow> backslash # ''ufffd'' @ json_escape cs
        | Suc n \<Rightarrow> escape_multi (c # take n cs) @ json_escape (drop n cs)))"
  by pat_completeness auto

termination by (relation "measure length") (auto simp: less_Suc_eq_le)

definition quote :: char where "quote = CHR 0x22"

definition json_string :: "string \<Rightarrow> string" where
  "json_string s = quote # json_escape s @ [quote]"

text \<open>json.Marshal of a []string.\<close>

definition json_strings :: "string list \<Rightarrow> string" where
  "json_strings xs = ''['' @ join_with '','' (map json_string xs) @ '']''"

text \<open>Well-formed UTF-8.\<close>

function valid_utf8 :: "string \<Rightarrow> bool" where
  "valid_utf8 [] = True"
| "valid_utf8 (c # cs) =
     (case utf8_size (map byte_of (c # cs)) of
        0 \<Rightarrow> False | Suc n \<Rightarrow> valid_utf8 (drop n cs))"
  by pat_completeness auto

termination by (relation "measure length") (auto simp: less_Suc_eq_le)

section \<open>The encoding is a key\<close>

definition hex_val :: "char \<Rightarrow> nat" where
  "hex_val c = (let b = byte_of c in if b < 58 then b - 48 else b - 87)"

lemma hex_val_digit: "n < 16 \<Longrightarrow> hex_val (hex_digit n) = n"
proof -
  have "list_all (\<lambda>m. hex_val (hex_digit m) = m) [0..<16]" by code_simp
  then show "n < 16 \<Longrightarrow> ?thesis" by (simp add: list_all_iff)
qed

text \<open>Reading one escaped ASCII byte back.\<close>

definition unescape_ascii :: "string \<Rightarrow> char \<times> string" where
  "unescape_ascii s =
     (if hd s \<noteq> backslash then (hd s, tl s)
      else (let e = s ! 1; rest = drop 2 s in
        if e = quote \<or> e = backslash then (e, rest)
        else if e = CHR ''b'' then (CHR 0x08, rest)
        else if e = CHR ''f'' then (CHR 0x0C, rest)
        else if e = CHR ''n'' then (CHR 0x0A, rest)
        else if e = CHR ''r'' then (CHR 0x0D, rest)
        else if e = CHR ''t'' then (CHR 0x09, rest)
        else (char_of (16 * hex_val (s ! 4) + hex_val (s ! 5)), drop 6 s)))"

lemma char_of_byte: "byte_of c = n \<Longrightarrow> char_of n = c"
  by auto

lemma byte_of_inj: "byte_of c = byte_of d \<longleftrightarrow> c = d"
  by (metis char_of_char)

lemma backslash_byte: "c = backslash \<longleftrightarrow> byte_of c = 0x5C"
  by (simp add: backslash_def flip: byte_of_inj)

lemma quote_byte: "c = quote \<longleftrightarrow> byte_of c = 0x22"
  by (simp add: quote_def flip: byte_of_inj)

lemma unescape_escape:
  assumes "byte_of c < 0x80"
  shows "unescape_ascii (escape_ascii c @ x) = (c, x)"
proof -
  have hex: "char_of (16 * hex_val (hex_digit (byte_of c div 16)) + hex_val (hex_digit (byte_of c mod 16))) = c"
    using assms by (simp add: hex_val_digit)
  show ?thesis
  proof (cases "html_safe (byte_of c)")
    case True
    then have "c \<noteq> backslash" by (simp add: backslash_byte html_safe_def)
    with True show ?thesis by (simp add: escape_ascii_def unescape_ascii_def)
  next
    case unsafe: False
    show ?thesis
    proof (cases "byte_of c \<in> {0x22, 0x5C, 8, 12, 10, 13, 9}")
      case True
      then consider "c = CHR 0x22" | "c = CHR 0x5C" | "c = CHR 0x08" | "c = CHR 0x0C"
        | "c = CHR 0x0A" | "c = CHR 0x0D" | "c = CHR 0x09"
        by (auto simp flip: byte_of_inj)
      then show ?thesis
        by cases (simp_all add: escape_ascii_def unescape_ascii_def Let_def quote_def backslash_def
            html_safe_def)
    next
      case False
      with unsafe have "escape_ascii c = backslash # ''u00'' @
          [hex_digit (byte_of c div 16), hex_digit (byte_of c mod 16)]"
        by (simp add: escape_ascii_def Let_def)
      then show ?thesis using hex by (simp add: unescape_ascii_def quote_def backslash_def)
    qed
  qed
qed

lemma escape_ascii_inj:
  "byte_of c < 0x80 \<Longrightarrow> byte_of d < 0x80 \<Longrightarrow>
     escape_ascii c @ x = escape_ascii d @ y \<Longrightarrow> c = d \<and> x = y"
  by (metis unescape_escape prod.inject)

lemma escape_ascii_head:
  "byte_of c < 0x80 \<Longrightarrow> \<exists>h r. escape_ascii c = h # r \<and> byte_of h < 0x80 \<and> h \<noteq> quote"
  by (auto simp: escape_ascii_def Let_def quote_byte backslash_byte backslash_def html_safe_def)

text \<open>The well-formed encoding of one rune.\<close>

definition rune_chunk :: "string \<Rightarrow> bool" where
  "rune_chunk ch \<longleftrightarrow> ch \<noteq> [] \<and> utf8_size (map byte_of ch) = length ch"

definition escape_chunk :: "string \<Rightarrow> string" where
  "escape_chunk ch = (if byte_of (hd ch) < 0x80 then escape_ascii (hd ch) else escape_multi ch)"

definition lead_len :: "nat \<Rightarrow> nat" where
  "lead_len a = (if a < 0x80 then 1 else if a \<le> 0xDF then 2 else if a \<le> 0xEF then 3 else 4)"

lemma utf8_size_lead: "utf8_size (a # bs) \<noteq> 0 \<Longrightarrow> utf8_size (a # bs) = lead_len a"
proof -
  assume nz: "utf8_size (a # bs) \<noteq> 0"
  consider "a < 0x80" | "0xC2 \<le> a" "a \<le> 0xDF" | "0xE0 \<le> a" "a \<le> 0xEF" | "0xF0 \<le> a" "a \<le> 0xF4"
    | "0x80 \<le> a" "a < 0xC2" | "0xF4 < a" by linarith
  then show ?thesis
    using nz by cases (simp_all add: lead_len_def split: list.split_asm if_split_asm)
qed

lemma rune_chunk_length: "rune_chunk (c # cs) \<Longrightarrow> Suc (length cs) = lead_len (byte_of c)"
  using utf8_size_lead [of "byte_of c" "map byte_of cs"]
  by (simp add: rune_chunk_def del: utf8_size.simps)

lemma rune_chunk_lead: "rune_chunk (c # cs) \<Longrightarrow> byte_of c < 0x80 \<or> 0xC2 \<le> byte_of c"
  by (auto simp: rune_chunk_def split: if_splits)

lemma escape_multi_head:
  "rune_chunk (c # cs) \<Longrightarrow> \<not> byte_of c < 0x80 \<Longrightarrow>
     escape_multi (c # cs) = c # cs \<and> 0xC2 \<le> byte_of c
     \<or> (\<exists>h. escape_multi (c # cs) = backslash # ''u202'' @ [h] \<and> (h = CHR ''8'' \<or> h = CHR ''9''))"
  using rune_chunk_lead [of c cs] by (auto simp: escape_multi_def)

lemma escape_ascii_not_202:
  "byte_of c < 0x80 \<Longrightarrow> escape_ascii c @ x \<noteq> backslash # ''u202'' @ y"
  by (auto simp: escape_ascii_def Let_def quote_byte backslash_byte backslash_def html_safe_def)

lemma escape_multi_202_inj:
  "escape_multi a = backslash # ''u202'' @ [h] \<Longrightarrow> escape_multi b = backslash # ''u202'' @ [h] \<Longrightarrow>
     byte_of (hd a) \<noteq> 0x5C \<Longrightarrow> byte_of (hd b) \<noteq> 0x5C \<Longrightarrow> map byte_of a = map byte_of b"
  by (auto simp: escape_multi_def backslash_def split: if_splits)

lemma map_byte_inj: "map byte_of a = map byte_of b \<Longrightarrow> a = b"
  by (rule map_injective) (auto simp: inj_def byte_of_inj)

lemma escape_chunk_inj:
  assumes a: "rune_chunk a" and b: "rune_chunk b"
    and eq: "escape_chunk a @ x = escape_chunk b @ y"
  shows "a = b \<and> x = y"
proof -
  from a obtain c cs where ac: "a = c # cs" by (cases a) (auto simp: rune_chunk_def)
  from b obtain d ds where bd: "b = d # ds" by (cases b) (auto simp: rune_chunk_def)
  have one: "cs = []" if "byte_of c < 0x80"
    using rune_chunk_length [of c cs] a ac that by (simp add: lead_len_def)
  have one': "ds = []" if "byte_of d < 0x80"
    using rune_chunk_length [of d ds] b bd that by (simp add: lead_len_def)
  consider (aa) "byte_of c < 0x80" "byte_of d < 0x80"
    | (am) "byte_of c < 0x80" "\<not> byte_of d < 0x80"
    | (ma) "\<not> byte_of c < 0x80" "byte_of d < 0x80"
    | (mm) "\<not> byte_of c < 0x80" "\<not> byte_of d < 0x80" by blast
  then show ?thesis
  proof cases
    case aa
    with eq one one' ac bd show ?thesis by (auto simp: escape_chunk_def dest: escape_ascii_inj)
  next
    case am
    with eq escape_ascii_head [of c] escape_ascii_not_202 [of c x "CHR ''8'' # y"]
      escape_ascii_not_202 [of c x "CHR ''9'' # y"] escape_multi_head [of d ds] b ac bd
    show ?thesis by (auto simp: escape_chunk_def)
  next
    case ma
    with eq escape_ascii_head [of d] escape_ascii_not_202 [of d y "CHR ''8'' # x"]
      escape_ascii_not_202 [of d y "CHR ''9'' # x"] escape_multi_head [of c cs] a ac bd
    show ?thesis by (auto simp: escape_chunk_def)
  next
    case mm
    note ha = escape_multi_head [of c cs] and hb = escape_multi_head [of d ds]
    have raw: "a = b \<and> x = y" if "a @ x = b @ y"
      using that rune_chunk_length [of c cs] rune_chunk_length [of d ds] a b ac bd by auto
    have esc: "a = b" if "escape_multi a = escape_multi b"
      "escape_multi a = backslash # ''u202'' @ [h]" for h
      using that mm ac bd by (intro map_byte_inj escape_multi_202_inj [of a h b]) auto
    have e: "escape_multi a @ x = escape_multi b @ y"
      using mm ac bd eq by (simp add: escape_chunk_def)
    have nb: "c \<noteq> backslash" "d \<noteq> backslash" using mm by (auto simp: backslash_byte)
    from ha mm(1) a ac consider (raw1) "escape_multi a = a"
      | (esc1) h where "escape_multi a = backslash # ''u202'' @ [h]" by blast
    then show ?thesis
    proof cases
      case raw1
      with hb mm(2) b bd e nb ac have "escape_multi b = b" by auto
      with e raw1 raw show ?thesis by simp
    next
      case esc1
      with hb mm(2) b bd e nb ac have "\<exists>h. escape_multi b = backslash # ''u202'' @ [h]" by auto
      with e esc1 have "escape_multi a = escape_multi b" "x = y" by auto
      with esc esc1 show ?thesis by blast
    qed
  qed
qed

lemma escape_chunk_not_quote: "rune_chunk a \<Longrightarrow> escape_chunk a @ x \<noteq> quote # y"
proof -
  assume a: "rune_chunk a"
  then obtain c cs where ac: "a = c # cs" by (cases a) (auto simp: rune_chunk_def)
  with a escape_ascii_head [of c] escape_multi_head [of c cs] show ?thesis
    by (cases "byte_of c < 0x80") (auto simp: escape_chunk_def quote_byte backslash_def)
qed

lemma utf8_size_take: "utf8_size bs = n \<Longrightarrow> n \<noteq> 0 \<Longrightarrow> utf8_size (take n bs) = n"
proof -
  assume n: "utf8_size bs = n" "n \<noteq> 0"
  consider "bs = []" | a where "bs = [a]" | a b where "bs = [a, b]" | a b c where "bs = [a, b, c]"
    | a b c d r where "bs = a # b # c # d # r"
    by (metis neq_Nil_conv)
  then show ?thesis using n by cases (auto split: if_splits)
qed

lemma valid_utf8_chunk:
  assumes "valid_utf8 s" "s \<noteq> []"
  obtains ch r where "rune_chunk ch" "s = ch @ r" "valid_utf8 r"
    "json_escape s = escape_chunk ch @ json_escape r"
proof -
  from assms obtain c cs where s: "s = c # cs" by (cases s) auto
  with assms(1) obtain n where n: "utf8_size (map byte_of (c # cs)) = Suc n"
    and v: "valid_utf8 (drop n cs)" by (auto split: nat.splits)
  have le: "n \<le> length cs" using utf8_size_le [of "map byte_of (c # cs)"] n by simp
  have "utf8_size (take (Suc n) (map byte_of (c # cs))) = Suc n"
    using n by (intro utf8_size_take) simp_all
  then have ch: "rune_chunk (c # take n cs)" using le by (simp add: rune_chunk_def take_map)
  moreover have "json_escape s = escape_chunk (c # take n cs) @ json_escape (drop n cs)"
  proof (cases "byte_of c < 0x80")
    case True
    then have "n = 0" using n by simp
    with True s show ?thesis by (simp add: escape_chunk_def)
  next
    case False
    with n s show ?thesis by (simp add: escape_chunk_def)
  qed
  ultimately show thesis using that [of "c # take n cs" "drop n cs"] s v by simp
qed

lemma json_escape_inj:
  "valid_utf8 s \<Longrightarrow> valid_utf8 t \<Longrightarrow>
     json_escape s @ quote # x = json_escape t @ quote # y \<Longrightarrow> s = t \<and> x = y"
proof (induction "length s" arbitrary: s t rule: less_induct)
  case less
  show ?case
  proof (cases "s = [] \<or> t = []")
    case True
    show ?thesis
    proof (cases "s = []")
      case s: True
      show ?thesis
      proof (cases "t = []")
        case False
        then obtain ch r where "rune_chunk ch" "json_escape t = escape_chunk ch @ json_escape r"
          using valid_utf8_chunk less.prems(2) by metis
        with less.prems(3) s escape_chunk_not_quote [of ch "json_escape r @ quote # y" x]
        show ?thesis by simp
      qed (use s less.prems in simp)
    next
      case s: False
      then obtain ch r where "rune_chunk ch" "json_escape s = escape_chunk ch @ json_escape r"
        using valid_utf8_chunk less.prems(1) by metis
      with less.prems(3) s True escape_chunk_not_quote [of ch "json_escape r @ quote # x" y]
      show ?thesis by simp
    qed
  next
    case False
    then obtain c1 r1 c2 r2 where p: "rune_chunk c1" "s = c1 @ r1" "valid_utf8 r1"
      "json_escape s = escape_chunk c1 @ json_escape r1"
      "rune_chunk c2" "t = c2 @ r2" "valid_utf8 r2"
      "json_escape t = escape_chunk c2 @ json_escape r2"
      using valid_utf8_chunk less.prems(1,2) by metis
    with less.prems(3) have "escape_chunk c1 @ (json_escape r1 @ quote # x)
        = escape_chunk c2 @ (json_escape r2 @ quote # y)" by simp
    with p have "c1 = c2" "json_escape r1 @ quote # x = json_escape r2 @ quote # y"
      using escape_chunk_inj by blast+
    with less.hyps [of r1 r2] p show ?thesis by (auto simp: rune_chunk_def)
  qed
qed

lemma json_string_append:
  "valid_utf8 s \<Longrightarrow> valid_utf8 t \<Longrightarrow> json_string s @ x = json_string t @ y \<longleftrightarrow> s = t \<and> x = y"
  using json_escape_inj [of s t x y] by (auto simp: json_string_def simp del: json_escape.simps)

lemma join_json_inj:
  "list_all valid_utf8 xs \<Longrightarrow> list_all valid_utf8 ys \<Longrightarrow>
     join_with '','' (map json_string xs) @ '']'' = join_with '','' (map json_string ys) @ '']''
     \<Longrightarrow> xs = ys"
proof (induction xs arbitrary: ys)
  case Nil
  then show ?case by (cases ys rule: remdups_adj.cases) (auto simp: json_string_def quote_def)
next
  case (Cons x xs)
  show ?case
  proof (cases ys)
    case Nil
    with Cons.prems show ?thesis by (cases xs) (auto simp: json_string_def quote_def)
  next
    case ys: (Cons y zs)
    show ?thesis
    proof (cases "xs = [] \<or> zs = []")
      case True
      with Cons.prems ys show ?thesis
        by (cases xs; cases zs) (auto simp: json_string_append [of _ _ "'']''" "'']''", simplified]
            json_string_append)
    next
      case False
      then obtain x' xs' z' zs' where "xs = x' # xs'" "zs = z' # zs'" by (auto simp: neq_Nil_conv)
      with Cons.prems ys have "x = y"
        "join_with '','' (map json_string xs) @ '']'' = join_with '','' (map json_string zs) @ '']''"
        by (auto simp: json_string_append)
      with Cons.IH [of zs] Cons.prems ys show ?thesis by simp
    qed
  qed
qed

lemma json_strings_inj:
  "list_all valid_utf8 xs \<Longrightarrow> list_all valid_utf8 ys \<Longrightarrow> json_strings xs = json_strings ys \<longleftrightarrow> xs = ys"
  using join_json_inj by (auto simp: json_strings_def)

end
