(* ===== verification/Facts.thy ===== *)
theory Facts
  imports Guards Go_Json
begin

text \<open>
  The data a verdict is computed from. From fingerprint.go: the observation proof, the
  test-variant applicability and the fingerprint record with its validation ladder. From
  internal/closure: the maximal facts and the closure projection. From view.go: one
  subject's facts with its consumer-tier refusals, projected to a closure and compared
  between two passes. From runtimeinput: the state a guard comparison reads.
\<close>

section \<open>Subjects and recorded evidence\<close>

record subject =
  s_package :: string
  s_symbol :: string

definition no_subject :: subject where
  "no_subject = \<lparr>s_package = [], s_symbol = []\<rparr>"

record observation_proof =
  op_strategy :: string
  op_subject :: subject
  op_observable :: bool
  op_reason :: string
  op_evidence :: string

definition no_observation_proof :: observation_proof where
  "no_observation_proof = \<lparr>op_strategy = [], op_subject = no_subject, op_observable = False,
     op_reason = [], op_evidence = []\<rparr>"

definition InertTestVariantExtension :: string where
  "InertTestVariantExtension = ''gofresh/inert-test-variant-extension@1''"

record applicability =
  ap_strategy :: string
  ap_closure :: string

definition no_applicability :: applicability where
  "no_applicability = \<lparr>ap_strategy = [], ap_closure = []\<rparr>"

record fingerprint =
  fp_maximal :: string
  fp_toolchain_content :: string
  fp_admission :: string
  fp_test_variants :: string
  fp_applicability :: applicability
  fp_observation_assertion :: string
  fp_proof :: observation_proof
  fp_guards :: guards
  fp_purity :: string
  fp_vouches :: string
  fp_single_subject :: string
  fp_package_process :: string
  fp_dynamic_strategy :: string
  fp_closure_strategy :: string
  fp_runtime_inputs :: string
  fp_runtime_digest :: string
  fp_kind :: kind

definition no_guards :: guards where
  "no_guards = \<lparr>g_toolchain = [], g_build_config = [], g_machine = [], g_runtime_config = []\<rparr>"

definition no_fingerprint :: fingerprint where
  "no_fingerprint = \<lparr>fp_maximal = [], fp_toolchain_content = [], fp_admission = [],
     fp_test_variants = [], fp_applicability = no_applicability, fp_observation_assertion = [],
     fp_proof = no_observation_proof, fp_guards = no_guards, fp_purity = [], fp_vouches = [],
     fp_single_subject = [], fp_package_process = [], fp_dynamic_strategy = [],
     fp_closure_strategy = [], fp_runtime_inputs = [], fp_runtime_digest = [], fp_kind = 0\<rparr>"

definition effective_test_variants :: "fingerprint \<Rightarrow> string" where
  "effective_test_variants f =
     (if fp_applicability f \<noteq> no_applicability then ap_closure (fp_applicability f)
      else fp_test_variants f)"

definition recognized_applicability :: "fingerprint \<Rightarrow> bool" where
  "recognized_applicability f \<longleftrightarrow> (let a = fp_applicability f in
     a = no_applicability
     \<or> (ap_strategy a = InertTestVariantExtension \<and> ap_closure a \<noteq> [] \<and> fp_test_variants f \<noteq> []))"

text \<open>The two record checks; None is Go's nil error.\<close>

definition validate_recorded_kind :: "fingerprint \<Rightarrow> string option" where
  "validate_recorded_kind f =
     (if \<not> valid_kind (fp_kind f)
      then Some (''gofresh: invalid recorded result kind '' @ show_int (fp_kind f))
      else if fp_kind f = CodeResult
        \<and> (g_machine (fp_guards f) \<noteq> [] \<or> g_runtime_config (fp_guards f) \<noteq> [])
      then Some ''gofresh: code-result fingerprint carries measurement guards''
      else None)"

definition validate_fingerprint :: "fingerprint \<Rightarrow> string option" where
  "validate_fingerprint f = (let a = fp_applicability f in
     if a \<noteq> no_applicability \<and> (ap_strategy a = [] \<or> ap_closure a = [])
     then Some ''gofresh: inert test-variant applicability requires strategy and testVariantClosure''
     else validate_recorded_kind f)"

lemma validate_recorded_kind_ok:
  "validate_recorded_kind f = None \<longleftrightarrow>
     valid_kind (fp_kind f)
     \<and> (fp_kind f = CodeResult \<longrightarrow> g_machine (fp_guards f) = [] \<and> g_runtime_config (fp_guards f) = [])"
  by (auto simp: validate_recorded_kind_def)

lemma validate_fingerprint_ok:
  "validate_fingerprint f = None \<longleftrightarrow>
     (ap_strategy (fp_applicability f) = [] \<longleftrightarrow> ap_closure (fp_applicability f) = [])
     \<and> validate_recorded_kind f = None"
  by (cases "fp_applicability f") (auto simp: validate_fingerprint_def no_applicability_def Let_def)

section \<open>Closures\<close>

datatype refusal_kind =
  DependenceRefusal | OpenWorldRefusal | SharedDynamicStateRefusal | AmbiguousSubjectRefusal

record closure =
  c_hash :: string
  c_toolchain_content :: string
  c_admission :: string
  c_test_variants :: string
  c_unverifiable :: bool
  c_reason :: string
  c_refusal :: refusal_kind
  c_culprit :: subject
  c_external :: bool

text \<open>A blocker's kind is one of the scan's effect classes, a byte.\<close>

record blocker =
  b_kind :: nat
  b_package :: string
  b_symbol :: string
  b_detail :: string
  b_reason :: string
  b_observable :: bool
  b_unrefinable :: bool

record maximal_identity =
  mi_hash :: string
  mi_test_variants :: string
  mi_toolchain_content :: string
  mi_admission :: string

record maximal_facts =
  mf_identity :: maximal_identity
  mf_effects :: "blocker list"
  mf_diagnostic :: string

definition no_maximal_facts :: maximal_facts where
  "no_maximal_facts = \<lparr>mf_identity = \<lparr>mi_hash = [], mi_test_variants = [],
      mi_toolchain_content = [], mi_admission = []\<rparr>, mf_effects = [], mf_diagnostic = []\<rparr>"

definition maximal_closure :: "maximal_facts \<Rightarrow> closure" where
  "maximal_closure f = (let i = mf_identity f in
     \<lparr>c_hash = mi_hash i, c_toolchain_content = mi_toolchain_content i,
      c_admission = mi_admission i, c_test_variants = mi_test_variants i,
      c_unverifiable = (mf_effects f \<noteq> [] \<or> mi_hash i = []),
      c_reason = (if mi_hash i = [] then ''maximal facts unavailable'' else mf_diagnostic f),
      c_refusal = DependenceRefusal, c_culprit = no_subject, c_external = False\<rparr>)"

definition maximal_equal :: "maximal_facts \<Rightarrow> maximal_facts \<Rightarrow> bool" where
  "maximal_equal f g \<longleftrightarrow> mf_identity f = mf_identity g \<and> mf_diagnostic f = mf_diagnostic g
     \<and> mf_effects f = mf_effects g"

lemma maximal_equal_eq: "maximal_equal f g \<longleftrightarrow> f = g"
  by (cases f; cases g) (auto simp: maximal_equal_def)

section \<open>One subject's facts\<close>

text \<open>A refusal pointer is an option: its presence is the obligation.\<close>

record subject_refusal =
  sr_reason :: string
  sr_culprit :: subject

record subject_facts =
  sf_source :: maximal_facts
  sf_open_world :: "subject_refusal option"
  sf_shared_state :: "subject_refusal option"
  sf_ambiguous :: "subject_refusal option"
  sf_external :: bool

definition no_subject_facts :: subject_facts where
  "no_subject_facts = \<lparr>sf_source = no_maximal_facts, sf_open_world = None, sf_shared_state = None,
     sf_ambiguous = None, sf_external = False\<rparr>"

fun same_refusal :: "subject_refusal option \<Rightarrow> subject_refusal option \<Rightarrow> bool" where
  "same_refusal (Some a) (Some b) = (a = b)"
| "same_refusal a b = (a = None \<and> b = None)"

lemma same_refusal_eq: "same_refusal a b \<longleftrightarrow> a = b"
  by (cases a; cases b) auto

definition refuse_closure :: "refusal_kind \<Rightarrow> string \<Rightarrow> subject \<Rightarrow> closure \<Rightarrow> closure" where
  "refuse_closure k reason culprit c =
     c\<lparr>c_unverifiable := True, c_refusal := k, c_reason := reason, c_culprit := culprit\<rparr>"

definition facts_closure :: "subject_facts \<Rightarrow> closure" where
  "facts_closure f = (
     let c0 = maximal_closure (sf_source f);
         c1 = (case sf_open_world f of None \<Rightarrow> c0
               | Some r \<Rightarrow> refuse_closure OpenWorldRefusal (sr_reason r) no_subject c0);
         c2 = (case sf_shared_state f of None \<Rightarrow> c1
               | Some r \<Rightarrow> refuse_closure SharedDynamicStateRefusal (sr_reason r) (sr_culprit r) c1);
         c3 = (case sf_ambiguous f of None \<Rightarrow> c2
               | Some r \<Rightarrow> refuse_closure AmbiguousSubjectRefusal (sr_reason r) no_subject c2)
     in if sf_external f
        then c3\<lparr>c_external := True, c_unverifiable := True, c_reason := ''external directive'',
               c_culprit := no_subject\<rparr>
        else c3)"

definition facts_equal :: "subject_facts \<Rightarrow> subject_facts \<Rightarrow> bool \<Rightarrow> bool" where
  "facts_equal f other was_cut \<longleftrightarrow>
     maximal_equal (sf_source f) (sf_source other)
     \<and> same_refusal (sf_open_world f) (sf_open_world other)
     \<and> (was_cut \<or> same_refusal (sf_shared_state f) (sf_shared_state other))
     \<and> same_refusal (sf_ambiguous f) (sf_ambiguous other)
     \<and> sf_external f = sf_external other"

lemma facts_equal_full: "facts_equal f g False \<longleftrightarrow> f = g"
  by (cases f; cases g) (auto simp: facts_equal_def maximal_equal_eq same_refusal_eq)

lemma facts_equal_cut:
  "facts_equal f g True \<longleftrightarrow> f\<lparr>sf_shared_state := None\<rparr> = g\<lparr>sf_shared_state := None\<rparr>"
  by (cases f; cases g) (auto simp: facts_equal_def maximal_equal_eq same_refusal_eq)

lemma facts_closure_hash [simp]:
  "c_hash (facts_closure f) = mi_hash (mf_identity (sf_source f))"
  "c_test_variants (facts_closure f) = mi_test_variants (mf_identity (sf_source f))"
  "c_toolchain_content (facts_closure f) = mi_toolchain_content (mf_identity (sf_source f))"
  "c_admission (facts_closure f) = mi_admission (mf_identity (sf_source f))"
  "c_external (facts_closure f) = sf_external f"
  by (simp_all add: facts_closure_def maximal_closure_def refuse_closure_def Let_def
      split: option.splits)

text \<open>Every obligation keeps the closure unverifiable, and only they do.\<close>

lemma facts_closure_unverifiable:
  "c_unverifiable (facts_closure f) \<longleftrightarrow>
     mf_effects (sf_source f) \<noteq> [] \<or> mi_hash (mf_identity (sf_source f)) = []
     \<or> sf_open_world f \<noteq> None \<or> sf_shared_state f \<noteq> None \<or> sf_ambiguous f \<noteq> None \<or> sf_external f"
  by (simp add: facts_closure_def maximal_closure_def refuse_closure_def Let_def
      split: option.splits)

lemma facts_closure_shared:
  "c_refusal (facts_closure f) = SharedDynamicStateRefusal \<longleftrightarrow>
     sf_shared_state f \<noteq> None \<and> sf_ambiguous f = None"
  by (simp add: facts_closure_def maximal_closure_def refuse_closure_def Let_def
      split: option.splits)

section \<open>Runtime-input states\<close>

record rt_state =
  rt_manifest :: string
  rt_digest :: string
  rt_bracket_moved :: bool
  rt_unverifiable :: bool
  rt_reason :: string
  rt_ok :: bool

definition no_rt_state :: rt_state where
  "no_rt_state = \<lparr>rt_manifest = [], rt_digest = [], rt_bracket_moved = False,
     rt_unverifiable = False, rt_reason = [], rt_ok = False\<rparr>"

section \<open>Execution models and discharges\<close>

datatype execution_model = GeneralExecution | PackageExecution | SingleSubjectExecution

record discharges =
  d_single_subject :: string
  d_package_process :: string

definition no_discharges :: discharges where
  "no_discharges = \<lparr>d_single_subject = [], d_package_process = []\<rparr>"

end
