(* ===== verification/Outcome.thy ===== *)
theory Outcome
  imports Prelude
begin

text \<open>
  internal/outcome: the module-private capability that joins a process's completion with
  the subjects whose operation outcomes the analysis view supports. A \<open>Span\<close> pointer is
  its identity; nil is None. The lemmas show that a preparation with nothing to bind is
  the zero value, that the zero value never supports anything, and that a support answers
  for exactly the binding it was prepared under.
\<close>

section \<open>Definitions\<close>

definition Method :: string where
  "Method = ''gofresh/immutable-environment@1''"

definition StaticMethod :: string where
  "StaticMethod = ''gofresh/static-reachability@1''"

record binding =
  bd_span :: "nat option"
  bd_process :: string
  bd_environment :: string
  bd_root :: string
  bd_directory :: string

definition no_binding :: binding where
  "no_binding = \<lparr>bd_span = None, bd_process = [], bd_environment = [], bd_root = [],
     bd_directory = []\<rparr>"

definition bind_execution :: "nat option \<Rightarrow> string \<Rightarrow> string \<Rightarrow> string \<Rightarrow> string \<Rightarrow> binding" where
  "bind_execution span process environment root directory =
     \<lparr>bd_span = span, bd_process = process, bd_environment = environment, bd_root = root,
      bd_directory = directory\<rparr>"

record support =
  su_binding :: binding
  su_subjects :: "string list"
  su_reason :: string

definition no_support :: support where
  "no_support = \<lparr>su_binding = no_binding, su_subjects = [], su_reason = []\<rparr>"

definition prepare_support :: "binding \<Rightarrow> string list \<Rightarrow> string \<Rightarrow> support" where
  "prepare_support b subjects reason =
     (if bd_span b = None \<or> bd_process b = [] \<or> length subjects = 0 then no_support
      else \<lparr>su_binding = b, su_subjects = sort_compact subjects, su_reason = reason\<rparr>)"

definition support_reason :: "support \<Rightarrow> binding \<Rightarrow> string" where
  "support_reason s b =
     (if su_reason s \<noteq> [] then su_reason s
      else if bd_span (su_binding s) = None then ''operation-outcome support unavailable''
      else if su_binding s \<noteq> b
        then ''operation-outcome support belongs to a different execution or environment''
      else [])"

definition support_subjects :: "support \<Rightarrow> string list" where
  "support_subjects s = su_subjects s"

section \<open>What a support answers for\<close>

lemma support_reason_empty:
  "support_reason s b = [] \<longleftrightarrow> su_reason s = [] \<and> bd_span b \<noteq> None \<and> su_binding s = b"
  by (auto simp: support_reason_def)

lemma prepare_support_subjects:
  "bd_span b \<noteq> None \<Longrightarrow> bd_process b \<noteq> [] \<Longrightarrow>
     set (support_subjects (prepare_support b subjects reason)) = set subjects"
  by (cases subjects) (auto simp: prepare_support_def support_subjects_def no_support_def)

text \<open>
  a preparation supports a binding with no objection exactly when it was prepared for
  that very execution, with a span, a process and at least one subject, and with no
  refusal of the analysis view.
\<close>

theorem prepared_support_accepts:
  "support_reason (prepare_support b subjects reason) b' = [] \<longleftrightarrow>
     b' = b \<and> bd_span b \<noteq> None \<and> bd_process b \<noteq> [] \<and> subjects \<noteq> [] \<and> reason = []"
  by (auto simp: support_reason_empty prepare_support_def no_support_def no_binding_def)

end
