(* ===== verification/Judgment.thy ===== *)
theory Judgment
  imports Facts Outcome
begin

text \<open>
  judgment.go: the verdict ladder, with the observation-proof evidence of view.go it reads.
  \<open>decide\<close> is the pure verdict function; \<open>decide_observed\<close> adds the observation authority
  a caller admitted. Every definition keeps the order of the source's tests, since a
  verdict names the first one that fails. The lemmas characterise each tier, and the
  theorems say when a record is valid, when it is stale and what an acceptance rests on.
\<close>

section \<open>Strategies and causes\<close>

definition DynamicStateStrategy :: string where
  "DynamicStateStrategy = ''gofresh/dynamic-state@49''"

definition ClosureStrategy :: string where
  "ClosureStrategy = ''gofresh/closure@1'' @ '' '' @ ''gofresh/canonical-member@2'' @ '' ''
     @ ''gofresh/variant-parse@2''"

definition ObservationRTA :: string where
  "ObservationRTA = ''gofresh/observation-rta@57''"

datatype cause_kind = NoCause | ClosureCause | TestVariantsCause | ToolchainContentCause
  | DynamicStateStrategyCause | ClosureStrategyCause | RuntimeInputsCause | ToolchainCause
  | BuildConfigCause | MachineCause | RuntimeConfigCause | ResultKindCause
  | ExternalDirectiveCause | ClosureDependenceCause | SharedDynamicStateCause | OpenWorldCause
  | AmbiguousSubjectCause

datatype cause_condition = NoCondition | Missing | Changed | Unsupported | Unavailable | Refused

record cause =
  ca_kind :: cause_kind
  ca_condition :: cause_condition
  ca_culprit :: subject

record judgment_scope =
  js_subject :: subject
  js_kind :: kind
  js_model :: execution_model

definition no_scope :: judgment_scope where
  "no_scope = \<lparr>js_subject = no_subject, js_kind = 0, js_model = GeneralExecution\<rparr>"

datatype purity_attribution = NoPurity | CallerPurity | SourcePurity | CallerAndSourcePurity

record purity_authority =
  pu_recorded :: purity_attribution
  pu_current :: purity_attribution

definition no_purity :: purity_authority where
  "no_purity = \<lparr>pu_recorded = NoPurity, pu_current = NoPurity\<rparr>"

definition purity_accepted :: "purity_authority \<Rightarrow> bool" where
  "purity_accepted p \<longleftrightarrow> pu_recorded p \<noteq> NoPurity \<and> pu_current p \<noteq> NoPurity"

record observation_authority =
  oa_assertion :: string
  oa_strategy :: string
  oa_method :: string
  oa_current :: bool

definition no_observation :: observation_authority where
  "no_observation = \<lparr>oa_assertion = [], oa_strategy = [], oa_method = [], oa_current = False\<rparr>"

definition observation_accepted :: "observation_authority \<Rightarrow> bool" where
  "observation_accepted o' \<longleftrightarrow> o' \<noteq> no_observation"

record accepted_authority =
  aa_guards :: bool
  aa_runtime_inputs :: bool
  aa_purity :: purity_authority
  aa_vouches :: string
  aa_single_subject :: string
  aa_package_process :: string
  aa_observation :: observation_authority
  aa_applicability :: applicability

definition no_authority :: accepted_authority where
  "no_authority = \<lparr>aa_guards = False, aa_runtime_inputs = False, aa_purity = no_purity,
     aa_vouches = [], aa_single_subject = [], aa_package_process = [],
     aa_observation = no_observation, aa_applicability = no_applicability\<rparr>"

datatype status = Valid | Stale | Unverifiable

record judgment_ground =
  jg_cause :: cause
  jg_scope :: judgment_scope
  jg_accepted :: accepted_authority

record verdict =
  v_status :: status
  v_reason :: string
  v_ground :: judgment_ground

definition no_cause :: cause where
  "no_cause = \<lparr>ca_kind = NoCause, ca_condition = NoCondition, ca_culprit = no_subject\<rparr>"

definition refusal :: "status \<Rightarrow> cause_kind \<Rightarrow> cause_condition \<Rightarrow> string \<Rightarrow> verdict" where
  "refusal s k c reason = \<lparr>v_status = s, v_reason = reason,
     v_ground = \<lparr>jg_cause = \<lparr>ca_kind = k, ca_condition = c, ca_culprit = no_subject\<rparr>,
        jg_scope = no_scope, jg_accepted = no_authority\<rparr>\<rparr>"

definition valid_verdict :: verdict where
  "valid_verdict = \<lparr>v_status = Valid, v_reason = [],
     v_ground = \<lparr>jg_cause = no_cause, jg_scope = no_scope, jg_accepted = no_authority\<rparr>\<rparr>"

abbreviation v_cause :: "verdict \<Rightarrow> cause" where
  "v_cause v \<equiv> jg_cause (v_ground v)"

abbreviation v_accepted :: "verdict \<Rightarrow> accepted_authority" where
  "v_accepted v \<equiv> jg_accepted (v_ground v)"

section \<open>The tiers\<close>

definition ReasonTestVariants :: string where
  "ReasonTestVariants = ''test variants''"

definition reason_or :: "string \<Rightarrow> string \<Rightarrow> string" where
  "reason_or reason fallback = (if reason = [] then fallback else reason)"

definition closure_strategy_verdict :: "fingerprint \<Rightarrow> verdict" where
  "closure_strategy_verdict rec = refusal Stale ClosureStrategyCause
     (if fp_closure_strategy rec = [] then Missing else Unsupported) ''closure strategy''"

fun axis_cause :: "axis \<Rightarrow> cause_kind" where
  "axis_cause KindAxis = ResultKindCause"
| "axis_cause ToolchainAxis = ToolchainCause"
| "axis_cause BuildConfigAxis = BuildConfigCause"
| "axis_cause MachineAxis = MachineCause"
| "axis_cause RuntimeConfigAxis = RuntimeConfigCause"
| "axis_cause NoAxis = NoCause"

definition guard_verdict :: "mismatch \<Rightarrow> verdict" where
  "guard_verdict m = refusal Stale (axis_cause (m_axis m))
     (if m_missing m then Missing else if m_axis m = KindAxis then Unsupported else Changed)
     (axis_string (m_axis m))"

definition attribution_of :: "string \<Rightarrow> purity_attribution" where
  "attribution_of assertion =
     (if assertion = ''caller assertion'' then CallerPurity
      else if assertion = ''source directive'' then SourcePurity
      else if assertion = ''caller assertion and source directive'' then CallerAndSourcePurity
      else NoPurity)"

definition compartment_stale :: "string \<Rightarrow> string \<Rightarrow> bool" where
  "compartment_stale recorded current \<longleftrightarrow> recorded = [] \<or> recorded \<noteq> current"

text \<open>A tier answers the refusal it raises, or None to fall through.\<close>

definition recorded_evidence_verdict :: "fingerprint \<Rightarrow> closure \<Rightarrow> verdict option" where
  "recorded_evidence_verdict rec current =
     (if fp_maximal rec = [] then Some (refusal Stale ClosureCause Missing ''closure'')
      else if fp_maximal rec = c_hash current
        \<and> (\<not> recognized_applicability rec
           \<or> compartment_stale (effective_test_variants rec) (c_test_variants current))
      then Some (refusal Stale TestVariantsCause
        (if \<not> recognized_applicability rec then Unsupported
         else if effective_test_variants rec = [] then Missing
         else if c_test_variants current = [] then Unavailable
         else Changed) ReasonTestVariants)
      else if fp_maximal rec \<noteq> c_hash current
      then Some (if c_hash current = [] then refusal Stale ClosureCause Unavailable ''closure''
                 else refusal Stale ClosureCause Changed ''closure'')
      else if fp_toolchain_content rec \<noteq> [] \<and> c_toolchain_content current \<noteq> []
        \<and> fp_toolchain_content rec \<noteq> c_toolchain_content current
      then Some (refusal Stale ToolchainContentCause Changed ''toolchain content'')
      else if fp_dynamic_strategy rec \<noteq> DynamicStateStrategy
      then Some (refusal Stale DynamicStateStrategyCause
        (if fp_dynamic_strategy rec = [] then Missing else Unsupported) ''dynamic-state strategy'')
      else if fp_applicability rec \<noteq> no_applicability \<and> fp_closure_strategy rec \<noteq> ClosureStrategy
      then Some (closure_strategy_verdict rec)
      else None)"

definition runtime_input_verdict :: "fingerprint \<Rightarrow> rt_state \<Rightarrow> verdict option" where
  "runtime_input_verdict rec rt =
     (if fp_runtime_inputs rec = [] \<and> fp_runtime_digest rec \<noteq> []
      then Some (refusal Stale RuntimeInputsCause Missing ''runtimeinputs'')
      else if fp_runtime_inputs rec \<noteq> [] then
        (if rt_bracket_moved rt
         then Some (refusal Stale RuntimeInputsCause Changed (reason_or (rt_reason rt) ''runtimeinputs''))
         else if \<not> rt_ok rt
         then Some (refusal Stale RuntimeInputsCause Unavailable ''runtimeinputs'')
         else if fp_runtime_digest rec = []
         then Some (refusal Stale RuntimeInputsCause Missing ''runtimeinputs'')
         else if fp_runtime_digest rec \<noteq> rt_digest rt
         then Some (refusal Stale RuntimeInputsCause Changed ''runtimeinputs'')
         else None)
      else None)"

definition decide_known_guards :: "fingerprint \<Rightarrow> guards \<Rightarrow> rt_state \<Rightarrow> kind \<Rightarrow> verdict option" where
  "decide_known_guards rec cur rt kind =
     (case runtime_input_verdict rec rt of Some v \<Rightarrow> Some v
      | None \<Rightarrow> (let m = compare_facts (fp_guards rec) cur kind in
          if m_axis m \<noteq> NoAxis then Some (guard_verdict m) else None))"

fun refusal_cause :: "refusal_kind \<Rightarrow> cause_kind" where
  "refusal_cause OpenWorldRefusal = OpenWorldCause"
| "refusal_cause SharedDynamicStateRefusal = SharedDynamicStateCause"
| "refusal_cause AmbiguousSubjectRefusal = AmbiguousSubjectCause"
| "refusal_cause DependenceRefusal = ClosureDependenceCause"

definition set_culprit :: "subject \<Rightarrow> verdict \<Rightarrow> verdict" where
  "set_culprit s v = v\<lparr>v_ground := (v_ground v)\<lparr>jg_cause := (v_cause v)\<lparr>ca_culprit := s\<rparr>\<rparr>\<rparr>"

text \<open>The closure-local answer function: it writes the accepted authority into a verdict.\<close>

definition answer :: "fingerprint \<Rightarrow> accepted_authority \<Rightarrow> verdict \<Rightarrow> verdict" where
  "answer rec accepted v = v\<lparr>v_ground := (v_ground v)\<lparr>jg_accepted :=
     (if v_status v = Valid then accepted\<lparr>aa_applicability := fp_applicability rec\<rparr>
      else accepted)\<rparr>\<rparr>"

definition guards_accepted :: "fingerprint \<Rightarrow> accepted_authority" where
  "guards_accepted rec = no_authority\<lparr>aa_guards := True,
     aa_runtime_inputs := (fp_runtime_inputs rec \<noteq> [])\<rparr>"

definition closure_dependence_verdict :: "closure \<Rightarrow> verdict" where
  "closure_dependence_verdict cl = (let k = refusal_cause (c_refusal cl);
       v = refusal Unverifiable k Refused (reason_or (c_reason cl) ''external dependence'')
     in if k = SharedDynamicStateCause then set_culprit (c_culprit cl) v else v)"

definition decide_observed ::
    "fingerprint \<Rightarrow> closure \<Rightarrow> guards \<Rightarrow> rt_state \<Rightarrow> kind \<Rightarrow> purity_authority
      \<Rightarrow> observation_authority \<Rightarrow> verdict" where
  "decide_observed rec cl cur rt kind pure observed =
     (case decide_known_guards rec cur rt kind of Some v \<Rightarrow> v
      | None \<Rightarrow>
        if fp_toolchain_content rec = [] \<or> c_toolchain_content cl = []
        then refusal Unverifiable ToolchainContentCause
          (if fp_toolchain_content rec = [] then Missing else Unavailable)
          ''toolchain content evidence unavailable''
        else if c_external cl
        then refusal Unverifiable ExternalDirectiveCause Refused ''external directive''
        else
          (let accepted = guards_accepted rec;
               input_refused = fp_runtime_inputs rec \<noteq> [] \<and> rt_unverifiable rt
           in if \<not> purity_accepted pure then
             (if input_refused
              then answer rec accepted (refusal Unverifiable RuntimeInputsCause Refused
                (reason_or (rt_reason rt) ''runtime inputs''))
              else if c_unverifiable cl then
                (if observation_accepted observed \<and> fp_runtime_inputs rec \<noteq> []
                   \<and> c_refusal cl \<noteq> SharedDynamicStateRefusal
                 then answer rec (accepted\<lparr>aa_observation := observed\<rparr>) valid_verdict
                 else answer rec accepted (closure_dependence_verdict cl))
              else answer rec accepted valid_verdict)
           else answer rec
             (if c_unverifiable cl \<or> input_refused then accepted\<lparr>aa_purity := pure\<rparr> else accepted)
             valid_verdict))"

definition decide_after_closure ::
    "fingerprint \<Rightarrow> closure \<Rightarrow> guards \<Rightarrow> rt_state \<Rightarrow> kind \<Rightarrow> purity_authority \<Rightarrow> verdict" where
  "decide_after_closure rec cl cur rt kind pure =
     decide_observed rec cl cur rt kind pure no_observation"

definition decide ::
    "fingerprint \<Rightarrow> closure \<Rightarrow> guards \<Rightarrow> rt_state \<Rightarrow> kind \<Rightarrow> purity_authority \<Rightarrow> verdict" where
  "decide rec cl cur rt kind pure =
     (case recorded_evidence_verdict rec cl of Some v \<Rightarrow> v
      | None \<Rightarrow> decide_after_closure rec cl cur rt kind pure)"

section \<open>Observation evidence\<close>

text \<open>
  view.go: the digest that binds a proof to the record that carries it. The two modes
  differ in the extra flag of a static effect-free proof.
\<close>

definition evidence_preimage :: "fingerprint \<Rightarrow> bool \<Rightarrow> string" where
  "evidence_preimage rec effect_free = (let p = fp_proof rec in
     framed (fp_maximal rec) @ framed (fp_observation_assertion rec) @ framed (op_strategy p)
     @ framed (s_package (op_subject p)) @ framed (s_symbol (op_subject p))
     @ show_bool (op_observable p) @ (if effect_free then show_bool effect_free else [])
     @ framed (op_reason p) @ framed (fp_toolchain_content rec) @ framed (fp_admission rec))"

definition proof_evidence_mode :: "fingerprint \<Rightarrow> bool \<Rightarrow> string" where
  "proof_evidence_mode rec effect_free = digest (evidence_preimage rec effect_free)"

definition proof_evidence :: "fingerprint \<Rightarrow> string" where
  "proof_evidence rec = proof_evidence_mode rec False"

definition compatible_proof_mode :: "fingerprint \<Rightarrow> subject \<Rightarrow> bool \<times> bool" where
  "compatible_proof_mode rec subject = (let p = fp_proof rec in
     if fp_observation_assertion rec \<noteq> ''caller assertion'' \<or> op_strategy p \<noteq> ObservationRTA
       \<or> op_subject p \<noteq> subject \<or> fp_toolchain_content rec = [] \<or> fp_admission rec = []
     then (False, False)
     else if op_observable p = (op_reason p \<noteq> []) then (False, False)
     else if op_evidence p = proof_evidence rec then (True, False)
     else if op_observable p \<and> op_evidence p = proof_evidence_mode rec True then (True, True)
     else (False, False))"

definition compatible_proof :: "fingerprint \<Rightarrow> subject \<Rightarrow> bool" where
  "compatible_proof rec subject = fst (compatible_proof_mode rec subject)"

text \<open>session.go: the key a manifest's outcome support is recorded under.\<close>

definition outcome_fields :: "fingerprint \<Rightarrow> subject \<Rightarrow> string list" where
  "outcome_fields f subject = [Method, s_package subject, s_symbol subject, fp_maximal f,
     fp_test_variants f, g_toolchain (fp_guards f), g_build_config (fp_guards f),
     fp_toolchain_content f, fp_admission f, op_strategy (fp_proof f)]"

definition outcome_subject :: "fingerprint \<Rightarrow> subject \<Rightarrow> string" where
  "outcome_subject f subject = sha256_hex (json_strings (outcome_fields f subject))"

text \<open>
  \<open>has_support\<close> stands for runtimeinput.HasOutcomeSupport: whether an encoded manifest
  decodes and lists a subject key.
\<close>

definition admitted_observation ::
    "(string \<Rightarrow> string \<Rightarrow> bool) \<Rightarrow> fingerprint \<Rightarrow> subject \<Rightarrow> closure \<Rightarrow> observation_authority" where
  "admitted_observation has_support rec subject cl =
     (let (compatible, effect_free) = compatible_proof_mode rec subject in
      if \<not> compatible \<or> fp_admission rec \<noteq> c_admission cl \<or> \<not> op_observable (fp_proof rec)
      then no_observation
      else if has_support (fp_runtime_inputs rec) (outcome_subject rec subject)
      then \<lparr>oa_assertion = fp_observation_assertion rec, oa_strategy = op_strategy (fp_proof rec),
            oa_method = Method, oa_current = False\<rparr>
      else if effect_free
      then \<lparr>oa_assertion = fp_observation_assertion rec, oa_strategy = op_strategy (fp_proof rec),
            oa_method = StaticMethod, oa_current = False\<rparr>
      else no_observation)"

section \<open>The tiers characterised\<close>

lemma refusal_status [simp]: "v_status (refusal s k c r) = s" "v_reason (refusal s k c r) = r"
  "ca_kind (v_cause (refusal s k c r)) = k" "ca_condition (v_cause (refusal s k c r)) = c"
  "v_accepted (refusal s k c r) = no_authority"
  by (simp_all add: refusal_def)

lemma valid_verdict_status [simp]: "v_status valid_verdict = Valid" "v_cause valid_verdict = no_cause"
  by (simp_all add: valid_verdict_def)

lemma answer_status [simp]: "v_status (answer rec a v) = v_status v"
  "v_cause (answer rec a v) = v_cause v" "v_reason (answer rec a v) = v_reason v"
  by (simp_all add: answer_def)

lemma answer_accepted: "v_accepted (answer rec a v) =
    (if v_status v = Valid then a\<lparr>aa_applicability := fp_applicability rec\<rparr> else a)"
  by (simp add: answer_def)

lemma set_culprit_status [simp]: "v_status (set_culprit s v) = v_status v"
  "ca_kind (v_cause (set_culprit s v)) = ca_kind (v_cause v)"
  "ca_condition (v_cause (set_culprit s v)) = ca_condition (v_cause v)"
  "v_reason (set_culprit s v) = v_reason v"
  by (simp_all add: set_culprit_def)

lemma closure_dependence_status [simp]: "v_status (closure_dependence_verdict cl) = Unverifiable"
  "ca_kind (v_cause (closure_dependence_verdict cl)) = refusal_cause (c_refusal cl)"
  by (simp_all add: closure_dependence_verdict_def Let_def)

lemma refusal_cause_not_none [simp]: "refusal_cause k \<noteq> NoCause"
  by (cases k) simp_all

text \<open>When the recorded core survives: the conjunction of the first tier's guards.\<close>

definition core_agrees :: "fingerprint \<Rightarrow> closure \<Rightarrow> bool" where
  "core_agrees rec cl \<longleftrightarrow>
     fp_maximal rec \<noteq> [] \<and> fp_maximal rec = c_hash cl
     \<and> recognized_applicability rec
     \<and> effective_test_variants rec \<noteq> [] \<and> effective_test_variants rec = c_test_variants cl
     \<and> (fp_toolchain_content rec = [] \<or> c_toolchain_content cl = []
        \<or> fp_toolchain_content rec = c_toolchain_content cl)
     \<and> fp_dynamic_strategy rec = DynamicStateStrategy
     \<and> (fp_applicability rec = no_applicability \<or> fp_closure_strategy rec = ClosureStrategy)"

lemma recorded_evidence_none: "recorded_evidence_verdict rec cl = None \<longleftrightarrow> core_agrees rec cl"
  by (auto simp: recorded_evidence_verdict_def core_agrees_def compartment_stale_def)

lemma recorded_evidence_stale: "recorded_evidence_verdict rec cl = Some v \<Longrightarrow>
    v_status v = Stale \<and> ca_kind (v_cause v) \<noteq> NoCause \<and> v_accepted v = no_authority"
  by (auto simp: recorded_evidence_verdict_def closure_strategy_verdict_def split: if_splits)

text \<open>When the runtime-input guard holds.\<close>

definition inputs_agree :: "fingerprint \<Rightarrow> rt_state \<Rightarrow> bool" where
  "inputs_agree rec rt \<longleftrightarrow>
     (if fp_runtime_inputs rec = [] then fp_runtime_digest rec = []
      else \<not> rt_bracket_moved rt \<and> rt_ok rt \<and> fp_runtime_digest rec \<noteq> []
        \<and> fp_runtime_digest rec = rt_digest rt)"

lemma runtime_input_none: "runtime_input_verdict rec rt = None \<longleftrightarrow> inputs_agree rec rt"
  by (auto simp: runtime_input_verdict_def inputs_agree_def)

lemma runtime_input_stale: "runtime_input_verdict rec rt = Some v \<Longrightarrow>
    v_status v = Stale \<and> ca_kind (v_cause v) \<noteq> NoCause \<and> v_accepted v = no_authority"
  by (auto simp: runtime_input_verdict_def split: if_splits)

lemma axis_cause_none [simp]: "axis_cause a = NoCause \<longleftrightarrow> a = NoAxis"
  by (cases a) simp_all

lemma guard_verdict_stale: "m_axis m \<noteq> NoAxis \<Longrightarrow>
    v_status (guard_verdict m) = Stale \<and> ca_kind (v_cause (guard_verdict m)) \<noteq> NoCause
    \<and> v_accepted (guard_verdict m) = no_authority"
  by (simp add: guard_verdict_def)

definition guards_agree :: "fingerprint \<Rightarrow> guards \<Rightarrow> kind \<Rightarrow> bool" where
  "guards_agree rec cur kind \<longleftrightarrow> m_axis (compare_facts (fp_guards rec) cur kind) = NoAxis"

lemma known_guards_none:
  "decide_known_guards rec cur rt kind = None \<longleftrightarrow> inputs_agree rec rt \<and> guards_agree rec cur kind"
  by (auto simp: decide_known_guards_def guards_agree_def Let_def simp flip: runtime_input_none
      split: option.splits)

lemma known_guards_stale: "decide_known_guards rec cur rt kind = Some v \<Longrightarrow>
    v_status v = Stale \<and> ca_kind (v_cause v) \<noteq> NoCause \<and> v_accepted v = no_authority"
  by (auto simp: decide_known_guards_def Let_def split: option.splits if_splits
      dest: runtime_input_stale guard_verdict_stale)

lemmas stale_tiers = recorded_evidence_stale known_guards_stale

text \<open>What makes the unverifiable tier pass once every guard agrees.\<close>

definition proof_admitted ::
    "fingerprint \<Rightarrow> closure \<Rightarrow> rt_state \<Rightarrow> purity_authority \<Rightarrow> observation_authority \<Rightarrow> bool" where
  "proof_admitted rec cl rt pure observed \<longleftrightarrow>
     purity_accepted pure
     \<or> (\<not> (fp_runtime_inputs rec \<noteq> [] \<and> rt_unverifiable rt)
        \<and> (\<not> c_unverifiable cl
           \<or> (observation_accepted observed \<and> fp_runtime_inputs rec \<noteq> []
              \<and> c_refusal cl \<noteq> SharedDynamicStateRefusal)))"

lemma decide_observed_valid:
  "v_status (decide_observed rec cl cur rt kind pure observed) = Valid \<longleftrightarrow>
     inputs_agree rec rt \<and> guards_agree rec cur kind
     \<and> fp_toolchain_content rec \<noteq> [] \<and> c_toolchain_content cl \<noteq> [] \<and> \<not> c_external cl
     \<and> proof_admitted rec cl rt pure observed"
  unfolding decide_observed_def
  by (auto simp: proof_admitted_def Let_def simp flip: known_guards_none
      dest: known_guards_stale split: option.splits)

lemma decide_observed_stale:
  "v_status (decide_observed rec cl cur rt kind pure observed) = Stale \<longleftrightarrow>
     \<not> (inputs_agree rec rt \<and> guards_agree rec cur kind)"
  unfolding decide_observed_def
  by (auto simp: Let_def simp flip: known_guards_none dest: known_guards_stale split: option.splits)

text \<open>The authority each branch reports.\<close>

lemma decide_observed_accepted:
  "v_accepted (decide_observed rec cl cur rt kind pure observed) =
     (if \<not> (inputs_agree rec rt \<and> guards_agree rec cur kind) \<or> fp_toolchain_content rec = []
         \<or> c_toolchain_content cl = [] \<or> c_external cl then no_authority
      else if purity_accepted pure then
        (if c_unverifiable cl \<or> (fp_runtime_inputs rec \<noteq> [] \<and> rt_unverifiable rt)
         then guards_accepted rec\<lparr>aa_purity := pure\<rparr> else guards_accepted rec)
           \<lparr>aa_applicability := fp_applicability rec\<rparr>
      else if fp_runtime_inputs rec \<noteq> [] \<and> rt_unverifiable rt then guards_accepted rec
      else if \<not> c_unverifiable cl then guards_accepted rec\<lparr>aa_applicability := fp_applicability rec\<rparr>
      else if observation_accepted observed \<and> fp_runtime_inputs rec \<noteq> []
         \<and> c_refusal cl \<noteq> SharedDynamicStateRefusal
      then guards_accepted rec\<lparr>aa_observation := observed, aa_applicability := fp_applicability rec\<rparr>
      else guards_accepted rec)"
proof (cases "decide_known_guards rec cur rt kind")
  case None
  then have "inputs_agree rec rt \<and> guards_agree rec cur kind" by (simp add: known_guards_none)
  with None show ?thesis
    unfolding decide_observed_def by (simp add: Let_def answer_accepted del: not_None_eq)
next
  case (Some v)
  then have "\<not> (inputs_agree rec rt \<and> guards_agree rec cur kind)"
    using known_guards_none [of rec cur rt kind] by simp
  moreover have "v_accepted v = no_authority" using known_guards_stale [OF Some] by simp
  ultimately show ?thesis using Some by (simp add: decide_observed_def)
qed

lemma guards_accepted_fields [simp]: "aa_purity (guards_accepted rec) = no_purity"
  "aa_observation (guards_accepted rec) = no_observation" "aa_guards (guards_accepted rec)"
  "aa_purity no_authority = no_purity" "aa_observation no_authority = no_observation"
  "\<not> aa_guards no_authority"
  by (simp_all add: guards_accepted_def no_authority_def)

lemma accepted_purity:
  assumes "aa_purity (v_accepted (decide_observed rec cl cur rt kind pure observed)) \<noteq> no_purity"
  shows "purity_accepted pure"
    "\<not> (\<not> c_unverifiable cl \<and> \<not> (fp_runtime_inputs rec \<noteq> [] \<and> rt_unverifiable rt))"
    "v_status (decide_observed rec cl cur rt kind pure observed) = Valid"
  using assms by (simp_all add: decide_observed_accepted decide_observed_valid proof_admitted_def
      split: if_split_asm)

lemma accepted_observation:
  assumes "aa_observation (v_accepted (decide_observed rec cl cur rt kind pure observed))
    \<noteq> no_observation"
  shows "\<not> purity_accepted pure" "c_unverifiable cl" "c_refusal cl \<noteq> SharedDynamicStateRefusal"
    "fp_runtime_inputs rec \<noteq> []"
    "v_status (decide_observed rec cl cur rt kind pure observed) = Valid"
  using assms by (simp_all add: decide_observed_accepted decide_observed_valid proof_admitted_def
      split: if_split_asm)

lemma accepted_guards:
  "aa_guards (v_accepted (decide_observed rec cl cur rt kind pure observed)) \<Longrightarrow>
     inputs_agree rec rt \<and> guards_agree rec cur kind"
  by (simp add: decide_observed_accepted split: if_split_asm)

lemma no_observation_not_accepted [simp]: "\<not> observation_accepted no_observation"
  by (simp add: observation_accepted_def)

lemma compatible_proof_mode_parts:
  assumes "compatible_proof_mode rec subject = (True, ef)"
  shows "fp_observation_assertion rec = ''caller assertion''" "op_subject (fp_proof rec) = subject"
    "op_strategy (fp_proof rec) = ObservationRTA" "fp_admission rec \<noteq> []"
    "op_observable (fp_proof rec) \<longleftrightarrow> op_reason (fp_proof rec) = []"
    "ef \<Longrightarrow> op_observable (fp_proof rec)"
    "op_evidence (fp_proof rec) = proof_evidence_mode rec ef"
  using assms by (auto simp: compatible_proof_mode_def proof_evidence_def Let_def split: if_splits)

lemma admitted_observation_accepted:
  "observation_accepted (admitted_observation supported rec subject cl) \<longleftrightarrow>
     compatible_proof rec subject \<and> fp_admission rec = c_admission cl
     \<and> op_observable (fp_proof rec)
     \<and> (supported (fp_runtime_inputs rec) (outcome_subject rec subject)
        \<or> snd (compatible_proof_mode rec subject))"
  by (auto simp: admitted_observation_def compatible_proof_def observation_accepted_def
      no_observation_def Method_def StaticMethod_def split: prod.splits)

lemma framed_head: "\<exists>d r. framed s = d # r \<and> is_digit d"
proof -
  obtain d r where "show_nat (length s) = d # r" by (cases "show_nat (length s)") simp_all
  then show ?thesis using show_nat_digits [of d "length s"] by (simp add: framed_def)
qed

lemma framed_not_true: "framed s @ x \<noteq> show_bool True @ y"
  using framed_head [of s] by (auto simp: show_bool_def is_digit_def)

lemma evidence_preimage_inj:
  "evidence_preimage f a = evidence_preimage g b \<longleftrightarrow>
     a = b \<and> fp_maximal f = fp_maximal g
     \<and> fp_observation_assertion f = fp_observation_assertion g
     \<and> (fp_proof f)\<lparr>op_evidence := []\<rparr> = (fp_proof g)\<lparr>op_evidence := []\<rparr>
     \<and> fp_toolchain_content f = fp_toolchain_content g \<and> fp_admission f = fp_admission g"
  (is "?l = ?r")
proof
  assume ?l
  then have "a = b"
    using framed_not_true [of "op_reason (fp_proof f)"]
      framed_not_true [THEN not_sym, of _ "op_reason (fp_proof g)"]
    by (cases a; cases b) (auto simp: evidence_preimage_def Let_def frame_simps)
  with \<open>?l\<close> show ?r
    by (cases "fp_proof f"; cases "fp_proof g"; cases "op_subject (fp_proof f)";
        cases "op_subject (fp_proof g)")
      (auto simp: evidence_preimage_def Let_def frame_simps)
next
  assume ?r
  then show ?l
    by (cases "fp_proof f"; cases "fp_proof g") (auto simp: evidence_preimage_def Let_def)
qed

section \<open>A record and its current facts, for the witnesses\<close>

definition example_guards :: guards where
  "example_guards = \<lparr>g_toolchain = ''go1.26 linux/amd64'', g_build_config = ''b'', g_machine = [],
     g_runtime_config = []\<rparr>"

definition example_record :: fingerprint where
  "example_record = no_fingerprint\<lparr>fp_maximal := ''m'', fp_toolchain_content := ''t'',
     fp_test_variants := ''v'', fp_guards := example_guards,
     fp_dynamic_strategy := DynamicStateStrategy, fp_closure_strategy := ClosureStrategy,
     fp_kind := CodeResult\<rparr>"

definition example_closure :: closure where
  "example_closure = \<lparr>c_hash = ''m'', c_toolchain_content = ''t'', c_admission = ''p'',
     c_test_variants = ''v'', c_unverifiable = False, c_reason = [],
     c_refusal = DependenceRefusal, c_culprit = no_subject, c_external = False\<rparr>"

definition shared_closure :: closure where
  "shared_closure = example_closure\<lparr>c_unverifiable := True, c_refusal := SharedDynamicStateRefusal\<rparr>"

definition caller_observation :: observation_authority where
  "caller_observation = \<lparr>oa_assertion = ''caller assertion'', oa_strategy = ObservationRTA,
     oa_method = Method, oa_current = False\<rparr>"

lemmas example_defs = example_guards_def example_record_def example_closure_def shared_closure_def
  caller_observation_def no_fingerprint_def no_applicability_def

lemma example_core_agrees: "core_agrees example_record example_closure"
  and example_inputs_agree: "inputs_agree example_record rt"
  and example_guards_agree: "guards_agree example_record example_guards CodeResult"
  by (simp_all add: example_defs core_agrees_def inputs_agree_def guards_agree_def
      recognized_applicability_def effective_test_variants_def DynamicStateStrategy_def
      compare_facts_agrees applicable_guards_def valid_kind_def Let_def)

section \<open>The verdict\<close>

text \<open>
  C1: a record is valid exactly when the recorded core, the runtime inputs and every
  applicable guard agree, toolchain content is known on both sides, the subject is not
  declared external, and either purity is accepted on both sides or neither the closure
  nor the recorded inputs are unverifiable. Nothing else makes a record valid.
\<close>

theorem decide_valid_iff:
  "v_status (decide rec cl cur rt kind pure) = Valid \<longleftrightarrow>
     core_agrees rec cl \<and> inputs_agree rec rt
     \<and> m_axis (compare_facts (fp_guards rec) cur kind) = NoAxis
     \<and> fp_toolchain_content rec \<noteq> [] \<and> c_toolchain_content cl \<noteq> [] \<and> \<not> c_external cl
     \<and> (if purity_accepted pure then True
        else \<not> c_unverifiable cl \<and> \<not> (fp_runtime_inputs rec \<noteq> [] \<and> rt_unverifiable rt))"
  unfolding decide_def decide_after_closure_def
  by (auto simp: decide_observed_valid proof_admitted_def guards_agree_def
      simp flip: recorded_evidence_none dest: recorded_evidence_stale split: option.splits)

text \<open>
  C23: staleness has precedence: the verdict is stale exactly when the core, the runtime
  inputs or an applicable guard disagrees, whatever the closure, the external directive
  or a purity assertion say.
\<close>

theorem decide_stale_iff:
  "v_status (decide rec cl cur rt kind pure) = Stale \<longleftrightarrow>
     \<not> (core_agrees rec cl \<and> inputs_agree rec rt
        \<and> m_axis (compare_facts (fp_guards rec) cur kind) = NoAxis)"
  unfolding decide_def decide_after_closure_def
  by (auto simp: decide_observed_stale guards_agree_def simp flip: recorded_evidence_none
      dest: recorded_evidence_stale split: option.splits)

text \<open>
  C10: observation evidence never lifts the shared-dynamic-state refusal, whatever authority
  the caller offers: without an accepted purity assertion the verdict is not valid.
\<close>

theorem observation_never_lifts_shared_state:
  assumes "\<not> purity_accepted pure" "c_unverifiable cl" "c_refusal cl = SharedDynamicStateRefusal"
  shows "v_status (decide_observed rec cl cur rt kind pure observed) \<noteq> Valid"
  using assms by (simp add: decide_observed_valid proof_admitted_def)

theorem observation_never_lifts_shared_state_witness:
  "v_status (decide_observed example_record shared_closure example_guards no_rt_state CodeResult
     no_purity caller_observation) \<noteq> Valid"
  by (rule observation_never_lifts_shared_state)
    (simp_all add: example_defs purity_accepted_def no_purity_def)

text \<open>
  an authority is reported only where it decided. The purity authority appears only
  on a valid verdict that needed it, the observation authority only on a valid verdict
  over an unverifiable closure without accepted purity and without shared state, and the
  guard agreement only when every guard agreed.
\<close>

theorem accepted_authority_is_load_bearing:
  "let v = decide_observed rec cl cur rt kind pure observed; a = v_accepted v in
     \<not> (aa_purity a \<noteq> no_purity \<and> \<not> (v_status v = Valid \<and> purity_accepted pure
          \<and> \<not> (\<not> c_unverifiable cl \<and> \<not> (fp_runtime_inputs rec \<noteq> [] \<and> rt_unverifiable rt))))
     \<and> \<not> (aa_observation a \<noteq> no_observation
          \<and> \<not> (v_status v = Valid \<and> c_unverifiable cl \<and> \<not> purity_accepted pure
               \<and> c_refusal cl \<noteq> SharedDynamicStateRefusal \<and> fp_runtime_inputs rec \<noteq> []))
     \<and> \<not> (aa_guards a \<and> \<not> (inputs_agree rec rt \<and> guards_agree rec cur kind))"
  using accepted_purity [of rec cl cur rt kind pure observed]
    accepted_observation [of rec cl cur rt kind pure observed]
    accepted_guards [of rec cl cur rt kind pure observed]
  unfolding Let_def by blast

text \<open>
  every refusal names a cause and every acceptance names none: the semantic cause of a
  verdict is NoCause exactly when its status is valid.
\<close>

theorem decide_cause_iff_valid:
  "ca_kind (v_cause (decide rec cl cur rt kind pure)) = NoCause \<longleftrightarrow>
     v_status (decide rec cl cur rt kind pure) = Valid"
  unfolding decide_def decide_after_closure_def decide_observed_def Let_def
  by (auto simp: no_cause_def dest!: stale_tiers split: option.splits)

text \<open>
  the digest that binds an observation proof determines the proof: two records whose
  evidence preimages agree have the same closure, assertion, proof fields, toolchain content
  and admission policy, and were bound in the same mode.
\<close>

theorem observation_evidence_preimage_injective:
  "evidence_preimage f a = evidence_preimage g b \<longleftrightarrow>
     a = b \<and> fp_maximal f = fp_maximal g
     \<and> fp_observation_assertion f = fp_observation_assertion g
     \<and> (fp_proof f)\<lparr>op_evidence := []\<rparr> = (fp_proof g)\<lparr>op_evidence := []\<rparr>
     \<and> fp_toolchain_content f = fp_toolchain_content g \<and> fp_admission f = fp_admission g"
  by (rule evidence_preimage_inj)

text \<open>
  the key a manifest's outcome support is recorded under is computed from an encoding
  that determines the subject and every producing identity, for well-formed UTF-8 fields.
\<close>

theorem outcome_fields_injective:
  assumes "list_all valid_utf8 (outcome_fields f s)" "list_all valid_utf8 (outcome_fields g t)"
    and "json_strings (outcome_fields f s) = json_strings (outcome_fields g t)"
  shows "s = t \<and> fp_maximal f = fp_maximal g \<and> fp_test_variants f = fp_test_variants g
    \<and> g_toolchain (fp_guards f) = g_toolchain (fp_guards g)
    \<and> g_build_config (fp_guards f) = g_build_config (fp_guards g)
    \<and> fp_toolchain_content f = fp_toolchain_content g \<and> fp_admission f = fp_admission g
    \<and> op_strategy (fp_proof f) = op_strategy (fp_proof g)"
  using json_strings_inj [OF assms(1,2)] assms(3)
  by (cases s; cases t) (simp add: outcome_fields_def)

lemma example_utf8: "list_all valid_utf8 (outcome_fields example_record no_subject)"
  by (simp add: outcome_fields_def Method_def example_defs no_subject_def
      no_observation_proof_def)

theorem outcome_fields_injective_witness:
  "fp_maximal example_record = fp_maximal (example_record\<lparr>fp_kind := Measurement\<rparr>)"
  using outcome_fields_injective [of example_record no_subject
      "example_record\<lparr>fp_kind := Measurement\<rparr>" no_subject] example_utf8
  by (simp add: outcome_fields_def)

text \<open>
  an observation authority is admitted exactly for a compatible proof of this very
  subject, under the current admission policy, that is observable, and that either has
  outcome support in the recorded manifest or was bound as statically effect-free.
\<close>

theorem observation_admission_iff:
  "observation_accepted (admitted_observation supported rec subject cl) \<longleftrightarrow>
     compatible_proof rec subject \<and> fp_admission rec = c_admission cl
     \<and> op_observable (fp_proof rec)
     \<and> (supported (fp_runtime_inputs rec) (outcome_subject rec subject)
        \<or> snd (compatible_proof_mode rec subject))"
  by (rule admitted_observation_accepted)

end
