(* ===== verification/Build_Flags.thy ===== *)
theory Build_Flags
  imports Prelude
begin

text \<open>
  internal/buildflags: the Go command's quoted argument grammar (\<open>fields\<close> and
  \<open>join_fields\<close>, quoted.go) and the refusal of overlay flags (\<open>validate_flags\<close>,
  buildflags.go). The lemmas show that joining and splitting are inverse on every argument
  list the encoder accepts, and when it refuses one.
\<close>

section \<open>The quoted argument grammar\<close>

definition field_space :: "char \<Rightarrow> bool" where
  "field_space c \<longleftrightarrow> c \<in> {CHR '' '', CHR 0x09, CHR 0x0D, CHR 0x0A}"

definition quote_char :: "char \<Rightarrow> bool" where
  "quote_char c \<longleftrightarrow> c \<in> {CHR 0x27, CHR 0x22}"

lemma dropWhile_Cons_length: "dropWhile P xs = y # ys \<Longrightarrow> length ys < length xs"
  by (metis length_dropWhile_le length_Cons less_le_trans lessI)

lemma dropWhile_Cons_not: "dropWhile P xs = y # ys \<Longrightarrow> \<not> P y"
  by (metis hd_dropWhile list.distinct(1) list.sel(1))

text \<open>
  One iteration of the loop of Fields: skip the white space, then take a whole quoted
  field or a bare word, and go on behind it. The measure is the text's length.
\<close>

function fields :: "string \<Rightarrow> string list result" where
  "fields s = (case dropWhile field_space s of
      [] \<Rightarrow> Inr []
    | q # rest \<Rightarrow>
        (if quote_char q then
           (case index_byte q rest of
              None \<Rightarrow> Inl (''unterminated '' @ [q] @ '' field'')
            | Some e \<Rightarrow>
                bind_res (fields (drop (Suc e) rest)) (\<lambda>fs. Inr (take e rest # fs)))
         else
           bind_res (fields (dropWhile (Not \<circ> field_space) (q # rest)))
             (\<lambda>fs. Inr (takeWhile (Not \<circ> field_space) (q # rest) # fs))))"
  by pat_completeness auto

termination
proof (relation "measure length", goal_cases)
  case 1
  show ?case by simp
next
  case (2 s q rest e)
  then show ?case by (auto dest!: dropWhile_Cons_length)
next
  case (3 s q rest)
  then have "\<not> field_space q" by (metis dropWhile_Cons_not)
  then have "length (dropWhile (Not \<circ> field_space) (q # rest)) \<le> length rest"
    by (simp add: length_dropWhile_le)
  with 3 show ?case by (auto dest!: dropWhile_Cons_length)
qed

declare fields.simps [simp del]

text \<open>The encoding of one argument: bare, single-quoted, double-quoted, or refused.\<close>

definition encode_field :: "nat \<Rightarrow> string \<Rightarrow> string result" where
  "encode_field i f =
     (if nul \<in> set f then Inl (''argument '' @ show_nat i @ '' contains NUL'')
      else if f \<noteq> [] \<and> \<not> quote_char (hd f) \<and> \<not> list_ex field_space f then Inr f
      else if CHR 0x27 \<notin> set f then Inr (CHR 0x27 # f @ [CHR 0x27])
      else if CHR 0x22 \<notin> set f then Inr (CHR 0x22 # f @ [CHR 0x22])
      else Inl (''argument '' @ show_nat i @ '' cannot be represented by Go whole-word quoting''))"

definition join_fields :: "string list \<Rightarrow> string result" where
  "join_fields fs =
     bind_res (map_res (\<lambda>(i, f). encode_field i f) (zip [0..<length fs] fs))
       (\<lambda>es. Inr (join_with '' '' es))"

section \<open>Splitting what was joined\<close>

lemma quote_not_space: "quote_char c \<Longrightarrow> \<not> field_space c"
  by (auto simp: quote_char_def field_space_def)

text \<open>An encoded argument in front of the end of the text, or of a blank, reads back.\<close>

lemma fields_encoded:
  assumes enc: "encode_field i f = Inr e" and rest: "t = [] \<or> field_space (hd t)"
  shows "fields (e @ t) = bind_res (fields t) (\<lambda>fs. Inr (f # fs))"
proof -
  consider (bare) "e = f" "f \<noteq> []" "\<not> quote_char (hd f)" "\<not> list_ex field_space f"
    | (quoted) q where "e = q # f @ [q]" "quote_char q" "q \<notin> set f"
    using enc by (auto simp: encode_field_def quote_char_def split: if_splits)
  then show ?thesis
  proof cases
    case bare
    then obtain c cs where f: "f = c # cs" by (cases f) auto
    have nosp: "\<forall>x\<in>set f. \<not> field_space x" using bare by (simp add: list_ex_iff)
    have "takeWhile (Not \<circ> field_space) (f @ t) = f"
      and "dropWhile (Not \<circ> field_space) (f @ t) = t"
      using nosp rest by (cases t; simp add: takeWhile_append2 dropWhile_append2)+
    moreover have "dropWhile field_space (f @ t) = f @ t"
      using nosp f by simp
    ultimately show ?thesis
      using bare f by (subst fields.simps) simp
  next
    case quoted
    have "dropWhile field_space (e @ t) = q # (f @ q # t)"
      using quoted by (simp add: quote_not_space)
    with quoted show ?thesis
      by (subst fields.simps) (simp add: index_byte_append)
  qed
qed

lemma fields_skip_blank: "fields (CHR '' '' # t) = fields t"
  by (subst (1 2) fields.simps) (simp add: field_space_def)

lemma fields_nil [simp]: "fields [] = Inr []"
  by (subst fields.simps) simp

lemma fields_join_encoded:
  assumes "list_all2 (\<lambda>f e. \<exists>i. encode_field i f = Inr e) fs es"
  shows "fields (join_with '' '' es) = Inr fs"
  using assms
proof (induction rule: list_all2_induct)
  case step: (Cons f fs e es)
  then obtain i where enc: "encode_field i f = Inr e" by blast
  show ?case
  proof (cases es)
    case Nil
    with step.hyps have "fs = []" by simp
    with Nil show ?thesis using fields_encoded [OF enc, of "[]"] by simp
  next
    case (Cons y ys)
    have "fields (e @ CHR '' '' # join_with '' '' (y # ys))
        = bind_res (fields (CHR '' '' # join_with '' '' (y # ys))) (\<lambda>fs. Inr (f # fs))"
      by (rule fields_encoded [OF enc]) (simp add: field_space_def)
    with step.IH Cons show ?thesis by (simp add: fields_skip_blank)
  qed
qed simp

lemma join_fields_encoded:
  assumes "join_fields fs = Inr s"
  obtains es where "s = join_with '' '' es"
    and "list_all2 (\<lambda>f e. \<exists>i. encode_field i f = Inr e) fs es"
proof -
  from assms obtain es where
    es: "map_res (\<lambda>(i, f). encode_field i f) (zip [0..<length fs] fs) = Inr es"
    and s: "s = join_with '' '' es"
    by (auto simp: join_fields_def bind_res_Inr_iff)
  have "list_all2 (\<lambda>f e. \<exists>i. encode_field i f = Inr e) fs es"
    using map_res_length [OF es] map_res_nth [OF es]
    by (fastforce simp: list_all2_conv_all_nth)
  with s show ?thesis by (rule that)
qed

text \<open>An argument the grammar can carry: no NUL, and not both quotes where quotes are needed.\<close>

definition representable :: "string \<Rightarrow> bool" where
  "representable f \<longleftrightarrow> nul \<notin> set f \<and>
     (f \<noteq> [] \<and> \<not> quote_char (hd f) \<and> \<not> list_ex field_space f
      \<or> CHR 0x27 \<notin> set f \<or> CHR 0x22 \<notin> set f)"

lemma encode_field_representable: "(\<exists>e. encode_field i f = Inr e) \<longleftrightarrow> representable f"
  by (auto simp: encode_field_def representable_def)

lemma map_res_ok_iff: "(\<exists>ys. map_res f xs = Inr ys) \<longleftrightarrow> (\<forall>x\<in>set xs. \<exists>y. f x = Inr y)"
  by (induction xs) (auto split: sum.splits)

lemma join_fields_ok_iff: "(\<exists>s. join_fields fs = Inr s) \<longleftrightarrow> list_all representable fs"
proof -
  have "(\<exists>s. join_fields fs = Inr s) \<longleftrightarrow>
      (\<forall>(i, f)\<in>set (zip [0..<length fs] fs). \<exists>e. encode_field i f = Inr e)"
    by (auto simp: join_fields_def bind_res_Inr_iff map_res_ok_iff)
  also have "\<dots> \<longleftrightarrow> (\<forall>(i, f)\<in>set (zip [0..<length fs] fs). representable f)"
    by (simp add: encode_field_representable case_prod_beta)
  also have "\<dots> \<longleftrightarrow> list_all representable fs"
    by (fastforce simp: set_zip list_all_length in_set_conv_nth list_all_iff)
  finally show ?thesis .
qed

section \<open>Overlay flags\<close>

definition is_overlay_flag :: "string \<Rightarrow> bool" where
  "is_overlay_flag flag = (let name = dropWhile (\<lambda>c. c = CHR ''-'') flag
     in name = ''overlay'' \<or> has_prefix name ''overlay='')"

definition unsupported_overlay :: "string \<Rightarrow> string" where
  "unsupported_overlay flag = ''build flags: '' @ flag
     @ '' is unsupported because freshness analysis hashes disk source''"

definition refuse_overlay :: "string list \<Rightarrow> unit result" where
  "refuse_overlay flags = (case find is_overlay_flag flags of
      Some flag \<Rightarrow> Inl (unsupported_overlay flag) | None \<Rightarrow> Inr ())"

text \<open>
  Validate: \<open>go_flags\<close> is what the pass's reader answers for GOFLAGS, asked only once the
  explicit flags have been admitted.
\<close>

definition validate_flags :: "string result \<Rightarrow> string list \<Rightarrow> unit result" where
  "validate_flags go_flags explicit =
     bind_res (refuse_overlay explicit) (\<lambda>_.
       case go_flags of
         Inl e \<Rightarrow> Inl (''build flags: resolve GOFLAGS: '' @ e)
       | Inr text \<Rightarrow>
           (case fields text of
              Inl e \<Rightarrow> Inl (''build flags: parse GOFLAGS: '' @ e)
            | Inr parsed \<Rightarrow> refuse_overlay parsed))"

lemma refuse_overlay_ok: "refuse_overlay fs = Inr () \<longleftrightarrow> list_all (Not \<circ> is_overlay_flag) fs"
  by (auto simp: refuse_overlay_def list_all_iff find_None_iff find_Some_iff
      split: option.splits)

lemma validate_flags_ok:
  "validate_flags go_flags explicit = Inr () \<longleftrightarrow>
     list_all (Not \<circ> is_overlay_flag) explicit \<and>
     (\<exists>text parsed. go_flags = Inr text \<and> fields text = Inr parsed
        \<and> list_all (Not \<circ> is_overlay_flag) parsed)"
  by (auto simp: validate_flags_def bind_res_Inr_iff refuse_overlay_ok split: sum.splits)

section \<open>Properties\<close>

text \<open>
  C26: splitting what the encoder joined gives the argument list back, for every list it
  accepts: GOFLAGS text built from arguments carries exactly those arguments.
\<close>

theorem join_fields_roundtrip:
  assumes "join_fields fs = Inr s"
  shows "fields s = Inr fs"
  using assms by (auto elim: join_fields_encoded dest: fields_join_encoded)

theorem join_fields_roundtrip_witness: "fields (''-a '' @ [CHR 0x27] @ ''b c'' @ [CHR 0x27]) = Inr [''-a'', ''b c'']"
  using join_fields_roundtrip [of "[''-a'', ''b c'']" "''-a '' @ [CHR 0x27] @ ''b c'' @ [CHR 0x27]"]
  by (simp add: join_fields_def encode_field_def quote_char_def field_space_def nul_def)

text \<open>
  the encoder accepts exactly the argument lists whose every member has no NUL and, if
  it needs quotes, lacks one of the two quote characters.
\<close>

theorem join_fields_accepts_iff:
  "(\<exists>s. join_fields fs = Inr s) \<longleftrightarrow> list_all representable fs"
  by (rule join_fields_ok_iff)

text \<open>
  flags are admitted exactly when no explicit flag and no flag of a parseable GOFLAGS
  selects an overlay.
\<close>

theorem validate_flags_admits_iff:
  "validate_flags go_flags explicit = Inr () \<longleftrightarrow>
     list_all (Not \<circ> is_overlay_flag) explicit \<and>
     (\<exists>text parsed. go_flags = Inr text \<and> fields text = Inr parsed
        \<and> list_all (Not \<circ> is_overlay_flag) parsed)"
  by (rule validate_flags_ok)

end
