(* ===== verification/Json_Text.thy ===== *)
theory Json_Text
  imports Go_Json
begin

text \<open>
  JSON documents as encoding/json reads and writes them, for the owned record formats of
  internal/jsonrecord: string literals with their escapes and the replacement of malformed
  text, number literals, the stack machine of the scanner with its nesting bound, the
  compact writer, the removal of insignificant whitespace, and the strict object reading of
  jsonrecord.go (unique field names, no null field, no unknown field, one value). The lemmas
  show that what the writer writes the reader reads back.
\<close>

section \<open>Documents\<close>

datatype json =
    JNull
  | JBool bool
  | JNum string
  | JStr string
  | JArr "json list"
  | JObj "(string \<times> json) list"

datatype token = TBrace bool | TBracket bool | TColon | TComma | TAtom json

section \<open>String literals\<close>

text \<open>utf8.AppendRune: a surrogate or an out-of-range value is written as U+FFFD.\<close>

definition replacement :: string where
  "replacement = map char_of [0xEF::nat, 0xBF, 0xBD]"

definition surrogate :: "nat \<Rightarrow> bool" where
  "surrogate n \<longleftrightarrow> 0xD800 \<le> n \<and> n \<le> 0xDFFF"

definition rune_bytes :: "nat \<Rightarrow> string" where
  "rune_bytes n =
     (if n < 0x80 then [char_of n]
      else if n < 0x800 then map char_of [0xC0 + n div 64, 0x80 + n mod 64]
      else if surrogate n \<or> n > 0x10FFFF then replacement
      else if n < 0x10000
      then map char_of [0xE0 + n div 4096, 0x80 + n div 64 mod 64, 0x80 + n mod 64]
      else map char_of [0xF0 + n div 262144, 0x80 + n div 4096 mod 64, 0x80 + n div 64 mod 64,
        0x80 + n mod 64])"

definition hex_nat :: "char \<Rightarrow> nat option" where
  "hex_nat c = (let b = byte_of c in
     if 48 \<le> b \<and> b \<le> 57 then Some (b - 48)
     else if 97 \<le> b \<and> b \<le> 102 then Some (b - 87)
     else if 65 \<le> b \<and> b \<le> 70 then Some (b - 55) else None)"

definition hex4 :: "string \<Rightarrow> nat option" where
  "hex4 s = (case s of
      a # b # c # d # _ \<Rightarrow> (case (hex_nat a, hex_nat b, hex_nat c, hex_nat d) of
          (Some i, Some j, Some k, Some l) \<Rightarrow> Some (((i * 16 + j) * 16 + k) * 16 + l)
        | _ \<Rightarrow> None)
    | _ \<Rightarrow> None)"

text \<open>A high surrogate followed by the escape of a low one.\<close>

definition low_surrogate :: "nat \<Rightarrow> string \<Rightarrow> nat option" where
  "low_surrogate hi s =
     (if hi \<le> 0xDBFF \<and> take 2 s = [backslash, CHR ''u'']
      then (case hex4 (drop 2 s) of
          Some lo \<Rightarrow> if 0xDC00 \<le> lo \<and> lo \<le> 0xDFFF
            then Some (0x10000 + (hi - 0xD800) * 1024 + (lo - 0xDC00)) else None
        | None \<Rightarrow> None)
      else None)"

definition read_escape :: "string \<Rightarrow> (string \<times> string) option" where
  "read_escape s = (case s of [] \<Rightarrow> None
     | e # r \<Rightarrow>
       if e = quote \<or> e = backslash \<or> e = CHR ''/'' then Some ([e], r)
       else if e = CHR ''b'' then Some ([CHR 0x08], r)
       else if e = CHR ''f'' then Some ([CHR 0x0C], r)
       else if e = CHR ''n'' then Some ([CHR 0x0A], r)
       else if e = CHR ''r'' then Some ([CHR 0x0D], r)
       else if e = CHR ''t'' then Some ([CHR 0x09], r)
       else if e = CHR ''u'' then (case hex4 r of None \<Rightarrow> None
         | Some n \<Rightarrow>
           if surrogate n then (case low_surrogate n (drop 4 r) of
               Some m \<Rightarrow> Some (rune_bytes m, drop 10 r)
             | None \<Rightarrow> Some (replacement, drop 4 r))
           else Some (rune_bytes n, drop 4 r))
       else None)"

lemma read_escape_shorter: "read_escape s = Some (out, r) \<Longrightarrow> length r < Suc (length s)"
  by (auto simp: read_escape_def split: list.splits if_splits option.splits)

text \<open>The rest of a literal after its opening quote.\<close>

function read_string :: "string \<Rightarrow> (string \<times> string) option" where
  "read_string [] = None"
| "read_string (c # cs) =
     (if c = quote then Some ([], cs)
      else if byte_of c < 0x20 then None
      else if c = backslash then (case read_escape cs of None \<Rightarrow> None
        | Some (out, r) \<Rightarrow> map_option (map_prod ((@) out) id) (read_string r))
      else (case utf8_size (map byte_of (c # cs)) of
          0 \<Rightarrow> map_option (map_prod ((@) replacement) id) (read_string cs)
        | Suc n \<Rightarrow> map_option (map_prod ((@) (c # take n cs)) id) (read_string (drop n cs))))"
  by pat_completeness auto

termination
  by (relation "measure length") (auto dest: read_escape_shorter simp: less_Suc_eq_le)

declare read_string.simps [simp del]

lemma read_string_shorter: "read_string s = Some (t, r) \<Longrightarrow> length r < length s"
proof (induction s arbitrary: t r rule: read_string.induct)
  case (2 c cs)
  show ?case
  proof (cases "c = quote \<or> byte_of c < 0x20")
    case True
    then show ?thesis using "2.prems" by (auto simp: read_string.simps split: if_splits)
  next
    case False
    then have nq: "c \<noteq> quote" "\<not> byte_of c < 0x20" by auto
    show ?thesis
    proof (cases "c = backslash")
      case True
      with 2 nq obtain out r' t' where e: "read_escape cs = Some (out, r')" "read_string r' = Some (t', r)"
        by (auto simp: read_string.simps split: option.splits)
      from "2.IH"(1) [OF nq True e(1) refl e(2)] read_escape_shorter [OF e(1)] show ?thesis by simp
    next
      case nb: False
      show ?thesis
      proof (cases "utf8_size (map byte_of (c # cs))")
        case 0
        with 2 nq nb obtain t' where e: "read_string cs = Some (t', r)"
          by (auto simp: read_string.simps simp del: utf8_size.simps)
        from "2.IH"(2) [OF nq nb 0 e] show ?thesis by simp
      next
        case (Suc n)
        with 2 nq nb obtain t' where e: "read_string (drop n cs) = Some (t', r)"
          by (auto simp: read_string.simps simp del: utf8_size.simps)
        from "2.IH"(3) [OF nq nb Suc e] show ?thesis by simp
      qed
    qed
  qed
qed (simp add: read_string.simps)

section \<open>Number literals and tokens\<close>

definition is_ws :: "char \<Rightarrow> bool" where
  "is_ws c \<longleftrightarrow> byte_of c \<in> {0x20, 0x09, 0x0D, 0x0A}"

definition digits1 :: "string \<Rightarrow> (string \<times> string) option" where
  "digits1 s = (if takeWhile is_digit s = [] then None
     else Some (takeWhile is_digit s, dropWhile is_digit s))"

definition number_sign :: "string \<Rightarrow> string \<times> string" where
  "number_sign s = (if take 1 s = ''-'' then (''-'', drop 1 s) else ([], s))"

definition number_whole :: "string \<Rightarrow> (string \<times> string) option" where
  "number_whole s = (if take 1 s = ''0'' then Some (''0'', drop 1 s) else digits1 s)"

definition number_fraction :: "string \<Rightarrow> (string \<times> string) option" where
  "number_fraction s = (if take 1 s = ''.''
     then map_option (map_prod ((@) ''.'') id) (digits1 (drop 1 s)) else Some ([], s))"

definition number_exponent :: "string \<Rightarrow> (string \<times> string) option" where
  "number_exponent s = (if take 1 s = ''e'' \<or> take 1 s = ''E''
     then (let r = drop 1 s; sg = (if take 1 r = ''+'' \<or> take 1 r = ''-'' then take 1 r else []) in
       map_option (map_prod ((@) (take 1 s @ sg)) id) (digits1 (drop (length sg) r)))
     else Some ([], s))"

definition read_number :: "string \<Rightarrow> (string \<times> string) option" where
  "read_number s = (case number_sign s of (sg, s1) \<Rightarrow>
     (case number_whole s1 of None \<Rightarrow> None | Some (w, s2) \<Rightarrow>
     (case number_fraction s2 of None \<Rightarrow> None | Some (f, s3) \<Rightarrow>
     (case number_exponent s3 of None \<Rightarrow> None | Some (e, s4) \<Rightarrow> Some (sg @ w @ f @ e, s4)))))"

lemma digits1_split: "digits1 s = Some (d, r) \<Longrightarrow> s = d @ r \<and> d \<noteq> []"
  by (auto simp: digits1_def split: if_splits)

lemma head_char: "take 1 s = [c] \<Longrightarrow> s = c # drop 1 s"
  by (cases s) auto

lemma number_whole_split: "number_whole s = Some (d, r) \<Longrightarrow> s = d @ r \<and> d \<noteq> []"
  by (auto simp: number_whole_def dest: digits1_split head_char split: if_splits)

lemma number_fraction_split: "number_fraction s = Some (d, r) \<Longrightarrow> s = d @ r"
  by (cases s) (auto simp: number_fraction_def dest!: digits1_split split: if_splits)

lemma number_exponent_split: "number_exponent s = Some (d, r) \<Longrightarrow> s = d @ r"
  by (cases s; cases "tl s") (auto simp: number_exponent_def Let_def dest!: digits1_split split: if_splits)

lemma number_sign_split: "number_sign s = (d, r) \<Longrightarrow> s = d @ r"
  by (auto simp: number_sign_def dest: head_char split: if_splits)

lemma read_number_split: "read_number s = Some (n, r) \<Longrightarrow> s = n @ r \<and> n \<noteq> []"
  unfolding read_number_def
  by (auto dest!: number_sign_split number_whole_split number_fraction_split number_exponent_split
      split: prod.splits option.splits)

text \<open>The keywords, read by their first byte.\<close>

definition read_word :: "string \<Rightarrow> (json \<times> string) option" where
  "read_word s =
     (if has_prefix s ''true'' then Some (JBool True, drop 4 s)
      else if has_prefix s ''false'' then Some (JBool False, drop 5 s)
      else if has_prefix s ''null'' then Some (JNull, drop 4 s)
      else None)"

definition punctuation :: "char \<Rightarrow> token option" where
  "punctuation c =
     (if c = CHR ''{'' then Some (TBrace True) else if c = CHR ''}'' then Some (TBrace False)
      else if c = CHR ''['' then Some (TBracket True) else if c = CHR '']'' then Some (TBracket False)
      else if c = CHR '':'' then Some TColon else if c = CHR '','' then Some TComma else None)"

text \<open>The token at the head of a text.\<close>

definition read_token :: "string \<Rightarrow> (token \<times> string) option" where
  "read_token s = (case s of [] \<Rightarrow> None
     | c # cs \<Rightarrow>
       (case punctuation c of Some t \<Rightarrow> Some (t, cs)
        | None \<Rightarrow>
          if c = quote then map_option (map_prod (TAtom \<circ> JStr) id) (read_string cs)
          else if is_digit c \<or> c = CHR ''-'' then map_option (map_prod (TAtom \<circ> JNum) id) (read_number s)
          else map_option (map_prod TAtom id) (read_word s)))"

lemma read_number_shorter: "read_number s = Some (n, r) \<Longrightarrow> length r < length s"
  by (drule read_number_split) simp

lemma has_prefix_nonempty: "has_prefix s p \<Longrightarrow> p \<noteq> [] \<Longrightarrow> s \<noteq> []"
  by (auto simp: has_prefix_def)

lemma read_word_shorter:
  assumes "read_word s = Some (j, r)"
  shows "length r < length s"
proof -
  from assms have "s \<noteq> []" by (auto simp: read_word_def dest: has_prefix_nonempty split: if_splits)
  with assms show ?thesis by (auto simp: read_word_def split: if_splits)
qed

lemma read_token_shorter:
  assumes "read_token s = Some (t, r)"
  shows "length r < length s"
proof (cases s)
  case (Cons c cs)
  with assms read_string_shorter [of cs _ r] read_number_shorter [of s _ r] read_word_shorter [of s _ r]
  show ?thesis by (fastforce simp: read_token_def split: option.splits if_splits)
qed (use assms in \<open>simp add: read_token_def\<close>)

function lex :: "string \<Rightarrow> token list option" where
  "lex [] = Some []"
| "lex (c # cs) = (if is_ws c then lex cs
     else (case read_token (c # cs) of None \<Rightarrow> None
       | Some (t, r) \<Rightarrow> map_option ((#) t) (lex r)))"
  by pat_completeness auto

termination by (relation "measure length") (auto dest: read_token_shorter)

declare lex.simps [simp del]

section \<open>The scanner's stack machine\<close>

definition json_max_depth :: nat where "json_max_depth = 10000"

datatype frame =
    ArrayFrame "json list"
  | ObjectFrame "(string \<times> json) list"
  | MemberFrame "(string \<times> json) list" string

datatype mode = BeginValue bool | BeginKey bool | NeedColon | Have json

type_synonym parse_state = "frame list \<times> mode"

definition open_frame :: "frame \<Rightarrow> mode \<Rightarrow> frame list \<Rightarrow> parse_state option" where
  "open_frame f m fs = (if length fs < json_max_depth then Some (f # fs, m) else None)"

fun parse_step :: "token \<Rightarrow> parse_state \<Rightarrow> parse_state option" where
  "parse_step (TAtom j) (fs, BeginValue b) = Some (fs, Have j)"
| "parse_step (TBracket True) (fs, BeginValue b) = open_frame (ArrayFrame []) (BeginValue True) fs"
| "parse_step (TBrace True) (fs, BeginValue b) = open_frame (ObjectFrame []) (BeginKey True) fs"
| "parse_step (TBracket False) (ArrayFrame xs # fs, BeginValue True) = Some (fs, Have (JArr []))"
| "parse_step (TAtom (JStr k)) (ObjectFrame ps # fs, BeginKey b) = Some (MemberFrame ps k # fs, NeedColon)"
| "parse_step (TBrace False) (ObjectFrame ps # fs, BeginKey True) = Some (fs, Have (JObj []))"
| "parse_step TColon (fs, NeedColon) = Some (fs, BeginValue False)"
| "parse_step TComma (ArrayFrame xs # fs, Have j) = Some (ArrayFrame (j # xs) # fs, BeginValue False)"
| "parse_step (TBracket False) (ArrayFrame xs # fs, Have j) = Some (fs, Have (JArr (rev (j # xs))))"
| "parse_step TComma (MemberFrame ps k # fs, Have j) = Some (ObjectFrame ((k, j) # ps) # fs, BeginKey False)"
| "parse_step (TBrace False) (MemberFrame ps k # fs, Have j) = Some (fs, Have (JObj (rev ((k, j) # ps))))"
| "parse_step t st = None"

fun parse_tokens :: "token list \<Rightarrow> parse_state \<Rightarrow> parse_state option" where
  "parse_tokens [] st = Some st"
| "parse_tokens (t # ts) st = (case parse_step t st of None \<Rightarrow> None | Some st' \<Rightarrow> parse_tokens ts st')"

text \<open>One value and nothing after it.\<close>

definition parse_json :: "string \<Rightarrow> json option" where
  "parse_json s = (case lex s of None \<Rightarrow> None
     | Some ts \<Rightarrow> (case parse_tokens ts ([], BeginValue False) of
         Some ([], Have j) \<Rightarrow> Some j | _ \<Rightarrow> None))"

section \<open>Writing\<close>

fun json_text :: "json \<Rightarrow> string" where
  "json_text JNull = ''null''"
| "json_text (JBool b) = show_bool b"
| "json_text (JNum n) = n"
| "json_text (JStr s) = json_string s"
| "json_text (JArr xs) = ''['' @ join_with '','' (map json_text xs) @ '']''"
| "json_text (JObj ps) = ''{'' @ join_with '',''
     (map (\<lambda>(k, v). json_string k @ '':'' @ json_text v) ps) @ ''}''"

text \<open>json.Compact: the bytes outside literals, without whitespace.\<close>

fun compact_from :: "bool \<Rightarrow> bool \<Rightarrow> string \<Rightarrow> string" where
  "compact_from in_string escaped [] = []"
| "compact_from in_string escaped (c # cs) =
     (if in_string then c # compact_from (escaped \<or> c \<noteq> quote) (\<not> escaped \<and> c = backslash) cs
      else if is_ws c then compact_from False False cs
      else c # compact_from (c = quote) False cs)"

definition compact :: "string \<Rightarrow> string" where
  "compact s = compact_from False False s"

section \<open>Reading back what was written\<close>

lemma utf8_size_append:
  assumes "utf8_size bs = n" "n \<noteq> 0"
  shows "utf8_size (bs @ x) = n"
proof -
  consider "bs = []" | a where "bs = [a]" | a b where "bs = [a, b]" | a b c where "bs = [a, b, c]"
    | a b c d r where "bs = a # b # c # d # r"
    by (metis neq_Nil_conv)
  then show ?thesis using assms by cases (auto split: if_splits)
qed

lemma hex_nat_digit: "n < 16 \<Longrightarrow> hex_nat (hex_digit n) = Some n"
proof -
  have "list_all (\<lambda>m. hex_nat (hex_digit m) = Some m) [0..<16]" by code_simp
  then show "n < 16 \<Longrightarrow> ?thesis" by (simp add: list_all_iff)
qed

lemma read_escape_u00:
  assumes "byte_of c < 0x80"
  shows "read_escape (''u00'' @ hex_digit (byte_of c div 16) # hex_digit (byte_of c mod 16) # r) = Some ([c], r)"
proof -
  have z: "hex_nat CHR ''0'' = Some 0" by code_simp
  have "byte_of c div 16 < 16" using assms by simp
  then have "hex4 (''00'' @ hex_digit (byte_of c div 16) # hex_digit (byte_of c mod 16) # r) = Some (byte_of c)"
    by (simp add: hex4_def z hex_nat_digit)
  with assms show ?thesis
    by (simp add: read_escape_def quote_def backslash_def surrogate_def rune_bytes_def)
qed

lemma read_string_quote: "read_string (quote # r) = Some ([], r)"
  by (simp add: read_string.simps)

lemma read_string_plain:
  "byte_of c < 0x80 \<Longrightarrow> \<not> byte_of c < 0x20 \<Longrightarrow> c \<noteq> quote \<Longrightarrow> c \<noteq> backslash \<Longrightarrow>
     read_string (c # r) = map_option (map_prod ((@) [c]) id) (read_string r)"
  by (simp add: read_string.simps(2))

lemma read_string_backslash:
  "read_escape s = Some (out, r) \<Longrightarrow>
     read_string (backslash # s) = map_option (map_prod ((@) out) id) (read_string r)"
  by (simp add: read_string.simps(2)) (simp add: quote_def backslash_def)

lemma read_escape_short:
  "read_escape (CHR 0x22 # r) = Some ([CHR 0x22], r)" "read_escape (CHR 0x5C # r) = Some ([CHR 0x5C], r)"
  "read_escape (CHR ''b'' # r) = Some ([CHR 0x08], r)" "read_escape (CHR ''f'' # r) = Some ([CHR 0x0C], r)"
  "read_escape (CHR ''n'' # r) = Some ([CHR 0x0A], r)" "read_escape (CHR ''r'' # r) = Some ([CHR 0x0D], r)"
  "read_escape (CHR ''t'' # r) = Some ([CHR 0x09], r)"
  by (simp_all add: read_escape_def quote_def backslash_def)

lemma escape_ascii_short:
  "escape_ascii (CHR 0x22) = [backslash, CHR 0x22]" "escape_ascii (CHR 0x5C) = [backslash, CHR 0x5C]"
  "escape_ascii (CHR 0x08) = [backslash, CHR ''b'']" "escape_ascii (CHR 0x0C) = [backslash, CHR ''f'']"
  "escape_ascii (CHR 0x0A) = [backslash, CHR ''n'']" "escape_ascii (CHR 0x0D) = [backslash, CHR ''r'']"
  "escape_ascii (CHR 0x09) = [backslash, CHR ''t'']"
  by code_simp+

lemma read_string_escape_ascii:
  assumes "byte_of c < 0x80"
  shows "read_string (escape_ascii c @ r) = map_option (map_prod ((@) [c]) id) (read_string r)"
proof (cases "html_safe (byte_of c)")
  case True
  then have "c \<noteq> backslash" "c \<noteq> quote" "\<not> byte_of c < 0x20"
    by (auto simp: backslash_byte quote_byte html_safe_def)
  with read_string_plain [OF assms] True show ?thesis by (simp add: escape_ascii_def)
next
  case unsafe: False
  show ?thesis
  proof (cases "byte_of c \<in> {0x22, 0x5C, 8, 12, 10, 13, 9}")
    case True
    then consider "c = CHR 0x22" | "c = CHR 0x5C" | "c = CHR 0x08" | "c = CHR 0x0C"
      | "c = CHR 0x0A" | "c = CHR 0x0D" | "c = CHR 0x09"
      by (auto simp flip: byte_of_inj)
    then show ?thesis
      by cases (simp_all only: escape_ascii_short append_Cons append_Nil
          read_string_backslash [OF read_escape_short(1)] read_string_backslash [OF read_escape_short(2)]
          read_string_backslash [OF read_escape_short(3)] read_string_backslash [OF read_escape_short(4)]
          read_string_backslash [OF read_escape_short(5)] read_string_backslash [OF read_escape_short(6)]
          read_string_backslash [OF read_escape_short(7)])
  next
    case False
    with unsafe have e: "escape_ascii c = backslash # ''u00'' @
        [hex_digit (byte_of c div 16), hex_digit (byte_of c mod 16)]"
      by (simp add: escape_ascii_def Let_def)
    from read_string_backslash [OF read_escape_u00 [OF assms, of r]] show ?thesis by (simp add: e)
  qed
qed

lemma read_escape_202:
  "read_escape (''u2028'' @ r) = Some (map char_of [0xE2::nat, 0x80, 0xA8], r)"
  "read_escape (''u2029'' @ r) = Some (map char_of [0xE2::nat, 0x80, 0xA9], r)"
proof -
  have "hex_nat CHR ''0'' = Some 0" "hex_nat CHR ''2'' = Some 2" "hex_nat CHR ''8'' = Some 8"
    "hex_nat CHR ''9'' = Some 9" by code_simp+
  then have "hex4 (''2028'' @ r) = Some 0x2028" "hex4 (''2029'' @ r) = Some 0x2029"
    by (simp_all add: hex4_def)
  moreover have "rune_bytes 0x2028 = map char_of [0xE2::nat, 0x80, 0xA8]"
    "rune_bytes 0x2029 = map char_of [0xE2::nat, 0x80, 0xA9]"
    by (simp_all add: rune_bytes_def surrogate_def)
  ultimately show "read_escape (''u2028'' @ r) = Some (map char_of [0xE2::nat, 0x80, 0xA8], r)"
    "read_escape (''u2029'' @ r) = Some (map char_of [0xE2::nat, 0x80, 0xA9], r)"
    by (simp_all add: read_escape_def quote_def backslash_def surrogate_def)
qed

lemma read_string_u202:
  assumes "escape_multi ch = backslash # ''u202'' @ [h]" "byte_of (hd ch) \<noteq> 0x5C"
  shows "read_string (escape_multi ch @ r) = map_option (map_prod ((@) ch) id) (read_string r)"
proof -
  from assms consider "map byte_of ch = [0xE2, 0x80, 0xA8]" | "map byte_of ch = [0xE2, 0x80, 0xA9]"
    by (auto simp: escape_multi_def backslash_def split: if_splits)
  then show ?thesis
  proof cases
    case 1
    then have "ch = map char_of [0xE2::nat, 0x80, 0xA8]" by (intro map_byte_inj) simp
    with 1 read_string_backslash [OF read_escape_202(1), of r] show ?thesis
      by (simp add: escape_multi_def)
  next
    case 2
    then have "ch = map char_of [0xE2::nat, 0x80, 0xA9]" by (intro map_byte_inj) simp
    with 2 read_string_backslash [OF read_escape_202(2), of r] show ?thesis
      by (simp add: escape_multi_def)
  qed
qed

lemma read_string_chunk:
  assumes "rune_chunk ch"
  shows "read_string (escape_chunk ch @ r) = map_option (map_prod ((@) ch) id) (read_string r)"
proof -
  from assms obtain c cs where ch: "ch = c # cs" by (cases ch) (auto simp: rune_chunk_def)
  show ?thesis
  proof (cases "byte_of c < 0x80")
    case True
    then have "cs = []" using rune_chunk_length [of c cs] assms ch by (simp add: lead_len_def)
    with True ch read_string_escape_ascii [of c r] show ?thesis
      by (simp add: escape_chunk_def map_prod_def)
  next
    case False
    with ch have e: "escape_chunk ch = escape_multi ch" by (simp add: escape_chunk_def)
    from escape_multi_head [of c cs] assms False ch
    consider (raw) "escape_multi ch = ch" "0xC2 \<le> byte_of c"
      | (esc) h where "escape_multi ch = backslash # ''u202'' @ [h]" by blast
    then show ?thesis
    proof cases
      case raw
      have "utf8_size (map byte_of (c # cs @ r)) = Suc (length cs)"
        using utf8_size_append [of "map byte_of ch" "Suc (length cs)" "map byte_of r"] assms ch
        by (simp add: rune_chunk_def del: utf8_size.simps)
      moreover have "c \<noteq> quote" "c \<noteq> backslash" using raw(2) by (auto simp: quote_byte backslash_byte)
      ultimately show ?thesis
        using raw ch e by (simp add: read_string.simps(2) del: utf8_size.simps)
    next
      case esc
      have "byte_of (hd ch) \<noteq> 0x5C" using False ch by auto
      from read_string_u202 [OF esc this] e show ?thesis by simp
    qed
  qed
qed

lemma read_json_string:
  "valid_utf8 s \<Longrightarrow> read_string (json_escape s @ quote # r) = Some (s, r)"
proof (induction "length s" arbitrary: s rule: less_induct)
  case less
  show ?case
  proof (cases "s = []")
    case False
    then obtain ch t where "rune_chunk ch" "s = ch @ t" "valid_utf8 t"
      "json_escape s = escape_chunk ch @ json_escape t"
      using valid_utf8_chunk less.prems by metis
    with less.hyps [of t] read_string_chunk [of ch "json_escape t @ quote # r"] show ?thesis
      by (simp add: rune_chunk_def)
  qed (simp add: read_string.simps)
qed

text \<open>Documents the sources write: well-formed text, integers, a bounded depth.\<close>

fun printable :: "json \<Rightarrow> bool" where
  "printable (JNum n) = (\<exists>i. n = show_int i)"
| "printable (JStr s) = valid_utf8 s"
| "printable (JArr xs) = list_all printable xs"
| "printable (JObj ps) = list_all (\<lambda>(k, v). valid_utf8 k \<and> printable v) ps"
| "printable j = True"

fun json_depth :: "json \<Rightarrow> nat" where
  "json_depth (JArr xs) = Suc (fold max (map json_depth xs) 0)"
| "json_depth (JObj ps) = Suc (fold max (map (\<lambda>(k, v). json_depth v) ps) 0)"
| "json_depth j = 0"

fun comma_list :: "token list list \<Rightarrow> token list" where
  "comma_list [] = []"
| "comma_list [x] = x"
| "comma_list (x # y # ys) = x @ TComma # comma_list (y # ys)"

fun json_tokens :: "json \<Rightarrow> token list" where
  "json_tokens (JArr xs) = TBracket True # comma_list (map json_tokens xs) @ [TBracket False]"
| "json_tokens (JObj ps) = TBrace True
     # comma_list (map (\<lambda>(k, v). TAtom (JStr k) # TColon # json_tokens v) ps) @ [TBrace False]"
| "json_tokens j = [TAtom j]"

text \<open>What may follow a value in a document.\<close>

definition follows :: "string \<Rightarrow> bool" where
  "follows r \<longleftrightarrow> r = [] \<or> hd r = CHR '','' \<or> hd r = CHR '']'' \<or> hd r = CHR ''}''"

lemma show_nat_head: "n \<noteq> 0 \<Longrightarrow> hd (show_nat n) \<noteq> CHR ''0''"
proof (induction n rule: show_nat.induct)
  case (1 n)
  show ?case
  proof (cases "n < 10")
    case True
    with 1(2) show ?thesis
      by (subst show_nat.simps) (simp add: digit_char_def flip: byte_of_inj)
  next
    case False
    with 1(1) have "hd (show_nat (n div 10)) \<noteq> CHR ''0''" by simp
    with False show ?thesis by (subst show_nat.simps) (simp add: hd_append)
  qed
qed

lemma follows_digit: "follows r \<Longrightarrow> takeWhile is_digit (show_nat n @ r) = show_nat n"
  by (cases r) (auto simp: follows_def takeWhile_append is_digit_def dest: show_nat_digits)

lemma digits1_show:
  assumes "follows r"
  shows "digits1 (show_nat n @ r) = Some (show_nat n, r)"
proof -
  have "dropWhile is_digit (show_nat n @ r) = r"
    using assms by (cases r) (auto simp: dropWhile_append follows_def is_digit_def dest: show_nat_digits)
  then show ?thesis using follows_digit [OF assms] by (simp add: digits1_def)
qed

lemma number_whole_show: "follows r \<Longrightarrow> number_whole (show_nat n @ r) = Some (show_nat n, r)"
proof (cases "n = 0")
  case True
  then have "show_nat n = ''0''"
    by (subst show_nat.simps) (simp add: digit_char_def flip: byte_of_inj)
  then show "follows r \<Longrightarrow> ?thesis" by (simp add: number_whole_def)
next
  case False
  from show_nat_head [OF False] have "take 1 (show_nat n @ r) \<noteq> ''0''"
    by (cases "show_nat n") (auto simp: Cons_eq_append_conv)
  then show "follows r \<Longrightarrow> ?thesis" by (simp add: number_whole_def digits1_show)
qed

lemma number_tail:
  "follows r \<Longrightarrow> number_fraction r = Some ([], r) \<and> number_exponent r = Some ([], r)"
  by (cases r) (auto simp: follows_def number_fraction_def number_exponent_def)

lemma number_sign_show: "number_sign (show_nat n @ r) = ([], show_nat n @ r)"
proof -
  obtain c cs where c: "show_nat n = c # cs" by (cases "show_nat n") auto
  then have "is_digit c" using show_nat_digits [of c n] by simp
  then have "c \<noteq> CHR ''-''" by (auto simp: is_digit_def)
  with c show ?thesis by (simp add: number_sign_def)
qed

lemma read_number_show: "follows r \<Longrightarrow> read_number (show_int i @ r) = Some (show_int i, r)"
proof -
  assume r: "follows r"
  have neg: "number_sign (CHR ''-'' # x) = (''-'', x)" for x by (simp add: number_sign_def)
  show ?thesis
    using number_whole_show [OF r] number_tail [OF r]
    by (cases "i < 0") (simp_all add: show_int_def read_number_def number_sign_show neg)
qed

lemma show_int_head: "\<exists>c cs. show_int i = c # cs \<and> (is_digit c \<or> c = CHR ''-'')"
proof (cases "i < 0")
  case False
  obtain c cs where "show_nat (nat i) = c # cs" by (cases "show_nat (nat i)") auto
  with False show ?thesis using show_nat_digits [of c "nat i"] by (simp add: show_int_def)
qed (simp add: show_int_def)

section \<open>The tokens of a document\<close>

definition prepend :: "token list \<Rightarrow> token list option \<Rightarrow> token list option" where
  "prepend ts x = map_option ((@) ts) x"

lemma prepend_prepend [simp]: "prepend a (prepend b x) = prepend (a @ b) x"
  by (cases x) (simp_all add: prepend_def)

lemma prepend_Some [simp]: "prepend a (Some b) = Some (a @ b)"
  by (simp add: prepend_def)

lemma lex_token:
  "read_token (c # cs) = Some (t, r) \<Longrightarrow> \<not> is_ws c \<Longrightarrow> lex (c # cs) = prepend [t] (lex r)"
  by (simp add: lex.simps(2) prepend_def) (cases "lex r"; simp)

lemma lex_punct: "punctuation c = Some t \<Longrightarrow> lex (c # cs) = prepend [t] (lex cs)"
  by (rule lex_token) (auto simp: read_token_def is_ws_def punctuation_def split: if_splits)

lemma punct_simps [simp]:
  "punctuation CHR ''{'' = Some (TBrace True)" "punctuation CHR ''}'' = Some (TBrace False)"
  "punctuation CHR ''['' = Some (TBracket True)" "punctuation CHR '']'' = Some (TBracket False)"
  "punctuation CHR '':'' = Some TColon" "punctuation CHR '','' = Some TComma"
  by (simp_all add: punctuation_def)

lemma punctuation_none: "punctuation c = None \<longleftrightarrow> c \<notin> set ''{}[]:,''"
  by (auto simp: punctuation_def)

lemma lex_string: "valid_utf8 s \<Longrightarrow> lex (json_string s @ r) = prepend [TAtom (JStr s)] (lex r)"
  unfolding json_string_def append_Cons append_assoc append_Nil
proof (rule lex_token)
  assume "valid_utf8 s"
  moreover have "punctuation quote = None" by (simp add: punctuation_none quote_def)
  ultimately show "read_token (quote # json_escape s @ quote # r) = Some (TAtom (JStr s), r)"
    by (simp add: read_token_def read_json_string)
qed (simp add: is_ws_def quote_def)

lemma lex_number: "follows r \<Longrightarrow> lex (show_int i @ r) = prepend [TAtom (JNum (show_int i))] (lex r)"
proof -
  assume r: "follows r"
  obtain c cs where c: "show_int i = c # cs" "is_digit c \<or> c = CHR ''-''" using show_int_head by blast
  then have n: "punctuation c = None" "c \<noteq> quote" "\<not> is_ws c"
    by (auto simp: punctuation_none quote_def is_ws_def is_digit_def)
  from read_number_show [OF r, of i] c n show ?thesis
    by (simp add: c(1), intro lex_token) (auto simp: read_token_def)
qed

lemma read_words:
  "read_token (''true'' @ r) = Some (TAtom (JBool True), r)"
  "read_token (''false'' @ r) = Some (TAtom (JBool False), r)"
  "read_token (''null'' @ r) = Some (TAtom JNull, r)"
  by (simp_all add: read_token_def punctuation_def quote_def is_digit_def read_word_def has_prefix_def)

lemma lex_words: "lex (show_bool b @ r) = prepend [TAtom (JBool b)] (lex r)"
  "lex (''null'' @ r) = prepend [TAtom JNull] (lex r)"
  using read_words [of r] by (cases b; simp add: show_bool_def lex_token is_ws_def)+

lemma follows_simps [simp]: "follows []" "follows (CHR '','' # r)" "follows (CHR '']'' # r)"
  "follows (CHR ''}'' # r)"
  by (simp_all add: follows_def)

lemma lex_joined:
  assumes "\<And>x r. x \<in> set xs \<Longrightarrow> follows r \<Longrightarrow> lex (f x @ r) = prepend (g x) (lex r)"
    and "follows r"
  shows "lex (join_with '','' (map f xs) @ r) = prepend (comma_list (map g xs)) (lex r)"
  using assms(1)
proof (induction xs rule: induct_list012)
  case 1
  then show ?case by (cases "lex r") (simp_all add: prepend_def)
next
  case (2 x)
  from 2 [of x r] assms(2) show ?case by simp
next
  case (3 x y zs)
  have ih: "lex (join_with '','' (map f (y # zs)) @ r) = prepend (comma_list (map g (y # zs))) (lex r)"
    by (rule 3(2)) (rule 3(3), simp_all)
  from ih show ?case by (simp add: 3(3) lex_punct)
qed

lemma lex_json:
  "printable j \<Longrightarrow> follows r \<Longrightarrow> lex (json_text j @ r) = prepend (json_tokens j) (lex r)"
proof (induction j arbitrary: r)
  case (JArr xs)
  have "lex (join_with '','' (map json_text xs) @ CHR '']'' # r)
      = prepend (comma_list (map json_tokens xs)) (lex (CHR '']'' # r))"
    by (rule lex_joined) (use JArr in \<open>auto simp: list_all_iff\<close>)
  then show ?case by (simp add: lex_punct)
next
  case (JObj ps)
  have "lex (join_with '','' (map (\<lambda>(k, v). json_string k @ '':'' @ json_text v) ps) @ CHR ''}'' # r)
      = prepend (comma_list (map (\<lambda>(k, v). TAtom (JStr k) # TColon # json_tokens v) ps))
          (lex (CHR ''}'' # r))"
  proof (rule lex_joined)
    fix x r' assume x: "x \<in> set ps" and r': "follows r'"
    obtain k v where kv: "x = (k, v)" by fastforce
    with JObj.prems(1) x have "valid_utf8 k" "printable v" by (auto simp: list_all_iff)
    moreover have "lex (json_text v @ r') = prepend (json_tokens v) (lex r')"
      using JObj.IH [of x v r'] x kv r' \<open>printable v\<close> by simp
    ultimately show "lex ((case x of (k, v) \<Rightarrow> json_string k @ '':'' @ json_text v) @ r')
        = prepend (case x of (k, v) \<Rightarrow> TAtom (JStr k) # TColon # json_tokens v) (lex r')"
      by (simp add: kv lex_string lex_punct)
  qed simp
  then show ?case by (simp add: lex_punct)
qed (auto simp: lex_words lex_words(2) [simplified] lex_number lex_string)

section \<open>The machine on the tokens of a document\<close>

lemma fold_max_ge: "m \<le> fold max xs m \<and> (\<forall>x\<in>set xs. x \<le> fold max xs (m::nat))"
  by (induction xs arbitrary: m) (auto intro: order_trans [OF max.cobounded1] order_trans [OF max.cobounded2])

lemma fold_max_bound: "(\<forall>x\<in>set xs. f x \<le> d) \<Longrightarrow> fold max (map f xs) (0::nat) \<le> d"
proof -
  have "\<forall>x\<in>set ys. x \<le> d \<Longrightarrow> m \<le> d \<Longrightarrow> fold max ys m \<le> d" for ys and m :: nat
    by (induction ys arbitrary: m) auto
  then show "(\<forall>x\<in>set xs. f x \<le> d) \<Longrightarrow> ?thesis" by simp
qed

lemma depth_below:
  "x \<in> set xs \<Longrightarrow> json_depth x \<le> fold max (map json_depth xs) 0"
  "(k, x) \<in> set ps \<Longrightarrow> json_depth x \<le> fold max (map (\<lambda>(k, v). json_depth v) ps) 0"
  using fold_max_ge [of 0] by force+

lemma open_frame_ok: "length fs < json_max_depth \<Longrightarrow> open_frame f m fs = Some (f # fs, m)"
  by (simp add: open_frame_def)

lemma parse_elements:
  assumes "\<And>x fs b ts. x \<in> set xs \<Longrightarrow> length fs + json_depth x \<le> json_max_depth \<Longrightarrow>
      parse_tokens (json_tokens x @ ts) (fs, BeginValue b) = parse_tokens ts (fs, Have x)"
    and "\<And>x. x \<in> set xs \<Longrightarrow> Suc (length fs) + json_depth x \<le> json_max_depth" and "xs \<noteq> []"
  shows "parse_tokens (comma_list (map json_tokens xs) @ TBracket False # ts) (ArrayFrame ys # fs, BeginValue b)
    = parse_tokens ts (fs, Have (JArr (rev ys @ xs)))"
  using assms
proof (induction xs arbitrary: ys b rule: induct_list012)
  case (2 x)
  then show ?case using "2.prems"(1) [of x "ArrayFrame ys # fs"] by simp
next
  case (3 x y zs)
  have "parse_tokens (comma_list (map json_tokens (y # zs)) @ TBracket False # ts)
      (ArrayFrame (x # ys) # fs, BeginValue False) = parse_tokens ts (fs, Have (JArr (rev (x # ys) @ y # zs)))"
    by (rule "3.IH"(2)) (use 3 in auto)
  then show ?case using "3.prems"(1) [of x "ArrayFrame ys # fs"] "3.prems"(2) [of x] by simp
qed simp

abbreviation member_tokens :: "string \<times> json \<Rightarrow> token list" where
  "member_tokens \<equiv> \<lambda>(k, v). TAtom (JStr k) # TColon # json_tokens v"

lemma parse_members:
  assumes "\<And>k x fs b ts. (k, x) \<in> set ps \<Longrightarrow> length fs + json_depth x \<le> json_max_depth \<Longrightarrow>
      parse_tokens (json_tokens x @ ts) (fs, BeginValue b) = parse_tokens ts (fs, Have x)"
    and "\<And>k x. (k, x) \<in> set ps \<Longrightarrow> Suc (length fs) + json_depth x \<le> json_max_depth" and "ps \<noteq> []"
  shows "parse_tokens (comma_list (map member_tokens ps) @ TBrace False # ts) (ObjectFrame qs # fs, BeginKey b)
    = parse_tokens ts (fs, Have (JObj (rev qs @ ps)))"
  using assms
proof (induction ps arbitrary: qs b rule: induct_list012)
  case (2 p)
  obtain k x where p: "p = (k, x)" by fastforce
  with 2 show ?case using "2.prems"(1) [of k x "MemberFrame qs k # fs"] by simp
next
  case (3 p q rs)
  obtain k x where p: "p = (k, x)" by fastforce
  have "parse_tokens (comma_list (map member_tokens (q # rs)) @ TBrace False # ts)
      (ObjectFrame ((k, x) # qs) # fs, BeginKey False) = parse_tokens ts (fs, Have (JObj (rev ((k, x) # qs) @ q # rs)))"
  proof (rule "3.IH"(2))
    fix k' x' b' ts' and fs' :: "frame list"
    assume "(k', x') \<in> set (q # rs)" "length fs' + json_depth x' \<le> json_max_depth"
    then show "parse_tokens (json_tokens x' @ ts') (fs', BeginValue b') = parse_tokens ts' (fs', Have x')"
      using "3.prems"(1) [of k' x' fs' ts' b'] by simp
  next
    fix k' x' assume "(k', x') \<in> set (q # rs)"
    then show "Suc (length fs) + json_depth x' \<le> json_max_depth" using "3.prems"(2) [of k' x'] by simp
  qed simp
  then show ?case using "3.prems"(1) [of k x "MemberFrame qs k # fs"] "3.prems"(2) [of k x] p by simp
qed simp

lemma parse_value:
  "length fs + json_depth j \<le> json_max_depth \<Longrightarrow>
     parse_tokens (json_tokens j @ ts) (fs, BeginValue b) = parse_tokens ts (fs, Have j)"
proof (induction j arbitrary: fs b ts)
  case (JArr xs)
  then have l: "length fs < json_max_depth" by simp
  show ?case
  proof (cases "xs = []")
    case False
    have "parse_tokens (comma_list (map json_tokens xs) @ TBracket False # ts)
        (ArrayFrame [] # fs, BeginValue True) = parse_tokens ts (fs, Have (JArr (rev [] @ xs)))"
    proof (rule parse_elements)
      fix x assume "x \<in> set xs"
      from depth_below(1) [OF this] JArr.prems show "Suc (length fs) + json_depth x \<le> json_max_depth" by simp
    qed (use JArr False in auto)
    with l show ?thesis by (simp add: open_frame_ok)
  qed (use l in \<open>simp add: open_frame_ok\<close>)
next
  case (JObj ps)
  then have l: "length fs < json_max_depth" by simp
  show ?case
  proof (cases "ps = []")
    case False
    have "parse_tokens (comma_list (map member_tokens ps) @ TBrace False # ts)
        (ObjectFrame [] # fs, BeginKey True) = parse_tokens ts (fs, Have (JObj (rev [] @ ps)))"
    proof (rule parse_members)
      fix k x assume "(k, x) \<in> set ps"
      from depth_below(2) [OF this] JObj.prems show "Suc (length fs) + json_depth x \<le> json_max_depth" by simp
    qed (use JObj False in auto)
    with l show ?thesis by (simp add: open_frame_ok)
  qed (use l in \<open>simp add: open_frame_ok\<close>)
qed simp_all

lemma parse_json_text:
  assumes "printable j" "json_depth j \<le> json_max_depth"
  shows "parse_json (json_text j) = Some j"
proof -
  have "lex [] = Some []" by (simp add: lex.simps)
  with lex_json [OF assms(1), of "[]"] have "lex (json_text j) = Some (json_tokens j)" by simp
  moreover have "parse_tokens (json_tokens j) ([], BeginValue False) = Some ([], Have j)"
    using parse_value [of "[]" j "[]" False] assms(2) by simp
  ultimately show ?thesis by (simp add: parse_json_def)
qed

section \<open>Written text is compact\<close>

lemma compact_plain:
  "list_all (\<lambda>c. c \<noteq> quote \<and> c \<noteq> backslash) xs \<Longrightarrow>
     compact_from True False (xs @ r) = xs @ compact_from True False r"
  by (induction xs) auto

lemma compact_escaped:
  "list_all (\<lambda>c. c \<noteq> quote \<and> c \<noteq> backslash) xs \<Longrightarrow>
     compact_from True False (backslash # c # xs @ r) = backslash # c # xs @ compact_from True False r"
  by (simp add: compact_plain) (simp add: backslash_def quote_def)

lemma hex_digit_plain: "n < 16 \<Longrightarrow> hex_digit n \<noteq> quote \<and> hex_digit n \<noteq> backslash"
proof -
  have "list_all (\<lambda>m. hex_digit m \<noteq> quote \<and> hex_digit m \<noteq> backslash) [0..<16]" by code_simp
  then show "n < 16 \<Longrightarrow> ?thesis" by (simp add: list_all_iff)
qed

lemma compact_escape_ascii:
  assumes "byte_of c < 0x80"
  shows "compact_from True False (escape_ascii c @ r) = escape_ascii c @ compact_from True False r"
proof -
  have d: "byte_of c div 16 < 16" using assms by simp
  consider "html_safe (byte_of c)" | d where "escape_ascii c = [backslash, d]"
    | "escape_ascii c = backslash # CHR ''u'' # ''00'' @ [hex_digit (byte_of c div 16), hex_digit (byte_of c mod 16)]"
    by (cases "html_safe (byte_of c)"; cases "byte_of c \<in> {34, 92, 8, 12, 10, 13, 9}")
      (auto simp: escape_ascii_def Let_def split: if_splits)
  then show ?thesis
  proof cases
    case 1
    then have "escape_ascii c = [c]" "c \<noteq> quote" "c \<noteq> backslash"
      by (auto simp: escape_ascii_def quote_byte backslash_byte html_safe_def)
    then show ?thesis by simp
  next
    case (2 d)
    then show ?thesis using compact_escaped [of "[]" d r] by simp
  next
    case 3
    then show ?thesis
      using compact_escaped [of "''00'' @ [hex_digit (byte_of c div 16), hex_digit (byte_of c mod 16)]" "CHR ''u''" r]
        hex_digit_plain [OF d] hex_digit_plain [of "byte_of c mod 16"]
      by (simp add: quote_def backslash_def)
  qed
qed

lemma rune_chunk_high:
  assumes "rune_chunk ch" "\<not> byte_of (hd ch) < 0x80" "c \<in> set ch"
  shows "0x80 \<le> byte_of c"
proof -
  obtain a bs where ch: "ch = a # bs" using assms(1) by (cases ch) (auto simp: rune_chunk_def)
  have "length bs \<le> 3" using rune_chunk_length [of a bs] assms(1) ch by (auto simp: lead_len_def split: if_splits)
  then consider "bs = []" | b where "bs = [b]" | b d where "bs = [b, d]" | b d e where "bs = [b, d, e]"
    by (cases bs; cases "tl bs"; cases "tl (tl bs)"; cases "tl (tl (tl bs))") auto
  then show ?thesis
    using assms ch by cases (auto simp: rune_chunk_def continuation_def split: if_splits)
qed

lemma compact_chunk:
  assumes "rune_chunk ch"
  shows "compact_from True False (escape_chunk ch @ r) = escape_chunk ch @ compact_from True False r"
proof -
  from assms obtain c cs where ch: "ch = c # cs" by (cases ch) (auto simp: rune_chunk_def)
  show ?thesis
  proof (cases "byte_of c < 0x80")
    case True
    with ch compact_escape_ascii [of c r] show ?thesis by (simp add: escape_chunk_def)
  next
    case False
    with escape_multi_head [of c cs] assms ch
    consider (raw) "escape_multi ch = ch"
      | (esc) h where "escape_multi ch = backslash # ''u202'' @ [h]" "h = CHR ''8'' \<or> h = CHR ''9''" by blast
    then show ?thesis
    proof cases
      case raw
      have "list_all (\<lambda>c. c \<noteq> quote \<and> c \<noteq> backslash) ch"
        using rune_chunk_high [OF assms] False ch by (force simp: list_all_iff quote_byte backslash_byte)
      with raw ch False compact_plain show ?thesis by (simp add: escape_chunk_def)
    next
      case esc
      with ch False compact_escaped [of "''202'' @ [h]" "CHR ''u''" r] show ?thesis
        by (auto simp: escape_chunk_def quote_def backslash_def)
    qed
  qed
qed

lemma compact_escape:
  "valid_utf8 s \<Longrightarrow> compact_from True False (json_escape s @ r) = json_escape s @ compact_from True False r"
proof (induction "length s" arbitrary: s rule: less_induct)
  case less
  show ?case
  proof (cases "s = []")
    case False
    then obtain ch t where "rune_chunk ch" "s = ch @ t" "valid_utf8 t"
      "json_escape s = escape_chunk ch @ json_escape t"
      using valid_utf8_chunk less.prems by metis
    with less.hyps [of t] compact_chunk [of ch "json_escape t @ r"] show ?thesis
      by (simp add: rune_chunk_def)
  qed simp
qed

lemma compact_string:
  "valid_utf8 s \<Longrightarrow> compact_from False False (json_string s @ r) = json_string s @ compact_from False False r"
  using compact_escape [of s "quote # r"]
  by (simp add: json_string_def is_ws_def) (simp add: quote_def backslash_def)

lemma compact_outside:
  "list_all (\<lambda>c. c \<noteq> quote \<and> \<not> is_ws c) xs \<Longrightarrow>
     compact_from False False (xs @ r) = xs @ compact_from False False r"
  by (induction xs) auto

lemma compact_joined:
  assumes "\<And>x r. x \<in> set xs \<Longrightarrow> compact_from False False (f x @ r) = f x @ compact_from False False r"
  shows "compact_from False False (join_with '','' (map f xs) @ r) = join_with '','' (map f xs) @ compact_from False False r"
  using assms by (induction xs rule: induct_list012) (simp_all add: is_ws_def quote_def)

lemma show_int_plain: "list_all (\<lambda>c. c \<noteq> quote \<and> \<not> is_ws c) (show_int i)"
  by (force simp: list_all_iff show_int_def quote_def is_ws_def is_digit_def dest!: show_nat_digits
      split: if_splits)

lemma compact_json:
  "printable j \<Longrightarrow> compact_from False False (json_text j @ r) = json_text j @ compact_from False False r"
proof (induction j arbitrary: r)
  case (JNum n)
  then show ?case using compact_outside [OF show_int_plain] by auto
next
  case (JStr s)
  then show ?case by (simp add: compact_string)
next
  case (JArr xs)
  have "compact_from False False (join_with '','' (map json_text xs) @ '']'' @ r)
      = join_with '','' (map json_text xs) @ compact_from False False ('']'' @ r)"
    by (rule compact_joined) (use JArr in \<open>auto simp: list_all_iff\<close>)
  then show ?case by (simp add: is_ws_def quote_def)
next
  case (JObj ps)
  have "compact_from False False (join_with '','' (map (\<lambda>(k, v). json_string k @ '':'' @ json_text v) ps) @ ''}'' @ r)
      = join_with '','' (map (\<lambda>(k, v). json_string k @ '':'' @ json_text v) ps)
        @ compact_from False False (''}'' @ r)"
  proof (rule compact_joined)
    fix x r' assume x: "x \<in> set ps"
    obtain k v where kv: "x = (k, v)" by fastforce
    with JObj.prems x have "valid_utf8 k" "printable v" by (auto simp: list_all_iff)
    with JObj.IH [of x v r'] x kv
    show "compact_from False False ((case x of (k, v) \<Rightarrow> json_string k @ '':'' @ json_text v) @ r')
        = (case x of (k, v) \<Rightarrow> json_string k @ '':'' @ json_text v) @ compact_from False False r'"
      by (simp add: compact_string is_ws_def) (simp add: quote_def)
  qed
  then show ?case by (simp add: is_ws_def quote_def)
qed (auto simp: show_bool_def is_ws_def quote_def)

lemma compact_json_text: "printable j \<Longrightarrow> compact (json_text j) = json_text j"
  using compact_json [of j "[]"] by (simp add: compact_def)

section \<open>Written text is well-formed UTF-8\<close>

lemma valid_utf8_rune: "rune_chunk ch \<Longrightarrow> valid_utf8 r \<Longrightarrow> valid_utf8 (ch @ r)"
proof -
  assume ch: "rune_chunk ch" and r: "valid_utf8 r"
  then obtain c cs where c: "ch = c # cs" by (cases ch) (auto simp: rune_chunk_def)
  have "utf8_size (map byte_of ch @ map byte_of r) = Suc (length cs)"
    by (rule utf8_size_append) (use ch c in \<open>simp_all add: rune_chunk_def\<close>)
  with r c show ?thesis by (simp del: utf8_size.simps)
qed

lemma valid_utf8_append: "valid_utf8 s \<Longrightarrow> valid_utf8 t \<Longrightarrow> valid_utf8 (s @ t)"
proof (induction "length s" arbitrary: s rule: less_induct)
  case less
  show ?case
  proof (cases "s = []")
    case False
    then obtain ch r where "rune_chunk ch" "s = ch @ r" "valid_utf8 r"
      using valid_utf8_chunk less.prems(1) by metis
    with less.hyps [of r] less.prems(2) valid_utf8_rune [of ch "r @ t"] show ?thesis
      by (simp add: rune_chunk_def)
  qed (use less.prems in simp)
qed

lemma valid_utf8_ascii: "list_all (\<lambda>c. byte_of c < 0x80) s \<Longrightarrow> valid_utf8 s"
  by (induction s) auto

lemma escape_ascii_ascii:
  assumes "byte_of c < 0x80"
  shows "list_all (\<lambda>d. byte_of d < 0x80) (escape_ascii c)"
proof -
  have "list_all (\<lambda>n. byte_of (hex_digit n) < 0x80) [0..<16]" by code_simp
  then have h: "n < 16 \<Longrightarrow> byte_of (hex_digit n) < 0x80" for n by (simp add: list_all_iff)
  have "byte_of c div 16 < 16" using assms by simp
  with assms h show ?thesis by (simp add: escape_ascii_def Let_def backslash_def)
qed

lemma escape_chunk_valid:
  assumes "rune_chunk ch"
  shows "valid_utf8 (escape_chunk ch)"
proof -
  from assms obtain c cs where ch: "ch = c # cs" by (cases ch) (auto simp: rune_chunk_def)
  show ?thesis
  proof (cases "byte_of c < 0x80")
    case True
    with ch show ?thesis by (simp add: escape_chunk_def valid_utf8_ascii [OF escape_ascii_ascii])
  next
    case False
    with escape_multi_head [of c cs] assms ch
    consider (raw) "escape_multi ch = ch"
      | (esc) h where "escape_multi ch = backslash # ''u202'' @ [h]" "h = CHR ''8'' \<or> h = CHR ''9''" by blast
    then show ?thesis
    proof cases
      case raw
      with ch False valid_utf8_rune [OF assms, of "[]"] show ?thesis by (simp add: escape_chunk_def)
    next
      case esc
      have "list_all (\<lambda>c. byte_of c < 0x80) (escape_multi ch)" using esc by (auto simp: backslash_def)
      with ch False valid_utf8_ascii show ?thesis by (simp add: escape_chunk_def)
    qed
  qed
qed

lemma json_escape_valid: "valid_utf8 s \<Longrightarrow> valid_utf8 (json_escape s)"
proof (induction "length s" arbitrary: s rule: less_induct)
  case less
  show ?case
  proof (cases "s = []")
    case False
    then obtain ch r where "rune_chunk ch" "s = ch @ r" "valid_utf8 r"
      "json_escape s = escape_chunk ch @ json_escape r"
      using valid_utf8_chunk less.prems by metis
    with less.hyps [of r] escape_chunk_valid [of ch] show ?thesis
      by (simp add: rune_chunk_def valid_utf8_append)
  qed simp
qed

lemma json_string_valid:
  assumes "valid_utf8 s"
  shows "valid_utf8 (json_string s)"
proof -
  have q: "valid_utf8 [quote]" by (simp add: quote_def)
  from valid_utf8_append [OF q valid_utf8_append [OF json_escape_valid [OF assms] q]]
  show ?thesis by (simp add: json_string_def)
qed

lemma join_valid: "\<forall>x\<in>set xs. valid_utf8 x \<Longrightarrow> valid_utf8 (join_with '','' xs)"
proof (induction xs rule: induct_list012)
  case (3 x y zs)
  then have "valid_utf8 (x @ '','' @ join_with '','' (y # zs))"
    by (intro valid_utf8_append) simp_all
  then show ?case by simp
qed simp_all

lemma show_int_valid: "valid_utf8 (show_int i)"
  by (rule valid_utf8_ascii) (auto simp: show_int_def list_all_iff is_digit_def dest!: show_nat_digits)

lemma json_text_valid: "printable j \<Longrightarrow> valid_utf8 (json_text j)"
proof (induction j)
  case (JArr xs)
  have "valid_utf8 (''['' @ join_with '','' (map json_text xs) @ '']'')"
    by (intro valid_utf8_append join_valid) (use JArr in \<open>auto simp: list_all_iff\<close>)
  then show ?case by simp
next
  case (JObj ps)
  have m: "valid_utf8 (json_string k @ '':'' @ json_text v)" if "(k, v) \<in> set ps" for k v
    by (intro valid_utf8_append json_string_valid) (use JObj that in \<open>auto simp: list_all_iff\<close>)
  have "valid_utf8 (''{'' @ join_with '','' (map (\<lambda>(k, v). json_string k @ '':'' @ json_text v) ps) @ ''}'')"
    by (intro valid_utf8_append join_valid) (use m in auto)
  then show ?case by simp
qed (auto simp: show_int_valid json_string_valid show_bool_def)

section \<open>Strict objects\<close>

datatype record_fault =
    NotAnObject
  | Malformed
  | DuplicatedField string
  | NullField
  | Undecodable
  | MissingObservable
  | PositiveReason
  | EmptyApplicability
  | Refused string
  | NotCanonical

fun first_duplicate :: "string list \<Rightarrow> string list \<Rightarrow> string option" where
  "first_duplicate seen [] = None"
| "first_duplicate seen (k # ks) = (if k \<in> set seen then Some k else first_duplicate (k # seen) ks)"

lemma first_duplicate_none: "first_duplicate seen ks = None \<longleftrightarrow> distinct ks \<and> set ks \<inter> set seen = {}"
  by (induction ks arbitrary: seen) auto

definition unique_object_fields :: "json \<Rightarrow> record_fault + (string \<times> json) list" where
  "unique_object_fields j = (case j of
      JObj ps \<Rightarrow> (case first_duplicate [] (map fst ps) of Some k \<Rightarrow> Inl (DuplicatedField k) | None \<Rightarrow> Inr ps)
    | _ \<Rightarrow> Inl NotAnObject)"

definition reject_null_fields :: "(string \<times> json) list \<Rightarrow> record_fault option" where
  "reject_null_fields ps = (if \<exists>p\<in>set ps. snd p = JNull then Some NullField else None)"

text \<open>
  encoding/json's field lookup: the exact name, else the first field equal under folding.
  Two runes outside ASCII fold into it: the Kelvin sign and the long s.
\<close>

definition upper_char :: "char \<Rightarrow> char" where
  "upper_char c = (if 97 \<le> byte_of c \<and> byte_of c \<le> 122 then char_of (byte_of c - 32) else c)"

function fold_name :: "string \<Rightarrow> string" where
  "fold_name [] = []"
| "fold_name (c # cs) =
     (if map byte_of (c # take 2 cs) = [0xE2, 0x84, 0xAA] then CHR ''K'' # fold_name (drop 2 cs)
      else if map byte_of (c # take 1 cs) = [0xC5, 0xBF] then CHR ''S'' # fold_name (drop 1 cs)
      else upper_char c # fold_name cs)"
  by pat_completeness auto

termination by (relation "measure length") auto

definition field_named :: "string list \<Rightarrow> string \<Rightarrow> string option" where
  "field_named names k = (if k \<in> set names then Some k else find (\<lambda>n. fold_name n = fold_name k) names)"

text \<open>
  Decoding an object into a struct: an unknown name or a value of the wrong kind is
  remembered and decoding goes on; a field's own decoder refuses at once.
\<close>

datatype 'r field_result = FieldSet 'r | FieldMismatch | FieldFault record_fault

fun decode_members ::
    "string list \<Rightarrow> (string \<Rightarrow> json \<Rightarrow> 'r \<Rightarrow> 'r field_result) \<Rightarrow> bool \<Rightarrow> 'r \<Rightarrow> (string \<times> json) list
      \<Rightarrow> record_fault + 'r" where
  "decode_members names put failed r [] = (if failed then Inl Undecodable else Inr r)"
| "decode_members names put failed r ((k, v) # ps) = (case field_named names k of
      None \<Rightarrow> decode_members names put True r ps
    | Some n \<Rightarrow> (case put n v r of
        FieldSet r' \<Rightarrow> decode_members names put failed r' ps
      | FieldMismatch \<Rightarrow> decode_members names put True r ps
      | FieldFault e \<Rightarrow> Inl e))"

definition put_string :: "(string \<Rightarrow> 'r \<Rightarrow> 'r) \<Rightarrow> json \<Rightarrow> 'r \<Rightarrow> 'r field_result" where
  "put_string f v r = (case v of JStr s \<Rightarrow> FieldSet (f s r) | JNull \<Rightarrow> FieldSet r | _ \<Rightarrow> FieldMismatch)"

definition put_bool :: "(bool \<Rightarrow> 'r \<Rightarrow> 'r) \<Rightarrow> json \<Rightarrow> 'r \<Rightarrow> 'r field_result" where
  "put_bool f v r = (case v of JBool b \<Rightarrow> FieldSet (f b r) | JNull \<Rightarrow> FieldSet r | _ \<Rightarrow> FieldMismatch)"

text \<open>strconv.ParseInt of a literal at 64 bits.\<close>

definition int_literal :: "string \<Rightarrow> int option" where
  "int_literal n = (case number_sign n of (sg, d) \<Rightarrow>
     if d = [] \<or> \<not> list_all is_digit d then None
     else (let i = (if sg = [] then int (read_nat d) else - int (read_nat d)) in
       if - (2 ^ 63) \<le> i \<and> i < 2 ^ 63 then Some i else None))"

definition put_int :: "(int \<Rightarrow> 'r \<Rightarrow> 'r) \<Rightarrow> json \<Rightarrow> 'r \<Rightarrow> 'r field_result" where
  "put_int f v r = (case v of
      JNum n \<Rightarrow> (case int_literal n of Some i \<Rightarrow> FieldSet (f i r) | None \<Rightarrow> FieldMismatch)
    | JNull \<Rightarrow> FieldSet r | _ \<Rightarrow> FieldMismatch)"

lemma int_literal_show:
  assumes "- (2 ^ 63) \<le> i" "i < 2 ^ 63"
  shows "int_literal (show_int i) = Some i"
proof -
  have d: "list_all is_digit (show_nat n)" for n by (auto simp: list_all_iff dest: show_nat_digits)
  show ?thesis
  proof (cases "i < 0")
    case True
    then have "number_sign (show_int i) = (''-'', show_nat (nat (- i)))"
      by (simp add: show_int_def number_sign_def)
    with True assms d show ?thesis by (simp add: int_literal_def)
  next
    case False
    then have "number_sign (show_int i) = ([], show_nat (nat i))"
      using number_sign_show [of "nat i" "[]"] by (simp add: show_int_def)
    with False assms d show ?thesis by (simp add: int_literal_def)
  qed
qed

text \<open>A struct's members with its tags: an omitempty key is written only when its value is not empty.\<close>

definition empty_value :: "json \<Rightarrow> bool" where
  "empty_value v \<longleftrightarrow> v = JStr [] \<or> v = JNull \<or> v = JArr [] \<or> v = JBool False"

definition omit_empty :: "(string \<times> bool \<times> json) list \<Rightarrow> (string \<times> json) list" where
  "omit_empty fields = map (\<lambda>(k, om, v). (k, v)) (filter (\<lambda>(k, om, v). \<not> (om \<and> empty_value v)) fields)"

lemma omit_empty_simps [simp]:
  "omit_empty [] = []"
  "omit_empty ((k, om, v) # fields) = (if om \<and> empty_value v then omit_empty fields else (k, v) # omit_empty fields)"
  by (simp_all add: omit_empty_def)

lemma omit_empty_set: "(k, v) \<in> set (omit_empty fields) \<Longrightarrow> \<exists>om. (k, om, v) \<in> set fields \<and> \<not> (om \<and> empty_value v)"
  by (auto simp: omit_empty_def)

lemma omit_empty_names:
  "distinct (map fst fields) \<Longrightarrow> distinct (map fst (omit_empty fields))"
  by (simp add: omit_empty_def split_def o_def distinct_map_filter)

lemma omit_empty_unique:
  assumes "distinct (map fst fields)"
  shows "unique_object_fields (JObj (omit_empty fields)) = Inr (omit_empty fields)"
  using omit_empty_names [OF assms]
  by (simp add: unique_object_fields_def first_duplicate_none split: option.split)

lemma omit_empty_no_null:
  "\<forall>(k, om, v)\<in>set fields. v = JNull \<longrightarrow> om \<Longrightarrow> reject_null_fields (omit_empty fields) = None"
  by (auto simp: reject_null_fields_def empty_value_def dest!: omit_empty_set)

lemma omit_empty_printable:
  "\<forall>(k, om, v)\<in>set fields. valid_utf8 k \<and> printable v \<Longrightarrow> printable (JObj (omit_empty fields))"
  by (auto simp: list_all_iff dest!: omit_empty_set)

fun is_set :: "'r field_result \<Rightarrow> bool" where
  "is_set (FieldSet r) = True"
| "is_set f = False"

fun set_of :: "'r \<Rightarrow> 'r field_result \<Rightarrow> 'r" where
  "set_of d (FieldSet r) = r"
| "set_of d f = d"

text \<open>A member decodes to its setter's record, written or omitted, when the zero value is its default.\<close>

lemma decode_member:
  assumes "k \<in> set names" "is_set (put k v r)" "om \<and> empty_value v \<longrightarrow> set_of r (put k v r) = r"
  shows "decode_members names put False r (omit_empty ((k, om, v) # fields))
    = decode_members names put False (set_of r (put k v r)) (omit_empty fields)"
  using assms by (cases "put k v r") (simp_all add: field_named_def)

lemma decode_fault:
  assumes "k \<in> set names" "put k v r = FieldFault e" "\<not> (om \<and> empty_value v)"
  shows "decode_members names put failed r (omit_empty ((k, om, v) # fields)) = Inl e"
proof -
  have "omit_empty ((k, om, v) # fields) = (k, v) # omit_empty fields"
    by (subst omit_empty_simps(2)) (rule if_not_P [OF assms(3)])
  with assms(1,2) show ?thesis by (simp add: field_named_def del: omit_empty_simps)
qed

end
