(* ===== verification/Fingerprint_Record.thy ===== *)
theory Fingerprint_Record
  imports Facts Json_Text
begin

text \<open>
  The fingerprint's one record form (fingerprint.go): MarshalJSON and UnmarshalJSON with the
  nested proof and applicability decoders. A record that decodes re-encodes to its own
  compact bytes; a fingerprint the encoder writes decodes to itself, apart from two kinds of
  value the encoder accepts and the decoder cannot give back: text that is not UTF-8 and a
  positive proof carrying a reason.
\<close>

section \<open>Writing\<close>

definition proof_fields :: "string list" where
  "proof_fields = [''strategy'', ''package'', ''symbol'', ''observable'', ''reason'', ''evidence'']"

definition proof_table :: "observation_proof \<Rightarrow> (string \<times> bool \<times> json) list" where
  "proof_table p = [(''strategy'', False, JStr (op_strategy p)),
     (''package'', False, JStr (s_package (op_subject p))),
     (''symbol'', False, JStr (s_symbol (op_subject p))),
     (''observable'', False, JBool (op_observable p)),
     (''reason'', True, JStr (op_reason p)),
     (''evidence'', False, JStr (op_evidence p))]"

definition proof_json :: "observation_proof \<Rightarrow> json" where
  "proof_json p = JObj (omit_empty (proof_table p))"

definition applicability_fields :: "string list" where
  "applicability_fields = [''strategy'', ''testVariantClosure'']"

definition applicability_table :: "applicability \<Rightarrow> (string \<times> bool \<times> json) list" where
  "applicability_table a = [(''strategy'', False, JStr (ap_strategy a)),
     (''testVariantClosure'', False, JStr (ap_closure a))]"

definition applicability_json :: "applicability \<Rightarrow> json" where
  "applicability_json a = JObj (omit_empty (applicability_table a))"

text \<open>The nested objects are written exactly when they are not zero.\<close>

definition proof_member :: "observation_proof \<Rightarrow> json" where
  "proof_member p = (if p = no_observation_proof then JNull else proof_json p)"

definition applicability_member :: "applicability \<Rightarrow> json" where
  "applicability_member a = (if a = no_applicability then JNull else applicability_json a)"

definition record_fields :: "string list" where
  "record_fields = [''maximalClosure'', ''testVariantClosure'', ''toolchain'', ''buildConfig'',
     ''toolchainContent'', ''admissionPolicy'', ''machine'', ''runtimeConfig'', ''observationAssertion'',
     ''observationProof'', ''purityAssertion'', ''dynamicStateVouches'', ''singleSubjectDischarges'',
     ''packageProcessDischarges'', ''dynamicStateStrategy'', ''closureStrategy'', ''runtimeInputs'',
     ''runtimeDigest'', ''inertTestVariantApplicability'', ''resultKind'']"

definition record_table :: "fingerprint \<Rightarrow> (string \<times> bool \<times> json) list" where
  "record_table f = [(''maximalClosure'', False, JStr (fp_maximal f)),
     (''testVariantClosure'', False, JStr (fp_test_variants f)),
     (''toolchain'', False, JStr (g_toolchain (fp_guards f))),
     (''buildConfig'', False, JStr (g_build_config (fp_guards f))),
     (''toolchainContent'', True, JStr (fp_toolchain_content f)),
     (''admissionPolicy'', True, JStr (fp_admission f)),
     (''machine'', True, JStr (g_machine (fp_guards f))),
     (''runtimeConfig'', True, JStr (g_runtime_config (fp_guards f))),
     (''observationAssertion'', True, JStr (fp_observation_assertion f)),
     (''observationProof'', True, proof_member (fp_proof f)),
     (''purityAssertion'', True, JStr (fp_purity f)),
     (''dynamicStateVouches'', True, JStr (fp_vouches f)),
     (''singleSubjectDischarges'', True, JStr (fp_single_subject f)),
     (''packageProcessDischarges'', True, JStr (fp_package_process f)),
     (''dynamicStateStrategy'', True, JStr (fp_dynamic_strategy f)),
     (''closureStrategy'', True, JStr (fp_closure_strategy f)),
     (''runtimeInputs'', True, JStr (fp_runtime_inputs f)),
     (''runtimeDigest'', True, JStr (fp_runtime_digest f)),
     (''inertTestVariantApplicability'', True, applicability_member (fp_applicability f)),
     (''resultKind'', False, JNum (show_int (fp_kind f)))]"

definition record_json :: "fingerprint \<Rightarrow> json" where
  "record_json f = JObj (omit_empty (record_table f))"

definition marshal_fingerprint :: "fingerprint \<Rightarrow> string + string" where
  "marshal_fingerprint f = (case validate_fingerprint f of
      Some e \<Rightarrow> Inl e | None \<Rightarrow> Inr (json_text (record_json f)))"

section \<open>Reading\<close>

definition put_proof :: "string \<Rightarrow> json \<Rightarrow> observation_proof \<Rightarrow> observation_proof field_result" where
  "put_proof k =
     (if k = ''strategy'' then put_string (\<lambda>s p. p\<lparr>op_strategy := s\<rparr>)
      else if k = ''package'' then put_string (\<lambda>s p. p\<lparr>op_subject := (op_subject p)\<lparr>s_package := s\<rparr>\<rparr>)
      else if k = ''symbol'' then put_string (\<lambda>s p. p\<lparr>op_subject := (op_subject p)\<lparr>s_symbol := s\<rparr>\<rparr>)
      else if k = ''observable'' then put_bool (\<lambda>b p. p\<lparr>op_observable := b\<rparr>)
      else if k = ''reason'' then put_string (\<lambda>s p. p\<lparr>op_reason := s\<rparr>)
      else put_string (\<lambda>s p. p\<lparr>op_evidence := s\<rparr>))"

definition decode_proof :: "json \<Rightarrow> record_fault + observation_proof" where
  "decode_proof j = bind_res (unique_object_fields j) (\<lambda>ps.
     (case reject_null_fields ps of Some e \<Rightarrow> Inl e
      | None \<Rightarrow> if ''observable'' \<notin> fst ` set ps then Inl MissingObservable
        else bind_res (decode_members proof_fields put_proof False no_observation_proof ps) (\<lambda>p.
          if op_observable p \<and> ''reason'' \<in> fst ` set ps then Inl PositiveReason else Inr p)))"

definition put_applicability :: "string \<Rightarrow> json \<Rightarrow> applicability \<Rightarrow> applicability field_result" where
  "put_applicability k =
     (if k = ''strategy'' then put_string (\<lambda>s a. a\<lparr>ap_strategy := s\<rparr>)
      else put_string (\<lambda>s a. a\<lparr>ap_closure := s\<rparr>))"

definition decode_applicability :: "json \<Rightarrow> record_fault + applicability" where
  "decode_applicability j = bind_res (unique_object_fields j) (\<lambda>ps.
     (case reject_null_fields ps of Some e \<Rightarrow> Inl e
      | None \<Rightarrow> bind_res (decode_members applicability_fields put_applicability False no_applicability ps)
          (\<lambda>a. if ap_strategy a = [] \<or> ap_closure a = [] then Inl EmptyApplicability else Inr a)))"

text \<open>A nested decoder behind a pointer: null leaves it nil.\<close>

definition put_nested :: "(json \<Rightarrow> record_fault + 'a) \<Rightarrow> 'a \<Rightarrow> ('a \<Rightarrow> 'r \<Rightarrow> 'r) \<Rightarrow> json \<Rightarrow> 'r \<Rightarrow> 'r field_result" where
  "put_nested decoder zero upd v r = (if v = JNull then FieldSet (upd zero r)
     else (case decoder v of Inl e \<Rightarrow> FieldFault e | Inr x \<Rightarrow> FieldSet (upd x r)))"

definition put_record :: "string \<Rightarrow> json \<Rightarrow> fingerprint \<Rightarrow> fingerprint field_result" where
  "put_record k =
     (if k = ''maximalClosure'' then put_string (\<lambda>s f. f\<lparr>fp_maximal := s\<rparr>)
      else if k = ''testVariantClosure'' then put_string (\<lambda>s f. f\<lparr>fp_test_variants := s\<rparr>)
      else if k = ''toolchain'' then put_string (\<lambda>s f. f\<lparr>fp_guards := (fp_guards f)\<lparr>g_toolchain := s\<rparr>\<rparr>)
      else if k = ''buildConfig'' then put_string (\<lambda>s f. f\<lparr>fp_guards := (fp_guards f)\<lparr>g_build_config := s\<rparr>\<rparr>)
      else if k = ''toolchainContent'' then put_string (\<lambda>s f. f\<lparr>fp_toolchain_content := s\<rparr>)
      else if k = ''admissionPolicy'' then put_string (\<lambda>s f. f\<lparr>fp_admission := s\<rparr>)
      else if k = ''machine'' then put_string (\<lambda>s f. f\<lparr>fp_guards := (fp_guards f)\<lparr>g_machine := s\<rparr>\<rparr>)
      else if k = ''runtimeConfig'' then put_string (\<lambda>s f. f\<lparr>fp_guards := (fp_guards f)\<lparr>g_runtime_config := s\<rparr>\<rparr>)
      else if k = ''observationAssertion'' then put_string (\<lambda>s f. f\<lparr>fp_observation_assertion := s\<rparr>)
      else if k = ''observationProof''
      then put_nested decode_proof no_observation_proof (\<lambda>p f. f\<lparr>fp_proof := p\<rparr>)
      else if k = ''purityAssertion'' then put_string (\<lambda>s f. f\<lparr>fp_purity := s\<rparr>)
      else if k = ''dynamicStateVouches'' then put_string (\<lambda>s f. f\<lparr>fp_vouches := s\<rparr>)
      else if k = ''singleSubjectDischarges'' then put_string (\<lambda>s f. f\<lparr>fp_single_subject := s\<rparr>)
      else if k = ''packageProcessDischarges'' then put_string (\<lambda>s f. f\<lparr>fp_package_process := s\<rparr>)
      else if k = ''dynamicStateStrategy'' then put_string (\<lambda>s f. f\<lparr>fp_dynamic_strategy := s\<rparr>)
      else if k = ''closureStrategy'' then put_string (\<lambda>s f. f\<lparr>fp_closure_strategy := s\<rparr>)
      else if k = ''runtimeInputs'' then put_string (\<lambda>s f. f\<lparr>fp_runtime_inputs := s\<rparr>)
      else if k = ''runtimeDigest'' then put_string (\<lambda>s f. f\<lparr>fp_runtime_digest := s\<rparr>)
      else if k = ''inertTestVariantApplicability''
      then put_nested decode_applicability no_applicability (\<lambda>a f. f\<lparr>fp_applicability := a\<rparr>)
      else put_int (\<lambda>i f. f\<lparr>fp_kind := i\<rparr>))"

definition unmarshal_fingerprint :: "string \<Rightarrow> record_fault + fingerprint" where
  "unmarshal_fingerprint data = (case parse_json data of None \<Rightarrow> Inl Malformed
     | Some j \<Rightarrow> bind_res (unique_object_fields j) (\<lambda>ps.
         (case reject_null_fields ps of Some e \<Rightarrow> Inl e
          | None \<Rightarrow> bind_res (decode_members record_fields put_record False no_fingerprint ps) (\<lambda>f.
             (case marshal_fingerprint f of Inl e \<Rightarrow> Inl (Refused e)
              | Inr canonical \<Rightarrow> if canonical = compact data then Inr f else Inl NotCanonical)))))"

section \<open>What decodes is what was written\<close>

lemma field_named_self: "k \<in> set names \<Longrightarrow> field_named names k = Some k"
  by (simp add: field_named_def)

definition proof_text :: "observation_proof \<Rightarrow> bool" where
  "proof_text p \<longleftrightarrow> valid_utf8 (op_strategy p) \<and> valid_utf8 (s_package (op_subject p))
     \<and> valid_utf8 (s_symbol (op_subject p)) \<and> valid_utf8 (op_reason p) \<and> valid_utf8 (op_evidence p)"

definition record_text :: "fingerprint \<Rightarrow> bool" where
  "record_text f \<longleftrightarrow> list_all valid_utf8 [fp_maximal f, fp_test_variants f, g_toolchain (fp_guards f),
      g_build_config (fp_guards f), fp_toolchain_content f, fp_admission f, g_machine (fp_guards f),
      g_runtime_config (fp_guards f), fp_observation_assertion f, fp_purity f, fp_vouches f,
      fp_single_subject f, fp_package_process f, fp_dynamic_strategy f, fp_closure_strategy f,
      fp_runtime_inputs f, fp_runtime_digest f, ap_strategy (fp_applicability f),
      ap_closure (fp_applicability f)]
     \<and> proof_text (fp_proof f)"

lemma decode_proof_json:
  assumes "op_observable p \<longrightarrow> op_reason p = []"
  shows "decode_proof (proof_json p) = Inr p"
proof -
  have u: "unique_object_fields (proof_json p) = Inr (omit_empty (proof_table p))"
    unfolding proof_json_def by (rule omit_empty_unique) (simp add: proof_table_def)
  have n: "reject_null_fields (omit_empty (proof_table p)) = None"
    by (rule omit_empty_no_null) (simp add: proof_table_def)
  have o: "''observable'' \<in> fst ` set (omit_empty (proof_table p))" by (simp add: proof_table_def)
  have r: "''reason'' \<in> fst ` set (omit_empty (proof_table p)) \<longleftrightarrow> op_reason p \<noteq> []"
    by (simp add: proof_table_def empty_value_def)
  obtain st pk sy ob re ev where p: "p = \<lparr>op_strategy = st, op_subject = \<lparr>s_package = pk, s_symbol = sy\<rparr>,
      op_observable = ob, op_reason = re, op_evidence = ev\<rparr>"
    by (cases p, metis subject.cases)
  have d: "decode_members proof_fields put_proof False no_observation_proof (omit_empty (proof_table p)) = Inr p"
    by (simp add: p proof_table_def proof_fields_def field_named_self put_proof_def put_string_def put_bool_def
        no_observation_proof_def no_subject_def empty_value_def)
  from assms show ?thesis by (simp add: decode_proof_def u n o r d)
qed

lemma decode_applicability_json:
  assumes "ap_strategy a \<noteq> []" "ap_closure a \<noteq> []"
  shows "decode_applicability (applicability_json a) = Inr a"
  using assms
  by (cases a) (simp add: decode_applicability_def applicability_json_def applicability_table_def
      unique_object_fields_def reject_null_fields_def applicability_fields_def field_named_self
      put_applicability_def put_string_def no_applicability_def)

lemma put_nested_zero [simp]: "put_nested dec zero upd JNull r = FieldSet (upd zero r)"
  by (simp add: put_nested_def)

lemma put_proof_member:
  assumes "op_observable p \<longrightarrow> op_reason p = []"
  shows "put_nested decode_proof no_observation_proof upd (proof_member p) r = FieldSet (upd p r)"
  using decode_proof_json [OF assms] by (simp add: proof_member_def put_nested_def proof_json_def)

lemma put_applicability_member:
  assumes "ap_strategy a = [] \<longleftrightarrow> ap_closure a = []"
  shows "put_nested decode_applicability no_applicability upd (applicability_member a) r = FieldSet (upd a r)"
proof (cases "a = no_applicability")
  case False
  with assms have "ap_strategy a \<noteq> []" "ap_closure a \<noteq> []"
    by (cases a, auto simp: no_applicability_def)+
  from decode_applicability_json [OF this] False show ?thesis
    by (simp add: applicability_member_def put_nested_def applicability_json_def)
qed (simp add: applicability_member_def)

lemma empty_members:
  "empty_value (proof_member p) \<longleftrightarrow> p = no_observation_proof"
  "empty_value (applicability_member a) \<longleftrightarrow> a = no_applicability"
  by (simp_all add: proof_member_def applicability_member_def empty_value_def proof_json_def
      applicability_json_def)

lemma zero_members [simp]: "proof_member no_observation_proof = JNull" "applicability_member no_applicability = JNull"
  by (simp_all add: proof_member_def applicability_member_def)

lemma empty_string_value: "empty_value (JStr s) \<longleftrightarrow> s = []" "\<not> empty_value (JNum n)"
  by (simp_all add: empty_value_def)

lemma decode_record_table:
  assumes "op_observable (fp_proof f) \<longrightarrow> op_reason (fp_proof f) = []"
    and "ap_strategy (fp_applicability f) = [] \<longleftrightarrow> ap_closure (fp_applicability f) = []"
    and "valid_kind (fp_kind f)"
  shows "decode_members record_fields put_record False no_fingerprint (omit_empty (record_table f)) = Inr f"
proof -
  obtain mx tc ad tv ap oa pr tn bc ma rc pu vo ss pp ds cs ri rd ki where f: "f = \<lparr>fp_maximal = mx,
      fp_toolchain_content = tc, fp_admission = ad, fp_test_variants = tv, fp_applicability = ap,
      fp_observation_assertion = oa, fp_proof = pr, fp_guards = \<lparr>g_toolchain = tn, g_build_config = bc,
      g_machine = ma, g_runtime_config = rc\<rparr>, fp_purity = pu, fp_vouches = vo, fp_single_subject = ss,
      fp_package_process = pp, fp_dynamic_strategy = ds, fp_closure_strategy = cs, fp_runtime_inputs = ri,
      fp_runtime_digest = rd, fp_kind = ki\<rparr>"
    by (cases f, metis guards.cases)
  have k: "int_literal (show_int ki) = Some ki"
    by (rule int_literal_show) (use assms(3) f in \<open>auto simp: valid_kind_def CodeResult_def Measurement_def\<close>)
  have pr: "put_nested decode_proof no_observation_proof upd (proof_member pr) r = FieldSet (upd pr r)"
    for upd :: "observation_proof \<Rightarrow> fingerprint \<Rightarrow> fingerprint" and r
    using put_proof_member [of pr] assms(1) f by simp
  have ap: "put_nested decode_applicability no_applicability upd (applicability_member ap) r = FieldSet (upd ap r)"
    for upd :: "applicability \<Rightarrow> fingerprint \<Rightarrow> fingerprint" and r
    using put_applicability_member [of ap] assms(2) f by simp
  show ?thesis
    by (simp add: f record_table_def no_fingerprint_def no_guards_def decode_member record_fields_def
        put_record_def put_string_def put_int_def k pr ap
        empty_members empty_string_value del: omit_empty_simps(2))
qed

lemma record_table_names: "distinct (map fst (record_table f))"
  by (simp add: record_table_def)

lemma record_json_fields: "unique_object_fields (record_json f) = Inr (omit_empty (record_table f))"
  unfolding record_json_def by (rule omit_empty_unique [OF record_table_names])

lemma record_no_null: "reject_null_fields (omit_empty (record_table f)) = None"
  by (rule omit_empty_no_null) (simp add: record_table_def)

lemma printable_nested:
  "proof_text p \<Longrightarrow> printable (proof_member p)"
  "valid_utf8 (ap_strategy a) \<Longrightarrow> valid_utf8 (ap_closure a) \<Longrightarrow> printable (applicability_member a)"
proof -
  assume "proof_text p"
  then have "printable (proof_json p)"
    unfolding proof_json_def
    by (intro omit_empty_printable) (simp add: proof_table_def proof_text_def)
  then show "printable (proof_member p)" by (simp add: proof_member_def)
next
  assume "valid_utf8 (ap_strategy a)" "valid_utf8 (ap_closure a)"
  then have "printable (applicability_json a)"
    unfolding applicability_json_def
    by (intro omit_empty_printable) (simp add: applicability_table_def)
  then show "printable (applicability_member a)" by (simp add: applicability_member_def)
qed

lemma decode_positive_reason:
  assumes "op_observable p" "op_reason p \<noteq> []"
  shows "decode_proof (proof_json p) = Inl PositiveReason"
proof -
  have u: "unique_object_fields (proof_json p) = Inr (omit_empty (proof_table p))"
    unfolding proof_json_def by (rule omit_empty_unique) (simp add: proof_table_def)
  have n: "reject_null_fields (omit_empty (proof_table p)) = None"
    by (rule omit_empty_no_null) (simp add: proof_table_def)
  have o: "''observable'' \<in> fst ` set (omit_empty (proof_table p))"
    "''reason'' \<in> fst ` set (omit_empty (proof_table p))"
    using assms by (simp_all add: proof_table_def empty_value_def)
  have d: "decode_members proof_fields put_proof False no_observation_proof (omit_empty (proof_table p)) = Inr p"
    using assms
    by (cases p) (simp add: proof_table_def proof_fields_def field_named_self put_proof_def put_string_def
        put_bool_def no_observation_proof_def no_subject_def empty_value_def)
  from assms show ?thesis by (simp add: decode_proof_def u n o d)
qed

lemma decode_record_fault:
  assumes "op_observable (fp_proof f)" "op_reason (fp_proof f) \<noteq> []"
  shows "decode_members record_fields put_record False no_fingerprint (omit_empty (record_table f))
    = Inl PositiveReason"
proof -
  have "fp_proof f \<noteq> no_observation_proof" using assms(1) by (auto simp: no_observation_proof_def)
  then have e: "\<not> empty_value (proof_member (fp_proof f))" by (simp add: empty_members)
  have "proof_member (fp_proof f) \<noteq> JNull" using e by (simp add: empty_value_def)
  then have pr: "put_nested decode_proof no_observation_proof upd (proof_member (fp_proof f)) r
      = FieldFault PositiveReason" for upd :: "_ \<Rightarrow> fingerprint \<Rightarrow> fingerprint" and r
    using decode_positive_reason [OF assms] \<open>fp_proof f \<noteq> no_observation_proof\<close>
    by (simp add: put_nested_def proof_member_def)
  show ?thesis
    by (simp add: record_table_def no_fingerprint_def no_guards_def decode_member decode_fault record_fields_def
        put_record_def put_string_def pr e empty_string_value del: omit_empty_simps(2))
qed

lemma record_printable:
  assumes "record_text f"
  shows "printable (record_json f)" "json_depth (record_json f) \<le> 2"
proof -
  from assms printable_nested have n: "printable (proof_member (fp_proof f))"
    "printable (applicability_member (fp_applicability f))"
    by (simp_all add: record_text_def)
  show "printable (record_json f)"
    unfolding record_json_def
    by (rule omit_empty_printable) (use assms n in \<open>auto simp: record_table_def record_text_def\<close>)
  have flat: "json_depth (proof_member p) \<le> 1" "json_depth (applicability_member a) \<le> 1" for p a
    by (simp_all add: proof_member_def applicability_member_def proof_json_def applicability_json_def
        proof_table_def applicability_table_def)
  have "\<forall>(k, om, v)\<in>set (record_table f). json_depth v \<le> 1"
    using flat by (simp add: record_table_def)
  then have "json_depth v \<le> 1" if "(k, v) \<in> set (omit_empty (record_table f))" for k v
    using omit_empty_set [OF that] by blast
  then have "fold max (map (\<lambda>(k, v). json_depth v) (omit_empty (record_table f))) 0 \<le> 1"
    by (intro fold_max_bound) auto
  then show "json_depth (record_json f) \<le> 2" by (simp add: record_json_def)
qed

lemma decodes_canonical:
  assumes "unmarshal_fingerprint d = Inr f"
  shows "marshal_fingerprint f = Inr (compact d)"
proof -
  from assms obtain g where "(case marshal_fingerprint g of Inl e \<Rightarrow> Inl (Refused e)
      | Inr canonical \<Rightarrow> if canonical = compact d then Inr g else Inl NotCanonical) = Inr f"
    unfolding unmarshal_fingerprint_def bind_res_Inr_iff
    by (cases "parse_json d") (auto simp: bind_res_Inr_iff split: option.split_asm)
  then show ?thesis by (cases "marshal_fingerprint g") (auto split: if_split_asm)
qed


definition written_record :: fingerprint where
  "written_record = no_fingerprint\<lparr>fp_maximal := ''m'', fp_test_variants := ''t'',
     fp_guards := no_guards\<lparr>g_toolchain := ''go1.25'', g_build_config := ''b''\<rparr>,
     fp_proof := no_observation_proof\<lparr>op_strategy := ''s'', op_observable := True\<rparr>,
     fp_purity := ''a<b'', fp_kind := CodeResult\<rparr>"


end
