(* ===== verification/Base64_Url.thy ===== *)
theory Base64_Url
  imports Go_Json
begin

text \<open>
  encoding/base64's unpadded URL encoding (\<open>base64.RawURLEncoding\<close>), as the runtime-input
  manifest is written in it. The decoder skips line ends and ignores the unused bits of the
  last sextet, as the library's does; the lemma shows that decoding inverts encoding.
\<close>

text \<open>The alphabet: upper case, lower case, digits, hyphen, underscore.\<close>

definition b64_char :: "nat \<Rightarrow> char" where
  "b64_char n = char_of (if n < 26 then n + 65 else if n < 52 then n + 71 else if n < 62 then n - 4
     else if n = 62 then 45 else 95)"

definition b64_val :: "char \<Rightarrow> nat option" where
  "b64_val c = (let b = byte_of c in
     if 65 \<le> b \<and> b \<le> 90 then Some (b - 65)
     else if 97 \<le> b \<and> b \<le> 122 then Some (b - 71)
     else if 48 \<le> b \<and> b \<le> 57 then Some (b + 4)
     else if b = 45 then Some 62 else if b = 95 then Some 63 else None)"

text \<open>Bytes to sextets and back.\<close>

fun sextets :: "nat list \<Rightarrow> nat list" where
  "sextets [] = []"
| "sextets [a] = [a div 4, a mod 4 * 16]"
| "sextets [a, b] = [a div 4, a mod 4 * 16 + b div 16, b mod 16 * 4]"
| "sextets (a # b # c # r) =
     [a div 4, a mod 4 * 16 + b div 16, b mod 16 * 4 + c div 64, c mod 64] @ sextets r"

fun octets :: "nat list \<Rightarrow> nat list option" where
  "octets [] = Some []"
| "octets [a] = None"
| "octets [a, b] = Some [a * 4 + b div 16]"
| "octets [a, b, c] = Some [a * 4 + b div 16, b mod 16 * 16 + c div 4]"
| "octets (a # b # c # d # r) = map_option (\<lambda>bs.
     [a * 4 + b div 16, b mod 16 * 16 + c div 4, c mod 4 * 64 + d] @ bs) (octets r)"

definition b64_encode :: "string \<Rightarrow> string" where
  "b64_encode s = map b64_char (sextets (map byte_of s))"

fun read_sextets :: "string \<Rightarrow> nat list option" where
  "read_sextets [] = Some []"
| "read_sextets (c # cs) =
     (if byte_of c = 10 \<or> byte_of c = 13 then read_sextets cs
      else (case b64_val c of None \<Rightarrow> None | Some n \<Rightarrow> map_option ((#) n) (read_sextets cs)))"

definition b64_decode :: "string \<Rightarrow> string option" where
  "b64_decode s = (case read_sextets s of None \<Rightarrow> None
     | Some ns \<Rightarrow> map_option (map char_of) (octets ns))"

lemma b64_val_char: "n < 64 \<Longrightarrow> b64_val (b64_char n) = Some n"
  by (auto simp: b64_val_def b64_char_def Let_def)

lemma b64_val_line_end: "b64_val c = Some n \<Longrightarrow> byte_of c \<noteq> 10 \<and> byte_of c \<noteq> 13"
  by (auto simp: b64_val_def Let_def split: if_splits)

lemma read_sextets_chars: "list_all (\<lambda>n. n < 64) ns \<Longrightarrow> read_sextets (map b64_char ns) = Some ns"
  by (induction ns) (simp_all add: b64_val_char b64_val_line_end [OF b64_val_char])

lemma sextets_small: "list_all (\<lambda>b. b < 256) bs \<Longrightarrow> list_all (\<lambda>n. n < 64) (sextets bs)"
  by (induction bs rule: sextets.induct) (auto simp: less_mult_imp_div_less)

lemma octets_sextets: "list_all (\<lambda>b. b < 256) bs \<Longrightarrow> octets (sextets bs) = Some bs"
  by (induction bs rule: sextets.induct) auto

lemma b64_roundtrip: "b64_decode (b64_encode s) = Some s"
proof -
  have b: "list_all (\<lambda>b. b < 256) (map byte_of s)" by (auto simp: list_all_iff)
  have "map (char_of \<circ> byte_of) s = s" by (simp add: o_def)
  then show ?thesis
    by (simp add: b64_decode_def b64_encode_def read_sextets_chars [OF sextets_small [OF b]]
        octets_sextets [OF b])
qed

lemma b64_encode_inj: "b64_encode s = b64_encode t \<Longrightarrow> s = t"
  by (metis b64_roundtrip option.inject)

end
