(* ===== verification/Go_Path.thy ===== *)
theory Go_Path
  imports Prelude
begin

text \<open>
  Lexical path arithmetic of path/filepath on a slash-separated platform, as the sources use
  it: Clean, Join of two elements, IsAbs and Rel. A cleaned path is its list of components
  under a root flag; the lemmas give the component view of each function.
\<close>

section \<open>Cleaning\<close>

abbreviation slash :: char where "slash \<equiv> CHR ''/''"
abbreviation dot :: string where "dot \<equiv> ''.''"
abbreviation dotdot :: string where "dotdot \<equiv> ''..''"

definition is_abs :: "string \<Rightarrow> bool" where
  "is_abs s \<longleftrightarrow> s \<noteq> [] \<and> hd s = slash"

text \<open>One component onto the stack of those kept; a rooted path has no parent above its root.\<close>

definition clean_step :: "bool \<Rightarrow> string list \<Rightarrow> string \<Rightarrow> string list" where
  "clean_step rooted st c =
     (if c = [] \<or> c = dot then st
      else if c = dotdot then (case st of
          [] \<Rightarrow> if rooted then [] else [dotdot]
        | t # ts \<Rightarrow> if t = dotdot then dotdot # st else ts)
      else c # st)"

definition clean_comps :: "bool \<Rightarrow> string list \<Rightarrow> string list" where
  "clean_comps rooted cs = rev (foldl (clean_step rooted) [] cs)"

definition path_comps :: "string \<Rightarrow> string list" where
  "path_comps s = clean_comps (is_abs s) (split_byte slash s)"

definition render_path :: "bool \<Rightarrow> string list \<Rightarrow> string" where
  "render_path rooted cs =
     (if rooted then slash # join_with ''/'' cs else if cs = [] then dot else join_with ''/'' cs)"

definition path_clean :: "string \<Rightarrow> string" where
  "path_clean s = render_path (is_abs s) (path_comps s)"

text \<open>filepath.Join: the non-empty elements, cleaned; no element at all is the empty path.\<close>

definition path_join :: "string \<Rightarrow> string \<Rightarrow> string" where
  "path_join a b =
     (if a = [] \<and> b = [] then []
      else if a = [] then path_clean b else if b = [] then path_clean a
      else path_clean (a @ slash # b))"

section \<open>Relative paths\<close>

fun strip_common :: "string list \<Rightarrow> string list \<Rightarrow> string list \<times> string list" where
  "strip_common (a # as) (b # bs) = (if a = b then strip_common as bs else (a # as, b # bs))"
| "strip_common as bs = (as, bs)"

text \<open>filepath.Rel; None where it answers an error.\<close>

definition path_rel :: "string \<Rightarrow> string \<Rightarrow> string option" where
  "path_rel base targ =
     (if path_clean base = path_clean targ then Some dot
      else if is_abs base \<noteq> is_abs targ then None
      else (case strip_common (path_comps base) (path_comps targ) of (bs, ts) \<Rightarrow>
        if bs \<noteq> [] \<and> hd bs = dotdot then None
        else Some (join_with ''/'' (replicate (length bs) dotdot @ ts))))"

section \<open>Components\<close>

definition plain_comp :: "string \<Rightarrow> bool" where
  "plain_comp c \<longleftrightarrow> c \<noteq> [] \<and> c \<noteq> dot \<and> c \<noteq> dotdot \<and> slash \<notin> set c"

text \<open>Cleaned components: plain ones after the parents a relative path starts with.\<close>

definition clean_form :: "bool \<Rightarrow> string list \<Rightarrow> bool" where
  "clean_form rooted cs \<longleftrightarrow> (\<exists>n ds. cs = replicate n dotdot @ ds \<and> list_all plain_comp ds
     \<and> (rooted \<longrightarrow> n = 0))"

lemma clean_step_plain: "plain_comp c \<Longrightarrow> clean_step r st c = c # st"
  by (auto simp: clean_step_def plain_comp_def)

lemma foldl_plain: "list_all plain_comp ds \<Longrightarrow> foldl (clean_step r) st ds = rev ds @ st"
  by (induction ds arbitrary: st) (simp_all add: clean_step_plain)

lemma foldl_parents: "foldl (clean_step False) (replicate m dotdot) (replicate n dotdot)
    = replicate (n + m) dotdot"
proof (induction n arbitrary: m)
  case (Suc n)
  have "clean_step False (replicate m dotdot) dotdot = replicate (Suc m) dotdot"
    by (cases m) (simp_all add: clean_step_def)
  then show ?case using Suc [of "Suc m"] by simp
qed simp

lemma clean_comps_form: "clean_form r cs \<Longrightarrow> clean_comps r cs = cs"
proof -
  assume "clean_form r cs"
  then obtain n ds where cs: "cs = replicate n dotdot @ ds" "list_all plain_comp ds" "r \<longrightarrow> n = 0"
    by (auto simp: clean_form_def)
  have "foldl (clean_step r) [] (replicate n dotdot) = replicate n dotdot"
    using cs(3) foldl_parents [of 0 n] by (cases r) simp_all
  then have "foldl (clean_step r) [] cs = rev ds @ replicate n dotdot"
    using cs by (simp add: foldl_plain)
  then show ?thesis using cs by (simp add: clean_comps_def)
qed

lemma clean_step_form:
  assumes "clean_form r (rev st)" "slash \<notin> set c"
  shows "clean_form r (rev (clean_step r st c))"
proof -
  from assms(1) obtain n ds where st: "rev st = replicate n dotdot @ ds" "list_all plain_comp ds" "r \<longrightarrow> n = 0"
    by (auto simp: clean_form_def)
  then have rv: "st = rev ds @ replicate n dotdot" by (metis rev_append rev_replicate rev_rev_ident)
  consider "c = [] \<or> c = dot" | "c = dotdot" | "plain_comp c"
    using assms(2) by (auto simp: plain_comp_def)
  then show ?thesis
  proof cases
    case 1
    with assms(1) show ?thesis by (auto simp: clean_step_def)
  next
    case 3
    with st show ?thesis unfolding clean_step_plain [OF 3] clean_form_def
      by (intro exI [of _ n] exI [of _ "ds @ [c]"]) simp
  next
    case 2
    show ?thesis
    proof (cases ds rule: rev_cases)
      case (snoc es e)
      then have "plain_comp e" using st(2) by simp
      with 2 rv snoc have "clean_step r st c = rev es @ replicate n dotdot"
        by (simp add: clean_step_def plain_comp_def)
      with st snoc show ?thesis unfolding clean_form_def by (intro exI [of _ n] exI [of _ es]) simp
    next
      case Nil
      show ?thesis
      proof (cases n)
        case 0
        with 2 rv Nil show ?thesis unfolding clean_form_def
          by (cases r) (auto simp: clean_step_def intro: exI [of _ 0] exI [of _ "Suc 0"])
      next
        case (Suc m)
        with 2 rv Nil st(3) have "clean_step r st c = replicate (Suc n) dotdot" "\<not> r"
          by (auto simp: clean_step_def)
        then show ?thesis unfolding clean_form_def
          by (intro exI [of _ "Suc n"] exI [of _ "[]"]) (simp del: replicate_Suc)
      qed
    qed
  qed
qed

lemma clean_comps_clean:
  assumes "\<forall>c\<in>set cs. slash \<notin> set c"
  shows "clean_form r (clean_comps r cs)"
proof -
  have "clean_form r (rev st) \<Longrightarrow> clean_form r (rev (foldl (clean_step r) st cs))" for st
    using assms by (induction cs arbitrary: st) (auto intro: clean_step_form)
  moreover have "clean_form r []" by (auto simp: clean_form_def intro: exI [of _ 0])
  ultimately show ?thesis by (simp add: clean_comps_def)
qed

lemma clean_form_append:
  assumes "clean_form r cs" "list_all plain_comp ds"
  shows "clean_form r (cs @ ds)"
proof -
  from assms(1) obtain n es where "cs = replicate n dotdot @ es" "list_all plain_comp es" "r \<longrightarrow> n = 0"
    unfolding clean_form_def by blast
  with assms(2) show ?thesis
    unfolding clean_form_def by (intro exI [of _ n] exI [of _ "es @ ds"]) simp
qed

lemma clean_form_rooted: "clean_form True cs \<longleftrightarrow> list_all plain_comp cs"
  by (simp add: clean_form_def)

lemma clean_form_no_slash:
  assumes "clean_form r cs" "c \<in> set cs"
  shows "slash \<notin> set c \<and> c \<noteq> []"
proof -
  from assms(1) obtain n es where cs: "cs = replicate n dotdot @ es" "list_all plain_comp es"
    unfolding clean_form_def by blast
  show ?thesis
  proof (cases "c = dotdot")
    case False
    with assms(2) cs(1) have "c \<in> set es" by simp
    with cs(2) show ?thesis by (simp add: list_all_iff plain_comp_def)
  qed simp
qed

lemma path_comps_clean: "clean_form (is_abs s) (path_comps s)"
  unfolding path_comps_def by (rule clean_comps_clean) (auto dest: split_byte_no_sep)

section \<open>Splitting what was joined\<close>

lemma split_byte_append: "split_byte c (a @ c # b) = split_byte c a @ split_byte c b"
proof (induction a)
  case (Cons x xs)
  then show ?case
    by (cases "split_byte c xs") (auto simp: Cons_eq_append_conv)
qed simp

lemma split_byte_plain: "c \<notin> set s \<Longrightarrow> split_byte c s = [s]"
  by (induction s) auto

lemma split_join:
  "cs \<noteq> [] \<Longrightarrow> \<forall>x\<in>set cs. slash \<notin> set x \<Longrightarrow> split_byte slash (join_with ''/'' cs) = cs"
  by (induction cs rule: induct_list012) (simp_all add: split_byte_plain split_byte_append)

lemma is_abs_join: "clean_form r cs \<Longrightarrow> cs \<noteq> [] \<Longrightarrow> \<not> is_abs (join_with ''/'' cs)"
proof -
  assume c: "clean_form r cs" "cs \<noteq> []"
  then obtain x xs where cs: "cs = x # xs" by (cases cs) auto
  with clean_form_no_slash [OF c(1), of x] have "x \<noteq> []" "slash \<notin> set x" by simp_all
  then show ?thesis using cs by (cases xs; cases x) (auto simp: is_abs_def)
qed

lemma is_abs_render: "clean_form r cs \<Longrightarrow> is_abs (render_path r cs) = r"
  using is_abs_join [of r cs] by (auto simp: render_path_def is_abs_def)

lemma comps_render:
  assumes "clean_form r cs"
  shows "path_comps (render_path r cs) = cs"
proof -
  have ns: "\<forall>x\<in>set cs. slash \<notin> set x" using clean_form_no_slash [OF assms] by blast
  have idem: "clean_comps r cs = cs" by (rule clean_comps_form [OF assms])
  have drop_empty: "clean_comps r ([] # xs) = clean_comps r xs" for xs
    by (simp add: clean_comps_def clean_step_def)
  show ?thesis
  proof (cases "cs = []")
    case True
    then show ?thesis
      by (simp add: path_comps_def render_path_def is_abs_def clean_comps_def clean_step_def)
  next
    case False
    with split_join [OF this ns] idem drop_empty is_abs_render [OF assms] show ?thesis
      by (cases r) (simp_all add: path_comps_def render_path_def)
  qed
qed

lemma is_abs_clean [simp]: "is_abs (path_clean s) = is_abs s"
  by (simp add: path_clean_def is_abs_render [OF path_comps_clean])

lemma comps_clean [simp]: "path_comps (path_clean s) = path_comps s"
  by (simp add: path_clean_def comps_render [OF path_comps_clean])

lemma path_clean_idem [simp]: "path_clean (path_clean s) = path_clean s"
  by (simp add: path_clean_def [of "path_clean s"]) (simp add: path_clean_def)

lemma path_clean_eq: "path_clean s = path_clean t \<longleftrightarrow> is_abs s = is_abs t \<and> path_comps s = path_comps t"
proof
  assume eq: "path_clean s = path_clean t"
  have "is_abs (path_clean s) = is_abs (path_clean t)" "path_comps (path_clean s) = path_comps (path_clean t)"
    by (simp_all only: eq)
  then show "is_abs s = is_abs t \<and> path_comps s = path_comps t" by simp
qed (simp add: path_clean_def)

section \<open>Paths beneath a root\<close>

text \<open>A cleaned relative path with no parent in front.\<close>

definition inner_path :: "string \<Rightarrow> bool" where
  "inner_path p \<longleftrightarrow> p \<noteq> [] \<and> \<not> is_abs p \<and> path_clean p = p \<and> list_all plain_comp (path_comps p)"

lemma join_inner:
  assumes "is_abs root" "inner_path p"
  shows "path_comps (root @ slash # p) = path_comps root @ path_comps p" "is_abs (root @ slash # p)"
proof -
  have f: "foldl (clean_step True) st (split_byte slash p) = rev (path_comps p) @ st" for st
  proof (cases "path_comps p = []")
    case True
    with assms(2) have "p = dot" by (auto simp: inner_path_def path_clean_def render_path_def)
    then show ?thesis by (simp add: path_comps_def clean_comps_def clean_step_def)
  next
    case False
    have "p = join_with ''/'' (path_comps p)"
      using assms(2) False by (auto simp: inner_path_def path_clean_def render_path_def)
    moreover have "\<forall>x\<in>set (path_comps p). slash \<notin> set x"
      using clean_form_no_slash [OF path_comps_clean] by blast
    ultimately have "split_byte slash p = path_comps p" using split_join [OF False] by metis
    with assms(2) show ?thesis by (simp add: foldl_plain inner_path_def)
  qed
  have a: "is_abs (root @ slash # p)" using assms(1) by (auto simp: is_abs_def)
  with assms(1) f show "path_comps (root @ slash # p) = path_comps root @ path_comps p"
    by (simp add: path_comps_def clean_comps_def split_byte_append)
  show "is_abs (root @ slash # p)" by (rule a)
qed

lemma strip_common_prefix: "strip_common cs (cs @ ds) = ([], ds)"
  by (induction cs) (cases ds; simp)+

lemma strip_common_nil: "strip_common bs ts = ([], ds) \<Longrightarrow> ts = bs @ ds"
  by (induction bs ts rule: strip_common.induct) (auto split: if_splits)

lemma strip_common_split: "strip_common bs ts = (b, t) \<Longrightarrow> \<exists>cs. bs = cs @ b \<and> ts = cs @ t"
proof (induction bs ts rule: strip_common.induct)
  case (1 a as b bs)
  then show ?case by (cases "a = b") (auto intro: exI [of _ "_ # _"])
qed auto

end
