(* ===== verification/Runtime_Manifest.thy ===== *)
theory Runtime_Manifest
  imports Env_Policy Outcome Facts Json_Text Base64_Url Go_Path "HOL-Library.Product_Lexorder"
begin

text \<open>
  The runtime-input manifest (runtimeinput/manifest.go): its data, canonical order,
  validation, and base64url-framed JSON form both ways. The lemmas show that a manifest and
  its encoding determine each other; Runtime_State evaluates a recorded manifest.
\<close>

section \<open>Data\<close>

definition manifest_version :: int where "manifest_version = 4"

definition path_rel_kind :: string where "path_rel_kind = ''rel''"
definition path_abs_kind :: string where "path_abs_kind = ''abs''"

record env_input =
  ei_name :: string
  ei_digest :: string

record path_id =
  pi_kind :: string
  pi_path :: string

record path_input =
  pn_id :: path_id
  pn_digest :: string
  pn_metadata :: bool

record manifest =
  mn_version :: int
  mn_outcome :: string
  mn_subjects :: "string list"
  mn_env :: "env_input list"
  mn_paths :: "path_input list"
  mn_moved :: bool
  mn_unverifiable :: "string list"

definition empty_manifest :: manifest where
  "empty_manifest = \<lparr>mn_version = 0, mn_outcome = [], mn_subjects = [], mn_env = [], mn_paths = [],
     mn_moved = False, mn_unverifiable = []\<rparr>"

definition display_path :: "path_id \<Rightarrow> string" where
  "display_path p = (if pi_kind p = path_rel_kind then pi_path p else path_clean (pi_path p))"

datatype manifest_error =
    UnsupportedVersion int
  | BadOutcome
  | OutcomeCarriesPaths
  | BadSubject
  | BadEnvName string
  | BadEnvDigest string
  | DuplicateEnv string
  | BadPathDigest string
  | DuplicatePath string
  | BadPath string
  | AbsoluteRelPath string
  | EscapingPath string
  | NonCanonicalPath string
  | RelativeAbsPath string
  | UnknownPathKind string
  | BadReason string
  | BadBase64
  | NonCanonicalBase64
  | NotUtf8
  | NotManifestJson
  | NonCanonicalManifest
  | Cancelled string
  | Unreadable string

section \<open>Canonical order\<close>

definition path_key :: "path_input \<Rightarrow> string \<times> string" where
  "path_key p = (pi_kind (pn_id p), pi_path (pn_id p))"

definition sort_manifest :: "manifest \<Rightarrow> manifest" where
  "sort_manifest m = m\<lparr>mn_subjects := remdups_adj (sort (mn_subjects m)),
     mn_env := remdups_adj (sort_key ei_name (mn_env m)),
     mn_paths := remdups_adj (sort_key path_key (mn_paths m)),
     mn_unverifiable := remdups_adj (sort (mn_unverifiable m))\<rparr>"

section \<open>Validation\<close>

definition lower_hex :: "char \<Rightarrow> bool" where
  "lower_hex c \<longleftrightarrow> is_digit c \<or> 97 \<le> byte_of c \<and> byte_of c \<le> 102"

definition valid_entry_digest :: "string \<Rightarrow> bool" where
  "valid_entry_digest d \<longleftrightarrow> length d = 32 \<and> list_all lower_hex d"

definition line_text :: "string \<Rightarrow> bool" where
  "line_text s \<longleftrightarrow> s \<noteq> [] \<and> valid_utf8 s \<and> nul \<notin> set s \<and> CHR 0x0D \<notin> set s \<and> newline \<notin> set s"

definition validate_path_id :: "path_id \<Rightarrow> manifest_error option" where
  "validate_path_id p = (let q = pi_path p in
     if \<not> line_text q then Some (BadPath q)
     else if pi_kind p = path_rel_kind then
       (if is_abs q then Some (AbsoluteRelPath q)
        else if path_clean q = dotdot \<or> has_prefix (path_clean q) ''../'' then Some (EscapingPath q)
        else if path_clean q \<noteq> q then Some (NonCanonicalPath q) else None)
     else if pi_kind p = path_abs_kind then
       (if \<not> is_abs q then Some (RelativeAbsPath q)
        else if path_clean q \<noteq> q then Some (NonCanonicalPath q) else None)
     else Some (UnknownPathKind (pi_kind p)))"

text \<open>The first error of a loop whose body sees the previous element.\<close>

fun first_error :: "('a option \<Rightarrow> 'a \<Rightarrow> 'e option) \<Rightarrow> 'a option \<Rightarrow> 'a list \<Rightarrow> 'e option" where
  "first_error f prev [] = None"
| "first_error f prev (x # xs) = (case f prev x of Some e \<Rightarrow> Some e | None \<Rightarrow> first_error f (Some x) xs)"

definition check_env :: "env_input option \<Rightarrow> env_input \<Rightarrow> manifest_error option" where
  "check_env prev e =
     (if \<not> line_text (ei_name e) then Some (BadEnvName (ei_name e))
      else if \<not> valid_entry_digest (ei_digest e) then Some (BadEnvDigest (ei_name e))
      else if map_option ei_name prev = Some (ei_name e) then Some (DuplicateEnv (ei_name e))
      else None)"

definition check_path :: "path_input option \<Rightarrow> path_input \<Rightarrow> manifest_error option" where
  "check_path prev p =
     (if \<not> valid_entry_digest (pn_digest p) then Some (BadPathDigest (pi_path (pn_id p)))
      else if map_option pn_id prev = Some (pn_id p) then Some (DuplicatePath (pi_path (pn_id p)))
      else None)"

definition or_else :: "'e option \<Rightarrow> 'e option \<Rightarrow> 'e option" where
  "or_else a b = (case a of None \<Rightarrow> b | Some e \<Rightarrow> Some e)"

lemma or_else_none [simp]: "or_else a b = None \<longleftrightarrow> a = None \<and> b = None"
  by (simp add: or_else_def split: option.split)

definition valid_subject :: "string \<Rightarrow> bool" where
  "valid_subject s \<longleftrightarrow> length s = 64 \<and> valid_entry_digest (take 32 s) \<and> valid_entry_digest (drop 32 s)"

definition validate_manifest :: "manifest \<Rightarrow> manifest_error option" where
  "validate_manifest m =
     (if mn_version m \<noteq> manifest_version then Some (UnsupportedVersion (mn_version m))
      else if (mn_outcome m = []) \<noteq> (mn_subjects m = []) \<or> mn_outcome m \<noteq> [] \<and> mn_outcome m \<noteq> Method
      then Some BadOutcome
      else if mn_outcome m = Method \<and> mn_paths m \<noteq> [] then Some OutcomeCarriesPaths
      else if \<not> list_all valid_subject (mn_subjects m) then Some BadSubject
      else or_else (first_error check_env None (mn_env m))
        (or_else (first_error check_path None (mn_paths m))
        (or_else (first_error (\<lambda>_ p. validate_path_id (pn_id p)) None (mn_paths m))
          (first_error (\<lambda>_ r. if line_text r then None else Some (BadReason r)) None
            (mn_unverifiable m)))))"

section \<open>The JSON form\<close>

definition env_table :: "env_input \<Rightarrow> (string \<times> bool \<times> json) list" where
  "env_table e = [(''n'', False, JStr (ei_name e)), (''d'', False, JStr (ei_digest e))]"

definition path_table :: "path_input \<Rightarrow> (string \<times> bool \<times> json) list" where
  "path_table p = [(''k'', False, JStr (pi_kind (pn_id p))), (''p'', False, JStr (pi_path (pn_id p))),
     (''d'', False, JStr (pn_digest p)), (''m'', True, JBool (pn_metadata p))]"

definition manifest_table :: "manifest \<Rightarrow> (string \<times> bool \<times> json) list" where
  "manifest_table m = [(''v'', False, JNum (show_int (mn_version m))),
     (''outcome'', True, JStr (mn_outcome m)),
     (''subjects'', True, JArr (map JStr (mn_subjects m))),
     (''env'', True, JArr (map (JObj \<circ> omit_empty \<circ> env_table) (mn_env m))),
     (''paths'', True, JArr (map (JObj \<circ> omit_empty \<circ> path_table) (mn_paths m))),
     (''bracketMoved'', True, JBool (mn_moved m)),
     (''unverifiable'', True, JArr (map JStr (mn_unverifiable m)))]"

definition manifest_json :: "manifest \<Rightarrow> json" where
  "manifest_json m = JObj (omit_empty (manifest_table m))"

text \<open>Decoding: elements of an array by their own decoder, None where a kind does not fit.\<close>

definition string_elem :: "json \<Rightarrow> string option" where
  "string_elem v = (case v of JStr s \<Rightarrow> Some s | JNull \<Rightarrow> Some [] | _ \<Rightarrow> None)"

definition struct_elem ::
    "string list \<Rightarrow> (string \<Rightarrow> json \<Rightarrow> 'r \<Rightarrow> 'r field_result) \<Rightarrow> 'r \<Rightarrow> json \<Rightarrow> 'r option" where
  "struct_elem names put zero v = (case v of
      JObj ps \<Rightarrow> (case decode_members names put False zero ps of Inl _ \<Rightarrow> None | Inr r \<Rightarrow> Some r)
    | JNull \<Rightarrow> Some zero | _ \<Rightarrow> None)"

fun all_elems :: "(json \<Rightarrow> 'a option) \<Rightarrow> json list \<Rightarrow> 'a list option" where
  "all_elems f [] = Some []"
| "all_elems f (v # vs) = (case (f v, all_elems f vs) of (Some x, Some xs) \<Rightarrow> Some (x # xs) | _ \<Rightarrow> None)"

definition put_list :: "(json \<Rightarrow> 'a option) \<Rightarrow> ('a list \<Rightarrow> 'r \<Rightarrow> 'r) \<Rightarrow> json \<Rightarrow> 'r \<Rightarrow> 'r field_result" where
  "put_list elem upd v r = (case v of
      JNull \<Rightarrow> FieldSet (upd [] r)
    | JArr vs \<Rightarrow> (case all_elems elem vs of Some xs \<Rightarrow> FieldSet (upd xs r) | None \<Rightarrow> FieldMismatch)
    | _ \<Rightarrow> FieldMismatch)"

definition put_env :: "string \<Rightarrow> json \<Rightarrow> env_input \<Rightarrow> env_input field_result" where
  "put_env k = (if k = ''n'' then put_string (\<lambda>s e. e\<lparr>ei_name := s\<rparr>)
     else put_string (\<lambda>s e. e\<lparr>ei_digest := s\<rparr>))"

definition put_path :: "string \<Rightarrow> json \<Rightarrow> path_input \<Rightarrow> path_input field_result" where
  "put_path k = (if k = ''k'' then put_string (\<lambda>s p. p\<lparr>pn_id := (pn_id p)\<lparr>pi_kind := s\<rparr>\<rparr>)
     else if k = ''p'' then put_string (\<lambda>s p. p\<lparr>pn_id := (pn_id p)\<lparr>pi_path := s\<rparr>\<rparr>)
     else if k = ''d'' then put_string (\<lambda>s p. p\<lparr>pn_digest := s\<rparr>)
     else put_bool (\<lambda>b p. p\<lparr>pn_metadata := b\<rparr>))"

definition env_elem :: "json \<Rightarrow> env_input option" where
  "env_elem = struct_elem [''n'', ''d''] put_env \<lparr>ei_name = [], ei_digest = []\<rparr>"

definition path_elem :: "json \<Rightarrow> path_input option" where
  "path_elem = struct_elem [''k'', ''p'', ''d'', ''m''] put_path
     \<lparr>pn_id = \<lparr>pi_kind = [], pi_path = []\<rparr>, pn_digest = [], pn_metadata = False\<rparr>"

definition manifest_fields :: "string list" where
  "manifest_fields = [''v'', ''outcome'', ''subjects'', ''env'', ''paths'', ''bracketMoved'', ''unverifiable'']"

definition put_manifest :: "string \<Rightarrow> json \<Rightarrow> manifest \<Rightarrow> manifest field_result" where
  "put_manifest k =
     (if k = ''v'' then put_int (\<lambda>i m. m\<lparr>mn_version := i\<rparr>)
      else if k = ''outcome'' then put_string (\<lambda>s m. m\<lparr>mn_outcome := s\<rparr>)
      else if k = ''subjects'' then put_list string_elem (\<lambda>xs m. m\<lparr>mn_subjects := xs\<rparr>)
      else if k = ''env'' then put_list env_elem (\<lambda>xs m. m\<lparr>mn_env := xs\<rparr>)
      else if k = ''paths'' then put_list path_elem (\<lambda>xs m. m\<lparr>mn_paths := xs\<rparr>)
      else if k = ''bracketMoved'' then put_bool (\<lambda>b m. m\<lparr>mn_moved := b\<rparr>)
      else put_list string_elem (\<lambda>xs m. m\<lparr>mn_unverifiable := xs\<rparr>))"

definition manifest_of_json :: "json \<Rightarrow> manifest option" where
  "manifest_of_json = struct_elem manifest_fields put_manifest empty_manifest"

definition encode_manifest :: "manifest \<Rightarrow> manifest_error + string" where
  "encode_manifest m = (let m' = sort_manifest m in
     case validate_manifest m' of Some e \<Rightarrow> Inl e
     | None \<Rightarrow> Inr (b64_encode (json_text (manifest_json m'))))"

definition decode_manifest :: "string \<Rightarrow> manifest_error + manifest" where
  "decode_manifest s = (case b64_decode s of None \<Rightarrow> Inl BadBase64
     | Some b \<Rightarrow>
       if b64_encode b \<noteq> s then Inl NonCanonicalBase64
       else if \<not> valid_utf8 b then Inl NotUtf8
       else (case parse_json b of None \<Rightarrow> Inl NotManifestJson
         | Some j \<Rightarrow> (case manifest_of_json j of None \<Rightarrow> Inl NotManifestJson
           | Some m \<Rightarrow> (case validate_manifest m of Some e \<Rightarrow> Inl e
             | None \<Rightarrow> if json_text (manifest_json (sort_manifest m)) \<noteq> b then Inl NonCanonicalManifest
                 else Inr (sort_manifest m)))))"

section \<open>Encoding and decoding\<close>

lemma env_elem_table: "env_elem (JObj (omit_empty (env_table e))) = Some e"
  by (cases e) (simp add: env_elem_def struct_elem_def env_table_def field_named_def put_env_def put_string_def)

lemma path_elem_table: "path_elem (JObj (omit_empty (path_table p))) = Some p"
proof -
  obtain k q d m where "p = \<lparr>pn_id = \<lparr>pi_kind = k, pi_path = q\<rparr>, pn_digest = d, pn_metadata = m\<rparr>"
    by (cases p, metis path_id.cases)
  then show ?thesis
    by (cases m) (simp_all add: path_elem_def struct_elem_def path_table_def field_named_def put_path_def
        put_string_def put_bool_def empty_value_def)
qed

lemma all_elems_map: "(\<And>x. x \<in> set xs \<Longrightarrow> elem (f x) = Some x) \<Longrightarrow> all_elems elem (map f xs) = Some xs"
  by (induction xs) simp_all

lemma put_list_map:
  "(\<And>x. elem (f x) = Some x) \<Longrightarrow> put_list elem upd (JArr (map f xs)) r = FieldSet (upd xs r)"
  by (simp add: put_list_def all_elems_map)

lemma put_list_nil: "put_list elem upd (JArr []) r = FieldSet (upd [] r)"
  by (simp add: put_list_def)

lemma string_elem_str: "string_elem (JStr s) = Some s"
  by (simp add: string_elem_def)

lemma empty_manifest_values: "empty_value (JArr vs) \<longleftrightarrow> vs = []" "empty_value (JBool b) \<longleftrightarrow> \<not> b"
  "empty_value (JStr s) \<longleftrightarrow> s = []" "\<not> empty_value (JNum n)"
  by (auto simp: empty_value_def)

lemma manifest_of_manifest_json:
  assumes "- (2 ^ 63) \<le> mn_version m" "mn_version m < 2 ^ 63"
  shows "manifest_of_json (manifest_json m) = Some m"
proof -
  obtain v oc su en pa mv un where m: "m = \<lparr>mn_version = v, mn_outcome = oc, mn_subjects = su, mn_env = en,
      mn_paths = pa, mn_moved = mv, mn_unverifiable = un\<rparr>" by (cases m)
  have i: "int_literal (show_int v) = Some v" by (rule int_literal_show) (use assms m in simp_all)
  note lists = put_list_map [where elem = string_elem and f = JStr, OF string_elem_str]
    put_list_map [where elem = env_elem and f = "JObj \<circ> omit_empty \<circ> env_table"]
    put_list_map [where elem = path_elem and f = "JObj \<circ> omit_empty \<circ> path_table"]
  have "decode_members manifest_fields put_manifest False empty_manifest (omit_empty (manifest_table m)) = Inr m"
    by (simp add: m manifest_table_def empty_manifest_def decode_member manifest_fields_def put_manifest_def
        put_string_def put_bool_def put_int_def i lists put_list_nil env_elem_table path_elem_table
        empty_manifest_values del: omit_empty_simps(2))
  then show ?thesis by (simp add: manifest_of_json_def manifest_json_def struct_elem_def)
qed

lemma first_error_none:
  "first_error f prev xs = None \<Longrightarrow> x \<in> set xs \<Longrightarrow> \<exists>p. f p x = None"
  by (induction xs arbitrary: prev) (auto split: option.splits)

lemma hex_digest_valid: "valid_entry_digest d \<Longrightarrow> valid_utf8 d"
  by (rule valid_utf8_ascii) (auto simp: valid_entry_digest_def list_all_iff lower_hex_def is_digit_def)

lemma line_text_valid: "line_text s \<Longrightarrow> valid_utf8 s"
  by (simp add: line_text_def)

lemma validate_manifest_ok:
  assumes "validate_manifest m = None"
  shows "mn_version m = manifest_version" "valid_utf8 (mn_outcome m)"
    "s \<in> set (mn_subjects m) \<Longrightarrow> valid_utf8 s"
    "e \<in> set (mn_env m) \<Longrightarrow> line_text (ei_name e) \<and> valid_entry_digest (ei_digest e)"
    "p \<in> set (mn_paths m) \<Longrightarrow> valid_entry_digest (pn_digest p) \<and> validate_path_id (pn_id p) = None"
    "r \<in> set (mn_unverifiable m) \<Longrightarrow> line_text r"
proof -
  from assms have a: "mn_version m = manifest_version" "mn_outcome m \<noteq> [] \<longrightarrow> mn_outcome m = Method"
    "list_all valid_subject (mn_subjects m)" "first_error check_env None (mn_env m) = None"
    "first_error check_path None (mn_paths m) = None"
    "first_error (\<lambda>_ p. validate_path_id (pn_id p)) None (mn_paths m) = None"
    "first_error (\<lambda>_ r. if line_text r then None else Some (BadReason r)) None (mn_unverifiable m) = None"
    by (auto simp: validate_manifest_def split: if_splits)
  show "mn_version m = manifest_version" by (rule a)
  have "valid_utf8 Method" unfolding Method_def by (rule valid_utf8_ascii) simp
  with a(2) show "valid_utf8 (mn_outcome m)" by (cases "mn_outcome m = []") simp_all
  show "s \<in> set (mn_subjects m) \<Longrightarrow> valid_utf8 s"
  proof -
    assume "s \<in> set (mn_subjects m)"
    with a(3) have "valid_subject s" by (simp add: list_all_iff)
    then have "valid_utf8 (take 32 s @ drop 32 s)"
      by (intro valid_utf8_append hex_digest_valid) (simp_all add: valid_subject_def)
    then show "valid_utf8 s" by simp
  qed
  show "e \<in> set (mn_env m) \<Longrightarrow> line_text (ei_name e) \<and> valid_entry_digest (ei_digest e)"
    using first_error_none [OF a(4)] by (fastforce simp: check_env_def split: if_splits)
  show "p \<in> set (mn_paths m) \<Longrightarrow> valid_entry_digest (pn_digest p) \<and> validate_path_id (pn_id p) = None"
    using first_error_none [OF a(5)] first_error_none [OF a(6)]
    by (fastforce simp: check_path_def split: if_splits)
  show "r \<in> set (mn_unverifiable m) \<Longrightarrow> line_text r"
    using first_error_none [OF a(7)] by (fastforce split: if_splits)
qed

lemma validate_path_kind:
  "validate_path_id p = None \<Longrightarrow> line_text (pi_path p) \<and> (pi_kind p = path_rel_kind \<or> pi_kind p = path_abs_kind)"
  by (auto simp: validate_path_id_def Let_def split: if_splits)

text \<open>The text of a manifest, whatever its order.\<close>

definition manifest_text :: "manifest \<Rightarrow> bool" where
  "manifest_text m \<longleftrightarrow> mn_version m = manifest_version \<and> valid_utf8 (mn_outcome m)
     \<and> (\<forall>s\<in>set (mn_subjects m). valid_utf8 s)
     \<and> (\<forall>e\<in>set (mn_env m). valid_utf8 (ei_name e) \<and> valid_utf8 (ei_digest e))
     \<and> (\<forall>p\<in>set (mn_paths m). valid_utf8 (pi_kind (pn_id p)) \<and> valid_utf8 (pi_path (pn_id p))
          \<and> valid_utf8 (pn_digest p))
     \<and> (\<forall>r\<in>set (mn_unverifiable m). valid_utf8 r)"

lemma valid_manifest_text:
  assumes "validate_manifest m = None"
  shows "manifest_text m"
proof -
  note v = validate_manifest_ok [OF assms]
  have k: "valid_utf8 path_rel_kind" "valid_utf8 path_abs_kind"
    unfolding path_rel_kind_def path_abs_kind_def by (rule valid_utf8_ascii, simp)+
  have p: "valid_utf8 (pi_kind (pn_id p)) \<and> valid_utf8 (pi_path (pn_id p)) \<and> valid_utf8 (pn_digest p)"
    if "p \<in> set (mn_paths m)" for p
    using v(5) [OF that] validate_path_kind [of "pn_id p"] k by (auto simp: line_text_valid hex_digest_valid)
  show ?thesis
    unfolding manifest_text_def using v p by (auto simp: line_text_valid hex_digest_valid)
qed

lemma sorted_manifest_text: "manifest_text m \<Longrightarrow> manifest_text (sort_manifest m)"
  by (simp add: manifest_text_def sort_manifest_def)

lemma manifest_printable:
  assumes "manifest_text m"
  shows "printable (manifest_json m)" "json_depth (manifest_json m) \<le> 3"
proof -
  have e: "printable (JObj (omit_empty (env_table e)))" if "e \<in> set (mn_env m)" for e
    by (rule omit_empty_printable) (use assms that in \<open>simp add: env_table_def manifest_text_def\<close>)
  have p: "printable (JObj (omit_empty (path_table p)))" if "p \<in> set (mn_paths m)" for p
    by (rule omit_empty_printable) (use assms that in \<open>simp add: path_table_def manifest_text_def\<close>)
  have t: "\<forall>(k, om, w)\<in>set (manifest_table m). valid_utf8 k \<and> printable w"
    using assms e p by (simp add: manifest_table_def list_all_iff manifest_text_def) blast
  then show "printable (manifest_json m)" unfolding manifest_json_def by (rule omit_empty_printable)
  have flat: "json_depth (JObj (omit_empty (env_table e))) \<le> 1"
    "json_depth (JObj (omit_empty (path_table p))) \<le> 1" for e p
    by (simp_all add: env_table_def path_table_def)
  have arrays: "json_depth (JArr (map f xs)) \<le> 2" if "\<And>x. json_depth (f x) \<le> 1" for f and xs :: "'b list"
    using fold_max_bound [of xs "json_depth \<circ> f" 1] that by (simp add: o_def)
  have "\<forall>(k, om, w)\<in>set (manifest_table m). json_depth w \<le> 2"
    using flat arrays [of JStr] arrays [of "JObj \<circ> omit_empty \<circ> env_table"]
      arrays [of "JObj \<circ> omit_empty \<circ> path_table"]
    by (simp add: manifest_table_def del: json_depth.simps(1,2))
  then have "json_depth w \<le> 2" if "(k, w) \<in> set (omit_empty (manifest_table m))" for k w
    using omit_empty_set [OF that] by blast
  then have "fold max (map (\<lambda>(k, v). json_depth v) (omit_empty (manifest_table m))) 0 \<le> 2"
    by (intro fold_max_bound) auto
  then show "json_depth (manifest_json m) \<le> 3" by (simp add: manifest_json_def)
qed

lemma parse_manifest:
  assumes "manifest_text m"
  shows "parse_json (json_text (manifest_json m)) = Some (manifest_json m)"
    "manifest_of_json (manifest_json m) = Some m" "valid_utf8 (json_text (manifest_json m))"
proof -
  note p = manifest_printable [OF assms]
  show "parse_json (json_text (manifest_json m)) = Some (manifest_json m)"
    by (rule parse_json_text [OF p(1)]) (use p(2) in \<open>simp add: json_max_depth_def\<close>)
  show "manifest_of_json (manifest_json m) = Some m"
    by (rule manifest_of_manifest_json) (use assms in \<open>simp_all add: manifest_text_def manifest_version_def\<close>)
  show "valid_utf8 (json_text (manifest_json m))" by (rule json_text_valid [OF p(1)])
qed

lemma sort_remdups_idem:
  "remdups_adj (sort_key f (remdups_adj (sort_key f xs))) = remdups_adj (sort_key f xs)"
  for f :: "'b \<Rightarrow> 'c::linorder"
proof -
  have "sorted (map f ys) \<Longrightarrow> sorted (map f (remdups_adj ys))" for ys
    by (induction ys rule: remdups_adj.induct) auto
  then have "sorted (map f (remdups_adj (sort_key f xs)))" by simp
  then have "sort_key f (remdups_adj (sort_key f xs)) = remdups_adj (sort_key f xs)"
    by (rule sort_key_id_if_sorted)
  then show ?thesis using distinct_adj_altdef distinct_adj_remdups_adj by metis
qed

lemma sort_manifest_idem [simp]: "sort_manifest (sort_manifest m) = sort_manifest m"
  by (simp add: sort_manifest_def sort_remdups_idem sort_remdups_idem [of "\<lambda>x. x"])

lemma decode_encoded:
  assumes "sort_manifest m = m" "validate_manifest m = None"
  shows "decode_manifest (b64_encode (json_text (manifest_json m))) = Inr m"
  using parse_manifest [OF valid_manifest_text [OF assms(2)]] assms
  by (simp add: decode_manifest_def b64_roundtrip)

lemma decode_manifest_ok:
  assumes "decode_manifest s = Inr m"
  shows "sort_manifest m = m" "validate_manifest m = None" "s = b64_encode (json_text (manifest_json m))"
proof -
  from assms obtain b j m0 where d: "b64_encode b = s" "parse_json b = Some j" "manifest_of_json j = Some m0"
    "validate_manifest m0 = None" "json_text (manifest_json (sort_manifest m0)) = b" "m = sort_manifest m0"
    by (auto simp: decode_manifest_def split: option.split_asm if_split_asm)
  show "sort_manifest m = m" by (simp add: d(6))
  show "s = b64_encode (json_text (manifest_json m))" using d by simp
  from parse_manifest [OF sorted_manifest_text [OF valid_manifest_text [OF d(4)]]] d(2,3,5)
  have "sort_manifest m0 = m0" by auto
  with d(4,6) show "validate_manifest m = None" by simp
qed

lemma encode_manifest_ok:
  "encode_manifest m = Inr s \<longleftrightarrow> validate_manifest (sort_manifest m) = None
     \<and> s = b64_encode (json_text (manifest_json (sort_manifest m)))"
  by (auto simp: encode_manifest_def Let_def split: option.splits)

text \<open>C30: The manifest's wire form. A text decodes exactly when it is the encoding of a valid
  manifest, and then to that manifest in canonical order: encoding and decoding are inverse
  bijections between canonical valid manifests and accepted texts, so a recorded manifest is
  its text and no two texts stand for one manifest.\<close>

theorem manifest_encoding_canonical:
  "decode_manifest s = Inr m \<longleftrightarrow> encode_manifest m = Inr s \<and> sort_manifest m = m"
proof
  assume d: "decode_manifest s = Inr m"
  from decode_manifest_ok [OF d] show "encode_manifest m = Inr s \<and> sort_manifest m = m"
    by (simp add: encode_manifest_ok)
next
  assume "encode_manifest m = Inr s \<and> sort_manifest m = m"
  then show "decode_manifest s = Inr m"
    using decode_encoded by (auto simp: encode_manifest_ok)
qed

end
