(* ===== verification/Runtime_State.thy ===== *)
theory Runtime_State
  imports Runtime_Manifest
begin

text \<open>
  Evaluating a recorded manifest (runtimeinput/manifest.go and the path arithmetic of
  testlog.go): materialized identities, the digest of one environment input, the populated
  manifest and its state, the current state of an encoded manifest, the inputs that moved,
  and the identity set it discloses. The lemmas show that a relative identity stays beneath
  its module and is spelled back from there, and that re-evaluation and attribution agree.
\<close>

section \<open>Identities on disk\<close>

definition rel_under :: "string \<Rightarrow> string \<Rightarrow> string option" where
  "rel_under root p = (case path_rel root p of None \<Rightarrow> None
     | Some rel \<Rightarrow> if rel = dotdot \<or> has_prefix rel ''../'' \<or> is_abs rel then None else Some rel)"

definition materialize_path :: "string \<Rightarrow> path_id \<Rightarrow> manifest_error + string" where
  "materialize_path root p =
     (if pi_kind p = path_rel_kind then
        (let q = path_clean (path_join root (pi_path p)) in
         if rel_under root q = None then Inl (EscapingPath (pi_path p)) else Inr q)
      else if pi_kind p = path_abs_kind then
        (if \<not> is_abs (pi_path p) then Inl (RelativeAbsPath (pi_path p)) else Inr (path_clean (pi_path p)))
      else Inl (UnknownPathKind (pi_kind p)))"

definition materialize_paths :: "string \<Rightarrow> path_input list \<Rightarrow> manifest_error + string list" where
  "materialize_paths root ps = map_res (\<lambda>p. materialize_path root (pn_id p)) ps"

text \<open>relativeSpelling and the two conversions of an identity's kind (observation.go).\<close>

definition relative_spelling :: "string \<Rightarrow> string \<Rightarrow> string option" where
  "relative_spelling root p = rel_under root p"

definition absolute_id :: "string \<Rightarrow> string \<Rightarrow> path_id" where
  "absolute_id root p = \<lparr>pi_kind = path_abs_kind, pi_path = p\<rparr>"

definition relative_id :: "string \<Rightarrow> string \<Rightarrow> path_id" where
  "relative_id root p = (case relative_spelling root p of
      Some rel \<Rightarrow> \<lparr>pi_kind = path_rel_kind, pi_path = rel\<rparr>
    | None \<Rightarrow> \<lparr>pi_kind = path_abs_kind, pi_path = p\<rparr>)"

lemma kinds_differ [simp]: "path_rel_kind \<noteq> path_abs_kind" "path_abs_kind \<noteq> path_rel_kind"
  by (simp_all add: path_rel_kind_def path_abs_kind_def)

lemma valid_rel_inner:
  assumes "validate_path_id p = None" "pi_kind p = path_rel_kind"
  shows "inner_path (pi_path p)" "pi_path p \<noteq> dotdot" "\<not> has_prefix (pi_path p) ''../''"
proof -
  let ?q = "pi_path p"
  from assms have q: "line_text ?q" "\<not> is_abs ?q" "path_clean ?q = ?q" "?q \<noteq> dotdot" "\<not> has_prefix ?q ''../''"
    by (auto simp: validate_path_id_def Let_def split: if_splits)
  from path_comps_clean [of ?q] q(2) obtain n ds where
    c: "path_comps ?q = replicate n dotdot @ ds" "list_all plain_comp ds"
    by (auto simp: clean_form_def)
  have r: "render_path False (path_comps ?q) = ?q" using q(2,3) by (simp add: path_clean_def)
  have "n = 0"
  proof (rule ccontr)
    assume "n \<noteq> 0"
    then obtain m where "n = Suc m" by (cases n) auto
    with c r have "?q = join_with ''/'' (dotdot # (replicate m dotdot @ ds))" by (simp add: render_path_def)
    then show False using q(4,5) by (cases "replicate m dotdot @ ds") (auto simp: has_prefix_def)
  qed
  with c q show "inner_path ?q" "?q \<noteq> dotdot" "\<not> has_prefix ?q ''../''"
    by (simp_all add: inner_path_def line_text_def)
qed

lemma inner_rendered: "inner_path p \<Longrightarrow> p = render_path False (path_comps p)"
  by (auto simp: inner_path_def path_clean_def)

lemma rel_under_inner:
  assumes "is_abs root" "inner_path p" "p \<noteq> dotdot" "\<not> has_prefix p ''../''"
    and "is_abs q" "path_comps q = path_comps root @ path_comps p"
  shows "rel_under root q = Some p"
proof -
  have na: "\<not> is_abs p" using assms(2) by (simp add: inner_path_def)
  have "path_rel root q = Some p"
  proof (cases "path_comps p = []")
    case True
    with inner_rendered [OF assms(2)] have "p = dot" by (simp add: render_path_def)
    with True assms show ?thesis by (simp add: path_rel_def path_clean_eq)
  next
    case False
    with inner_rendered [OF assms(2)] have "p = join_with ''/'' (path_comps p)" by (simp add: render_path_def)
    with False assms show ?thesis by (simp add: path_rel_def path_clean_eq strip_common_prefix)
  qed
  with assms(3,4) na show ?thesis by (simp add: rel_under_def)
qed

lemma materialize_rel:
  assumes "validate_path_id p = None" "pi_kind p = path_rel_kind" "is_abs root"
  shows "\<exists>q. materialize_path root p = Inr q \<and> is_abs q \<and> path_comps q = path_comps root @ path_comps (pi_path p)
    \<and> rel_under root q = Some (pi_path p)"
proof -
  note v = valid_rel_inner [OF assms(1,2)]
  have ne: "root \<noteq> []" "pi_path p \<noteq> []" using assms(3) v(1) by (auto simp: is_abs_def inner_path_def)
  let ?q = "path_clean (path_join root (pi_path p))"
  have q: "?q = path_clean (root @ slash # pi_path p)" using ne by (simp add: path_join_def)
  have c: "path_comps ?q = path_comps root @ path_comps (pi_path p)" "is_abs ?q"
    unfolding q using join_inner [OF assms(3) v(1)] by simp_all
  have "rel_under root ?q = Some (pi_path p)" by (rule rel_under_inner [OF assms(3) v c(2,1)])
  with c show ?thesis by (simp add: materialize_path_def assms(2))
qed

section \<open>Evaluation\<close>

definition env_entry_digest :: "platform \<Rightarrow> string list \<Rightarrow> string \<Rightarrow> string" where
  "env_entry_digest P env name = (let v = lookup_env P env name in
     digest (show_bool (v \<noteq> None) @ '' '' @ sha256_hex (case v of Some s \<Rightarrow> s | None \<Rightarrow> [])))"

text \<open>What hashing one identity at its materialized path answers: digest, refusal, reason.\<close>

type_synonym path_reader = "path_id \<Rightarrow> string \<Rightarrow> bool \<Rightarrow> string + (string \<times> bool \<times> string)"

text \<open>The context, as the answers of its successive checks.\<close>

type_synonym checks = "nat \<Rightarrow> string option"

definition live_then :: "checks \<Rightarrow> nat \<Rightarrow> manifest_error + 'a \<Rightarrow> manifest_error + 'a" where
  "live_then cx k r = (case cx k of Some c \<Rightarrow> Inl (Cancelled c) | None \<Rightarrow> r)"

fun evaluate_env ::
    "platform \<Rightarrow> checks \<Rightarrow> nat \<Rightarrow> string list \<Rightarrow> env_input list \<Rightarrow> manifest_error + env_input list" where
  "evaluate_env P cx k env [] = Inr []"
| "evaluate_env P cx k env (e # es) = live_then cx k
     (bind_res (evaluate_env P cx (Suc k) env es)
       (\<lambda>fs. Inr (e\<lparr>ei_digest := env_entry_digest P env (ei_name e)\<rparr> # fs)))"

definition read_path :: "string \<Rightarrow> path_reader \<Rightarrow> path_input \<Rightarrow> manifest_error + (string \<times> bool \<times> string)" where
  "read_path root reader p = bind_res (materialize_path root (pn_id p)) (\<lambda>path.
     case reader (pn_id p) path (pn_metadata p) of Inl e \<Rightarrow> Inl (Unreadable e) | Inr x \<Rightarrow> Inr x)"

fun evaluate_paths ::
    "string \<Rightarrow> path_reader \<Rightarrow> checks \<Rightarrow> nat \<Rightarrow> path_input list
      \<Rightarrow> manifest_error + (path_input list \<times> bool \<times> string)" where
  "evaluate_paths root reader cx k [] = live_then cx k (Inr ([], False, []))"
| "evaluate_paths root reader cx k (p # ps) = live_then cx k
     (bind_res (read_path root reader p) (\<lambda>(d, unverifiable, reason).
      bind_res (evaluate_paths root reader cx (Suc k) ps) (\<lambda>(qs, u, r).
        Inr (p\<lparr>pn_digest := d\<rparr> # qs, unverifiable \<or> u,
          if unverifiable \<and> reason \<noteq> [] then reason else r))))"

definition populate_digests ::
    "platform \<Rightarrow> string \<Rightarrow> path_reader \<Rightarrow> checks \<Rightarrow> nat \<Rightarrow> string list \<Rightarrow> manifest
      \<Rightarrow> manifest_error + (manifest \<times> bool \<times> string)" where
  "populate_digests P root reader cx k env m = (let m' = sort_manifest m in
     bind_res (evaluate_env P cx k env (mn_env m')) (\<lambda>es.
     bind_res (evaluate_paths root reader cx (k + length (mn_env m')) (mn_paths m')) (\<lambda>(ps, u, r).
       Inr (m'\<lparr>mn_env := es, mn_paths := ps\<rparr>, u, r))))"

definition manifest_digest_text :: "manifest \<Rightarrow> string" where
  "manifest_digest_text m = ''version '' @ show_int (mn_version m) @ [newline]
     @ (if mn_outcome m = [] then []
        else ''outcome '' @ mn_outcome m @ [newline]
          @ concat (map (\<lambda>s. ''subject '' @ s @ [newline]) (mn_subjects m)))
     @ concat (map (\<lambda>e. ''env '' @ ei_name e @ '' '' @ ei_digest e @ [newline]) (mn_env m))
     @ concat (map (\<lambda>p. ''path '' @ pi_kind (pn_id p) @ '' '' @ pi_path (pn_id p) @ '' '' @ pn_digest p
         @ [newline]) (mn_paths m))
     @ (if mn_moved m then ''bracket-moved'' @ [newline] else [])
     @ concat (map (\<lambda>r. ''unverifiable '' @ r @ [newline]) (mn_unverifiable m))"

definition manifest_digest :: "manifest \<Rightarrow> string" where
  "manifest_digest m = digest (manifest_digest_text m)"

definition first_reason :: "string list \<Rightarrow> string" where
  "first_reason rs = (case rs of [] \<Rightarrow> [] | r # _ \<Rightarrow> r)"

definition finalize_state :: "manifest \<Rightarrow> bool \<Rightarrow> string \<Rightarrow> manifest_error + rt_state" where
  "finalize_state m unverifiable reason = (let m' = sort_manifest m in
     bind_res (encode_manifest m') (\<lambda>encoded. Inr \<lparr>rt_manifest = encoded, rt_digest = manifest_digest m',
       rt_bracket_moved = mn_moved m', rt_unverifiable = (mn_unverifiable m' \<noteq> [] \<or> unverifiable),
       rt_reason = (if first_reason (mn_unverifiable m') = [] then reason
         else first_reason (mn_unverifiable m')), rt_ok = True\<rparr>))"

definition state_from_manifest ::
    "platform \<Rightarrow> string \<Rightarrow> path_reader \<Rightarrow> checks \<Rightarrow> nat \<Rightarrow> string list \<Rightarrow> manifest \<Rightarrow> manifest_error + rt_state" where
  "state_from_manifest P root reader cx k env m =
     bind_res (populate_digests P root reader cx k env m) (\<lambda>(m', u, r). finalize_state m' u r)"

definition current_normalized ::
    "platform \<Rightarrow> string \<Rightarrow> path_reader \<Rightarrow> checks \<Rightarrow> nat \<Rightarrow> string list \<Rightarrow> string \<Rightarrow> manifest_error + rt_state" where
  "current_normalized P root reader cx k env encoded = live_then cx k
     (bind_res (decode_manifest encoded) (\<lambda>m. state_from_manifest P root reader cx (Suc k) env m))"

definition normalize_environment :: "platform \<Rightarrow> string list \<Rightarrow> manifest_error + string list" where
  "normalize_environment P env = (case normalize_env P env of
      Inl e \<Rightarrow> Inl (Unreadable (''runtimeinputs: '' @ e)) | Inr n \<Rightarrow> Inr n)"

definition current_state ::
    "platform \<Rightarrow> string \<Rightarrow> path_reader \<Rightarrow> checks \<Rightarrow> string list \<Rightarrow> string \<Rightarrow> manifest_error + rt_state" where
  "current_state P root reader cx env encoded = live_then cx 0
     (bind_res (normalize_environment P env) (\<lambda>n. current_normalized P root reader cx 1 n encoded))"

section \<open>Attribution and disclosure\<close>

fun moved_env ::
    "platform \<Rightarrow> checks \<Rightarrow> nat \<Rightarrow> string list \<Rightarrow> env_input list \<Rightarrow> manifest_error + string list" where
  "moved_env P cx k env [] = Inr []"
| "moved_env P cx k env (e # es) = live_then cx k
     (bind_res (moved_env P cx (Suc k) env es) (\<lambda>ms.
       Inr (if env_entry_digest P env (ei_name e) \<noteq> ei_digest e then (''env '' @ ei_name e) # ms else ms)))"

fun moved_paths ::
    "string \<Rightarrow> path_reader \<Rightarrow> checks \<Rightarrow> nat \<Rightarrow> path_input list \<Rightarrow> manifest_error + string list" where
  "moved_paths root reader cx k [] = Inr []"
| "moved_paths root reader cx k (p # ps) = live_then cx k
     (bind_res (read_path root reader p) (\<lambda>(d, _, _).
      bind_res (moved_paths root reader cx (Suc k) ps) (\<lambda>ms.
       Inr (if d \<noteq> pn_digest p then (''path '' @ display_path (pn_id p)) # ms else ms))))"

definition moved_inputs_of ::
    "platform \<Rightarrow> string \<Rightarrow> path_reader \<Rightarrow> checks \<Rightarrow> string list \<Rightarrow> string \<Rightarrow> manifest_error + string list" where
  "moved_inputs_of P root reader cx env encoded = bind_res (decode_manifest encoded) (\<lambda>m.
     bind_res (normalize_environment P env) (\<lambda>n.
     bind_res (moved_env P cx 0 n (mn_env m)) (\<lambda>es.
     bind_res (moved_paths root reader cx (length (mn_env m)) (mn_paths m)) (\<lambda>ps. Inr (es @ ps)))))"

definition module_rel_paths :: "string \<Rightarrow> manifest_error + string list" where
  "module_rel_paths encoded = bind_res (decode_manifest encoded) (\<lambda>m.
     Inr (map (pi_path \<circ> pn_id) (filter (\<lambda>p. pi_kind (pn_id p) = path_rel_kind) (mn_paths m))))"

record description =
  ds_env :: "string list"
  ds_paths :: "string list"
  ds_unverifiable :: "string list"

definition describe_manifest :: "string \<Rightarrow> string \<Rightarrow> manifest_error + description" where
  "describe_manifest root encoded = bind_res (decode_manifest encoded) (\<lambda>m.
     bind_res (materialize_paths root (mn_paths m)) (\<lambda>ps.
       Inr \<lparr>ds_env = map ei_name (mn_env m), ds_paths = ps, ds_unverifiable = mn_unverifiable m\<rparr>))"

definition manifest_paths :: "string \<Rightarrow> string \<Rightarrow> manifest_error + string list" where
  "manifest_paths root encoded = bind_res (decode_manifest encoded) (\<lambda>m. materialize_paths root (mn_paths m))"

section \<open>Re-evaluation\<close>

lemma live_then_ok: "live_then cx k r = Inr x \<longleftrightarrow> cx k = None \<and> r = Inr x"
  by (auto simp: live_then_def split: option.splits)

abbreviation renewed :: "platform \<Rightarrow> string list \<Rightarrow> env_input \<Rightarrow> env_input" where
  "renewed P env e \<equiv> e\<lparr>ei_digest := env_entry_digest P env (ei_name e)\<rparr>"

lemma evaluate_env_ok: "evaluate_env P cx k env es = Inr fs \<Longrightarrow> fs = map (renewed P env) es"
  by (induction es arbitrary: k fs) (auto simp: live_then_ok bind_res_Inr_iff)

lemma moved_env_ok:
  "moved_env P cx k env es = Inr ms \<Longrightarrow> ms = [] \<longleftrightarrow> map (renewed P env) es = es"
proof (induction es arbitrary: k ms)
  case (Cons e es)
  have "renewed P env e = e \<longleftrightarrow> env_entry_digest P env (ei_name e) = ei_digest e"
    by (cases e) auto
  with Cons show ?case by (auto simp: live_then_ok bind_res_Inr_iff split: if_splits)
qed simp

definition path_read :: "string \<Rightarrow> path_reader \<Rightarrow> path_input \<Rightarrow> path_input \<Rightarrow> bool" where
  "path_read root reader p q \<longleftrightarrow> (\<exists>d u r. read_path root reader p = Inr (d, u, r) \<and> q = p\<lparr>pn_digest := d\<rparr>)"

lemma evaluate_paths_ok:
  "evaluate_paths root reader cx k ps = Inr (qs, u, r) \<Longrightarrow> list_all2 (path_read root reader) ps qs"
proof (induction ps arbitrary: k qs u r)
  case (Cons p ps)
  from Cons.prems obtain x where x: "read_path root reader p = Inr x"
    by (auto simp: live_then_ok bind_res_Inr_iff)
  obtain d v y where "x = (d, v, y)" by (cases x)
  note x = x [unfolded this]
  obtain z where e: "evaluate_paths root reader cx (Suc k) ps = Inr z"
    using Cons.prems x by (cases "evaluate_paths root reader cx (Suc k) ps") (simp_all add: live_then_ok)
  have z: "evaluate_paths root reader cx (Suc k) ps = Inr z" "qs = p\<lparr>pn_digest := d\<rparr> # fst z"
    using e Cons.prems x by (auto simp: live_then_ok split_def)
  then have "list_all2 (path_read root reader) ps (fst z)" using Cons.IH by (metis prod.collapse)
  moreover have "path_read root reader p (p\<lparr>pn_digest := d\<rparr>)"
    using x by (auto simp: path_read_def)
  ultimately show ?case by (simp add: z(2))
qed (auto simp: live_then_ok)

lemma moved_paths_ok:
  "moved_paths root reader cx k ps = Inr ms \<Longrightarrow> list_all2 (path_read root reader) ps qs \<Longrightarrow> ms = [] \<longleftrightarrow> qs = ps"
proof (induction ps arbitrary: k ms qs)
  case (Cons p ps)
  from Cons.prems(1) obtain x ms' where r: "read_path root reader p = Inr x"
    "moved_paths root reader cx (Suc k) ps = Inr ms'"
    "ms = (if fst x \<noteq> pn_digest p then (''path '' @ display_path (pn_id p)) # ms' else ms')"
    by (auto simp: live_then_ok bind_res_Inr_iff split_def)
  from Cons.prems(2) obtain q qs' where q: "qs = q # qs'" "path_read root reader p q"
    "list_all2 (path_read root reader) ps qs'"
    by (auto simp: list_all2_Cons1)
  from q(2) r(1) have "q = p\<lparr>pn_digest := fst x\<rparr>" by (auto simp: path_read_def)
  then have "q = p \<longleftrightarrow> fst x = pn_digest p" by (cases p) auto
  with Cons.IH [OF r(2) q(3)] r(3) q(1) show ?case by auto
qed simp

text \<open>A valid canonical manifest names each identity once.\<close>

lemma first_error_adjacent:
  assumes step: "\<And>p x. f (Some p) x = None \<Longrightarrow> g p \<noteq> g x"
  shows "first_error f prev xs = None \<Longrightarrow> distinct_adj (map g xs)
    \<and> (\<forall>p. prev = Some p \<longrightarrow> xs \<noteq> [] \<longrightarrow> g p \<noteq> g (hd xs))"
proof (induction xs arbitrary: prev)
  case (Cons x xs)
  then have h: "f prev x = None" "first_error f (Some x) xs = None" by (auto split: option.splits)
  from Cons.IH [OF h(2)] have "distinct_adj (map g xs)" "xs \<noteq> [] \<longrightarrow> g x \<noteq> g (hd xs)" by auto
  then have "distinct_adj (map g (x # xs))" by (cases xs) auto
  with h(1) step show ?case by auto
qed simp

lemma sorted_distinct_adj: "sorted xs \<Longrightarrow> distinct_adj xs \<Longrightarrow> distinct xs"
  for xs :: "'a::linorder list"
proof (induction xs rule: induct_list012)
  case (3 x y zs)
  then have "x < y" "\<forall>z\<in>set zs. y \<le> z" "distinct (y # zs)" by auto
  then have "x \<notin> set (y # zs)" by auto
  with \<open>distinct (y # zs)\<close> show ?case by simp
qed simp_all

lemma path_key_id: "path_key p = path_key q \<longleftrightarrow> pn_id p = pn_id q"
  by (cases "pn_id p"; cases "pn_id q") (auto simp: path_key_def)

lemma manifest_sorted:
  assumes "sort_manifest m = m"
  shows "sorted (map ei_name (mn_env m))" "sorted (map path_key (mn_paths m))"
proof -
  have keep: "sorted (map f ys) \<Longrightarrow> sorted (map f (remdups_adj ys))" for f :: "'b \<Rightarrow> 'c::linorder" and ys
    by (induction ys rule: remdups_adj.induct) auto
  have f: "mn_env m = remdups_adj (sort_key ei_name (mn_env m))"
    "mn_paths m = remdups_adj (sort_key path_key (mn_paths m))"
    using arg_cong [OF assms, of mn_env] arg_cong [OF assms, of mn_paths]
    by (simp_all add: sort_manifest_def)
  show "sorted (map ei_name (mn_env m))" by (subst f(1)) (simp add: keep)
  show "sorted (map path_key (mn_paths m))" by (subst f(2)) (simp add: keep)
qed

lemma manifest_identities:
  assumes "validate_manifest m = None" "sort_manifest m = m"
  shows "distinct (map ei_name (mn_env m))" "distinct (map path_key (mn_paths m))"
proof -
  from assms(1) have e: "first_error check_env None (mn_env m) = None"
    "first_error check_path None (mn_paths m) = None"
    by (auto simp: validate_manifest_def split: if_splits)
  have "ei_name p \<noteq> ei_name x" if "check_env (Some p) x = None" for p x
    using that by (auto simp: check_env_def split: if_splits)
  from first_error_adjacent [where g = ei_name, OF this e(1)]
  show "distinct (map ei_name (mn_env m))" using sorted_distinct_adj [OF manifest_sorted(1) [OF assms(2)]] by simp
  have "path_key p \<noteq> path_key x" if "check_path (Some p) x = None" for p x
    using that by (auto simp: check_path_def path_key_id split: if_splits)
  from first_error_adjacent [where g = path_key, OF this e(2)]
  show "distinct (map path_key (mn_paths m))" using sorted_distinct_adj [OF manifest_sorted(2) [OF assms(2)]] by simp
qed

lemma path_read_id: "path_read root reader p q \<Longrightarrow> pn_id q = pn_id p \<and> pn_metadata q = pn_metadata p"
  by (auto simp: path_read_def)

lemma list_all2_keys: "list_all2 R xs ys \<Longrightarrow> (\<And>x y. R x y \<Longrightarrow> f y = f x) \<Longrightarrow> map f ys = map f xs"
  by (induction rule: list_all2_induct) auto

lemma sort_kept:
  assumes "sorted (map f xs)" "distinct (map f xs)"
  shows "remdups_adj (sort_key f xs) = xs"
  using assms by (simp add: sort_key_id_if_sorted distinct_map remdups_adj_distinct)

text \<open>The evaluated manifest, in canonical order already.\<close>

lemma populated_distinct:
  assumes "populate_digests P root reader cx k env m = Inr (m', u, r)"
    and id: "distinct (map ei_name (mn_env m))" "distinct (map path_key (mn_paths m))" and so: "sort_manifest m = m"
  shows "\<exists>qs. list_all2 (path_read root reader) (mn_paths m) qs
    \<and> m' = m\<lparr>mn_env := map (renewed P env) (mn_env m), mn_paths := qs\<rparr> \<and> sort_manifest m' = m'"
proof -
  from assms(1) so obtain es qs where
    e: "evaluate_env P cx k env (mn_env m) = Inr es"
    and q: "evaluate_paths root reader cx (k + length (mn_env m)) (mn_paths m) = Inr (qs, u, r)"
    and m': "m' = m\<lparr>mn_env := es, mn_paths := qs\<rparr>"
    by (auto simp: populate_digests_def Let_def bind_res_Inr_iff)
  note sd = manifest_sorted [OF so]
  have l: "list_all2 (path_read root reader) (mn_paths m) qs" by (rule evaluate_paths_ok [OF q])
  have kq: "map path_key qs = map path_key (mn_paths m)"
    by (rule list_all2_keys [OF l]) (simp add: path_key_def path_read_id)
  have ke: "map ei_name (map (renewed P env) (mn_env m)) = map ei_name (mn_env m)" by simp
  have es: "es = map (renewed P env) (mn_env m)" by (rule evaluate_env_ok [OF e])
  have "remdups_adj (sort_key ei_name es) = es" "remdups_adj (sort_key path_key qs) = qs"
    using sort_kept [of ei_name es] sort_kept [of path_key qs] id sd kq es ke by (simp_all add: o_def)
  moreover have "remdups_adj (sort (mn_subjects m)) = mn_subjects m"
    "remdups_adj (sort (mn_unverifiable m)) = mn_unverifiable m"
    using arg_cong [OF so, of mn_subjects] arg_cong [OF so, of mn_unverifiable]
    by (simp_all add: sort_manifest_def)
  ultimately have "sort_manifest m' = m'" by (simp add: m' sort_manifest_def)
  with l m' es show ?thesis by blast
qed

lemma populated:
  assumes "populate_digests P root reader cx k env m = Inr (m', u, r)" "validate_manifest m = None"
    "sort_manifest m = m"
  shows "\<exists>qs. list_all2 (path_read root reader) (mn_paths m) qs
    \<and> m' = m\<lparr>mn_env := map (renewed P env) (mn_env m), mn_paths := qs\<rparr> \<and> sort_manifest m' = m'"
  by (rule populated_distinct [OF assms(1) manifest_identities [OF assms(2,3)] assms(3)])

section \<open>The digest's text\<close>

lemma concat_lines:
  assumes "list_all2 (\<lambda>x y. length (f x) = length (g y)) xs ys"
    and "concat (map f xs) @ s = concat (map g ys) @ t"
  shows "map f xs = map g ys \<and> s = t"
  using assms by (induction rule: list_all2_induct) auto

abbreviation env_line :: "env_input \<Rightarrow> string" where
  "env_line e \<equiv> ''env '' @ ei_name e @ '' '' @ ei_digest e @ [newline]"

abbreviation path_line :: "path_input \<Rightarrow> string" where
  "path_line p \<equiv> ''path '' @ pi_kind (pn_id p) @ '' '' @ pi_path (pn_id p) @ '' '' @ pn_digest p @ [newline]"

lemma map_eq_zip:
  assumes "list_all2 R xs ys" "map f xs = map f ys" "\<And>x y. R x y \<Longrightarrow> f x = f y \<Longrightarrow> y = x"
  shows "ys = xs"
  using assms(1,2) by (induction rule: list_all2_induct) (auto dest: assms(3))

text \<open>Over the same identities, equal digest texts mean equal entry digests.\<close>

lemma digest_text_entries:
  assumes "list_all2 (\<lambda>e e'. ei_name e' = ei_name e \<and> length (ei_digest e') = length (ei_digest e)) (mn_env m) es"
    and "list_all2 (\<lambda>p p'. pn_id p' = pn_id p \<and> pn_metadata p' = pn_metadata p
      \<and> length (pn_digest p') = length (pn_digest p)) (mn_paths m) ps"
    and "manifest_digest_text (m\<lparr>mn_env := es, mn_paths := ps\<rparr>) = manifest_digest_text m"
  shows "es = mn_env m \<and> ps = mn_paths m"
proof -
  let ?tail = "(if mn_moved m then ''bracket-moved'' @ [newline] else [])
     @ concat (map (\<lambda>r. ''unverifiable '' @ r @ [newline]) (mn_unverifiable m))"
  have eq: "concat (map env_line (mn_env m)) @ concat (map path_line (mn_paths m)) @ ?tail
      = concat (map env_line es) @ concat (map path_line ps) @ ?tail"
    using assms(3) unfolding manifest_digest_text_def by simp
  have le: "list_all2 (\<lambda>e e'. length (env_line e) = length (env_line e')) (mn_env m) es"
    using assms(1) by (rule list_all2_mono) simp
  have lp: "list_all2 (\<lambda>p p'. length (path_line p) = length (path_line p')) (mn_paths m) ps"
    using assms(2) by (rule list_all2_mono) simp
  from concat_lines [OF le eq] have e: "map env_line (mn_env m) = map env_line es"
    and r: "concat (map path_line (mn_paths m)) @ ?tail = concat (map path_line ps) @ ?tail" by blast+
  from concat_lines [OF lp r] have p: "map path_line (mn_paths m) = map path_line ps" by blast
  have "es = mn_env m"
    by (rule map_eq_zip [OF assms(1) e]) (auto intro: env_input.equality)
  moreover have "ps = mn_paths m"
    by (rule map_eq_zip [OF assms(2) p]) (auto intro: path_input.equality)
  ultimately show ?thesis by simp
qed

lemma list_all2_digests:
  "\<forall>e\<in>set es. valid_entry_digest (ei_digest e) \<Longrightarrow> \<forall>e\<in>set es. valid_entry_digest (ei_digest (h e)) \<Longrightarrow>
     (\<And>e. ei_name (h e) = ei_name e) \<Longrightarrow>
     list_all2 (\<lambda>e e'. ei_name e' = ei_name e \<and> length (ei_digest e') = length (ei_digest e)) es (map h es)"
  by (induction es) (auto simp: valid_entry_digest_def)

lemma list_all2_mono_in:
  "list_all2 R xs ys \<Longrightarrow> (\<And>x y. x \<in> set xs \<Longrightarrow> y \<in> set ys \<Longrightarrow> R x y \<Longrightarrow> Q x y) \<Longrightarrow> list_all2 Q xs ys"
  by (induction rule: list_all2_induct) auto

lemma manifest_encoding_canonical_inverse: "decode_manifest s = Inr m \<Longrightarrow> encode_manifest m = Inr s"
  using decode_manifest_ok [of s m] by (simp add: encode_manifest_ok)

lemma encode_determines:
  assumes "encode_manifest m = Inr s" "encode_manifest n = Inr s" "sort_manifest m = m" "sort_manifest n = n"
  shows "m = n"
proof -
  have "decode_manifest s = Inr m" using assms(1,3) decode_encoded [of m] by (simp add: encode_manifest_ok)
  moreover have "decode_manifest s = Inr n" using assms(2,4) decode_encoded [of n] by (simp add: encode_manifest_ok)
  ultimately show ?thesis by simp
qed

section \<open>Properties\<close>

text \<open>C31: A module-relative identity, materialized under any absolute module directory, names a
  path beneath it, and its portable spelling there is the identity it came from: no recorded
  relative identity escapes its module, and converting to absolute form and back loses nothing.\<close>

theorem relative_identity_roundtrip:
  assumes "validate_path_id p = None" "pi_kind p = path_rel_kind" "is_abs root"
  shows "\<exists>q. materialize_path root p = Inr q \<and> is_abs q
    \<and> path_comps q = path_comps root @ path_comps (pi_path p) \<and> relative_id root q = p"
proof -
  from materialize_rel [OF assms] obtain q where q: "materialize_path root p = Inr q" "is_abs q"
    "path_comps q = path_comps root @ path_comps (pi_path p)" "rel_under root q = Some (pi_path p)"
    by blast
  from assms(2) have "relative_id root q = p"
    by (cases p) (simp add: relative_id_def relative_spelling_def q(4))
  with q show ?thesis by blast
qed

theorem relative_identity_roundtrip_witness:
  "\<exists>q. materialize_path ''/w/mod'' \<lparr>pi_kind = path_rel_kind, pi_path = ''testdata/in.txt''\<rparr> = Inr q
    \<and> relative_id ''/w/mod'' q = \<lparr>pi_kind = path_rel_kind, pi_path = ''testdata/in.txt''\<rparr>"
proof -
  have "validate_path_id \<lparr>pi_kind = path_rel_kind, pi_path = ''testdata/in.txt''\<rparr> = None" by code_simp
  from relative_identity_roundtrip [OF this, of "''/w/mod''"] show ?thesis
    by (auto simp: is_abs_def)
qed

text \<open>C32: Re-evaluation and attribution agree: over inputs that answer both the same, the state
  recomputed from a recorded manifest carries the recorded text exactly when no input is named
  as moved, and the text its combined digest is taken over is the recorded manifest's exactly
  then too: no move is hidden by the framing of the digest's input.\<close>

theorem reevaluation_names_every_move:
  assumes "current_state P root reader cx env encoded = Inr st"
    and "moved_inputs_of P root reader cx2 env encoded = Inr movers"
  shows "\<exists>m m'. decode_manifest encoded = Inr m \<and> decode_manifest (rt_manifest st) = Inr m'
    \<and> rt_digest st = digest (manifest_digest_text m')
    \<and> (movers = [] \<longleftrightarrow> rt_manifest st = encoded)
    \<and> (movers = [] \<longleftrightarrow> manifest_digest_text m' = manifest_digest_text m)"
proof -
  from assms(1) obtain n m m' u r where n: "normalize_environment P env = Inr n"
    and m: "decode_manifest encoded = Inr m"
    and pop: "populate_digests P root reader cx 2 n m = Inr (m', u, r)"
    and fin: "finalize_state m' u r = Inr st"
    by (auto simp: current_state_def current_normalized_def state_from_manifest_def live_then_ok
        bind_res_Inr_iff numeral_2_eq_2)
  from decode_manifest_ok [OF m] have v: "validate_manifest m = None" "sort_manifest m = m" by blast+
  from populated [OF pop v] obtain qs where q: "list_all2 (path_read root reader) (mn_paths m) qs"
    and m': "m' = m\<lparr>mn_env := map (renewed P n) (mn_env m), mn_paths := qs\<rparr>" "sort_manifest m' = m'"
    by blast
  from fin m'(2) have st: "encode_manifest m' = Inr (rt_manifest st)" "rt_digest st = manifest_digest m'"
    by (auto simp: finalize_state_def Let_def bind_res_Inr_iff)
  from assms(2) m n obtain es ps where "moved_env P cx2 0 n (mn_env m) = Inr es"
    "moved_paths root reader cx2 (length (mn_env m)) (mn_paths m) = Inr ps" "movers = es @ ps"
    by (auto simp: moved_inputs_of_def bind_res_Inr_iff)
  with moved_env_ok moved_paths_ok [OF _ q]
  have mv: "movers = [] \<longleftrightarrow> map (renewed P n) (mn_env m) = mn_env m \<and> qs = mn_paths m" by blast
  have same: "movers = [] \<longleftrightarrow> m' = m"
    unfolding mv m'(1) by (cases m) auto
  have enc: "encode_manifest m = Inr encoded" using m manifest_encoding_canonical_inverse by blast
  have tx: "rt_manifest st = encoded \<longleftrightarrow> m' = m"
  proof
    assume "rt_manifest st = encoded"
    with st(1) have "encode_manifest m' = Inr encoded" by simp
    from encode_determines [OF this enc m'(2) v(2)] show "m' = m" .
  next
    assume "m' = m"
    with st(1) enc show "rt_manifest st = encoded" by simp
  qed
  have v': "validate_manifest m' = None" using st(1) m'(2) by (simp add: encode_manifest_ok)
  have dec: "decode_manifest (rt_manifest st) = Inr m'"
    using st(1) m'(2) decode_encoded [of m'] by (simp add: encode_manifest_ok)
  have "movers = []" if True: "manifest_digest_text m' = manifest_digest_text m"
  proof -
    have le: "list_all2 (\<lambda>e e'. ei_name e' = ei_name e \<and> length (ei_digest e') = length (ei_digest e))
        (mn_env m) (map (renewed P n) (mn_env m))"
    proof (rule list_all2_digests)
      show "\<forall>e\<in>set (mn_env m). valid_entry_digest (ei_digest e)" using validate_manifest_ok(4) [OF v(1)] by blast
      have "\<forall>e\<in>set (mn_env m'). valid_entry_digest (ei_digest e)" using validate_manifest_ok(4) [OF v'] by blast
      then show "\<forall>e\<in>set (mn_env m). valid_entry_digest (ei_digest (renewed P n e))" by (simp add: m'(1))
    qed simp
    have lp: "list_all2 (\<lambda>p p'. pn_id p' = pn_id p \<and> pn_metadata p' = pn_metadata p
        \<and> length (pn_digest p') = length (pn_digest p)) (mn_paths m) qs"
    proof (rule list_all2_mono_in [OF q])
      fix p p' assume a: "p \<in> set (mn_paths m)" "p' \<in> set qs" "path_read root reader p p'"
      have "length (pn_digest p) = 32" using validate_manifest_ok(5) [OF v(1) a(1)] by (simp add: valid_entry_digest_def)
      moreover have "p' \<in> set (mn_paths m')" using a(2) by (simp add: m'(1))
      from validate_manifest_ok(5) [OF v' this] have "length (pn_digest p') = 32" by (simp add: valid_entry_digest_def)
      ultimately show "pn_id p' = pn_id p \<and> pn_metadata p' = pn_metadata p
          \<and> length (pn_digest p') = length (pn_digest p)" using path_read_id [OF a(3)] by simp
    qed
    from True have "manifest_digest_text (m\<lparr>mn_env := map (renewed P n) (mn_env m), mn_paths := qs\<rparr>)
        = manifest_digest_text m" by (simp add: m'(1))
    from digest_text_entries [OF le lp this] mv show ?thesis by blast
  qed
  with m dec same tx st(2) show ?thesis unfolding manifest_digest_def by auto
qed

text \<open>A module file read as one digest when recorded and as another now: the move is named.\<close>

definition sample_manifest :: "char \<Rightarrow> manifest" where
  "sample_manifest c = empty_manifest\<lparr>mn_version := manifest_version, mn_paths :=
     [\<lparr>pn_id = \<lparr>pi_kind = path_rel_kind, pi_path = ''a''\<rparr>, pn_digest = replicate 32 c, pn_metadata = False\<rparr>]\<rparr>"

lemma lower_hex_bits: "lower_hex CHR ''0''" "lower_hex CHR ''1''"
  by code_simp+

lemma sample_valid:
  "sort_manifest (sample_manifest c) = sample_manifest c"
  "lower_hex c \<Longrightarrow> validate_manifest (sample_manifest c) = None"
  by (simp_all add: sample_manifest_def sort_manifest_def empty_manifest_def validate_manifest_def
      manifest_version_def check_path_def valid_entry_digest_def validate_path_id_def Let_def list_all_iff
      Method_def line_text_def)
    code_simp

theorem reevaluation_names_every_move_witness:
  "\<exists>encoded st. current_state \<lparr>windows = False, to_upper = id, fold_eq = (=)\<rparr> ''/w''
      (\<lambda>_ _ _. Inr (replicate 32 CHR ''1'', False, [])) (\<lambda>_. None) [] encoded = Inr st
    \<and> moved_inputs_of \<lparr>windows = False, to_upper = id, fold_eq = (=)\<rparr> ''/w''
      (\<lambda>_ _ _. Inr (replicate 32 CHR ''1'', False, [])) (\<lambda>_. None) [] encoded = Inr [''path a'']
    \<and> rt_manifest st \<noteq> encoded"
proof -
  let ?P = "\<lparr>windows = False, to_upper = id, fold_eq = (=)\<rparr>"
  let ?r = "\<lambda>_ _ _. Inr (replicate 32 CHR ''1'', False, [])"
  let ?m = "sample_manifest CHR ''0''"
  let ?e = "b64_encode (json_text (manifest_json ?m))"
  have d: "decode_manifest ?e = Inr ?m" by (rule decode_encoded) (simp_all add: sample_valid lower_hex_bits)
  have p: "materialize_path ''/w'' \<lparr>pi_kind = path_rel_kind, pi_path = ''a''\<rparr> = Inr ''/w/a''" by code_simp
  have n: "normalize_environment ?P [] = Inr []" by (simp add: normalize_environment_def normalize_env_def sort_entries_def)
  have e: "encode_manifest (sample_manifest CHR ''1'') = Inr (b64_encode (json_text (manifest_json (sample_manifest CHR ''1''))))"
    by (simp add: encode_manifest_ok sample_valid lower_hex_bits)
  have s: "\<exists>st. current_state ?P ''/w'' ?r (\<lambda>_. None) [] ?e = Inr st"
    using d p n e 
    by (simp add: current_state_def live_then_def current_normalized_def state_from_manifest_def
       populate_digests_def sample_valid) (use sample_valid(1) [of "CHR ''1''"] in
         \<open>simp add: sample_manifest_def empty_manifest_def live_then_def read_path_def finalize_state_def Let_def\<close>)
  have m: "moved_inputs_of ?P ''/w'' ?r (\<lambda>_. None) [] ?e = Inr [''path a'']"
    using d p n by (simp add: moved_inputs_of_def) (simp add: sample_manifest_def empty_manifest_def live_then_def read_path_def display_path_def)
  from s obtain st where "current_state ?P ''/w'' ?r (\<lambda>_. None) [] ?e = Inr st" by blast
  with reevaluation_names_every_move [OF this m] m show ?thesis by auto
qed

end
