(* ===== verification/Runtime_Observation.thy ===== *)
theory Runtime_Observation
  imports Runtime_State
begin

text \<open>
  Runtime-input observations (runtimeinput/observation.go): sealed evidence with its process
  provenance, its construction from an incomplete process or a persisted manifest, the
  conversions between identity kinds, and the merge of independent observations. The lemmas
  show that a merge is the union of its inputs, whatever their order, repetition or nesting.
\<close>

section \<open>Data\<close>

record process_observation =
  po_process :: string
  po_origin :: string
  po_view :: string

record observation =
  ob_state :: rt_state
  ob_attribution :: string
  ob_processes :: "process_observation list"
  ob_empty :: bool
  ob_seal :: string

datatype observation_error =
    BadState manifest_error
  | InvalidProcess string
  | MissingReason
  | NoProvenance
  | IncompleteState
  | BadProvenance
  | BadSeal
  | NoContributor
  | IncompleteIdentities string
  | MovedIdentities string
  | AdoptedMoved "string list"
  | AdoptedUnattributed manifest_error
  | ConflictingProcess string
  | MergeInput nat observation_error
  | MergeIncomplete nat
  | MergeMoved nat

definition manifest_step :: "manifest_error + 'a \<Rightarrow> (observation_error + 'a)" where
  "manifest_step r = (case r of Inl e \<Rightarrow> Inl (BadState e) | Inr x \<Rightarrow> Inr x)"

text \<open>context.Background is never done.\<close>

definition background :: checks where
  "background = (\<lambda>_. None)"

section \<open>Sealing\<close>

definition process_origin :: "rt_state \<Rightarrow> string \<Rightarrow> string \<Rightarrow> string" where
  "process_origin st process disposition =
     sha256_hex (framed process @ framed disposition @ framed (rt_manifest st) @ framed (rt_digest st))"

definition conversion_view :: "string \<Rightarrow> string \<Rightarrow> string" where
  "conversion_view name origin = sha256_hex (name @ '':'' @ origin)"

definition process_line :: "process_observation \<Rightarrow> string" where
  "process_line r = ''process '' @ po_process r @ '' '' @ po_origin r @ '' '' @ po_view r @ [newline]"

definition seal_text :: "rt_state \<Rightarrow> process_observation list \<Rightarrow> bool \<Rightarrow> string" where
  "seal_text st records none = ''manifest '' @ rt_manifest st @ newline # ''digest '' @ rt_digest st
     @ newline # ''bracket-moved '' @ show_bool (rt_bracket_moved st)
     @ newline # ''unverifiable '' @ show_bool (rt_unverifiable st)
     @ newline # ''reason '' @ rt_reason st @ newline # ''ok '' @ show_bool (rt_ok st)
     @ newline # ''empty '' @ show_bool none @ newline # concat (map process_line records)"

definition seal_observation :: "rt_state \<Rightarrow> process_observation list \<Rightarrow> bool \<Rightarrow> observation" where
  "seal_observation st records none = \<lparr>ob_state = st, ob_attribution = [], ob_processes = records,
     ob_empty = none, ob_seal = sha256_hex (seal_text st records none)\<rparr>"

definition new_observation :: "rt_state \<Rightarrow> string \<Rightarrow> string \<Rightarrow> observation" where
  "new_observation st process disposition = (let origin = process_origin st process disposition in
     seal_observation st [\<lparr>po_process = process, po_origin = origin, po_view = origin\<rparr>] False)"

definition complete_state :: "rt_state \<Rightarrow> bool" where
  "complete_state st \<longleftrightarrow> rt_ok st \<and> rt_manifest st \<noteq> [] \<and> rt_digest st \<noteq> []"

definition resealed :: "observation \<Rightarrow> bool" where
  "resealed ob \<longleftrightarrow> ob_seal (seal_observation (ob_state ob) (ob_processes ob) (ob_empty ob)) = ob_seal ob"

definition validate_observation :: "observation \<Rightarrow> observation_error option" where
  "validate_observation ob =
     (if ob_processes ob = [] then
        (if ob_empty ob \<and> complete_state (ob_state ob) then (if resealed ob then None else Some BadSeal)
         else Some NoProvenance)
      else if \<not> complete_state (ob_state ob) then Some IncompleteState
      else if \<exists>r\<in>set (ob_processes ob). \<not> line_text (po_process r) \<or> po_origin r = [] \<or> po_view r = []
      then Some BadProvenance
      else if resealed ob then None else Some BadSeal)"

definition completed_input_state :: "observation \<Rightarrow> observation_error + rt_state" where
  "completed_input_state ob = (case validate_observation ob of Some e \<Rightarrow> Inl e
     | None \<Rightarrow> if ob_processes ob = [] then Inl NoContributor else Inr (ob_state ob))"

section \<open>Construction\<close>

text \<open>strings.TrimSpace leaves nothing: every rune is a Unicode space.\<close>

definition space_runes :: "string list" where
  "space_runes = map (map char_of) ([[9], [10], [11], [12], [13], [32], [0xC2, 0x85], [0xC2, 0xA0],
     [0xE1, 0x9A, 0x80], [0xE2, 0x80, 0xA8], [0xE2, 0x80, 0xA9], [0xE2, 0x80, 0xAF], [0xE2, 0x81, 0x9F],
     [0xE3, 0x80, 0x80]] @ map (\<lambda>i. [0xE2, 0x80, 0x80 + i :: nat]) [0..<11])"

fun blank_within :: "nat \<Rightarrow> string \<Rightarrow> bool" where
  "blank_within n [] = True"
| "blank_within 0 s = False"
| "blank_within (Suc n) s = (case find (has_prefix s) space_runes of
      None \<Rightarrow> False | Some r \<Rightarrow> blank_within n (drop (length r) s))"

definition blank :: "string \<Rightarrow> bool" where
  "blank s = blank_within (length s) s"

definition reason_manifest :: "string \<Rightarrow> manifest" where
  "reason_manifest reason = empty_manifest\<lparr>mn_version := manifest_version, mn_unverifiable := [reason]\<rparr>"

definition incomplete_observation ::
    "platform \<Rightarrow> string \<Rightarrow> path_reader \<Rightarrow> checks \<Rightarrow> string \<Rightarrow> string \<Rightarrow> string list
      \<Rightarrow> observation_error + observation" where
  "incomplete_observation P root reader cx process reason env = (case cx 0 of
      Some e \<Rightarrow> Inl (BadState (Cancelled e))
    | None \<Rightarrow>
      if \<not> line_text process then Inl (InvalidProcess process)
      else if blank reason then Inl MissingReason
      else bind_res (manifest_step (normalize_environment P env)) (\<lambda>n.
        bind_res (manifest_step (encode_manifest (reason_manifest reason))) (\<lambda>encoded.
        bind_res (manifest_step (current_normalized P root reader cx 1 n encoded)) (\<lambda>st.
          Inr (new_observation st process ''incomplete'')))))"

text \<open>Adopt evaluates, and on disagreement attributes: two readings of the inputs.\<close>

definition adopt_observation ::
    "platform \<Rightarrow> string \<Rightarrow> path_reader \<Rightarrow> path_reader \<Rightarrow> string \<Rightarrow> string \<Rightarrow> string list
      \<Rightarrow> observation_error + observation" where
  "adopt_observation P root reader reader2 encoded process env =
     (if \<not> line_text process then Inl (InvalidProcess process)
      else bind_res (manifest_step (normalize_environment P env)) (\<lambda>n.
        bind_res (manifest_step (current_normalized P root reader background 0 n encoded)) (\<lambda>st.
          if rt_manifest st \<noteq> encoded then
            (case moved_inputs_of P root reader2 background env encoded of
                Inl e \<Rightarrow> Inl (AdoptedUnattributed e) | Inr movers \<Rightarrow> Inl (AdoptedMoved movers))
          else Inr (new_observation st process ''adopted''))))"

section \<open>Union of manifests\<close>

definition upsert_path :: "path_input \<Rightarrow> path_input list \<Rightarrow> path_input list" where
  "upsert_path p ps =
     (if pn_id p \<in> pn_id ` set ps then
        (if pn_metadata p then map (\<lambda>q. if pn_id q = pn_id p then q\<lparr>pn_metadata := True\<rparr> else q) ps else ps)
      else ps @ [p])"

definition add_env :: "env_input \<Rightarrow> env_input list \<Rightarrow> env_input list" where
  "add_env e es = (if ei_name e \<in> ei_name ` set es then es else es @ [e])"

definition add_unverifiable :: "string \<Rightarrow> string list \<Rightarrow> string list" where
  "add_unverifiable r rs = (if r \<in> set rs then rs else rs @ [r])"

section \<open>Conversion of identity kinds\<close>

record conversion =
  cv_name :: string
  cv_convert :: "string \<Rightarrow> string \<Rightarrow> path_id"
  cv_attribution :: "string \<Rightarrow> string \<Rightarrow> string"

definition convert_paths ::
    "conversion \<Rightarrow> string \<Rightarrow> path_input list \<Rightarrow> manifest_error + path_input list" where
  "convert_paths cv root ps = fold_res (\<lambda>p qs. bind_res (materialize_path root (pn_id p)) (\<lambda>path.
     Inr (upsert_path \<lparr>pn_id = cv_convert cv root path, pn_digest = [], pn_metadata = pn_metadata p\<rparr> qs))) ps []"

definition promote_reason :: "rt_state \<Rightarrow> manifest \<Rightarrow> manifest" where
  "promote_reason st m = (if rt_unverifiable st \<and> rt_reason st \<noteq> []
     then m\<lparr>mn_unverifiable := add_unverifiable (rt_reason st) (mn_unverifiable m)\<rparr> else m)"

text \<open>The state is read twice: to see that it has not moved, and under its new identities.\<close>

definition convert_identities ::
    "platform \<Rightarrow> string \<Rightarrow> path_reader \<Rightarrow> path_reader \<Rightarrow> conversion \<Rightarrow> observation \<Rightarrow> string list
      \<Rightarrow> observation_error + observation" where
  "convert_identities P root reader reader2 cv ob env = (case validate_observation ob of Some e \<Rightarrow> Inl e | None \<Rightarrow>
     (let st = ob_state ob in
      if \<not> complete_state st then Inl (IncompleteIdentities (cv_name cv))
      else bind_res (manifest_step (normalize_environment P env)) (\<lambda>n.
        bind_res (manifest_step (current_normalized P root reader background 0 n (rt_manifest st))) (\<lambda>current.
        if current \<noteq> st then Inl (MovedIdentities (cv_name cv))
        else bind_res (manifest_step (decode_manifest (rt_manifest st))) (\<lambda>m0.
          let m = promote_reason current m0 in
          bind_res (manifest_step (convert_paths cv root (mn_paths m))) (\<lambda>ps.
          bind_res (manifest_step (state_from_manifest P root reader2 background 0 n
              (sort_manifest (m\<lparr>mn_paths := ps\<rparr>)))) (\<lambda>converted.
            let records = map (\<lambda>r. r\<lparr>po_view := conversion_view (cv_name cv) (po_origin r)\<rparr>) (ob_processes ob) in
            Inr ((seal_observation converted records (ob_empty ob))
              \<lparr>ob_attribution := cv_attribution cv root (ob_attribution ob)\<rparr>))))))))"

section \<open>Merge\<close>

record merging =
  mg_manifest :: manifest
  mg_supported :: bool
  mg_processes :: "process_observation list"

definition start_merge :: merging where
  "start_merge = \<lparr>mg_manifest = empty_manifest\<lparr>mn_version := manifest_version\<rparr>, mg_supported = True,
     mg_processes = []\<rparr>"

definition note_process ::
    "process_observation \<Rightarrow> process_observation list \<Rightarrow> observation_error + process_observation list" where
  "note_process r rs = (case find (\<lambda>e. po_process e = po_process r) rs of
      None \<Rightarrow> Inr (rs @ [r])
    | Some e \<Rightarrow> if e = r then Inr rs else Inl (ConflictingProcess (po_process r)))"

definition absorb :: "observation \<Rightarrow> manifest \<Rightarrow> process_observation list \<Rightarrow> merging \<Rightarrow> merging" where
  "absorb ob m records g = (let w = mg_manifest g; contributes = ob_processes ob \<noteq> [] in
     \<lparr>mg_manifest = w\<lparr>mn_moved := mn_moved w \<or> mn_moved m,
        mn_subjects := (if contributes then mn_subjects w @ mn_subjects m else mn_subjects w),
        mn_env := fold add_env (mn_env m) (mn_env w),
        mn_paths := fold upsert_path (mn_paths m) (mn_paths w),
        mn_unverifiable := fold add_unverifiable (mn_unverifiable m) (mn_unverifiable w)\<rparr>,
      mg_supported = (mg_supported g \<and> (contributes \<longrightarrow> mn_outcome m = Method)),
      mg_processes = records\<rparr>)"

definition merge_input ::
    "platform \<Rightarrow> string \<Rightarrow> (nat \<Rightarrow> path_reader) \<Rightarrow> string list \<Rightarrow> nat \<times> observation \<Rightarrow> merging
      \<Rightarrow> observation_error + merging" where
  "merge_input P root readers n input g = (case input of (i, ob) \<Rightarrow>
     (case validate_observation ob of Some e \<Rightarrow> Inl (MergeInput i e) | None \<Rightarrow>
      bind_res (fold_res note_process (ob_processes ob) (mg_processes g)) (\<lambda>records.
      if \<not> complete_state (ob_state ob) then Inl (MergeIncomplete i)
      else (case current_normalized P root (readers i) background 0 n (rt_manifest (ob_state ob)) of
          Inl e \<Rightarrow> Inl (MergeInput i (BadState e))
        | Inr current \<Rightarrow>
            if current \<noteq> ob_state ob then Inl (MergeMoved i)
            else (case decode_manifest (rt_manifest (ob_state ob)) of
                Inl e \<Rightarrow> Inl (MergeInput i (BadState e))
              | Inr m \<Rightarrow> Inr (absorb ob m records g))))))"

definition settle_support :: "merging \<Rightarrow> manifest" where
  "settle_support g = (let w = mg_manifest g in
     if mg_supported g \<and> mn_subjects w \<noteq> [] then w\<lparr>mn_outcome := Method\<rparr> else w\<lparr>mn_subjects := []\<rparr>)"

text \<open>The attribution is the first input's that attributes the merged state's reason.\<close>

definition merged_attribution :: "observation list \<Rightarrow> rt_state \<Rightarrow> string" where
  "merged_attribution obs st =
     (case find (\<lambda>ob. ob_attribution ob \<noteq> [] \<and> rt_reason (ob_state ob) = rt_reason st) obs of
        None \<Rightarrow> [] | Some ob \<Rightarrow> ob_attribution ob)"

definition merge_observations ::
    "platform \<Rightarrow> string \<Rightarrow> (nat \<Rightarrow> path_reader) \<Rightarrow> string list \<Rightarrow> observation list
      \<Rightarrow> observation_error + observation" where
  "merge_observations P root readers env obs =
     bind_res (manifest_step (normalize_environment P env)) (\<lambda>n.
     bind_res (fold_res (merge_input P root readers n) (enumerate 0 obs) start_merge) (\<lambda>g.
     bind_res (manifest_step (encode_manifest (settle_support g))) (\<lambda>encoded.
     bind_res (manifest_step (current_normalized P root (readers (length obs)) background 0 n encoded)) (\<lambda>st.
       let records = sort_key po_process (mg_processes g) in
       Inr ((seal_observation st records (records = []))\<lparr>ob_attribution := merged_attribution obs st\<rparr>)))))"

section \<open>Manifests up to their entry digests\<close>

definition erase :: "manifest \<Rightarrow> manifest" where
  "erase m = (let m' = sort_manifest m in m'\<lparr>mn_env := map (ei_digest_update (\<lambda>_. [])) (mn_env m'),
     mn_paths := map (pn_digest_update (\<lambda>_. [])) (mn_paths m')\<rparr>)"

lemma evaluate_env_erased:
  "evaluate_env P cx k env (map (ei_digest_update (\<lambda>_. [])) es) = evaluate_env P cx k env es"
  by (induction es arbitrary: k) simp_all

lemma read_path_erased: "read_path root reader (pn_digest_update (\<lambda>_. []) p) = read_path root reader p"
  by (simp add: read_path_def)

lemma evaluate_paths_erased:
  "evaluate_paths root reader cx k (map (pn_digest_update (\<lambda>_. [])) ps) = evaluate_paths root reader cx k ps"
  by (induction ps arbitrary: k) (simp_all add: read_path_erased)

lemma erase_fields:
  "mn_version (erase m) = mn_version m" "mn_outcome (erase m) = mn_outcome m" "mn_moved (erase m) = mn_moved m"
  "mn_subjects (erase m) = mn_subjects (sort_manifest m)"
  "mn_unverifiable (erase m) = mn_unverifiable (sort_manifest m)"
  "mn_env (erase m) = map (ei_digest_update (\<lambda>_. [])) (mn_env (sort_manifest m))"
  "mn_paths (erase m) = map (pn_digest_update (\<lambda>_. [])) (mn_paths (sort_manifest m))"
  by (simp_all add: erase_def Let_def sort_manifest_def)

lemma erase_update:
  "(sort_manifest m)\<lparr>mn_env := es, mn_paths := ps\<rparr> = (erase m)\<lparr>mn_env := es, mn_paths := ps\<rparr>"
  by (simp add: erase_def Let_def)

lemma state_of_erased:
  assumes "erase m = erase m'"
  shows "state_from_manifest P root reader cx k env m = state_from_manifest P root reader cx k env m'"
proof -
  have e: "evaluate_env P cx k env (mn_env (sort_manifest m)) = evaluate_env P cx k env (mn_env (sort_manifest m'))"
    using assms erase_fields(6) [of m] erase_fields(6) [of m'] evaluate_env_erased by metis
  have p: "evaluate_paths root reader cx j (mn_paths (sort_manifest m))
      = evaluate_paths root reader cx j (mn_paths (sort_manifest m'))" for j
    using assms erase_fields(7) [of m] erase_fields(7) [of m'] evaluate_paths_erased by metis
  have l: "length (mn_env (sort_manifest m)) = length (mn_env (sort_manifest m'))"
    using arg_cong [OF assms, of "length \<circ> mn_env"] by (simp add: erase_fields)
  have "populate_digests P root reader cx k env m = populate_digests P root reader cx k env m'"
    unfolding populate_digests_def Let_def e p l erase_update assms ..
  then show ?thesis by (simp add: state_from_manifest_def)
qed

lemma sort_erased: "sort_manifest m' = m' \<Longrightarrow> m' = (sort_manifest m)\<lparr>mn_env := es, mn_paths := ps\<rparr> \<Longrightarrow>
    map (ei_digest_update (\<lambda>_. [])) es = map (ei_digest_update (\<lambda>_. [])) (mn_env (sort_manifest m)) \<Longrightarrow>
    map (pn_digest_update (\<lambda>_. [])) ps = map (pn_digest_update (\<lambda>_. [])) (mn_paths (sort_manifest m)) \<Longrightarrow>
    erase m' = erase m"
  by (simp add: erase_def Let_def)

text \<open>Entries with distinct keys, in canonical order, are determined by their set.\<close>

lemma sorted_keys_unique:
  fixes f :: "'a \<Rightarrow> 'k::linorder"
  assumes "distinct (map f xs)" "distinct (map f ys)" "set xs = set ys"
  shows "sort_key f xs = sort_key f ys"
proof (rule map_sorted_distinct_set_unique [where f = f])
  show "inj_on f (set (sort_key f xs) \<union> set (sort_key f ys))" using assms by (simp add: distinct_map)
  show "distinct (map f (sort_key f xs))" "distinct (map f (sort_key f ys))"
    using assms by (simp_all add: distinct_map distinct_sort)
qed (use assms in simp_all)

lemma sort_key_map:
  "(\<And>x. f (h x) = f x) \<Longrightarrow> map h (sort_key f xs) = sort_key f (map h xs)"
proof (induction xs)
  case (Cons x xs)
  have "map h (insort_key f x zs) = insort_key f (h x) (map h zs)" for zs
    using Cons.prems by (induction zs) simp_all
  with Cons show ?case by simp
qed simp

lemma erase_unique:
  assumes "distinct (map ei_name (mn_env m))" "distinct (map ei_name (mn_env m'))"
    and "distinct (map path_key (mn_paths m))" "distinct (map path_key (mn_paths m'))"
    and "ei_name ` set (mn_env m) = ei_name ` set (mn_env m')"
    and "(\<lambda>p. (pn_id p, pn_metadata p)) ` set (mn_paths m) = (\<lambda>p. (pn_id p, pn_metadata p)) ` set (mn_paths m')"
    and "set (mn_subjects m) = set (mn_subjects m')" "set (mn_unverifiable m) = set (mn_unverifiable m')"
    and "mn_version m = mn_version m'" "mn_outcome m = mn_outcome m'" "mn_moved m = mn_moved m'"
  shows "erase m = erase m'"
proof -
  let ?e = "ei_digest_update (\<lambda>_. [])" and ?p = "pn_digest_update (\<lambda>_. [])"
  have keep: "remdups_adj (sort_key f xs) = sort_key f xs" if "distinct (map f xs)" for f :: "'x \<Rightarrow> 'y::linorder" and xs
    using that by (simp add: distinct_map distinct_sort remdups_adj_distinct)
  have ke: "ei_name (?e e) = ei_name e" for e by simp
  have kp: "path_key (?p p) = path_key p" for p by (simp add: path_key_def)
  have es: "?e e = \<lparr>ei_name = ei_name e, ei_digest = []\<rparr>" for e by (cases e) simp
  have ps: "?p p = \<lparr>pn_id = pn_id p, pn_digest = [], pn_metadata = pn_metadata p\<rparr>" for p by (cases p) simp
  have "?e ` set (mn_env m) = (\<lambda>n. \<lparr>ei_name = n, ei_digest = []\<rparr>) ` ei_name ` set (mn_env m)" for m :: manifest
    unfolding image_image by (rule image_cong) (simp_all add: es)
  then have se: "set (map ?e (mn_env m)) = set (map ?e (mn_env m'))" by (simp only: set_map assms(5))
  have "?p ` set (mn_paths m) = (\<lambda>(i, d). \<lparr>pn_id = i, pn_digest = [], pn_metadata = d\<rparr>) `
      (\<lambda>p. (pn_id p, pn_metadata p)) ` set (mn_paths m)" for m :: manifest
    unfolding image_image by (rule image_cong) (simp_all add: ps)
  then have sp: "set (map ?p (mn_paths m)) = set (map ?p (mn_paths m'))" by (simp only: set_map assms(6))
  have "sort_key ei_name (map ?e (mn_env m)) = sort_key ei_name (map ?e (mn_env m'))"
    by (rule sorted_keys_unique [OF _ _ se]) (use assms(1,2) in \<open>simp_all add: o_def\<close>)
  then have e: "map ?e (sort_key ei_name (mn_env m)) = map ?e (sort_key ei_name (mn_env m'))"
    by (simp only: sort_key_map [of ei_name, OF ke])
  have "map (\<lambda>x. path_key (?p x)) qs = map path_key qs" for qs by (simp add: kp)
  then have "sort_key path_key (map ?p (mn_paths m)) = sort_key path_key (map ?p (mn_paths m'))"
    by (intro sorted_keys_unique [OF _ _ sp]) (use assms(3,4) in \<open>simp_all add: o_def kp\<close>)
  then have p: "map ?p (sort_key path_key (mn_paths m)) = map ?p (sort_key path_key (mn_paths m'))"
    by (simp only: sort_key_map [of path_key, OF kp])
  have c: "remdups_adj (sort xs) = remdups_adj (sort ys)" if "set xs = set ys" for xs ys :: "string list"
    using sort_compact_cong [OF that] by (simp add: sort_compact_def)
  show ?thesis
    using e p c [OF assms(7)] c [OF assms(8)] assms(9-11) keep [OF assms(1)] keep [OF assms(2)]
      keep [OF assms(3)] keep [OF assms(4)]
    by (intro manifest.equality) (simp_all add: erase_fields, simp_all add: sort_manifest_def)
qed

end
