(* ===== verification/Observation_Merge.thy ===== *)
theory Observation_Merge
  imports Runtime_Observation
begin

text \<open>
  What merging and conversion promise (runtimeinput/observation.go). An observation's evidence is
  abstracted to the sets it stands for; a merge is then the join of its inputs' evidence, the
  same whatever the order, repetition or nesting of the inputs.
\<close>

section \<open>Evidence\<close>

record evidence =
  ev_names :: "string set"
  ev_paths :: "path_id set"
  ev_bound :: "path_id set"
  ev_reasons :: "string set"
  ev_moved :: bool
  ev_subjects :: "string set"
  ev_processes :: "process_observation set"

definition recorded :: "observation \<Rightarrow> manifest" where
  "recorded ob = (case decode_manifest (rt_manifest (ob_state ob)) of Inl e \<Rightarrow> empty_manifest | Inr m \<Rightarrow> m)"

abbreviation path_ids :: "path_input list \<Rightarrow> path_id set" where
  "path_ids ps \<equiv> pn_id ` set ps"

definition bound_ids :: "path_input list \<Rightarrow> path_id set" where
  "bound_ids ps = pn_id ` {p \<in> set ps. pn_metadata p}"

definition evidence_of :: "observation \<Rightarrow> evidence" where
  "evidence_of ob = (let m = recorded ob in \<lparr>ev_names = ei_name ` set (mn_env m), ev_paths = path_ids (mn_paths m),
     ev_bound = bound_ids (mn_paths m), ev_reasons = set (mn_unverifiable m), ev_moved = mn_moved m,
     ev_subjects = set (mn_subjects m),
     ev_processes = set (ob_processes ob)\<rparr>)"

definition contributes :: "evidence \<Rightarrow> bool" where
  "contributes e \<longleftrightarrow> ev_processes e \<noteq> {}"

text \<open>A metadata-bound class wins; support survives only if every contributor names subjects.\<close>

definition join_supported :: "evidence set \<Rightarrow> bool" where
  "join_supported E \<longleftrightarrow> (\<forall>e\<in>E. contributes e \<longrightarrow> ev_subjects e \<noteq> {})"

definition join_evidence :: "evidence set \<Rightarrow> evidence" where
  "join_evidence E = \<lparr>ev_names = \<Union> (ev_names ` E), ev_paths = \<Union> (ev_paths ` E), ev_bound = \<Union> (ev_bound ` E),
     ev_reasons = \<Union> (ev_reasons ` E), ev_moved = (\<exists>e\<in>E. ev_moved e),
     ev_subjects = (if join_supported E then \<Union> (ev_subjects ` {e \<in> E. contributes e}) else {}),
     ev_processes = \<Union> (ev_processes ` E)\<rparr>"

section \<open>The union's loops\<close>

lemma add_env_names: "ei_name ` set (fold add_env es ws) = ei_name ` set ws \<union> ei_name ` set es"
  by (induction es arbitrary: ws) (auto simp: add_env_def)

lemma add_env_distinct: "distinct (map ei_name ws) \<Longrightarrow> distinct (map ei_name (fold add_env es ws))"
  by (induction es arbitrary: ws) (auto simp: add_env_def)

lemma add_env_entries: "set (fold add_env es ws) \<subseteq> set ws \<union> set es"
proof (induction es arbitrary: ws)
  case (Cons e es)
  have "set (add_env e ws) \<subseteq> set ws \<union> {e}" by (auto simp: add_env_def)
  with Cons [of "add_env e ws"] show ?case by auto
qed simp

lemma add_unverifiable_set: "set (fold add_unverifiable rs ws) = set ws \<union> set rs"
  by (induction rs arbitrary: ws) (auto simp: add_unverifiable_def)

abbreviation raise_class :: "path_id \<Rightarrow> path_input \<Rightarrow> path_input" where
  "raise_class i q \<equiv> (if pn_id q = i then q\<lparr>pn_metadata := True\<rparr> else q)"

lemma raise_class_ids: "path_ids (map (raise_class i) ps) = path_ids ps"
proof -
  have "pn_id \<circ> raise_class i = pn_id" by (rule ext) simp
  then show ?thesis by (simp only: set_map image_comp)
qed

lemma upsert_path_ids: "path_ids (upsert_path p ps) = insert (pn_id p) (path_ids ps)"
  unfolding upsert_path_def using raise_class_ids [of "pn_id p" ps] by (simp add: insert_absorb)

lemma upsert_path_bound:
  "bound_ids (upsert_path p ps) = bound_ids ps \<union> (if pn_metadata p then {pn_id p} else {})"
proof -
  have "bound_ids (map (raise_class i) ps) = bound_ids ps \<union> {i}" if "i \<in> path_ids ps" for i
  proof -
    from that obtain q where q: "q \<in> set ps" "pn_id q = i" by auto
    have "j \<in> bound_ids (map (raise_class i) ps) \<longleftrightarrow> j \<in> bound_ids ps \<or> j = i" for j
    proof
      assume "j \<in> bound_ids (map (raise_class i) ps)"
      then show "j \<in> bound_ids ps \<or> j = i" by (auto simp: bound_ids_def split: if_splits)
    next
      assume "j \<in> bound_ids ps \<or> j = i"
      then obtain p where "p \<in> set ps" "pn_id p = j" "pn_metadata p \<or> j = i" using q by (auto simp: bound_ids_def)
      then have "raise_class i p \<in> set (map (raise_class i) ps)" "pn_id (raise_class i p) = j"
        "pn_metadata (raise_class i p)" by auto
      then show "j \<in> bound_ids (map (raise_class i) ps)" unfolding bound_ids_def by blast
    qed
    then show ?thesis by blast
  qed
  then show ?thesis by (auto simp: upsert_path_def bound_ids_def)
qed

lemma upsert_path_distinct:
  assumes "distinct (map pn_id ps)"
  shows "distinct (map pn_id (upsert_path p ps))"
proof -
  have "map pn_id (map (raise_class i) ps) = map pn_id ps" for i by simp
  with assms show ?thesis by (auto simp: upsert_path_def simp del: map_map)
qed

lemma upsert_path_digests: "pn_digest ` set (upsert_path p ps) \<subseteq> insert (pn_digest p) (pn_digest ` set ps)"
  by (auto simp: upsert_path_def)

lemma upsert_paths:
  "path_ids (fold upsert_path qs ps) = path_ids ps \<union> path_ids qs"
  "bound_ids (fold upsert_path qs ps) = bound_ids ps \<union> bound_ids qs"
  "distinct (map pn_id ps) \<Longrightarrow> distinct (map pn_id (fold upsert_path qs ps))"
  "pn_digest ` set (fold upsert_path qs ps) \<subseteq> pn_digest ` set ps \<union> pn_digest ` set qs"
proof (induction qs arbitrary: ps)
  case Nil
  case 2 show ?case by (simp add: bound_ids_def)
next
  case (Cons q qs)
  { case 1 show ?case by (simp add: Cons upsert_path_ids) }
  { case 2
    have "bound_ids (q # qs) = (if pn_metadata q then {pn_id q} else {}) \<union> bound_ids qs"
      by (auto simp: bound_ids_def)
    then show ?case by (simp add: Cons upsert_path_bound Un_assoc) }
  { case 3 then show ?case by (simp add: Cons upsert_path_distinct) }
  { case 4
    have "pn_digest ` set (fold upsert_path qs (upsert_path q ps)) \<subseteq> pn_digest ` set (upsert_path q ps) \<union> pn_digest ` set qs"
      by (rule Cons(4))
    also have "\<dots> \<subseteq> insert (pn_digest q) (pn_digest ` set ps) \<union> pn_digest ` set qs"
      using upsert_path_digests [of q ps] by (rule Un_mono) simp
    finally show ?case by simp }
qed simp_all

lemma note_process_ok:
  assumes "distinct (map po_process ws)"
  shows "note_process r ws = Inr vs \<longleftrightarrow> inj_on po_process (insert r (set ws))
    \<and> vs = (if r \<in> set ws then ws else ws @ [r])"
proof (cases "find (\<lambda>e. po_process e = po_process r) ws")
  case None
  then have "po_process r \<notin> po_process ` set ws" by (auto simp: find_None_iff)
  with None assms show ?thesis by (auto simp: note_process_def distinct_map)
next
  case (Some e)
  then have e: "e \<in> set ws" "po_process e = po_process r" by (auto simp: find_Some_iff)
  show ?thesis
  proof (cases "e = r")
    case True
    with Some e assms show ?thesis by (auto simp: note_process_def distinct_map insert_absorb)
  next
    case False
    with e have "\<not> inj_on po_process (insert r (set ws))" by (auto simp: inj_on_def)
    with Some False show ?thesis by (simp add: note_process_def)
  qed
qed

lemma note_processes_ok:
  assumes "distinct (map po_process ws)"
  shows "(\<exists>vs. fold_res note_process rs ws = Inr vs) \<longleftrightarrow> inj_on po_process (set ws \<union> set rs)"
    and "fold_res note_process rs ws = Inr vs \<Longrightarrow> distinct (map po_process vs) \<and> set vs = set ws \<union> set rs"
proof -
  have "(if inj_on po_process (set ws \<union> set rs)
      then \<exists>vs. fold_res note_process rs ws = Inr vs \<and> distinct (map po_process vs) \<and> set vs = set ws \<union> set rs
      else \<exists>e. fold_res note_process rs ws = Inl e)"
    using assms
  proof (induction rs arbitrary: ws)
    case (Cons r rs)
    let ?ws = "if r \<in> set ws then ws else ws @ [r]"
    show ?case
    proof (cases "inj_on po_process (insert r (set ws))")
      case True
      then have n: "note_process r ws = Inr ?ws" using note_process_ok [OF Cons.prems] by blast
      have "distinct (map po_process ?ws)" using True Cons.prems by (auto simp: distinct_map dest: inj_onD)
      note IH = Cons.IH [OF this]
      have u: "set ?ws \<union> set rs = set ws \<union> set (r # rs)" by auto
      have "fold_res note_process (r # rs) ws = fold_res note_process rs ?ws" by (simp add: n)
      with IH show ?thesis unfolding u by presburger
    next
      case False
      then have "\<not> inj_on po_process (set ws \<union> set (r # rs))"
        by (auto intro: inj_on_subset)
      moreover obtain e where "note_process r ws = Inl e"
        using note_process_ok [OF Cons.prems, of r] False by (cases "note_process r ws") auto
      ultimately show ?thesis by simp
    qed
  qed (auto simp: distinct_map)
  then show "(\<exists>vs. fold_res note_process rs ws = Inr vs) \<longleftrightarrow> inj_on po_process (set ws \<union> set rs)"
    "fold_res note_process rs ws = Inr vs \<Longrightarrow> distinct (map po_process vs) \<and> set vs = set ws \<union> set rs"
    by (auto split: if_splits)
qed

section \<open>What a merge has gathered\<close>

definition gathered :: "evidence set \<Rightarrow> merging \<Rightarrow> bool" where
  "gathered E g \<longleftrightarrow> (let w = mg_manifest g in
     mn_version w = manifest_version \<and> mn_outcome w = []
   \<and> (mn_moved w \<longleftrightarrow> (\<exists>e\<in>E. ev_moved e)) \<and> (mg_supported g \<longleftrightarrow> join_supported E)
   \<and> set (mn_subjects w) = \<Union> (ev_subjects ` {e \<in> E. contributes e})
   \<and> ei_name ` set (mn_env w) = \<Union> (ev_names ` E) \<and> distinct (map ei_name (mn_env w))
   \<and> path_ids (mn_paths w) = \<Union> (ev_paths ` E) \<and> bound_ids (mn_paths w) = \<Union> (ev_bound ` E)
   \<and> distinct (map pn_id (mn_paths w))
   \<and> set (mn_unverifiable w) = \<Union> (ev_reasons ` E)
   \<and> set (mg_processes g) = \<Union> (ev_processes ` E) \<and> distinct (map po_process (mg_processes g))
   \<and> (\<forall>e\<in>set (mn_env w). valid_entry_digest (ei_digest e))
   \<and> (\<forall>p\<in>set (mn_paths w). valid_entry_digest (pn_digest p)))"

lemma gatheredD:
  assumes "gathered E g"
  shows "distinct (map ei_name (mn_env (mg_manifest g)))" "distinct (map pn_id (mn_paths (mg_manifest g)))"
    "distinct (map po_process (mg_processes g))" "set (mg_processes g) = \<Union> (ev_processes ` E)"
    "\<forall>e\<in>set (mn_env (mg_manifest g)). valid_entry_digest (ei_digest e)"
    "\<forall>p\<in>set (mn_paths (mg_manifest g)). valid_entry_digest (pn_digest p)"
  using assms unfolding gathered_def Let_def by - (elim conjE, assumption)+

lemma gathered_start: "gathered {} start_merge"
  by (simp add: gathered_def start_merge_def empty_manifest_def join_supported_def bound_ids_def)

lemma gathered_absorb:
  assumes g: "gathered E g" and m: "validate_manifest (recorded ob) = None"
    and vs: "distinct (map po_process vs)" "set vs = set (mg_processes g) \<union> set (ob_processes ob)"
  shows "gathered (insert (evidence_of ob) E) (absorb ob (recorded ob) vs g)"
proof -
  let ?m = "recorded ob" and ?w = "mg_manifest g"
  note G = g [unfolded gathered_def Let_def]
  have c: "contributes (evidence_of ob) \<longleftrightarrow> ob_processes ob \<noteq> []"
    by (simp add: contributes_def evidence_of_def Let_def)
  have de: "\<forall>e\<in>set (fold add_env (mn_env ?m) (mn_env ?w)). valid_entry_digest (ei_digest e)"
  proof
    fix e assume "e \<in> set (fold add_env (mn_env ?m) (mn_env ?w))"
    then have "e \<in> set (mn_env ?w) \<or> e \<in> set (mn_env ?m)" using add_env_entries by blast
    then show "valid_entry_digest (ei_digest e)" using gatheredD(5) [OF g] validate_manifest_ok(4) [OF m] by blast
  qed
  have "pn_digest ` set (mn_paths ?w) \<union> pn_digest ` set (mn_paths ?m) \<subseteq> {d. valid_entry_digest d}"
    using gatheredD(6) [OF g] validate_manifest_ok(5) [OF m] by blast
  with upsert_paths(4) [where qs = "mn_paths ?m" and ps = "mn_paths ?w"]
  have "pn_digest ` set (fold upsert_path (mn_paths ?m) (mn_paths ?w)) \<subseteq> {d. valid_entry_digest d}"
    by (rule subset_trans)
  then have dp: "\<forall>p\<in>set (fold upsert_path (mn_paths ?m) (mn_paths ?w)). valid_entry_digest (pn_digest p)" by auto
  have ev: "ev_names (evidence_of ob) = ei_name ` set (mn_env ?m)" "ev_paths (evidence_of ob) = path_ids (mn_paths ?m)"
    "ev_bound (evidence_of ob) = bound_ids (mn_paths ?m)" "ev_reasons (evidence_of ob) = set (mn_unverifiable ?m)"
    "ev_moved (evidence_of ob) = mn_moved ?m"
    "ev_subjects (evidence_of ob) = set (mn_subjects ?m)" "ev_processes (evidence_of ob) = set (ob_processes ob)"
    by (simp_all add: evidence_of_def Let_def)
  have su: "\<Union> (ev_subjects ` {e \<in> insert (evidence_of ob) E. contributes e})
      = \<Union> (ev_subjects ` {e \<in> E. contributes e}) \<union> (if ob_processes ob \<noteq> [] then set (mn_subjects ?m) else {})"
    using c ev(6) by (cases "ob_processes ob = []") auto
  from m have oc: "mn_outcome ?m = Method \<longleftrightarrow> mn_subjects ?m \<noteq> []"
    by (auto simp: validate_manifest_def Method_def split: if_splits)
  have js: "join_supported (insert (evidence_of ob) E) \<longleftrightarrow>
      join_supported E \<and> (ob_processes ob \<noteq> [] \<longrightarrow> mn_outcome ?m = Method)"
    using c ev(6) oc by (auto simp: join_supported_def)
  show ?thesis
    unfolding gathered_def Let_def su js
  proof (intro conjI)
    show "distinct (map po_process (mg_processes (absorb ob ?m vs g)))" using vs(1) by (simp add: absorb_def Let_def)
  qed (use G de dp vs in \<open>auto simp: absorb_def Let_def ev add_env_names add_env_distinct upsert_paths
      add_unverifiable_set simp del: set_map\<close>)
qed

lemma gathered_inj: "gathered E g \<Longrightarrow> inj_on po_process (\<Union> (ev_processes ` E))"
  using gatheredD(3,4) [of E g] by (metis distinct_map)

section \<open>The inputs of a merge\<close>

definition accepted_input ::
    "platform \<Rightarrow> string \<Rightarrow> path_reader \<Rightarrow> string list \<Rightarrow> observation \<Rightarrow> bool" where
  "accepted_input P root reader n ob \<longleftrightarrow> validate_observation ob = None
     \<and> current_normalized P root reader background 0 n (rt_manifest (ob_state ob)) = Inr (ob_state ob)"

lemma validated_complete: "validate_observation ob = None \<Longrightarrow> complete_state (ob_state ob)"
  by (auto simp: validate_observation_def split: if_splits)

lemma current_decodes:
  "current_normalized P root reader cx k n s = Inr st \<Longrightarrow> \<exists>m. decode_manifest s = Inr m
     \<and> state_from_manifest P root reader cx (Suc k) n m = Inr st"
  by (auto simp: current_normalized_def live_then_ok bind_res_Inr_iff)

lemma accepted_recorded:
  assumes "accepted_input P root reader n ob"
  shows "decode_manifest (rt_manifest (ob_state ob)) = Inr (recorded ob)" "validate_manifest (recorded ob) = None"
    "sort_manifest (recorded ob) = recorded ob"
proof -
  from assms obtain m where m: "decode_manifest (rt_manifest (ob_state ob)) = Inr m"
    using current_decodes unfolding accepted_input_def by blast
  then have r: "recorded ob = m" by (simp add: recorded_def)
  with m show "decode_manifest (rt_manifest (ob_state ob)) = Inr (recorded ob)" by simp
  from decode_manifest_ok(1,2) [OF m] r show "validate_manifest (recorded ob) = None"
    "sort_manifest (recorded ob) = recorded ob" by simp_all
qed

lemma merge_input_ok:
  "merge_input P root readers n (i, ob) g = Inr g' \<longleftrightarrow> accepted_input P root (readers i) n ob
     \<and> (\<exists>vs. fold_res note_process (ob_processes ob) (mg_processes g) = Inr vs \<and> g' = absorb ob (recorded ob) vs g)"
proof -
  have "merge_input P root readers n (i, ob) g = Inr g' \<longleftrightarrow> accepted_input P root (readers i) n ob
     \<and> decode_manifest (rt_manifest (ob_state ob)) = Inr (recorded ob)
     \<and> (\<exists>vs. fold_res note_process (ob_processes ob) (mg_processes g) = Inr vs \<and> g' = absorb ob (recorded ob) vs g)"
    using validated_complete [of ob]
    by (cases "validate_observation ob"; cases "fold_res note_process (ob_processes ob) (mg_processes g)";
        cases "current_normalized P root (readers i) background 0 n (rt_manifest (ob_state ob))";
        cases "decode_manifest (rt_manifest (ob_state ob))")
      (auto simp: merge_input_def accepted_input_def recorded_def)
  then show ?thesis using accepted_recorded(1) by blast
qed

lemma merge_fold_ok:
  assumes "gathered E g"
  shows "fold_res (merge_input P root readers n) xs g = Inr g' \<Longrightarrow>
      (\<forall>(i, ob)\<in>set xs. accepted_input P root (readers i) n ob)
    \<and> gathered (E \<union> evidence_of ` snd ` set xs) g'"
  using assms
proof (induction xs arbitrary: E g)
  case (Cons x xs)
  obtain i ob where x: "x = (i, ob)" by (cases x)
  from Cons.prems(1) x obtain h where h: "merge_input P root readers n (i, ob) g = Inr h"
    "fold_res (merge_input P root readers n) xs h = Inr g'" by (auto simp: bind_res_Inr_iff)
  from h(1) obtain vs where vs: "accepted_input P root (readers i) n ob"
    "fold_res note_process (ob_processes ob) (mg_processes g) = Inr vs" "h = absorb ob (recorded ob) vs g"
    using merge_input_ok by blast
  have "distinct (map po_process (mg_processes g))" by (rule gatheredD(3) [OF Cons.prems(2)])
  from note_processes_ok(2) [OF this vs(2)] gathered_absorb [OF Cons.prems(2) accepted_recorded(2) [OF vs(1)]]
  have "gathered (insert (evidence_of ob) E) h" unfolding vs(3) by blast
  from Cons.IH [OF h(2) this] x vs(1) show ?case by simp
qed simp

lemma merge_fold_succeeds:
  assumes "gathered E g" "\<forall>(i, ob)\<in>set xs. accepted_input P root (readers i) n ob"
    and "inj_on po_process (\<Union> (ev_processes ` (E \<union> evidence_of ` snd ` set xs)))"
  shows "\<exists>g'. fold_res (merge_input P root readers n) xs g = Inr g'"
  using assms
proof (induction xs arbitrary: E g)
  case (Cons x xs)
  obtain i ob where x: "x = (i, ob)" by (cases x)
  with Cons.prems have a: "accepted_input P root (readers i) n ob" by simp
  note d = gatheredD(3,4) [OF Cons.prems(1)]
  have "ev_processes (evidence_of ob) = set (ob_processes ob)" by (simp add: evidence_of_def Let_def)
  with d(2) x have "set (mg_processes g) \<union> set (ob_processes ob)
      \<subseteq> \<Union> (ev_processes ` (E \<union> evidence_of ` snd ` set (x # xs)))" by auto
  then have "inj_on po_process (set (mg_processes g) \<union> set (ob_processes ob))"
    by (rule inj_on_subset [OF Cons.prems(3)])
  then obtain vs where vs: "fold_res note_process (ob_processes ob) (mg_processes g) = Inr vs"
    using note_processes_ok(1) [OF d(1)] by blast
  let ?h = "absorb ob (recorded ob) vs g"
  have "merge_input P root readers n (i, ob) g = Inr ?h" using a vs merge_input_ok by blast
  moreover have "distinct (map po_process vs)" "set vs = set (mg_processes g) \<union> set (ob_processes ob)"
    using note_processes_ok(2) [OF d(1) vs] by blast+
  from gathered_absorb [OF Cons.prems(1) accepted_recorded(2) [OF a] this]
  have "gathered (insert (evidence_of ob) E) ?h" .
  from Cons.IH [OF this] Cons.prems(2,3) x
  have "\<exists>g'. fold_res (merge_input P root readers n) xs ?h = Inr g'" by simp
  ultimately show ?case by (simp add: x)
qed simp

section \<open>The merged manifest\<close>

lemma path_classes:
  "distinct (map pn_id ps) \<Longrightarrow> (\<lambda>p. (pn_id p, pn_metadata p)) ` set ps = (\<lambda>i. (i, i \<in> bound_ids ps)) ` path_ids ps"
proof -
  assume "distinct (map pn_id ps)"
  then have "pn_metadata p \<longleftrightarrow> pn_id p \<in> bound_ids ps" if "p \<in> set ps" for p
    using that by (auto simp: bound_ids_def distinct_map dest: inj_onD)
  then show ?thesis unfolding image_image by (intro image_cong) simp_all
qed

lemma distinct_path_keys: "distinct (map pn_id ps) \<longleftrightarrow> distinct (map path_key ps)"
  by (auto simp: distinct_map inj_on_def path_key_id)

lemma settle_fields:
  "mn_env (settle_support g) = mn_env (mg_manifest g)" "mn_paths (settle_support g) = mn_paths (mg_manifest g)"
  "mn_unverifiable (settle_support g) = mn_unverifiable (mg_manifest g)"
  "mn_moved (settle_support g) = mn_moved (mg_manifest g)"
  "mn_version (settle_support g) = mn_version (mg_manifest g)"
  by (simp_all add: settle_support_def Let_def)

lemma settle_subjects:
  assumes "gathered E g"
  shows "set (mn_subjects (settle_support g)) = ev_subjects (join_evidence E)"
    "mn_outcome (settle_support g) = (if ev_subjects (join_evidence E) = {} then [] else Method)"
proof -
  let ?w = "mg_manifest g"
  from assms have w: "set (mn_subjects ?w) = \<Union> (ev_subjects ` {e \<in> E. contributes e})"
    "mg_supported g \<longleftrightarrow> join_supported E" "mn_outcome ?w = []"
    unfolding gathered_def Let_def by - (elim conjE, assumption)+
  have s: "set (mn_subjects (settle_support g)) = (if mg_supported g then set (mn_subjects ?w) else {})"
    "mn_outcome (settle_support g) = (if mg_supported g \<and> set (mn_subjects ?w) \<noteq> {} then Method else [])"
    using w(3) by (simp_all add: settle_support_def Let_def)
  show "set (mn_subjects (settle_support g)) = ev_subjects (join_evidence E)"
    "mn_outcome (settle_support g) = (if ev_subjects (join_evidence E) = {} then [] else Method)"
    unfolding s w(1,2) by (auto simp: join_evidence_def)
qed

lemma gathered_join:
  assumes "gathered E g"
  shows "ei_name ` set (mn_env (settle_support g)) = ev_names (join_evidence E)"
    "path_ids (mn_paths (settle_support g)) = ev_paths (join_evidence E)"
    "bound_ids (mn_paths (settle_support g)) = ev_bound (join_evidence E)"
    "set (mn_unverifiable (settle_support g)) = ev_reasons (join_evidence E)"
    "mn_moved (settle_support g) = ev_moved (join_evidence E)"
    "set (mg_processes g) = ev_processes (join_evidence E)"
    "mn_version (settle_support g) = manifest_version"
  using assms unfolding gathered_def Let_def by (simp_all add: settle_fields join_evidence_def)

lemma gathered_erase:
  assumes g: "gathered E g" and h: "gathered F h" and j: "join_evidence E = join_evidence F"
  shows "erase (settle_support g) = erase (settle_support h)"
    "sort_key po_process (mg_processes g) = sort_key po_process (mg_processes h)"
proof -
  note G = gathered_join [OF g] settle_subjects [OF g] and H = gathered_join [OF h] settle_subjects [OF h]
  note dg = gatheredD(1,2) [OF g, folded settle_fields] and dh = gatheredD(1,2) [OF h, folded settle_fields]
  show "erase (settle_support g) = erase (settle_support h)"
  proof (rule erase_unique)
    show "(\<lambda>p. (pn_id p, pn_metadata p)) ` set (mn_paths (settle_support g))
        = (\<lambda>p. (pn_id p, pn_metadata p)) ` set (mn_paths (settle_support h))"
      unfolding path_classes [OF dg(2)] path_classes [OF dh(2)] G(2,3) H(2,3) j ..
  qed (use G H dg dh j distinct_path_keys in simp_all)
  show "sort_key po_process (mg_processes g) = sort_key po_process (mg_processes h)"
    by (rule sorted_keys_unique) (use gatheredD(3) [OF g] gatheredD(3) [OF h] G(6) H(6) j in simp_all)
qed

text \<open>Whether the merged manifest is valid does not depend on its entry digests.\<close>

lemma check_env_erased:
  assumes "map (ei_digest_update (\<lambda>_. [])) es = map (ei_digest_update (\<lambda>_. [])) fs"
    and "\<forall>e\<in>set es. valid_entry_digest (ei_digest e)" "\<forall>e\<in>set fs. valid_entry_digest (ei_digest e)"
    and "map_option ei_name p = map_option ei_name q"
  shows "first_error check_env p es = first_error check_env q fs"
  using assms
proof (induction es arbitrary: fs p q)
  case (Cons e es)
  then obtain f fs' where f: "fs = f # fs'" by (cases fs) auto
  with Cons.prems(1) have n: "ei_name e = ei_name f" by (cases e; cases f) simp
  with Cons.prems f have c: "check_env p e = check_env q f" by (auto simp: check_env_def)
  from Cons.prems f n have "first_error check_env (Some e) es = first_error check_env (Some f) fs'"
    by (intro Cons.IH) simp_all
  with c f show ?case by (simp split: option.split)
qed simp

lemma erased_path: "pn_digest_update (\<lambda>_. []) p = pn_digest_update (\<lambda>_. []) q \<Longrightarrow> pn_id p = pn_id q"
  by (cases p; cases q) simp

lemma check_path_erased:
  assumes "map (pn_digest_update (\<lambda>_. [])) es = map (pn_digest_update (\<lambda>_. [])) fs"
    and "\<forall>e\<in>set es. valid_entry_digest (pn_digest e)" "\<forall>e\<in>set fs. valid_entry_digest (pn_digest e)"
    and "map_option pn_id p = map_option pn_id q"
  shows "first_error check_path p es = first_error check_path q fs
    \<and> first_error (\<lambda>_ p. validate_path_id (pn_id p)) p es = first_error (\<lambda>_ p. validate_path_id (pn_id p)) q fs"
  using assms
proof (induction es arbitrary: fs p q)
  case (Cons e es)
  then obtain f fs' where f: "fs = f # fs'" by (cases fs) auto
  with Cons.prems(1) have n: "pn_id e = pn_id f" by (auto dest: erased_path)
  with Cons.prems f have c: "check_path p e = check_path q f" by (auto simp: check_path_def)
  from Cons.prems f n have "first_error check_path (Some e) es = first_error check_path (Some f) fs'
      \<and> first_error (\<lambda>_ p. validate_path_id (pn_id p)) (Some e) es
        = first_error (\<lambda>_ p. validate_path_id (pn_id p)) (Some f) fs'"
    by (intro Cons.IH) simp_all
  with c f n show ?case by (simp split: option.split)
qed simp

lemma sort_entries_set: "set (mn_env (sort_manifest m)) = set (mn_env m)" "set (mn_paths (sort_manifest m)) = set (mn_paths m)"
  by (simp_all add: sort_manifest_def)

lemma validate_erased:
  assumes e: "erase m = erase m'"
    and "\<forall>x\<in>set (mn_env m). valid_entry_digest (ei_digest x)" "\<forall>x\<in>set (mn_env m'). valid_entry_digest (ei_digest x)"
    and "\<forall>x\<in>set (mn_paths m). valid_entry_digest (pn_digest x)" "\<forall>x\<in>set (mn_paths m'). valid_entry_digest (pn_digest x)"
  shows "validate_manifest (sort_manifest m) = validate_manifest (sort_manifest m')"
proof -
  let ?s = "sort_manifest m" and ?t = "sort_manifest m'"
  have f: "mn_version ?s = mn_version ?t" "mn_outcome ?s = mn_outcome ?t" "mn_subjects ?s = mn_subjects ?t"
    "mn_unverifiable ?s = mn_unverifiable ?t"
    "map (ei_digest_update (\<lambda>_. [])) (mn_env ?s) = map (ei_digest_update (\<lambda>_. [])) (mn_env ?t)"
    "map (pn_digest_update (\<lambda>_. [])) (mn_paths ?s) = map (pn_digest_update (\<lambda>_. [])) (mn_paths ?t)"
    using arg_cong [OF e, of mn_version] arg_cong [OF e, of mn_outcome] arg_cong [OF e, of mn_subjects]
      arg_cong [OF e, of mn_unverifiable] arg_cong [OF e, of mn_env] arg_cong [OF e, of mn_paths]
    by (simp_all add: erase_fields, simp_all add: sort_manifest_def)
  have "first_error check_env None (mn_env ?s) = first_error check_env None (mn_env ?t)"
    by (rule check_env_erased [OF f(5)]) (use assms(2,3) in \<open>simp_all add: sort_entries_set\<close>)
  moreover have "first_error check_path None (mn_paths ?s) = first_error check_path None (mn_paths ?t)
      \<and> first_error (\<lambda>_ p. validate_path_id (pn_id p)) None (mn_paths ?s)
        = first_error (\<lambda>_ p. validate_path_id (pn_id p)) None (mn_paths ?t)"
    by (rule check_path_erased [OF f(6)]) (use assms(4,5) in \<open>simp_all add: sort_entries_set\<close>)
  moreover have "mn_paths ?s = [] \<longleftrightarrow> mn_paths ?t = []" using f(6) by (metis map_is_Nil_conv)
  ultimately show ?thesis by (simp add: validate_manifest_def f(1-4))
qed

section \<open>The merged state\<close>

lemma erase_sets:
  assumes "erase m = erase m'"
  shows "ei_name ` set (mn_env m) = ei_name ` set (mn_env m')"
    "(\<lambda>p. (pn_id p, pn_metadata p)) ` set (mn_paths m) = (\<lambda>p. (pn_id p, pn_metadata p)) ` set (mn_paths m')"
    "set (mn_subjects m) = set (mn_subjects m')" "set (mn_unverifiable m) = set (mn_unverifiable m')"
    "mn_moved m = mn_moved m'" "mn_outcome m = mn_outcome m'"
proof -
  have e: "ei_name ` set (mn_env (erase m)) = ei_name ` set (mn_env m)" for m
    by (simp add: erase_fields sort_entries_set image_image)
  have p: "(\<lambda>p. (pn_id p, pn_metadata p)) ` set (mn_paths (erase m)) = (\<lambda>p. (pn_id p, pn_metadata p)) ` set (mn_paths m)" for m
    by (simp add: erase_fields sort_entries_set image_image)
  have s: "set (mn_subjects (erase m)) = set (mn_subjects m)" "set (mn_unverifiable (erase m)) = set (mn_unverifiable m)" for m
    by (simp_all add: erase_fields, simp_all add: sort_manifest_def)
  show "ei_name ` set (mn_env m) = ei_name ` set (mn_env m')"
    "(\<lambda>p. (pn_id p, pn_metadata p)) ` set (mn_paths m) = (\<lambda>p. (pn_id p, pn_metadata p)) ` set (mn_paths m')"
    "set (mn_subjects m) = set (mn_subjects m')" "set (mn_unverifiable m) = set (mn_unverifiable m')"
    "mn_moved m = mn_moved m'" "mn_outcome m = mn_outcome m'"
    using assms e [of m] e [of m'] p [of m] p [of m'] s [of m] s [of m'] erase_fields(2,3) [of m] erase_fields(2,3) [of m']
    by simp_all
qed

lemma class_sets:
  assumes "(\<lambda>p. (pn_id p, pn_metadata p)) ` set ps = (\<lambda>p. (pn_id p, pn_metadata p)) ` set qs"
  shows "path_ids ps = path_ids qs" "bound_ids ps = bound_ids qs"
proof -
  have "path_ids ps = fst ` (\<lambda>p. (pn_id p, pn_metadata p)) ` set ps" for ps by (simp add: image_image)
  then show "path_ids ps = path_ids qs" using assms by simp
  have "bound_ids ps = fst ` {x \<in> (\<lambda>p. (pn_id p, pn_metadata p)) ` set ps. snd x}" for ps
    by (force simp: bound_ids_def)
  then show "bound_ids ps = bound_ids qs" using assms by simp
qed

lemma background_env: "evaluate_env P background k env es = evaluate_env P background j env es"
proof (induction es arbitrary: j k)
  case (Cons e es)
  then show ?case by (simp add: live_then_def background_def Cons [of "Suc k" "Suc j", unfolded background_def])
qed simp

lemma background_paths:
  "evaluate_paths root reader background k ps = evaluate_paths root reader background j ps"
proof (induction ps arbitrary: j k)
  case (Cons p ps)
  then show ?case by (simp add: live_then_def background_def Cons [of "Suc k" "Suc j", unfolded background_def])
qed (simp add: live_then_def background_def)

lemma background_state:
  "state_from_manifest P root reader background k env m = state_from_manifest P root reader background j env m"
  unfolding state_from_manifest_def populate_digests_def Let_def
  by (simp add: background_env [where k = k and j = j]
      background_paths [where k = "k + i" and j = "j + i" for i])

lemma decoded_nonempty: "decode_manifest s = Inr m \<Longrightarrow> s \<noteq> []"
proof
  have "decode_manifest [] = Inl NotManifestJson" by code_simp
  then show "decode_manifest s = Inr m \<Longrightarrow> s = [] \<Longrightarrow> False" by simp
qed

text \<open>An evaluated state carries the same identities, is complete and evaluates to itself.\<close>

lemma evaluated:
  assumes "distinct (map ei_name (mn_env m))" "distinct (map path_key (mn_paths m))"
    and "state_from_manifest P root reader background k env m = Inr st"
  shows "\<exists>m'. decode_manifest (rt_manifest st) = Inr m' \<and> erase m' = erase m" "complete_state st"
    "current_normalized P root reader background j env (rt_manifest st) = Inr st"
proof -
  let ?s = "sort_manifest m"
  have "erase ?s = erase m" by (simp add: erase_def)
  with assms(3) have "state_from_manifest P root reader background k env ?s = Inr st"
    using state_of_erased by metis
  then obtain m' u r where pop: "populate_digests P root reader background k env ?s = Inr (m', u, r)"
    and fin: "finalize_state m' u r = Inr st"
    by (auto simp: state_from_manifest_def bind_res_Inr_iff)
  have dk: "distinct (map ei_name (mn_env ?s))" "distinct (map path_key (mn_paths ?s))"
    using assms(1,2) by (simp_all add: sort_manifest_def distinct_map distinct_sort remdups_adj_distinct)
  from populated_distinct [OF pop dk] obtain qs where q: "list_all2 (path_read root reader) (mn_paths ?s) qs"
    and m': "m' = ?s\<lparr>mn_env := map (renewed P env) (mn_env ?s), mn_paths := qs\<rparr>" "sort_manifest m' = m'"
    by auto
  have "map (pn_digest_update (\<lambda>_. [])) qs = map (pn_digest_update (\<lambda>_. [])) (mn_paths ?s)"
    by (rule list_all2_keys [OF q]) (auto simp: path_read_def)
  then have e: "erase m' = erase m" by (intro sort_erased [OF m'(2,1)]) simp_all
  from fin m'(2) have st: "encode_manifest m' = Inr (rt_manifest st)" "rt_digest st = manifest_digest m'" "rt_ok st"
    by (auto simp: finalize_state_def Let_def bind_res_Inr_iff)
  have d: "decode_manifest (rt_manifest st) = Inr m'"
    using st(1) m'(2) decode_encoded [of m'] by (simp add: encode_manifest_ok)
  with e show "\<exists>m'. decode_manifest (rt_manifest st) = Inr m' \<and> erase m' = erase m" by blast
  from decoded_nonempty [OF d] st(2,3) show "complete_state st" by (simp add: complete_state_def manifest_digest_def)
  have "state_from_manifest P root reader background (Suc j) env m' = Inr st"
    using state_of_erased [OF e] assms(3) background_state by metis
  with d show "current_normalized P root reader background j env (rt_manifest st) = Inr st"
    by (simp add: current_normalized_def live_then_ok background_def [THEN fun_cong])
qed

section \<open>Merging\<close>

lemma merge_ok:
  assumes "merge_observations P root readers env obs = Inr r"
  shows "\<exists>n g st. normalize_environment P env = Inr n \<and> gathered (evidence_of ` set obs) g
    \<and> (\<forall>i<length obs. accepted_input P root (readers i) n (obs ! i))
    \<and> validate_manifest (sort_manifest (settle_support g)) = None
    \<and> state_from_manifest P root (readers (length obs)) background 0 n (settle_support g) = Inr st
    \<and> r = (seal_observation st (sort_key po_process (mg_processes g)) (mg_processes g = []))
        \<lparr>ob_attribution := merged_attribution obs st\<rparr>"
proof -
  have lift: "manifest_step x = Inr y \<longleftrightarrow> x = Inr y" for x :: "manifest_error + 'a" and y
    by (simp add: manifest_step_def split: sum.split)
  from assms obtain n g encoded st where n: "normalize_environment P env = Inr n"
    and g: "fold_res (merge_input P root readers n) (enumerate 0 obs) start_merge = Inr g"
    and e: "encode_manifest (settle_support g) = Inr encoded"
    and c: "current_normalized P root (readers (length obs)) background 0 n encoded = Inr st"
    and r: "r = (let records = sort_key po_process (mg_processes g) in
        (seal_observation st records (records = []))\<lparr>ob_attribution := merged_attribution obs st\<rparr>)"
    by (auto simp: merge_observations_def bind_res_Inr_iff lift Let_def)
  from merge_fold_ok [OF gathered_start g] have a: "\<forall>(i, ob)\<in>set (enumerate 0 obs). accepted_input P root (readers i) n ob"
    and ga: "gathered (evidence_of ` snd ` set (enumerate 0 obs)) g" by auto
  have "snd ` set (enumerate 0 obs) = set obs" by (metis map_snd_enumerate set_map)
  with ga have ga: "gathered (evidence_of ` set obs) g" by simp
  from a have a: "\<forall>i<length obs. accepted_input P root (readers i) n (obs ! i)"
    by (auto simp: in_set_enumerate_eq)
  from e have v: "validate_manifest (sort_manifest (settle_support g)) = None"
    "encoded = b64_encode (json_text (manifest_json (sort_manifest (settle_support g))))"
    by (auto simp: encode_manifest_ok)
  have "decode_manifest encoded = Inr (sort_manifest (settle_support g))"
    unfolding v(2) by (rule decode_encoded [OF sort_manifest_idem v(1)])
  with current_decodes [OF c]
  have "state_from_manifest P root (readers (length obs)) background (Suc 0) n (sort_manifest (settle_support g)) = Inr st"
    by simp
  moreover have "erase (sort_manifest (settle_support g)) = erase (settle_support g)" by (simp add: erase_def)
  ultimately have st: "state_from_manifest P root (readers (length obs)) background 0 n (settle_support g) = Inr st"
    using state_of_erased background_state by metis
  have "sort_key po_process (mg_processes g) = [] \<longleftrightarrow> mg_processes g = []"
    by (metis set_empty set_sort)
  with r have "r = (seal_observation st (sort_key po_process (mg_processes g)) (mg_processes g = []))
      \<lparr>ob_attribution := merged_attribution obs st\<rparr>" by (simp add: Let_def)
  with st n ga a v(1) show ?thesis by (intro exI [of _ n] exI [of _ g] exI [of _ st] conjI)
qed

text \<open>The same inputs, evaluated the same way, merge whatever their order and number.\<close>

lemma merge_succeeds:
  assumes "normalize_environment P env = Inr n" "\<forall>i<length obs. accepted_input P root (readers i) n (obs ! i)"
    and "gathered E g" "join_evidence E = join_evidence (evidence_of ` set obs)"
    and "validate_manifest (sort_manifest (settle_support g)) = None"
    and "state_from_manifest P root (readers (length obs)) background 0 n (settle_support g) = Inr st"
  shows "merge_observations P root readers env obs =
    Inr ((seal_observation st (sort_key po_process (mg_processes g)) (mg_processes g = []))
        \<lparr>ob_attribution := merged_attribution obs st\<rparr>)"
proof -
  let ?F = "evidence_of ` set obs"
  have sf: "snd ` set (enumerate 0 obs) = set obs" by (metis map_snd_enumerate set_map)
  have "\<Union> (ev_processes ` E) = \<Union> (ev_processes ` ?F)"
    using arg_cong [OF assms(4), of ev_processes] by (simp add: join_evidence_def)
  with gathered_inj [OF assms(3)] have "inj_on po_process (\<Union> (ev_processes ` ({} \<union> evidence_of ` snd ` set (enumerate 0 obs))))"
    by (simp add: sf)
  moreover have "\<forall>(i, ob)\<in>set (enumerate 0 obs). accepted_input P root (readers i) n ob"
    using assms(2) by (auto simp: in_set_enumerate_eq)
  ultimately obtain h where h: "fold_res (merge_input P root readers n) (enumerate 0 obs) start_merge = Inr h"
    using merge_fold_succeeds [OF gathered_start] by blast
  from merge_fold_ok [OF gathered_start h] have gh: "gathered ?F h" by (simp add: sf)
  note er = gathered_erase [OF assms(3) gh assms(4)]
  have "validate_manifest (sort_manifest (settle_support h)) = None"
    using validate_erased [OF er(1), unfolded settle_fields] gatheredD(5,6) [OF assms(3)] gatheredD(5,6) [OF gh] assms(5)
    by simp
  then have e: "encode_manifest (settle_support h)
      = Inr (b64_encode (json_text (manifest_json (sort_manifest (settle_support h)))))"
    and d: "decode_manifest (b64_encode (json_text (manifest_json (sort_manifest (settle_support h)))))
      = Inr (sort_manifest (settle_support h))"
    using decode_encoded [OF sort_manifest_idem] by (simp_all add: encode_manifest_ok)
  have "erase (sort_manifest (settle_support h)) = erase (settle_support g)" using er(1) by (simp add: erase_def)
  then have "state_from_manifest P root (readers (length obs)) background (Suc 0) n (sort_manifest (settle_support h)) = Inr st"
    using state_of_erased background_state assms(6) by metis
  with d have c: "current_normalized P root (readers (length obs)) background 0 n
      (b64_encode (json_text (manifest_json (sort_manifest (settle_support h))))) = Inr st"
    by (simp add: current_normalized_def live_then_ok background_def [THEN fun_cong])
  have "sort_key po_process (mg_processes g) = [] \<longleftrightarrow> mg_processes g = []"
    by (metis set_empty set_sort)
  with er(2) show ?thesis
    by (simp add: merge_observations_def assms(1) h e c manifest_step_def Let_def)
qed

lemma validated_processes:
  "validate_observation ob = None \<Longrightarrow> r \<in> set (ob_processes ob) \<Longrightarrow> line_text (po_process r) \<and> po_origin r \<noteq> [] \<and> po_view r \<noteq> []"
  by (auto simp: validate_observation_def split: if_splits)

lemma sealed_valid:
  assumes "complete_state st" "\<forall>r\<in>set records. line_text (po_process r) \<and> po_origin r \<noteq> [] \<and> po_view r \<noteq> []"
  shows "validate_observation ((seal_observation st records (records = []))\<lparr>ob_attribution := a\<rparr>) = None"
  using assms by (auto simp: validate_observation_def seal_observation_def resealed_def)

text \<open>The evidence of a merge, and that it can be merged again as it stands.\<close>

lemma merge_evidence:
  assumes "merge_observations P root readers env obs = Inr r" "normalize_environment P env = Inr n"
  shows "validate_observation r = None" "evidence_of r = join_evidence (evidence_of ` set obs)"
    "accepted_input P root (readers (length obs)) n r"
proof -
  from merge_ok [OF assms(1)] assms(2) obtain g st where g: "gathered (evidence_of ` set obs) g"
    and a: "\<forall>i<length obs. accepted_input P root (readers i) n (obs ! i)"
    and v: "validate_manifest (sort_manifest (settle_support g)) = None"
    and st: "state_from_manifest P root (readers (length obs)) background 0 n (settle_support g) = Inr st"
    and r: "r = (seal_observation st (sort_key po_process (mg_processes g)) (mg_processes g = []))
        \<lparr>ob_attribution := merged_attribution obs st\<rparr>"
    by auto
  have dk: "distinct (map ei_name (mn_env (settle_support g)))" "distinct (map path_key (mn_paths (settle_support g)))"
    using gatheredD(1,2) [OF g] distinct_path_keys by (simp_all add: settle_fields)
  note ev = evaluated [OF dk st]
  from ev(1) obtain m' where m': "decode_manifest (rt_manifest st) = Inr m'" "erase m' = erase (settle_support g)" by blast
  have rec: "recorded r = m'" using m'(1) by (simp add: recorded_def r seal_observation_def)
  have pr: "set (ob_processes r) = \<Union> (ev_processes ` evidence_of ` set obs)"
    using gatheredD(4) [OF g] by (simp add: r seal_observation_def)
  note es = erase_sets [OF m'(2)] class_sets [OF erase_sets(2) [OF m'(2)]]
  show "evidence_of r = join_evidence (evidence_of ` set obs)"
    unfolding evidence_of_def [of r] Let_def rec es pr gathered_join [OF g] settle_subjects [OF g]
    by (simp add: join_evidence_def)
  have "line_text (po_process x) \<and> po_origin x \<noteq> [] \<and> po_view x \<noteq> []" if x: "x \<in> set (ob_processes r)" for x
  proof -
    from x pr obtain ob where ob: "ob \<in> set obs" "x \<in> set (ob_processes ob)"
      by (auto simp: evidence_of_def Let_def)
    from ob(1) a have "validate_observation ob = None" by (auto simp: in_set_conv_nth accepted_input_def)
    from validated_processes [OF this ob(2)] show ?thesis .
  qed
  then have p: "\<forall>x\<in>set (sort_key po_process (mg_processes g)). line_text (po_process x) \<and> po_origin x \<noteq> [] \<and> po_view x \<noteq> []"
    by (simp add: r seal_observation_def)
  have z: "(mg_processes g = []) = (sort_key po_process (mg_processes g) = [])" by (metis set_empty set_sort)
  show val: "validate_observation r = None" unfolding r z by (rule sealed_valid [OF ev(2) p])
  have "ob_state r = st" by (simp add: r seal_observation_def)
  with val ev(3) show "accepted_input P root (readers (length obs)) n r" by (simp add: accepted_input_def)
qed

text \<open>Everything but the attribution, which no seal covers.\<close>

abbreviation unattributed :: "observation \<Rightarrow> observation" where
  "unattributed ob \<equiv> ob\<lparr>ob_attribution := []\<rparr>"

lemma merge_agrees:
  assumes r: "merge_observations P root (\<lambda>_. reader) env obs = Inr r" and n: "normalize_environment P env = Inr n"
    and a: "\<forall>ob\<in>set obs2. accepted_input P root reader n ob"
    and j: "join_evidence (evidence_of ` set obs) = join_evidence (evidence_of ` set obs2)"
  shows "\<exists>r2. merge_observations P root (\<lambda>_. reader) env obs2 = Inr r2 \<and> unattributed r2 = unattributed r"
proof -
  from merge_ok [OF r] n obtain g st where g: "gathered (evidence_of ` set obs) g"
    and v: "validate_manifest (sort_manifest (settle_support g)) = None"
    and st: "state_from_manifest P root reader background 0 n (settle_support g) = Inr st"
    and req: "r = (seal_observation st (sort_key po_process (mg_processes g)) (mg_processes g = []))
        \<lparr>ob_attribution := merged_attribution obs st\<rparr>" by auto
  have a: "\<forall>i<length obs2. accepted_input P root reader n (obs2 ! i)" using a by simp
  from merge_succeeds [where readers = "\<lambda>_. reader", OF n a g j v st] req show ?thesis by simp
qed

lemma merge_inputs:
  assumes "merge_observations P root (\<lambda>_. reader) env obs = Inr r"
  obtains n where "normalize_environment P env = Inr n" "\<forall>ob\<in>set obs. accepted_input P root reader n ob"
  using merge_ok [OF assms] by (auto simp: all_set_conv_all_nth)

lemma join_nested:
  "join_evidence (insert (join_evidence A) B) = join_evidence (A \<union> B)"
proof -
  let ?j = "join_evidence A"
  have c: "contributes ?j \<longleftrightarrow> (\<exists>a\<in>A. contributes a)" by (auto simp: contributes_def join_evidence_def)
  have s: "ev_subjects ?j = (if join_supported A then \<Union> (ev_subjects ` {e \<in> A. contributes e}) else {})"
    by (simp add: join_evidence_def)
  have "contributes ?j \<Longrightarrow> ev_subjects ?j \<noteq> {} \<longleftrightarrow> join_supported A"
    unfolding c s by (auto simp: join_supported_def)
  moreover have "\<not> contributes ?j \<Longrightarrow> join_supported A" unfolding c by (auto simp: join_supported_def)
  ultimately have sup: "join_supported (insert ?j B) \<longleftrightarrow> join_supported (A \<union> B)"
    by (auto simp: join_supported_def)
  have "join_supported (A \<union> B) \<Longrightarrow> \<Union> (ev_subjects ` {e \<in> insert ?j B. contributes e})
      = \<Union> (ev_subjects ` {e \<in> A \<union> B. contributes e})"
  proof -
    assume ab: "join_supported (A \<union> B)"
    then have "join_supported A" by (simp add: join_supported_def)
    then have s: "ev_subjects ?j = \<Union> (ev_subjects ` {e \<in> A. contributes e})" by (simp add: s)
    show ?thesis
    proof (cases "contributes ?j")
      case True
      then have "{e \<in> insert ?j B. contributes e} = insert ?j {e \<in> B. contributes e}" by auto
      then show ?thesis by (simp add: s Collect_disj_eq conj_disj_distribR)
    next
      case False
      then have "{e \<in> insert ?j B. contributes e} = {e \<in> B. contributes e}"
        "{e \<in> A \<union> B. contributes e} = {e \<in> B. contributes e}" using c by auto
      then show ?thesis by simp
    qed
  qed
  with sup show ?thesis
    by (simp add: join_evidence_def [of "insert ?j B"] join_evidence_def [of "A \<union> B"])
      (simp add: join_evidence_def bex_Un)
qed

section \<open>Properties\<close>

text \<open>C35: A merge is the union of its inputs: when it succeeds, the result is a valid sealed
  observation whose evidence is the join of the inputs' evidence. No environment name, path,
  metadata binding, unverifiable clause, producing motion or contributing process is lost or
  made up, and outcome support survives exactly when every contributing input has it.\<close>

theorem merge_joins_evidence:
  assumes "merge_observations P root readers env obs = Inr r"
  shows "validate_observation r = None \<and> evidence_of r = join_evidence (evidence_of ` set obs)"
proof -
  from merge_ok [OF assms] obtain n where "normalize_environment P env = Inr n" by blast
  from merge_evidence(1,2) [OF assms this] show ?thesis by blast
qed

text \<open>Two killed processes, whose observations merge.\<close>

abbreviation sample_platform :: platform where
  "sample_platform \<equiv> \<lparr>windows = False, to_upper = id, fold_eq = (=)\<rparr>"

definition reason_state :: "string \<Rightarrow> rt_state" where
  "reason_state r = \<lparr>rt_manifest = b64_encode (json_text (manifest_json (reason_manifest r))),
     rt_digest = manifest_digest (reason_manifest r), rt_bracket_moved = False, rt_unverifiable = True,
     rt_reason = r, rt_ok = True\<rparr>"

lemma reason_valid:
  "sort_manifest (reason_manifest r) = reason_manifest r"
  "line_text r \<Longrightarrow> validate_manifest (reason_manifest r) = None"
  by (simp_all add: reason_manifest_def sort_manifest_def empty_manifest_def validate_manifest_def
      manifest_version_def)

lemma reason_evaluates:
  assumes "line_text r"
  shows "decode_manifest (rt_manifest (reason_state r)) = Inr (reason_manifest r)"
    "current_normalized P root reader background k n (rt_manifest (reason_state r)) = Inr (reason_state r)"
proof -
  note v = reason_valid(1) reason_valid(2) [OF assms]
  show d: "decode_manifest (rt_manifest (reason_state r)) = Inr (reason_manifest r)"
    using decode_encoded [OF v] by (simp add: reason_state_def)
  have f: "mn_env (reason_manifest r) = []" "mn_paths (reason_manifest r) = []" "mn_moved (reason_manifest r) = False"
    "mn_unverifiable (reason_manifest r) = [r]"
    by (simp_all add: reason_manifest_def empty_manifest_def)
  then have "populate_digests P root reader background (Suc k) n (reason_manifest r) = Inr (reason_manifest r, False, [])"
    by (simp add: populate_digests_def Let_def v(1) live_then_def background_def)
  moreover have "finalize_state (reason_manifest r) False [] = Inr (reason_state r)"
    using v f assms by (simp add: finalize_state_def encode_manifest_def reason_state_def first_reason_def line_text_def Let_def)
  ultimately show "current_normalized P root reader background k n (rt_manifest (reason_state r)) = Inr (reason_state r)"
    using d by (simp add: current_normalized_def state_from_manifest_def live_then_ok background_def)
qed

definition killed :: "string \<Rightarrow> string \<Rightarrow> observation" where
  "killed process reason = new_observation (reason_state reason) process ''incomplete''"

lemma killed_accepted:
  assumes "line_text process" "line_text reason"
  shows "accepted_input P root reader n (killed process reason)" "recorded (killed process reason) = reason_manifest reason"
proof -
  have "complete_state (reason_state reason)"
    using decoded_nonempty [OF reason_evaluates(1) [OF assms(2)]]
    by (simp add: complete_state_def) (simp add: reason_state_def manifest_digest_def)
  then show "accepted_input P root reader n (killed process reason)"
    using reason_evaluates(2) [OF assms(2), of P root reader 0 n] assms(1)
    by (simp add: accepted_input_def killed_def new_observation_def Let_def seal_observation_def
        validate_observation_def resealed_def process_origin_def)
  show "recorded (killed process reason) = reason_manifest reason"
    using reason_evaluates(1) [OF assms(2)]
    by (simp add: recorded_def killed_def new_observation_def Let_def seal_observation_def)
qed

lemma killed_evidence:
  assumes "line_text process" "line_text reason"
  shows "ev_reasons (evidence_of (killed process reason)) = {reason}"
    "evidence_of (killed process reason) = \<lparr>ev_names = {}, ev_paths = {}, ev_bound = {}, ev_reasons = {reason},
       ev_moved = False, ev_subjects = {}, ev_processes = set (ob_processes (killed process reason))\<rparr>"
  unfolding evidence_of_def Let_def killed_accepted(2) [OF assms]
  by (simp_all add: reason_manifest_def empty_manifest_def bound_ids_def)

definition killed_pair :: "observation list" where
  "killed_pair = [killed ''p1'' ''exit 9'', killed ''p2'' ''timeout'']"

lemma line_texts: "line_text ''p1''" "line_text ''p2''" "line_text ''exit 9''" "line_text ''timeout''"
  by code_simp+

lemma killed_pair_merges:
  "\<exists>r. merge_observations sample_platform root (\<lambda>_. reader) [] killed_pair = Inr r"
proof -
  let ?a = "killed ''p1'' ''exit 9''" and ?b = "killed ''p2'' ''timeout''"
  let ?m = "(reason_manifest ''exit 9'')\<lparr>mn_unverifiable := [''exit 9'', ''timeout'']\<rparr>"
  let ?g = "\<lparr>mg_manifest = ?m, mg_supported = False, mg_processes = ob_processes ?a @ ob_processes ?b\<rparr>"
  note ev = killed_evidence(2) [OF line_texts(1,3)] killed_evidence(2) [OF line_texts(2,4)]
  have p: "ob_processes ?a \<noteq> []" "ob_processes ?b \<noteq> []" "map po_process (ob_processes ?a @ ob_processes ?b) = [''p1'', ''p2'']"
    by (simp_all add: killed_def new_observation_def Let_def seal_observation_def)
  have g: "gathered (evidence_of ` set killed_pair) ?g"
    using p by (simp add: gathered_def killed_pair_def ev join_supported_def contributes_def)
      (auto simp: reason_manifest_def empty_manifest_def bound_ids_def)
  have s: "settle_support ?g = ?m"
    by (simp add: settle_support_def) (simp add: reason_manifest_def empty_manifest_def)
  have v: "sort_manifest ?m = ?m" "validate_manifest ?m = None"
    using line_texts by (simp_all add: reason_manifest_def empty_manifest_def sort_manifest_def validate_manifest_def
        manifest_version_def)
  have "populate_digests sample_platform root reader background 0 [] ?m = Inr (?m, False, [])"
    by (simp add: populate_digests_def Let_def v(1) live_then_def background_def)
      (simp add: reason_manifest_def empty_manifest_def live_then_def)
  then obtain st where st: "state_from_manifest sample_platform root reader background 0 [] ?m = Inr st"
    using v by (simp add: state_from_manifest_def finalize_state_def encode_manifest_def Let_def)
  have n: "normalize_environment sample_platform [] = Inr []"
    by code_simp
  show ?thesis
    by (rule exI, rule merge_succeeds [OF n _ g refl, unfolded s v(1), OF _ v(2) st])
      (simp add: killed_pair_def nth_Cons' killed_accepted line_texts)
qed

definition no_reader :: path_reader where "no_reader = (\<lambda>_ _ _. Inr ([], False, []))"

theorem merge_joins_evidence_witness:
  "\<exists>r. ev_reasons (evidence_of r) = {''exit 9'', ''timeout''} \<and> validate_observation r = None"
proof -
  obtain r where r: "merge_observations sample_platform ''/w'' (\<lambda>_. no_reader) [] killed_pair = Inr r"
    using killed_pair_merges by blast
  from merge_joins_evidence [OF r] killed_evidence(1) [OF line_texts(1,3)] killed_evidence(1) [OF line_texts(2,4)]
  show ?thesis by (intro exI [of _ r]) (auto simp: killed_pair_def join_evidence_def)
qed

text \<open>C36: A merge does not depend on the order of its inputs or on repetitions among them: over
  one module view, lists of the same observations merge to the same state, processes and seal,
  or both refuse.\<close>

theorem merge_order_irrelevant:
  assumes "merge_observations P root (\<lambda>_. reader) env obs = Inr r" "set obs2 = set obs"
  shows "\<exists>r2. merge_observations P root (\<lambda>_. reader) env obs2 = Inr r2 \<and> unattributed r2 = unattributed r"
proof -
  from merge_inputs [OF assms(1)] obtain n where n: "normalize_environment P env = Inr n"
    "\<forall>ob\<in>set obs. accepted_input P root reader n ob" .
  from merge_agrees [OF assms(1) n(1), of obs2] n(2) assms(2) show ?thesis by simp
qed

theorem merge_order_irrelevant_witness:
  "\<exists>r r2. merge_observations sample_platform ''/w'' (\<lambda>_. no_reader) [] killed_pair = Inr r
     \<and> merge_observations sample_platform ''/w'' (\<lambda>_. no_reader) [] (rev killed_pair @ killed_pair) = Inr r2
     \<and> ob_seal r2 = ob_seal r"
proof -
  obtain r where r: "merge_observations sample_platform ''/w'' (\<lambda>_. no_reader) [] killed_pair = Inr r"
    using killed_pair_merges by blast
  from merge_order_irrelevant [OF r, of "rev killed_pair @ killed_pair"] obtain r2 where
    r2: "merge_observations sample_platform ''/w'' (\<lambda>_. no_reader) [] (rev killed_pair @ killed_pair) = Inr r2"
      "unattributed r2 = unattributed r" by auto
  from arg_cong [OF r2(2), of ob_seal] have "ob_seal r2 = ob_seal r" by simp
  with r r2(1) show ?thesis by blast
qed

text \<open>Merging in two steps is merging at once: a merge result is itself accepted as an input,
  and merged with further observations it gives what merging everything together gives.\<close>

theorem merge_nests:
  assumes "merge_observations P root (\<lambda>_. reader) env xs = Inr q"
  shows "(\<exists>r. merge_observations P root (\<lambda>_. reader) env (q # ys) = Inr r \<and> unattributed r = u)
    \<longleftrightarrow> (\<exists>r. merge_observations P root (\<lambda>_. reader) env (xs @ ys) = Inr r \<and> unattributed r = u)"
proof -
  from merge_inputs [OF assms] obtain n where n: "normalize_environment P env = Inr n"
    "\<forall>ob\<in>set xs. accepted_input P root reader n ob" .
  note ev = merge_evidence [OF assms n(1)]
  have j: "join_evidence (evidence_of ` set (q # ys)) = join_evidence (evidence_of ` set (xs @ ys))"
    by (simp add: ev(2) join_nested image_Un)
  show ?thesis
  proof
    assume "\<exists>r. merge_observations P root (\<lambda>_. reader) env (q # ys) = Inr r \<and> unattributed r = u"
    then obtain r where r: "merge_observations P root (\<lambda>_. reader) env (q # ys) = Inr r" "unattributed r = u" by blast
    from merge_inputs [OF r(1)] n(1) have "\<forall>ob\<in>set ys. accepted_input P root reader n ob" by auto
    with n(2) have "\<forall>ob\<in>set (xs @ ys). accepted_input P root reader n ob" by auto
    from merge_agrees [OF r(1) n(1) this j] r(2)
    show "\<exists>r. merge_observations P root (\<lambda>_. reader) env (xs @ ys) = Inr r \<and> unattributed r = u" by auto
  next
    assume "\<exists>r. merge_observations P root (\<lambda>_. reader) env (xs @ ys) = Inr r \<and> unattributed r = u"
    then obtain r where r: "merge_observations P root (\<lambda>_. reader) env (xs @ ys) = Inr r" "unattributed r = u" by blast
    from merge_inputs [OF r(1)] n(1) have "\<forall>ob\<in>set (xs @ ys). accepted_input P root reader n ob" by auto
    with ev(3) have "\<forall>ob\<in>set (q # ys). accepted_input P root reader n ob" by auto
    from merge_agrees [OF r(1) n(1) this j [symmetric]] r(2)
    show "\<exists>r. merge_observations P root (\<lambda>_. reader) env (q # ys) = Inr r \<and> unattributed r = u" by auto
  qed
qed

theorem merge_nests_witness:
  "\<exists>q r. merge_observations sample_platform ''/w'' (\<lambda>_. no_reader) [] killed_pair = Inr q
     \<and> merge_observations sample_platform ''/w'' (\<lambda>_. no_reader) [] [q] = Inr r \<and> ob_state r = ob_state q"
proof -
  obtain q where q: "merge_observations sample_platform ''/w'' (\<lambda>_. no_reader) [] killed_pair = Inr q"
    using killed_pair_merges by blast
  from merge_nests [OF q, of "[]" "unattributed q"] q obtain r where
    r: "merge_observations sample_platform ''/w'' (\<lambda>_. no_reader) [] [q] = Inr r" "unattributed r = unattributed q" by auto
  from arg_cong [OF r(2), of ob_state] have "ob_state r = ob_state q" by simp
  with q r(1) show ?thesis by blast
qed

text \<open>C37: Persisting and adopting: the manifest of a merged observation, adopted under the same
  view, is re-admitted with exactly the merged state, under the adopting process alone.\<close>

theorem adoption_restores_state:
  assumes "merge_observations P root (\<lambda>_. reader) env obs = Inr r" "line_text process"
  shows "\<exists>ob. adopt_observation P root reader reader2 (rt_manifest (ob_state r)) process env = Inr ob
    \<and> completed_input_state ob = Inr (ob_state r) \<and> map po_process (ob_processes ob) = [process]"
proof -
  from merge_inputs [OF assms(1)] obtain n where n: "normalize_environment P env = Inr n" by blast
  from merge_evidence(3) [OF assms(1) n] have c: "complete_state (ob_state r)"
    "current_normalized P root reader background 0 n (rt_manifest (ob_state r)) = Inr (ob_state r)"
    using validated_complete by (auto simp: accepted_input_def)
  with n assms(2) show ?thesis
    by (simp add: adopt_observation_def manifest_step_def new_observation_def Let_def completed_input_state_def
        validate_observation_def seal_observation_def resealed_def process_origin_def)
qed

theorem adoption_restores_state_witness:
  "\<exists>r ob. merge_observations sample_platform ''/w'' (\<lambda>_. no_reader) [] killed_pair = Inr r
     \<and> adopt_observation sample_platform ''/w'' no_reader no_reader (rt_manifest (ob_state r)) ''cache'' [] = Inr ob
     \<and> completed_input_state ob = Inr (ob_state r)"
proof -
  have l: "line_text ''cache''" by code_simp
  obtain r where r: "merge_observations sample_platform ''/w'' (\<lambda>_. no_reader) [] killed_pair = Inr r"
    using killed_pair_merges by blast
  from adoption_restores_state [OF r l, of no_reader] r show ?thesis by blast
qed

end
