(* ===== verification/Go_Quote.thy ===== *)
theory Go_Quote
  imports Json_Text
begin

text \<open>
  Go string literals as strconv writes and reads them, for the attribution grammar of
  runtimeinput/attribution.go: Quote, and the one reading that Unquote and QuotedPrefix share.
  strconv.IsPrint, a Unicode table, is a parameter. The lemmas show that a quoted text is read
  back whatever follows it, and that inside any double-quoted literal a quote is escaped.
\<close>

section \<open>Writing\<close>

type_synonym printable_runes = "nat \<Rightarrow> bool"

definition squote :: char where "squote = CHR 0x27"
definition backquote :: char where "backquote = CHR 0x60"

text \<open>The rune of one well-formed encoding.\<close>

fun rune_value :: "nat list \<Rightarrow> nat" where
  "rune_value [a] = a"
| "rune_value [a, b] = (a - 0xC0) * 64 + (b - 0x80)"
| "rune_value [a, b, c] = ((a - 0xE0) * 64 + (b - 0x80)) * 64 + (c - 0x80)"
| "rune_value [a, b, c, d] = (((a - 0xF0) * 64 + (b - 0x80)) * 64 + (c - 0x80)) * 64 + (d - 0x80)"
| "rune_value _ = 0"

fun hex_digits :: "nat \<Rightarrow> nat \<Rightarrow> string" where
  "hex_digits 0 n = []"
| "hex_digits (Suc k) n = hex_digits k (n div 16) @ [hex_digit (n mod 16)]"

text \<open>appendEscapedRune, with the double quote.\<close>

definition escape_rune :: "printable_runes \<Rightarrow> string \<Rightarrow> string" where
  "escape_rune ip ch = (let r = rune_value (map byte_of ch) in
     if r = 0x22 \<or> r = 0x5C then backslash # ch
     else if ip r then ch
     else if r = 7 then [backslash, CHR ''a'']
     else if r = 8 then [backslash, CHR ''b'']
     else if r = 12 then [backslash, CHR ''f'']
     else if r = 10 then [backslash, CHR ''n'']
     else if r = 13 then [backslash, CHR ''r'']
     else if r = 9 then [backslash, CHR ''t'']
     else if r = 11 then [backslash, CHR ''v'']
     else if r < 0x20 \<or> r = 0x7F then backslash # CHR ''x'' # hex_digits 2 r
     else if r < 0x10000 then backslash # CHR ''u'' # hex_digits 4 r
     else backslash # CHR ''U'' # hex_digits 8 r)"

function quote_runes :: "printable_runes \<Rightarrow> string \<Rightarrow> string" where
  "quote_runes ip [] = []"
| "quote_runes ip (c # cs) = (case utf8_size (map byte_of (c # cs)) of
      0 \<Rightarrow> backslash # CHR ''x'' # hex_digits 2 (byte_of c) @ quote_runes ip cs
    | Suc n \<Rightarrow> escape_rune ip (c # take n cs) @ quote_runes ip (drop n cs))"
  by pat_completeness auto

termination by (relation "measure (length \<circ> snd)") auto

declare quote_runes.simps(2) [simp del]

definition go_quote :: "printable_runes \<Rightarrow> string \<Rightarrow> string" where
  "go_quote ip s = quote # quote_runes ip s @ [quote]"

text \<open>What the sources rely on of strconv.IsPrint: a newline is not printable.\<close>

definition print_law :: "printable_runes \<Rightarrow> bool" where
  "print_law ip \<longleftrightarrow> \<not> ip 10"

section \<open>Reading\<close>

fun read_hex :: "nat \<Rightarrow> nat \<Rightarrow> string \<Rightarrow> (nat \<times> string) option" where
  "read_hex 0 v s = Some (v, s)"
| "read_hex (Suc n) v [] = None"
| "read_hex (Suc n) v (c # s) = (case hex_nat c of None \<Rightarrow> None | Some d \<Rightarrow> read_hex n (16 * v + d) s)"

definition valid_rune :: "nat \<Rightarrow> bool" where
  "valid_rune n \<longleftrightarrow> \<not> surrogate n \<and> n \<le> 0x10FFFF"

definition octal_digit :: "char \<Rightarrow> bool" where
  "octal_digit c \<longleftrightarrow> 48 \<le> byte_of c \<and> byte_of c \<le> 55"

definition simple_escapes :: "(char \<times> nat) list" where
  "simple_escapes = [(CHR ''a'', 7), (CHR ''b'', 8), (CHR ''f'', 12), (CHR ''n'', 10), (CHR ''r'', 13),
     (CHR ''t'', 9), (CHR ''v'', 11)]"

definition read_rune :: "nat \<Rightarrow> string \<Rightarrow> (string \<times> string) option" where
  "read_rune n s = (case read_hex n 0 s of None \<Rightarrow> None
     | Some (v, r) \<Rightarrow> if valid_rune v then Some (rune_bytes v, r) else None)"

text \<open>UnquoteChar after its backslash: the bytes meant, and the rest.\<close>

definition unquote_escape :: "char \<Rightarrow> char \<Rightarrow> string \<Rightarrow> (string \<times> string) option" where
  "unquote_escape q e s = (case map_of simple_escapes e of Some b \<Rightarrow> Some ([char_of b], s)
    | None \<Rightarrow>
      if e = CHR ''x'' then map_option (\<lambda>(v, r). ([char_of v], r)) (read_hex 2 0 s)
      else if e = CHR ''u'' then read_rune 4 s
      else if e = CHR ''U'' then read_rune 8 s
      else if octal_digit e then (case s of
          a # b # r \<Rightarrow> (let v = (byte_of e - 48) * 64 + (byte_of a - 48) * 8 + (byte_of b - 48) in
            if octal_digit a \<and> octal_digit b \<and> v \<le> 255 then Some ([char_of v], r) else None)
        | _ \<Rightarrow> None)
      else if e = backslash then Some ([backslash], s)
      else if (e = squote \<or> e = quote) \<and> e = q then Some ([e], s)
      else None)"

definition unquote_char :: "char \<Rightarrow> string \<Rightarrow> (string \<times> string) option" where
  "unquote_char q s = (case s of [] \<Rightarrow> None
    | c # cs \<Rightarrow>
      if c = q \<and> (q = squote \<or> q = quote) then None
      else if 0x80 \<le> byte_of c then (case utf8_size (map byte_of s) of
          0 \<Rightarrow> Some (replacement, cs)
        | Suc n \<Rightarrow> Some (rune_bytes (rune_value (map byte_of (c # take n cs))), drop n cs))
      else if c \<noteq> backslash then Some ([c], cs)
      else (case cs of [] \<Rightarrow> None | e # r \<Rightarrow> unquote_escape q e r))"

lemma read_hex_shorter: "read_hex n v s = Some (w, r) \<Longrightarrow> length r + n = length s"
  by (induction n v s rule: read_hex.induct) (auto split: option.splits)

lemma unquote_char_shorter: "unquote_char q s = Some (b, r) \<Longrightarrow> length r < length s"
proof (cases s)
  case (Cons c cs)
  have e: "unquote_escape q e u = Some (b, r) \<Longrightarrow> length r \<le> length u" for e u
    by (auto simp: unquote_escape_def read_rune_def Let_def dest!: read_hex_shorter
        split: option.splits if_splits list.splits)
  assume "unquote_char q s = Some (b, r)"
  with Cons show ?thesis
    by (auto simp: unquote_char_def less_Suc_eq_le dest!: e simp del: utf8_size.simps
        split: if_splits nat.splits list.splits)
qed (simp add: unquote_char_def)

text \<open>The rest of a literal after its opening quote: its content, and what follows.\<close>

function unquote_body :: "char \<Rightarrow> string \<Rightarrow> (string \<times> string) option" where
  "unquote_body q s = (case s of [] \<Rightarrow> None
    | c # cs \<Rightarrow>
      if c = q then Some ([], cs)
      else if c = newline then None
      else (case unquote_char q s of None \<Rightarrow> None
        | Some (b, r) \<Rightarrow>
          if q = squote then (case r of [] \<Rightarrow> None | d # t \<Rightarrow> if d = q then Some (b, t) else None)
          else map_option (map_prod ((@) b) id) (unquote_body q r)))"
  by pat_completeness auto

termination by (relation "measure (length \<circ> snd)") (auto dest: unquote_char_shorter)

declare unquote_body.simps [simp del]

text \<open>The literal at the head of a text, its content, and the rest.\<close>

definition go_unquote :: "string \<Rightarrow> (string \<times> string \<times> string) option" where
  "go_unquote s = (case s of [] \<Rightarrow> None
    | q # s1 \<Rightarrow>
      if q = backquote then (case index_byte backquote s1 of None \<Rightarrow> None
        | Some i \<Rightarrow> Some (take (i + 2) s, filter (\<lambda>c. c \<noteq> CHR 0x0D) (take i s1), drop (i + 1) s1))
      else if q = quote \<or> q = squote then (case unquote_body q s1 of None \<Rightarrow> None
        | Some (content, rest) \<Rightarrow> Some (take (length s - length rest) s, content, rest))
      else None)"

definition quoted_prefix :: "string \<Rightarrow> string option" where
  "quoted_prefix s = map_option fst (go_unquote s)"

definition unquote_all :: "string \<Rightarrow> string option" where
  "unquote_all s = (case go_unquote s of Some (_, content, []) \<Rightarrow> Some content | _ \<Rightarrow> None)"

section \<open>Runes\<close>

lemma sextet_parts: "y < 64 \<Longrightarrow> (x * 64 + y) div 64 = x" "y < 64 \<Longrightarrow> (x * 64 + y) mod 64 = y"
  "v div 4096 = v div 64 div 64" "v div 262144 = v div 64 div 64 div 64" for v x y :: nat
  by (simp_all flip: div_mult2_eq)

lemma rune_bytes_value:
  assumes "rune_chunk ch"
  shows "rune_bytes (rune_value (map byte_of ch)) = ch" "valid_rune (rune_value (map byte_of ch))"
    "byte_of (hd ch) < 0x80 \<longleftrightarrow> rune_value (map byte_of ch) < 0x80"
    "byte_of (hd ch) < 0x80 \<Longrightarrow> ch = [hd ch] \<and> rune_value (map byte_of ch) = byte_of (hd ch)"
proof -
  obtain a as where ch: "ch = a # as" using assms by (cases ch) (auto simp: rune_chunk_def)
  have "length as \<le> 3" using rune_chunk_length [of a as] assms ch by (auto simp: lead_len_def split: if_splits)
  then consider "as = []" | b where "as = [b]" | b c where "as = [b, c]" | b c d where "as = [b, c, d]"
    by (cases as; cases "tl as"; cases "tl (tl as)"; cases "tl (tl (tl as))") auto
  then have "rune_bytes (rune_value (map byte_of ch)) = ch \<and> valid_rune (rune_value (map byte_of ch))
    \<and> (byte_of (hd ch) < 0x80 \<longleftrightarrow> rune_value (map byte_of ch) < 0x80)
    \<and> (byte_of (hd ch) < 0x80 \<longrightarrow> ch = [hd ch] \<and> rune_value (map byte_of ch) = byte_of (hd ch))"
  proof cases
    case 1
    with assms ch have "byte_of a < 0x80" by (auto simp: rune_chunk_def split: if_splits)
    with 1 ch show ?thesis by (simp add: rune_bytes_def valid_rune_def surrogate_def)
  next
    case (2 b)
    with assms ch have "0xC2 \<le> byte_of a" "byte_of a \<le> 0xDF" "continuation (byte_of b)"
      by (auto simp: rune_chunk_def split: if_splits)
    then have "byte_of a = (byte_of a - 0xC0) + 0xC0" "2 \<le> byte_of a - 0xC0" "byte_of a - 0xC0 < 32"
      "byte_of b = (byte_of b - 0x80) + 0x80" "byte_of b - 0x80 < 64"
      by (auto simp: continuation_def)
    then obtain x y where b: "byte_of a = x + 0xC0" "2 \<le> x" "x < 32" "byte_of b = y + 0x80" "y < 64" by blast
    then have c: "char_of (192 + x) = a" "char_of (128 + y) = b"
      by (metis add.commute char_of_char)+
    have v: "rune_value (map byte_of ch) = x * 64 + y" by (simp add: ch 2 b)
    from b have r: "\<not> x * 64 + y < 0x80" "x * 64 + y < 0x800" by auto
    have "(x * 64 + y) div 64 = x" "(x * 64 + y) mod 64 = y" using b by auto
    with r c b(1,2) ch 2 show ?thesis unfolding v by (simp add: rune_bytes_def valid_rune_def surrogate_def)
  next
    case (3 b c)
    with assms ch have k: "0xE0 \<le> byte_of a" "byte_of a \<le> 0xEF" "continuation (byte_of c)"
      "(if byte_of a = 0xE0 then 0xA0 else 0x80) \<le> byte_of b" "byte_of b \<le> (if byte_of a = 0xED then 0x9F else 0xBF)"
      by (auto simp: rune_chunk_def split: if_splits)
    then have "byte_of a = (byte_of a - 0xE0) + 0xE0" "byte_of a - 0xE0 < 16"
      "byte_of b = (byte_of b - 0x80) + 0x80" "byte_of b - 0x80 < 64"
      "byte_of c = (byte_of c - 0x80) + 0x80" "byte_of c - 0x80 < 64"
      by (auto simp: continuation_def split: if_splits)
    then obtain x y z where b: "byte_of a = x + 0xE0" "x < 16" "byte_of b = y + 0x80" "y < 64"
      "byte_of c = z + 0x80" "z < 64" by blast
    then have c: "char_of (224 + x) = a" "char_of (128 + y) = b" "char_of (128 + z) = c"
      by (metis add.commute char_of_char)+
    have g: "x = 0 \<longrightarrow> 0x20 \<le> y" "x = 0xD \<longrightarrow> y < 0x20" using k(4,5) b(1,3) by (auto split: if_splits)
    let ?v = "(x * 64 + y) * 64 + z"
    have v: "rune_value (map byte_of ch) = ?v" by (simp add: ch 3 b)
    have r: "\<not> ?v < 0x800" using g(1) by (cases "x = 0") auto
    have s: "\<not> surrogate ?v"
    proof
      assume "surrogate ?v"
      then have "0xD800 \<le> ?v" "?v \<le> 0xDFFF" by (auto simp: surrogate_def)
      then have lo: "0xD800 \<le> ?v" and hi: "?v \<le> 0xDFFF" by blast+
      have "\<not> x \<le> 0xC" using lo b(4,6) by auto
      moreover have "\<not> 0xE \<le> x" using hi by auto
      ultimately have "x = 0xD" by simp
      with g(2) lo b(6) show False by simp
    qed
    have u: "?v < 0x10000" using b by auto
    have "?v div 4096 = x" "?v div 64 mod 64 = y" "?v mod 64 = z" using b by (simp_all only: sextet_parts)
    with r s u c b(1) ch 3 show ?thesis unfolding v by (simp add: rune_bytes_def valid_rune_def)
  next
    case (4 b c d)
    with assms ch have k: "0xF0 \<le> byte_of a" "byte_of a \<le> 0xF4" "continuation (byte_of c)" "continuation (byte_of d)"
      "(if byte_of a = 0xF0 then 0x90 else 0x80) \<le> byte_of b" "byte_of b \<le> (if byte_of a = 0xF4 then 0x8F else 0xBF)"
      by (auto simp: rune_chunk_def split: if_splits)
    then have "byte_of a = (byte_of a - 0xF0) + 0xF0" "byte_of a - 0xF0 < 5"
      "byte_of b = (byte_of b - 0x80) + 0x80" "byte_of b - 0x80 < 64"
      "byte_of c = (byte_of c - 0x80) + 0x80" "byte_of c - 0x80 < 64"
      "byte_of d = (byte_of d - 0x80) + 0x80" "byte_of d - 0x80 < 64"
      by (auto simp: continuation_def split: if_splits)
    then obtain x y z w where b: "byte_of a = x + 0xF0" "x < 5" "byte_of b = y + 0x80" "y < 64"
      "byte_of c = z + 0x80" "z < 64" "byte_of d = w + 0x80" "w < 64" by blast
    then have c: "char_of (240 + x) = a" "char_of (128 + y) = b" "char_of (128 + z) = c" "char_of (128 + w) = d"
      by (metis add.commute char_of_char)+
    have g: "x = 0 \<longrightarrow> 0x10 \<le> y" "x = 4 \<longrightarrow> y < 0x10" using k(5,6) b(1,3) by (auto split: if_splits)
    let ?v = "((x * 64 + y) * 64 + z) * 64 + w"
    have v: "rune_value (map byte_of ch) = ?v" by (simp add: ch 4 b)
    have r: "0x10000 \<le> ?v" using g(1) by (cases "x = 0") auto
    have u: "?v \<le> 0x10FFFF"
    proof (cases "x = 4")
      case True
      with g(2) b show ?thesis by auto
    qed (use b in auto)
    have "\<not> surrogate ?v" "\<not> ?v < 0x10000" using r by (auto simp: surrogate_def)
    moreover have "?v div 262144 = x" "?v div 4096 mod 64 = y" "?v div 64 mod 64 = z" "?v mod 64 = w"
      using b by (simp_all only: sextet_parts)
    ultimately show ?thesis using r u c b(1) ch 4 unfolding v by (simp add: rune_bytes_def valid_rune_def)
  qed
  then show "rune_bytes (rune_value (map byte_of ch)) = ch" "valid_rune (rune_value (map byte_of ch))"
    "byte_of (hd ch) < 0x80 \<longleftrightarrow> rune_value (map byte_of ch) < 0x80"
    "byte_of (hd ch) < 0x80 \<Longrightarrow> ch = [hd ch] \<and> rune_value (map byte_of ch) = byte_of (hd ch)" by blast+
qed

lemma read_hex_more:
  "read_hex k u t = Some (w, c # s) \<Longrightarrow> hex_nat c = Some d \<Longrightarrow> read_hex (Suc k) u t = Some (16 * w + d, s)"
proof (induction k u t rule: read_hex.induct)
  case (3 n v c s)
  then show ?case by (auto split: option.splits)
qed simp_all

lemma read_hex_digits: "v < 16 ^ n \<Longrightarrow> read_hex n u (hex_digits n v @ s) = Some (16 ^ n * u + v, s)"
proof (induction n arbitrary: v s)
  case (Suc n)
  then have "v div 16 < 16 ^ n" by (simp add: less_mult_imp_div_less mult.commute)
  from read_hex_more [OF Suc.IH [OF this, of "hex_digit (v mod 16) # s"] hex_nat_digit]
  have "read_hex (Suc n) u (hex_digits n (v div 16) @ hex_digit (v mod 16) # s)
      = Some (16 * (16 ^ n * u + v div 16) + v mod 16, s)" by simp
  then show ?case by (simp add: algebra_simps del: read_hex.simps)
qed simp

section \<open>A quoted text reads back\<close>

lemma hex_digits_2: "n < 256 \<Longrightarrow> read_hex 2 0 (hex_digits 2 n @ s) = Some (n, s)"
  using read_hex_digits [of n 2 0 s] by simp

lemma byte_escape:
  "unquote_char quote (backslash # CHR ''x'' # hex_digits 2 (byte_of c) @ s) = Some ([c], s)"
proof -
  have "byte_of c < 256" by (rule nat_of_char_less_256)
  then have "unquote_escape quote CHR ''x'' (hex_digits 2 (byte_of c) @ s) = Some ([c], s)"
    by (simp add: unquote_escape_def simple_escapes_def hex_digits_2)
  then show ?thesis by (simp add: unquote_char_def backslash_def quote_def squote_def)
qed

lemma ascii_chunk:
  assumes "rune_chunk ch" "rune_value (map byte_of ch) < 0x80"
  shows "ch = [char_of (rune_value (map byte_of ch))]" "byte_of (hd ch) = rune_value (map byte_of ch)"
proof -
  note v = rune_bytes_value [OF assms(1)]
  from assms(2) v(3) have h: "byte_of (hd ch) < 0x80" by blast
  from v(4) [OF h] have "ch = [hd ch]" "rune_value (map byte_of ch) = byte_of (hd ch)" by blast+
  then show "ch = [char_of (rune_value (map byte_of ch))]" "byte_of (hd ch) = rune_value (map byte_of ch)"
    by (metis char_of_char, simp)
qed

lemma raw_rune:
  assumes ch: "rune_chunk ch" and r: "rune_value (map byte_of ch) \<noteq> 0x22" "rune_value (map byte_of ch) \<noteq> 0x5C"
  shows "unquote_char quote (ch @ s) = Some (ch, s)" "hd ch \<noteq> quote"
proof -
  obtain c cs where c: "ch = c # cs" using ch by (cases ch) (auto simp: rune_chunk_def)
  note v = rune_bytes_value [OF ch]
  show hq: "hd ch \<noteq> quote"
    using v(4) r(1) by (auto simp: quote_byte)
  show "unquote_char quote (ch @ s) = Some (ch, s)"
  proof (cases "byte_of c < 0x80")
    case True
    with v(4) c r have "cs = []" "c \<noteq> backslash" "c \<noteq> quote" by (auto simp: quote_byte backslash_byte)
    with True c show ?thesis by (simp add: unquote_char_def)
  next
    case False
    have "utf8_size (map byte_of (ch @ s)) = Suc (length cs)"
      using utf8_size_append [of "map byte_of ch" "Suc (length cs)" "map byte_of s"] ch c by (simp add: rune_chunk_def)
    with False c hq v(1) show ?thesis
      by (simp add: unquote_char_def del: utf8_size.simps)
  qed
qed

lemma escape_chars:
  "char_of (0x22::nat) = CHR 0x22" "char_of (0x5C::nat) = CHR 0x5C" "char_of (7::nat) = CHR 0x07"
  "char_of (8::nat) = CHR 0x08" "char_of (9::nat) = CHR 0x09" "char_of (10::nat) = CHR 0x0A"
  "char_of (11::nat) = CHR 0x0B" "char_of (12::nat) = CHR 0x0C" "char_of (13::nat) = CHR 0x0D"
  by code_simp+

lemma rune_escape:
  assumes ch: "rune_chunk ch"
  shows "unquote_char quote (escape_rune ip ch @ s) = Some (ch, s)"
proof -
  let ?r = "rune_value (map byte_of ch)"
  note v = rune_bytes_value [OF ch]
  note u = unquote_char_def unquote_escape_def simple_escapes_def read_rune_def backslash_def quote_def squote_def octal_digit_def
  consider "?r = 0x22 \<or> ?r = 0x5C" | "?r \<noteq> 0x22" "?r \<noteq> 0x5C" "ip ?r"
    | "?r \<noteq> 0x22" "?r \<noteq> 0x5C" "\<not> ip ?r" "?r \<in> {7, 8, 9, 10, 11, 12, 13}"
    | "?r \<noteq> 0x22" "?r \<noteq> 0x5C" "\<not> ip ?r" "?r \<notin> {7, 8, 9, 10, 11, 12, 13}" "?r < 0x20 \<or> ?r = 0x7F"
    | "?r \<noteq> 0x22" "?r \<noteq> 0x5C" "\<not> ip ?r" "?r \<notin> {7, 8, 9, 10, 11, 12, 13}" "\<not> (?r < 0x20 \<or> ?r = 0x7F)" "?r < 0x10000"
    | "?r \<noteq> 0x22" "?r \<noteq> 0x5C" "\<not> ip ?r" "?r \<notin> {7, 8, 9, 10, 11, 12, 13}" "\<not> (?r < 0x20 \<or> ?r = 0x7F)" "\<not> ?r < 0x10000"
    by blast
  then show ?thesis
  proof cases
    case 1
    then consider "ch = [CHR 0x22]" | "ch = [CHR 0x5C]" using ascii_chunk(1) [OF ch] by (auto simp: escape_chars)
    then show ?thesis by cases (simp_all add: escape_rune_def u)
  next
    case 2
    then show ?thesis using raw_rune [OF ch] by (simp add: escape_rune_def Let_def)
  next
    case 3
    then obtain c where c: "ch = [c]" "c \<in> {CHR 0x07, CHR 0x08, CHR 0x09, CHR 0x0A, CHR 0x0B, CHR 0x0C, CHR 0x0D}"
      using ascii_chunk(1) [OF ch] by (auto simp: escape_chars)
    with 3(3) show ?thesis by (auto simp: escape_rune_def u escape_chars)
  next
    case 4
    then have a: "ch = [char_of ?r]" "byte_of (hd ch) = ?r" using ascii_chunk [OF ch] by auto
    have "unquote_char quote (backslash # CHR ''x'' # hex_digits 2 (byte_of (hd ch)) @ s) = Some ([hd ch], s)"
      by (rule byte_escape)
    moreover have "[hd ch] = ch" using a(1) by (metis list.sel(1))
    ultimately show ?thesis using 4 a(2) by (simp add: escape_rune_def Let_def)
  next
    case 5
    then have "read_hex 4 0 (hex_digits 4 ?r @ s) = Some (?r, s)" using read_hex_digits [of ?r 4 0 s] by simp
    with 5 v(1,2) show ?thesis by (simp add: escape_rune_def Let_def u)
  next
    case 6
    have "?r < 16 ^ 8" using v(2) by (simp add: valid_rune_def)
    then have "read_hex 8 0 (hex_digits 8 ?r @ s) = Some (?r, s)" using read_hex_digits [of ?r 8 0 s] by simp
    with 6 v(1,2) show ?thesis by (simp add: escape_rune_def Let_def u)
  qed
qed

lemma escape_rune_head:
  assumes ch: "rune_chunk ch" and ip: "print_law ip"
  shows "\<exists>h r. escape_rune ip ch = h # r \<and> h \<noteq> quote \<and> h \<noteq> newline"
proof (cases "\<exists>r. escape_rune ip ch = backslash # r")
  case True
  then show ?thesis by (auto simp: backslash_def quote_def newline_def)
next
  case False
  let ?v = "rune_value (map byte_of ch)"
  from False have e: "escape_rune ip ch = ch" "?v \<noteq> 0x22" "?v \<noteq> 0x5C" "ip ?v"
    by (auto simp: escape_rune_def Let_def split: if_splits)
  obtain c cs where c: "ch = c # cs" using ch by (cases ch) (auto simp: rune_chunk_def)
  have "c \<noteq> newline"
  proof
    assume n: "c = newline"
    then have "byte_of (hd ch) < 0x80" by (simp add: c newline_def)
    from rune_bytes_value(4) [OF ch this] n c have "?v = 10" by (simp add: newline_def)
    with e(4) ip show False by (simp add: print_law_def)
  qed
  with raw_rune(2) [OF ch e(2,3)] e(1) c show ?thesis by auto
qed

lemma quoted_body: "print_law ip \<Longrightarrow> unquote_body quote (quote_runes ip s @ quote # t) = Some (s, t)"
proof (induction ip s rule: quote_runes.induct)
  case (1 ip)
  then show ?case by (simp add: unquote_body.simps)
next
  case (2 ip c cs)
  show ?case
  proof (cases "utf8_size (map byte_of (c # cs))")
    case 0
    let ?rest = "quote_runes ip cs @ quote # t"
    have q: "quote_runes ip (c # cs) @ quote # t = backslash # CHR ''x'' # hex_digits 2 (byte_of c) @ ?rest"
      using 0 by (simp add: quote_runes.simps(2) del: utf8_size.simps)
    show ?thesis unfolding q
      by (subst unquote_body.simps)
        (use byte_escape [of c ?rest] "2.IH"(1) [OF 0 "2.prems"] in
          \<open>simp add: backslash_def quote_def newline_def squote_def\<close>)
  next
    case (Suc n)
    let ?ch = "c # take n cs" and ?rest = "quote_runes ip (drop n cs) @ quote # t"
    have le: "Suc n \<le> length (c # cs)" using utf8_size_le [of "map byte_of (c # cs)"] Suc by simp
    then have ch: "rune_chunk ?ch"
      using utf8_size_take [OF Suc] by (simp add: rune_chunk_def take_map del: utf8_size.simps)
    obtain h r where h: "escape_rune ip ?ch = h # r" "h \<noteq> quote" "h \<noteq> newline"
      using escape_rune_head [OF ch "2.prems"] by blast
    have q: "quote_runes ip (c # cs) @ quote # t = escape_rune ip ?ch @ ?rest"
      using Suc by (simp add: quote_runes.simps(2) del: utf8_size.simps)
    have "unquote_char quote (h # r @ ?rest) = Some (?ch, ?rest)" using rune_escape [OF ch, of ip ?rest] h(1) by simp
    then show ?thesis unfolding q h(1)
      by (subst unquote_body.simps)
        (use h(2,3) "2.IH"(2) [OF Suc "2.prems"] in \<open>simp add: quote_def squote_def\<close>)
  qed
qed

lemma quoted_reads:
  assumes "print_law ip"
  shows "go_unquote (go_quote ip s @ t) = Some (go_quote ip s, s, t)"
  using quoted_body [of ip s t, OF assms] by (simp add: go_unquote_def go_quote_def quote_def backquote_def)

lemma unquote_quoted: "print_law ip \<Longrightarrow> unquote_all (go_quote ip s) = Some s"
  using quoted_reads [of ip s "[]"] by (simp add: unquote_all_def)

section \<open>The shape of a literal\<close>

text \<open>Every double quote inside follows a backslash.\<close>

definition escaped_quotes :: "string \<Rightarrow> bool" where
  "escaped_quotes u \<longleftrightarrow> (\<forall>i<length u. u ! i = quote \<longrightarrow> 0 < i \<and> u ! (i - 1) = backslash)"

lemma escaped_quotes_none: "quote \<notin> set u \<Longrightarrow> escaped_quotes u"
  unfolding escaped_quotes_def by (metis nth_mem)

lemma escaped_quotes_append: "escaped_quotes u \<Longrightarrow> escaped_quotes v \<Longrightarrow> escaped_quotes (u @ v)"
  unfolding escaped_quotes_def
proof (intro allI impI)
  fix i
  assume u: "\<forall>i<length u. u ! i = quote \<longrightarrow> 0 < i \<and> u ! (i - 1) = backslash"
    and v: "\<forall>i<length v. v ! i = quote \<longrightarrow> 0 < i \<and> v ! (i - 1) = backslash"
    and i: "i < length (u @ v)" "(u @ v) ! i = quote"
  show "0 < i \<and> (u @ v) ! (i - 1) = backslash"
  proof (cases "i < length u")
    case True
    then have "i - 1 < length u" by simp
    with True u i show ?thesis by (simp add: nth_append)
  next
    case False
    define j where "j = i - length u"
    with False i have "v ! j = quote" "j < length v" by (simp_all add: nth_append)
    with v have j: "0 < j" "v ! (j - 1) = backslash" by auto
    then have "\<not> i - 1 < length u" "i - 1 - length u = j - 1" "0 < i" unfolding j_def by auto
    with j(2) show ?thesis by (simp add: nth_append)
  qed
qed

lemma read_hex_split: "read_hex n v s = Some (w, r) \<Longrightarrow> \<exists>u. s = u @ r \<and> quote \<notin> set u"
proof (induction n v s rule: read_hex.induct)
  case (3 n v c s)
  then obtain d where d: "hex_nat c = Some d" "read_hex n (16 * v + d) s = Some (w, r)" by (auto split: option.splits)
  with "3.IH" obtain u where u: "s = u @ r" "quote \<notin> set u" by blast
  have "hex_nat quote = None" by code_simp
  with d(1) have "c \<noteq> quote" by auto
  with u show ?case by (intro exI [of _ "c # u"]) auto
qed auto

lemma unquote_escape_split:
  assumes "unquote_escape quote e s = Some (b, r)"
  shows "\<exists>u. s = u @ r \<and> quote \<notin> set u"
proof -
  have o: "\<not> octal_digit quote" by code_simp
  from assms consider "r = s" | n v where "read_hex n 0 s = Some (v, r)"
    | a d where "s = a # d # r" "octal_digit a" "octal_digit d"
    by (auto simp: unquote_escape_def read_rune_def Let_def split: option.splits if_splits list.splits)
  then show ?thesis
  proof cases
    case 1
    then show ?thesis by (intro exI [of _ "[]"]) simp
  next
    case 2
    then show ?thesis by (rule read_hex_split)
  next
    case 3
    with o show ?thesis by (intro exI [of _ "[a, d]"]) auto
  qed
qed

lemma unquote_char_split:
  assumes "unquote_char quote s = Some (b, r)"
  shows "\<exists>u. u \<noteq> [] \<and> s = u @ r \<and> escaped_quotes u"
proof -
  from assms obtain c cs where s: "s = c # cs" by (cases s) (auto simp: unquote_char_def)
  with assms have cq: "c \<noteq> quote" by (auto simp: unquote_char_def)
  consider "0x80 \<le> byte_of c" | "byte_of c < 0x80" "c \<noteq> backslash" | "c = backslash"
    using not_le by blast
  then show ?thesis
  proof cases
    case 1
    show ?thesis
    proof (cases "utf8_size (map byte_of s)")
      case 0
      with 1 s cq assms have "r = cs" by (simp add: unquote_char_def del: utf8_size.simps)
      with s cq show ?thesis by (intro exI [of _ "[c]"]) (simp add: escaped_quotes_none)
    next
      case (Suc n)
      with 1 s cq assms have r: "r = drop n cs" by (simp add: unquote_char_def del: utf8_size.simps)
      have le: "Suc n \<le> length (c # cs)" using utf8_size_le [of "map byte_of s"] Suc s by simp
      then have "rune_chunk (c # take n cs)"
        using utf8_size_take [OF Suc] s by (simp add: rune_chunk_def take_map del: utf8_size.simps)
      from rune_chunk_high [OF this] 1 have "quote \<notin> set (c # take n cs)" by (force simp: quote_def)
      with s r show ?thesis by (intro exI [of _ "c # take n cs"]) (simp add: escaped_quotes_none)
    qed
  next
    case 2
    with s cq assms have "r = cs" by (simp add: unquote_char_def)
    with s cq show ?thesis by (intro exI [of _ "[c]"]) (simp add: escaped_quotes_none)
  next
    case 3
    then have "\<not> 0x80 \<le> byte_of c" by (simp add: backslash_def)
    with 3 s cq assms obtain e es where e: "cs = e # es" "unquote_escape quote e es = Some (b, r)"
      by (auto simp: unquote_char_def split: list.splits)
    from unquote_escape_split [OF e(2)] obtain v where v: "es = v @ r" "quote \<notin> set v" by blast
    have "escaped_quotes [backslash, e]" by (auto simp: escaped_quotes_def nth_Cons' backslash_def quote_def)
    from escaped_quotes_append [OF this escaped_quotes_none [OF v(2)]] s e v 3
    show ?thesis by (intro exI [of _ "[backslash, e] @ v"]) simp
  qed
qed

lemma unquote_body_split: "unquote_body quote s = Some (c, t) \<Longrightarrow> \<exists>u. s = u @ quote # t \<and> escaped_quotes u"
proof (induction "length s" arbitrary: s c rule: less_induct)
  case less
  then obtain d ds where s: "s = d # ds" by (cases s) (auto simp: unquote_body.simps)
  show ?case
  proof (cases "d = quote")
    case True
    with less.prems s show ?thesis
      by (intro exI [of _ "[]"]) (simp add: unquote_body.simps escaped_quotes_none)
  next
    case False
    from less.prems s False obtain b r where b: "unquote_char quote s = Some (b, r)"
      by (auto simp: unquote_body.simps [of quote "d # ds"] split: if_splits option.splits)
    with less.prems s False obtain c' where c': "unquote_body quote r = Some (c', t)"
      by (auto simp: unquote_body.simps [of quote "d # ds"] split: if_splits) (simp_all add: quote_def squote_def)
    from less.hyps [OF unquote_char_shorter [OF b] c'] obtain u where u: "r = u @ quote # t" "escaped_quotes u" by blast
    from unquote_char_split [OF b] obtain v where v: "s = v @ r" "escaped_quotes v" by blast
    with u escaped_quotes_append [OF v(2) u(2)] show ?thesis by (intro exI [of _ "v @ u"]) simp
  qed
qed

text \<open>A literal, as the grammar meets it: what it is the prefix of, and how it ends.\<close>

definition double_literal :: "string \<Rightarrow> bool" where
  "double_literal q \<longleftrightarrow> (\<exists>u. q = quote # u @ [quote] \<and> escaped_quotes u)"

lemma unquote_sq_split: "unquote_body squote s = Some (c, t) \<Longrightarrow> \<exists>u. s = u @ squote # t"
proof -
  assume a: "unquote_body squote s = Some (c, t)"
  then obtain d ds where s: "s = d # ds" by (cases s) (auto simp: unquote_body.simps)
  show ?thesis
  proof (cases "d = squote")
    case True
    with a s show ?thesis by (intro exI [of _ "[]"]) (simp add: unquote_body.simps)
  next
    case False
    with a s obtain b r where b: "unquote_char squote s = Some (b, r)" "r = squote # t"
      by (auto simp: unquote_body.simps [of squote "d # ds"] split: if_splits option.splits list.splits)
    have "\<exists>u. s = u @ r"
    proof -
      have e: "unquote_escape squote e es = Some (b, r) \<Longrightarrow> \<exists>u. es = u @ r" for e es
      proof -
        have h: "read_hex n 0 es = Some (v, r) \<Longrightarrow> \<exists>u. es = u @ r" for n v using read_hex_split by blast
        assume "unquote_escape squote e es = Some (b, r)"
        then show ?thesis
          by (auto simp: unquote_escape_def read_rune_def Let_def dest: h split: option.splits if_splits list.splits)
      qed
      have "\<exists>u. ds = u @ drop n ds" for n by (metis append_take_drop_id)
      then have "\<exists>u. ds = u @ r"
        using b(1) s False by (auto simp: unquote_char_def dest!: e simp del: utf8_size.simps
            split: if_splits nat.splits list.splits)
      then show ?thesis using s by (metis append_Cons)
    qed
    with b(2) show ?thesis by auto
  qed
qed

lemma literal_shape:
  assumes "go_unquote s = Some (q, c, t)"
  shows "s = q @ t" "double_literal q \<or> (\<exists>k u. q = k # u @ [k] \<and> (k = squote \<or> k = backquote))"
proof -
  obtain k s1 where s: "s = k # s1" using assms by (cases s) (auto simp: go_unquote_def)
  have "\<exists>u. s1 = u @ k # t \<and> q = k # u @ [k]
      \<and> (if k = quote then escaped_quotes u else k = squote \<or> k = backquote)"
  proof (cases "k = backquote")
    case True
    with assms s obtain i where i: "index_byte backquote s1 = Some i" "q = take (i + 2) s" "t = drop (i + 1) s1"
      by (auto simp: go_unquote_def split: option.splits)
    from index_byte_Some [OF i(1)] have j: "i < length s1" "s1 ! i = backquote" by auto
    then have "s1 = take i s1 @ backquote # drop (Suc i) s1" by (metis id_take_nth_drop)
    moreover have "take (i + 2) s = k # take i s1 @ [backquote]"
      using j s by (simp add: take_Suc_conv_app_nth)
    ultimately show ?thesis using True i by (intro exI [of _ "take i s1"]) (simp add: backquote_def quote_def)
  next
    case False
    have t: "take (length s - length t) s = k # u @ [k]" if "s1 = u @ k # t" for u
      using that s by simp
    from False assms s have k: "k = quote \<or> k = squote" and b: "unquote_body k s1 = Some (c, t)"
      and q: "q = take (length s - length t) s"
      by (auto simp: go_unquote_def split: option.splits if_splits)
    from k show ?thesis
    proof
      assume k: "k = quote"
      with unquote_body_split [of s1 c t] b t q show ?thesis by auto
    next
      assume k: "k = squote"
      then have "k \<noteq> quote" by (simp add: quote_def squote_def)
      with unquote_sq_split [of s1 c t] b t q k show ?thesis by auto
    qed
  qed
  with s show "s = q @ t" "double_literal q \<or> (\<exists>k u. q = k # u @ [k] \<and> (k = squote \<or> k = backquote))"
    by (auto simp: double_literal_def split: if_splits)
qed

lemma go_quote_literal: "print_law ip \<Longrightarrow> double_literal (go_quote ip s)"
proof -
  assume ip: "print_law ip"
  from literal_shape(2) [OF quoted_reads [of ip s "[]", OF ip]] show ?thesis
    by (auto simp: go_quote_def quote_def squote_def backquote_def)
qed

text \<open>Two double-quoted literals ending together, each after a byte that is not a backslash, start together.\<close>

lemma literals_align:
  assumes "double_literal p" "double_literal q" "x @ p = y @ q"
    and "x \<noteq> []" "last x \<noteq> backslash" "y \<noteq> []" "last y \<noteq> backslash"
  shows "x = y \<and> p = q"
proof -
  have inner: False
    if l: "double_literal p" and e: "p = z @ quote # w" "z \<noteq> []" "w \<noteq> []" "last z \<noteq> backslash" for p z w
  proof -
    from l obtain u where u: "p = quote # u @ [quote]" "escaped_quotes u" by (auto simp: double_literal_def)
    obtain z' where z: "z = quote # z'" using e(1,2) u(1) by (cases z) auto
    obtain w' v where w: "w = w' @ [v]" using e(3) by (metis rev_exhaust)
    from e(1) u(1) z w have u': "u = z' @ quote # w'" by simp
    then have i: "length z' < length u" "u ! length z' = quote" by simp_all
    with u(2) have b: "0 < length z'" "u ! (length z' - 1) = backslash" by (auto simp: escaped_quotes_def)
    then have "last z' = backslash" by (simp add: u' nth_append last_conv_nth)
    with b(1) z e(4) show False by simp
  qed
  from assms(1,2) obtain u v where uv: "p = quote # u" "u \<noteq> []" "q = quote # v" "v \<noteq> []"
    by (auto simp: double_literal_def)
  from assms(3) consider "x = y" "p = q" | z where "z \<noteq> []" "x @ z = y" "p = z @ q" | z where "z \<noteq> []" "x = y @ z" "z @ p = q"
    by (auto simp: append_eq_append_conv2)
  then show ?thesis
  proof cases
    case (2 z)
    then have "last z \<noteq> backslash" using assms(7) by auto
    with inner [OF assms(1), of z v] 2 uv show ?thesis by auto
  next
    case (3 z)
    then have "last z \<noteq> backslash" using assms(5) by auto
    with inner [OF assms(2), of z u] 3 uv show ?thesis by auto
  qed simp
qed

end
