(* ===== verification/Refusal_Attribution.thy ===== *)
theory Refusal_Attribution
  imports Go_Quote "HOL-Library.Product_Lexorder"
begin

text \<open>
  The text channel of a refusal (runtimeinput/attribution.go, and CappedList of
  internal/render/render.go): how an attribution is composed after a clause, and the one split
  that recovers the two. The lemmas show that composing and splitting agree whatever the clause
  and the quoted names contain, and that re-keying a moved-bracket clause is idempotent.
\<close>

section \<open>Vocabulary\<close>

definition attribution_separator :: string where
  "attribution_separator = map char_of [0x20 :: nat, 0xE2, 0x80, 0x94, 0x20]"

definition attribution_ops :: "string list" where
  "attribution_ops = [''open'', ''stat'', ''chdir'']"

definition moved_bracket :: string where
  "moved_bracket = ''observation bracket moved''"

definition bracket_labels :: "string list" where
  "bracket_labels = [''added: '', ''removed: '', ''recently touched: '']"

section \<open>Composition\<close>

definition operation_attribution :: "printable_runes \<Rightarrow> string \<Rightarrow> string \<Rightarrow> string \<Rightarrow> string" where
  "operation_attribution ip op name cwd =
     (if op \<notin> set attribution_ops then [] else op @ '' '' @ go_quote ip name @ '' in '' @ go_quote ip cwd)"

definition resolved_target_attribution :: "printable_runes \<Rightarrow> string \<Rightarrow> string \<Rightarrow> string" where
  "resolved_target_attribution ip spelling target =
     ''recorded path '' @ go_quote ip spelling @ '' resolves to '' @ go_quote ip target @ '' outside the tree''"

definition note_attribution :: "string \<Rightarrow> string \<Rightarrow> (string \<rightharpoonup> string) \<Rightarrow> string \<rightharpoonup> string" where
  "note_attribution clause attribution m = (if m clause = None then m(clause \<mapsto> attribution) else m)"

definition contains_any :: "string \<Rightarrow> string \<Rightarrow> bool" where
  "contains_any s cs \<longleftrightarrow> (\<exists>c\<in>set s. c \<in> set cs)"

definition line_framing :: string where
  "line_framing = [CHR 0x00, CHR 0x0D, CHR 0x0A]"

definition representable_reason_name :: "printable_runes \<Rightarrow> string \<Rightarrow> string" where
  "representable_reason_name ip name =
     (if valid_utf8 name \<and> \<not> contains_any name line_framing then name else go_quote ip name)"

definition plain_member :: "string \<Rightarrow> bool" where
  "plain_member name \<longleftrightarrow> valid_utf8 name \<and> \<not> contains_any name (line_framing @ [CHR ''['', CHR '']'', quote])
     \<and> \<not> contains_str name ''; ''"

definition member_list_name :: "printable_runes \<Rightarrow> string \<Rightarrow> string" where
  "member_list_name ip name = (if plain_member name then name else go_quote ip name)"

definition moved_bracket_clause :: "printable_runes \<Rightarrow> string \<Rightarrow> string" where
  "moved_bracket_clause ip root = moved_bracket @ '': '' @ member_list_name ip root"

definition canonical_moved_bracket_clause :: "printable_runes \<Rightarrow> string \<Rightarrow> string" where
  "canonical_moved_bracket_clause ip clause = (case cut_prefix clause (moved_bracket @ '': '') of
      None \<Rightarrow> clause
    | Some root \<Rightarrow> (case unquote_all root of
          Some name \<Rightarrow> if member_list_name ip name = root then clause else moved_bracket_clause ip root
        | None \<Rightarrow> moved_bracket_clause ip root))"

text \<open>
  What moved inside a refused root: the captured and the present members, the modification
  time of each present member that is a file, and the rendering of a time.
\<close>

definition recently_touched :: "printable_runes \<Rightarrow> (int \<Rightarrow> string) \<Rightarrow> (string \<times> int) list \<Rightarrow> string list" where
  "recently_touched ip fmt files = map (\<lambda>(rel, t). member_list_name ip rel @ '' ('' @ fmt t @ '')'')
     (sort_key (\<lambda>(rel, t). (- t, rel)) files)"

definition bracket_move_parts ::
    "printable_runes \<Rightarrow> (int \<Rightarrow> string) \<Rightarrow> string list \<Rightarrow> string list \<Rightarrow> (string \<Rightarrow> int option) \<Rightarrow> string list" where
  "bracket_move_parts ip fmt captured now stat =
     (let added = sort (filter (\<lambda>m. m \<notin> set captured) now);
          removed = sort (filter (\<lambda>m. m \<notin> set now) captured);
          recent = recently_touched ip fmt (concat (map (\<lambda>m. case stat m of None \<Rightarrow> [] | Some t \<Rightarrow> [(m, t)]) now));
          moved = (if added = [] then [] else [''added: '' @ capped_list (map (member_list_name ip) added)])
            @ (if removed = [] then [] else [''removed: '' @ capped_list (map (member_list_name ip) removed)])
      in if moved \<noteq> [] then moved else if recent = [] then [] else [''recently touched: '' @ capped_list recent])"

definition bracket_move_attribution ::
    "printable_runes \<Rightarrow> (int \<Rightarrow> string) \<Rightarrow> string list \<Rightarrow> string list \<Rightarrow> (string \<Rightarrow> int option) \<Rightarrow> string" where
  "bracket_move_attribution ip fmt captured now stat = (let parts = bracket_move_parts ip fmt captured now stat in
     if parts = [] then [] else '' ['' @ join_with ''; '' parts @ '']'')"

section \<open>Parsing\<close>

definition quoted_prefix_then :: "string \<Rightarrow> string \<Rightarrow> (string \<times> string) option" where
  "quoted_prefix_then s prefix = (case quoted_prefix s of None \<Rightarrow> None
     | Some q \<Rightarrow> (case cut_prefix (drop (length q) s) prefix of None \<Rightarrow> None | Some rest \<Rightarrow> Some (q, rest)))"

definition quoted_then :: "string \<Rightarrow> string \<Rightarrow> string \<Rightarrow> bool" where
  "quoted_then s mid tail = (case quoted_prefix_then s mid of None \<Rightarrow> False
     | Some (_, rest) \<Rightarrow> (case quoted_prefix_then rest tail of None \<Rightarrow> False | Some (_, after) \<Rightarrow> after = []))"

definition parse_operation_attribution :: "string \<Rightarrow> (string \<times> string \<times> string) option" where
  "parse_operation_attribution s = (case find (\<lambda>op. has_prefix s (op @ '' '')) attribution_ops of
      None \<Rightarrow> None
    | Some op \<Rightarrow> (case quoted_prefix_then (drop (length op + 1) s) '' in '' of None \<Rightarrow> None
        | Some (name, rest) \<Rightarrow> (case quoted_prefix_then rest [] of None \<Rightarrow> None
            | Some (quoted, tail) \<Rightarrow> if tail \<noteq> [] then None
                else (case unquote_all quoted of None \<Rightarrow> None | Some dir \<Rightarrow> Some (op, name, dir)))))"

definition attribution_well_formed :: "string \<Rightarrow> bool" where
  "attribution_well_formed s \<longleftrightarrow> parse_operation_attribution s \<noteq> None
     \<or> (case cut_prefix s ''recorded path '' of None \<Rightarrow> False
        | Some rest \<Rightarrow> quoted_then rest '' resolves to '' '' outside the tree'')"

definition convert_attribution_dir :: "printable_runes \<Rightarrow> string \<Rightarrow> (string \<Rightarrow> string) \<Rightarrow> string" where
  "convert_attribution_dir ip attribution convert = (case parse_operation_attribution attribution of
      None \<Rightarrow> attribution
    | Some (op, name, dir) \<Rightarrow> op @ '' '' @ name @ '' in '' @ go_quote ip (convert dir))"

text \<open>The loop over the occurrences of a separator: the first whose suffix is well-formed.\<close>

fun first_split :: "string \<Rightarrow> nat \<Rightarrow> (string \<Rightarrow> bool) \<Rightarrow> string \<Rightarrow> (string \<times> string) option" where
  "first_split sep k ok [] = None"
| "first_split sep k ok (c # cs) =
     (if has_prefix (c # cs) sep \<and> ok (drop k (c # cs)) then Some ([], drop k (c # cs))
      else map_option (map_prod ((#) c) id) (first_split sep k ok cs))"

text \<open>The parts of a member list, the separators inside quoted members passed over.\<close>

lemma quoted_prefix_length: "quoted_prefix s = Some q \<Longrightarrow> q \<noteq> [] \<and> s = q @ drop (length q) s"
proof -
  assume "quoted_prefix s = Some q"
  then obtain c t where u: "go_unquote s = Some (q, c, t)" by (auto simp: quoted_prefix_def)
  from literal_shape(1) [OF u] literal_shape(2) [OF u] show ?thesis by (auto simp: double_literal_def)
qed

function bracket_parts :: "string \<Rightarrow> string \<Rightarrow> string list" where
  "bracket_parts part [] = [part]"
| "bracket_parts part (c # cs) =
     (if c = quote then (case quoted_prefix (c # cs) of
          None \<Rightarrow> bracket_parts (part @ [c]) cs
        | Some q \<Rightarrow> bracket_parts (part @ q) (drop (length q) (c # cs)))
      else if has_prefix (c # cs) ''; '' then part # bracket_parts [] (drop 1 cs)
      else bracket_parts (part @ [c]) cs)"
  by pat_completeness auto

termination
  by (relation "measure (length \<circ> snd)") (auto dest: quoted_prefix_length simp: Suc_le_eq)

declare bracket_parts.simps(2) [simp del]

definition bracket_well_formed :: "string \<Rightarrow> bool" where
  "bracket_well_formed s = (case cut_prefix s ''['' of None \<Rightarrow> False
     | Some inner \<Rightarrow> (case cut_suffix inner '']'' of None \<Rightarrow> False
       | Some inner \<Rightarrow> list_all (\<lambda>part. \<exists>label\<in>set bracket_labels. has_prefix part label) (bracket_parts [] inner)))"

definition list_inner :: "string \<Rightarrow> string" where
  "list_inner s = take (length s - 2) (drop 1 s)"

definition bare_bracket_split :: "string \<Rightarrow> (string \<times> string) option" where
  "bare_bracket_split reason =
     map_option (map_prod id list_inner) (first_split '' ['' 1 bracket_well_formed reason)"

definition split_bracket_attribution :: "string \<Rightarrow> (string \<times> string) option" where
  "split_bracket_attribution reason =
     (if \<not> has_prefix reason moved_bracket then None
      else (case cut_prefix reason (moved_bracket @ '': '' @ [quote]) of
          None \<Rightarrow> bare_bracket_split reason
        | Some rest \<Rightarrow> (case quoted_prefix_then (quote # rest) '' '' of
              Some (root, members) \<Rightarrow>
                if bracket_well_formed members then Some (moved_bracket @ '': '' @ root, list_inner members) else None
            | None \<Rightarrow> if quoted_prefix_then (quote # rest) [] \<noteq> None then None else bare_bracket_split reason)))"

definition split_attribution :: "string \<Rightarrow> string \<times> string" where
  "split_attribution reason = (case split_bracket_attribution reason of
      Some x \<Rightarrow> x
    | None \<Rightarrow> (case first_split attribution_separator (length attribution_separator) attribution_well_formed reason of
          Some x \<Rightarrow> x | None \<Rightarrow> (reason, [])))"

definition refusal_clause :: "string \<Rightarrow> string" where
  "refusal_clause reason = fst (split_attribution reason)"

definition refusal_attribution :: "string \<Rightarrow> string" where
  "refusal_attribution reason = snd (split_attribution reason)"

section \<open>Operation and target attributions\<close>

definition literal :: "string \<Rightarrow> bool" where
  "literal q \<longleftrightarrow> double_literal q \<or> (\<exists>k u. q = k # u @ [k] \<and> (k = squote \<or> k = backquote))"

lemma literal_ends: "literal q \<Longrightarrow> q \<noteq> [] \<and> last q \<in> {quote, squote, backquote} \<and> (last q = quote \<longrightarrow> double_literal q)"
  by (auto simp: literal_def double_literal_def quote_def squote_def backquote_def)

lemma quoted_prefix_literal: "quoted_prefix s = Some q \<Longrightarrow> literal q \<and> s = q @ drop (length q) s"
proof -
  assume "quoted_prefix s = Some q"
  then obtain c t where u: "go_unquote s = Some (q, c, t)" by (auto simp: quoted_prefix_def)
  from literal_shape [OF u] show ?thesis by (auto simp: literal_def)
qed

lemma cut_prefix_Some: "cut_prefix s p = Some r \<longleftrightarrow> s = p @ r"
  by (auto simp: cut_prefix_def dest: has_prefixD)

lemma quoted_prefix_then_split:
  assumes "quoted_prefix_then s prefix = Some (q, rest)"
  shows "literal q" "s = q @ prefix @ rest"
proof -
  from assms have q: "quoted_prefix s = Some q" "cut_prefix (drop (length q) s) prefix = Some rest"
    by (auto simp: quoted_prefix_then_def split: option.splits)
  from q(2) have "drop (length q) s = prefix @ rest"
    by (simp add: cut_prefix_Some)
  with quoted_prefix_literal [OF q(1)] show "literal q" "s = q @ prefix @ rest" by auto
qed

lemma quoted_prefix_then_quote:
  "print_law ip \<Longrightarrow> quoted_prefix_then (go_quote ip s @ prefix @ rest) prefix = Some (go_quote ip s, rest)"
  using quoted_reads [of ip s "prefix @ rest"] by (simp add: quoted_prefix_then_def quoted_prefix_def cut_prefix_def)

lemma parse_operation_shape:
  assumes "parse_operation_attribution s = Some (op, name, dir)"
  shows "\<exists>q. op \<in> set attribution_ops \<and> s = op @ '' '' @ name @ '' in '' @ q \<and> literal name \<and> literal q \<and> unquote_all q = Some dir"
proof -
  from assms obtain rest q where f: "find (\<lambda>op. has_prefix s (op @ '' '')) attribution_ops = Some op"
    and n: "quoted_prefix_then (drop (length op + 1) s) '' in '' = Some (name, rest)"
    and q: "quoted_prefix_then rest [] = Some (q, [])" "unquote_all q = Some dir"
    by (auto simp: parse_operation_attribution_def split: option.splits prod.splits if_splits)
  from f have "op \<in> set attribution_ops" "has_prefix s (op @ '' '')" by (auto simp: find_Some_iff)
  with has_prefixD [OF this(2)] quoted_prefix_then_split [OF n] quoted_prefix_then_split [OF q(1)] q(2)
  show ?thesis by auto
qed

lemma parse_operation_quoted:
  assumes "print_law ip" "op \<in> set attribution_ops"
  shows "parse_operation_attribution (operation_attribution ip op name dir) = Some (op, go_quote ip name, dir)"
proof -
  let ?rest = "go_quote ip name @ '' in '' @ go_quote ip dir"
  have f: "find (\<lambda>op'. has_prefix (op @ '' '' @ ?rest) (op' @ '' '')) attribution_ops = Some op"
    using assms(2) by (auto simp: attribution_ops_def has_prefix_def)
  have n: "quoted_prefix_then ?rest '' in '' = Some (go_quote ip name, go_quote ip dir)"
    using quoted_prefix_then_quote [OF assms(1), of name "'' in ''" "go_quote ip dir"] by simp
  have d: "quoted_prefix_then (go_quote ip dir) [] = Some (go_quote ip dir, [])"
    using quoted_prefix_then_quote [OF assms(1), of dir "[]" "[]"] by simp
  have "drop (length op + 1) (op @ '' '' @ ?rest) = ?rest" by simp
  with f n d unquote_quoted [OF assms(1), of dir] assms(2) show ?thesis
    by (simp add: parse_operation_attribution_def operation_attribution_def)
qed

lemma spaces_not_escape: "CHR '' '' \<noteq> backslash" "CHR '' '' \<noteq> quote"
  by (simp_all add: backslash_def quote_def)

lemma spaced_literals_align:
  assumes "double_literal p" "double_literal q" "x @ '' '' @ p = y @ '' '' @ q"
  shows "x = y \<and> p = q"
proof -
  from assms(3) have "(x @ '' '') @ p = (y @ '' '') @ q" by simp
  from literals_align [OF assms(1,2) this] spaces_not_escape have "x @ '' '' = y @ '' '' \<and> p = q" by auto
  then show ?thesis by auto
qed

lemma literal_last: "literal q \<Longrightarrow> x @ q = y @ go_quote ip n \<Longrightarrow> double_literal q"
proof -
  assume q: "literal q" and e: "x @ q = y @ go_quote ip n"
  have "last (y @ go_quote ip n) = quote" by (simp add: go_quote_def)
  with e have "last (x @ q) = quote" by simp
  with literal_ends [OF q] show ?thesis by auto
qed

lemma recorded_then:
  "attribution_well_formed s \<longleftrightarrow> (\<exists>op name dir. parse_operation_attribution s = Some (op, name, dir))
     \<or> (\<exists>rest. s = ''recorded path '' @ rest \<and> quoted_then rest '' resolves to '' '' outside the tree'')"
proof -
  have "(case cut_prefix s ''recorded path '' of None \<Rightarrow> False
      | Some rest \<Rightarrow> quoted_then rest '' resolves to '' '' outside the tree'')
    \<longleftrightarrow> (\<exists>rest. cut_prefix s ''recorded path '' = Some rest \<and> quoted_then rest '' resolves to '' '' outside the tree'')"
    by (cases "cut_prefix s ''recorded path ''") simp_all
  then show ?thesis unfolding attribution_well_formed_def cut_prefix_Some by auto
qed

lemma quoted_then_split:
  assumes "quoted_then s mid ending"
  shows "\<exists>p q. s = p @ mid @ q @ ending \<and> literal p \<and> literal q"
proof -
  from assms obtain p rest q where "quoted_prefix_then s mid = Some (p, rest)" "quoted_prefix_then rest ending = Some (q, [])"
    by (auto simp: quoted_then_def split: option.splits prod.splits)
  from quoted_prefix_then_split [OF this(1)] quoted_prefix_then_split [OF this(2)] show ?thesis by auto
qed

text \<open>Nothing before an attribution, up to a space, makes a longer attribution of it.\<close>

lemma no_longer_operation:
  assumes ip: "print_law ip" and op: "op \<in> set attribution_ops" and x: "x \<noteq> []" "last x = CHR '' ''"
  shows "\<not> attribution_well_formed (x @ operation_attribution ip op name dir)"
proof
  let ?A = "operation_attribution ip op name dir"
  have A: "?A = op @ '' '' @ go_quote ip name @ '' in '' @ go_quote ip dir" using op by (simp add: operation_attribution_def)
  have la: "last (x @ ?A) = quote" by (simp add: A go_quote_def)
  assume "attribution_well_formed (x @ ?A)"
  then consider op' nm d where "parse_operation_attribution (x @ ?A) = Some (op', nm, d)"
    | rest where "x @ ?A = ''recorded path '' @ rest" "quoted_then rest '' resolves to '' '' outside the tree''"
    unfolding recorded_then by blast
  then show False
  proof cases
    case 1
    from parse_operation_shape [OF 1] obtain q where q: "op' \<in> set attribution_ops"
      "x @ ?A = op' @ '' '' @ nm @ '' in '' @ q" "literal nm" "literal q" by blast
    have e: "(op' @ '' '' @ nm @ '' in'') @ '' '' @ q = (x @ op @ '' '' @ go_quote ip name @ '' in'') @ '' '' @ go_quote ip dir"
      using q(2) by (simp add: A)
    then have "(op' @ '' '' @ nm @ '' in'' @ '' '') @ q = (x @ op @ '' '' @ go_quote ip name @ '' in'' @ '' '') @ go_quote ip dir"
      by simp
    from literal_last [OF q(4) this] have dq: "double_literal q" .
    from spaced_literals_align [OF dq go_quote_literal [OF ip] e]
    have "op' @ '' '' @ nm @ '' in'' = x @ op @ '' '' @ go_quote ip name @ '' in''" by blast
    then have e2: "op' @ '' '' @ nm = (x @ op) @ '' '' @ go_quote ip name" by simp
    then have "(op' @ '' '') @ nm = (x @ op @ '' '') @ go_quote ip name" by simp
    from literal_last [OF q(3) this] have dn: "double_literal nm" .
    from spaced_literals_align [OF dn go_quote_literal [OF ip] e2]
    have "op' = x @ op" by blast
    then have "CHR '' '' \<in> set op'" using x by (metis Un_iff last_in_set set_append)
    with q(1) show False by (auto simp: attribution_ops_def)
  next
    case 2
    from quoted_then_split [OF 2(2)] 2(1) obtain y where "x @ ?A = y @ '' outside the tree''" by auto
    then have "last (x @ ?A) = CHR ''e''" by simp
    with la show False by (simp add: quote_def)
  qed
qed

lemma no_longer_target:
  assumes ip: "print_law ip" and x: "x \<noteq> []" "last x = CHR '' ''"
  shows "\<not> attribution_well_formed (x @ resolved_target_attribution ip a b)"
proof
  let ?A = "resolved_target_attribution ip a b"
  have la: "last (x @ ?A) = CHR ''e''" by (simp add: resolved_target_attribution_def)
  assume "attribution_well_formed (x @ ?A)"
  then consider op' nm d where "parse_operation_attribution (x @ ?A) = Some (op', nm, d)"
    | rest where "x @ ?A = ''recorded path '' @ rest" "quoted_then rest '' resolves to '' '' outside the tree''"
    unfolding recorded_then by blast
  then show False
  proof cases
    case 1
    from parse_operation_shape [OF 1] obtain q y where q: "x @ ?A = y @ q" "literal q" by (metis append.assoc)
    from literal_ends [OF q(2)] have "last (x @ ?A) \<in> {quote, squote, backquote}" by (simp add: q(1))
    with la show False by (auto simp: quote_def squote_def backquote_def)
  next
    case 2
    from quoted_then_split [OF 2(2)] 2(1) obtain p q where pq: "literal p" "literal q"
      "x @ ?A = ''recorded path '' @ p @ '' resolves to '' @ q @ '' outside the tree''" by auto
    then have e: "(''recorded path '' @ p @ '' resolves to'') @ '' '' @ q
        = (x @ ''recorded path '' @ go_quote ip a @ '' resolves to'') @ '' '' @ go_quote ip b"
      by (simp add: resolved_target_attribution_def)
    then have "(''recorded path '' @ p @ '' resolves to'' @ '' '') @ q
        = (x @ ''recorded path '' @ go_quote ip a @ '' resolves to'' @ '' '') @ go_quote ip b" by simp
    from literal_last [OF pq(2) this] have dq: "double_literal q" .
    from spaced_literals_align [OF dq go_quote_literal [OF ip] e]
    have "''recorded path '' @ p @ '' resolves to'' = x @ ''recorded path '' @ go_quote ip a @ '' resolves to''" by blast
    then have e2: "''recorded path'' @ '' '' @ p = (x @ ''recorded path'') @ '' '' @ go_quote ip a" by simp
    then have "''recorded path '' @ p = (x @ ''recorded path '') @ go_quote ip a" by simp
    from literal_last [OF pq(1) this] have dp: "double_literal p" .
    from spaced_literals_align [OF dp go_quote_literal [OF ip] e2]
    have "''recorded path'' = x @ ''recorded path''" by blast
    with x(1) show False by simp
  qed
qed

lemma first_split_at:
  assumes "has_prefix s sep" "ok (drop k s)" "s \<noteq> []"
    and "\<And>i. i < length c \<Longrightarrow> has_prefix (drop i (c @ s)) sep \<Longrightarrow> \<not> ok (drop (i + k) (c @ s))"
  shows "first_split sep k ok (c @ s) = Some (c, drop k s)"
  using assms(4)
proof (induction c)
  case Nil
  from assms(1-3) show ?case by (cases s) auto
next
  case (Cons x c)
  have "has_prefix (drop i (c @ s)) sep \<Longrightarrow> \<not> ok (drop (i + k) (c @ s))" if "i < length c" for i
    using Cons.prems [of "Suc i"] that by simp
  from Cons.IH [OF this] Cons.prems [of 0] show ?case by auto
qed

lemma separator_shape:
  "length attribution_separator = 5" "attribution_separator \<noteq> []" "last attribution_separator = CHR '' ''"
  by code_simp+

lemma separator_head: "hd (attribution_separator @ s) = CHR '' ''"
proof -
  have "hd attribution_separator = CHR '' ''" by code_simp
  with separator_shape(2) show ?thesis by simp
qed

lemma split_composed:
  assumes "attribution_well_formed a"
    and "\<And>x. x \<noteq> [] \<Longrightarrow> last x = CHR '' '' \<Longrightarrow> \<not> attribution_well_formed (x @ a)"
  shows "first_split attribution_separator (length attribution_separator) attribution_well_formed
    (clause @ attribution_separator @ a) = Some (clause, a)"
proof -
  let ?sep = attribution_separator
  have "first_split ?sep (length ?sep) attribution_well_formed (clause @ ?sep @ a)
      = Some (clause, drop (length ?sep) (?sep @ a))"
  proof (rule first_split_at)
    fix i assume i: "i < length clause"
    let ?x = "drop (i + length ?sep) (clause @ ?sep)"
    have l: "i + length ?sep < length (clause @ ?sep)" using i separator_shape(1) by simp
    then have "?x \<noteq> []" by (simp only: drop_eq_Nil not_le)
    moreover have "last ?x = last (clause @ ?sep)" using l by (rule last_drop)
    then have "last ?x = CHR '' ''" using separator_shape by simp
    moreover have "drop (i + length ?sep) (clause @ ?sep @ a) = ?x @ a" using i by simp
    ultimately show "\<not> attribution_well_formed (drop (i + length ?sep) (clause @ ?sep @ a))" using assms(2) by metis
  qed (use assms(1) separator_shape in simp_all)
  then show ?thesis by simp
qed

lemma moved_bracket_ends: "moved_bracket \<noteq> []" "last moved_bracket = CHR ''d''" "list_all (\<lambda>c. byte_of c < 0x80) moved_bracket"
  by (simp_all add: moved_bracket_def)

lemma not_moved_bracket:
  assumes "\<not> has_prefix clause moved_bracket"
  shows "split_bracket_attribution (clause @ attribution_separator @ a) = None"
proof -
  have "\<not> has_prefix (clause @ attribution_separator @ a) moved_bracket"
  proof
    assume "has_prefix (clause @ attribution_separator @ a) moved_bracket"
    then have "clause @ attribution_separator @ a = moved_bracket @ drop (length moved_bracket) (clause @ attribution_separator @ a)"
      by (rule has_prefixD)
    then obtain r where "clause @ (attribution_separator @ a) = moved_bracket @ r" ..
    then obtain u where
      "clause = moved_bracket @ u \<and> u @ (attribution_separator @ a) = r
        \<or> clause @ u = moved_bracket \<and> attribution_separator @ a = u @ r"
      using append_eq_append_conv2 [THEN iffD1] by blast
    then consider "clause = moved_bracket @ u" | "moved_bracket = clause @ u" "u @ r = attribution_separator @ a" by metis
    then show False
    proof cases
      case 1
      with assms show False by simp
    next
      case 2
      show False
      proof (cases u rule: rev_exhaust)
        case (snoc w z)
        have "last moved_bracket = z" by (simp add: 2(1) snoc)
        then have z: "z = CHR ''d''" using moved_bracket_ends(2) by simp
        show False
        proof (cases w)
          case Nil
          with 2(2) snoc z have "CHR ''d'' # r = attribution_separator @ a" by simp
          then have "CHR ''d'' = CHR '' ''" using separator_head by (metis list.sel(1))
          then show False by simp
        next
          case (Cons b w')
          have "char_of (0xE2 :: nat) \<in> set u"
          proof (cases w')
            case Nil
            with Cons snoc 2(2) show ?thesis by (simp add: attribution_separator_def)
          next
            case (Cons b2 w2)
            with \<open>w = b # w'\<close> snoc 2(2) show ?thesis by (simp add: attribution_separator_def)
          qed
          then have "char_of (0xE2 :: nat) \<in> set moved_bracket" unfolding 2(1) by simp
          with moved_bracket_ends(3) show False by (auto simp: list_all_iff)
        qed
      next
        case Nil
        with 2(1) have "clause = moved_bracket" by simp
        then show ?thesis using assms by (simp add: has_prefix_def)
      qed
    qed
  qed
  then show ?thesis by (simp add: split_bracket_attribution_def)
qed

lemma operation_well_formed:
  "print_law ip \<Longrightarrow> op \<in> set attribution_ops \<Longrightarrow> attribution_well_formed (operation_attribution ip op name dir)"
  using parse_operation_quoted by (simp add: attribution_well_formed_def)

lemma target_well_formed:
  assumes "print_law ip"
  shows "attribution_well_formed (resolved_target_attribution ip a b)"
proof -
  have "quoted_then (go_quote ip a @ '' resolves to '' @ go_quote ip b @ '' outside the tree'') '' resolves to '' '' outside the tree''"
    using quoted_prefix_then_quote [OF assms, of a "'' resolves to ''" "go_quote ip b @ '' outside the tree''"]
      quoted_prefix_then_quote [OF assms, of b "'' outside the tree''" "[]"] by (simp add: quoted_then_def)
  then show ?thesis unfolding recorded_then resolved_target_attribution_def by blast
qed

section \<open>Member lists\<close>

text \<open>A text the part splitter passes over, whatever comes before and after.\<close>

definition passes :: "string \<Rightarrow> bool" where
  "passes u \<longleftrightarrow> (\<forall>part rest. (rest = [] \<or> hd rest \<noteq> CHR '' '') \<longrightarrow> bracket_parts part (u @ rest) = bracket_parts (part @ u) rest)"

definition passes_closed :: "string \<Rightarrow> bool" where
  "passes_closed u \<longleftrightarrow> (\<forall>part rest. bracket_parts part (u @ rest) = bracket_parts (part @ u) rest)"

lemma passesD:
  "passes u \<Longrightarrow> rest = [] \<or> hd rest \<noteq> CHR '' '' \<Longrightarrow> bracket_parts part (u @ rest) = bracket_parts (part @ u) rest"
  unfolding passes_def by blast

lemma passes_closed_passes: "passes_closed u \<Longrightarrow> passes u"
  by (simp add: passes_closed_def passes_def)

lemma passes_closed_append: "passes_closed u \<Longrightarrow> passes_closed v \<Longrightarrow> passes_closed (u @ v)"
  by (simp add: passes_closed_def)

lemma closed_then_passes: "passes_closed u \<Longrightarrow> passes v \<Longrightarrow> passes (u @ v)"
  by (simp add: passes_closed_def passes_def)

lemma passes_then_closed: "passes u \<Longrightarrow> passes_closed v \<Longrightarrow> v \<noteq> [] \<Longrightarrow> hd v \<noteq> CHR '' '' \<Longrightarrow> passes_closed (u @ v)"
proof -
  assume a: "passes u" "passes_closed v" "v \<noteq> []" "hd v \<noteq> CHR '' ''"
  then have "bracket_parts part (u @ v @ rest) = bracket_parts (part @ u) (v @ rest)" for part rest
    by (simp add: passes_def)
  with a(2) show ?thesis by (simp add: passes_closed_def)
qed

lemma contains_step: "\<not> contains_str (c # s) p \<Longrightarrow> \<not> has_prefix (c # s) p \<and> \<not> contains_str s p"
  by (auto simp: contains_str_def split: if_splits)

lemma plain_passes_from:
  assumes "quote \<notin> set u" "\<not> contains_str u ''; ''" "rest = [] \<or> hd rest \<noteq> CHR '' '' \<or> u = [] \<or> last u \<noteq> CHR '';''"
  shows "bracket_parts part (u @ rest) = bracket_parts (part @ u) rest"
  using assms
proof (induction u arbitrary: part)
  case (Cons c u)
  have "\<not> has_prefix (c # u @ rest) ''; ''"
  proof
    assume p: "has_prefix (c # u @ rest) ''; ''"
    show False
    proof (cases u)
      case Nil
      with p Cons.prems(3) show False by (cases rest) (auto simp: has_prefix_def)
    next
      case (Cons d w)
      with p contains_step [OF Cons.prems(2)] show False by (simp add: has_prefix_def)
    qed
  qed
  moreover have "bracket_parts (part @ [c]) (u @ rest) = bracket_parts ((part @ [c]) @ u) rest"
  proof (rule Cons.IH)
    show "rest = [] \<or> hd rest \<noteq> CHR '' '' \<or> u = [] \<or> last u \<noteq> CHR '';''" using Cons.prems(3) by (cases "u = []") auto
  qed (use Cons.prems contains_step [OF Cons.prems(2)] in auto)
  moreover have "c \<noteq> quote" using Cons.prems(1) by auto
  ultimately show ?case by (subst append_Cons, subst bracket_parts.simps(2)) simp
qed simp

lemma plain_passes: "quote \<notin> set u \<Longrightarrow> \<not> contains_str u ''; '' \<Longrightarrow> passes u"
  unfolding passes_def using plain_passes_from by blast

lemma contains_member: "contains_str s (c # p) \<Longrightarrow> c \<in> set s"
  by (induction s) (auto simp: contains_str_def has_prefix_def split: if_splits)

lemma plain_closed: "quote \<notin> set u \<Longrightarrow> CHR '';'' \<notin> set u \<Longrightarrow> passes_closed u"
  unfolding passes_closed_def using plain_passes_from contains_member by (metis last_in_set)

lemma quoted_closed: "print_law ip \<Longrightarrow> passes_closed (go_quote ip n)"
proof -
  assume ip: "print_law ip"
  have "bracket_parts part (go_quote ip n @ rest) = bracket_parts (part @ go_quote ip n) rest" for part rest
  proof -
    have q: "quoted_prefix (go_quote ip n @ rest) = Some (go_quote ip n)"
      using quoted_reads [OF ip, of n rest] by (simp add: quoted_prefix_def)
    have d: "drop (length (go_quote ip n)) (go_quote ip n @ rest) = rest" by simp
    obtain w where w: "go_quote ip n @ rest = quote # w" by (simp add: go_quote_def)
    show ?thesis using q d unfolding w by (simp add: bracket_parts.simps(2))
  qed
  then show ?thesis by (simp add: passes_closed_def)
qed

lemma plain_memberD:
  assumes "plain_member m"
  shows "quote \<notin> set m" "CHR ''['' \<notin> set m" "\<not> contains_str m ''; ''"
  using assms by (auto simp: plain_member_def contains_any_def)

lemma member_passes: "print_law ip \<Longrightarrow> passes (member_list_name ip m)"
  using plain_passes [OF plain_memberD(1,3)] quoted_closed passes_closed_passes by (auto simp: member_list_name_def)

lemma member_closed:
  assumes "print_law ip" "\<not> has_suffix m '';''"
  shows "passes_closed (member_list_name ip m)"
proof (cases "plain_member m")
  case True
  have "m = [] \<or> last m \<noteq> CHR '';''"
  proof (cases m rule: rev_exhaust)
    case (snoc w z)
    with assms(2) show ?thesis by (simp add: has_suffix_def)
  qed simp
  with plain_passes_from [OF plain_memberD(1,3)] True show ?thesis
    by (auto simp: passes_closed_def member_list_name_def)
next
  case False
  with quoted_closed [OF assms(1)] show ?thesis by (simp add: member_list_name_def)
qed

lemma join_passes:
  "(\<forall>n\<in>set names. passes n) \<Longrightarrow> names \<noteq> [] \<Longrightarrow> passes (join_with '', '' names)"
proof (induction names rule: induct_list012)
  case (3 x y zs)
  have "passes_closed '', ''" by (rule plain_closed) (simp_all add: quote_def)
  with 3 have "passes x" "passes_closed (x @ '', '')"
    using passes_then_closed [of x "'', ''"] by simp_all
  from closed_then_passes [OF this(2)] 3 have "passes ((x @ '', '') @ join_with '', '' (y # zs))" by simp
  then show ?case by simp
qed simp_all

lemma capped_passes:
  assumes "\<forall>n\<in>set names. passes n" "names \<noteq> []"
  shows "passes (capped_list names)"
proof (cases "length names \<le> ListCap")
  case True
  with join_passes [OF assms] show ?thesis by (simp add: capped_list_def)
next
  case False
  let ?t = "'', and '' @ show_nat (length names - ListCap) @ '' more''"
  have "c \<noteq> quote \<and> c \<noteq> CHR '';''" if "c \<in> set (show_nat k)" for c k
    using show_nat_digits [OF that] by (auto simp: is_digit_def quote_def)
  then have "passes_closed ?t" by (intro plain_closed) (auto simp: quote_def)
  moreover have "?t \<noteq> []" "hd ?t \<noteq> CHR '' ''" by simp_all
  moreover have "passes (join_with '', '' (take ListCap names))"
    by (rule join_passes) (use assms False in \<open>auto simp: ListCap_def dest: in_set_takeD\<close>)
  ultimately have "passes_closed (join_with '', '' (take ListCap names) @ ?t)" by (rule passes_then_closed [rotated])
  with False show ?thesis by (simp add: capped_list_def passes_closed_passes)
qed

lemma joined_parts: "\<forall>p\<in>set parts. passes p \<Longrightarrow> parts \<noteq> [] \<Longrightarrow> bracket_parts [] (join_with ''; '' parts) = parts"
proof (induction parts rule: induct_list012)
  case (2 x)
  with passesD [of x "[]" "[]"] show ?case by simp
next
  case (3 x y zs)
  let ?r = "join_with ''; '' (y # zs)"
  from 3 passesD [of x "''; '' @ ?r" "[]"] have "bracket_parts [] (x @ ''; '' @ ?r) = bracket_parts x (''; '' @ ?r)" by simp
  also have "\<dots> = x # bracket_parts [] ?r" by (simp add: bracket_parts.simps(2) [of x "CHR '';''"] quote_def has_prefix_def)
  also have "bracket_parts [] ?r = y # zs" using 3 by simp
  finally show ?case by simp
qed simp

section \<open>The split of composed reasons\<close>

lemma split_other:
  assumes "\<not> has_prefix clause moved_bracket" "attribution_well_formed a"
    and "\<And>x. x \<noteq> [] \<Longrightarrow> last x = CHR '' '' \<Longrightarrow> \<not> attribution_well_formed (x @ a)"
  shows "split_attribution (clause @ attribution_separator @ a) = (clause, a)"
  using split_composed [OF assms(2,3)] not_moved_bracket [OF assms(1)] by (simp add: split_attribution_def)

lemma labelled_parts_well_formed:
  assumes "\<forall>p\<in>set parts. passes p" "parts \<noteq> []" "\<forall>p\<in>set parts. \<exists>label\<in>set bracket_labels. has_prefix p label"
  shows "bracket_well_formed (''['' @ join_with ''; '' parts @ '']'')"
  using joined_parts [OF assms(1,2)] assms(3)
  by (simp add: bracket_well_formed_def cut_prefix_def cut_suffix_def has_suffix_def list_all_iff has_prefix_def)

lemma list_inner_brackets [simp]: "list_inner (CHR ''['' # x @ '']'') = x"
  by (simp add: list_inner_def)

lemma labels_closed: "label \<in> set bracket_labels \<Longrightarrow> passes_closed label"
  by (rule plain_closed) (auto simp: bracket_labels_def quote_def)

lemma labelled_passes:
  assumes "label \<in> set bracket_labels" "\<forall>n\<in>set names. passes n" "names \<noteq> []"
  shows "passes (label @ capped_list names)"
  using closed_then_passes [OF labels_closed [OF assms(1)] capped_passes [OF assms(2,3)]] .

lemma touched_passes:
  assumes "print_law ip" "\<forall>t. quote \<notin> set (fmt t) \<and> CHR '';'' \<notin> set (fmt t)" "\<not> has_suffix m '';''"
  shows "passes (member_list_name ip m @ '' ('' @ fmt t @ '')'')"
proof -
  have "passes_closed ('' ('' @ fmt t @ '')'')" by (rule plain_closed) (use assms(2) in \<open>auto simp: quote_def\<close>)
  from passes_closed_append [OF member_closed [OF assms(1,3)] this] show ?thesis by (rule passes_closed_passes)
qed

lemma move_parts_pass:
  assumes ip: "print_law ip" and fmt: "\<forall>t. quote \<notin> set (fmt t) \<and> CHR '';'' \<notin> set (fmt t)"
    and m: "\<forall>m\<in>set now. stat m \<noteq> None \<longrightarrow> \<not> has_suffix m '';''"
    and p: "p \<in> set (bracket_move_parts ip fmt captured now stat)"
  shows "passes p \<and> (\<exists>label\<in>set bracket_labels. has_prefix p label)"
proof -
  let ?files = "concat (map (\<lambda>m. case stat m of None \<Rightarrow> [] | Some t \<Rightarrow> [(m, t)]) now)"
  let ?recent = "recently_touched ip fmt ?files"
  have names: "\<forall>n\<in>set (map (member_list_name ip) ms). passes n" for ms using member_passes [OF ip] by auto
  have recent: "\<forall>n\<in>set ?recent. passes n"
  proof
    fix n assume "n \<in> set ?recent"
    then obtain rel t where f: "(rel, t) \<in> set ?files" and n: "n = member_list_name ip rel @ '' ('' @ fmt t @ '')''"
      by (auto simp: recently_touched_def)
    from f m have "\<not> has_suffix rel '';''" by (auto split: option.splits)
    from touched_passes [OF ip fmt this] n show "passes n" by simp
  qed
  from p consider ms where "ms \<noteq> []" "p = ''added: '' @ capped_list (map (member_list_name ip) ms)"
    | ms where "ms \<noteq> []" "p = ''removed: '' @ capped_list (map (member_list_name ip) ms)"
    | "?recent \<noteq> []" "p = ''recently touched: '' @ capped_list ?recent"
    unfolding bracket_move_parts_def Let_def by (auto split: if_splits)
  then obtain label names where "p = label @ capped_list names" "label \<in> set bracket_labels" "names \<noteq> []"
    "\<forall>n\<in>set names. passes n"
  proof cases
    case 1
    show ?thesis by (rule that [OF 1(2)]) (use 1 names in \<open>simp_all add: bracket_labels_def\<close>)
  next
    case 2
    show ?thesis by (rule that [OF 2(2)]) (use 2 names in \<open>simp_all add: bracket_labels_def\<close>)
  next
    case 3
    show ?thesis by (rule that [OF 3(2)]) (use 3 recent in \<open>simp_all add: bracket_labels_def\<close>)
  qed
  then have "passes p" "has_prefix p label" using labelled_passes by (simp_all add: has_prefix_def)
  with \<open>label \<in> set bracket_labels\<close> show ?thesis by blast
qed

lemma bare_split_plain:
  assumes "CHR ''['' \<notin> set clause" "bracket_well_formed (''['' @ x @ '']'')"
  shows "bare_bracket_split (clause @ '' ['' @ x @ '']'') = Some (clause, x)"
proof -
  have "first_split '' ['' 1 bracket_well_formed (clause @ '' ['' @ x @ '']'') = Some (clause, drop 1 ('' ['' @ x @ '']''))"
  proof (rule first_split_at)
    fix i assume i: "i < length clause" and p: "has_prefix (drop i (clause @ '' ['' @ x @ '']'')) '' [''"
    then obtain z where z: "drop i clause @ '' ['' @ x @ '']'' = '' ['' @ z" by (auto dest: has_prefixD)
    from i obtain c r where r: "drop i clause = c # r" by (metis Cons_nth_drop_Suc)
    then have "r = [] \<or> hd r \<in> set clause" by (metis in_set_dropD list.set_intros hd_in_set)
    with z r assms(1) show "\<not> bracket_well_formed (drop (i + 1) (clause @ '' ['' @ x @ '']''))"
      by (cases r) auto
  qed (use assms(2) in \<open>simp_all add: has_prefix_def\<close>)
  then show ?thesis by (simp add: bare_bracket_split_def)
qed

lemma moved_bracket_plain: "CHR ''['' \<notin> set moved_bracket"
  by (simp add: moved_bracket_def)

lemma split_moved_bracket:
  assumes ip: "print_law ip" and w: "bracket_well_formed (''['' @ x @ '']'')"
  shows "split_attribution (moved_bracket_clause ip root @ '' ['' @ x @ '']'') = (moved_bracket_clause ip root, x)"
proof (cases "plain_member root")
  case True
  note plain = plain_memberD [OF True]
  have c: "moved_bracket_clause ip root = moved_bracket @ '': '' @ root"
    using True by (simp add: moved_bracket_clause_def member_list_name_def)
  have n: "cut_prefix (moved_bracket_clause ip root @ '' ['' @ x @ '']'') (moved_bracket @ '': '' @ [quote]) = None"
  proof (cases root)
    case Nil
    then show ?thesis unfolding c by (simp add: cut_prefix_def has_prefix_def quote_def)
  next
    case (Cons a r)
    with plain(1) show ?thesis unfolding c by (auto simp: cut_prefix_def has_prefix_def)
  qed
  have "CHR ''['' \<notin> set (moved_bracket_clause ip root)" using plain(2) moved_bracket_plain unfolding c by simp
  from bare_split_plain [OF this w] n show ?thesis
    by (simp add: split_attribution_def split_bracket_attribution_def c)
next
  case False
  have c: "moved_bracket_clause ip root = moved_bracket @ '': '' @ go_quote ip root"
    using False by (simp add: moved_bracket_clause_def member_list_name_def)
  obtain u where u: "go_quote ip root = quote # u" by (simp add: go_quote_def)
  have n: "cut_prefix (moved_bracket_clause ip root @ '' ['' @ x @ '']'') (moved_bracket @ '': '' @ [quote]) = Some (u @ '' ['' @ x @ '']'')"
    unfolding c u by (simp add: cut_prefix_Some)
  have q: "quoted_prefix_then (quote # u @ '' ['' @ x @ '']'') '' '' = Some (go_quote ip root, ''['' @ x @ '']'')"
    using quoted_prefix_then_quote [OF ip, of root "'' ''" "''['' @ x @ '']''"] u by simp
  from n q w show ?thesis by (simp add: split_attribution_def split_bracket_attribution_def c)
qed


text \<open>Refusal channel. A moved-bracket clause with the list of what moved splits back into the
clause and the list, whichever root the clause names and whichever members were added, removed or
touched, the quoted ones included; a touched member must not end in a semicolon.\<close>

theorem bracket_split_exact:
  assumes "print_law ip" "\<forall>t. quote \<notin> set (fmt t) \<and> CHR '';'' \<notin> set (fmt t)"
    and "\<forall>m\<in>set now. stat m \<noteq> None \<longrightarrow> \<not> has_suffix m '';''"
    and "bracket_move_attribution ip fmt captured now stat \<noteq> []"
  shows "split_attribution (moved_bracket_clause ip root @ bracket_move_attribution ip fmt captured now stat)
    = (moved_bracket_clause ip root, join_with ''; '' (bracket_move_parts ip fmt captured now stat))"
proof -
  let ?parts = "bracket_move_parts ip fmt captured now stat"
  from assms(4) have n: "?parts \<noteq> []"
    and a: "bracket_move_attribution ip fmt captured now stat = '' ['' @ join_with ''; '' ?parts @ '']''"
    by (auto simp: bracket_move_attribution_def Let_def split: if_splits)
  have "bracket_well_formed (''['' @ join_with ''; '' ?parts @ '']'')"
    using labelled_parts_well_formed [OF _ n] move_parts_pass [OF assms(1-3)] by blast
  from split_moved_bracket [OF assms(1) this] show ?thesis unfolding a .
qed

text \<open>Refusal channel. Re-keying a moved-bracket clause to its canonical spelling leaves a clause
the producer composes alone, whatever its root, and is idempotent on every text.\<close>

theorem canonical_clause_idempotent:
  assumes "print_law ip"
  shows "canonical_moved_bracket_clause ip (moved_bracket_clause ip root) = moved_bracket_clause ip root
    \<and> canonical_moved_bracket_clause ip (canonical_moved_bracket_clause ip clause) = canonical_moved_bracket_clause ip clause"
proof -
  have own: "canonical_moved_bracket_clause ip (moved_bracket_clause ip r) = moved_bracket_clause ip r" for r
  proof (cases "plain_member r")
    case True
    then have "member_list_name ip r = r" by (simp add: member_list_name_def)
    then show ?thesis
      by (auto simp: canonical_moved_bracket_clause_def moved_bracket_clause_def cut_prefix_def split: option.splits)
  next
    case False
    then have "member_list_name ip r = go_quote ip r" by (simp add: member_list_name_def)
    with unquote_quoted [OF assms, of r] show ?thesis
      by (simp add: canonical_moved_bracket_clause_def moved_bracket_clause_def cut_prefix_def)
  qed
  have "canonical_moved_bracket_clause ip clause = clause \<or> (\<exists>r. canonical_moved_bracket_clause ip clause = moved_bracket_clause ip r)"
    by (auto simp: canonical_moved_bracket_clause_def split: option.splits)
  with own show ?thesis by metis
qed

abbreviation ascii_runes :: printable_runes where
  "ascii_runes \<equiv> \<lambda>r. 32 \<le> r \<and> r < 127"

lemma ascii_print_law: "print_law ascii_runes"
  by (simp add: print_law_def)


theorem bracket_split_exact_witness:
  "split_attribution (moved_bracket_clause ascii_runes ''[x]''
      @ bracket_move_attribution ascii_runes (\<lambda>_. ''12:00'') [''a; b''] [''c''] (\<lambda>_. Some 5))
    = (moved_bracket_clause ascii_runes ''[x]'',
       join_with ''; '' (bracket_move_parts ascii_runes (\<lambda>_. ''12:00'') [''a; b''] [''c''] (\<lambda>_. Some 5)))"
proof (rule bracket_split_exact [OF ascii_print_law])
  show "\<forall>t :: int. quote \<notin> set ''12:00'' \<and> CHR '';'' \<notin> set ''12:00''" by (simp add: quote_def)
  show "\<forall>m\<in>set [''c'']. Some 5 \<noteq> None \<longrightarrow> \<not> has_suffix m '';''" by (simp add: has_suffix_def)
  show "bracket_move_attribution ascii_runes (\<lambda>_. ''12:00'') [''a; b''] [''c''] (\<lambda>_. Some 5) \<noteq> []"
    by (simp add: bracket_move_attribution_def bracket_move_parts_def)
qed

theorem canonical_clause_idempotent_witness:
  "canonical_moved_bracket_clause ascii_runes (moved_bracket_clause ascii_runes ''a]'')
    = moved_bracket_clause ascii_runes ''a]''"
  using canonical_clause_idempotent [OF ascii_print_law] by blast

text \<open>
  A touched member that ends in a semicolon: its list entry carries the part separator, so the
  list is not well-formed and the whole reason stays in the clause.
\<close>

lemma touched_semicolon_unsplit:
  "split_attribution (moved_bracket_clause ascii_runes ''d''
      @ bracket_move_attribution ascii_runes (\<lambda>_. ''12:00'') [''a;''] [''a;''] (\<lambda>_. Some 5))
    = (moved_bracket_clause ascii_runes ''d''
      @ bracket_move_attribution ascii_runes (\<lambda>_. ''12:00'') [''a;''] [''a;''] (\<lambda>_. Some 5), [])"
  by code_simp

lemma convert_operation_dir:
  assumes "print_law ip" "op \<in> set attribution_ops"
  shows "convert_attribution_dir ip (operation_attribution ip op name cwd) f = operation_attribution ip op name (f cwd)"
  using parse_operation_quoted [OF assms] assms(2) by (simp add: convert_attribution_dir_def operation_attribution_def)

end
