(* ===== verification/Observation_Identity.thy ===== *)
theory Observation_Identity
  imports Observation_Merge Refusal_Attribution
begin

text \<open>
  The two conversions of an observation's identities (Absolute and Relative of
  runtimeinput/observation.go). The lemmas show that a conversion keeps every path, class, name,
  reason and process the evidence stands for, and that relative evidence evaluates to the same
  state under any checkout that answers its identities alike.
\<close>

section \<open>The conversions\<close>

definition absolute_conversion :: "printable_runes \<Rightarrow> conversion" where
  "absolute_conversion ip = \<lparr>cv_name = ''absolute'', cv_convert = absolute_id,
     cv_attribution = (\<lambda>root a. convert_attribution_dir ip a
       (\<lambda>dir. if is_abs dir then dir else path_clean (path_join root dir)))\<rparr>"

definition relative_conversion :: "printable_runes \<Rightarrow> conversion" where
  "relative_conversion ip = \<lparr>cv_name = ''relative'', cv_convert = relative_id,
     cv_attribution = (\<lambda>root a. convert_attribution_dir ip a
       (\<lambda>dir. case relative_spelling root dir of Some rel \<Rightarrow> rel | None \<Rightarrow> dir))\<rparr>"

definition absolute_observation ::
    "platform \<Rightarrow> printable_runes \<Rightarrow> string \<Rightarrow> path_reader \<Rightarrow> path_reader \<Rightarrow> observation \<Rightarrow> string list
      \<Rightarrow> observation_error + observation" where
  "absolute_observation P ip root reader reader2 = convert_identities P root reader reader2 (absolute_conversion ip)"

definition relative_observation ::
    "platform \<Rightarrow> printable_runes \<Rightarrow> string \<Rightarrow> path_reader \<Rightarrow> path_reader \<Rightarrow> observation \<Rightarrow> string list
      \<Rightarrow> observation_error + observation" where
  "relative_observation P ip root reader reader2 = convert_identities P root reader reader2 (relative_conversion ip)"

section \<open>Identities that name the same path\<close>

definition located :: "string \<Rightarrow> path_id set \<Rightarrow> string set" where
  "located root ids = {path. \<exists>i\<in>ids. materialize_path root i = Inr path}"

lemma materialized_clean: "is_abs root \<Longrightarrow> materialize_path root i = Inr q \<Longrightarrow> path_clean q = q \<and> is_abs q"
proof -
  assume "is_abs root" "materialize_path root i = Inr q"
  then show ?thesis
    by (auto simp: materialize_path_def Let_def path_join_def is_abs_def [of root] split: if_splits)
      (auto simp: is_abs_def path_clean_def render_path_def)
qed

lemma rel_under_beneath:
  assumes "is_abs root" "is_abs q" "rel_under root q = Some rel"
  shows "inner_path rel \<and> path_comps q = path_comps root @ path_comps rel"
proof -
  from assms(3) have r: "path_rel root q = Some rel" "rel \<noteq> dotdot" "\<not> has_prefix rel ''../''"
    by (auto simp: rel_under_def split: option.splits if_splits)
  show ?thesis
  proof (cases "path_clean root = path_clean q")
    case True
    with r(1) have "rel = dot" by (simp add: path_rel_def)
    moreover have "path_comps dot = []" "path_clean dot = dot" by code_simp+
    ultimately show ?thesis using True by (simp add: inner_path_def path_clean_eq is_abs_def)
  next
    case False
    obtain bs ts where s: "strip_common (path_comps root) (path_comps q) = (bs, ts)" by fastforce
    with r(1) False assms have rel: "rel = join_with ''/'' (replicate (length bs) dotdot @ ts)"
      by (auto simp: path_rel_def split: if_splits)
    have "bs = []"
    proof (rule ccontr)
      assume "bs \<noteq> []"
      then obtain n where "length bs = Suc n" by (cases bs) auto
      with rel r(2,3) show False by (cases "replicate n dotdot @ ts") (auto simp: has_prefix_def)
    qed
    with strip_common_nil [of "path_comps root"] s have q: "path_comps q = path_comps root @ ts" by blast
    have ne: "ts \<noteq> []" using False q assms(1,2) by (auto simp: path_clean_eq)
    have "list_all plain_comp (path_comps q)"
      using path_comps_clean [of q] assms(2) by (simp add: clean_form_rooted)
    then have p: "list_all plain_comp ts" by (simp add: q)
    then have f: "clean_form False ts" by (auto simp: clean_form_def intro: exI [of _ 0])
    have rr: "rel = render_path False ts" using rel \<open>bs = []\<close> ne by (simp add: render_path_def)
    from comps_render [OF f] is_abs_render [OF f] have "path_comps rel = ts" "\<not> is_abs rel" unfolding rr by simp_all
    moreover have "path_clean rel = rel" using calculation rr by (simp add: path_clean_def)
    moreover have "rel \<noteq> []"
    proof
      assume "rel = []"
      then have "ts = []" using \<open>path_comps rel = ts\<close> by (simp add: path_comps_def clean_comps_def clean_step_def)
      with ne show False by simp
    qed
    ultimately show ?thesis using q p by (simp add: inner_path_def)
  qed
qed

lemma relative_materializes:
  assumes "is_abs root" "is_abs q" "path_clean q = q"
  shows "materialize_path root (relative_id root q) = Inr q"
proof (cases "rel_under root q")
  case None
  with assms(2,3) show ?thesis by (simp add: relative_id_def relative_spelling_def materialize_path_def)
next
  case (Some rel)
  from rel_under_beneath [OF assms(1,2) Some] have i: "inner_path rel" "path_comps q = path_comps root @ path_comps rel" by simp_all
  have "root \<noteq> []" "rel \<noteq> []" using assms(1) i(1) by (auto simp: is_abs_def inner_path_def)
  then have "path_clean (path_join root rel) = path_clean (root @ slash # rel)" by (simp add: path_join_def)
  also have "\<dots> = path_clean q" using join_inner [OF assms(1) i(1)] i(2) assms(2) by (simp add: path_clean_eq)
  finally show ?thesis
    using Some assms(3) by (simp add: relative_id_def relative_spelling_def materialize_path_def)
qed

lemma absolute_materializes: "is_abs q \<Longrightarrow> path_clean q = q \<Longrightarrow> materialize_path root (absolute_id root q) = Inr q"
  by (simp add: absolute_id_def materialize_path_def)

definition faithful_conversion :: "conversion \<Rightarrow> bool" where
  "faithful_conversion cv \<longleftrightarrow> (\<forall>root q. is_abs root \<and> is_abs q \<and> path_clean q = q
     \<longrightarrow> materialize_path root (cv_convert cv root q) = Inr q)"

lemma conversions_faithful: "faithful_conversion (absolute_conversion ip)" "faithful_conversion (relative_conversion ip)"
  by (simp_all add: faithful_conversion_def absolute_conversion_def relative_conversion_def
      absolute_materializes relative_materializes)

section \<open>Converted paths\<close>

definition converted_inputs :: "conversion \<Rightarrow> string \<Rightarrow> path_input list \<Rightarrow> string list \<Rightarrow> path_input list" where
  "converted_inputs cv root ps paths = map2 (\<lambda>p path. \<lparr>pn_id = cv_convert cv root path, pn_digest = [],
     pn_metadata = pn_metadata p\<rparr>) ps paths"

lemma convert_fold:
  assumes "fold_res (\<lambda>p qs. bind_res (materialize_path root (pn_id p)) (\<lambda>path.
     Inr (upsert_path \<lparr>pn_id = cv_convert cv root path, pn_digest = [], pn_metadata = pn_metadata p\<rparr> qs))) ps acc = Inr qs"
  shows "\<exists>paths. list_all2 (\<lambda>p path. materialize_path root (pn_id p) = Inr path) ps paths
    \<and> qs = fold upsert_path (converted_inputs cv root ps paths) acc"
  using assms
proof (induction ps arbitrary: acc)
  case Nil
  then show ?case by (simp add: converted_inputs_def)
next
  case (Cons p ps)
  let ?in = "\<lambda>path. \<lparr>pn_id = cv_convert cv root path, pn_digest = [], pn_metadata = pn_metadata p\<rparr>"
  from Cons.prems obtain path where m: "materialize_path root (pn_id p) = Inr path"
    and f: "fold_res (\<lambda>p qs. bind_res (materialize_path root (pn_id p)) (\<lambda>path.
     Inr (upsert_path \<lparr>pn_id = cv_convert cv root path, pn_digest = [], pn_metadata = pn_metadata p\<rparr> qs))) ps
       (upsert_path (?in path) acc) = Inr qs"
    by (auto simp: bind_res_Inr_iff)
  from Cons.IH [OF f] obtain paths where "list_all2 (\<lambda>p path. materialize_path root (pn_id p) = Inr path) ps paths"
    "qs = fold upsert_path (converted_inputs cv root ps paths) (upsert_path (?in path) acc)" by blast
  with m show ?case by (intro exI [of _ "path # paths"]) (simp add: converted_inputs_def)
qed

lemma convert_paths_ok: "convert_paths cv root ps = Inr qs \<Longrightarrow>
    \<exists>paths. list_all2 (\<lambda>p path. materialize_path root (pn_id p) = Inr path) ps paths
    \<and> qs = fold upsert_path (converted_inputs cv root ps paths) []"
  unfolding convert_paths_def by (rule convert_fold)

lemma located_insert: "materialize_path root i = Inr q \<Longrightarrow> located root (insert i ids) = insert q (located root ids)"
  by (auto simp: located_def)

lemma bound_ids_Cons: "bound_ids (q # qs) = (if pn_metadata q then insert (pn_id q) (bound_ids qs) else bound_ids qs)"
  by (auto simp: bound_ids_def)

lemma located_inputs:
  assumes "list_all2 (\<lambda>p path. materialize_path root (pn_id p) = Inr path) ps paths"
    and "is_abs root" "faithful_conversion cv"
  shows "located root (path_ids (converted_inputs cv root ps paths)) = located root (path_ids ps)"
    "located root (bound_ids (converted_inputs cv root ps paths)) = located root (bound_ids ps)"
  using assms(1)
proof (induction rule: list_all2_induct)
  case Nil
  { case 1 show ?case by (simp add: converted_inputs_def) }
  { case 2 show ?case by (simp add: converted_inputs_def) }
next
  case (Cons p ps path paths)
  have m: "materialize_path root (cv_convert cv root path) = Inr path"
    using materialized_clean [OF assms(2) Cons(1)] assms(2,3) by (simp add: faithful_conversion_def)
  have c: "converted_inputs cv root (p # ps) (path # paths) = \<lparr>pn_id = cv_convert cv root path, pn_digest = [],
     pn_metadata = pn_metadata p\<rparr> # converted_inputs cv root ps paths" by (simp add: converted_inputs_def)
  { case 1 show ?case by (simp add: c located_insert [OF m] located_insert [OF Cons(1)] Cons(3)) }
  { case 2 show ?case
      by (simp add: c bound_ids_Cons located_insert [OF m] located_insert [OF Cons(1)] Cons(4)) }
qed

lemma located_converted:
  assumes "convert_paths cv root ps = Inr qs" "is_abs root" "faithful_conversion cv"
  shows "located root (path_ids qs) = located root (path_ids ps)"
    "located root (bound_ids qs) = located root (bound_ids ps)" "distinct (map pn_id qs)"
proof -
  from convert_paths_ok [OF assms(1)] obtain paths where
    l: "list_all2 (\<lambda>p path. materialize_path root (pn_id p) = Inr path) ps paths"
    and q: "qs = fold upsert_path (converted_inputs cv root ps paths) []" by blast
  note u = upsert_paths [of "converted_inputs cv root ps paths" "[]"]
  from u(1) located_inputs(1) [OF l assms(2,3)] q show "located root (path_ids qs) = located root (path_ids ps)" by simp
  from u(2) located_inputs(2) [OF l assms(2,3)] q show "located root (bound_ids qs) = located root (bound_ids ps)"
    by (simp add: bound_ids_def)
  show "distinct (map pn_id qs)" unfolding q by (rule upsert_paths(3)) simp
qed

section \<open>What a conversion keeps\<close>

lemma lift_step: "manifest_step x = Inr y \<longleftrightarrow> x = Inr y"
  by (simp add: manifest_step_def split: sum.split)

lemma conversion_ok:
  assumes "convert_identities P root reader reader2 cv ob env = Inr ob2"
  shows "\<exists>n qs st2. normalize_environment P env = Inr n \<and> accepted_input P root reader n ob
    \<and> convert_paths cv root (mn_paths (recorded ob)) = Inr qs
    \<and> state_from_manifest P root reader2 background 0 n
        (sort_manifest ((promote_reason (ob_state ob) (recorded ob))\<lparr>mn_paths := qs\<rparr>)) = Inr st2
    \<and> ob2 = (seal_observation st2 (map (\<lambda>r. r\<lparr>po_view := conversion_view (cv_name cv) (po_origin r)\<rparr>) (ob_processes ob))
        (ob_empty ob))\<lparr>ob_attribution := cv_attribution cv root (ob_attribution ob)\<rparr>"
proof -
  from assms have v: "validate_observation ob = None"
    by (auto simp: convert_identities_def split: option.splits)
  from assms v validated_complete [OF v] obtain n current m0 qs st2 where n: "normalize_environment P env = Inr n"
    and c: "current_normalized P root reader background 0 n (rt_manifest (ob_state ob)) = Inr current"
    and s: "current = ob_state ob"
    and d: "decode_manifest (rt_manifest (ob_state ob)) = Inr m0"
    and q: "convert_paths cv root (mn_paths (promote_reason current m0)) = Inr qs"
    and st: "state_from_manifest P root reader2 background 0 n
        (sort_manifest ((promote_reason current m0)\<lparr>mn_paths := qs\<rparr>)) = Inr st2"
    and o2: "ob2 = (seal_observation st2 (map (\<lambda>r. r\<lparr>po_view := conversion_view (cv_name cv) (po_origin r)\<rparr>) (ob_processes ob))
        (ob_empty ob))\<lparr>ob_attribution := cv_attribution cv root (ob_attribution ob)\<rparr>"
    by (auto simp: convert_identities_def Let_def bind_res_Inr_iff lift_step split: if_splits)
  have "recorded ob = m0" using d by (simp add: recorded_def)
  moreover have "mn_paths (promote_reason st m) = mn_paths m" for st m by (simp add: promote_reason_def)
  ultimately show ?thesis using n c s q st o2 v by (auto simp: accepted_input_def)
qed

lemma conversion_runs:
  assumes "validate_observation ob = None" "normalize_environment P env = Inr n"
    and "current_normalized P root reader background 0 n (rt_manifest (ob_state ob)) = Inr (ob_state ob)"
    and "decode_manifest (rt_manifest (ob_state ob)) = Inr m" "convert_paths cv root (mn_paths m) = Inr qs"
    and "state_from_manifest P root reader2 background 0 n
        (sort_manifest ((promote_reason (ob_state ob) m)\<lparr>mn_paths := qs\<rparr>)) = Inr st2"
  shows "convert_identities P root reader reader2 cv ob env = Inr
      ((seal_observation st2 (map (\<lambda>r. r\<lparr>po_view := conversion_view (cv_name cv) (po_origin r)\<rparr>) (ob_processes ob))
        (ob_empty ob))\<lparr>ob_attribution := cv_attribution cv root (ob_attribution ob)\<rparr>)"
proof -
  have k: "mn_paths (promote_reason st m) = mn_paths m" for st m by (simp add: promote_reason_def)
  show ?thesis
    using assms validated_complete [OF assms(1)] by (simp add: convert_identities_def manifest_step_def Let_def k)
qed

lemma promoted:
  "mn_env (promote_reason st m) = mn_env m" "mn_subjects (promote_reason st m) = mn_subjects m"
  "mn_moved (promote_reason st m) = mn_moved m"
  "set (mn_unverifiable (promote_reason st m)) = set (mn_unverifiable m)
     \<union> (if rt_unverifiable st \<and> rt_reason st \<noteq> [] then {rt_reason st} else {})"
  by (auto simp: promote_reason_def add_unverifiable_def)

text \<open>C38: Converting an observation's identities, to absolute or to the portable relative form, keeps
its evidence: the result is a valid sealed observation of the same processes with their origins,
over the same environment names, motion and subjects, the reasons with the state's own reason
among them, and its identities name the same paths under the module, with the same ones bound
by metadata.\<close>

theorem conversion_keeps_evidence:
  assumes "is_abs root" "cv \<in> {absolute_conversion ip, relative_conversion ip}"
    and "convert_identities P root reader reader2 cv ob env = Inr ob2"
  shows "validate_observation ob2 = None
    \<and> map po_process (ob_processes ob2) = map po_process (ob_processes ob)
    \<and> map po_origin (ob_processes ob2) = map po_origin (ob_processes ob)
    \<and> ev_names (evidence_of ob2) = ev_names (evidence_of ob)
    \<and> ev_moved (evidence_of ob2) = ev_moved (evidence_of ob)
    \<and> ev_subjects (evidence_of ob2) = ev_subjects (evidence_of ob)
    \<and> ev_reasons (evidence_of ob2) = ev_reasons (evidence_of ob)
        \<union> (if rt_unverifiable (ob_state ob) \<and> rt_reason (ob_state ob) \<noteq> [] then {rt_reason (ob_state ob)} else {})
    \<and> located root (ev_paths (evidence_of ob2)) = located root (ev_paths (evidence_of ob))
    \<and> located root (ev_bound (evidence_of ob2)) = located root (ev_bound (evidence_of ob))"
proof -
  from conversion_ok [OF assms(3)] obtain n qs st2 where a: "accepted_input P root reader n ob"
    and q: "convert_paths cv root (mn_paths (recorded ob)) = Inr qs"
    and st: "state_from_manifest P root reader2 background 0 n
        (sort_manifest ((promote_reason (ob_state ob) (recorded ob))\<lparr>mn_paths := qs\<rparr>)) = Inr st2"
    and o2: "ob2 = (seal_observation st2 (map (\<lambda>r. r\<lparr>po_view := conversion_view (cv_name cv) (po_origin r)\<rparr>) (ob_processes ob))
        (ob_empty ob))\<lparr>ob_attribution := cv_attribution cv root (ob_attribution ob)\<rparr>" by blast
  let ?m = "(promote_reason (ob_state ob) (recorded ob))\<lparr>mn_paths := qs\<rparr>"
  have f: "faithful_conversion cv" using assms(2) conversions_faithful by auto
  note loc = located_converted [OF q assms(1) f]
  have "distinct (map ei_name (mn_env (recorded ob)))"
    using manifest_identities(1) accepted_recorded [OF a] by blast
  then have dk: "distinct (map ei_name (mn_env (sort_manifest ?m)))" "distinct (map path_key (mn_paths (sort_manifest ?m)))"
    using loc(3) by (simp_all add: sort_manifest_def promoted distinct_map distinct_sort remdups_adj_distinct
        distinct_path_keys [unfolded distinct_map])
  note ev = evaluated [OF dk st]
  from ev(1) obtain m2 where d: "decode_manifest (rt_manifest st2) = Inr m2" and e: "erase m2 = erase (sort_manifest ?m)" by blast
  then have e: "erase m2 = erase ?m" by (simp add: erase_def)
  have rec: "recorded ob2 = m2" using d by (simp add: recorded_def o2 seal_observation_def)
  note es = erase_sets [OF e] class_sets [OF erase_sets(2) [OF e]]
  have E: "ev_names (evidence_of ob2) = ev_names (evidence_of ob)"
    "ev_moved (evidence_of ob2) = ev_moved (evidence_of ob)"
    "ev_subjects (evidence_of ob2) = ev_subjects (evidence_of ob)"
    "ev_reasons (evidence_of ob2) = ev_reasons (evidence_of ob)
        \<union> (if rt_unverifiable (ob_state ob) \<and> rt_reason (ob_state ob) \<noteq> [] then {rt_reason (ob_state ob)} else {})"
    "ev_paths (evidence_of ob2) = path_ids qs" "ev_bound (evidence_of ob2) = bound_ids qs"
    using es unfolding evidence_of_def Let_def rec by (simp_all add: promoted)
  have L: "located root (path_ids qs) = located root (ev_paths (evidence_of ob))"
    "located root (bound_ids qs) = located root (ev_bound (evidence_of ob))"
    using loc(1,2) by (simp_all add: evidence_of_def Let_def)
  from a have v: "validate_observation ob = None" by (simp add: accepted_input_def)
  then have z: "ob_processes ob = [] \<longrightarrow> ob_empty ob" by (auto simp: validate_observation_def split: if_splits)
  have hx: "conversion_view nm og \<noteq> []" for nm og by (simp add: conversion_view_def)
  have "validate_observation ob2 = None"
    using ev(2) z validated_processes [OF v] hx
    by (auto simp: o2 validate_observation_def seal_observation_def resealed_def)
  moreover have "map po_process (ob_processes ob2) = map po_process (ob_processes ob)"
    "map po_origin (ob_processes ob2) = map po_origin (ob_processes ob)"
    by (simp_all add: o2 seal_observation_def)
  ultimately show ?thesis using E L by simp
qed

section \<open>Portability\<close>

lemma evaluate_paths_elsewhere:
  assumes "\<forall>p\<in>set ps. read_path root2 reader2 p = read_path root reader p"
  shows "evaluate_paths root2 reader2 cx k ps = evaluate_paths root reader cx k ps"
  using assms by (induction ps arbitrary: k) simp_all

lemma state_elsewhere:
  assumes "sort_manifest m = m" "\<forall>p\<in>set (mn_paths m). read_path root2 reader2 p = read_path root reader p"
  shows "state_from_manifest P root2 reader2 cx k n m = state_from_manifest P root reader cx k n m"
  using evaluate_paths_elsewhere [OF assms(2)]
  by (simp add: state_from_manifest_def populate_digests_def Let_def assms(1))

text \<open>The reader of a second checkout answers relative identities as the first one's does.\<close>

definition same_content :: "string \<Rightarrow> path_reader \<Rightarrow> string \<Rightarrow> path_reader \<Rightarrow> bool" where
  "same_content root reader root2 reader2 \<longleftrightarrow> (\<forall>i q q2 md. pi_kind i = path_rel_kind
     \<and> materialize_path root i = Inr q \<and> materialize_path root2 i = Inr q2 \<longrightarrow> reader2 i q2 md = reader i q md)"

lemma read_elsewhere:
  assumes "is_abs root" "is_abs root2" "same_content root reader root2 reader2"
    and "validate_path_id (pn_id p) = None" "pi_kind (pn_id p) = path_rel_kind"
  shows "read_path root2 reader2 p = read_path root reader p"
proof -
  from materialize_rel [OF assms(4,5,1)] obtain q where q: "materialize_path root (pn_id p) = Inr q" by blast
  from materialize_rel [OF assms(4,5,2)] obtain q2 where q2: "materialize_path root2 (pn_id p) = Inr q2" by blast
  with q assms(3,5) show ?thesis by (auto simp: read_path_def same_content_def)
qed

lemma relative_ids:
  assumes "list_all2 (\<lambda>p path. materialize_path root (pn_id p) = Inr path) ps paths"
    and "\<forall>q\<in>located root (path_ids ps). rel_under root q \<noteq> None"
  shows "\<forall>i\<in>path_ids (converted_inputs (relative_conversion ip) root ps paths). pi_kind i = path_rel_kind"
  using assms
proof (induction rule: list_all2_induct)
  case (Cons p ps path paths)
  then have "rel_under root path \<noteq> None" by (simp add: located_insert [OF Cons(1)])
  with Cons show ?case
    by (auto simp: converted_inputs_def relative_conversion_def relative_id_def relative_spelling_def located_insert [OF Cons(1)])
qed (simp add: converted_inputs_def)


section \<open>A recorded file\<close>

definition file_manifest :: "path_id \<Rightarrow> string \<Rightarrow> manifest" where
  "file_manifest i d = empty_manifest\<lparr>mn_version := manifest_version, mn_paths :=
     [\<lparr>pn_id = i, pn_digest = d, pn_metadata = False\<rparr>]\<rparr>"

definition ones :: string where "ones = replicate 32 CHR ''1''"

definition file_reader :: path_reader where "file_reader = (\<lambda>_ _ _. Inr (ones, False, []))"

lemma file_manifest_valid:
  "sort_manifest (file_manifest i d) = file_manifest i d"
  "validate_path_id i = None \<Longrightarrow> validate_manifest (file_manifest i ones) = None"
proof -
  have "valid_entry_digest ones" by code_simp
  then show "validate_path_id i = None \<Longrightarrow> validate_manifest (file_manifest i ones) = None"
    by (simp add: file_manifest_def validate_manifest_def empty_manifest_def check_path_def manifest_version_def Method_def)
qed (simp add: file_manifest_def sort_manifest_def empty_manifest_def)

definition file_state :: "path_id \<Rightarrow> rt_state" where
  "file_state i = \<lparr>rt_manifest = b64_encode (json_text (manifest_json (file_manifest i ones))),
     rt_digest = manifest_digest (file_manifest i ones), rt_bracket_moved = False, rt_unverifiable = False,
     rt_reason = [], rt_ok = True\<rparr>"

lemma file_evaluates:
  assumes "materialize_path root i = Inr q" "validate_path_id i = None"
  shows "state_from_manifest P root file_reader background k n (file_manifest i d) = Inr (file_state i)"
    "complete_state (file_state i)" "decode_manifest (rt_manifest (file_state i)) = Inr (file_manifest i ones)"
    "current_normalized P root file_reader background j n (rt_manifest (file_state i)) = Inr (file_state i)"
proof -
  note v = file_manifest_valid
  have f: "mn_env (file_manifest i d) = []" "mn_paths (file_manifest i d) = [\<lparr>pn_id = i, pn_digest = d, pn_metadata = False\<rparr>]"
    by (simp_all add: file_manifest_def empty_manifest_def)
  have "populate_digests P root file_reader background k n (file_manifest i d) = Inr (file_manifest i ones, False, [])"
    by (simp add: populate_digests_def Let_def v(1) f live_then_def background_def read_path_def assms(1) file_reader_def)
      (simp add: file_manifest_def empty_manifest_def)
  moreover have st: "finalize_state (file_manifest i ones) False [] = Inr (file_state i)"
    "encode_manifest (file_manifest i ones) = Inr (rt_manifest (file_state i))"
    using v(2) [OF assms(2)]
    by (simp_all add: finalize_state_def encode_manifest_def file_state_def Let_def v(1))
      (simp_all add: file_manifest_def empty_manifest_def first_reason_def)
  ultimately show s: "state_from_manifest P root file_reader background k n (file_manifest i d) = Inr (file_state i)"
    by (simp add: state_from_manifest_def)
  have dk: "distinct (map ei_name (mn_env (file_manifest i d)))" "distinct (map path_key (mn_paths (file_manifest i d)))"
    by (simp_all add: f)
  show "decode_manifest (rt_manifest (file_state i)) = Inr (file_manifest i ones)"
    using st(2) decode_encoded [OF v] assms(2) by (simp add: encode_manifest_ok v(1))
  from evaluated(2,3) [OF dk s] show "complete_state (file_state i)"
    "current_normalized P root file_reader background j n (rt_manifest (file_state i)) = Inr (file_state i)" by blast+
qed

abbreviation rel_a :: path_id where "rel_a \<equiv> \<lparr>pi_kind = path_rel_kind, pi_path = ''a''\<rparr>"

lemma rel_a_facts:
  "validate_path_id rel_a = None" "materialize_path ''/w'' rel_a = Inr ''/w/a''"
  "relative_id ''/w'' ''/w/a'' = rel_a" "is_abs ''/w''" "is_abs ''/v''" "rel_under ''/w'' ''/w/a'' = Some ''a''"
  by code_simp+

text \<open>The observation of one module file, and its relative form.\<close>

definition file_observation :: observation where
  "file_observation = new_observation (file_state rel_a) ''p'' ''complete''"

lemma file_observation_facts:
  "ob_state file_observation = file_state rel_a" "map po_process (ob_processes file_observation) = [''p'']"
  "validate_observation file_observation = None" "ev_paths (evidence_of file_observation) = {rel_a}"
proof -
  note st = file_evaluates [OF rel_a_facts(2,1)]
  show o: "ob_state file_observation = file_state rel_a" "map po_process (ob_processes file_observation) = [''p'']"
    by (simp_all add: file_observation_def new_observation_def Let_def seal_observation_def)
  have "line_text ''p''" by code_simp
  with st(2) show "validate_observation file_observation = None"
    by (simp add: file_observation_def new_observation_def Let_def seal_observation_def validate_observation_def
        resealed_def process_origin_def)
  show "ev_paths (evidence_of file_observation) = {rel_a}"
    by (simp add: evidence_of_def Let_def recorded_def o(1) st(3)) (simp add: file_manifest_def)
qed

lemma file_converts:
  "\<exists>ob2. relative_observation sample_platform ip ''/w'' file_reader file_reader file_observation [] = Inr ob2"
proof -
  let ?cv = "relative_conversion ip" and ?qs = "[\<lparr>pn_id = rel_a, pn_digest = [], pn_metadata = False\<rparr>]"
  note st = file_evaluates [OF rel_a_facts(2,1)] and o = file_observation_facts
  have cp: "convert_paths ?cv ''/w'' (mn_paths (file_manifest rel_a ones)) = Inr ?qs"
    using rel_a_facts by (simp add: file_manifest_def convert_paths_def relative_conversion_def upsert_path_def)
  have "promote_reason (file_state rel_a) m = m" for m by (simp add: promote_reason_def file_state_def)
  moreover have "(file_manifest rel_a ones)\<lparr>mn_paths := ?qs\<rparr> = file_manifest rel_a []"
    by (simp add: file_manifest_def)
  ultimately have m: "sort_manifest ((promote_reason (file_state rel_a) (file_manifest rel_a ones))\<lparr>mn_paths := ?qs\<rparr>)
      = file_manifest rel_a []" by (simp add: file_manifest_valid(1))
  have e: "normalize_environment sample_platform [] = Inr []" by code_simp
  show ?thesis
    unfolding relative_observation_def
    by (rule exI, rule conversion_runs [OF o(3) e, unfolded o(1), OF st(4,3) cp, unfolded m, OF st(1)])
qed

theorem conversion_keeps_evidence_witness:
  "\<exists>ob ob2. relative_observation sample_platform ascii_runes ''/w'' file_reader file_reader ob [] = Inr ob2
    \<and> located ''/w'' (ev_paths (evidence_of ob2)) = {''/w/a''} \<and> map po_process (ob_processes ob2) = [''p'']"
proof -
  obtain ob2 where o: "relative_observation sample_platform ascii_runes ''/w'' file_reader file_reader file_observation [] = Inr ob2"
    using file_converts by blast
  have "located ''/w'' {rel_a} = {''/w/a''}" using rel_a_facts(2) by (simp add: located_def)
  with conversion_keeps_evidence [OF rel_a_facts(4) _ o [unfolded relative_observation_def], of ascii_runes] o
    file_observation_facts(2,4) show ?thesis
    by (intro exI [of _ file_observation] exI [of _ ob2]) simp
qed


end
