(* ===== verification/Test_Variant.thy ===== *)
theory Test_Variant
  imports Prelude "HOL-Library.Multiset"
begin

text \<open>
  internal/testvariant/testvariant.go: the declaration ledger of a package's test-variant
  compartment, the classified difference of two ledgers, and the two inertness judgments.
  A slice the sources compare with reflect.DeepEqual is an optional list, since a nil and an
  empty slice differ there; every other slice is a list. The go/parser expression of a
  receiver text and the Unicode upper-case table are parameters (\<open>go_syntax\<close>). sort.Slice
  is not stable, so the theorems speak of a delta's members and multiplicities, never of
  the order of declarations the ledger order does not separate.
\<close>

section \<open>Ledgers\<close>

type_synonym 'a slice = "'a list option"

fun elems :: "'a slice \<Rightarrow> 'a list" where
  "elems None = []"
| "elems (Some xs) = xs"

record tv_decl =
  d_file :: string
  d_kind :: string
  d_name :: string
  d_receiver :: string
  d_hash :: string
  d_package :: string
  d_references :: "string list"

record tv_import =
  ti_name :: string
  ti_path :: string

record tv_bindings =
  tb_package :: string
  tb_references :: "string slice"
  tb_imports :: "tv_import slice"

record tv_header =
  h_file :: string
  h_hash :: string
  h_embedded :: bool
  h_bindings :: "tv_bindings option"

record tv_ledger =
  l_strategy :: string
  l_base :: "tv_header slice"
  l_decls :: "tv_decl list"
  l_headers :: "tv_header list"

definition no_ledger :: tv_ledger where
  "no_ledger = \<lparr>l_strategy = [], l_base = None, l_decls = [], l_headers = []\<rparr>"

record tv_change =
  ch_before :: tv_decl
  ch_after :: tv_decl

record tv_header_change =
  hc_file :: string
  hc_before :: string
  hc_after :: string
  hc_embedded :: bool

record tv_delta =
  dl_bindings :: bool
  dl_added :: "tv_decl list"
  dl_changed :: "tv_change list"
  dl_removed :: "tv_decl list"
  dl_headers :: "tv_header_change list"

definition BindingStrategy :: string where
  "BindingStrategy = ''gofresh/test-variant-bindings@1''"

section \<open>File bindings\<close>

text \<open>
  The map of a ledger's files to their bindings, None where the Go result is false. The keys
  are distinct, since a repeated file is refused.
\<close>

fun add_bindings ::
    "tv_header list \<Rightarrow> (string \<times> tv_bindings) list \<Rightarrow> (string \<times> tv_bindings) list option" where
  "add_bindings [] m = Some m"
| "add_bindings (h # hs) m = (case h_bindings h of
      None \<Rightarrow> (if h_embedded h then add_bindings hs m else None)
    | Some b \<Rightarrow>
        (if list_ex (\<lambda>i. ti_name i = []) (elems (tb_imports b)) then None
         else if map_of m (h_file h) \<noteq> None then None
         else add_bindings hs ((h_file h, b) # m)))"

definition ledger_file_bindings :: "tv_ledger \<Rightarrow> (string \<times> tv_bindings) list option" where
  "ledger_file_bindings l = (case add_bindings (elems (l_base l) @ l_headers l) [] of
      None \<Rightarrow> None
    | Some m \<Rightarrow>
        (if list_all (\<lambda>d. case map_of m (d_file d) of None \<Rightarrow> False
              | Some b \<Rightarrow> tb_package b = d_package d) (l_decls l)
         then Some m else None))"

text \<open>fileImportsMap, read at one name: the concatenated paths bound to it.\<close>

definition file_imports :: "tv_bindings \<Rightarrow> string \<Rightarrow> string" where
  "file_imports b name = concat (map (\<lambda>i. ti_path i @ [nul])
     (filter (\<lambda>i. ti_name i \<noteq> ''_'' \<and> ti_name i = name) (elems (tb_imports b))))"

definition file_preserved ::
    "tv_decl list \<Rightarrow> (string \<times> tv_bindings) list \<Rightarrow> string \<times> tv_bindings \<Rightarrow> bool" where
  "file_preserved added now = (\<lambda>(file, b). case map_of now file of
      None \<Rightarrow> False
    | Some n \<Rightarrow> tb_package n = tb_package b
        \<and> \<not> (elems (tb_references b) \<noteq> [] \<and> file_imports b ''.'' \<noteq> file_imports n ''.'')
        \<and> list_all (\<lambda>ref. file_imports b ref = file_imports n ref
            \<and> \<not> list_ex (\<lambda>a. d_name a \<noteq> ''_'' \<and> d_package a = tb_package b \<and> d_name a = ref) added)
            (elems (tb_references b)))"

definition bindings_preserved :: "tv_ledger \<Rightarrow> tv_ledger \<Rightarrow> tv_decl list \<Rightarrow> bool" where
  "bindings_preserved before after added =
     (if l_strategy before \<noteq> BindingStrategy \<or> l_strategy after \<noteq> BindingStrategy then False
      else if l_base before \<noteq> l_base after then False
      else (case ledger_file_bindings before of None \<Rightarrow> False
        | Some old \<Rightarrow> (case ledger_file_bindings after of None \<Rightarrow> False
            | Some now \<Rightarrow> list_all (file_preserved added now) old)))"

section \<open>Copies\<close>

text \<open>append of a nil slice and the elements of another: nil when there are none.\<close>

definition clone_slice :: "'a slice \<Rightarrow> 'a slice" where
  "clone_slice xs = (if elems xs = [] then None else Some (elems xs))"

definition clone_header :: "tv_header \<Rightarrow> tv_header" where
  "clone_header h = h\<lparr>h_bindings := map_option (\<lambda>b. b\<lparr>
     tb_references := clone_slice (tb_references b), tb_imports := clone_slice (tb_imports b)\<rparr>)
     (h_bindings h)\<rparr>"

definition clone_ledger :: "tv_ledger \<Rightarrow> tv_ledger" where
  "clone_ledger l = \<lparr>l_strategy = l_strategy l,
     l_base = map_option (map clone_header) (clone_slice (l_base l)),
     l_decls = l_decls l, l_headers = map clone_header (l_headers l)\<rparr>"

lemma elems_clone_slice [simp]: "elems (clone_slice xs) = elems xs"
  by (simp add: clone_slice_def)

lemma clone_slice_idem [simp]: "clone_slice (clone_slice xs) = clone_slice xs"
  by (simp add: clone_slice_def)

lemma clone_header_idem [simp]: "clone_header (clone_header h) = clone_header h"
  by (cases h; cases "h_bindings h") (simp_all add: clone_header_def)

lemma clone_ledger_idem: "clone_ledger (clone_ledger l) = clone_ledger l"
  by (simp add: clone_ledger_def clone_slice_def o_def)

section \<open>The difference of two ledgers\<close>

record decl_id =
  id_file :: string
  id_package :: string
  id_kind :: string
  id_receiver :: string
  id_name :: string

definition id_of_decl :: "tv_decl \<Rightarrow> decl_id" where
  "id_of_decl d = \<lparr>id_file = d_file d, id_package = d_package d, id_kind = d_kind d,
     id_receiver = d_receiver d, id_name = d_name d\<rparr>"

text \<open>
  The two counting loops over one group: an entry whose hash is still counted on the other
  side is cancelled against it, the rest is left over in order.
\<close>

fun leftover :: "string multiset \<Rightarrow> tv_decl list \<Rightarrow> tv_decl list" where
  "leftover M [] = []"
| "leftover M (d # ds) =
     (if d_hash d \<in># M then leftover (M - {#d_hash d#}) ds else d # leftover M ds)"

definition group_of :: "tv_decl list \<Rightarrow> decl_id \<Rightarrow> tv_decl list" where
  "group_of ds k = filter (\<lambda>d. id_of_decl d = k) ds"

definition group_keys :: "tv_decl list \<Rightarrow> decl_id list" where
  "group_keys ds = first_seen (map id_of_decl ds)"

definition left_before :: "tv_decl list \<Rightarrow> tv_decl list \<Rightarrow> decl_id \<Rightarrow> tv_decl list" where
  "left_before recorded current k =
     leftover (mset (map d_hash (group_of current k))) (group_of recorded k)"

definition left_after :: "tv_decl list \<Rightarrow> tv_decl list \<Rightarrow> decl_id \<Rightarrow> tv_decl list" where
  "left_after recorded current k =
     leftover (mset (map d_hash (group_of recorded k))) (group_of current k)"

definition key_changed :: "tv_decl list \<Rightarrow> tv_decl list \<Rightarrow> decl_id \<Rightarrow> tv_change list" where
  "key_changed recorded current k =
     map (\<lambda>(b, a). \<lparr>ch_before = b, ch_after = a\<rparr>)
       (zip (left_before recorded current k) (left_after recorded current k))"

definition key_removed :: "tv_decl list \<Rightarrow> tv_decl list \<Rightarrow> decl_id \<Rightarrow> tv_decl list" where
  "key_removed recorded current k =
     drop (length (left_after recorded current k)) (left_before recorded current k)"

definition key_added :: "tv_decl list \<Rightarrow> tv_decl list \<Rightarrow> decl_id \<Rightarrow> tv_decl list" where
  "key_added recorded current k =
     drop (length (left_before recorded current k)) (left_after recorded current k)"

definition diff_added :: "tv_decl list \<Rightarrow> tv_decl list \<Rightarrow> tv_decl list" where
  "diff_added recorded current =
     concat (map (key_added recorded current) (group_keys recorded))
     @ concat (map (group_of current)
         (filter (\<lambda>k. k \<notin> set (group_keys recorded)) (group_keys current)))"

text \<open>LessDeclaration as a sort key: file, kind, receiver, name, hash.\<close>

definition decl_key :: "tv_decl \<Rightarrow> string list" where
  "decl_key d = [d_file d, d_kind d, d_receiver d, d_name d, d_hash d]"

definition less_declaration :: "tv_decl \<Rightarrow> tv_decl \<Rightarrow> bool" where
  "less_declaration a b =
     (if d_file a \<noteq> d_file b then d_file a < d_file b
      else if d_kind a \<noteq> d_kind b then d_kind a < d_kind b
      else if d_receiver a \<noteq> d_receiver b then d_receiver a < d_receiver b
      else if d_name a \<noteq> d_name b then d_name a < d_name b
      else d_hash a < d_hash b)"

lemma less_declaration_key: "less_declaration a b \<longleftrightarrow> decl_key a < decl_key b"
  by (auto simp: less_declaration_def decl_key_def)

text \<open>The header maps keep the last header of a file.\<close>

definition header_of :: "tv_header list \<Rightarrow> string \<Rightarrow> tv_header option" where
  "header_of hs file = map_of (map (\<lambda>h. (h_file h, h)) (rev hs)) file"

definition header_moves :: "tv_header list \<Rightarrow> tv_header list \<Rightarrow> tv_header_change list" where
  "header_moves before after =
     concat (map (\<lambda>h. case header_of after (h_file h) of
        None \<Rightarrow> [\<lparr>hc_file = h_file h, hc_before = h_hash h, hc_after = [],
                  hc_embedded = h_embedded h\<rparr>]
      | Some now \<Rightarrow>
          (if h_hash now \<noteq> h_hash h \<or> h_embedded now \<noteq> h_embedded h
           then [\<lparr>hc_file = h_file h, hc_before = h_hash h, hc_after = h_hash now,
                  hc_embedded = (h_embedded h \<or> h_embedded now)\<rparr>]
           else [])) before)
     @ concat (map (\<lambda>h. if header_of before (h_file h) = None
        then [\<lparr>hc_file = h_file h, hc_before = [], hc_after = h_hash h,
               hc_embedded = h_embedded h\<rparr>]
        else []) after)"

definition diff_ledgers :: "tv_ledger \<Rightarrow> tv_ledger \<Rightarrow> tv_delta" where
  "diff_ledgers before after =
     (let recorded = l_decls before; current = l_decls after;
          added = diff_added recorded current
      in \<lparr>dl_bindings = bindings_preserved before after added,
          dl_added = sort_key decl_key added,
          dl_changed = sort_key (\<lambda>c. decl_key (ch_after c))
            (concat (map (key_changed recorded current) (group_keys recorded))),
          dl_removed = sort_key decl_key
            (concat (map (key_removed recorded current) (group_keys recorded))),
          dl_headers = sort_key hc_file (header_moves (l_headers before) (l_headers after))\<rparr>)"

section \<open>Inertness of a delta\<close>

definition inert_added :: "tv_decl \<Rightarrow> bool" where
  "inert_added d =
     (if d_kind d \<in> {''const'', ''type''} then True
      else if d_kind d = ''func'' then d_name d \<noteq> ''TestMain''
      else False)"

definition inert_delta :: "tv_delta \<Rightarrow> bool" where
  "inert_delta d =
     (if \<not> dl_bindings d then False
      else if dl_changed d \<noteq> [] \<or> dl_removed d \<noteq> [] then False
      else if \<not> list_all inert_added (dl_added d) then False
      else \<not> list_ex hc_embedded (dl_headers d))"

section \<open>The accounting of a difference\<close>

abbreviation hashes :: "tv_decl list \<Rightarrow> string multiset" where
  "hashes ds \<equiv> image_mset d_hash (mset ds)"

lemma hashes_leftover: "hashes (leftover M ds) = hashes ds - M"
proof (induction M ds rule: leftover.induct)
  case (2 M d ds)
  show ?case
  proof (cases "d_hash d \<in># M")
    case True
    then have "hashes (d # ds) - M = hashes ds - (M - {#d_hash d#})"
      by (metis add_mset_remove_trivial add_mset_diff_bothsides image_mset_add_mset
          insert_DiffM mset.simps(2))
    with True 2 show ?thesis by simp
  next
    case False
    with 2 show ?thesis by (simp add: diff_add_mset_swap)
  qed
qed simp

lemma leftover_subset: "set (leftover M ds) \<subseteq> set ds"
  by (induction M ds rule: leftover.induct) auto

lemma leftover_self: "leftover (hashes ds + M) ds = []"
  by (induction ds arbitrary: M) auto

lemma group_of_id: "d \<in> set (group_of ds k) \<Longrightarrow> id_of_decl d = k"
  by (simp add: group_of_def)

lemma left_ids: "d \<in> set (left_before r c k) \<Longrightarrow> id_of_decl d = k"
  "d \<in> set (left_after r c k) \<Longrightarrow> id_of_decl d = k"
  using leftover_subset group_of_id unfolding left_before_def left_after_def by blast+

lemma left_hashes:
  "hashes (left_before r c k) = hashes (group_of r k) - hashes (group_of c k)"
  "hashes (left_after r c k) = hashes (group_of c k) - hashes (group_of r k)"
  by (simp_all add: left_before_def left_after_def hashes_leftover)

lemma key_parts_ids: "d \<in> set (key_added r c k) \<Longrightarrow> id_of_decl d = k"
  "d \<in> set (key_removed r c k) \<Longrightarrow> id_of_decl d = k"
  "x \<in> set (key_changed r c k) \<Longrightarrow> id_of_decl (ch_before x) = k \<and> id_of_decl (ch_after x) = k"
  by (auto simp: key_added_def key_removed_def key_changed_def
      dest: in_set_dropD set_zip_leftD [THEN left_ids(1)] set_zip_rightD [THEN left_ids(2)]
      intro: left_ids)

lemma zip_take: "map fst (zip xs ys) = take (length ys) xs" "map snd (zip xs ys) = take (length xs) ys"
  by (induction xs ys rule: list_induct2') auto

lemma key_changed_fst: "map ch_before (key_changed r c k) =
    take (length (left_after r c k)) (left_before r c k)"
  by (simp add: key_changed_def o_def case_prod_beta zip_take)

lemma key_changed_snd: "map ch_after (key_changed r c k) =
    take (length (left_before r c k)) (left_after r c k)"
  by (simp add: key_changed_def o_def case_prod_beta zip_take)

text \<open>Restricting a concatenation over distinct keys to one key.\<close>

lemma group_of_append [simp]: "group_of (xs @ ys) k = group_of xs k @ group_of ys k"
  by (simp add: group_of_def)

lemma group_of_foreign: "(\<And>d. d \<in> set ds \<Longrightarrow> id_of_decl d = j) \<Longrightarrow>
    group_of ds k = (if j = k then ds else [])"
  by (auto simp: group_of_def filter_empty_conv intro: filter_True)

lemma group_of_concat:
  assumes "distinct keys" "\<And>j d. d \<in> set (f j) \<Longrightarrow> id_of_decl d = j"
  shows "group_of (concat (map f keys)) k = (if k \<in> set keys then f k else [])"
  using assms(1)
proof (induction keys)
  case (Cons j keys)
  then show ?case using group_of_foreign [of "f j" j k] assms(2) by auto
qed (simp add: group_of_def)

lemma group_keys_parts [simp]: "distinct (group_keys ds)" "set (group_keys ds) = id_of_decl ` set ds"
  by (simp_all add: group_keys_def)

lemma concat_map_nil [simp]: "concat (map (\<lambda>_. []) ks) = []"
  by (induction ks) simp_all

lemma group_of_none: "k \<notin> id_of_decl ` set ds \<Longrightarrow> group_of ds k = []"
  by (auto simp: group_of_def filter_empty_conv)

lemma group_diff_added: "hashes (group_of (diff_added r c) k) =
    (if k \<in> id_of_decl ` set r then hashes (key_added r c k) else hashes (group_of c k))"
proof -
  have "group_of (concat (map (group_of c) (filter (\<lambda>k. k \<notin> set (group_keys r)) (group_keys c)))) k
      = (if k \<in> id_of_decl ` set c \<and> k \<notin> id_of_decl ` set r then group_of c k else [])"
    by (subst group_of_concat) (auto intro: group_of_id)
  moreover have "group_of (concat (map (key_added r c) (group_keys r))) k
      = (if k \<in> id_of_decl ` set r then key_added r c k else [])"
    by (subst group_of_concat) (auto intro: key_parts_ids)
  ultimately show ?thesis by (auto simp: diff_added_def group_of_none)
qed

lemma group_of_sort: "hashes (group_of (sort_key f xs) k) = hashes (group_of xs k)"
  by (simp add: group_of_def mset_filter)

lemma left_before_none: "k \<notin> id_of_decl ` set r \<Longrightarrow> left_before r c k = []"
  by (simp add: left_before_def group_of_none)

text \<open>What a delta holds under one identity.\<close>

lemma dl_added_at: "hashes (group_of (dl_added (diff_ledgers b a)) k) =
    (if k \<in> id_of_decl ` set (l_decls b) then hashes (key_added (l_decls b) (l_decls a) k)
     else hashes (group_of (l_decls a) k))"
  by (simp add: diff_ledgers_def Let_def group_of_sort group_diff_added)

lemma dl_removed_at: "hashes (group_of (dl_removed (diff_ledgers b a)) k) =
    (if k \<in> id_of_decl ` set (l_decls b) then hashes (key_removed (l_decls b) (l_decls a) k) else {#})"
  unfolding diff_ledgers_def Let_def tv_delta.simps group_of_sort
  by (subst group_of_concat) (auto intro: key_parts_ids)

lemma map_concat_changed:
  "map f (concat (map (key_changed r c) ks)) = concat (map (\<lambda>k. map f (key_changed r c k)) ks)"
  by (simp add: map_concat o_def)

lemma dl_changed_at:
  assumes "f = ch_before \<or> f = ch_after"
  shows "hashes (group_of (map f (dl_changed (diff_ledgers b a))) k) =
    (if k \<in> id_of_decl ` set (l_decls b) then hashes (map f (key_changed (l_decls b) (l_decls a) k)) else {#})"
proof -
  have "mset (group_of (map f (dl_changed (diff_ledgers b a))) k) =
      mset (group_of (map f (concat (map (key_changed (l_decls b) (l_decls a)) (group_keys (l_decls b))))) k)"
    by (simp add: diff_ledgers_def Let_def group_of_def mset_filter)
  also have "\<dots> = mset (if k \<in> id_of_decl ` set (l_decls b)
      then map f (key_changed (l_decls b) (l_decls a) k) else [])"
    unfolding map_concat_changed using assms
    by (subst group_of_concat) (auto dest: key_parts_ids(3))
  finally show ?thesis by simp
qed

lemma drop_take_hashes: "hashes (drop n xs) + hashes (take n xs) = hashes xs"
  by (metis append_take_drop_id image_mset_union mset_append add.commute)

lemma delta_at_identity:
  fixes b a
  defines "d \<equiv> diff_ledgers b a"
  shows "hashes (group_of (dl_removed d) k) + hashes (group_of (map ch_before (dl_changed d)) k)
      = hashes (group_of (l_decls b) k) - hashes (group_of (l_decls a) k)"
    and "hashes (group_of (dl_added d) k) + hashes (group_of (map ch_after (dl_changed d)) k)
      = hashes (group_of (l_decls a) k) - hashes (group_of (l_decls b) k)"
proof -
  show "hashes (group_of (dl_removed d) k) + hashes (group_of (map ch_before (dl_changed d)) k)
      = hashes (group_of (l_decls b) k) - hashes (group_of (l_decls a) k)"
    by (simp add: d_def dl_removed_at dl_changed_at key_removed_def key_changed_fst
        drop_take_hashes left_hashes group_of_none)
  show "hashes (group_of (dl_added d) k) + hashes (group_of (map ch_after (dl_changed d)) k)
      = hashes (group_of (l_decls a) k) - hashes (group_of (l_decls b) k)"
    by (simp add: d_def dl_added_at dl_changed_at key_added_def key_changed_snd
        drop_take_hashes left_hashes group_of_none)
qed

section \<open>The reference cone of a subject\<close>

text \<open>What receiverTypeName sees of an expression go/parser built.\<close>

datatype go_expr = ParenExpr go_expr | StarExpr go_expr | IndexExpr go_expr
  | IndexListExpr go_expr | Ident string | OtherExpr

record go_syntax =
  parse_expr :: "string \<Rightarrow> go_expr option"
  upper_rune :: "string \<Rightarrow> bool"

fun expr_name :: "go_expr \<Rightarrow> string" where
  "expr_name (ParenExpr e) = expr_name e"
| "expr_name (StarExpr e) = expr_name e"
| "expr_name (IndexExpr e) = expr_name e"
| "expr_name (IndexListExpr e) = expr_name e"
| "expr_name (Ident n) = n"
| "expr_name OtherExpr = []"

definition receiver_type_name :: "go_syntax \<Rightarrow> string \<Rightarrow> string" where
  "receiver_type_name G recv =
     (if recv = [] then [] else case parse_expr G recv of None \<Rightarrow> [] | Some e \<Rightarrow> expr_name e)"

text \<open>ast.IsExported: the first rune is upper case.\<close>

definition is_exported :: "go_syntax \<Rightarrow> string \<Rightarrow> bool" where
  "is_exported G name = (case name of [] \<Rightarrow> False
     | c # _ \<Rightarrow> (let b = of_char c :: nat in
         if b < 128 then 65 \<le> b \<and> b \<le> 90 else upper_rune G name))"

type_synonym pkg_name = "string \<times> string"

definition base_refs :: "tv_header list \<Rightarrow> pkg_name list" where
  "base_refs hs = concat (map (\<lambda>h. case h_bindings h of None \<Rightarrow> []
      | Some b \<Rightarrow> map (\<lambda>r. (tb_package b, r)) (elems (tb_references b))) hs)"

text \<open>addName: the pairs one name adds, exported names of an external package twice.\<close>

definition names_of :: "go_syntax \<Rightarrow> string \<Rightarrow> string \<Rightarrow> pkg_name list" where
  "names_of G pkg ref =
     (if ref = [] then []
      else (pkg, ref) # (case cut_suffix pkg ''_test'' of None \<Rightarrow> []
        | Some base \<Rightarrow> if is_exported G ref then [(base, ref)] else []))"

definition after_references :: "tv_decl list \<Rightarrow> tv_decl \<Rightarrow> string list" where
  "after_references after d = concat (map d_references (group_of after (id_of_decl d)))"

definition decl_names :: "go_syntax \<Rightarrow> tv_decl list \<Rightarrow> tv_decl \<Rightarrow> pkg_name list" where
  "decl_names G after d =
     (if d_name d \<noteq> [] \<and> d_name d \<noteq> ''_'' then names_of G (d_package d) (d_name d) else [])
     @ (if d_kind d = ''method'' \<and> receiver_type_name G (d_receiver d) \<noteq> []
        then names_of G (d_package d) (receiver_type_name G (d_receiver d)) else [])
     @ concat (map (names_of G (d_package d)) (d_references d @ after_references after d))"

definition decl_file_refs :: "tv_decl list \<Rightarrow> tv_decl \<Rightarrow> (string \<times> string) list" where
  "decl_file_refs after d = map (\<lambda>r. (d_file d, r))
     (filter (\<lambda>r. r \<noteq> []) (d_references d @ after_references after d))"

record cone =
  cn_marked :: "nat set"
  cn_names :: "pkg_name set"
  cn_file_refs :: "(string \<times> string) set"
  cn_files :: "string set"
  cn_ids :: "decl_id set"

definition empty_cone :: cone where
  "empty_cone = \<lparr>cn_marked = {}, cn_names = {}, cn_file_refs = {}, cn_files = {}, cn_ids = {}\<rparr>"

definition mark_decl :: "go_syntax \<Rightarrow> tv_decl list \<Rightarrow> tv_decl list \<Rightarrow> nat \<Rightarrow> cone \<Rightarrow> cone" where
  "mark_decl G after before i c =
     (if i \<in> cn_marked c then c
      else (let d = before ! i in
        \<lparr>cn_marked = insert i (cn_marked c),
         cn_names = set (decl_names G after d) \<union> cn_names c,
         cn_file_refs = set (decl_file_refs after d) \<union> cn_file_refs c,
         cn_files = insert (d_file d) (cn_files c),
         cn_ids = insert (id_of_decl d) (cn_ids c)\<rparr>))"

record subject_ref =
  sj_receiver :: string
  sj_name :: string
  sj_dotted :: bool

definition parse_subject :: "string \<Rightarrow> subject_ref option" where
  "parse_subject symbol =
     (if symbol = [] \<or> has_prefix symbol ''init#'' then None
      else (let (recv0, name0, dotted) = cut_byte CHR ''.'' symbol;
                recv = (if dotted then recv0 else []);
                name = (if dotted then name0 else symbol)
        in if name = [] \<or> (dotted \<and> recv = []) \<or> contains_str name ''.'' then None
           else Some \<lparr>sj_receiver = recv, sj_name = name, sj_dotted = dotted\<rparr>))"

definition matches_subject :: "go_syntax \<Rightarrow> subject_ref \<Rightarrow> tv_decl \<Rightarrow> bool" where
  "matches_subject G s d =
     (if sj_dotted s then d_kind d = ''method'' \<and> d_name d = sj_name s
        \<and> receiver_type_name G (d_receiver d) = sj_receiver s
      else d_kind d \<noteq> ''method'' \<and> d_kind d \<noteq> ''directive'' \<and> d_kind d \<noteq> ''init''
        \<and> d_name d = sj_name s)"

text \<open>The declarations the first loop marks.\<close>

definition root_decl :: "go_syntax \<Rightarrow> subject_ref \<Rightarrow> pkg_name list \<Rightarrow> tv_decl \<Rightarrow> bool" where
  "root_decl G s refs d =
     (if matches_subject G s d then True
      else if d_kind d = ''init'' \<or> d_kind d = ''var'' \<or> d_kind d = ''directive''
        \<or> (d_kind d = ''func'' \<and> d_name d = ''TestMain'') then True
      else if d_kind d = ''method''
      then (let rt = receiver_type_name G (d_receiver d) in
              rt = [] \<or> (d_package d, rt) \<in> set refs)
      else d_name d \<noteq> ''_'' \<and> (d_package d, d_name d) \<in> set refs)"

definition base_root :: "subject_ref \<Rightarrow> tv_header \<Rightarrow> bool" where
  "base_root s h = (case h_bindings h of None \<Rightarrow> False
     | Some b \<Rightarrow> sj_name s \<in> set (elems (tb_references b))
         \<and> (\<not> sj_dotted s \<or> sj_receiver s \<in> set (elems (tb_references b))))"

definition base_names :: "go_syntax \<Rightarrow> subject_ref \<Rightarrow> tv_header list \<Rightarrow> pkg_name list" where
  "base_names G s hs = concat (map (\<lambda>h. case h_bindings h of None \<Rightarrow> []
      | Some b \<Rightarrow> if base_root s h
          then names_of G (tb_package b) (sj_name s)
            @ (if sj_dotted s then names_of G (tb_package b) (sj_receiver s) else [])
          else []) hs)"

text \<open>The condition one sweep of the closing loop tests.\<close>

definition triggered :: "go_syntax \<Rightarrow> pkg_name set \<Rightarrow> tv_decl \<Rightarrow> bool" where
  "triggered G names d =
     (if d_kind d = ''method''
      then (let rt = receiver_type_name G (d_receiver d) in rt = [] \<or> (d_package d, rt) \<in> names)
      else \<not> (d_name d = ''_'' \<and> d_kind d \<noteq> ''const'') \<and> (d_package d, d_name d) \<in> names)"

definition sweep_step ::
    "go_syntax \<Rightarrow> tv_decl list \<Rightarrow> tv_decl list \<Rightarrow> nat \<Rightarrow> cone \<times> bool \<Rightarrow> cone \<times> bool" where
  "sweep_step G after before i = (\<lambda>(c, progressed).
     if i \<in> cn_marked c then (c, progressed)
     else if triggered G (cn_names c) (before ! i) then (mark_decl G after before i c, True)
     else (c, progressed))"

definition sweep :: "go_syntax \<Rightarrow> tv_decl list \<Rightarrow> tv_decl list \<Rightarrow> cone \<Rightarrow> cone \<times> bool" where
  "sweep G after before c =
     fold (sweep_step G after before) [0..<length before] (c, False)"

definition unmarked :: "tv_decl list \<Rightarrow> cone \<Rightarrow> nat" where
  "unmarked before c = card ({..<length before} - cn_marked c)"

lemma mark_decl_marked [simp]:
  "cn_marked (mark_decl G after before i c) = insert i (cn_marked c)"
  by (auto simp: mark_decl_def Let_def)

lemma sweep_fold_marked:
  "set is \<subseteq> {..<length before} \<Longrightarrow> fold (sweep_step G after before) is (c, b) = (c', b') \<Longrightarrow>
     cn_marked c \<subseteq> cn_marked c' \<and> (b' \<longrightarrow> b \<or> unmarked before c' < unmarked before c)"
proof (induction "is" arbitrary: c b)
  case (Cons i "is")
  obtain c1 b1 where step: "sweep_step G after before i (c, b) = (c1, b1)" by fastforce
  with Cons have rest: "cn_marked c1 \<subseteq> cn_marked c'"
    "b' \<longrightarrow> b1 \<or> unmarked before c' < unmarked before c1" by auto
  consider (same) "c1 = c" "b1 = b"
    | (marked) "i \<notin> cn_marked c" "c1 = mark_decl G after before i c" "b1"
    using step by (auto simp: sweep_step_def split: if_splits)
  then show ?case
  proof cases
    case same
    with rest show ?thesis by simp
  next
    case marked
    have "{..<length before} - cn_marked c' \<subset> {..<length before} - cn_marked c"
      using Cons.prems(1) rest(1) marked by auto
    then have "unmarked before c' < unmarked before c"
      unfolding unmarked_def by (intro psubset_card_mono) auto
    with rest(1) marked show ?thesis by auto
  qed
qed simp

lemma sweep_progress:
  "sweep G after before c = (c', True) \<Longrightarrow> unmarked before c' < unmarked before c"
  using sweep_fold_marked [of "[0..<length before]" before G after c False c' True]
  by (simp add: sweep_def subset_eq)

function close_cone :: "go_syntax \<Rightarrow> tv_decl list \<Rightarrow> tv_decl list \<Rightarrow> cone \<Rightarrow> cone" where
  "close_cone G after before c =
     (let (c', progressed) = sweep G after before c in
      if progressed then close_cone G after before c' else c')"
  by pat_completeness auto
termination
  by (relation "measure (\<lambda>(G, after, before, c). unmarked before c)")
    (auto simp: sweep_progress)

declare close_cone.simps [simp del]

definition seed_cone :: "go_syntax \<Rightarrow> subject_ref \<Rightarrow> tv_ledger \<Rightarrow> tv_ledger \<Rightarrow> cone" where
  "seed_cone G s before after =
     (let refs = base_refs (elems (l_base before));
          c = fold (\<lambda>i c. if root_decl G s refs (l_decls before ! i)
                then mark_decl G (l_decls after) (l_decls before) i c else c)
              [0..<length (l_decls before)] empty_cone
      in c\<lparr>cn_names := set (base_names G s (elems (l_base before))) \<union> cn_names c\<rparr>)"

definition subject_rooted :: "go_syntax \<Rightarrow> subject_ref \<Rightarrow> tv_ledger \<Rightarrow> bool" where
  "subject_rooted G s before \<longleftrightarrow>
     list_ex (matches_subject G s) (l_decls before)
     \<or> list_ex (base_root s) (elems (l_base before))"

definition added_captures :: "go_syntax \<Rightarrow> pkg_name set \<Rightarrow> pkg_name list \<Rightarrow> tv_decl \<Rightarrow> bool" where
  "added_captures G names refs d =
     (if d_name d = ''_'' then d_kind d = ''const'' \<and> (d_package d, ''_'') \<in> names
      else (d_package d, d_name d) \<in> names \<or> (d_package d, d_name d) \<in> set refs
        \<or> (is_exported G (d_name d) \<and> (d_package d @ ''_test'', d_name d) \<in> names))"

definition file_kept ::
    "(string \<times> tv_bindings) list \<Rightarrow> (string \<times> tv_bindings) list \<Rightarrow> (string \<times> string) set
      \<Rightarrow> string \<Rightarrow> bool" where
  "file_kept old now file_refs file =
     (case (map_of old file, map_of now file) of
        (Some b, Some n) \<Rightarrow> tb_package n = tb_package b
          \<and> \<not> ((\<exists>p\<in>file_refs. fst p = file) \<and> file_imports b ''.'' \<noteq> file_imports n ''.'')
          \<and> (\<forall>p\<in>file_refs. fst p = file \<longrightarrow> file_imports b (snd p) = file_imports n (snd p))
      | _ \<Rightarrow> False)"

definition inert_for_subject :: "go_syntax \<Rightarrow> tv_ledger \<Rightarrow> tv_ledger \<Rightarrow> string \<Rightarrow> bool" where
  "inert_for_subject G before after symbol =
     (case parse_subject symbol of None \<Rightarrow> False
      | Some s \<Rightarrow> (let d = diff_ledgers before after in
          if inert_delta d then True
          else if l_strategy before \<noteq> BindingStrategy \<or> l_strategy after \<noteq> BindingStrategy then False
          else if l_base before \<noteq> l_base after then False
          else (case ledger_file_bindings before of None \<Rightarrow> False
            | Some old \<Rightarrow> (case ledger_file_bindings after of None \<Rightarrow> False
            | Some now \<Rightarrow>
              if list_ex hc_embedded (dl_headers d) then False
              else if \<not> list_all inert_added (dl_added d) then False
              else if \<not> subject_rooted G s before then False
              else (let refs = base_refs (elems (l_base before));
                        c = close_cone G (l_decls after) (l_decls before)
                              (seed_cone G s before after)
                in \<not> list_ex (\<lambda>x. id_of_decl (ch_before x) \<in> cn_ids c) (dl_changed d)
                   \<and> \<not> list_ex (\<lambda>x. id_of_decl x \<in> cn_ids c) (dl_removed d)
                   \<and> \<not> list_ex (added_captures G (cn_names c) refs) (dl_added d)
                   \<and> (\<forall>file\<in>cn_files c. file_kept old now (cn_file_refs c) file))))))"

section \<open>The cone as an inductive reachability\<close>

text \<open>
  What the cone is meant to be: the declarations the subject roots and, from them, every
  declaration whose name or receiver type a reached declaration can name.
\<close>

inductive reach_decl :: "go_syntax \<Rightarrow> tv_decl list \<Rightarrow> tv_decl list \<Rightarrow> nat set \<Rightarrow> pkg_name set \<Rightarrow> nat \<Rightarrow> bool"
  and reach_name :: "go_syntax \<Rightarrow> tv_decl list \<Rightarrow> tv_decl list \<Rightarrow> nat set \<Rightarrow> pkg_name set \<Rightarrow> pkg_name \<Rightarrow> bool"
  for G :: go_syntax and after :: "tv_decl list" and before :: "tv_decl list"
    and roots :: "nat set" and seeds :: "pkg_name set"
  where
  root: "i \<in> roots \<Longrightarrow> reach_decl G after before roots seeds i"
| any_method: "i < length before \<Longrightarrow> d_kind (before ! i) = ''method'' \<Longrightarrow>
     receiver_type_name G (d_receiver (before ! i)) = [] \<Longrightarrow> reach_decl G after before roots seeds i"
| method_of: "i < length before \<Longrightarrow> d_kind (before ! i) = ''method'' \<Longrightarrow>
     reach_name G after before roots seeds
       (d_package (before ! i), receiver_type_name G (d_receiver (before ! i))) \<Longrightarrow>
     reach_decl G after before roots seeds i"
| named: "i < length before \<Longrightarrow> d_kind (before ! i) \<noteq> ''method'' \<Longrightarrow>
     \<not> (d_name (before ! i) = ''_'' \<and> d_kind (before ! i) \<noteq> ''const'') \<Longrightarrow>
     reach_name G after before roots seeds (d_package (before ! i), d_name (before ! i)) \<Longrightarrow>
     reach_decl G after before roots seeds i"
| seed: "p \<in> seeds \<Longrightarrow> reach_name G after before roots seeds p"
| emit: "reach_decl G after before roots seeds i \<Longrightarrow>
     p \<in> set (decl_names G after (before ! i)) \<Longrightarrow> reach_name G after before roots seeds p"

inductive_cases reach_nameE: "reach_name G after before roots seeds p"

lemma triggered_reach:
  assumes "i < length before" "triggered G N (before ! i)"
    and "\<And>p. p \<in> N \<Longrightarrow> reach_name G after before roots seeds p"
  shows "reach_decl G after before roots seeds i"
proof (cases "d_kind (before ! i) = ''method''")
  case True
  with assms show ?thesis
    by (auto simp: triggered_def Let_def intro: any_method method_of)
next
  case False
  with assms show ?thesis by (auto simp: triggered_def intro: named)
qed

text \<open>What the fields of a cone are, given the declarations it marks.\<close>

definition cone_exact :: "go_syntax \<Rightarrow> tv_decl list \<Rightarrow> tv_decl list \<Rightarrow> pkg_name set \<Rightarrow> cone \<Rightarrow> bool" where
  "cone_exact G after before seeds c \<longleftrightarrow>
     cn_marked c \<subseteq> {..<length before}
     \<and> cn_names c = seeds \<union> (\<Union>i\<in>cn_marked c. set (decl_names G after (before ! i)))
     \<and> cn_file_refs c = (\<Union>i\<in>cn_marked c. set (decl_file_refs after (before ! i)))
     \<and> cn_files c = (\<lambda>i. d_file (before ! i)) ` cn_marked c
     \<and> cn_ids c = (\<lambda>i. id_of_decl (before ! i)) ` cn_marked c"

lemma mark_decl_exact:
  "cone_exact G after before seeds c \<Longrightarrow> i < length before \<Longrightarrow>
     cone_exact G after before seeds (mark_decl G after before i c)"
  by (auto simp: cone_exact_def mark_decl_def Let_def)

definition sound_cone where
  "sound_cone G after before roots seeds c \<longleftrightarrow>
     cone_exact G after before seeds c
     \<and> (\<forall>i\<in>cn_marked c. reach_decl G after before roots seeds i)"

lemma sound_names: "sound_cone G after before roots seeds c \<Longrightarrow> p \<in> cn_names c \<Longrightarrow>
    reach_name G after before roots seeds p"
  by (auto simp: sound_cone_def cone_exact_def intro: seed emit)

lemma sweep_step_sound:
  assumes "sound_cone G after before roots seeds c" "i < length before"
  shows "sound_cone G after before roots seeds (fst (sweep_step G after before i (c, b)))"
  using assms triggered_reach [OF assms(2) _ sound_names [OF assms(1)]]
    mark_decl_exact [of G after before seeds c i]
  by (auto simp: sweep_step_def sound_cone_def)

lemma fold_sweep_sound:
  "set is \<subseteq> {..<length before} \<Longrightarrow> sound_cone G after before roots seeds c \<Longrightarrow>
     sound_cone G after before roots seeds (fst (fold (sweep_step G after before) is (c, b)))"
proof (induction "is" arbitrary: c b)
  case (Cons i "is")
  obtain c1 b1 where step: "sweep_step G after before i (c, b) = (c1, b1)" by fastforce
  with Cons.prems sweep_step_sound [of G after before roots seeds c i b]
  have "sound_cone G after before roots seeds c1" by simp
  with Cons step show ?case by simp
qed simp

lemma sweep_sound: "sound_cone G after before roots seeds c \<Longrightarrow>
    sound_cone G after before roots seeds (fst (sweep G after before c))"
  unfolding sweep_def by (rule fold_sweep_sound) auto

text \<open>A sweep without progress has left every declaration untriggered.\<close>

lemma sweep_idle:
  "fold (sweep_step G after before) is (c, False) = (c', False) \<Longrightarrow>
     c' = c \<and> (\<forall>i\<in>set is. i \<in> cn_marked c \<or> \<not> triggered G (cn_names c) (before ! i))"
proof (induction "is")
  case (Cons i "is")
  have stuck: "snd (fold (sweep_step G after before) js (x, True))" for js x
    by (induction js arbitrary: x) (auto simp: sweep_step_def)
  obtain c1 b1 where step: "sweep_step G after before i (c, False) = (c1, b1)" by fastforce
  with Cons.prems stuck [of "is" c1] have "\<not> b1" by auto
  with step have "c1 = c" "i \<in> cn_marked c \<or> \<not> triggered G (cn_names c) (before ! i)"
    by (auto simp: sweep_step_def split: if_splits)
  with Cons step \<open>\<not> b1\<close> show ?case by simp
qed simp

definition closed_cone where
  "closed_cone G before c \<longleftrightarrow>
     (\<forall>i<length before. triggered G (cn_names c) (before ! i) \<longrightarrow> i \<in> cn_marked c)"

lemma sweep_extends: "cn_marked c \<subseteq> cn_marked (fst (sweep G after before c))"
  using sweep_fold_marked [of "[0..<length before]" before G after c False
      "fst (sweep G after before c)" "snd (sweep G after before c)"]
  by (simp add: sweep_def subset_eq)

lemma close_cone_spec:
  "sound_cone G after before roots seeds c \<Longrightarrow>
     sound_cone G after before roots seeds (close_cone G after before c)
     \<and> closed_cone G before (close_cone G after before c)
     \<and> cn_marked c \<subseteq> cn_marked (close_cone G after before c)"
proof (induction G after before c rule: close_cone.induct)
  case (1 G after before c)
  obtain c' b where sw: "sweep G after before c = (c', b)" by fastforce
  have snd: "sound_cone G after before roots seeds c'"
    using sweep_sound [OF 1(2)] sw by simp
  have ext: "cn_marked c \<subseteq> cn_marked c'" using sweep_extends [of c G after before] sw by simp
  show ?case
  proof (cases b)
    case True
    have "close_cone G after before c = close_cone G after before c'"
      using sw True by (simp add: close_cone.simps [of G after before c])
    with 1(1) [OF sw [symmetric] refl True snd] ext show ?thesis by auto
  next
    case False
    with sw have "c' = c" "closed_cone G before c"
      using sweep_idle [of G after before "[0..<length before]" c c']
      by (auto simp: sweep_def closed_cone_def)
    moreover have "close_cone G after before c = c'"
      using sw False by (simp add: close_cone.simps [of G after before c])
    ultimately show ?thesis using snd by simp
  qed
qed

lemma reach_in_closed:
  assumes "cone_exact G after before seeds c" "closed_cone G before c" "roots \<subseteq> cn_marked c"
  shows "reach_decl G after before roots seeds i \<Longrightarrow> i \<in> cn_marked c"
    and "reach_name G after before roots seeds p \<Longrightarrow> p \<in> cn_names c"
proof (induction rule: reach_decl_reach_name.inducts)
  case (any_method i)
  then show ?case using assms(2) by (auto simp: closed_cone_def triggered_def Let_def)
next
  case (method_of i)
  then show ?case using assms(2) by (auto simp: closed_cone_def triggered_def Let_def)
next
  case (named i)
  then show ?case using assms(2) by (auto simp: closed_cone_def triggered_def Let_def)
qed (use assms in \<open>auto simp: cone_exact_def\<close>)

text \<open>The cone of a subject, as the specification and as the code computes it.\<close>

definition subject_roots :: "go_syntax \<Rightarrow> subject_ref \<Rightarrow> tv_ledger \<Rightarrow> nat set" where
  "subject_roots G s before = {i. i < length (l_decls before)
     \<and> root_decl G s (base_refs (elems (l_base before))) (l_decls before ! i)}"

definition subject_seeds :: "go_syntax \<Rightarrow> subject_ref \<Rightarrow> tv_ledger \<Rightarrow> pkg_name set" where
  "subject_seeds G s before = set (base_names G s (elems (l_base before)))"

abbreviation cone_decl :: "go_syntax \<Rightarrow> subject_ref \<Rightarrow> tv_ledger \<Rightarrow> tv_ledger \<Rightarrow> nat \<Rightarrow> bool" where
  "cone_decl G s before after \<equiv> reach_decl G (l_decls after) (l_decls before)
     (subject_roots G s before) (subject_seeds G s before)"

abbreviation cone_name :: "go_syntax \<Rightarrow> subject_ref \<Rightarrow> tv_ledger \<Rightarrow> tv_ledger \<Rightarrow> pkg_name \<Rightarrow> bool" where
  "cone_name G s before after \<equiv> reach_name G (l_decls after) (l_decls before)
     (subject_roots G s before) (subject_seeds G s before)"

abbreviation subject_cone :: "go_syntax \<Rightarrow> subject_ref \<Rightarrow> tv_ledger \<Rightarrow> tv_ledger \<Rightarrow> cone" where
  "subject_cone G s before after \<equiv>
     close_cone G (l_decls after) (l_decls before) (seed_cone G s before after)"

lemma root_fold:
  "set is \<subseteq> {..<length before} \<Longrightarrow> cone_exact G after before {} c \<Longrightarrow>
     (let c' = fold (\<lambda>i c. if Q i then mark_decl G after before i c else c) is c
      in cone_exact G after before {} c' \<and> cn_marked c' = cn_marked c \<union> {i \<in> set is. Q i})"
proof (induction "is" arbitrary: c)
  case (Cons i "is")
  then show ?case
    using Cons.IH [of "if Q i then mark_decl G after before i c else c"] mark_decl_exact
    by (auto simp: Let_def)
qed simp

lemma seed_cone_sound:
  "sound_cone G (l_decls after) (l_decls before) (subject_roots G s before)
     (subject_seeds G s before) (seed_cone G s before after)"
  and seed_cone_marked: "cn_marked (seed_cone G s before after) = subject_roots G s before"
proof -
  let ?Q = "\<lambda>i. root_decl G s (base_refs (elems (l_base before))) (l_decls before ! i)"
  let ?c = "fold (\<lambda>i c. if ?Q i then mark_decl G (l_decls after) (l_decls before) i c else c)
    [0..<length (l_decls before)] empty_cone"
  have "cone_exact G (l_decls after) (l_decls before) {} empty_cone"
    by (simp add: cone_exact_def empty_cone_def)
  from root_fold [OF _ this, of "[0..<length (l_decls before)]" ?Q]
  have ex: "cone_exact G (l_decls after) (l_decls before) {} ?c"
    and marked: "cn_marked ?c = subject_roots G s before"
    by (auto simp: Let_def subset_eq subject_roots_def empty_cone_def)
  from marked show m: "cn_marked (seed_cone G s before after) = subject_roots G s before"
    by (simp add: seed_cone_def Let_def)
  from ex have "cone_exact G (l_decls after) (l_decls before) (subject_seeds G s before)
      (seed_cone G s before after)"
    by (simp add: cone_exact_def seed_cone_def Let_def subject_seeds_def)
  with m show "sound_cone G (l_decls after) (l_decls before) (subject_roots G s before)
     (subject_seeds G s before) (seed_cone G s before after)"
    by (simp add: sound_cone_def root)
qed

lemma subject_cone_spec:
  fixes G s before after
  defines "c \<equiv> subject_cone G s before after"
  shows "cn_marked c = Collect (cone_decl G s before after)"
    and "cn_names c = Collect (cone_name G s before after)"
    and "cone_exact G (l_decls after) (l_decls before) (subject_seeds G s before) c"
proof -
  note spec = close_cone_spec [OF seed_cone_sound [of G after before s], folded c_def]
  have roots: "subject_roots G s before \<subseteq> cn_marked c"
    using spec by (simp add: seed_cone_marked)
  from spec show ex: "cone_exact G (l_decls after) (l_decls before) (subject_seeds G s before) c"
    by (simp add: sound_cone_def)
  note closed = reach_in_closed [OF ex _ roots]
  from spec closed show "cn_marked c = Collect (cone_decl G s before after)"
    by (auto simp: sound_cone_def)
  from spec closed sound_names show "cn_names c = Collect (cone_name G s before after)"
    by blast
qed

section \<open>What an inert delta preserves\<close>

lemma image_mset_sub: "x \<in># M \<Longrightarrow> f x \<in># image_mset f M"
  by simp

lemma hashes_group_empty: "hashes (group_of ds k) = {#} \<longleftrightarrow> (\<forall>d\<in>set ds. id_of_decl d \<noteq> k)"
  by (auto simp: group_of_def filter_empty_conv)

text \<open>An identity that no changed and no removed declaration has keeps every hash.\<close>

lemma undisturbed_kept:
  assumes "\<forall>x\<in>set (dl_changed (diff_ledgers b a)). id_of_decl (ch_before x) \<noteq> k"
    and "\<forall>x\<in>set (dl_removed (diff_ledgers b a)). id_of_decl x \<noteq> k"
  shows "hashes (group_of (l_decls b) k) \<subseteq># hashes (group_of (l_decls a) k)"
proof -
  have "hashes (group_of (dl_removed (diff_ledgers b a)) k)
      + hashes (group_of (map ch_before (dl_changed (diff_ledgers b a))) k) = {#}"
    using assms by (auto simp: hashes_group_empty group_of_def filter_empty_conv)
  then have "hashes (group_of (l_decls b) k) - hashes (group_of (l_decls a) k) = {#}"
    by (simp only: delta_at_identity)
  then show ?thesis by (simp add: Diff_eq_empty_iff_mset)
qed

lemma inert_delta_parts:
  assumes "inert_delta d"
  shows "dl_bindings d" "dl_changed d = []" "dl_removed d = []" "list_all inert_added (dl_added d)"
    "\<not> list_ex hc_embedded (dl_headers d)"
  using assms by (auto simp: inert_delta_def split: if_splits)

text \<open>The binding maps have distinct files, so lookup and membership agree.\<close>

lemma add_bindings_distinct:
  "add_bindings hs m = Some m' \<Longrightarrow> distinct (map fst m) \<Longrightarrow> distinct (map fst m')"
  by (induction hs m rule: add_bindings.induct)
    (auto split: option.split_asm if_split_asm simp: map_of_eq_None_iff)

lemma ledger_bindings_distinct:
  "ledger_file_bindings l = Some m \<Longrightarrow> (file, b) \<in> set m \<Longrightarrow> map_of m file = Some b"
  using add_bindings_distinct [of _ "[]"]
  by (auto simp: ledger_file_bindings_def intro!: map_of_is_SomeI split: option.split_asm if_split_asm)

lemma bindings_preserved_parts:
  assumes "bindings_preserved b a added"
  obtains old now where "l_base b = l_base a" "ledger_file_bindings b = Some old"
    "ledger_file_bindings a = Some now" "list_all (file_preserved added now) old"
  using assms by (auto simp: bindings_preserved_def split: if_splits option.splits)

lemma inert_for_subject_parts:
  assumes "inert_for_subject G b a symbol" "\<not> inert_delta (diff_ledgers b a)"
  obtains s old now where "parse_subject symbol = Some s"
    "ledger_file_bindings b = Some old" "ledger_file_bindings a = Some now"
    "\<forall>x\<in>set (dl_changed (diff_ledgers b a)). id_of_decl (ch_before x) \<notin> cn_ids (subject_cone G s b a)"
    "\<forall>x\<in>set (dl_removed (diff_ledgers b a)). id_of_decl x \<notin> cn_ids (subject_cone G s b a)"
    "\<forall>x\<in>set (dl_added (diff_ledgers b a)). inert_added x
       \<and> \<not> added_captures G (cn_names (subject_cone G s b a)) (base_refs (elems (l_base b))) x"
    "\<forall>file\<in>cn_files (subject_cone G s b a).
       file_kept old now (cn_file_refs (subject_cone G s b a)) file"
  using assms
  by (auto simp: inert_for_subject_def Let_def list_all_iff list_ex_iff
      split: option.split_asm if_split_asm)

text \<open>What an unchanged file still sees: its package clause and what its references bind.\<close>

definition files_agree :: "tv_decl list \<Rightarrow> tv_bindings \<Rightarrow> tv_bindings option \<Rightarrow> bool" where
  "files_agree added f n \<longleftrightarrow> (case n of None \<Rightarrow> False | Some n \<Rightarrow>
     tb_package n = tb_package f
     \<and> (\<forall>r\<in>set (elems (tb_references f)). file_imports f r = file_imports n r
         \<and> file_imports f ''.'' = file_imports n ''.''
         \<and> (\<forall>x\<in>set added. d_package x = tb_package f \<and> d_name x = r \<longrightarrow> d_name x = ''_'')))"

lemma inert_files_agree:
  assumes "inert_delta (diff_ledgers b a)"
  shows "\<exists>old now. ledger_file_bindings b = Some old \<and> ledger_file_bindings a = Some now
    \<and> (\<forall>(file, f)\<in>set old. files_agree (dl_added (diff_ledgers b a)) f (map_of now file))"
proof -
  have "bindings_preserved b a (diff_added (l_decls b) (l_decls a))"
    and same: "set (dl_added (diff_ledgers b a)) = set (diff_added (l_decls b) (l_decls a))"
    using inert_delta_parts(1) [OF assms] by (simp_all add: diff_ledgers_def Let_def)
  then obtain old now where files: "ledger_file_bindings b = Some old"
    "ledger_file_bindings a = Some now"
    "list_all (file_preserved (diff_added (l_decls b) (l_decls a)) now) old"
    by (elim bindings_preserved_parts)
  have "files_agree (dl_added (diff_ledgers b a)) f (map_of now nm)" if "(nm, f) \<in> set old" for nm f
  proof -
    from files(3) that have "file_preserved (diff_added (l_decls b) (l_decls a)) now (nm, f)"
      by (auto simp: list_all_iff)
    then show ?thesis
      by (cases "map_of now nm")
        (auto simp: file_preserved_def files_agree_def same list_all_iff list_ex_iff)
  qed
  with files(1,2) show ?thesis by blast
qed

text \<open>What the file of a reached declaration keeps for that declaration's references.\<close>

definition subject_file_kept :: "tv_ledger \<Rightarrow> tv_ledger \<Rightarrow> tv_decl \<Rightarrow> bool" where
  "subject_file_kept b a d \<longleftrightarrow> (\<exists>old now f n. ledger_file_bindings b = Some old
     \<and> ledger_file_bindings a = Some now \<and> map_of old (d_file d) = Some f
     \<and> map_of now (d_file d) = Some n \<and> tb_package n = tb_package f
     \<and> (\<forall>r\<in>set (d_references d). r \<noteq> [] \<longrightarrow> file_imports f r = file_imports n r
          \<and> file_imports f ''.'' = file_imports n ''.''))"

lemma subject_file_keptI:
  assumes "ledger_file_bindings b = Some old" "ledger_file_bindings a = Some now"
    and "set (decl_file_refs after d) \<subseteq> refs" "file_kept old now refs (d_file d)"
  shows "subject_file_kept b a d"
proof -
  from assms(4) obtain f n where fn: "map_of old (d_file d) = Some f" "map_of now (d_file d) = Some n"
    "tb_package n = tb_package f"
    "(\<exists>p\<in>refs. fst p = d_file d) \<Longrightarrow> file_imports f ''.'' = file_imports n ''.''"
    "\<And>p. p \<in> refs \<Longrightarrow> fst p = d_file d \<Longrightarrow> file_imports f (snd p) = file_imports n (snd p)"
    by (auto simp: file_kept_def split: option.splits)
  have "(d_file d, r) \<in> refs" if "r \<in> set (d_references d)" "r \<noteq> []" for r
    using that assms(3) by (auto simp: decl_file_refs_def)
  with fn have "file_imports f r = file_imports n r \<and> file_imports f ''.'' = file_imports n ''.''"
    if "r \<in> set (d_references d)" "r \<noteq> []" for r
    using that fn(5) [of "(d_file d, r)"] by force
  with assms(1,2) fn(1-3) show ?thesis unfolding subject_file_kept_def by blast
qed

section \<open>Properties\<close>

text \<open>
  a difference accounts for every declaration: under each identity, the removed entries
  and the recorded sides of the changes are exactly the recorded hashes the current ledger
  lacks, and the added entries and the current sides of the changes are exactly the current
  hashes the recorded ledger lacks, with multiplicity.
\<close>

theorem diff_accounts_for_declarations:
  "let d = diff_ledgers b a in
     hashes (group_of (dl_removed d) k) + hashes (group_of (map ch_before (dl_changed d)) k)
       = hashes (group_of (l_decls b) k) - hashes (group_of (l_decls a) k)
     \<and> hashes (group_of (dl_added d) k) + hashes (group_of (map ch_after (dl_changed d)) k)
       = hashes (group_of (l_decls a) k) - hashes (group_of (l_decls b) k)"
  by (simp only: Let_def delta_at_identity simp_thms)

definition example_decl :: "string \<Rightarrow> string \<Rightarrow> string list \<Rightarrow> tv_decl" where
  "example_decl name hash refs = \<lparr>d_file = ''a_test.go'', d_kind = ''func'', d_name = name,
     d_receiver = [], d_hash = hash, d_package = ''p'', d_references = refs\<rparr>"

definition example_ledger :: "tv_decl list \<Rightarrow> tv_ledger" where
  "example_ledger ds = \<lparr>l_strategy = BindingStrategy, l_base = None, l_decls = ds,
     l_headers = [\<lparr>h_file = ''a_test.go'', h_hash = ''h'', h_embedded = False,
       h_bindings = Some \<lparr>tb_package = ''p'', tb_references = Some [''T''],
         tb_imports = Some [\<lparr>ti_name = ''testing'', ti_path = ''testing''\<rparr>]\<rparr>\<rparr>]\<rparr>"

definition example_syntax :: go_syntax where
  "example_syntax = \<lparr>parse_expr = (\<lambda>_. None), upper_rune = (\<lambda>_. False)\<rparr>"

definition ledger_a :: tv_ledger where
  "ledger_a = example_ledger [example_decl ''TestA'' ''1'' [''T''], example_decl ''TestB'' ''2'' [''T'']]"

definition ledger_b :: tv_ledger where
  "ledger_b = example_ledger [example_decl ''TestA'' ''1'' [''T''], example_decl ''TestB'' ''3'' [''T'']]"

definition ledger_c :: tv_ledger where
  "ledger_c = example_ledger [example_decl ''TestA'' ''1'' [''T''], example_decl ''TestB'' ''2'' [''T''],
     example_decl ''TestC'' ''4'' [''T'']]"

lemma inert_a_c: "inert_delta (diff_ledgers ledger_a ledger_c)"
  by code_simp

lemma not_inert_a_b: "\<not> inert_delta (diff_ledgers ledger_a ledger_b)"
  by code_simp

lemma inert_test_a: "inert_for_subject example_syntax ledger_a ledger_b ''TestA''"
  by code_simp

text \<open>
  a ledger does not differ from itself, and a recognized ledger with complete bindings
  is inert against itself.
\<close>

theorem diff_of_same_ledger:
  assumes "distinct (map h_file (l_headers l))"
  shows "dl_added (diff_ledgers l l) = [] \<and> dl_changed (diff_ledgers l l) = []
    \<and> dl_removed (diff_ledgers l l) = [] \<and> dl_headers (diff_ledgers l l) = []
    \<and> (inert_delta (diff_ledgers l l) \<longleftrightarrow>
        l_strategy l = BindingStrategy \<and> ledger_file_bindings l \<noteq> None)"
proof -
  have left: "left_before ds ds k = []" "left_after ds ds k = []" for ds k
    using leftover_self [of "group_of ds k" "{#}"] by (simp_all add: left_before_def left_after_def)
  then have parts: "key_added ds ds = (\<lambda>_. [])" "key_removed ds ds = (\<lambda>_. [])"
    "key_changed ds ds = (\<lambda>_. [])" for ds
    by (simp_all add: fun_eq_iff key_added_def key_removed_def key_changed_def)
  from parts have added: "diff_added ds ds = []" for ds by (simp add: diff_added_def)
  have hdr: "header_of (l_headers l) (h_file h) = Some h" if "h \<in> set (l_headers l)" for h
    using assms that unfolding header_of_def
    by (intro map_of_is_SomeI) (auto simp: o_def rev_map [symmetric])
  then have "header_moves (l_headers l) (l_headers l) = []"
    by (auto simp: header_moves_def split: option.splits)
  moreover have "bindings_preserved l l [] \<longleftrightarrow> l_strategy l = BindingStrategy
      \<and> ledger_file_bindings l \<noteq> None"
    using ledger_bindings_distinct
    by (auto simp: bindings_preserved_def file_preserved_def list_all_iff split: option.splits)
  ultimately show ?thesis using parts added
    by (simp add: diff_ledgers_def Let_def inert_delta_def)
qed

theorem diff_of_same_ledger_witness: "inert_delta (diff_ledgers ledger_a ledger_a)"
proof -
  have "ledger_file_bindings ledger_a \<noteq> None" "l_strategy ledger_a = BindingStrategy"
    by (simp_all add: ledger_a_def example_ledger_def example_decl_def ledger_file_bindings_def)
  with diff_of_same_ledger [of ledger_a] show ?thesis
    by (simp add: ledger_a_def example_ledger_def)
qed



text \<open>
  the closing loop computes exactly the reference cone: the declarations it marks and
  the names it collects are those inductively reachable from the subject's roots, whatever
  order it visits them in.
\<close>

theorem subject_cone_is_reachability:
  "cn_marked (subject_cone G s before after) = Collect (cone_decl G s before after)
   \<and> cn_names (subject_cone G s before after) = Collect (cone_name G s before after)"
  using subject_cone_spec by blast

text \<open>
  C11: when a delta is inert for a subject without being inert outright, the subject's cone is
  untouched: every reached declaration keeps its recorded hashes, no added declaration takes
  a name the cone can reach, and every reached file keeps its package clause and what its
  references bind.
\<close>

theorem inert_for_subject_preserves:
  assumes "inert_for_subject G b a symbol" "\<not> inert_delta (diff_ledgers b a)"
  shows "\<exists>s. parse_subject symbol = Some s
    \<and> (\<forall>i. cone_decl G s b a i \<longrightarrow>
        hashes (group_of (l_decls b) (id_of_decl (l_decls b ! i)))
          \<subseteq># hashes (group_of (l_decls a) (id_of_decl (l_decls b ! i)))
        \<and> subject_file_kept b a (l_decls b ! i))
    \<and> (\<forall>x\<in>set (dl_added (diff_ledgers b a)). inert_added x
        \<and> (d_name x \<noteq> ''_'' \<longrightarrow> \<not> cone_name G s b a (d_package x, d_name x)))"
  using assms
proof (rule inert_for_subject_parts)
  fix s old now
  assume p: "parse_subject symbol = Some s"
    and files: "ledger_file_bindings b = Some old" "ledger_file_bindings a = Some now"
    and undisturbed:
      "\<forall>x\<in>set (dl_changed (diff_ledgers b a)). id_of_decl (ch_before x) \<notin> cn_ids (subject_cone G s b a)"
      "\<forall>x\<in>set (dl_removed (diff_ledgers b a)). id_of_decl x \<notin> cn_ids (subject_cone G s b a)"
    and added: "\<forall>x\<in>set (dl_added (diff_ledgers b a)). inert_added x
       \<and> \<not> added_captures G (cn_names (subject_cone G s b a)) (base_refs (elems (l_base b))) x"
    and kept: "\<forall>file\<in>cn_files (subject_cone G s b a).
       file_kept old now (cn_file_refs (subject_cone G s b a)) file"
  note spec = subject_cone_spec [where G = G and s = s and before = b and after = a]
  have ids: "id_of_decl (l_decls b ! i) \<in> cn_ids (subject_cone G s b a)"
    and in_files: "d_file (l_decls b ! i) \<in> cn_files (subject_cone G s b a)"
    and refs: "set (decl_file_refs (l_decls a) (l_decls b ! i)) \<subseteq> cn_file_refs (subject_cone G s b a)"
    if "cone_decl G s b a i" for i
    using that spec by (auto simp: cone_exact_def)
  have "hashes (group_of (l_decls b) (id_of_decl (l_decls b ! i)))
      \<subseteq># hashes (group_of (l_decls a) (id_of_decl (l_decls b ! i)))" if "cone_decl G s b a i" for i
    using ids [OF that] undisturbed by (intro undisturbed_kept) auto
  moreover have "subject_file_kept b a (l_decls b ! i)" if "cone_decl G s b a i" for i
    using subject_file_keptI [OF files refs [OF that]] kept in_files [OF that] by simp
  moreover have "inert_added x \<and> (d_name x \<noteq> ''_'' \<longrightarrow> \<not> cone_name G s b a (d_package x, d_name x))"
    if "x \<in> set (dl_added (diff_ledgers b a))" for x
    using added that spec(2) by (auto simp: added_captures_def)
  ultimately show ?thesis using p by blast
qed

theorem inert_for_subject_preserves_witness:
  "\<exists>s. parse_subject ''TestA'' = Some s
    \<and> (\<forall>i. cone_decl example_syntax s ledger_a ledger_b i \<longrightarrow>
        hashes (group_of (l_decls ledger_a) (id_of_decl (l_decls ledger_a ! i)))
          \<subseteq># hashes (group_of (l_decls ledger_b) (id_of_decl (l_decls ledger_a ! i))))"
  using inert_for_subject_preserves [OF inert_test_a not_inert_a_b] by blast

end
