(* ===== verification/Effects.thy ===== *)
theory Effects
  imports Judgment Test_Variant
begin

text \<open>
  The effects a view's operations have. An operation reads a world that may answer
  differently each time it is asked: every read advances the clock, so a context can be
  cancelled and an input can move between any two reads. What code outside this
  development answers is a field of the world: the context, one observation pass of the
  engine, the bound runtime's guards, the runtime-input check and its attribution, the
  precise analysis. An operation also updates a state, and keeps the update when it fails.
\<close>

section \<open>Errors\<close>

datatype subject_scope = SelectedSource | SelectedView | ParentView

datatype record_failure = ShapeFailure subject string | KindFailure subject kind

text \<open>The sentinel errors a caller discriminates, with the rest of their text.\<close>

datatype view_error =
    ViewChanged string
  | AnalysisUnavailable string
  | ContextError string
  | ViewSealed
  | UnknownSubjects "subject list" subject_scope
  | RecordedBatch bool kind "record_failure list"
  | OtherError string

definition analysis_unavailable_error :: "view_error \<Rightarrow> bool" where
  "analysis_unavailable_error e = (case e of AnalysisUnavailable _ \<Rightarrow> True | _ \<Rightarrow> False)"

section \<open>Observations\<close>

record observability =
  ob_observable :: bool
  ob_reason :: string
  ob_outcome_method :: string
  ob_effect_free :: bool

definition no_observability :: observability where
  "no_observability = \<lparr>ob_observable = False, ob_reason = [], ob_outcome_method = [],
     ob_effect_free = False\<rparr>"

text \<open>
  observationFacts. The maps are Go maps read with their zero value; the cut map holds true
  only, so it is a set. The typed source load and the environment reader are not kept.
\<close>

record observation_facts =
  of_maximal :: "subject \<rightharpoonup> subject_facts"
  of_guards :: guards
  of_purity :: "subject \<rightharpoonup> string"
  of_vouches :: "subject \<rightharpoonup> string"
  of_discharges :: "subject \<rightharpoonup> discharges"
  of_cut :: "subject set"
  of_files :: "string list"
  of_files_by :: "subject \<rightharpoonup> string list"
  of_digests :: "string \<rightharpoonup> string"
  of_ledgers :: "string \<rightharpoonup> tv_ledger"

definition no_facts :: observation_facts where
  "no_facts = \<lparr>of_maximal = (\<lambda>_. None), of_guards = no_guards, of_purity = (\<lambda>_. None),
     of_vouches = (\<lambda>_. None), of_discharges = (\<lambda>_. None), of_cut = {}, of_files = [],
     of_files_by = (\<lambda>_. None), of_digests = (\<lambda>_. None), of_ledgers = (\<lambda>_. None)\<rparr>"

abbreviation maximal_of :: "observation_facts \<Rightarrow> subject \<Rightarrow> subject_facts" where
  "maximal_of f s \<equiv> map_get no_subject_facts (of_maximal f) s"

abbreviation purity_of :: "observation_facts \<Rightarrow> subject \<Rightarrow> string" where
  "purity_of f s \<equiv> map_get [] (of_purity f) s"

abbreviation vouches_of :: "observation_facts \<Rightarrow> subject \<Rightarrow> string" where
  "vouches_of f s \<equiv> map_get [] (of_vouches f) s"

abbreviation discharges_of :: "observation_facts \<Rightarrow> subject \<Rightarrow> discharges" where
  "discharges_of f s \<equiv> map_get no_discharges (of_discharges f) s"

abbreviation files_of :: "observation_facts \<Rightarrow> subject \<Rightarrow> string list" where
  "files_of f s \<equiv> map_get [] (of_files_by f) s"

definition closure_of :: "observation_facts \<Rightarrow> subject \<Rightarrow> closure" where
  "closure_of f s = facts_closure (maximal_of f s)"

section \<open>The world and its operations\<close>

record world =
  w_clock :: nat
  w_ctx :: "nat \<Rightarrow> string option"
  w_observe :: "nat \<Rightarrow> view_error + observation_facts"
  w_runtime_guards :: "nat \<Rightarrow> view_error + runtime_guards"
  w_current :: "nat \<Rightarrow> string \<Rightarrow> string \<Rightarrow> view_error + rt_state"
  w_movers :: "nat \<Rightarrow> string \<Rightarrow> string \<Rightarrow> view_error + string list"
  w_analyse :: "nat \<Rightarrow> subject list \<Rightarrow> view_error + (subject \<rightharpoonup> observability)"

type_synonym ('s, 'a) op = "'s \<Rightarrow> world \<Rightarrow> (view_error + 'a) \<times> 's \<times> world"

definition op_return :: "'a \<Rightarrow> ('s, 'a) op" where
  "op_return x s w = (Inr x, s, w)"

definition op_fail :: "view_error \<Rightarrow> ('s, 'a) op" where
  "op_fail e s w = (Inl e, s, w)"

definition op_bind :: "('s, 'a) op \<Rightarrow> ('a \<Rightarrow> ('s, 'b) op) \<Rightarrow> ('s, 'b) op" where
  "op_bind m f s w = (case m s w of
      (Inl e, s', w') \<Rightarrow> (Inl e, s', w')
    | (Inr x, s', w') \<Rightarrow> f x s' w')"

definition op_then :: "('s, 'a) op \<Rightarrow> ('s, 'b) op \<Rightarrow> ('s, 'b) op" where
  "op_then m n = op_bind m (\<lambda>_. n)"

definition op_get :: "('s, 's) op" where
  "op_get s w = (Inr s, s, w)"

definition op_modify :: "('s \<Rightarrow> 's) \<Rightarrow> ('s, unit) op" where
  "op_modify f s w = (Inr (), f s, w)"

text \<open>Running an operation and keeping its error as a value.\<close>

definition op_try :: "('s, 'a) op \<Rightarrow> ('s, view_error + 'a) op" where
  "op_try m s w = (case m s w of (r, s', w') \<Rightarrow> (Inr r, s', w'))"

definition op_lift :: "view_error + 'a \<Rightarrow> ('s, 'a) op" where
  "op_lift r s w = (r, s, w)"

definition tick :: "world \<Rightarrow> world" where
  "tick w = w\<lparr>w_clock := Suc (w_clock w)\<rparr>"

definition op_ask :: "(world \<Rightarrow> nat \<Rightarrow> view_error + 'a) \<Rightarrow> ('s, 'a) op" where
  "op_ask q s w = (q w (w_clock w), s, tick w)"

definition ctx_check :: "('s, unit) op" where
  "ctx_check = op_ask (\<lambda>w t. case w_ctx w t of None \<Rightarrow> Inr () | Some e \<Rightarrow> Inl (ContextError e))"

text \<open>The sources ask the context once more before they report a finding.\<close>

definition fail_live :: "view_error \<Rightarrow> ('s, 'a) op" where
  "fail_live e = op_then ctx_check (op_fail e)"

fun op_for :: "('a \<Rightarrow> ('s, unit) op) \<Rightarrow> 'a list \<Rightarrow> ('s, unit) op" where
  "op_for f [] = op_return ()"
| "op_for f (x # xs) = op_then (f x) (op_for f xs)"

text \<open>The elements an operation answers true for, visited in order.\<close>

fun op_collect :: "('a \<Rightarrow> ('s, bool) op) \<Rightarrow> 'a list \<Rightarrow> ('s, 'a list) op" where
  "op_collect f [] = op_return []"
| "op_collect f (x # xs) = op_bind (f x) (\<lambda>b. op_bind (op_collect f xs)
     (\<lambda>ys. op_return (if b then x # ys else ys)))"

text \<open>The answers of an operation over a list, in order.\<close>

fun op_map :: "('a \<Rightarrow> ('s, 'b) op) \<Rightarrow> 'a list \<Rightarrow> ('s, 'b list) op" where
  "op_map f [] = op_return []"
| "op_map f (x # xs) = op_bind (f x) (\<lambda>y. op_bind (op_map f xs) (\<lambda>ys. op_return (y # ys)))"

text \<open>Running an operation on a part of the state.\<close>

definition op_on :: "('s \<Rightarrow> 't) \<Rightarrow> ('t, 'a) op \<Rightarrow> ('s, 'a) op" where
  "op_on part m s w = (case m (part s) w of (r, _, w') \<Rightarrow> (r, s, w'))"

text \<open>Running an operation on a state of its own; its end state survives a failure.\<close>

definition op_run :: "('t, 'a) op \<Rightarrow> 't \<Rightarrow> ('s, (view_error + 'a) \<times> 't) op" where
  "op_run m t s w = (case m t w of (r, t', w') \<Rightarrow> (Inr (r, t'), s, w'))"

section \<open>What an operation can end in\<close>

lemma op_bind_ok:
  "op_bind m f s w = (Inr y, s2, w2) \<longleftrightarrow>
     (\<exists>x s1 w1. m s w = (Inr x, s1, w1) \<and> f x s1 w1 = (Inr y, s2, w2))"
  by (auto simp: op_bind_def split: prod.splits sum.splits)

lemma op_then_ok:
  "op_then m n s w = (Inr y, s2, w2) \<longleftrightarrow>
     (\<exists>x s1 w1. m s w = (Inr x, s1, w1) \<and> n s1 w1 = (Inr y, s2, w2))"
  by (simp add: op_then_def op_bind_ok)

lemma op_return_ok: "op_return x s w = (Inr y, s2, w2) \<longleftrightarrow> y = x \<and> s2 = s \<and> w2 = w"
  by (auto simp: op_return_def)

lemma op_fail_ok [simp]: "op_fail e s w \<noteq> (Inr y, s2, w2)"
  by (simp add: op_fail_def)

lemma op_get_ok: "op_get s w = (Inr y, s2, w2) \<longleftrightarrow> y = s \<and> s2 = s \<and> w2 = w"
  by (auto simp: op_get_def)

lemma op_modify_ok: "op_modify f s w = (Inr y, s2, w2) \<longleftrightarrow> s2 = f s \<and> w2 = w"
  by (auto simp: op_modify_def)

lemma op_lift_ok: "op_lift r s w = (Inr y, s2, w2) \<longleftrightarrow> r = Inr y \<and> s2 = s \<and> w2 = w"
  by (auto simp: op_lift_def)

lemma op_ask_ok: "op_ask q s w = (Inr y, s2, w2) \<longleftrightarrow>
    q w (w_clock w) = Inr y \<and> s2 = s \<and> w2 = tick w"
  by (auto simp: op_ask_def)

lemma op_try_ok: "op_try m s w = (Inr r, s2, w2) \<longleftrightarrow> m s w = (r, s2, w2)"
  by (auto simp: op_try_def split: prod.splits)

lemma ctx_check_ok: "ctx_check s w = (Inr y, s2, w2) \<longleftrightarrow>
    w_ctx w (w_clock w) = None \<and> s2 = s \<and> w2 = tick w"
  by (auto simp: ctx_check_def op_ask_ok split: option.splits)

lemma fail_live_ok [simp]: "fail_live e s w \<noteq> (Inr y, s2, w2)"
  by (simp add: fail_live_def op_then_ok)

lemma op_if_ok: "(if b then m else n) s w = (Inr y, s2, w2) \<longleftrightarrow>
    (if b then m s w = (Inr y, s2, w2) else n s w = (Inr y, s2, w2))"
  by simp

lemma op_on_ok: "op_on part m s w = (Inr y, s2, w2) \<longleftrightarrow>
    s2 = s \<and> (\<exists>t. m (part s) w = (Inr y, t, w2))"
  by (auto simp: op_on_def split: prod.splits)

lemma op_map_length: "op_map f xs s w = (Inr ys, s2, w2) \<Longrightarrow> length ys = length xs"
  by (induction xs arbitrary: ys s w) (auto simp: op_bind_ok op_return_ok)

text \<open>An invariant of the state and a relation per element carry over a list.\<close>

lemma op_map_rel:
  assumes "\<And>x s w y s2 w2. x \<in> set xs \<Longrightarrow> J s \<Longrightarrow> f x s w = (Inr y, s2, w2) \<Longrightarrow> J s2 \<and> rel x y"
    and "J s" and "op_map f xs s w = (Inr ys, s2, w2)"
  shows "J s2 \<and> list_all2 rel xs ys"
  using assms
proof (induction xs arbitrary: ys s w w2)
  case (Cons x xs)
  from Cons.prems(3) obtain y s1 w1 zs w3 where
    one: "f x s w = (Inr y, s1, w1)" and rest: "op_map f xs s1 w1 = (Inr zs, s2, w3)"
    and ys: "ys = y # zs"
    by (auto simp: op_bind_ok op_return_ok)
  from Cons.prems(1) [OF _ Cons.prems(2) one] have here: "J s1" "rel x y" by simp_all
  have "J s2 \<and> list_all2 rel xs zs"
    by (rule Cons.IH [OF _ here(1) rest]) (rule Cons.prems(1), simp_all)
  with here(2) ys show ?case by simp
qed (simp add: op_return_ok)

lemma op_run_ok: "op_run m t s w = (Inr y, s2, w2) \<longleftrightarrow>
    s2 = s \<and> m t w = (fst y, snd y, w2)"
  by (auto simp: op_run_def split: prod.splits)

lemmas op_ok = op_bind_ok op_then_ok op_return_ok op_get_ok op_modify_ok op_lift_ok op_ask_ok
  op_try_ok ctx_check_ok op_if_ok op_on_ok op_run_ok

text \<open>An operation that never writes the state.\<close>

definition reads_only :: "('s, 'a) op \<Rightarrow> bool" where
  "reads_only m \<longleftrightarrow> (\<forall>s w. fst (snd (m s w)) = s)"

lemma reads_onlyD: "reads_only m \<Longrightarrow> m s w = (r, s2, w2) \<Longrightarrow> s2 = s"
  by (metis fst_conv snd_conv reads_only_def)

lemma reads_only_basic:
  "reads_only (op_return x)" "reads_only (op_fail e)" "reads_only (op_lift r)"
  "reads_only (op_ask q)" "reads_only op_get"
  by (simp_all add: reads_only_def op_return_def op_fail_def op_lift_def op_ask_def op_get_def)

lemma reads_only_bind: "reads_only m \<Longrightarrow> (\<And>x. reads_only (f x)) \<Longrightarrow> reads_only (op_bind m f)"
  by (auto simp: reads_only_def op_bind_def split: prod.splits sum.splits) (metis fst_conv snd_conv)+

lemma reads_only_then: "reads_only m \<Longrightarrow> reads_only n \<Longrightarrow> reads_only (op_then m n)"
  by (simp add: op_then_def reads_only_bind)

lemma reads_only_try: "reads_only m \<Longrightarrow> reads_only (op_try m)"
  by (auto simp: reads_only_def op_try_def split: prod.splits) (metis fst_conv snd_conv)

lemma reads_only_ctx: "reads_only ctx_check" "reads_only (fail_live e)"
  by (simp_all add: ctx_check_def fail_live_def reads_only_basic reads_only_then)

lemma reads_only_for: "(\<And>x. reads_only (f x)) \<Longrightarrow> reads_only (op_for f xs)"
  by (induction xs) (simp_all add: reads_only_basic reads_only_then)

lemma reads_only_collect: "(\<And>x. reads_only (f x)) \<Longrightarrow> reads_only (op_collect f xs)"
  by (induction xs) (simp_all add: reads_only_basic reads_only_bind)

lemma reads_only_map: "(\<And>x. reads_only (f x)) \<Longrightarrow> reads_only (op_map f xs)"
  by (induction xs) (simp_all add: reads_only_basic reads_only_bind)

lemma reads_only_on: "reads_only (op_on part m)"
  by (simp add: reads_only_def op_on_def split: prod.split)

lemma reads_only_run: "reads_only (op_run m t)"
  by (simp add: reads_only_def op_run_def split: prod.split)

lemma reads_only_if: "reads_only m \<Longrightarrow> reads_only n \<Longrightarrow> reads_only (if b then m else n)"
  by simp

lemmas reads_only_rules = reads_only_basic reads_only_bind reads_only_then reads_only_try
  reads_only_ctx reads_only_for reads_only_if
  reads_only_collect reads_only_map reads_only_on reads_only_run

section \<open>The world only advances\<close>

text \<open>
  A world reached from another answers by the same oracles, at a clock that did not go back.
\<close>

definition later :: "world \<Rightarrow> world \<Rightarrow> bool" where
  "later w w2 \<longleftrightarrow> w_clock w \<le> w_clock w2 \<and> w2 = w\<lparr>w_clock := w_clock w2\<rparr>"

lemma later_refl [simp]: "later w w"
  by (simp add: later_def)

lemma later_trans [trans]: "later a b \<Longrightarrow> later b c \<Longrightarrow> later a c"
  unfolding later_def by (metis le_trans world.update_convs(1) world.surjective)

lemma later_tick [simp]: "later w (tick w)"
  by (simp add: later_def tick_def)

lemma later_oracles:
  assumes "later w w2"
  shows "w_ctx w2 = w_ctx w" "w_observe w2 = w_observe w" "w_runtime_guards w2 = w_runtime_guards w"
    "w_current w2 = w_current w" "w_movers w2 = w_movers w" "w_analyse w2 = w_analyse w"
    "w_clock w \<le> w_clock w2"
  by (insert assms, cases w, cases w2, simp add: later_def)+

definition advances :: "('s, 'a) op \<Rightarrow> bool" where
  "advances m \<longleftrightarrow> (\<forall>s w. later w (snd (snd (m s w))))"

lemma advancesD: "advances m \<Longrightarrow> m s w = (r, s2, w2) \<Longrightarrow> later w w2"
  by (metis snd_conv advances_def)

lemma advances_basic:
  "advances (op_return x)" "advances (op_fail e)" "advances (op_lift r)"
  "advances (op_ask q)" "advances op_get" "advances (op_modify g)"
  by (simp_all add: advances_def op_return_def op_fail_def op_lift_def op_ask_def op_get_def
    op_modify_def)

lemma advances_bind: "advances m \<Longrightarrow> (\<And>x. advances (f x)) \<Longrightarrow> advances (op_bind m f)"
  unfolding advances_def op_bind_def
  by (auto split: prod.splits sum.splits) (metis later_trans snd_conv)+

lemma advances_then: "advances m \<Longrightarrow> advances n \<Longrightarrow> advances (op_then m n)"
  by (simp add: op_then_def advances_bind)

lemma advances_try: "advances m \<Longrightarrow> advances (op_try m)"
  by (auto simp: advances_def op_try_def split: prod.splits) (metis snd_conv)

lemma advances_ctx: "advances ctx_check" "advances (fail_live e)"
  by (simp_all add: ctx_check_def fail_live_def advances_basic advances_then)

lemma advances_for: "(\<And>x. advances (f x)) \<Longrightarrow> advances (op_for f xs)"
  by (induction xs) (simp_all add: advances_basic advances_then)

lemma advances_collect: "(\<And>x. advances (f x)) \<Longrightarrow> advances (op_collect f xs)"
  by (induction xs) (simp_all add: advances_basic advances_bind)

lemma advances_map: "(\<And>x. advances (f x)) \<Longrightarrow> advances (op_map f xs)"
  by (induction xs) (simp_all add: advances_basic advances_bind)

lemma advances_on: "advances m \<Longrightarrow> advances (op_on part m)"
  by (auto simp: advances_def op_on_def split: prod.split) (metis snd_conv)

lemma advances_run: "advances m \<Longrightarrow> advances (op_run m t)"
  by (auto simp: advances_def op_run_def split: prod.split) (metis snd_conv)

lemma advances_if: "advances m \<Longrightarrow> advances n \<Longrightarrow> advances (if b then m else n)"
  by simp

lemma advances_option:
  "advances m \<Longrightarrow> (\<And>x. advances (f x)) \<Longrightarrow> advances (case o' of None \<Rightarrow> m | Some x \<Rightarrow> f x)"
  by (cases o') simp_all

lemma advances_sum:
  "(\<And>x. advances (g x)) \<Longrightarrow> (\<And>x. advances (f x)) \<Longrightarrow> advances (case r of Inl x \<Rightarrow> g x | Inr x \<Rightarrow> f x)"
  by (cases r) simp_all

lemma advances_prod: "(\<And>x y. advances (f x y)) \<Longrightarrow> advances (case p of (x, y) \<Rightarrow> f x y)"
  by (cases p) simp

lemmas advances_rules = advances_basic advances_bind advances_then advances_try advances_ctx
  advances_for advances_if advances_collect advances_map advances_on advances_run
  advances_option advances_sum advances_prod

end
