(* ===== verification/Snapshot_View.thy ===== *)
theory Snapshot_View
  imports Effects
begin

text \<open>
  view.go, the snapshot itself: its immutable facts and its transactional state (captured
  proofs, attachments, seal, retained applicability checks); membership; capture; attachment;
  the sibling a caller derives over a subset; and judgment.go's \<open>judgmentFor\<close>. An engine is
  what the snapshot reads of it: the execution model and whether checks defer their close.
  An uninitialized snapshot is one without facts. The lemmas show what a membership refusal
  names, that a captured observation proof is the one a check admits, that an attachment
  binds one state to the exact captured fingerprint, and what a sibling keeps.
\<close>

section \<open>The snapshot\<close>

record engine =
  en_model :: execution_model
  en_deferred :: bool

record applicability_check =
  ac_recorded :: fingerprint
  ac_subject :: subject
  ac_observed :: bool

record snapshot =
  sn_engine :: "engine option"
  sn_subjects :: "subject list"
  sn_packages :: "string list"
  sn_root :: string
  sn_kind :: kind
  sn_facts :: "observation_facts option"
  sn_runtime :: "runtime_guards option"
  sn_observable :: "subject \<rightharpoonup> observability"
  sn_captured :: "subject set"
  sn_attached :: "subject \<rightharpoonup> rt_state"
  sn_sealed :: bool
  sn_checks :: "applicability_check list"
  sn_cut_unavailable :: "view_error option"

definition facts_of :: "snapshot \<Rightarrow> observation_facts" where
  "facts_of v = (case sn_facts v of Some f \<Rightarrow> f | None \<Rightarrow> no_facts)"

definition uninitialized :: view_error where
  "uninitialized = OtherError ''gofresh: uninitialized snapshot''"

definition snapshot_guards :: "snapshot \<Rightarrow> guards" where
  "snapshot_guards v = (case sn_runtime v of
      None \<Rightarrow> of_guards (facts_of v)
    | Some r \<Rightarrow> (of_guards (facts_of v))\<lparr>g_machine := rg_machine r,
                  g_runtime_config := rg_runtime_config r\<rparr>)"

definition deferred_close :: "snapshot \<Rightarrow> bool" where
  "deferred_close v = (case sn_engine v of None \<Rightarrow> False | Some e \<Rightarrow> en_deferred e)"

section \<open>Membership and scope\<close>

text \<open>requireSubjects: every missing member once, in request order.\<close>

definition missing_subjects :: "subject list \<Rightarrow> (subject \<Rightarrow> bool) \<Rightarrow> subject list" where
  "missing_subjects subjects contains = filter (\<lambda>s. \<not> contains s) (first_seen subjects)"

definition require_subjects :: "subject list \<Rightarrow> (subject \<Rightarrow> bool) \<Rightarrow> subject_scope \<Rightarrow> view_error option" where
  "require_subjects subjects contains scope =
     (let unknown = missing_subjects subjects contains in
      if unknown = [] then None else Some (UnknownSubjects unknown scope))"

definition require_members :: "snapshot \<Rightarrow> subject list \<Rightarrow> view_error option" where
  "require_members v subjects =
     require_subjects subjects (\<lambda>s. of_maximal (facts_of v) s \<noteq> None) SelectedView"

definition unknown_subjects_text :: "subject list \<Rightarrow> subject_scope \<Rightarrow> string" where
  "unknown_subjects_text subjects scope =
     ''gofresh: '' @ (if length subjects = 1 then ''subject'' else ''subjects'') @ '' ''
     @ join_with '', '' (map (\<lambda>s. s_package s @ ''.'' @ s_symbol s) subjects) @ '' ''
     @ (case scope of SelectedView \<Rightarrow> ''not in this analysis view''
        | ParentView \<Rightarrow> ''not in the parent view''
        | SelectedSource \<Rightarrow> ''not found in selected source'')"

definition empty_subject :: "subject \<Rightarrow> bool" where
  "empty_subject s \<longleftrightarrow> s_package s = [] \<or> s_symbol s = []"

text \<open>scopeSubjects: the deduplicated subjects and their packages in first-seen order.\<close>

definition scope_subjects :: "subject list \<Rightarrow> view_error + (subject list \<times> string list)" where
  "scope_subjects subjects =
     (case find empty_subject subjects of
        Some s \<Rightarrow> Inl (OtherError (''gofresh: invalid empty subject {Package:'' @ s_package s
          @ '' Symbol:'' @ s_symbol s @ ''}''))
      | None \<Rightarrow> (let unique = first_seen subjects in
        Inr (unique, first_seen (map s_package unique))))"

text \<open>sortedUniqueUnion.\<close>

definition sorted_union :: "string list list \<Rightarrow> string list" where
  "sorted_union groups = sort (first_seen (concat groups))"

section \<open>Capture\<close>

definition fingerprint_locked :: "snapshot \<Rightarrow> subject \<Rightarrow> closure \<Rightarrow> fingerprint" where
  "fingerprint_locked v s cl = (let f = facts_of v; d = discharges_of f s in
     no_fingerprint\<lparr>fp_maximal := c_hash cl, fp_test_variants := c_test_variants cl,
       fp_toolchain_content := c_toolchain_content cl, fp_admission := c_admission cl,
       fp_guards := snapshot_guards v, fp_purity := purity_of f s, fp_vouches := vouches_of f s,
       fp_single_subject := d_single_subject d, fp_package_process := d_package_process d,
       fp_dynamic_strategy := DynamicStateStrategy, fp_closure_strategy := ClosureStrategy,
       fp_kind := sn_kind v\<rparr>)"

definition capture :: "snapshot \<Rightarrow> subject \<Rightarrow> view_error + fingerprint" where
  "capture v s =
     (if sn_facts v = None then Inl uninitialized
      else if sn_sealed v then Inl ViewSealed
      else (case require_members v [s] of Some e \<Rightarrow> Inl e
        | None \<Rightarrow> Inr (fingerprint_locked v s (closure_of (facts_of v) s))))"

definition capture_batch :: "snapshot \<Rightarrow> view_error + (subject \<rightharpoonup> fingerprint)" where
  "capture_batch v =
     (if sn_facts v = None then Inl uninitialized
      else if sn_sealed v then Inl ViewSealed
      else Inr (fold (\<lambda>s m. m(s \<mapsto> fingerprint_locked v s (closure_of (facts_of v) s)))
        (sn_subjects v) (\<lambda>_. None)))"

definition source_files_for :: "snapshot \<Rightarrow> subject \<Rightarrow> view_error + string list" where
  "source_files_for v s =
     (if sn_facts v = None then Inl uninitialized
      else (case require_members v [s] of Some e \<Rightarrow> Inl e | None \<Rightarrow> Inr (files_of (facts_of v) s)))"

definition test_variant_ledger :: "snapshot \<Rightarrow> subject \<Rightarrow> view_error + tv_ledger" where
  "test_variant_ledger v s =
     (if sn_facts v = None then Inl uninitialized
      else (case require_members v [s] of Some e \<Rightarrow> Inl e
        | None \<Rightarrow> Inr (clone_ledger (map_get no_ledger (of_ledgers (facts_of v)) (s_package s)))))"

text \<open>The observed form adds the proof and the digest that binds it.\<close>

definition observed_fingerprint_locked :: "snapshot \<Rightarrow> subject \<Rightarrow> fingerprint" where
  "observed_fingerprint_locked v s =
     (let disposition = map_get no_observability (sn_observable v) s;
          f = (fingerprint_locked v s (closure_of (facts_of v) s))
                \<lparr>fp_observation_assertion := ''caller assertion'',
                 fp_proof := \<lparr>op_strategy = ObservationRTA, op_subject = s,
                   op_observable = ob_observable disposition, op_reason = ob_reason disposition,
                   op_evidence = []\<rparr>\<rparr>
      in f\<lparr>fp_proof := (fp_proof f)\<lparr>op_evidence :=
            proof_evidence_mode f (ob_effect_free disposition)\<rparr>\<rparr>)"

section \<open>Attachment\<close>

text \<open>attachRuntimeState; a nil state is None.\<close>

definition attach_runtime_state ::
    "snapshot \<Rightarrow> subject \<Rightarrow> fingerprint \<Rightarrow> rt_state option \<Rightarrow> bool
      \<Rightarrow> view_error + (fingerprint \<times> snapshot)" where
  "attach_runtime_state v s fp state observed =
     (if sn_sealed v then Inl ViewSealed
      else (case require_members v [s] of Some e \<Rightarrow> Inl e
        | None \<Rightarrow>
           (let want = (if observed then observed_fingerprint_locked v s
                        else fingerprint_locked v s (closure_of (facts_of v) s))
            in if (observed \<and> s \<notin> sn_captured v) \<or> fp \<noteq> want
               then Inl (OtherError ''gofresh: observation does not match captured subject proof'')
               else (case state of None \<Rightarrow> Inr (fp, v)
                 | Some st \<Rightarrow>
                    (if sn_attached v s \<noteq> None
                     then Inl (OtherError ''gofresh: runtime observation already attached for subject'')
                     else Inr (fp\<lparr>fp_runtime_inputs := rt_manifest st,
                                 fp_runtime_digest := rt_digest st\<rparr>,
                               v\<lparr>sn_attached := (sn_attached v)(s \<mapsto> st)\<rparr>))))))"

text \<open>
  AttachObservation; \<open>completed\<close> is runtimeinput.CompletedState of the caller's observation.
\<close>

definition attach_observation ::
    "snapshot \<Rightarrow> subject \<Rightarrow> fingerprint \<Rightarrow> (view_error + rt_state) \<Rightarrow> bool
      \<Rightarrow> view_error + (fingerprint \<times> snapshot)" where
  "attach_observation v s fp completed observed =
     (case completed of Inl e \<Rightarrow> Inl e
      | Inr st \<Rightarrow> attach_runtime_state v s fp (Some st) observed)"

section \<open>Siblings\<close>

definition restrict_to :: "subject list \<Rightarrow> (subject \<rightharpoonup> 'a) \<Rightarrow> (subject \<rightharpoonup> 'a)" where
  "restrict_to subjects m = (\<lambda>s. if s \<in> set subjects then m s else None)"

definition sibling_facts :: "observation_facts \<Rightarrow> subject list \<Rightarrow> string list \<Rightarrow> observation_facts" where
  "sibling_facts f unique packages =
     \<lparr>of_maximal = restrict_to unique (of_maximal f), of_guards = of_guards f,
      of_purity = restrict_to unique (of_purity f), of_vouches = restrict_to unique (of_vouches f),
      of_discharges = restrict_to unique (of_discharges f), of_cut = of_cut f \<inter> set unique,
      of_files = sorted_union (map (files_of f) unique),
      of_files_by = (\<lambda>s. if s \<in> set unique then Some (files_of f s) else None),
      of_digests = of_digests f,
      of_ledgers = (\<lambda>p. if p \<in> set packages then of_ledgers f p else None)\<rparr>"

definition sibling :: "snapshot \<Rightarrow> subject list \<Rightarrow> view_error + snapshot" where
  "sibling v subjects =
     (case sn_facts v of None \<Rightarrow> Inl uninitialized
      | Some f \<Rightarrow>
        if subjects = [] then Inl (OtherError ''gofresh: sibling view requires at least one subject'')
        else (case require_subjects subjects (\<lambda>s. s \<in> set (sn_subjects v)) ParentView of
            Some e \<Rightarrow> Inl e
          | None \<Rightarrow> (case scope_subjects subjects of Inl e \<Rightarrow> Inl e
            | Inr (unique, packages) \<Rightarrow>
              (let g = sibling_facts f unique packages in
               Inr \<lparr>sn_engine = sn_engine v, sn_subjects = unique, sn_packages = packages,
                    sn_root = sn_root v, sn_kind = sn_kind v, sn_facts = Some g,
                    sn_runtime = sn_runtime v,
                    sn_observable = restrict_to unique (sn_observable v),
                    sn_captured = sn_captured v \<inter> set unique,
                    sn_attached = (\<lambda>_. None), sn_sealed = False,
                    sn_checks = filter (\<lambda>c. of_maximal g (ac_subject c) \<noteq> None) (sn_checks v),
                    sn_cut_unavailable = None\<rparr>))))"

text \<open>RuntimeBinding.newView: a sibling of the binding's snapshot under its runtime guards.\<close>

definition bound_view :: "snapshot \<Rightarrow> runtime_guards \<Rightarrow> subject list \<Rightarrow> view_error + snapshot" where
  "bound_view v runtime subjects =
     (if sn_facts v = None then Inl (OtherError ''gofresh: uninitialized runtime binding'')
      else (case sibling v subjects of Inl e \<Rightarrow> Inl e
        | Inr s \<Rightarrow> Inr (s\<lparr>sn_runtime := Some runtime\<rparr>)))"

section \<open>Judgments\<close>

definition purity_matches :: "snapshot \<Rightarrow> fingerprint \<Rightarrow> subject \<Rightarrow> purity_authority" where
  "purity_matches v rec s = \<lparr>pu_recorded = attribution_of (fp_purity rec),
     pu_current = attribution_of (purity_of (facts_of v) s)\<rparr>"

definition judgment_for :: "snapshot \<Rightarrow> subject \<Rightarrow> verdict \<Rightarrow> verdict" where
  "judgment_for v s verdict =
     (let g0 = v_ground verdict;
          g1 = g0\<lparr>jg_scope := \<lparr>js_subject = s, js_kind = sn_kind v,
                 js_model = (case sn_engine v of Some e \<Rightarrow> en_model e | None \<Rightarrow> GeneralExecution)\<rparr>\<rparr>;
          g2 = (if ca_kind (jg_cause g1) = SharedDynamicStateCause \<and> s \<in> of_cut (facts_of v)
                then g1\<lparr>jg_cause := (jg_cause g1)\<lparr>ca_condition := Unavailable,
                       ca_culprit := no_subject\<rparr>\<rparr>
                else g1);
          g3 = (if aa_guards (jg_accepted g2)
                then (let d = discharges_of (facts_of v) s in
                  g2\<lparr>jg_accepted := (jg_accepted g2)\<lparr>aa_vouches := vouches_of (facts_of v) s,
                       aa_single_subject := d_single_subject d,
                       aa_package_process := d_package_process d\<rparr>\<rparr>)
                else g2)
      in verdict\<lparr>v_ground := g3\<rparr>)"

lemma judgment_for_status [simp]:
  "v_status (judgment_for v s verdict) = v_status verdict"
  "v_reason (judgment_for v s verdict) = v_reason verdict"
  by (simp_all add: judgment_for_def Let_def)

lemma judgment_for_cause [simp]: "ca_kind (v_cause (judgment_for v s verdict)) = ca_kind (v_cause verdict)"
  by (simp add: judgment_for_def Let_def)

section \<open>Membership\<close>

lemma require_subjects_ok:
  "require_subjects subjects contains scope = None \<longleftrightarrow> (\<forall>s\<in>set subjects. contains s)"
  by (auto simp: require_subjects_def missing_subjects_def Let_def filter_empty_conv)

lemma require_members_ok:
  "require_members v subjects = None \<longleftrightarrow> (\<forall>s\<in>set subjects. of_maximal (facts_of v) s \<noteq> None)"
  by (simp add: require_members_def require_subjects_ok)

lemma set_sorted_union [simp]: "set (sorted_union groups) = (\<Union>g\<in>set groups. set g)"
  by (simp add: sorted_union_def)

lemma sorted_union_canonical: "sorted (sorted_union groups) \<and> distinct (sorted_union groups)"
  by (simp add: sorted_union_def)

lemma sorted_union_cong:
  "(\<Union>g\<in>set a. set g) = (\<Union>g\<in>set b. set g) \<Longrightarrow> sorted_union a = sorted_union b"
  by (metis set_sorted_union sorted_distinct_set_unique sorted_union_canonical)

section \<open>What capture binds\<close>

lemma evidence_ignores_result:
  "proof_evidence_mode (f\<lparr>fp_runtime_inputs := m, fp_runtime_digest := d\<rparr>) b = proof_evidence_mode f b"
  "proof_evidence_mode (f\<lparr>fp_proof := (fp_proof f)\<lparr>op_evidence := e\<rparr>\<rparr>) b = proof_evidence_mode f b"
  by (simp_all add: proof_evidence_mode_def evidence_preimage_def Let_def)

lemma observed_fingerprint_fields:
  "fp_observation_assertion (observed_fingerprint_locked v s) = ''caller assertion''"
  "op_strategy (fp_proof (observed_fingerprint_locked v s)) = ObservationRTA"
  "op_subject (fp_proof (observed_fingerprint_locked v s)) = s"
  "op_observable (fp_proof (observed_fingerprint_locked v s))
     = ob_observable (map_get no_observability (sn_observable v) s)"
  "op_reason (fp_proof (observed_fingerprint_locked v s))
     = ob_reason (map_get no_observability (sn_observable v) s)"
  "fp_admission (observed_fingerprint_locked v s) = c_admission (closure_of (facts_of v) s)"
  "fp_toolchain_content (observed_fingerprint_locked v s)
     = c_toolchain_content (closure_of (facts_of v) s)"
  "fp_maximal (observed_fingerprint_locked v s) = c_hash (closure_of (facts_of v) s)"
  by (simp_all add: observed_fingerprint_locked_def fingerprint_locked_def Let_def)

lemma observed_fingerprint_evidence:
  "op_evidence (fp_proof (observed_fingerprint_locked v s)) =
     proof_evidence_mode (observed_fingerprint_locked v s)
       (ob_effect_free (map_get no_observability (sn_observable v) s))"
proof -
  let ?d = "map_get no_observability (sn_observable v) s"
  let ?f = "(fingerprint_locked v s (closure_of (facts_of v) s))
      \<lparr>fp_observation_assertion := ''caller assertion'',
       fp_proof := \<lparr>op_strategy = ObservationRTA, op_subject = s, op_observable = ob_observable ?d,
         op_reason = ob_reason ?d, op_evidence = []\<rparr>\<rparr>"
  have "observed_fingerprint_locked v s =
      ?f\<lparr>fp_proof := (fp_proof ?f)\<lparr>op_evidence := proof_evidence_mode ?f (ob_effect_free ?d)\<rparr>\<rparr>"
    by (simp add: observed_fingerprint_locked_def Let_def)
  then show ?thesis by (simp only: evidence_ignores_result) simp
qed

text \<open>A disposition the analysis produces: a reason exactly for a refusal.\<close>

definition coherent_disposition :: "observability \<Rightarrow> bool" where
  "coherent_disposition d \<longleftrightarrow> (ob_observable d \<longleftrightarrow> ob_reason d = [])
     \<and> (ob_effect_free d \<longrightarrow> ob_observable d)"

lemma captured_proof_compatible:
  assumes "coherent_disposition (map_get no_observability (sn_observable v) s)"
    and "c_toolchain_content (closure_of (facts_of v) s) \<noteq> []"
    and "c_admission (closure_of (facts_of v) s) \<noteq> []"
  shows "compatible_proof ((observed_fingerprint_locked v s)
    \<lparr>fp_runtime_inputs := m, fp_runtime_digest := d\<rparr>) s"
proof (cases "ob_effect_free (map_get no_observability (sn_observable v) s)")
  case True
  with assms show ?thesis
    by (auto simp: compatible_proof_def compatible_proof_mode_def Let_def observed_fingerprint_fields
        observed_fingerprint_evidence coherent_disposition_def proof_evidence_def evidence_ignores_result)
next
  case False
  with assms show ?thesis
    by (auto simp: compatible_proof_def compatible_proof_mode_def Let_def observed_fingerprint_fields
        observed_fingerprint_evidence coherent_disposition_def proof_evidence_def evidence_ignores_result)
qed

section \<open>What a sibling keeps\<close>

lemma sibling_parts:
  assumes "sibling v subjects = Inr u"
  obtains f unique packages where "sn_facts v = Some f" "scope_subjects subjects = Inr (unique, packages)"
    "set unique = set subjects" "set subjects \<subseteq> set (sn_subjects v)"
    "sn_facts u = Some (sibling_facts f unique packages)" "set packages = s_package ` set subjects"
proof -
  from assms obtain f unique packages where *: "sn_facts v = Some f"
    "require_subjects subjects (\<lambda>s. s \<in> set (sn_subjects v)) ParentView = None"
    "scope_subjects subjects = Inr (unique, packages)"
    "sn_facts u = Some (sibling_facts f unique packages)"
    by (auto simp: sibling_def Let_def split: option.split_asm if_split_asm sum.split_asm)
  moreover from *(3) have "set unique = set subjects" "set packages = s_package ` set subjects"
    by (auto simp: scope_subjects_def Let_def split: option.split_asm)
  moreover from *(2) have "set subjects \<subseteq> set (sn_subjects v)" by (auto simp: require_subjects_ok)
  ultimately show thesis by (intro that)
qed

lemma sibling_fields:
  assumes "sibling v subjects = Inr u"
  shows "sn_engine u = sn_engine v" "sn_kind u = sn_kind v" "sn_runtime u = sn_runtime v"
    "sn_root u = sn_root v" "\<not> sn_sealed u" "sn_attached u = (\<lambda>_. None)"
    "sn_cut_unavailable u = None" "set (sn_subjects u) = set subjects"
    "s \<in> set subjects \<Longrightarrow> sn_observable u s = sn_observable v s"
    "sn_captured u = sn_captured v \<inter> set subjects"
  using assms
  by (auto simp: sibling_def scope_subjects_def Let_def restrict_to_def
      split: option.split_asm if_split_asm sum.split_asm)

lemma sibling_facts_at:
  assumes "sibling v subjects = Inr u" "s \<in> set subjects"
  shows "of_maximal (facts_of u) s = of_maximal (facts_of v) s"
    "maximal_of (facts_of u) s = maximal_of (facts_of v) s"
    "purity_of (facts_of u) s = purity_of (facts_of v) s"
    "vouches_of (facts_of u) s = vouches_of (facts_of v) s"
    "discharges_of (facts_of u) s = discharges_of (facts_of v) s"
    "files_of (facts_of u) s = files_of (facts_of v) s"
    "s \<in> of_cut (facts_of u) \<longleftrightarrow> s \<in> of_cut (facts_of v)"
    "of_ledgers (facts_of u) (s_package s) = of_ledgers (facts_of v) (s_package s)"
    "of_guards (facts_of u) = of_guards (facts_of v)"
  using assms(1)
  by (rule sibling_parts;
      use assms(2) in \<open>auto simp: facts_of_def sibling_facts_def restrict_to_def map_get_def\<close>)+

lemma sibling_closure:
  "sibling v subjects = Inr u \<Longrightarrow> s \<in> set subjects \<Longrightarrow>
     closure_of (facts_of u) s = closure_of (facts_of v) s"
  by (simp add: closure_of_def sibling_facts_at)

lemma sibling_fingerprint:
  assumes "sibling v subjects = Inr u" "s \<in> set subjects"
  shows "fingerprint_locked u s cl = fingerprint_locked v s cl"
  using sibling_facts_at [OF assms] sibling_fields(2,3) [OF assms(1)]
  by (simp add: fingerprint_locked_def snapshot_guards_def Let_def split: option.split)

lemma sibling_observed_fingerprint:
  assumes "sibling v subjects = Inr u" "s \<in> set subjects"
  shows "observed_fingerprint_locked u s = observed_fingerprint_locked v s"
  using sibling_fingerprint [OF assms] sibling_closure [OF assms] sibling_fields(9) [OF assms]
  by (simp add: observed_fingerprint_locked_def map_get_def Let_def)

lemma sibling_initialized: "sibling v subjects = Inr u \<Longrightarrow> sn_facts u \<noteq> None \<and> sn_facts v \<noteq> None"
  by (erule sibling_parts) simp

section \<open>Properties\<close>

text \<open>
  an observation proof captured by a view is the proof a check admits: the captured
  record, with whatever runtime evidence was attached to it since, is a compatible proof of
  its subject, so it is admitted under an unchanged admission policy as soon as the manifest
  supports its outcomes.
\<close>

theorem captured_proof_is_admitted:
  fixes v s m d
  defines "f \<equiv> (observed_fingerprint_locked v s)\<lparr>fp_runtime_inputs := m, fp_runtime_digest := d\<rparr>"
  assumes "coherent_disposition (map_get no_observability (sn_observable v) s)"
    and "ob_observable (map_get no_observability (sn_observable v) s)"
    and "c_toolchain_content (closure_of (facts_of v) s) \<noteq> []"
    and "c_admission (closure_of (facts_of v) s) \<noteq> []"
    and "supported m (outcome_subject f s)"
  shows "observation_accepted (admitted_observation supported f s (closure_of (facts_of v) s))"
  using assms captured_proof_compatible [where v = v and s = s and m = m and d = d]
  by (auto simp: admitted_observation_accepted observed_fingerprint_fields)

definition example_subject :: subject where
  "example_subject = \<lparr>s_package = ''p'', s_symbol = ''TestA''\<rparr>"

definition example_facts :: observation_facts where
  "example_facts = no_facts\<lparr>of_maximal := [example_subject \<mapsto> no_subject_facts
     \<lparr>sf_source := \<lparr>mf_identity = \<lparr>mi_hash = ''m'', mi_test_variants = ''v'',
        mi_toolchain_content = ''t'', mi_admission = ''a''\<rparr>, mf_effects = [], mf_diagnostic = []\<rparr>\<rparr>],
     of_guards := example_guards\<rparr>"

definition example_view :: snapshot where
  "example_view = \<lparr>sn_engine = Some \<lparr>en_model = GeneralExecution, en_deferred = False\<rparr>,
     sn_subjects = [example_subject], sn_packages = [''p''], sn_root = ''/r'', sn_kind = CodeResult,
     sn_facts = Some example_facts, sn_runtime = None,
     sn_observable = [example_subject \<mapsto> \<lparr>ob_observable = True, ob_reason = [],
        ob_outcome_method = Method, ob_effect_free = False\<rparr>],
     sn_captured = {example_subject}, sn_attached = (\<lambda>_. None), sn_sealed = False,
     sn_checks = [], sn_cut_unavailable = None\<rparr>"

lemma example_view_closure:
  "c_toolchain_content (closure_of (facts_of example_view) example_subject) = ''t''"
  "c_admission (closure_of (facts_of example_view) example_subject) = ''a''"
  by (simp_all add: closure_of_def facts_of_def example_view_def example_facts_def)

lemma example_view_state: "require_members example_view [example_subject] = None"
  "\<not> sn_sealed example_view" "sn_captured example_view = {example_subject}"
  "sn_attached example_view example_subject = None"
  by (simp_all add: require_members_ok facts_of_def example_view_def example_facts_def)

theorem captured_proof_is_admitted_witness:
  "observation_accepted (admitted_observation (\<lambda>_ _. True)
     ((observed_fingerprint_locked example_view example_subject)
        \<lparr>fp_runtime_inputs := ''m'', fp_runtime_digest := ''d''\<rparr>)
     example_subject (closure_of (facts_of example_view) example_subject))"
  by (rule captured_proof_is_admitted)
    (simp_all add: example_view_closure, simp_all add: example_view_def coherent_disposition_def)

text \<open>
  an attachment binds one runtime state to the exact fingerprint the view captured: the
  result differs from it in the manifest and digest only, the view is otherwise unchanged,
  and a second attachment for the subject is refused.
\<close>

theorem attachment_binds_captured_fingerprint:
  assumes "attach_runtime_state v s fp (Some st) observed = Inr (fp', v')"
  shows "fp = (if observed then observed_fingerprint_locked v s
         else fingerprint_locked v s (closure_of (facts_of v) s))
    \<and> fp' = fp\<lparr>fp_runtime_inputs := rt_manifest st, fp_runtime_digest := rt_digest st\<rparr>
    \<and> v' = v\<lparr>sn_attached := (sn_attached v)(s \<mapsto> st)\<rparr> \<and> sn_attached v s = None
    \<and> (\<exists>e. attach_runtime_state v' s fp (Some st') observed = Inl e)"
  using assms
  by (auto simp: attach_runtime_state_def require_members_def facts_of_def Let_def
      fingerprint_locked_def observed_fingerprint_locked_def snapshot_guards_def
      split: if_split_asm option.split_asm)

theorem attachment_binds_captured_fingerprint_witness:
  "\<exists>fp' v'. attach_runtime_state example_view example_subject
      (observed_fingerprint_locked example_view example_subject) (Some no_rt_state) True = Inr (fp', v')
    \<and> (\<exists>e. attach_runtime_state v' example_subject
        (observed_fingerprint_locked example_view example_subject) (Some no_rt_state) True = Inl e)"
proof -
  obtain fp' v' where a: "attach_runtime_state example_view example_subject
      (observed_fingerprint_locked example_view example_subject) (Some no_rt_state) True = Inr (fp', v')"
    by (simp add: attach_runtime_state_def example_view_state Let_def)
  with attachment_binds_captured_fingerprint [OF a] show ?thesis by blast
qed

text \<open>
  C28: a sibling serves its parent's facts: over the requested subjects, which all belong to
  the parent, capture, the observed fingerprint and the closure answer exactly as the
  parent's do, while attachments and the seal start fresh.
\<close>

theorem sibling_serves_parent_facts:
  assumes "sibling v subjects = Inr u" "s \<in> set subjects" "\<not> sn_sealed v"
  shows "capture u s = capture v s
    \<and> observed_fingerprint_locked u s = observed_fingerprint_locked v s
    \<and> test_variant_ledger u s = test_variant_ledger v s
    \<and> source_files_for u s = source_files_for v s
    \<and> s \<in> set (sn_subjects v) \<and> \<not> sn_sealed u \<and> sn_attached u = (\<lambda>_. None)"
proof -
  note at = sibling_facts_at [OF assms(1,2)]
  have mem: "require_members u [s] = require_members v [s]"
    by (simp add: require_members_def require_subjects_def missing_subjects_def at first_seen_def)
  have led: "map_get no_ledger (of_ledgers (facts_of u)) (s_package s)
      = map_get no_ledger (of_ledgers (facts_of v)) (s_package s)"
    using at(8) by (simp add: map_get_def)
  obtain f g where init: "sn_facts u = Some g" "sn_facts v = Some f"
    using sibling_initialized [OF assms(1)] by blast
  have "s \<in> set (sn_subjects v)" using assms(1,2) by (rule_tac sibling_parts) auto
  moreover have "capture u s = capture v s"
    by (simp add: capture_def init mem assms(3) sibling_fields(5) [OF assms(1)]
        sibling_fingerprint [OF assms(1,2)] sibling_closure [OF assms(1,2)] split: option.split)
  moreover have "test_variant_ledger u s = test_variant_ledger v s"
    by (simp add: test_variant_ledger_def init mem led split: option.split)
  moreover have "source_files_for u s = source_files_for v s"
    by (simp add: source_files_for_def init mem at(6) split: option.split)
  ultimately show ?thesis
    using sibling_fields(5,6) [OF assms(1)] sibling_observed_fingerprint [OF assms(1,2)] by simp
qed

lemma example_request:
  "require_subjects [example_subject, example_subject] (\<lambda>s. s \<in> set (sn_subjects example_view))
     ParentView = None"
  "scope_subjects [example_subject, example_subject] = Inr ([example_subject], [''p''])"
  "sn_facts example_view = Some example_facts"
  by (simp_all add: require_subjects_ok example_view_def scope_subjects_def empty_subject_def
      first_seen_def example_subject_def)

theorem sibling_serves_parent_facts_witness:
  "\<exists>u. sibling example_view [example_subject, example_subject] = Inr u
    \<and> capture u example_subject = capture example_view example_subject"
proof -
  obtain u where u: "sibling example_view [example_subject, example_subject] = Inr u"
    using example_request by (simp add: sibling_def Let_def)
  with sibling_serves_parent_facts [OF u, of example_subject] show ?thesis
    by (simp add: example_view_def)
qed

end
