(* ===== verification/Validation.thy ===== *)
theory Validation
  imports Snapshot_View
begin

text \<open>
  view.go, the comparisons: two observation passes (\<open>compare_observations\<close>, at construction
  and after it), a captured proof against its re-establishment, attached runtime states
  against what they evaluate to now; the precise analysis and its drift bracket
  (\<open>ensure_observable\<close>); the seeded validation view; and a producer's \<open>validate\<close>. Each is
  an operation on the snapshot in a world that may move while it runs. The lemmas show what
  an agreement of two passes establishes, and that a validation which succeeds has compared
  everything the view recorded.
\<close>

lemmas op_eval = op_then_def op_bind_def ctx_check_def op_ask_def tick_def op_lift_def op_run_def
  op_return_def op_get_def op_modify_def op_on_def op_try_def

section \<open>Naming what moved\<close>

definition moved_identity_suffix ::
    "string list \<Rightarrow> string list \<Rightarrow> (string \<rightharpoonup> string) \<Rightarrow> (string \<rightharpoonup> string) \<Rightarrow> string" where
  "moved_identity_suffix captured current captured_digests current_digests =
     (let moved =
        map (\<lambda>p. ''removed '' @ p) (filter (\<lambda>p. p \<notin> set current) captured)
        @ map (\<lambda>p. ''added '' @ p) (filter (\<lambda>p. p \<notin> set captured) current)
        @ map (\<lambda>p. ''changed '' @ p) (filter (\<lambda>p. p \<in> set current
            \<and> (case (captured_digests p, current_digests p) of
                 (Some was, Some now) \<Rightarrow> was \<noteq> now | _ \<Rightarrow> False)) captured)
      in if moved = [] then [] else '' (moved: '' @ capped_list (sort moved) @ '')'')"

definition differing_guard :: "guards \<Rightarrow> guards \<Rightarrow> string" where
  "differing_guard a b =
     (if g_toolchain a \<noteq> g_toolchain b then ''toolchain''
      else if g_build_config a \<noteq> g_build_config b then ''buildconfig''
      else if g_machine a \<noteq> g_machine b then ''machine''
      else if g_runtime_config a \<noteq> g_runtime_config b then ''runtimeconfig''
      else ''guards'')"

definition subject_text :: "subject \<Rightarrow> string" where
  "subject_text s = s_package s @ ''.'' @ s_symbol s"

text \<open>subjectNames: at most four, then how many more.\<close>

definition subject_names :: "subject list \<Rightarrow> string" where
  "subject_names subjects = join_with '', '' (map subject_text (take 4 subjects)
     @ (if length subjects > 4 then [''+'' @ show_nat (length subjects - 4) @ '' more''] else []))"

section \<open>Comparing two observation passes\<close>

text \<open>takeCut: the other pass's undischarged shape for a subject it cut.\<close>

definition take_cut :: "observation_facts \<Rightarrow> subject \<Rightarrow> observation_facts \<Rightarrow> observation_facts" where
  "take_cut other s f = f\<lparr>
     of_maximal := (of_maximal f)(s \<mapsto>
       (maximal_of f s)\<lparr>sf_shared_state := sf_shared_state (maximal_of other s)\<rparr>),
     of_discharges := (of_discharges f)(s := None),
     of_cut := insert s (of_cut f)\<rparr>"

definition files_suffix :: "observation_facts \<Rightarrow> observation_facts \<Rightarrow> subject \<Rightarrow> string" where
  "files_suffix base current s = moved_identity_suffix (files_of base s) (files_of current s)
     (of_digests base) (of_digests current)"

definition during :: "bool \<Rightarrow> string" where
  "during construction = (if construction then '' during construction'' else [])"

definition subject_changed :: "string \<Rightarrow> subject \<Rightarrow> string \<Rightarrow> ('s, 'a) op" where
  "subject_changed what s suffix = fail_live (ViewChanged (what @ '' for '' @ subject_text s @ suffix))"

text \<open>
  The loop body of compareObservations. The state is the base pass, which a construction
  comparison may cut; the answer says whether the subject is left unjudged.
\<close>

definition compare_subject ::
    "bool \<Rightarrow> observation_facts \<Rightarrow> subject \<Rightarrow> (observation_facts, bool) op" where
  "compare_subject construction current s = op_then ctx_check (op_bind op_get (\<lambda>base.
     (let cut_here = (s \<in> of_cut current \<or> s \<in> of_cut base) in
      if \<not> construction \<and> files_of current s \<noteq> files_of base s
      then subject_changed ''maximal source identities'' s (files_suffix base current s)
      else if \<not> facts_equal (maximal_of current s) (maximal_of base s) cut_here
      then subject_changed ''closure'' s (during construction @ files_suffix base current s)
      else if purity_of current s \<noteq> purity_of base s
      then subject_changed ''purity'' s (during construction)
      else if construction then
        (if vouches_of base s \<noteq> vouches_of current s
         then subject_changed ''vouch discharges'' s (during construction)
         else if \<not> cut_here \<and> d_single_subject (discharges_of base s)
             \<noteq> d_single_subject (discharges_of current s)
         then subject_changed ''single-subject attestation discharges'' s (during construction)
         else if \<not> cut_here \<and> d_package_process (discharges_of base s)
             \<noteq> d_package_process (discharges_of current s)
         then subject_changed ''package-process attestation discharges'' s (during construction)
         else op_then
           (if s \<in> of_cut current \<and> s \<notin> of_cut base
            then op_modify (take_cut current s) else op_return ())
           (if files_of base s \<noteq> files_of current s
            then subject_changed ''maximal source identities'' s
              (during construction @ files_suffix base current s)
            else op_return False))
      else op_return (cut_here \<and> \<not> facts_equal (maximal_of current s) (maximal_of base s) False))))"

definition compare_observations ::
    "bool \<Rightarrow> subject list \<Rightarrow> guards \<Rightarrow> observation_facts \<Rightarrow> (observation_facts, unit) op" where
  "compare_observations construction subjects base_guards current = op_then ctx_check
     (if of_guards current \<noteq> base_guards
      then fail_live (ViewChanged (''guards'' @ during construction @ '' (''
        @ differing_guard (of_guards current) base_guards @ '')''))
      else op_then ctx_check (op_bind op_get (\<lambda>base.
        if \<not> construction \<and> of_files current \<noteq> of_files base
        then fail_live (ViewChanged (''maximal source identities''
          @ moved_identity_suffix (of_files base) (of_files current) (of_digests base) (of_digests current)))
        else op_bind (op_collect (compare_subject construction current) subjects) (\<lambda>unjudged.
          if construction \<and> of_files base \<noteq> of_files current
          then fail_live (ViewChanged (''maximal source identities during construction''
            @ moved_identity_suffix (of_files base) (of_files current) (of_digests base) (of_digests current)))
          else if unjudged \<noteq> []
          then fail_live (AnalysisUnavailable (''the dynamic-state discharge for ''
            @ count_noun (length unjudged) ''subject'' @ '' was cut by the analysis budget (''
            @ subject_names unjudged @ '')''))
          else ctx_check))))"

section \<open>The view's own comparisons\<close>

type_synonym 'a vop = "(snapshot, 'a) op"

text \<open>Snapshot.observe: one engine pass with the bound runtime's current guards.\<close>

definition observe_view :: "observation_facts vop" where
  "observe_view = op_bind op_get (\<lambda>v. op_bind (op_ask w_observe) (\<lambda>f.
     case sn_runtime v of None \<Rightarrow> op_return f
     | Some _ \<Rightarrow> op_bind (op_ask w_runtime_guards) (\<lambda>r.
         op_return (f\<lparr>of_guards := (of_guards f)\<lparr>g_machine := rg_machine r,
           g_runtime_config := rg_runtime_config r\<rparr>\<rparr>))))"

definition compare_observation_context :: "observation_facts \<Rightarrow> unit vop" where
  "compare_observation_context observation = op_bind op_get (\<lambda>v. op_on facts_of
     (compare_observations False (sn_subjects v) (snapshot_guards v) observation))"

definition hold_cut_unavailable :: "unit vop \<Rightarrow> unit vop" where
  "hold_cut_unavailable m = op_bind (op_try m) (\<lambda>r. case r of
      Inr x \<Rightarrow> op_return x
    | Inl e \<Rightarrow>
       (if \<not> analysis_unavailable_error e then op_fail e
        else op_modify (\<lambda>v. if sn_cut_unavailable v = None
          then v\<lparr>sn_cut_unavailable := Some e\<rparr> else v)))"

definition reobserve_base :: "unit vop" where
  "reobserve_base = op_bind observe_view compare_observation_context"

definition close_check_window :: "bool \<Rightarrow> bool \<Rightarrow> unit vop" where
  "close_check_window has_runtime defer_close =
     (if has_runtime \<and> \<not> defer_close then reobserve_base else op_return ())"

definition analysis_unavailable_prefix :: string where
  "analysis_unavailable_prefix = ''observation analysis unavailable''"

definition analysis_unavailable :: "string \<Rightarrow> bool" where
  "analysis_unavailable reason \<longleftrightarrow> has_prefix reason analysis_unavailable_prefix"

definition describe_observability :: "observability \<Rightarrow> string" where
  "describe_observability d =
     (if ob_observable d then ''observable''
      else if ob_reason d = [] then ''not observable''
      else ''not observable: '' @ ob_reason d)"

definition compare_observation_proof ::
    "subject \<Rightarrow> observability \<Rightarrow> observability \<Rightarrow> view_error option" where
  "compare_observation_proof s observed captured =
     (if analysis_unavailable (ob_reason captured) then None
      else if analysis_unavailable (ob_reason observed)
      then Some (AnalysisUnavailable (''observation proof for '' @ subject_text s @ '': '' @ ob_reason observed))
      else if observed \<noteq> captured
      then Some (ViewChanged (''observation proof for '' @ subject_text s @ '' (captured ''
        @ describe_observability captured @ '', now '' @ describe_observability observed @ '')''))
      else None)"

text \<open>
  ensureObservable: the proofs not yet computed, inside one bracket. The hasher's analysis
  and its environment check are the world's answer; a closing observation must agree.
\<close>

definition store_proofs ::
    "subject list \<Rightarrow> (subject \<rightharpoonup> observability) \<Rightarrow> snapshot \<Rightarrow> snapshot" where
  "store_proofs wanted computed v = v\<lparr>sn_observable := (\<lambda>s. if s \<in> set wanted
     then Some (map_get no_observability computed s) else sn_observable v s)\<rparr>"

definition ensure_observable :: "subject list \<Rightarrow> unit vop" where
  "ensure_observable subjects = op_then ctx_check (op_bind op_get (\<lambda>v.
     (let wanted = filter (\<lambda>s. sn_observable v s = None) subjects in
      if wanted = [] then op_return ()
      else op_then ctx_check (op_bind (op_ask (\<lambda>w t. w_analyse w t wanted)) (\<lambda>computed.
        op_bind observe_view (\<lambda>after.
        op_then (hold_cut_unavailable (compare_observation_context after))
        (op_bind op_get (\<lambda>v'.
          if sn_sealed v' then op_fail ViewSealed
          else op_then ctx_check (op_then (op_modify (store_proofs wanted computed))
            ctx_check)))))))))"

definition capture_observed :: "subject \<Rightarrow> fingerprint vop" where
  "capture_observed s = op_bind op_get (\<lambda>v.
     if sn_facts v = None \<or> sn_engine v = None then op_fail uninitialized
     else (case require_members v [s] of Some e \<Rightarrow> op_fail e
       | None \<Rightarrow> op_then (ensure_observable [s]) (op_then ctx_check (op_bind op_get (\<lambda>v'.
           if sn_sealed v' then op_fail ViewSealed
           else op_then (op_modify (\<lambda>u. u\<lparr>sn_captured := insert s (sn_captured u)\<rparr>))
             (op_return (observed_fingerprint_locked v' s)))))))"

definition capture_observed_batch :: "(subject \<rightharpoonup> fingerprint) vop" where
  "capture_observed_batch = op_bind op_get (\<lambda>v.
     if sn_facts v = None \<or> sn_engine v = None then op_fail uninitialized
     else op_then (ensure_observable (sn_subjects v)) (op_then ctx_check (op_bind op_get (\<lambda>v'.
       if sn_sealed v' then op_fail ViewSealed
       else op_then (op_modify (\<lambda>u. u\<lparr>sn_captured := sn_captured u \<union> set (sn_subjects v')\<rparr>))
         (op_return (fold (\<lambda>s m. m(s \<mapsto> observed_fingerprint_locked v' s))
           (sn_subjects v') (\<lambda>_. None)))))))"

section \<open>Attached runtime states\<close>

definition completed_state :: "rt_state \<Rightarrow> bool" where
  "completed_state st \<longleftrightarrow> rt_ok st \<and> rt_manifest st \<noteq> [] \<and> rt_digest st \<noteq> []"

definition require_completed ::
    "(subject \<rightharpoonup> rt_state) \<Rightarrow> subject list \<Rightarrow> view_error option" where
  "require_completed attached subjects =
     (case find (\<lambda>s. \<not> completed_state (map_get no_rt_state attached s)) subjects of
        Some s \<Rightarrow> Some (OtherError (''gofresh: subject '' @ subject_text s
          @ '' has no attached completed observation''))
      | None \<Rightarrow> None)"

definition runtime_check :: "string \<Rightarrow> rt_state vop" where
  "runtime_check manifest = op_bind op_get (\<lambda>v. op_ask (\<lambda>w t. w_current w t manifest (sn_root v)))"

definition moved_inputs :: "string \<Rightarrow> string list vop" where
  "moved_inputs manifest = op_bind op_get (\<lambda>v.
     if sn_engine v = None then op_return []
     else op_bind (op_try (op_ask (\<lambda>w t. w_movers w t manifest (sn_root v))))
       (\<lambda>r. op_return (case r of Inl _ \<Rightarrow> [] | Inr movers \<Rightarrow> movers)))"

text \<open>One evaluation per distinct manifest: the memo maps a manifest to its state.\<close>

fun compare_attached_from ::
    "(subject \<rightharpoonup> rt_state) \<Rightarrow> (string \<rightharpoonup> rt_state) \<Rightarrow> subject list \<Rightarrow> unit vop" where
  "compare_attached_from attached memo [] = ctx_check"
| "compare_attached_from attached memo (s # ss) =
     (let st = map_get no_rt_state attached s in
      op_bind (case memo (rt_manifest st) of Some x \<Rightarrow> op_return x
               | None \<Rightarrow> runtime_check (rt_manifest st)) (\<lambda>observed.
        if observed \<noteq> st
        then op_bind (moved_inputs (rt_manifest st)) (\<lambda>movers. op_fail (ViewChanged
          (''runtime inputs for '' @ subject_text s
            @ (if movers = [] then [] else '' (moved: '' @ capped_list movers @ '')''))))
        else compare_attached_from attached (memo(rt_manifest st \<mapsto> observed)) ss))"

definition compare_attached :: "(subject \<rightharpoonup> rt_state) \<Rightarrow> subject list \<Rightarrow> unit vop" where
  "compare_attached attached subjects = (case require_completed attached subjects of
      Some e \<Rightarrow> op_fail e
    | None \<Rightarrow> compare_attached_from attached (\<lambda>_. None) subjects)"

section \<open>Constructing a view\<close>

text \<open>
  newViewFor: two engine passes that must agree. \<open>dir\<close> is the module directory once
  gotool.CanonicalDir and the engine's coherence check have answered.
\<close>

definition new_view ::
    "engine \<Rightarrow> kind \<Rightarrow> subject list \<Rightarrow> (view_error + string) \<Rightarrow> (unit, snapshot) op" where
  "new_view e kind subjects dir = op_then ctx_check
     (if \<not> valid_kind kind
      then op_fail (OtherError (''gofresh: invalid result kind '' @ show_int kind))
      else if subjects = []
      then op_fail (OtherError ''gofresh: analysis view requires at least one subject'')
      else op_bind (op_lift dir) (\<lambda>root. op_bind (op_lift (scope_subjects subjects)) (\<lambda>(unique, packages).
        op_bind (op_ask w_observe) (\<lambda>first. op_bind (op_ask w_observe) (\<lambda>second.
        op_bind (op_run (compare_observations True unique (of_guards first) second) first)
          (\<lambda>(r, agreed). op_bind (op_lift r) (\<lambda>_. op_return
            \<lparr>sn_engine = Some e, sn_subjects = unique, sn_packages = packages, sn_root = root,
             sn_kind = kind, sn_facts = Some agreed, sn_runtime = None,
             sn_observable = (\<lambda>_. None), sn_captured = {}, sn_attached = (\<lambda>_. None),
             sn_sealed = False, sn_checks = [], sn_cut_unavailable = None\<rparr>)))))))"

section \<open>The observed validation\<close>

definition seeded_view :: "snapshot \<Rightarrow> snapshot" where
  "seeded_view v = v\<lparr>sn_observable := (\<lambda>_. None), sn_captured := {}, sn_attached := (\<lambda>_. None),
     sn_sealed := False, sn_checks := [], sn_cut_unavailable := None\<rparr>"

definition new_seeded_validation_view :: "snapshot vop" where
  "new_seeded_validation_view = op_bind observe_view (\<lambda>observation.
     op_then (hold_cut_unavailable (compare_observation_context observation))
     (op_then ctx_check (op_bind op_get (\<lambda>v. op_return (seeded_view v)))))"

text \<open>deferValidationUnavailability: the first unavailability is held, any other error ends.\<close>

definition hold_first :: "view_error option \<Rightarrow> view_error \<Rightarrow> view_error option" where
  "hold_first held e = (case held of None \<Rightarrow> Some e | Some h \<Rightarrow> Some h)"

definition defer_unavailability ::
    "view_error option \<Rightarrow> view_error option \<Rightarrow> view_error + view_error option" where
  "defer_unavailability err held = (case err of None \<Rightarrow> Inr held
     | Some e \<Rightarrow> if analysis_unavailable_error e then Inr (hold_first held e) else Inl e)"

definition error_of :: "view_error + 'a \<Rightarrow> view_error option" where
  "error_of r = (case r of Inl e \<Rightarrow> Some e | Inr _ \<Rightarrow> None)"

definition report_held :: "view_error option \<Rightarrow> unit vop" where
  "report_held held = (case held of None \<Rightarrow> op_return () | Some e \<Rightarrow> op_fail e)"

definition resolve_unavailable :: "snapshot \<Rightarrow> view_error option \<Rightarrow> unit vop" where
  "resolve_unavailable current held = op_bind op_get (\<lambda>v.
     op_bind (op_lift (defer_unavailability (sn_cut_unavailable v) held)) (\<lambda>held1.
     op_bind (op_lift (defer_unavailability (sn_cut_unavailable current) held1)) (\<lambda>held2.
     op_then ctx_check (report_held held2))))"

definition close_reobservation :: "snapshot \<Rightarrow> view_error option \<Rightarrow> unit vop" where
  "close_reobservation current held = op_bind (op_run reobserve_base current) (\<lambda>(r, current').
     op_bind (op_lift (defer_unavailability (error_of r) held)) (\<lambda>held'.
       resolve_unavailable current' held'))"

text \<open>The proof comparisons: an unavailable one is held, any other ends the validation.\<close>

fun compare_proofs ::
    "(subject \<Rightarrow> observability) \<Rightarrow> (subject \<Rightarrow> observability) \<Rightarrow> subject list
      \<Rightarrow> view_error option \<Rightarrow> view_error + view_error option" where
  "compare_proofs now captured [] held = Inr held"
| "compare_proofs now captured (s # ss) held =
     (case defer_unavailability (compare_observation_proof s (now s) (captured s)) held of
        Inl e \<Rightarrow> Inl e | Inr held' \<Rightarrow> compare_proofs now captured ss held')"

abbreviation proof_of :: "snapshot \<Rightarrow> subject \<Rightarrow> observability" where
  "proof_of v s \<equiv> map_get no_observability (sn_observable v) s"

definition seal :: "unit vop" where
  "seal = op_modify (\<lambda>v. v\<lparr>sn_sealed := True\<rparr>)"

definition captured_subjects :: "snapshot \<Rightarrow> subject list" where
  "captured_subjects v = filter (\<lambda>s. s \<in> sn_captured v) (sn_subjects v)"

definition validate_observed :: "unit vop" where
  "validate_observed = op_then seal (op_then ctx_check (op_bind op_get (\<lambda>v.
     (let subjects = captured_subjects v; attached = sn_attached v in
      if subjects = [] then op_fail (OtherError ''gofresh: no captured observation proof'')
      else (case require_completed attached subjects of Some e \<Rightarrow> op_fail e
        | None \<Rightarrow>
          op_bind new_seeded_validation_view (\<lambda>current.
          op_then (compare_attached attached subjects)
          (op_bind (op_run (ensure_observable subjects) current) (\<lambda>(r, current').
          op_bind (op_lift r) (\<lambda>_.
          op_bind (op_lift (compare_proofs (proof_of current') (proof_of v) subjects None)) (\<lambda>held.
          op_then (compare_attached attached subjects)
          (resolve_unavailable current' held)))))))))))"

section \<open>What agreement of two passes establishes\<close>

lemma subject_changed_ok [simp]: "subject_changed what s suffix st w \<noteq> (Inr y, s2, w2)"
  by (simp add: subject_changed_def)

text \<open>One subject after construction: an answer of false means every fact agrees.\<close>

lemma compare_subject_post:
  assumes "compare_subject False current s base w = (Inr b, base2, w2)"
  shows "base2 = base" "files_of current s = files_of base s" "purity_of current s = purity_of base s"
    "\<not> b \<Longrightarrow> maximal_of current s = maximal_of base s"
    "b \<Longrightarrow> s \<in> of_cut current \<or> s \<in> of_cut base"
    "facts_equal (maximal_of current s) (maximal_of base s) True"
  using assms
  by (auto simp: compare_subject_def op_ok Let_def facts_equal_full split: if_split_asm)
    (auto simp: facts_equal_def)

definition passes_agree :: "subject list \<Rightarrow> guards \<Rightarrow> observation_facts \<Rightarrow> observation_facts \<Rightarrow> bool" where
  "passes_agree subjects base_guards base current \<longleftrightarrow>
     of_guards current = base_guards \<and> of_files current = of_files base
     \<and> (\<forall>s\<in>set subjects. files_of current s = files_of base s
         \<and> maximal_of current s = maximal_of base s \<and> purity_of current s = purity_of base s)"

lemma collect_post:
  "op_collect (compare_subject False current) subjects base w = (Inr ys, base2, w2) \<Longrightarrow>
     base2 = base \<and> (\<forall>s\<in>set subjects. files_of current s = files_of base s
       \<and> purity_of current s = purity_of base s
       \<and> (s \<in> set ys \<or> maximal_of current s = maximal_of base s))"
proof (induction subjects arbitrary: ys w w2 base2)
  case (Cons s subjects)
  then obtain b s1 w1 zs s3 w3 where
    one: "compare_subject False current s base w = (Inr b, s1, w1)"
    and rest: "op_collect (compare_subject False current) subjects s1 w1 = (Inr zs, s3, w3)"
    and ys: "ys = (if b then s # zs else zs)" "base2 = s3"
    by (auto simp: op_ok)
  from compare_subject_post [OF one] have s1: "s1 = base" by simp
  from Cons.IH [OF rest [unfolded s1]] ys compare_subject_post [OF one] show ?case
    by (cases b) simp_all
qed (simp add: op_return_ok)

lemma compare_observations_post:
  assumes "compare_observations False subjects base_guards current base w = (Inr (), base2, w2)"
  shows "base2 = base \<and> passes_agree subjects base_guards base current"
proof -
  from assms obtain w1 ys w3 where
    "of_guards current = base_guards" "of_files current = of_files base"
    and c: "op_collect (compare_subject False current) subjects base w1 = (Inr ys, base2, w3)" "ys = []"
    by (auto simp: compare_observations_def op_ok Let_def split: if_split_asm)
  with collect_post [OF c(1)] show ?thesis by (simp add: passes_agree_def)
qed

text \<open>An unavailability is reported only where a pass cut the subject.\<close>

lemma reads_only_compare_subject: "reads_only (compare_subject False current s)"
  unfolding compare_subject_def Let_def subject_changed_def if_False not_False_eq_True simp_thms
  by (intro reads_only_rules)

lemma reads_only_compare_post: "reads_only (compare_observations False subjects g current)"
  unfolding compare_observations_def Let_def if_False not_False_eq_True simp_thms
  by (intro reads_only_rules reads_only_compare_subject)

lemma compare_context_ok:
  assumes "compare_observation_context observation v w = (Inr (), v2, w2)"
  shows "v2 = v \<and> passes_agree (sn_subjects v) (snapshot_guards v) (facts_of v) observation"
  using assms compare_observations_post
  by (auto simp: compare_observation_context_def op_ok)

lemma reads_only_observe: "reads_only observe_view"
  unfolding observe_view_def
  by (intro reads_only_rules) (auto intro: reads_only_rules split: option.split)

lemma reads_only_context: "reads_only (compare_observation_context observation)"
  unfolding compare_observation_context_def by (intro reads_only_rules)

lemma reobserve_base_ok:
  assumes "reobserve_base v w = (Inr (), v2, w2)"
  shows "v2 = v \<and> (\<exists>current w1. observe_view v w = (Inr current, v, w1)
    \<and> passes_agree (sn_subjects v) (snapshot_guards v) (facts_of v) current)"
proof -
  from assms obtain current s1 w1 where
    o: "observe_view v w = (Inr current, s1, w1)"
    and c: "compare_observation_context current s1 w1 = (Inr (), v2, w2)"
    by (auto simp: reobserve_base_def op_bind_ok)
  moreover from reads_onlyD [OF reads_only_observe o] have "s1 = v" .
  ultimately show ?thesis using compare_context_ok [of current v w1 v2 w2] by auto
qed

section \<open>Attached states\<close>

lemma require_completed_ok:
  "require_completed attached subjects = None
     \<longleftrightarrow> (\<forall>s\<in>set subjects. completed_state (map_get no_rt_state attached s))"
  unfolding require_completed_def by (induction subjects) simp_all

lemma advances_runtime_check: "advances (runtime_check m)"
  unfolding runtime_check_def by (intro advances_rules)

lemma reads_only_runtime_check: "reads_only (runtime_check m)"
  unfolding runtime_check_def by (intro reads_only_rules)

lemma advances_moved_inputs: "advances (moved_inputs m)"
  unfolding moved_inputs_def by (intro advances_rules)

lemma reads_only_moved_inputs: "reads_only (moved_inputs m)"
  unfolding moved_inputs_def by (intro reads_only_rules)

lemma advances_compare_attached_from: "advances (compare_attached_from attached memo subjects)"
  by (induction subjects arbitrary: memo)
    (auto simp: Let_def intro!: advances_rules advances_runtime_check advances_moved_inputs)

lemma advances_compare_attached: "advances (compare_attached attached subjects)"
  unfolding compare_attached_def by (intro advances_rules advances_compare_attached_from)

text \<open>Every answer the memo holds was read from the world since the comparison began.\<close>

definition evaluated :: "world \<Rightarrow> world \<Rightarrow> string \<Rightarrow> string \<Rightarrow> rt_state \<Rightarrow> bool" where
  "evaluated w w2 root manifest st \<longleftrightarrow>
     (\<exists>t. w_clock w \<le> t \<and> t < w_clock w2 \<and> w_current w t manifest root = Inr st)"

lemma evaluated_later:
  assumes "later w0 w1" "evaluated w1 w2 root m st" "later w2 w3"
  shows "evaluated w0 w3 root m st"
  using assms later_oracles [OF assms(1)] later_oracles [OF assms(3)]
  unfolding evaluated_def by (metis le_trans less_le_trans)

lemma compare_attached_from_ok:
  assumes "compare_attached_from attached memo subjects v w = (Inr (), v2, w2)"
    and "later w0 w" and "\<And>m st. memo m = Some st \<Longrightarrow> evaluated w0 w (sn_root v) m st"
  shows "v2 = v \<and> (\<forall>s\<in>set subjects. evaluated w0 w2 (sn_root v)
     (rt_manifest (map_get no_rt_state attached s)) (map_get no_rt_state attached s))"
  using assms
proof (induction attached memo subjects arbitrary: w rule: compare_attached_from.induct)
  case (1 attached memo)
  then show ?case by (simp add: op_ok)
next
  case (2 attached memo s ss)
  let ?st = "map_get no_rt_state attached s"
  let ?m = "rt_manifest ?st"
  obtain w1 where now: "evaluated w0 w1 (sn_root v) ?m ?st" "later w w1"
    and rest: "compare_attached_from attached (memo(?m \<mapsto> ?st)) ss v w1 = (Inr (), v2, w2)"
  proof (cases "memo ?m")
    case None
    with 2(2) obtain w1 where "w_current w (w_clock w) ?m (sn_root v) = Inr ?st" "w1 = tick w"
      and "compare_attached_from attached (memo(?m \<mapsto> ?st)) ss v w1 = (Inr (), v2, w2)"
      by (auto simp: Let_def op_ok runtime_check_def split: if_split_asm)
    moreover from this(1,2) have "evaluated w w1 (sn_root v) ?m ?st"
      by (auto simp: evaluated_def tick_def intro: exI [of _ "w_clock w"])
    ultimately show ?thesis
      using that [of w1] evaluated_later [OF 2(3)] by auto
  next
    case (Some x)
    with 2(2,4) that [of w] show ?thesis
      by (auto simp: Let_def op_ok split: if_split_asm)
  qed
  have later: "later w0 w1" using 2(3) now(2) later_trans by blast
  have memo: "evaluated w0 w1 (sn_root v) m st" if "(memo(?m \<mapsto> ?st)) m = Some st" for m st
    using that now 2(4) evaluated_later [of w0 w0 w "sn_root v" m st w1]
    by (auto split: if_split_asm)
  from 2(1) [OF refl _ rest later memo] have
    "v2 = v \<and> (\<forall>s\<in>set ss. evaluated w0 w2 (sn_root v) (rt_manifest (map_get no_rt_state attached s))
       (map_get no_rt_state attached s))" by blast
  moreover have "later w1 w2"
    using advancesD [OF advances_compare_attached_from rest] .
  ultimately show ?case
    using now(1) evaluated_later [of w0 w0 w1 "sn_root v" ?m ?st w2] by auto
qed

lemma compare_attached_ok:
  assumes "compare_attached attached subjects v w = (Inr (), v2, w2)"
  shows "v2 = v \<and> later w w2 \<and> (\<forall>s\<in>set subjects. completed_state (map_get no_rt_state attached s)
     \<and> evaluated w w2 (sn_root v) (rt_manifest (map_get no_rt_state attached s))
         (map_get no_rt_state attached s))"
proof -
  from assms have r: "require_completed attached subjects = None"
    and f: "compare_attached_from attached (\<lambda>_. None) subjects v w = (Inr (), v2, w2)"
    by (auto simp: compare_attached_def split: option.splits)
  from r have "\<forall>s\<in>set subjects. completed_state (map_get no_rt_state attached s)"
    by (simp add: require_completed_ok)
  moreover from compare_attached_from_ok [OF f later_refl] have "v2 = v \<and> (\<forall>s\<in>set subjects.
     evaluated w w2 (sn_root v) (rt_manifest (map_get no_rt_state attached s))
       (map_get no_rt_state attached s))" by simp
  moreover from advancesD [OF advances_compare_attached_from f] have "later w w2" .
  ultimately show ?thesis by blast
qed

section \<open>Held unavailability\<close>

lemma hold_cut_ok:
  assumes "reads_only m" and "hold_cut_unavailable m v w = (Inr (), v2, w2)"
  shows "(m v w = (Inr (), v, w2) \<and> v2 = v)
     \<or> (sn_cut_unavailable v2 \<noteq> None \<and> v2 = v\<lparr>sn_cut_unavailable := sn_cut_unavailable v2\<rparr>)"
proof (cases "m v w")
  case (fields r v1 w1)
  with reads_onlyD [OF assms(1) this] assms(2) show ?thesis
    by (cases r) (auto simp: hold_cut_unavailable_def op_ok split: if_splits)
qed

lemma defer_none: "defer_unavailability err held = Inr None \<longleftrightarrow> err = None \<and> held = None"
  by (auto simp: defer_unavailability_def hold_first_def split: option.splits)

lemma report_held_ok: "report_held held v w = (Inr (), v2, w2) \<longleftrightarrow> held = None \<and> v2 = v \<and> w2 = w"
  by (auto simp: report_held_def op_ok split: option.split)

lemma resolve_ok:
  assumes "resolve_unavailable current held v w = (Inr (), v2, w2)"
  shows "v2 = v \<and> held = None \<and> sn_cut_unavailable v = None \<and> sn_cut_unavailable current = None"
  using assms by (auto simp: resolve_unavailable_def op_ok report_held_ok defer_none)

lemma compare_proofs_none:
  "compare_proofs now captured subjects held = Inr None \<longleftrightarrow>
     held = None \<and> (\<forall>s\<in>set subjects. compare_observation_proof s (now s) (captured s) = None)"
  by (induction subjects arbitrary: held) (auto simp: defer_none split: sum.splits;
    force simp: defer_unavailability_def hold_first_def split: option.splits if_splits)+

lemma compare_observation_proof_none:
  "compare_observation_proof s observed captured = None \<longleftrightarrow>
     analysis_unavailable (ob_reason captured)
     \<or> \<not> analysis_unavailable (ob_reason observed) \<and> observed = captured"
  by (auto simp: compare_observation_proof_def)

section \<open>The bracketed observations\<close>

text \<open>A pass of the view that agrees with the record it was constructed on.\<close>

definition agreeing_pass :: "snapshot \<Rightarrow> world \<Rightarrow> bool" where
  "agreeing_pass v w \<longleftrightarrow> (\<exists>observation w1. observe_view v w = (Inr observation, v, w1)
     \<and> passes_agree (sn_subjects v) (snapshot_guards v) (facts_of v) observation)"

lemma advances_compare_observations: "advances (compare_observations c subjects g current)"
  unfolding compare_observations_def compare_subject_def subject_changed_def Let_def
  by (intro advances_rules)

lemma advances_observe: "advances observe_view"
  unfolding observe_view_def by (intro advances_rules)

lemma advances_context: "advances (compare_observation_context observation)"
  unfolding compare_observation_context_def by (intro advances_rules advances_compare_observations)

lemma advances_hold: "advances m \<Longrightarrow> advances (hold_cut_unavailable m)"
  unfolding hold_cut_unavailable_def by (intro advances_rules) auto

lemma advances_reobserve: "advances reobserve_base"
  unfolding reobserve_base_def by (intro advances_rules advances_observe advances_context)

lemma held_context_ok:
  assumes "observe_view v w = (Inr observation, v1, w1)"
    and "hold_cut_unavailable (compare_observation_context observation) v1 w1 = (Inr (), v2, w2)"
  shows "v1 = v \<and> v2 = v\<lparr>sn_cut_unavailable := sn_cut_unavailable v2\<rparr>
    \<and> (sn_cut_unavailable v2 = None \<longrightarrow> v2 = v \<and> agreeing_pass v w)"
proof -
  from reads_onlyD [OF reads_only_observe assms(1)] have v1: "v1 = v" .
  from hold_cut_ok [OF reads_only_context assms(2)] have
    "(compare_observation_context observation v w1 = (Inr (), v, w2) \<and> v2 = v)
     \<or> (sn_cut_unavailable v2 \<noteq> None \<and> v2 = v\<lparr>sn_cut_unavailable := sn_cut_unavailable v2\<rparr>)"
    by (simp add: v1)
  with compare_context_ok [of observation v w1 v w2] assms(1) v1 show ?thesis
    by (auto simp: agreeing_pass_def)
qed

lemma seeded_validation_ok:
  assumes "new_seeded_validation_view v w = (Inr current, v2, w2)"
  shows "current = seeded_view v2 \<and> v2 = v\<lparr>sn_cut_unavailable := sn_cut_unavailable v2\<rparr>
    \<and> (sn_cut_unavailable v2 = None \<longrightarrow> v2 = v \<and> agreeing_pass v w)"
proof -
  from assms obtain observation v1 w1 w3 where
    "observe_view v w = (Inr observation, v1, w1)"
    "hold_cut_unavailable (compare_observation_context observation) v1 w1 = (Inr (), v2, w3)"
    and "current = seeded_view v2"
    by (auto simp: new_seeded_validation_view_def op_ok)
  with held_context_ok show ?thesis by blast
qed

lemma advances_seeded: "advances new_seeded_validation_view"
  unfolding new_seeded_validation_view_def
  by (intro advances_rules advances_observe advances_hold advances_context)

section \<open>The precise analysis\<close>

lemma advances_ensure: "advances (ensure_observable subjects)"
  unfolding ensure_observable_def Let_def
  by (intro advances_rules advances_observe advances_hold advances_context)

definition analysed :: "world \<Rightarrow> world \<Rightarrow> subject list \<Rightarrow> (subject \<rightharpoonup> observability) \<Rightarrow> bool" where
  "analysed w w2 wanted computed \<longleftrightarrow>
     (\<exists>t. w_clock w \<le> t \<and> t < w_clock w2 \<and> w_analyse w t wanted = Inr computed)"

lemma ensure_observable_ok:
  assumes "ensure_observable subjects v w = (Inr (), v2, w2)"
  shows "later w w2 \<and> (let wanted = filter (\<lambda>s. sn_observable v s = None) subjects in
     if wanted = [] then v2 = v
     else \<not> sn_sealed v \<and> (\<exists>computed. analysed w w2 wanted computed
       \<and> v2 = (store_proofs wanted computed v)\<lparr>sn_cut_unavailable := sn_cut_unavailable v2\<rparr>
       \<and> (sn_cut_unavailable v2 = None \<longrightarrow> sn_cut_unavailable v = None
           \<and> (\<exists>w1. later w w1 \<and> agreeing_pass v w1))))"
proof -
  have l: "later w w2" using advancesD [OF advances_ensure assms] .
  define wanted where "wanted = filter (\<lambda>s. sn_observable v s = None) subjects"
  show ?thesis
  proof (cases "wanted = []")
    case True
    then show ?thesis using assms l
      by (auto simp: ensure_observable_def op_ok Let_def wanted_def [symmetric])
  next
    case False
    with assms obtain computed wa observation v1 wb v3 wc where
      a: "w_analyse wa (w_clock wa) wanted = Inr computed" "wa = tick (tick w)"
      and o: "observe_view v (tick wa) = (Inr observation, v1, wb)"
      and h: "hold_cut_unavailable (compare_observation_context observation) v1 wb = (Inr (), v3, wc)"
      and e: "\<not> sn_sealed v3" "v2 = store_proofs wanted computed v3" "w2 = tick (tick wc)"
      by (auto simp: ensure_observable_def op_ok Let_def wanted_def [symmetric] split: if_split_asm)
    note held = held_context_ok [OF o h]
    have "later wb wc" using advancesD [OF advances_hold [OF advances_context] h] .
    moreover have "later (tick wa) wb" using advancesD [OF advances_observe o] .
    ultimately have "w_clock (tick wa) \<le> w_clock wc" by (metis later_trans later_oracles(7))
    then have an: "analysed w w2 wanted computed"
      using a e(3) unfolding analysed_def by (intro exI [of _ "w_clock wa"]) (simp add: tick_def)
    have "later w (tick wa)" using a(2) later_tick later_trans by metis
    with held e an have "v2 = (store_proofs wanted computed v)\<lparr>sn_cut_unavailable := sn_cut_unavailable v2\<rparr>
       \<and> \<not> sn_sealed v \<and> (sn_cut_unavailable v2 = None \<longrightarrow> sn_cut_unavailable v = None
           \<and> (\<exists>w1. later w w1 \<and> agreeing_pass v w1))"
      by (cases v, cases v3) (auto simp: store_proofs_def)
    with False l an show ?thesis by (auto simp: Let_def wanted_def [symmetric])
  qed
qed

section \<open>What construction establishes\<close>

text \<open>The facts of one subject agree between the two constructing passes.\<close>

definition construction_agrees :: "observation_facts \<Rightarrow> observation_facts \<Rightarrow> subject \<Rightarrow> bool" where
  "construction_agrees base current s \<longleftrightarrow>
     (let cut_here = s \<in> of_cut current \<or> s \<in> of_cut base in
      facts_equal (maximal_of current s) (maximal_of base s) cut_here
      \<and> purity_of current s = purity_of base s \<and> vouches_of current s = vouches_of base s
      \<and> files_of current s = files_of base s
      \<and> (\<not> cut_here \<longrightarrow> discharges_of current s = discharges_of base s))"

definition adopted :: "observation_facts \<Rightarrow> observation_facts \<Rightarrow> subject list \<Rightarrow> observation_facts" where
  "adopted current base subjects =
     fold (take_cut current) (filter (\<lambda>s. s \<in> of_cut current \<and> s \<notin> of_cut base) subjects) base"

lemma compare_subject_construction:
  assumes "compare_subject True current s base w = (Inr b, base2, w2)"
  shows "\<not> b \<and> construction_agrees base current s
    \<and> base2 = (if s \<in> of_cut current \<and> s \<notin> of_cut base then take_cut current s base else base)"
  using assms
  by (auto simp: compare_subject_def op_ok Let_def construction_agrees_def split: if_split_asm)

lemma map_get_drop: "map_get d (m(a := None)) s = (if s = a then d else map_get d m s)"
  by (simp add: map_get_def)

lemma take_cut_other:
  assumes "t \<noteq> s"
  shows "construction_agrees (take_cut current s base) current t = construction_agrees base current t"
  using assms by (simp add: construction_agrees_def take_cut_def Let_def map_get_drop)

lemma collect_construction:
  "distinct subjects \<Longrightarrow>
   op_collect (compare_subject True current) subjects base w = (Inr ys, base2, w2) \<Longrightarrow>
     ys = [] \<and> base2 = adopted current base subjects
     \<and> (\<forall>s\<in>set subjects. construction_agrees base current s)"
proof (induction subjects arbitrary: base ys w w2 base2)
  case (Cons s subjects)
  then obtain b base1 w1 zs w3 where
    one: "compare_subject True current s base w = (Inr b, base1, w1)"
    and rest: "op_collect (compare_subject True current) subjects base1 w1 = (Inr zs, base2, w3)"
    and ys: "ys = (if b then s # zs else zs)"
    by (auto simp: op_ok)
  note here = compare_subject_construction [OF one]
  from Cons.prems(1) have s: "s \<notin> set subjects" by simp
  have same: "construction_agrees base1 current t = construction_agrees base current t"
    if "t \<in> set subjects" for t
    using here that s take_cut_other [of t s current base] by auto
  have "filter (\<lambda>t. t \<in> of_cut current \<and> t \<notin> of_cut base1) subjects
      = filter (\<lambda>t. t \<in> of_cut current \<and> t \<notin> of_cut base) subjects"
    using here s by (intro filter_cong) (auto simp: take_cut_def)
  with Cons.IH [OF _ rest] Cons.prems(1) here ys same show ?case
    by (auto simp: adopted_def)
qed (simp add: op_return_ok adopted_def)

lemma fold_take_cut:
  "of_cut (fold (take_cut current) subjects base) = of_cut base \<union> set subjects"
  "of_guards (fold (take_cut current) subjects base) = of_guards base"
  "of_files (fold (take_cut current) subjects base) = of_files base"
  "files_of (fold (take_cut current) subjects base) s = files_of base s"
  "purity_of (fold (take_cut current) subjects base) s = purity_of base s"
  by (induction subjects arbitrary: base) (auto simp: take_cut_def)

lemma fold_take_cut_maximal:
  "maximal_of (fold (take_cut current) subjects base) s =
     (if s \<in> set subjects
      then (maximal_of base s)\<lparr>sf_shared_state := sf_shared_state (maximal_of current s)\<rparr>
      else maximal_of base s)"
  by (induction subjects arbitrary: base) (auto simp: take_cut_def)

lemma fold_take_cut_discharges:
  "discharges_of (fold (take_cut current) subjects base) s =
     (if s \<in> set subjects then no_discharges else discharges_of base s)"
  by (induction subjects arbitrary: base) (auto simp: take_cut_def map_get_drop)

lemmas adopted_facts = fold_take_cut fold_take_cut_maximal fold_take_cut_discharges

lemma compare_observations_construction:
  assumes "compare_observations True subjects base_guards current base w = (Inr (), base2, w2)"
    and "distinct subjects"
  shows "of_guards current = base_guards \<and> base2 = adopted current base subjects
    \<and> of_files current = of_files base \<and> (\<forall>s\<in>set subjects. construction_agrees base current s)"
proof -
  from assms(1) obtain w1 ys w3 where
    g: "of_guards current = base_guards"
    and c: "op_collect (compare_subject True current) subjects base w1 = (Inr ys, base2, w3)"
    and f: "of_files base = of_files current"
    by (auto simp: compare_observations_def op_ok Let_def split: if_split_asm)
  from collect_construction [OF assms(2) c] f g show ?thesis
    by (auto simp: adopted_def adopted_facts)
qed

text \<open>
  C9: A constructed view is the agreement of two engine passes: the second, made after the
  first, carries the same guards and source files, and for every requested subject the same
  purity, vouches and identities, the same maximal facts (up to shared state where a pass
  cut the subject) and, where neither pass cut it, the same discharges. A subject either
  pass cut is recorded as cut; one that only the second pass cut takes that pass's
  shared-state refusal and no discharge.
\<close>

theorem new_view_is_agreement:
  assumes "new_view e kind subjects dir () w = (Inr v, u, w2)"
  shows "sn_subjects v = first_seen subjects \<and> valid_kind kind
    \<and> (\<exists>first second t1 t2. w_clock w \<le> t1 \<and> t1 < t2 \<and> w_observe w t1 = Inr first
      \<and> w_observe w t2 = Inr second \<and> of_guards second = of_guards first
      \<and> of_files second = of_files first \<and> of_guards (facts_of v) = of_guards first
      \<and> (\<forall>s\<in>set subjects. construction_agrees first second s
        \<and> (s \<in> of_cut (facts_of v) \<longleftrightarrow> s \<in> of_cut first \<union> of_cut second)
        \<and> purity_of (facts_of v) s = purity_of first s
        \<and> (s \<in> of_cut second - of_cut first \<longrightarrow> discharges_of (facts_of v) s = no_discharges
            \<and> sf_shared_state (maximal_of (facts_of v) s) = sf_shared_state (maximal_of second s))
        \<and> (s \<notin> of_cut second - of_cut first \<longrightarrow> maximal_of (facts_of v) s = maximal_of first s
            \<and> discharges_of (facts_of v) s = discharges_of first s)))"
proof -
  from assms obtain w1 root unique packages first second agreed w3 where
    k: "valid_kind kind" "w1 = tick w" and sc: "scope_subjects subjects = Inr (unique, packages)"
    and o: "w_observe w1 (w_clock w1) = Inr first" "w_observe (tick w1) (w_clock (tick w1)) = Inr second"
    and c: "compare_observations True unique (of_guards first) second first (tick (tick w1)) = (Inr (), agreed, w3)"
    and v: "sn_facts v = Some agreed" "sn_subjects v = unique"
    by (auto simp: new_view_def op_ok Let_def split: if_split_asm)
  from sc have u: "unique = first_seen subjects"
    by (auto simp: scope_subjects_def Let_def split: option.splits)
  have f: "facts_of v = agreed" using v by (simp add: facts_of_def)
  from compare_observations_construction [OF c] u
  have a: "of_guards second = of_guards first" "agreed = adopted second first unique"
    "of_files second = of_files first" "\<forall>s\<in>set subjects. construction_agrees first second s"
    by simp_all
  show ?thesis
    unfolding f
    using k v(2) u o a
    by (intro conjI exI [of _ first] exI [of _ second] exI [of _ "Suc (w_clock w)"]
        exI [of _ "Suc (Suc (w_clock w))"] ballI)
      (auto simp: adopted_def adopted_facts tick_def)
qed

definition example_world :: world where
  "example_world = \<lparr>w_clock = 0, w_ctx = (\<lambda>_. None), w_observe = (\<lambda>_. Inr example_facts),
     w_runtime_guards = (\<lambda>_. Inr \<lparr>rg_machine = [], rg_runtime_config = ''r''\<rparr>),
     w_current = (\<lambda>_ m _. Inr \<lparr>rt_manifest = m, rt_digest = ''d'', rt_bracket_moved = False,
       rt_unverifiable = False, rt_reason = [], rt_ok = True\<rparr>),
     w_movers = (\<lambda>_ _ _. Inr []),
     w_analyse = (\<lambda>_ wanted. Inr (\<lambda>s. Some \<lparr>ob_observable = True, ob_reason = [],
       ob_outcome_method = Method, ob_effect_free = False\<rparr>))\<rparr>"

theorem new_view_is_agreement_witness:
  "\<exists>v. fst (new_view \<lparr>en_model = GeneralExecution, en_deferred = False\<rparr> CodeResult
       [example_subject, example_subject] (Inr ''/r'') () example_world) = Inr v
     \<and> sn_subjects v = [example_subject]"
proof -
  obtain v u w2 where "new_view \<lparr>en_model = GeneralExecution, en_deferred = False\<rparr> CodeResult
       [example_subject, example_subject] (Inr ''/r'') () example_world = (Inr v, u, w2)"
    by (simp add: new_view_def example_world_def example_facts_def example_subject_def
      scope_subjects_def empty_subject_def first_seen_def compare_observations_def compare_subject_def
      facts_equal_full valid_kind_def CodeResult_def no_facts_def op_eval)
  with new_view_is_agreement [OF this] show ?thesis
    by (auto simp: first_seen_def)
qed

section \<open>What a successful validation establishes\<close>

text \<open>
  A validated subject: its attached state is complete and evaluates to itself before and
  after the re-analysis, and the re-analysis answers its captured proof unless that proof was
  unavailable.
\<close>

definition reestablished :: "snapshot \<Rightarrow> world \<Rightarrow> subject \<Rightarrow> bool" where
  "reestablished v w s \<longleftrightarrow> (let st = map_get no_rt_state (sn_attached v) s in
     completed_state st
     \<and> (\<exists>t1 t t2 computed. w_clock w \<le> t1 \<and> t1 < t \<and> t < t2
       \<and> w_current w t1 (rt_manifest st) (sn_root v) = Inr st
       \<and> w_analyse w t (captured_subjects v) = Inr computed
       \<and> w_current w t2 (rt_manifest st) (sn_root v) = Inr st
       \<and> (analysis_unavailable (ob_reason (proof_of v s))
          \<or> \<not> analysis_unavailable (ob_reason (map_get no_observability computed s))
            \<and> map_get no_observability computed s = proof_of v s)))"

lemma seeded_simps [simp]:
  "sn_observable (seeded_view v) s = None" "sn_sealed (seeded_view v) = False"
  "sn_cut_unavailable (seeded_view v) = None" "sn_attached (seeded_view v) s = None"
  "facts_of (seeded_view v) = facts_of v" "sn_subjects (seeded_view v) = sn_subjects v"
  "sn_engine (seeded_view v) = sn_engine v" "sn_kind (seeded_view v) = sn_kind v"
  "sn_root (seeded_view v) = sn_root v"
  by (simp_all add: seeded_view_def facts_of_def)

lemma observed_validation_ok:
  assumes "validate_observed v w = (Inr (), v2, w2)"
  shows "v2 = v\<lparr>sn_sealed := True\<rparr> \<and> sn_cut_unavailable v = None \<and> captured_subjects v \<noteq> []
    \<and> (\<exists>w1. later w w1 \<and> agreeing_pass (v\<lparr>sn_sealed := True\<rparr>) w1)
    \<and> (\<forall>s\<in>set (captured_subjects v). reestablished v w s)"
proof -
  let ?vs = "v\<lparr>sn_sealed := True\<rparr>" and ?S = "captured_subjects v" and ?A = "sn_attached v"
  have S: "captured_subjects ?vs = ?S" by (simp add: captured_subjects_def)
  from assms obtain current v3 w3 v4 w4 current' w5 v6 w6 where
    ne: "?S \<noteq> []"
    and n: "new_seeded_validation_view ?vs (tick w) = (Inr current, v3, w3)"
    and c1: "compare_attached ?A ?S v3 w3 = (Inr (), v4, w4)"
    and an: "ensure_observable ?S current w4 = (Inr (), current', w5)"
    and pr: "\<exists>held. compare_proofs (proof_of current') (proof_of v) ?S None = Inr held
      \<and> compare_attached ?A ?S v4 w5 = (Inr (), v6, w6)
      \<and> resolve_unavailable current' held v6 w6 = (Inr (), v2, w2)"
    by (auto simp: validate_observed_def seal_def op_ok Let_def S split: option.splits if_split_asm)
  from compare_attached_ok [OF c1] have v4: "v4 = v3" by simp
  from pr resolve_ok obtain
    cut: "sn_cut_unavailable v3 = None" "sn_cut_unavailable current' = None"
    and p: "compare_proofs (proof_of current') (proof_of v) ?S None = Inr None"
    and c2: "compare_attached ?A ?S v3 w5 = (Inr (), v3, w6)" and v2: "v2 = v3"
    using compare_attached_ok v4 by (metis (no_types, lifting))
  from seeded_validation_ok [OF n] cut(1) have
    cur: "current = seeded_view ?vs" "v3 = ?vs" "agreeing_pass ?vs (tick w)" by auto
  have l3: "later w w3"
    using advancesD [OF advances_seeded n] later_tick later_trans by blast
  from cur(1) ensure_observable_ok [OF an] ne obtain computed where
    a: "analysed w4 w5 ?S computed"
    and obs: "current' = (store_proofs ?S computed (seeded_view ?vs))\<lparr>sn_cut_unavailable := sn_cut_unavailable current'\<rparr>"
    and l5: "later w4 w5"
    by (auto simp: Let_def)
  have proof': "proof_of current' s = map_get no_observability computed s" if "s \<in> set ?S" for s
    using that by (subst obs) (simp add: store_proofs_def map_get_def)
  have l4: "later w3 w4" using compare_attached_ok [OF c1] by blast
  have "reestablished v w s" if s: "s \<in> set ?S" for s
  proof -
    let ?st = "map_get no_rt_state ?A s"
    from compare_attached_ok [OF c1] s cur(2) have complete: "completed_state ?st"
      and e1: "evaluated w3 w4 (sn_root v) (rt_manifest ?st) ?st" by auto
    from compare_attached_ok [OF c2] s cur(2)
    have e2: "evaluated w5 w6 (sn_root v) (rt_manifest ?st) ?st" by auto
    have pc: "compare_observation_proof s (map_get no_observability computed s) (proof_of v s) = None"
      using p s proof' [OF s] unfolding compare_proofs_none by metis
    from l3 l4 l5 have later: "later w w3" "later w w4" "later w w5"
      using later_trans by blast+
    note oracles = later(1) [THEN later_oracles(4)] later(2) [THEN later_oracles(6)]
      later(3) [THEN later_oracles(4)] later(1) [THEN later_oracles(7)]
    from evaluated_later [OF later(1) e1 later_refl] obtain t1 where t1: "w_clock w \<le> t1" "t1 < w_clock w4"
      "w_current w t1 (rt_manifest ?st) (sn_root v) = Inr ?st"
      unfolding evaluated_def by blast
    from a [unfolded analysed_def oracles(2)] obtain t where t: "w_clock w4 \<le> t" "t < w_clock w5"
      "w_analyse w t ?S = Inr computed" by blast
    from e2 [unfolded evaluated_def oracles(3)] obtain t2 where t2: "w_clock w5 \<le> t2"
      "w_current w t2 (rt_manifest ?st) (sn_root v) = Inr ?st"
      by blast
    from t1 t t2 complete pc [unfolded compare_observation_proof_none] show ?thesis
      unfolding reestablished_def Let_def
      by (intro conjI exI [of _ t1] exI [of _ t] exI [of _ t2] exI [of _ computed]) simp_all
  qed
  moreover have "\<exists>w1. later w w1 \<and> agreeing_pass ?vs w1"
    using cur(3) later_tick by blast
  ultimately show ?thesis
    using cur cut v2 ne by auto
qed

text \<open>
  C8: A producer's observed validation succeeds only if a fresh pass agrees with the view's
  record, every captured subject carries a completed runtime state that evaluates to itself
  both before and after the re-analysis, and that re-analysis answers every captured proof
  whose analysis was available. A held unavailability never reaches success, and the view
  ends sealed and otherwise unchanged.
\<close>

theorem observed_validation_is_complete:
  assumes "validate_observed v w = (Inr (), v2, w2)"
  shows "v2 = v\<lparr>sn_sealed := True\<rparr> \<and> sn_cut_unavailable v = None \<and> captured_subjects v \<noteq> []
    \<and> (\<exists>w1. later w w1 \<and> agreeing_pass (v\<lparr>sn_sealed := True\<rparr>) w1)
    \<and> (\<forall>s\<in>set (captured_subjects v). reestablished v w s)"
  using observed_validation_ok [OF assms] .

definition producing_view :: snapshot where
  "producing_view = example_view\<lparr>sn_attached := [example_subject \<mapsto> \<lparr>rt_manifest = ''m'',
     rt_digest = ''d'', rt_bracket_moved = False, rt_unverifiable = False, rt_reason = [],
     rt_ok = True\<rparr>]\<rparr>"

theorem observed_validation_is_complete_witness:
  "\<exists>v2 w2. validate_observed producing_view example_world = (Inr (), v2, w2)
     \<and> reestablished producing_view example_world example_subject"
proof -
  obtain v2 w2 where "validate_observed producing_view example_world = (Inr (), v2, w2)"
    by (simp add: validate_observed_def seal_def captured_subjects_def require_completed_def
      completed_state_def new_seeded_validation_view_def observe_view_def compare_observation_context_def
      compare_observations_def compare_subject_def facts_equal_full hold_cut_unavailable_def
      compare_attached_def runtime_check_def ensure_observable_def store_proofs_def
      compare_observation_proof_def analysis_unavailable_def analysis_unavailable_prefix_def
      has_prefix_def map_get_def defer_unavailability_def
      resolve_unavailable_def report_held_def seeded_view_def snapshot_guards_def facts_of_def
      producing_view_def example_view_def example_world_def example_facts_def example_subject_def
      no_facts_def op_eval Let_def)
  with observed_validation_is_complete [OF this] show ?thesis
    by (auto simp: captured_subjects_def producing_view_def example_view_def)
qed

end
