(* ===== verification/Checking.thy ===== *)
theory Checking
  imports Validation
begin

text \<open>
  checking.go, the checking kernel: admission of a candidate batch, the two runtime-input
  endpoints, the observation proofs an inert record needs, the decision, the motion between
  the endpoints; the map-backed checks of view.go; the inert extension; the retained
  applicability checks; and the view's validation. A kernel run works on a snapshot in a
  moving world. The lemmas show that answers come one per record in order, what a valid and
  what a stale answer rests on, and that a failed batch names every offending record.
\<close>

section \<open>Candidates\<close>

record candidate =
  cd_subject :: subject
  cd_recorded :: fingerprint

record record_check =
  rc_candidate :: candidate
  rc_observed :: bool
  rc_refusal :: "verdict option"

abbreviation rc_subject :: "record_check \<Rightarrow> subject" where
  "rc_subject r \<equiv> cd_subject (rc_candidate r)"

abbreviation rc_recorded :: "record_check \<Rightarrow> fingerprint" where
  "rc_recorded r \<equiv> cd_recorded (rc_candidate r)"

record record_result =
  rr_verdict :: verdict
  rr_evaluated :: bool
  rr_before :: rt_state
  rr_after :: rt_state
  rr_selected :: bool
  rr_unavailable :: "view_error option"

text \<open>
  orderedCandidates, orderedRecordedSubjects: a Go map, given as its entries in any order,
  read in the order of package and symbol.
\<close>

definition ordered_candidates :: "(subject \<times> fingerprint) list \<Rightarrow> candidate list" where
  "ordered_candidates recorded = map (\<lambda>(s, f). \<lparr>cd_subject = s, cd_recorded = f\<rparr>)
     (sort_key (\<lambda>p. s_package (fst p)) (sort_key (\<lambda>p. s_symbol (fst p)) recorded))"

definition shape_failures :: "candidate list \<Rightarrow> record_failure list" where
  "shape_failures cs = map (\<lambda>c. ShapeFailure (cd_subject c) (the (validate_fingerprint (cd_recorded c))))
     (filter (\<lambda>c. validate_fingerprint (cd_recorded c) \<noteq> None) cs)"

definition kind_failures :: "candidate list \<Rightarrow> kind \<Rightarrow> record_failure list" where
  "kind_failures cs kind = map (\<lambda>c. KindFailure (cd_subject c) (fp_kind (cd_recorded c)))
     (filter (\<lambda>c. validate_fingerprint (cd_recorded c) = None \<and> fp_kind (cd_recorded c) \<noteq> kind) cs)"

definition validate_candidates :: "candidate list \<Rightarrow> kind \<Rightarrow> view_error option" where
  "validate_candidates cs kind =
     (if shape_failures cs \<noteq> [] then Some (RecordedBatch True kind (shape_failures cs))
      else if kind_failures cs kind \<noteq> [] then Some (RecordedBatch False kind (kind_failures cs kind))
      else None)"

definition prepare_candidates :: "snapshot \<Rightarrow> candidate list \<Rightarrow> view_error option" where
  "prepare_candidates v cs = (case validate_candidates cs (sn_kind v) of
      Some e \<Rightarrow> Some e
    | None \<Rightarrow> require_members v (map cd_subject cs))"

section \<open>Runtime-input endpoints\<close>

text \<open>
  currentRuntimeContext: an unevaluable guard is the zero state, a cancellation is an error.
  The memo is one endpoint's; a record without inputs reads nothing.
\<close>

definition current_runtime ::
    "fingerprint \<Rightarrow> (string \<rightharpoonup> rt_state) \<Rightarrow> (rt_state \<times> (string \<rightharpoonup> rt_state)) vop" where
  "current_runtime rec shared = op_then ctx_check
     (if fp_runtime_inputs rec = [] then op_return (no_rt_state, shared)
      else (case shared (fp_runtime_inputs rec) of
          Some st \<Rightarrow> op_return (st, shared)
        | None \<Rightarrow> op_bind (op_try (runtime_check (fp_runtime_inputs rec))) (\<lambda>r.
            op_bind (case r of
                Inr st \<Rightarrow> op_return st
              | Inl e \<Rightarrow> op_then ctx_check (case e of
                    ContextError c \<Rightarrow> op_fail (ContextError c)
                  | _ \<Rightarrow> op_return no_rt_state)) (\<lambda>st.
            op_then ctx_check (op_return (st, shared(fp_runtime_inputs rec \<mapsto> st)))))))"

text \<open>observeRecordInputs: one endpoint over the batch; a refused record keeps the zero state.\<close>

fun observe_inputs_from ::
    "(string \<rightharpoonup> rt_state) \<Rightarrow> (fingerprint \<times> bool) list \<Rightarrow> rt_state list vop" where
  "observe_inputs_from shared [] = op_then ctx_check (op_return [])"
| "observe_inputs_from shared ((rec, live) # rest) = op_then ctx_check
     (op_bind (if live then current_runtime rec shared else op_return (no_rt_state, shared))
       (\<lambda>(st, shared'). op_bind (observe_inputs_from shared' rest) (\<lambda>sts. op_return (st # sts))))"

definition observe_record_inputs :: "(fingerprint \<times> bool) list \<Rightarrow> rt_state list vop" where
  "observe_record_inputs records = observe_inputs_from (\<lambda>_. None) records"

definition with_moved_inputs :: "verdict \<Rightarrow> fingerprint \<Rightarrow> verdict vop" where
  "with_moved_inputs verdict rec = op_bind op_get (\<lambda>v.
     if v_status verdict \<noteq> Stale \<or> ca_kind (v_cause verdict) \<noteq> RuntimeInputsCause
       \<or> fp_runtime_inputs rec = [] \<or> sn_engine v = None
     then op_return verdict
     else op_bind (moved_inputs (fp_runtime_inputs rec)) (\<lambda>movers.
       op_return (if movers = [] then verdict
         else verdict\<lparr>v_reason := ''runtimeinputs (moved: '' @ capped_list movers @ '')''\<rparr>)))"

definition runtime_motion :: "candidate \<Rightarrow> verdict \<Rightarrow> rt_state \<Rightarrow> rt_state \<Rightarrow> verdict vop" where
  "runtime_motion c prior before after =
     (if fp_runtime_inputs (cd_recorded c) = [] \<or> before = after \<or> v_status prior = Stale
      then op_return prior
      else (let moved = (case runtime_input_verdict (cd_recorded c) after of
                Some m \<Rightarrow> m
              | None \<Rightarrow> refusal Stale RuntimeInputsCause Changed ''runtimeinputs'')
        in op_bind (with_moved_inputs moved (cd_recorded c)) (\<lambda>m.
             op_bind op_get (\<lambda>v. op_return (judgment_for v (cd_subject c) m)))))"

section \<open>The kernel\<close>

text \<open>The first pass: a prepared or recorded-evidence refusal, or the admitted authority.\<close>

definition admit_record ::
    "(string \<Rightarrow> string \<Rightarrow> bool) \<Rightarrow> snapshot \<Rightarrow> record_check \<Rightarrow> verdict + observation_authority" where
  "admit_record hs v r =
     (let cl = closure_of (facts_of v) (rc_subject r) in
      case (case rc_refusal r of Some x \<Rightarrow> Some x
            | None \<Rightarrow> recorded_evidence_verdict (rc_recorded r) cl) of
        Some x \<Rightarrow> Inl (judgment_for v (rc_subject r) x)
      | None \<Rightarrow> Inr (if rc_observed r then admitted_observation hs (rc_recorded r) (rc_subject r) cl
                     else no_observation))"

definition evaluated_record :: "verdict + observation_authority \<Rightarrow> bool" where
  "evaluated_record a = (case a of Inl _ \<Rightarrow> False | Inr _ \<Rightarrow> True)"

text \<open>The decision under an authority, and whether an inert record rests on a current proof.\<close>

definition decide_record ::
    "snapshot \<Rightarrow> record_check \<Rightarrow> rt_state \<Rightarrow> observation_authority \<Rightarrow> verdict" where
  "decide_record v r before positive =
     (let cl = closure_of (facts_of v) (rc_subject r); rec = rc_recorded r;
          pure = purity_matches v rec (rc_subject r) in
      if rc_observed r then decide_observed rec cl (snapshot_guards v) before (sn_kind v) pure positive
      else decide_after_closure rec cl (snapshot_guards v) before (sn_kind v) pure)"

definition needs_proof ::
    "snapshot \<Rightarrow> record_check \<Rightarrow> verdict + observation_authority \<Rightarrow> rt_state \<Rightarrow> bool" where
  "needs_proof v r a before = (case a of Inl _ \<Rightarrow> False
     | Inr positive \<Rightarrow> (let cl = closure_of (facts_of v) (rc_subject r); rec = rc_recorded r;
          pure = purity_matches v rec (rc_subject r) in
        rc_observed r
        \<and> v_status (decide_after_closure rec cl (snapshot_guards v) before (sn_kind v) pure) = Unverifiable
        \<and> observation_accepted positive \<and> fp_applicability rec \<noteq> no_applicability
        \<and> v_status (decide_observed rec cl (snapshot_guards v) before (sn_kind v) pure positive) = Valid))"

definition current_applicability_observable :: "snapshot \<Rightarrow> subject \<Rightarrow> string \<Rightarrow> bool" where
  "current_applicability_observable v s m = (let p = map_get no_observability (sn_observable v) s in
     if m = StaticMethod then ob_observable p \<and> ob_effect_free p
     else ob_observable p \<and> ob_outcome_method p = Method)"

text \<open>The authority after the current proof is read: confirmed, or withdrawn with its reason.\<close>

definition confirm_positive ::
    "snapshot \<Rightarrow> subject \<Rightarrow> observation_authority \<Rightarrow> observation_authority \<times> view_error option" where
  "confirm_positive v s positive =
     (if current_applicability_observable v s (oa_method positive)
      then (positive\<lparr>oa_current := True\<rparr>, None)
      else (no_observation,
        (let reason = ob_reason (map_get no_observability (sn_observable v) s) in
         if analysis_unavailable reason
         then Some (AnalysisUnavailable (''applicability for '' @ subject_text s @ '': '' @ reason))
         else None)))"

definition confirmed ::
    "snapshot \<Rightarrow> record_check \<Rightarrow> bool \<Rightarrow> observation_authority \<Rightarrow> observation_authority \<times> view_error option" where
  "confirmed v r selected positive =
     (if selected then confirm_positive v (rc_subject r) positive else (positive, None))"

definition retain_applicability_check :: "fingerprint \<Rightarrow> subject \<Rightarrow> bool \<Rightarrow> unit vop" where
  "retain_applicability_check rec s observed = op_bind op_get (\<lambda>v.
     if sn_sealed v then op_fail ViewSealed
     else op_then ctx_check
       (let check = \<lparr>ac_recorded = rec, ac_subject = s, ac_observed = observed\<rparr> in
        op_modify (\<lambda>u. if check \<in> set (sn_checks u) then u
          else u\<lparr>sn_checks := sn_checks u @ [check]\<rparr>)))"

text \<open>One record between the endpoints: its provisional verdict.\<close>

definition provisional ::
    "record_check \<Rightarrow> verdict + observation_authority \<Rightarrow> bool \<Rightarrow> rt_state \<Rightarrow> verdict vop" where
  "provisional r a selected before = (case a of Inl x \<Rightarrow> op_return x
     | Inr positive \<Rightarrow> op_bind op_get (\<lambda>v. with_moved_inputs
         (decide_record v r before (fst (confirmed v r selected positive))) (rc_recorded r)))"

definition finish_record ::
    "bool \<Rightarrow> record_check \<times> (verdict + observation_authority) \<times> bool \<times> verdict \<times> rt_state \<times> rt_state
      \<Rightarrow> record_result vop" where
  "finish_record retain = (\<lambda>(r, a, selected, verdict, before, after).
     op_bind (runtime_motion (rc_candidate r) verdict before after) (\<lambda>moved.
     op_bind op_get (\<lambda>v.
     (let final = judgment_for v (rc_subject r) moved;
          (positive, unavailable) = (case a of Inl _ \<Rightarrow> (no_observation, None)
             | Inr p \<Rightarrow> confirmed v r selected p);
          kept = selected \<and> oa_current positive \<and> v_status final = Valid
      in op_then (if retain \<and> kept
           then retain_applicability_check (rc_recorded r) (rc_subject r) True else op_return ())
         (op_return \<lparr>rr_verdict = final, rr_evaluated = evaluated_record a, rr_before = before,
            rr_after = after, rr_selected = kept, rr_unavailable = unavailable\<rparr>)))))"

definition check_records ::
    "(string \<Rightarrow> string \<Rightarrow> bool) \<Rightarrow> record_check list \<Rightarrow> bool \<Rightarrow> bool \<Rightarrow> record_result list vop" where
  "check_records hs records defer_close retain = op_then ctx_check (op_bind op_get (\<lambda>v.
     (let admitted = map (admit_record hs v) records;
          inputs = map (\<lambda>(r, a). (rc_recorded r, evaluated_record a)) (zip records admitted);
          has_runtime = (\<exists>(r, a)\<in>set (zip records admitted).
            evaluated_record a \<and> fp_runtime_inputs (rc_recorded r) \<noteq> [])
      in op_bind (observe_record_inputs inputs) (\<lambda>before.
         (let selected = map (\<lambda>(r, a, b). needs_proof v r a b) (zip records (zip admitted before));
              proofs = first_seen (map (\<lambda>(r, s). rc_subject r)
                (filter (\<lambda>(r, s). s) (zip records selected)))
          in op_then (ensure_observable proofs)
            (op_bind (op_map (\<lambda>(r, a, s, b). provisional r a s b)
                (zip records (zip admitted (zip selected before)))) (\<lambda>verdicts.
             op_bind (observe_record_inputs inputs) (\<lambda>after.
             op_then (close_check_window has_runtime defer_close)
             (op_bind (op_map (finish_record retain)
                (zip records (zip admitted (zip selected (zip verdicts (zip before after))))))
               (\<lambda>results. op_then ctx_check (op_return results)))))))))))"

definition check_map ::
    "(string \<Rightarrow> string \<Rightarrow> bool) \<Rightarrow> (subject \<times> fingerprint) list \<Rightarrow> bool \<Rightarrow> bool
      \<Rightarrow> (subject \<rightharpoonup> verdict) vop" where
  "check_map hs recorded observed defer_close = op_then ctx_check (op_bind op_get (\<lambda>v.
     (let candidates = ordered_candidates recorded in
      case prepare_candidates v candidates of Some e \<Rightarrow> op_fail e
      | None \<Rightarrow> op_bind (check_records hs (map (\<lambda>c. \<lparr>rc_candidate = c, rc_observed = observed,
            rc_refusal = None\<rparr>) candidates) defer_close True) (\<lambda>results.
          op_return (fold (\<lambda>(c, r) m. m(cd_subject c \<mapsto> rr_verdict r)) (zip candidates results)
            (\<lambda>_. None))))))"

text \<open>CheckBatch, CheckObservedBatch and their single-record forms.\<close>

definition check_batch ::
    "(string \<Rightarrow> string \<Rightarrow> bool) \<Rightarrow> bool \<Rightarrow> (subject \<times> fingerprint) list \<Rightarrow> (subject \<rightharpoonup> verdict) vop" where
  "check_batch hs observed recorded = op_bind op_get (\<lambda>v.
     if sn_facts v = None \<or> sn_engine v = None then op_fail uninitialized
     else check_map hs recorded observed (deferred_close v))"

definition check_single ::
    "(string \<Rightarrow> string \<Rightarrow> bool) \<Rightarrow> bool \<Rightarrow> fingerprint \<Rightarrow> subject \<Rightarrow> verdict option vop" where
  "check_single hs observed rec s = op_bind (check_batch hs observed [(s, rec)])
     (\<lambda>verdicts. op_return (verdicts s))"

section \<open>What the kernel keeps\<close>

text \<open>The part of a snapshot an answer is computed from; no check changes it.\<close>

definition same_basis :: "snapshot \<Rightarrow> snapshot \<Rightarrow> bool" where
  "same_basis u v \<longleftrightarrow> sn_facts u = sn_facts v \<and> sn_runtime u = sn_runtime v \<and> sn_kind u = sn_kind v
     \<and> sn_engine u = sn_engine v \<and> sn_subjects u = sn_subjects v \<and> sn_root u = sn_root v"

lemma same_basis_refl [simp]: "same_basis v v"
  by (simp add: same_basis_def)

lemma same_basis_trans [trans]: "same_basis u v \<Longrightarrow> same_basis v x \<Longrightarrow> same_basis u x"
  by (simp add: same_basis_def)

lemma same_basis_sym: "same_basis u v \<Longrightarrow> same_basis v u"
  by (simp add: same_basis_def)

lemma same_basis_facts:
  assumes "same_basis u v"
  shows "facts_of u = facts_of v" "snapshot_guards u = snapshot_guards v"
    "purity_matches u = purity_matches v" "decide_record u = decide_record v"
    "judgment_for u = judgment_for v" "sn_kind u = sn_kind v" "sn_engine u = sn_engine v"
    "sn_root u = sn_root v" "sn_subjects u = sn_subjects v"
proof -
  from assms have f: "facts_of u = facts_of v" "sn_runtime u = sn_runtime v" "sn_kind u = sn_kind v"
    "sn_engine u = sn_engine v" "sn_root u = sn_root v" "sn_subjects u = sn_subjects v"
    by (simp_all add: same_basis_def facts_of_def)
  then show g: "facts_of u = facts_of v" "snapshot_guards u = snapshot_guards v"
    "purity_matches u = purity_matches v" "sn_kind u = sn_kind v" "sn_engine u = sn_engine v"
    "sn_root u = sn_root v" "sn_subjects u = sn_subjects v"
    by (simp_all add: snapshot_guards_def purity_matches_def fun_eq_iff split: option.split)
  show "decide_record u = decide_record v" "judgment_for u = judgment_for v"
    by (intro ext, simp only: decide_record_def judgment_for_def g)+
qed

lemma same_basis_cut: "v2 = v\<lparr>sn_cut_unavailable := c\<rparr> \<Longrightarrow> same_basis v v2"
  by (simp add: same_basis_def)

lemma agreeing_pass_cong:
  assumes "same_basis u v" "agreeing_pass u w"
  shows "agreeing_pass v w"
  using assms same_basis_facts [OF assms(1)]
  by (fastforce simp: agreeing_pass_def observe_view_def op_ok same_basis_def split: option.splits)

lemma ensure_observable_basis:
  assumes "ensure_observable subjects v w = (Inr (), v2, w2)"
  shows "same_basis v v2 \<and> sn_sealed v2 = sn_sealed v \<and> sn_checks v2 = sn_checks v
    \<and> sn_captured v2 = sn_captured v \<and> sn_attached v2 = sn_attached v"
proof -
  from ensure_observable_ok [OF assms] consider "v2 = v"
    | computed where "v2 = (store_proofs (filter (\<lambda>s. sn_observable v s = None) subjects) computed v)
        \<lparr>sn_cut_unavailable := sn_cut_unavailable v2\<rparr>"
    by (auto simp: Let_def split: if_splits)
  then show ?thesis
  proof cases
    case 2
    then show ?thesis by (cases v, cases v2) (simp add: same_basis_def store_proofs_def)
  qed simp
qed

section \<open>The endpoints\<close>

lemma reads_only_current_runtime: "reads_only (current_runtime rec shared)"
  unfolding current_runtime_def
  by (auto intro!: reads_only_rules reads_only_runtime_check split: option.splits sum.splits view_error.splits)

lemma reads_only_observe_inputs: "reads_only (observe_inputs_from shared records)"
proof (induction records arbitrary: shared)
  case (Cons r records)
  then show ?case
    by (cases r) (auto intro!: reads_only_rules reads_only_current_runtime)
qed (auto intro!: reads_only_rules)

lemma advances_current_runtime: "advances (current_runtime rec shared)"
  unfolding current_runtime_def
  by (auto intro!: advances_rules advances_runtime_check split: view_error.splits)

lemma advances_observe_inputs: "advances (observe_inputs_from shared records)"
proof (induction records arbitrary: shared)
  case (Cons r records)
  then show ?case
    by (cases r) (auto intro!: advances_rules advances_current_runtime)
qed (auto intro!: advances_rules)

text \<open>A state an endpoint answers was read since the endpoint began, or is the zero state.\<close>

definition endpoint_state :: "world \<Rightarrow> world \<Rightarrow> string \<Rightarrow> string \<Rightarrow> rt_state \<Rightarrow> bool" where
  "endpoint_state w w2 root manifest st \<longleftrightarrow> st = no_rt_state \<or> evaluated w w2 root manifest st"

lemma current_runtime_ok:
  assumes "current_runtime rec shared v w = (Inr (st, shared'), v2, w2)"
    and "later w0 w" and "\<And>m st. shared m = Some st \<Longrightarrow> endpoint_state w0 w (sn_root v) m st"
  shows "(fp_runtime_inputs rec = [] \<longrightarrow> st = no_rt_state)
    \<and> endpoint_state w0 w2 (sn_root v) (fp_runtime_inputs rec) st
    \<and> (\<forall>m st. shared' m = Some st \<longrightarrow> endpoint_state w0 w2 (sn_root v) m st)"
proof -
  have l: "later w w2" using advancesD [OF advances_current_runtime assms(1)] .
  have keep: "endpoint_state w0 w2 (sn_root v) m x" if "endpoint_state w0 w (sn_root v) m x" for m x
    using that evaluated_later [of w0 w0 w "sn_root v" m x w2] l by (auto simp: endpoint_state_def)
  show ?thesis
  proof (cases "fp_runtime_inputs rec = [] \<or> (\<exists>x. shared (fp_runtime_inputs rec) = Some x)")
    case True
    then have st: "st = no_rt_state \<and> fp_runtime_inputs rec = []
        \<or> shared (fp_runtime_inputs rec) = Some st \<and> fp_runtime_inputs rec \<noteq> []" "shared' = shared"
      using assms(1) by (auto simp: current_runtime_def op_ok split: if_split_asm)
    moreover have "endpoint_state w0 w2 (sn_root v) m no_rt_state" for m
      by (simp add: endpoint_state_def)
    ultimately show ?thesis using assms(3) keep by blast
  next
    case False
    then obtain wa wb r where
      r: "runtime_check (fp_runtime_inputs rec) v wa = (r, v, wb)" "wa = tick w"
      and st: "shared' = shared(fp_runtime_inputs rec \<mapsto> st)" "st = no_rt_state \<or> r = Inr st"
      and wb: "later wb w2"
    proof -
      from False assms(1) obtain r v1 wb v3 w3 where
        r: "runtime_check (fp_runtime_inputs rec) v (tick w) = (r, v1, wb)"
        and c: "(case r of Inr st \<Rightarrow> op_return st
              | Inl e \<Rightarrow> op_then ctx_check (case e of ContextError c \<Rightarrow> op_fail (ContextError c)
                  | _ \<Rightarrow> op_return no_rt_state)) v1 wb = (Inr st, v3, w3)"
        and e: "shared' = shared(fp_runtime_inputs rec \<mapsto> st)" "w2 = tick w3"
        by (auto simp: current_runtime_def op_ok)
      from reads_onlyD [OF reads_only_runtime_check r] have "v1 = v" .
      moreover from c have "st = no_rt_state \<or> r = Inr st" and "later wb w3"
        by (auto simp: op_ok split: sum.splits view_error.splits)
      moreover have "later wb w2" using \<open>later wb w3\<close> e(2) later_tick later_trans by blast
      ultimately show ?thesis using that [of "tick w" r wb] r e by blast
    qed
    have "endpoint_state w0 w2 (sn_root v) (fp_runtime_inputs rec) st"
    proof (cases "st = no_rt_state")
      case False
      with st r have "w_current wa (w_clock wa) (fp_runtime_inputs rec) (sn_root v) = Inr st" "wb = tick wa"
        by (auto simp: runtime_check_def op_ok)
      then have "evaluated wa wb (sn_root v) (fp_runtime_inputs rec) st"
        by (auto simp: evaluated_def tick_def intro: exI [of _ "w_clock wa"])
      moreover have "later w0 wa" using r(2) assms(2) later_tick later_trans by metis
      ultimately show ?thesis using evaluated_later wb by (auto simp: endpoint_state_def)
    qed (simp add: endpoint_state_def)
    with st False keep assms(3) show ?thesis by auto
  qed
qed

text \<open>
  One endpoint over a batch: a record without inputs, or a refused one, gets the zero state,
  every other the zero state or one read since the endpoint began.
\<close>

definition endpoint_answer :: "world \<Rightarrow> world \<Rightarrow> string \<Rightarrow> fingerprint \<times> bool \<Rightarrow> rt_state \<Rightarrow> bool" where
  "endpoint_answer w w2 root = (\<lambda>(rec, live) st.
     (\<not> live \<or> fp_runtime_inputs rec = [] \<longrightarrow> st = no_rt_state)
     \<and> endpoint_state w w2 root (fp_runtime_inputs rec) st)"

lemma observe_inputs_ok:
  assumes "observe_inputs_from shared records v w = (Inr sts, v2, w2)"
    and "later w0 w" and "\<And>m st. shared m = Some st \<Longrightarrow> endpoint_state w0 w (sn_root v) m st"
  shows "list_all2 (endpoint_answer w0 w2 (sn_root v)) records sts"
  using assms
proof (induction records arbitrary: shared w sts v2 w2)
  case Nil
  then show ?case by (auto simp: op_ok)
next
  case (Cons r records)
  obtain rec live where r: "r = (rec, live)" by fastforce
  from Cons.prems(1) obtain st shared' v1 w1 rest v3 where
    c: "(if live then current_runtime rec shared else op_return (no_rt_state, shared)) v (tick w)
          = (Inr (st, shared'), v1, w1)"
    and o: "observe_inputs_from shared' records v1 w1 = (Inr rest, v3, w2)" and sts: "sts = st # rest"
    by (auto simp: r op_ok)
  have v1: "v1 = v"
    using c reads_onlyD [OF reads_only_current_runtime, of rec shared v "tick w"]
    by (auto simp: op_ok split: if_split_asm)
  have "later w0 (tick w)" using Cons.prems(2) later_tick later_trans by blast
  moreover have "endpoint_state w0 (tick w) (sn_root v) m x" if "shared m = Some x" for m x
    using Cons.prems(3) [OF that] evaluated_later [of w0 w0 w "sn_root v" m x "tick w"]
    by (auto simp: endpoint_state_def)
  ultimately have here: "(\<not> live \<or> fp_runtime_inputs rec = [] \<longrightarrow> st = no_rt_state)
      \<and> endpoint_state w0 w1 (sn_root v) (fp_runtime_inputs rec) st"
    and memo: "\<And>m x. shared' m = Some x \<Longrightarrow> endpoint_state w0 w1 (sn_root v) m x"
    and l1: "later w0 w1"
    using c current_runtime_ok [of rec shared v "tick w" st shared' v1 w1 w0]
      advancesD [OF advances_current_runtime, of rec shared v "tick w"] later_trans
    by (cases live; auto simp: op_ok endpoint_state_def)+
  have "later w1 w2" using advancesD [OF advances_observe_inputs o] .
  with here have "endpoint_answer w0 w2 (sn_root v) r st"
    using evaluated_later [of w0 w0 w1 "sn_root v" "fp_runtime_inputs rec" st w2]
    by (auto simp: endpoint_answer_def endpoint_state_def r)
  with Cons.IH [OF o [unfolded v1] l1 memo] sts show ?case by simp
qed

lemma observe_record_inputs_ok:
  assumes "observe_record_inputs records v w = (Inr sts, v2, w2)"
  shows "v2 = v \<and> later w w2 \<and> list_all2 (endpoint_answer w w2 (sn_root v)) records sts"
  using assms observe_inputs_ok [of "\<lambda>_. None" records v w sts v2 w2 w]
    reads_onlyD [OF reads_only_observe_inputs] advancesD [OF advances_observe_inputs]
  unfolding observe_record_inputs_def by fastforce

section \<open>The provisional and the final answer of a record\<close>

lemma reads_only_with_moved: "reads_only (with_moved_inputs verdict rec)"
  unfolding with_moved_inputs_def by (intro reads_only_rules reads_only_moved_inputs)

lemma advances_with_moved: "advances (with_moved_inputs verdict rec)"
  unfolding with_moved_inputs_def by (intro advances_rules advances_moved_inputs)

lemma with_moved_ok:
  assumes "with_moved_inputs verdict rec v w = (Inr x, v2, w2)"
  shows "v_status x = v_status verdict \<and> v_ground x = v_ground verdict \<and> v2 = v"
  using assms reads_onlyD [OF reads_only_with_moved assms]
  by (auto simp: with_moved_inputs_def op_ok split: if_split_asm)

lemma reads_only_motion: "reads_only (runtime_motion c prior before after)"
  unfolding runtime_motion_def Let_def by (intro reads_only_rules reads_only_with_moved)

lemma advances_motion: "advances (runtime_motion c prior before after)"
  unfolding runtime_motion_def Let_def by (intro advances_rules advances_with_moved)

lemma motion_ok:
  assumes "runtime_motion c prior before after v w = (Inr x, v2, w2)"
  shows "v2 = v \<and> v_status x = (if fp_runtime_inputs (cd_recorded c) = [] \<or> before = after
    then v_status prior else Stale)
    \<and> (fp_runtime_inputs (cd_recorded c) = [] \<or> before = after \<or> v_status prior = Stale \<longrightarrow> x = prior)"
proof (cases "fp_runtime_inputs (cd_recorded c) = [] \<or> before = after \<or> v_status prior = Stale")
  case True
  then show ?thesis using assms by (auto simp: runtime_motion_def op_ok)
next
  case False
  let ?m = "case runtime_input_verdict (cd_recorded c) after of Some m \<Rightarrow> m
    | None \<Rightarrow> refusal Stale RuntimeInputsCause Changed ''runtimeinputs''"
  have "v_status ?m = Stale" by (auto dest: runtime_input_stale split: option.split)
  with False assms show ?thesis
    by (auto simp: runtime_motion_def op_ok Let_def dest: with_moved_ok)
qed

lemma provisional_ok:
  assumes "provisional r a selected before v w = (Inr x, v2, w2)"
  shows "v2 = v \<and> (case a of Inl y \<Rightarrow> x = y
    | Inr p \<Rightarrow> v_status x = v_status (decide_record v r before (fst (confirmed v r selected p))))"
  using assms by (cases a) (auto simp: provisional_def op_ok dest: with_moved_ok)

lemma advances_provisional: "advances (provisional r a selected before)"
  unfolding provisional_def by (intro advances_rules advances_with_moved)

lemma advances_retain: "advances (retain_applicability_check rec s b)"
  unfolding retain_applicability_check_def Let_def by (intro advances_rules)

lemma advances_finish: "advances (finish_record retain x)"
  unfolding finish_record_def Let_def by (intro advances_rules advances_motion advances_retain)

lemma retain_ok:
  assumes "retain_applicability_check rec s b v w = (Inr y, v2, w2)"
  shows "same_basis v v2 \<and> sn_observable v2 = sn_observable v \<and> \<not> sn_sealed v
    \<and> set (sn_checks v2) = insert \<lparr>ac_recorded = rec, ac_subject = s, ac_observed = b\<rparr> (set (sn_checks v))"
  using assms by (auto simp: retain_applicability_check_def op_ok Let_def same_basis_def split: if_split_asm)

definition keeps_proofs :: "snapshot \<Rightarrow> snapshot \<Rightarrow> bool" where
  "keeps_proofs u v \<longleftrightarrow> same_basis u v \<and> sn_observable v = sn_observable u"

lemma confirmed_cong: "keeps_proofs u v \<Longrightarrow> confirmed v r s p = confirmed u r s p"
  by (simp add: keeps_proofs_def confirmed_def confirm_positive_def current_applicability_observable_def)

lemma finish_record_ok:
  assumes "finish_record retain (r, a, selected, verdict, before, after) v w = (Inr res, v2, w2)"
  shows "keeps_proofs v v2 \<and> rr_evaluated res = evaluated_record a
    \<and> rr_before res = before \<and> rr_after res = after
    \<and> v_status (rr_verdict res) = (if fp_runtime_inputs (rc_recorded r) = [] \<or> before = after
        then v_status verdict else Stale)
    \<and> rr_selected res = (selected \<and> (\<exists>p. a = Inr p \<and> oa_current (fst (confirmed v r selected p)))
        \<and> v_status (rr_verdict res) = Valid)"
proof -
  from assms obtain moved v1 w1 where
    m: "runtime_motion (rc_candidate r) verdict before after v w = (Inr moved, v1, w1)"
    and rest: "(let final = judgment_for v1 (rc_subject r) moved;
          (positive, unavailable) = (case a of Inl _ \<Rightarrow> (no_observation, None)
             | Inr p \<Rightarrow> confirmed v1 r selected p);
          kept = selected \<and> oa_current positive \<and> v_status final = Valid
      in op_then (if retain \<and> kept
           then retain_applicability_check (rc_recorded r) (rc_subject r) True else op_return ())
         (op_return \<lparr>rr_verdict = final, rr_evaluated = evaluated_record a, rr_before = before,
            rr_after = after, rr_selected = kept, rr_unavailable = unavailable\<rparr>)) v1 w1
       = (Inr res, v2, w2)"
    by (auto simp: finish_record_def op_bind_ok op_get_ok)
  from motion_ok [OF m] have v1: "v1 = v" by simp
  obtain q un where q: "(case a of Inl _ \<Rightarrow> (no_observation, None) | Inr p \<Rightarrow> confirmed v1 r selected p) = (q, un)"
    by fastforce
  have cur: "oa_current q \<longleftrightarrow> (\<exists>p. a = Inr p \<and> oa_current (fst (confirmed v r selected p)))"
    using q v1 by (cases a) (auto simp: no_observation_def)
  from rest q have "keeps_proofs v1 v2" and res: "res = \<lparr>rr_verdict = judgment_for v1 (rc_subject r) moved,
      rr_evaluated = evaluated_record a, rr_before = before, rr_after = after,
      rr_selected = (selected \<and> oa_current q \<and> v_status moved = Valid), rr_unavailable = un\<rparr>"
    by (auto simp: Let_def op_ok keeps_proofs_def dest: retain_ok split: if_split_asm)
  with motion_ok [OF m] v1 cur show ?thesis by simp
qed

text \<open>The kernel, record by record.\<close>

definition kernel_answer ::
    "(string \<Rightarrow> string \<Rightarrow> bool) \<Rightarrow> snapshot \<Rightarrow> snapshot \<Rightarrow> world \<Rightarrow> world \<Rightarrow> record_check \<Rightarrow> record_result \<Rightarrow> bool" where
  "kernel_answer hs v v2 w w2 r res \<longleftrightarrow>
     (case admit_record hs v r of
        Inl y \<Rightarrow> \<not> rr_evaluated res \<and> v_status (rr_verdict res) = v_status y \<and> \<not> rr_selected res
          \<and> rr_before res = no_rt_state \<and> rr_after res = no_rt_state
      | Inr p \<Rightarrow> (let m = fp_runtime_inputs (rc_recorded r); b = rr_before res;
            sel = needs_proof v r (Inr p) b; pos = fst (confirmed v2 r sel p) in
          rr_evaluated res
          \<and> (m = [] \<longrightarrow> b = no_rt_state \<and> rr_after res = no_rt_state)
          \<and> v_status (rr_verdict res) = (if m = [] \<or> b = rr_after res
              then v_status (decide_record v r b pos) else Stale)
          \<and> rr_selected res = (sel \<and> oa_current pos \<and> v_status (rr_verdict res) = Valid)
          \<and> (\<exists>w1. later w w1 \<and> later w1 w2 \<and> endpoint_state w w1 (sn_root v) m b
              \<and> endpoint_state w1 w2 (sn_root v) m (rr_after res))))"

lemma endpoint_later:
  assumes "later w0 w1" "endpoint_state w1 w2 root m st" "later w2 w3"
  shows "endpoint_state w0 w3 root m st"
  using assms evaluated_later [OF assms(1) _ assms(3)] by (auto simp: endpoint_state_def)

lemma advances_close: "advances (close_check_window b d)"
  unfolding close_check_window_def by (intro advances_rules advances_reobserve)

lemma close_window_ok:
  assumes "close_check_window b d v w = (Inr (), v2, w2)"
  shows "v2 = v \<and> (b \<and> \<not> d \<longrightarrow> agreeing_pass v w)"
  using assms reobserve_base_ok [of v w v2 w2]
  by (auto simp: close_check_window_def op_ok agreeing_pass_def split: if_split_asm)

text \<open>The stages of one run, record by record: admission, both endpoints, the two answers.\<close>

definition stage_facts ::
    "(string \<Rightarrow> string \<Rightarrow> bool) \<Rightarrow> snapshot \<Rightarrow> snapshot \<Rightarrow> world \<Rightarrow> world \<Rightarrow> record_check
      \<Rightarrow> record_result \<Rightarrow> bool" where
  "stage_facts hs v v1 w w2 r res \<longleftrightarrow> (let a = admit_record hs v r; b = rr_before res;
       af = rr_after res; s = needs_proof v r a b in
     \<exists>x wa wb. later w wa \<and> later wa wb \<and> later wb w2
     \<and> endpoint_answer w wa (sn_root v) (rc_recorded r, evaluated_record a) b
     \<and> endpoint_answer wa wb (sn_root v) (rc_recorded r, evaluated_record a) af
     \<and> (case a of Inl y \<Rightarrow> x = y
         | Inr q \<Rightarrow> v_status x = v_status (decide_record v1 r b (fst (confirmed v1 r s q))))
     \<and> rr_evaluated res = evaluated_record a
     \<and> v_status (rr_verdict res) = (if fp_runtime_inputs (rc_recorded r) = [] \<or> b = af
         then v_status x else Stale)
     \<and> rr_selected res = (s \<and> (\<exists>q. a = Inr q \<and> oa_current (fst (confirmed v1 r s q)))
         \<and> v_status (rr_verdict res) = Valid))"

lemma endpoint_answer_later:
  "endpoint_answer w1 w2 root (rec, live) st \<Longrightarrow> later w0 w1 \<Longrightarrow> later w2 w3
     \<Longrightarrow> endpoint_answer w0 w3 root (rec, live) st"
  using endpoint_later by (fastforce simp: endpoint_answer_def)

lemma check_records_stages:
  assumes "check_records hs records d t v w = (Inr results, v2, w2)"
  shows "\<exists>v1. same_basis v v1 \<and> keeps_proofs v1 v2 \<and> later w w2
    \<and> list_all2 (stage_facts hs v v1 w w2) records results
    \<and> (\<not> d \<and> (\<exists>r\<in>set records. evaluated_record (admit_record hs v r)
          \<and> fp_runtime_inputs (rc_recorded r) \<noteq> []) \<longrightarrow> (\<exists>w1. later w w1 \<and> agreeing_pass v w1))"
proof -
  let ?A = "map (admit_record hs v) records"
  let ?I = "map (\<lambda>(r, a). (rc_recorded r, evaluated_record a)) (zip records ?A)"
  let ?R = "\<exists>(r, a)\<in>set (zip records ?A). evaluated_record a \<and> fp_runtime_inputs (rc_recorded r) \<noteq> []"
  let ?n = "length records"
  from assms obtain before va wa where
    b: "observe_record_inputs ?I v (tick w) = (Inr before, va, wa)"
    and rest1: "(let selected = map (\<lambda>(r, a, b). needs_proof v r a b) (zip records (zip ?A before));
              proofs = first_seen (map (\<lambda>(r, s). rc_subject r)
                (filter (\<lambda>(r, s). s) (zip records selected)))
          in op_then (ensure_observable proofs)
            (op_bind (op_map (\<lambda>(r, a, s, b). provisional r a s b)
                (zip records (zip ?A (zip selected before)))) (\<lambda>verdicts.
             op_bind (observe_record_inputs ?I) (\<lambda>after.
             op_then (close_check_window ?R d)
             (op_bind (op_map (finish_record t)
                (zip records (zip ?A (zip selected (zip verdicts (zip before after))))))
               (\<lambda>results. op_then ctx_check (op_return results))))))) va wa = (Inr results, v2, w2)"
    by (simp add: check_records_def Let_def op_ok) blast
  define S where "S = map (\<lambda>(r, a, b). needs_proof v r a b) (zip records (zip ?A before))"
  from observe_record_inputs_ok [OF b] have va: "va = v" and la: "later (tick w) wa"
    and B: "list_all2 (endpoint_answer (tick w) wa (sn_root v)) ?I before" by simp_all
  from rest1 obtain proofs v1 w1 verdicts v3 w3 after v4 w4 v5 w5 w6 where
    e: "ensure_observable proofs v wa = (Inr (), v1, w1)"
    and p: "op_map (\<lambda>(r, a, s, b). provisional r a s b) (zip records (zip ?A (zip S before))) v1 w1
        = (Inr verdicts, v3, w3)"
    and af: "observe_record_inputs ?I v3 w3 = (Inr after, v4, w4)"
    and cl: "close_check_window ?R d v4 w4 = (Inr (), v5, w5)"
    and f: "op_map (finish_record t) (zip records (zip ?A (zip S (zip verdicts (zip before after))))) v5 w5
        = (Inr results, v2, w6)" and w2: "w2 = tick w6"
    by (auto simp: op_ok Let_def S_def va)
  from ensure_observable_basis [OF e] have e1: "same_basis v v1" by simp
  have le: "later wa w1" using advancesD [OF advances_ensure e] .
  from op_map_rel [OF _ _ p, of "\<lambda>s. s = v1" "\<lambda>(r, a, s, b) x. case a of Inl y \<Rightarrow> x = y
      | Inr q \<Rightarrow> v_status x = v_status (decide_record v1 r b (fst (confirmed v1 r s q)))"]
  have v3: "v3 = v1" and P: "list_all2 (\<lambda>(r, a, s, b) x. case a of Inl y \<Rightarrow> x = y
      | Inr q \<Rightarrow> v_status x = v_status (decide_record v1 r b (fst (confirmed v1 r s q))))
      (zip records (zip ?A (zip S before))) verdicts"
    using provisional_ok by (auto 0 3 split: prod.splits)
  have lp: "later w1 w3"
    by (rule advancesD [OF advances_map p]) (auto intro: advances_provisional split: prod.split)
  from observe_record_inputs_ok [OF af] v3 have v4: "v4 = v1" and laf: "later w3 w4"
    and AF: "list_all2 (endpoint_answer w3 w4 (sn_root v1)) ?I after" by simp_all
  from close_window_ok [OF cl] v4 have v5: "v5 = v1" and closing: "?R \<and> \<not> d \<longrightarrow> agreeing_pass v1 w4"
    by simp_all
  have lc: "later w4 w5" using advancesD [OF advances_close cl] .
  let ?F = "\<lambda>(r, a, s, x, b, af) res. rr_evaluated res = evaluated_record a
    \<and> rr_before res = b \<and> rr_after res = af
    \<and> v_status (rr_verdict res) = (if fp_runtime_inputs (rc_recorded r) = [] \<or> b = af
        then v_status x else Stale)
    \<and> rr_selected res = (s \<and> (\<exists>q. a = Inr q \<and> oa_current (fst (confirmed v1 r s q)))
        \<and> v_status (rr_verdict res) = Valid)"
  have "keeps_proofs v1 v2 \<and> list_all2 ?F (zip records (zip ?A (zip S (zip verdicts (zip before after))))) results"
  proof (rule op_map_rel [OF _ _ f])
    show "keeps_proofs v1 v5" by (simp add: v5 keeps_proofs_def)
    fix x s w y s2 w2
    assume inv: "keeps_proofs v1 s" and run: "finish_record t x s w = (Inr y, s2, w2)"
    obtain r a sel verdict b af' where x: "x = (r, a, sel, verdict, b, af')" by (cases x) auto
    from finish_record_ok [OF run [unfolded x]] inv confirmed_cong [OF inv]
    show "keeps_proofs v1 s2 \<and> ?F x y"
      by (auto simp: x keeps_proofs_def intro: same_basis_trans)
  qed
  then have k: "keeps_proofs v1 v2"
    and F: "list_all2 ?F (zip records (zip ?A (zip S (zip verdicts (zip before after))))) results"
    by simp_all
  have lf: "later w5 w6"
    by (rule advancesD [OF advances_map f]) (rule advances_finish)
  have lens: "length before = ?n" "length S = ?n" "length verdicts = ?n" "length after = ?n"
    "length results = ?n"
    using B P AF F by (auto simp: S_def dest!: list_all2_lengthD)
  have lw: "later w (tick w)" "later wa w3" "later w4 w2" "later w w2" "later w w4"
    using la le lp laf lc lf w2 later_tick later_trans by metis+
  have "stage_facts hs v v1 w w2 (records ! i) (results ! i)" if i: "i < ?n" for i
  proof -
    let ?r = "records ! i"
    from list_all2_nthD2 [OF F, of i] i lens
    have Fi: "?F (?r, admit_record hs v ?r, S ! i, verdicts ! i, before ! i, after ! i) (results ! i)" by simp
    moreover from list_all2_nthD2 [OF P, of i] i lens
    have "case admit_record hs v ?r of Inl y \<Rightarrow> verdicts ! i = y | Inr q \<Rightarrow> v_status (verdicts ! i)
      = v_status (decide_record v1 ?r (before ! i) (fst (confirmed v1 ?r (S ! i) q)))" by simp
    moreover from list_all2_nthD2 [OF B, of i] i lens have
      "endpoint_answer w wa (sn_root v) (rc_recorded ?r, evaluated_record (admit_record hs v ?r)) (before ! i)"
      using endpoint_answer_later [OF _ lw(1) later_refl] by simp
    moreover from list_all2_nthD2 [OF AF, of i] i lens same_basis_facts(8) [OF e1] have
      "endpoint_answer wa w4 (sn_root v) (rc_recorded ?r, evaluated_record (admit_record hs v ?r)) (after ! i)"
      using endpoint_answer_later [OF _ lw(2) later_refl] by simp
    moreover have "S ! i = needs_proof v ?r (admit_record hs v ?r) (before ! i)"
      using i lens(1) by (simp add: S_def)
    moreover have "later w wa" "later wa w4" "later w4 w2"
      using la lw laf later_trans by blast+
    ultimately show ?thesis
      unfolding stage_facts_def Let_def
      by - (cases "admit_record hs v ?r"; rule exI [of _ "verdicts ! i"]; rule exI [of _ wa];
        rule exI [of _ w4]; simp)
  qed
  with lens have "list_all2 (stage_facts hs v v1 w w2) records results"
    by (simp add: list_all2_conv_all_nth)
  moreover have "\<exists>w1. later w w1 \<and> agreeing_pass v w1"
    if "\<not> d" "\<exists>r\<in>set records. evaluated_record (admit_record hs v r) \<and> fp_runtime_inputs (rc_recorded r) \<noteq> []"
  proof -
    from that(2) have ?R by (force simp: zip_map2 set_zip in_set_conv_nth)
    with closing that(1) agreeing_pass_cong [OF same_basis_sym [OF e1]] lw(5) show ?thesis by blast
  qed
  ultimately show ?thesis using e1 k lw(4) by blast
qed

lemma stage_kernel_answer:
  assumes "stage_facts hs v v1 w w2 r res" "same_basis v v1" "keeps_proofs v1 v2"
  shows "kernel_answer hs v v2 w w2 r res"
proof (cases "admit_record hs v r")
  case (Inl y)
  with assms(1) show ?thesis
    by (auto simp: stage_facts_def kernel_answer_def evaluated_record_def endpoint_answer_def Let_def)
next
  case (Inr q)
  from assms(1) obtain x wa wb where s: "later w wa" "later wa wb" "later wb w2"
    "endpoint_answer w wa (sn_root v) (rc_recorded r, True) (rr_before res)"
    "endpoint_answer wa wb (sn_root v) (rc_recorded r, True) (rr_after res)"
    by (auto simp: stage_facts_def Let_def Inr evaluated_record_def)
  have e: "endpoint_state w wa (sn_root v) (fp_runtime_inputs (rc_recorded r)) (rr_before res)"
    "endpoint_state wa w2 (sn_root v) (fp_runtime_inputs (rc_recorded r)) (rr_after res)"
    "fp_runtime_inputs (rc_recorded r) = [] \<longrightarrow> rr_before res = no_rt_state \<and> rr_after res = no_rt_state"
    using s endpoint_later [OF later_refl _ s(3)] by (auto simp: endpoint_answer_def)
  have "later wa w2" using s later_trans by blast
  moreover have "confirmed v2 r b q = confirmed v1 r b q" for b
    using confirmed_cong [OF assms(3)] .
  ultimately show ?thesis
    using Inr e s(1) assms(1) same_basis_facts(4) [OF assms(2)]
    by (auto simp: stage_facts_def kernel_answer_def evaluated_record_def Let_def)
qed

lemma check_records_ok:
  assumes "check_records hs records d t v w = (Inr results, v2, w2)"
  shows "same_basis v v2 \<and> later w w2 \<and> list_all2 (kernel_answer hs v v2 w w2) records results
    \<and> (\<not> d \<and> (\<exists>r\<in>set records. evaluated_record (admit_record hs v r)
          \<and> fp_runtime_inputs (rc_recorded r) \<noteq> []) \<longrightarrow> (\<exists>w1. later w w1 \<and> agreeing_pass v w1))"
proof -
  from check_records_stages [OF assms] obtain v1 where
    k: "same_basis v v1" "keeps_proofs v1 v2" and l: "later w w2"
    and s: "list_all2 (stage_facts hs v v1 w w2) records results"
    and c: "\<not> d \<and> (\<exists>r\<in>set records. evaluated_record (admit_record hs v r)
          \<and> fp_runtime_inputs (rc_recorded r) \<noteq> []) \<longrightarrow> (\<exists>w1. later w w1 \<and> agreeing_pass v w1)"
    by blast
  have "list_all2 (kernel_answer hs v v2 w w2) records results"
    by (rule list_all2_mono [OF s]) (rule stage_kernel_answer [OF _ k])
  moreover have "same_basis v v2" using k by (auto simp: keeps_proofs_def intro: same_basis_trans)
  ultimately show ?thesis using l c by blast
qed

section \<open>What an answer rests on\<close>

text \<open>
  The demands a valid answer of an evaluated record meets: the recorded core, the runtime
  inputs at the first endpoint and every applicable guard agree, and no refusal stands that
  purity or an admitted observation does not discharge.
\<close>

definition valid_basis ::
    "(string \<Rightarrow> string \<Rightarrow> bool) \<Rightarrow> snapshot \<Rightarrow> record_check \<Rightarrow> rt_state \<Rightarrow> bool" where
  "valid_basis hs v r before \<longleftrightarrow>
     (let cl = closure_of (facts_of v) (rc_subject r); rec = rc_recorded r in
      core_agrees rec cl \<and> inputs_agree rec before \<and> guards_agree rec (snapshot_guards v) (sn_kind v)
      \<and> fp_toolchain_content rec \<noteq> [] \<and> c_toolchain_content cl \<noteq> [] \<and> \<not> c_external cl
      \<and> (purity_accepted (purity_matches v rec (rc_subject r))
         \<or> \<not> (fp_runtime_inputs rec \<noteq> [] \<and> rt_unverifiable before)
           \<and> (\<not> c_unverifiable cl
              \<or> rc_observed r \<and> fp_runtime_inputs rec \<noteq> [] \<and> c_refusal cl \<noteq> SharedDynamicStateRefusal
                \<and> observation_accepted (admitted_observation hs rec (rc_subject r) cl))))"

lemma confirmed_accepted:
  "observation_accepted (fst (confirmed v r sel p)) \<Longrightarrow> observation_accepted p \<or> sel"
  by (simp add: confirmed_def split: if_splits)

lemma admit_record_inr:
  assumes "admit_record hs v r = Inr p"
  shows "rc_refusal r = None" "core_agrees (rc_recorded r) (closure_of (facts_of v) (rc_subject r))"
    "p = (if rc_observed r then admitted_observation hs (rc_recorded r) (rc_subject r)
        (closure_of (facts_of v) (rc_subject r)) else no_observation)"
  using assms by (auto simp: admit_record_def Let_def simp flip: recorded_evidence_none split: option.splits)

lemma needs_proof_observed: "needs_proof v r (Inr p) b \<Longrightarrow> rc_observed r \<and> observation_accepted p"
  by (simp add: needs_proof_def Let_def)

lemma decide_record_status:
  "v_status (decide_record v r b pos) = Valid \<longleftrightarrow>
     (let cl = closure_of (facts_of v) (rc_subject r); rec = rc_recorded r in
      inputs_agree rec b \<and> guards_agree rec (snapshot_guards v) (sn_kind v)
      \<and> fp_toolchain_content rec \<noteq> [] \<and> c_toolchain_content cl \<noteq> [] \<and> \<not> c_external cl
      \<and> proof_admitted rec cl b (purity_matches v rec (rc_subject r))
          (if rc_observed r then pos else no_observation))"
  by (simp add: decide_record_def decide_after_closure_def decide_observed_valid Let_def)

lemma decide_record_valid:
  assumes "admit_record hs v r = Inr p"
    and "v_status (decide_record v r b (fst (confirmed v2 r (needs_proof v r (Inr p) b) p))) = Valid"
  shows "valid_basis hs v r b"
proof -
  let ?pos = "if rc_observed r then fst (confirmed v2 r (needs_proof v r (Inr p) b) p) else no_observation"
  have acc: "rc_observed r \<and> observation_accepted p" if "observation_accepted ?pos"
    using that confirmed_accepted [of v2 r "needs_proof v r (Inr p) b" p] needs_proof_observed [of v r p b]
    by (auto simp: observation_accepted_def split: if_splits)
  have p: "rc_observed r \<Longrightarrow> p = admitted_observation hs (rc_recorded r) (rc_subject r)
      (closure_of (facts_of v) (rc_subject r))"
    using admit_record_inr(3) [OF assms(1)] by simp
  note assms(2) [unfolded decide_record_status Let_def proof_admitted_def]
  with acc p admit_record_inr(2) [OF assms(1)] show ?thesis
    unfolding valid_basis_def Let_def by metis
qed

text \<open>An endpoint state that agrees with a record was read from the world.\<close>

lemma agreeing_state_evaluated:
  assumes "inputs_agree rec st" "fp_runtime_inputs rec \<noteq> []"
    "endpoint_state w w2 root (fp_runtime_inputs rec) st"
  shows "evaluated w w2 root (fp_runtime_inputs rec) st"
  using assms by (auto simp: endpoint_state_def inputs_agree_def no_rt_state_def)

text \<open>
  C4: Every answer of the checking kernel comes in the order of its records, and a valid
  answer of an evaluated record rests on the whole basis: core, guards, discharge of every
  refusal, and runtime inputs that were read twice within the run, agree with the record and
  did not move in between. An inert record whose validity rests on an observation has a
  current proof by the method it was recorded with.
\<close>

theorem kernel_valid_answer_sound:
  assumes "check_records hs records d t v w = (Inr results, v2, w2)"
    and "i < length records" "rr_evaluated (results ! i)" "v_status (rr_verdict (results ! i)) = Valid"
  shows "length results = length records
    \<and> valid_basis hs v (records ! i) (rr_before (results ! i))
    \<and> (fp_runtime_inputs (rc_recorded (records ! i)) \<noteq> [] \<longrightarrow>
        (\<exists>t1 t2. w_clock w \<le> t1 \<and> t1 < t2
          \<and> w_current w t1 (fp_runtime_inputs (rc_recorded (records ! i))) (sn_root v)
              = Inr (rr_before (results ! i))
          \<and> w_current w t2 (fp_runtime_inputs (rc_recorded (records ! i))) (sn_root v)
              = Inr (rr_before (results ! i))))
    \<and> (rr_selected (results ! i) \<longrightarrow> current_applicability_observable v2 (rc_subject (records ! i))
          (oa_method (admitted_observation hs (rc_recorded (records ! i)) (rc_subject (records ! i))
            (closure_of (facts_of v) (rc_subject (records ! i))))))"
proof -
  let ?r = "records ! i" and ?b = "rr_before (results ! i)"
  let ?m = "fp_runtime_inputs (rc_recorded ?r)"
  from check_records_ok [OF assms(1)] have
    all: "list_all2 (kernel_answer hs v v2 w w2) records results" and l: "later w w2" by simp_all
  from list_all2_nthD [OF all assms(2)] have k: "kernel_answer hs v v2 w w2 ?r (results ! i)" .
  with assms(3) obtain p where p: "admit_record hs v ?r = Inr p"
    by (auto simp: kernel_answer_def split: sum.splits)
  let ?pos = "fst (confirmed v2 ?r (needs_proof v ?r (Inr p) ?b) p)"
  from k p assms(4) have same: "?m = [] \<or> ?b = rr_after (results ! i)"
    and dec: "v_status (decide_record v ?r ?b ?pos) = Valid"
    and sel: "rr_selected (results ! i) \<Longrightarrow> needs_proof v ?r (Inr p) ?b \<and> oa_current ?pos"
    by (auto simp: kernel_answer_def Let_def split: if_splits)
  from decide_record_valid [OF p dec] have basis: "valid_basis hs v ?r ?b" .
  have reads: "\<exists>t1 t2. w_clock w \<le> t1 \<and> t1 < t2 \<and> w_current w t1 ?m (sn_root v) = Inr ?b
      \<and> w_current w t2 ?m (sn_root v) = Inr ?b" if m: "?m \<noteq> []"
  proof -
    from k p m same obtain w1 where w1: "later w w1" "later w1 w2"
      "endpoint_state w w1 (sn_root v) ?m ?b" "endpoint_state w1 w2 (sn_root v) ?m ?b"
      by (auto simp: kernel_answer_def Let_def)
    from basis have "inputs_agree (rc_recorded ?r) ?b" by (simp add: valid_basis_def Let_def)
    with agreeing_state_evaluated m w1 have
      "evaluated w w1 (sn_root v) ?m ?b" "evaluated w1 w2 (sn_root v) ?m ?b" by blast+
    then show ?thesis unfolding evaluated_def later_oracles(4) [OF w1(1)] by (meson less_le_trans)
  qed
  have "current_applicability_observable v2 (rc_subject ?r) (oa_method p)" if "rr_selected (results ! i)"
    using sel [OF that] by (auto simp: confirmed_def confirm_positive_def no_observation_def split: if_splits)
  moreover have "p = admitted_observation hs (rc_recorded ?r) (rc_subject ?r) (closure_of (facts_of v) (rc_subject ?r))"
    if "rr_selected (results ! i)"
    using needs_proof_observed sel [OF that] admit_record_inr(3) [OF p] by auto
  ultimately show ?thesis
    using list_all2_lengthD [OF all] basis reads by auto
qed

definition observed_record :: fingerprint where
  "observed_record = example_record\<lparr>fp_test_variants := ''v'', fp_runtime_inputs := ''m'',
     fp_runtime_digest := ''d''\<rparr>"

definition example_check :: record_check where
  "example_check = \<lparr>rc_candidate = \<lparr>cd_subject = example_subject, cd_recorded = observed_record\<rparr>,
     rc_observed = True, rc_refusal = None\<rparr>"

definition world_at :: "nat \<Rightarrow> world" where
  "world_at n = example_world\<lparr>w_clock := n\<rparr>"

definition example_state :: "string \<Rightarrow> rt_state" where
  "example_state m = \<lparr>rt_manifest = m, rt_digest = ''d'', rt_bracket_moved = False,
     rt_unverifiable = False, rt_reason = [], rt_ok = True\<rparr>"

lemma world_at_ops:
  "ctx_check v (world_at n) = (Inr (), v, world_at (Suc n))"
  "runtime_check m v (world_at n) = (Inr (example_state m), v, world_at (Suc n))"
  "example_world = world_at 0"
  by (simp_all add: world_at_def example_world_def ctx_check_def runtime_check_def op_eval example_state_def)

lemma example_check_admitted:
  "admit_record hs example_view example_check = Inr no_observation"
  "needs_proof example_view example_check a b = False"
  by (auto simp: example_check_def admit_record_def admitted_observation_def compatible_proof_mode_def needs_proof_def observed_record_def example_record_def
      no_fingerprint_def recorded_evidence_verdict_def recognized_applicability_def compartment_stale_def
      effective_test_variants_def closure_of_def facts_of_def example_view_def example_facts_def
      DynamicStateStrategy_def Let_def split: sum.split)

lemma example_check_decided:
  "v_status (decide_record example_view example_check (example_state ''m'') a) = Valid"
  using example_guards_agree
  by (simp add: decide_record_status Let_def example_check_def observed_record_def guards_agree_def
      snapshot_guards_def facts_of_def example_view_def example_facts_def inputs_agree_def
      example_state_def closure_of_def proof_admitted_def facts_closure_def maximal_closure_def
      no_maximal_facts_def example_record_def no_subject_facts_def)

lemma example_check_fields:
  "rc_recorded example_check = observed_record" "rc_subject example_check = example_subject"
  by (simp_all add: example_check_def)

lemma example_check_answers:
  "provisional example_check (Inr no_observation) False (example_state ''m'') example_view w
     = (Inr (decide_record example_view example_check (example_state ''m'') no_observation), example_view, w)"
  "v_status d = Valid \<Longrightarrow>
     finish_record True (example_check, Inr no_observation, False, d, st, st) example_view w
     = (Inr \<lparr>rr_verdict = judgment_for example_view example_subject d, rr_evaluated = True, rr_before = st,
          rr_after = st, rr_selected = False, rr_unavailable = None\<rparr>, example_view, w)"
  by (simp_all add: provisional_def with_moved_inputs_def confirmed_def example_check_decided
      finish_record_def runtime_motion_def op_eval evaluated_record_def example_check_fields)

theorem kernel_valid_answer_sound_witness:
  "\<exists>results v2 w2. check_records (\<lambda>_ _. False) [example_check] True True example_view example_world
      = (Inr results, v2, w2)
     \<and> valid_basis (\<lambda>_ _. False) example_view example_check (rr_before (results ! 0))"
proof -
  have "observe_record_inputs [(observed_record, True)] v (world_at n)
      = (Inr [example_state ''m''], v, world_at (Suc (Suc (Suc (Suc (Suc n))))))" for v n
    by (simp add: observe_record_inputs_def current_runtime_def world_at_ops op_then_def op_bind_def
      op_try_def op_return_def observed_record_def)
  then obtain results v2 w2 where
    "check_records (\<lambda>_ _. False) [example_check] True True example_view example_world = (Inr results, v2, w2)"
    and "rr_evaluated (results ! 0)" "v_status (rr_verdict (results ! 0)) = Valid"
    by (simp add: check_records_def world_at_ops op_then_def op_bind_def op_get_def op_return_def
      example_check_admitted evaluated_record_def close_check_window_def Let_def first_seen_def
      ensure_observable_def example_check_answers example_check_decided example_check_fields)
  with kernel_valid_answer_sound [OF this(1), of 0] show ?thesis
    by auto
qed

end
