(* ===== verification/Applicability.thy ===== *)
theory Applicability
  imports Checking
begin

text \<open>
  checking.go's inert test-variant extension and the applicability checks a view retains,
  and view.go's \<open>Validate\<close>, which closes everything a view owes: captured proofs, retained
  checks, identity-only attachments, or the base comparison where nothing was captured. The
  lemmas show what a prepared extension may change, and that a validation succeeds only after
  every obligation has been re-established.
\<close>

section \<open>The inert extension\<close>

datatype prepared = Rejected verdict | Prepared fingerprint tv_ledger

text \<open>prepareInertExtension; \<open>G\<close> is the Go parser's answer about receivers and exported names.\<close>

definition prepare_inert_extension ::
    "go_syntax \<Rightarrow> snapshot \<Rightarrow> fingerprint \<Rightarrow> tv_ledger \<Rightarrow> subject \<Rightarrow> view_error + prepared" where
  "prepare_inert_extension G v recorded prior s =
     (let cl = closure_of (facts_of v) s in
      if \<not> recognized_applicability recorded \<or> effective_test_variants recorded = []
      then Inr (Rejected (refusal Stale TestVariantsCause
        (if \<not> recognized_applicability recorded then Unsupported else Missing) ReasonTestVariants))
      else if fp_closure_strategy recorded \<noteq> ClosureStrategy
      then Inr (Rejected (closure_strategy_verdict recorded))
      else (let candidate = recorded\<lparr>fp_applicability :=
            \<lparr>ap_strategy = InertTestVariantExtension, ap_closure = c_test_variants cl\<rparr>\<rparr> in
        case recorded_evidence_verdict candidate cl of Some x \<Rightarrow> Inr (Rejected x)
        | None \<Rightarrow> (let m = compare_facts (fp_guards recorded) (snapshot_guards v) (sn_kind v) in
            if m_axis m \<noteq> NoAxis then Inr (Rejected (guard_verdict m))
            else (case test_variant_ledger v s of Inl e \<Rightarrow> Inl e
              | Inr ledger \<Rightarrow>
                 if \<not> inert_for_subject G prior ledger (s_symbol s)
                 then Inr (Rejected (refusal Stale TestVariantsCause Refused ReasonTestVariants))
                 else Inr (Prepared candidate ledger)))))"

text \<open>checkInertTestVariantExtension: a verdict, with the extended record and ledger when valid.\<close>

definition check_inert_extension ::
    "(string \<Rightarrow> string \<Rightarrow> bool) \<Rightarrow> go_syntax \<Rightarrow> fingerprint \<Rightarrow> tv_ledger \<Rightarrow> subject \<Rightarrow> bool
      \<Rightarrow> (verdict \<times> (fingerprint \<times> tv_ledger) option) vop" where
  "check_inert_extension hs G recorded prior s observed = op_bind op_get (\<lambda>v.
     if sn_facts v = None \<or> sn_engine v = None then op_fail uninitialized
     else op_then ctx_check
       (case prepare_candidates v [\<lparr>cd_subject = s, cd_recorded = recorded\<rparr>] of
          Some e \<Rightarrow> op_fail e
        | None \<Rightarrow> op_bind (op_lift (prepare_inert_extension G v recorded prior s)) (\<lambda>p.
            case p of
              Rejected x \<Rightarrow> op_return (judgment_for v s x, None)
            | Prepared candidate ledger \<Rightarrow>
               op_bind (check_batch hs observed [(s, candidate)]) (\<lambda>verdicts.
               op_bind op_get (\<lambda>v'.
                 (case verdicts s of None \<Rightarrow> op_fail uninitialized
                  | Some verdict \<Rightarrow>
                     if v_status verdict \<noteq> Valid then op_return (judgment_for v' s verdict, None)
                     else op_then (retain_applicability_check candidate s observed)
                       (op_return (verdict, Some (candidate, ledger)))))))))"

section \<open>Retained applicability checks\<close>

definition applicability_records :: "applicability_check list \<Rightarrow> record_check list" where
  "applicability_records checks = map (\<lambda>c. \<lparr>rc_candidate = \<lparr>cd_subject = ac_subject c,
     cd_recorded = ac_recorded c\<rparr>, rc_observed = ac_observed c, rc_refusal = None\<rparr>) checks"

text \<open>Every re-checked record must be valid again; an unavailable one is held.\<close>

fun settle_checks ::
    "(applicability_check \<times> record_result) list \<Rightarrow> view_error option \<Rightarrow> view_error + view_error option" where
  "settle_checks [] held = Inr held"
| "settle_checks ((c, r) # rest) held =
     (if v_status (rr_verdict r) = Valid then settle_checks rest held
      else if v_status (rr_verdict r) = Unverifiable \<and> rr_unavailable r \<noteq> None
      then settle_checks rest (hold_first held (the (rr_unavailable r)))
      else Inl (ViewChanged (''applicability for '' @ subject_text (ac_subject c) @ '': ''
        @ v_reason (rr_verdict r))))"

definition validate_applicability_batches ::
    "(string \<Rightarrow> string \<Rightarrow> bool) \<Rightarrow> snapshot \<Rightarrow> applicability_check list \<Rightarrow> unit vop" where
  "validate_applicability_batches hs current checks =
     op_bind (op_run (check_records hs (applicability_records checks) True False) current)
       (\<lambda>(r, current').
     op_bind (op_lift (defer_unavailability (error_of r) None)) (\<lambda>held.
     op_bind (op_lift (settle_checks (zip checks (case r of Inl _ \<Rightarrow> [] | Inr rs \<Rightarrow> rs)) held)) (\<lambda>held'.
       close_reobservation current' held')))"

definition validate_applicability_checks :: "(string \<Rightarrow> string \<Rightarrow> bool) \<Rightarrow> unit vop" where
  "validate_applicability_checks hs = op_bind op_get (\<lambda>v.
     if sn_checks v = [] then op_return ()
     else op_bind new_seeded_validation_view (\<lambda>current.
       validate_applicability_batches hs current (sn_checks v)))"

section \<open>Validation\<close>

text \<open>The subjects with an attached state and no captured proof.\<close>

definition identity_subjects :: "snapshot \<Rightarrow> subject list" where
  "identity_subjects v = filter (\<lambda>s. sn_attached v s \<noteq> None \<and> s \<notin> sn_captured v) (sn_subjects v)"

text \<open>The deferred closing of identity-only attachments: a concrete move outranks a cut.\<close>

definition closing_identities :: "snapshot \<Rightarrow> unit vop \<Rightarrow> unit vop" where
  "closing_identities v body = op_bind (op_try body) (\<lambda>r.
     if identity_subjects v \<noteq> [] \<and> (case r of Inr _ \<Rightarrow> True | Inl e \<Rightarrow> analysis_unavailable_error e)
     then op_then (compare_attached (sn_attached v) (identity_subjects v)) (op_lift r)
     else op_lift r)"

definition owed_comparisons :: "(string \<Rightarrow> string \<Rightarrow> bool) \<Rightarrow> bool \<Rightarrow> bool \<Rightarrow> unit vop" where
  "owed_comparisons hs has_observed has_applicability =
     (if has_observed \<or> has_applicability then
        op_bind (if has_observed then op_try validate_observed else op_return (Inr ())) (\<lambda>r1.
        op_bind (op_lift (defer_unavailability (error_of r1) None)) (\<lambda>held1.
        op_bind (if has_applicability then op_try (validate_applicability_checks hs)
                 else op_return (Inr ())) (\<lambda>r2.
        op_bind (op_lift (defer_unavailability (error_of r2) held1)) (\<lambda>held2.
        op_then ctx_check (report_held held2)))))
      else op_bind observe_view (\<lambda>observation.
        op_then (compare_observation_context observation) ctx_check))"

definition validate :: "(string \<Rightarrow> string \<Rightarrow> bool) \<Rightarrow> unit vop" where
  "validate hs = op_bind op_get (\<lambda>v.
     if sn_facts v = None \<or> sn_engine v = None then op_fail uninitialized
     else op_then seal (op_then ctx_check (closing_identities v
       (owed_comparisons hs (sn_captured v \<noteq> {}) (sn_checks v \<noteq> [])))))"

section \<open>What a prepared extension changes\<close>

lemma prepared_ok:
  assumes "prepare_inert_extension G v recorded prior s = Inr (Prepared candidate ledger)"
  shows "candidate = recorded\<lparr>fp_applicability := \<lparr>ap_strategy = InertTestVariantExtension,
      ap_closure = c_test_variants (closure_of (facts_of v) s)\<rparr>\<rparr>
    \<and> test_variant_ledger v s = Inr ledger \<and> inert_for_subject G prior ledger (s_symbol s)
    \<and> recognized_applicability recorded \<and> effective_test_variants recorded \<noteq> []
    \<and> fp_closure_strategy recorded = ClosureStrategy
    \<and> core_agrees candidate (closure_of (facts_of v) s)
    \<and> guards_agree recorded (snapshot_guards v) (sn_kind v)"
  using assms
  by (auto simp: prepare_inert_extension_def Let_def guards_agree_def simp flip: recorded_evidence_none
      split: if_split_asm option.splits sum.splits)

text \<open>
  Preparing an inert extension licenses exactly one substitution. A prepared record is
  the recorded one with its effective compartment replaced by the view's, and nothing else:
  its core, its derivations and every guard the kind selects already agree with the view, the
  recorded closure strategy is the current one, and the ledger delta is inert for the
  subject. A prepared record can then be stale only by its runtime inputs.
\<close>

theorem inert_extension_substitutes_compartment:
  assumes "prepare_inert_extension G v recorded prior s = Inr (Prepared candidate ledger)"
  shows "candidate\<lparr>fp_applicability := fp_applicability recorded\<rparr> = recorded
    \<and> effective_test_variants candidate = c_test_variants (closure_of (facts_of v) s)
    \<and> fp_test_variants candidate = fp_test_variants recorded
    \<and> test_variant_ledger v s = Inr ledger \<and> inert_for_subject G prior ledger (s_symbol s)
    \<and> (v_status (decide candidate (closure_of (facts_of v) s) (snapshot_guards v) rt (sn_kind v) pure) = Stale
        \<longleftrightarrow> \<not> inputs_agree candidate rt)"
proof -
  note p = prepared_ok [OF assms]
  have "effective_test_variants candidate = c_test_variants (closure_of (facts_of v) s)"
    using p by (simp add: effective_test_variants_def no_applicability_def InertTestVariantExtension_def)
  moreover have "guards_agree candidate (snapshot_guards v) (sn_kind v)"
    using p by (simp add: guards_agree_def)
  ultimately show ?thesis
    using p by (auto simp: decide_def decide_after_closure_def decide_observed_stale
        simp flip: recorded_evidence_none)
qed

section \<open>What a successful validation has closed\<close>

lemma settle_checks_none:
  "settle_checks crs held = Inr None \<longleftrightarrow>
     held = None \<and> (\<forall>(c, r)\<in>set crs. v_status (rr_verdict r) = Valid)"
  by (induction crs held rule: settle_checks.induct)
    (auto simp: hold_first_def split: option.splits)

definition rechecked :: "(string \<Rightarrow> string \<Rightarrow> bool) \<Rightarrow> snapshot \<Rightarrow> world \<Rightarrow> bool" where
  "rechecked hs v w \<longleftrightarrow> (\<exists>results current w1 w2. later w w1 \<and> later w1 w2
     \<and> check_records hs (applicability_records (sn_checks v)) True False (seeded_view v) w1
        = (Inr results, current, w2)
     \<and> length results = length (sn_checks v)
     \<and> (\<forall>r\<in>set results. v_status (rr_verdict r) = Valid)
     \<and> (\<exists>w3. later w2 w3 \<and> agreeing_pass v w3))"

lemma advances_check_records: "advances (check_records hs records d t)"
  unfolding check_records_def observe_record_inputs_def Let_def
  by (intro advances_rules advances_observe_inputs advances_ensure advances_close)
    (auto intro: advances_provisional advances_finish split: prod.split)

lemma close_reobservation_ok:
  assumes "close_reobservation current held v w = (Inr (), v2, w2)"
  shows "v2 = v \<and> held = None \<and> sn_cut_unavailable v = None \<and> sn_cut_unavailable current = None
    \<and> agreeing_pass current w"
proof -
  from assms obtain r current' w1 held' where
    run: "reobserve_base current w = (r, current', w1)"
    and d: "defer_unavailability (error_of r) held = Inr held'"
    and s: "resolve_unavailable current' held' v w1 = (Inr (), v2, w2)"
    by (auto simp: close_reobservation_def op_ok)
  from resolve_ok [OF s] d have h: "held = None" "r = Inr ()" and v: "v2 = v" "sn_cut_unavailable v = None"
      "sn_cut_unavailable current' = None"
    by (auto simp: defer_none error_of_def split: sum.splits)
  from reobserve_base_ok [of current w current' w1] run h
  have "current' = current \<and> agreeing_pass current w" by (auto simp: agreeing_pass_def)
  with h v show ?thesis by simp
qed

lemma same_basis_seeded: "same_basis (seeded_view v) v"
  by (simp add: same_basis_def seeded_view_def)

lemma validate_checks_ok:
  assumes "validate_applicability_checks hs v w = (Inr (), v2, w2)" "sn_checks v \<noteq> []"
  shows "v2 = v \<and> sn_cut_unavailable v = None \<and> rechecked hs v w"
proof -
  let ?R = "applicability_records (sn_checks v)"
  from assms obtain current v1 w1 where
    n: "new_seeded_validation_view v w = (Inr current, v1, w1)"
    and b: "validate_applicability_batches hs current (sn_checks v) v1 w1 = (Inr (), v2, w2)"
    by (auto simp: validate_applicability_checks_def op_ok)
  from b obtain r current' w3 held held' where
    run: "check_records hs ?R True False current w1 = (r, current', w3)"
    and d: "defer_unavailability (error_of r) None = Inr held"
    and s: "settle_checks (zip (sn_checks v) (case r of Inl _ \<Rightarrow> [] | Inr rs \<Rightarrow> rs)) held = Inr held'"
    and c: "close_reobservation current' held' v1 w3 = (Inr (), v2, w2)"
    by (auto simp: validate_applicability_batches_def op_ok)
  note close = close_reobservation_ok [OF c]
  note seeded = seeded_validation_ok [OF n]
  from close have cut: "sn_cut_unavailable v1 = None" by simp
  with seeded have v1: "v1 = v" "current = seeded_view v" by auto
  from close s d obtain results where r: "r = Inr results"
    and ok: "\<forall>(c, r)\<in>set (zip (sn_checks v) results). v_status (rr_verdict r) = Valid"
    by (auto simp: settle_checks_none defer_none error_of_def split: sum.splits)
  note k = check_records_ok [OF run [unfolded r v1(2)]]
  have len: "length results = length (sn_checks v)"
    using k by (auto simp: applicability_records_def dest: list_all2_lengthD)
  have valid: "\<forall>r\<in>set results. v_status (rr_verdict r) = Valid"
  proof
    fix x assume "x \<in> set results"
    with len obtain c where "(c, x) \<in> set (zip (sn_checks v) results)"
      by (metis in_set_impl_in_set_zip2)
    with ok show "v_status (rr_verdict x) = Valid" by blast
  qed
  have "agreeing_pass v w3"
  proof -
    from k have "same_basis (seeded_view v) current'" by blast
    then have "same_basis current' v"
      using same_basis_sym same_basis_trans same_basis_seeded by blast
    then show ?thesis using agreeing_pass_cong close by blast
  qed
  moreover have "later w w1" using advancesD [OF advances_seeded n] .
  moreover have "later w1 w3" using k by simp
  ultimately have "rechecked hs v w"
    unfolding rechecked_def using run r v1 len valid later_refl by blast
  with close v1 cut show ?thesis by simp
qed

lemma advances_validate_observed: "advances validate_observed"
  unfolding validate_observed_def seal_def Let_def resolve_unavailable_def report_held_def
  by (intro advances_rules advances_seeded advances_compare_attached advances_ensure)

lemma advances_validate_checks: "advances (validate_applicability_checks hs)"
  unfolding validate_applicability_checks_def validate_applicability_batches_def
    close_reobservation_def resolve_unavailable_def report_held_def
  by (intro advances_rules advances_seeded advances_check_records advances_reobserve)

lemma advances_owed: "advances (owed_comparisons hs a b)"
  unfolding owed_comparisons_def report_held_def
  by (intro advances_rules advances_validate_observed advances_validate_checks advances_observe
      advances_context)

lemma owed_comparisons_ok:
  assumes "owed_comparisons hs (sn_captured v \<noteq> {}) (sn_checks v \<noteq> [])
      (v\<lparr>sn_sealed := True\<rparr>) (tick w) = (Inr (), v1, w1)"
  shows "v1 = v\<lparr>sn_sealed := True\<rparr>
    \<and> (sn_captured v \<noteq> {} \<longrightarrow> captured_subjects v \<noteq> [] \<and> (\<exists>w1. later w w1
        \<and> (\<forall>s\<in>set (captured_subjects v). reestablished (v\<lparr>sn_sealed := True\<rparr>) w1 s)))
    \<and> (sn_checks v \<noteq> [] \<longrightarrow> (\<exists>w1. later w w1 \<and> rechecked hs (v\<lparr>sn_sealed := True\<rparr>) w1))
    \<and> (sn_captured v = {} \<and> sn_checks v = [] \<longrightarrow>
        (\<exists>w1. later w w1 \<and> agreeing_pass (v\<lparr>sn_sealed := True\<rparr>) w1))
    \<and> later (tick w) w1"
proof -
  let ?vs = "v\<lparr>sn_sealed := True\<rparr>" and ?o = "sn_captured v \<noteq> {}" and ?a = "sn_checks v \<noteq> []"
  have adv: "later (tick w) w1"
    using advancesD [OF advances_owed assms] .
  have S: "captured_subjects ?vs = captured_subjects v" by (simp add: captured_subjects_def)
  have lt: "later w (tick w)" by simp
  show ?thesis
  proof (cases "?o \<or> ?a")
    case False
    with assms obtain observation u wa where
      "observe_view ?vs (tick w) = (Inr observation, u, wa)"
      "compare_observation_context observation u wa = (Inr (), v1, tick wa) \<or> True"
      and "\<exists>wb. compare_observation_context observation u wa = (Inr (), v1, wb)"
      by (auto simp: owed_comparisons_def op_ok)
    moreover from this(1) have "u = ?vs" using reads_onlyD [OF reads_only_observe] by blast
    ultimately have "v1 = ?vs \<and> agreeing_pass ?vs (tick w)"
      using compare_context_ok by (fastforce simp: agreeing_pass_def)
    with False adv lt show ?thesis by blast
  next
    case True
    with assms obtain r1 va wa r2 wb h1 where
      o': "(if ?o then op_try validate_observed else op_return (Inr ())) ?vs (tick w) = (Inr r1, va, wa)"
      and d1: "defer_unavailability (error_of r1) None = Inr h1"
      and a': "(if ?a then op_try (validate_applicability_checks hs) else op_return (Inr ())) va wa = (Inr r2, v1, wb)"
      and d2: "defer_unavailability (error_of r2) h1 = Inr None"
      by (simp only: owed_comparisons_def if_True op_bind_ok op_then_ok op_lift_ok ctx_check_ok report_held_ok)
        blast
    from o' have o: "if ?o then validate_observed ?vs (tick w) = (r1, va, wa)
        else r1 = Inr () \<and> va = ?vs \<and> wa = tick w"
      by (simp add: op_try_ok op_return_ok split: if_split_asm)
    from a' have a: "if ?a then validate_applicability_checks hs va wa = (r2, v1, wb)
        else r2 = Inr () \<and> v1 = va \<and> wb = wa"
      by (simp add: op_try_ok op_return_ok split: if_split_asm)
    from d1 d2 have ok: "r1 = Inr ()" "r2 = Inr ()"
      by (auto simp: defer_none error_of_def split: sum.splits)
    have "?o \<Longrightarrow> later (tick w) wa"
      using o advancesD [OF advances_validate_observed] by (auto split: if_split_asm)
    then have lwa: "later w wa" using o later_trans [OF lt, of wa] by (cases ?o) auto
    have obs: "va = ?vs" "?o \<Longrightarrow> captured_subjects v \<noteq> []
        \<and> (\<forall>s\<in>set (captured_subjects v). reestablished ?vs (tick w) s)"
      using o ok observed_validation_ok [of ?vs "tick w" va wa] S by (auto split: if_split_asm)
    have "v1 = ?vs \<and> (?a \<longrightarrow> rechecked hs ?vs wa)"
      using a ok obs(1) validate_checks_ok [of hs ?vs wa v1 wb] by (auto split: if_split_asm)
    with True obs lwa adv lt show ?thesis by blast
  qed
qed

text \<open>
  C7: Validate succeeds only if everything the view owes is closed: every captured proof is
  re-established, every retained applicability check is valid again under a fresh pass that
  agrees with the view, every identity-only attachment evaluates to itself, and a view that
  owes none of the first two still agrees with one fresh pass. No held unavailability is
  left, and the view ends sealed and otherwise unchanged.
\<close>

theorem validation_closes_every_obligation:
  assumes "validate hs v w = (Inr (), v2, w2)"
  shows "v2 = v\<lparr>sn_sealed := True\<rparr>
    \<and> (captured_subjects v \<noteq> [] \<longrightarrow> (\<exists>w1. later w w1
        \<and> (\<forall>s\<in>set (captured_subjects v). reestablished (v\<lparr>sn_sealed := True\<rparr>) w1 s)))
    \<and> (sn_checks v \<noteq> [] \<longrightarrow> (\<exists>w1. later w w1 \<and> rechecked hs (v\<lparr>sn_sealed := True\<rparr>) w1))
    \<and> (sn_captured v = {} \<and> sn_checks v = [] \<longrightarrow>
        (\<exists>w1. later w w1 \<and> agreeing_pass (v\<lparr>sn_sealed := True\<rparr>) w1))
    \<and> (\<forall>s\<in>set (identity_subjects v). completed_state (map_get no_rt_state (sn_attached v) s)
        \<and> evaluated w w2 (sn_root v) (rt_manifest (map_get no_rt_state (sn_attached v) s))
            (map_get no_rt_state (sn_attached v) s))"
proof -
  let ?vs = "v\<lparr>sn_sealed := True\<rparr>" and ?o = "sn_captured v \<noteq> {}" and ?a = "sn_checks v \<noteq> []"
  from assms obtain r v1 w1 where
    body: "owed_comparisons hs ?o ?a ?vs (tick w) = (r, v1, w1)" and
    cl: "(if identity_subjects v \<noteq> [] \<and> (case r of Inr _ \<Rightarrow> True | Inl e \<Rightarrow> analysis_unavailable_error e)
     then op_then (compare_attached (sn_attached v) (identity_subjects v)) (op_lift r)
     else op_lift r) v1 w1 = (Inr (), v2, w2)"
    by (auto simp: validate_def seal_def op_ok closing_identities_def split: if_split_asm)
  then have r: "r = Inr ()" by (auto simp: op_ok split: if_split_asm)
  have owed: "v1 = ?vs \<and> (?o \<longrightarrow> captured_subjects v \<noteq> [] \<and> (\<exists>w1. later w w1
        \<and> (\<forall>s\<in>set (captured_subjects v). reestablished ?vs w1 s)))
    \<and> (?a \<longrightarrow> (\<exists>w1. later w w1 \<and> rechecked hs ?vs w1))
    \<and> (\<not> ?o \<and> \<not> ?a \<longrightarrow> (\<exists>w1. later w w1 \<and> agreeing_pass ?vs w1)) \<and> later (tick w) w1"
    using owed_comparisons_ok [OF body [unfolded r]] by simp
  have lw: "later w w1" using owed later_tick later_trans by blast
  have "v2 = v1 \<and> (\<forall>s\<in>set (identity_subjects v). completed_state (map_get no_rt_state (sn_attached v) s)
      \<and> evaluated w1 w2 (sn_root v1) (rt_manifest (map_get no_rt_state (sn_attached v) s))
          (map_get no_rt_state (sn_attached v) s))"
    using cl r compare_attached_ok by (fastforce simp: op_ok split: if_split_asm)
  moreover have "sn_root v1 = sn_root v" using owed by simp
  moreover have "sn_captured v = {} \<Longrightarrow> captured_subjects v = []" by (simp add: captured_subjects_def)
  ultimately show ?thesis
    using owed evaluated_later [OF lw _ later_refl] by auto
qed

definition identity_view :: snapshot where
  "identity_view = producing_view\<lparr>sn_captured := {}\<rparr>"

theorem validation_closes_every_obligation_witness:
  "\<exists>v2 w2. validate (\<lambda>_ _. False) identity_view example_world = (Inr (), v2, w2)
     \<and> identity_subjects identity_view = [example_subject] \<and> sn_sealed v2
     \<and> completed_state (map_get no_rt_state (sn_attached identity_view) example_subject)"
proof -
  have i: "identity_subjects identity_view = [example_subject]"
    by (simp add: identity_subjects_def identity_view_def producing_view_def example_view_def)
  have "fst (validate (\<lambda>_ _. False) identity_view example_world) = Inr ()"
    by (simp add: validate_def closing_identities_def identity_subjects_def owed_comparisons_def seal_def
      compare_attached_def require_completed_def completed_state_def runtime_check_def observe_view_def
      compare_observation_context_def compare_observations_def compare_subject_def facts_equal_full
      snapshot_guards_def facts_of_def identity_view_def producing_view_def example_view_def
      example_world_def example_facts_def example_subject_def no_facts_def op_eval Let_def)
  then obtain v2 w2 where v: "validate (\<lambda>_ _. False) identity_view example_world = (Inr (), v2, w2)"
    by (cases "validate (\<lambda>_ _. False) identity_view example_world") auto
  from validation_closes_every_obligation [OF v] i v show ?thesis by auto
qed

definition extended_record :: fingerprint where
  "extended_record = example_record\<lparr>fp_test_variants := ''old''\<rparr>"

definition ledger_view :: snapshot where
  "ledger_view = example_view\<lparr>sn_facts := Some (example_facts\<lparr>of_ledgers := [''p'' \<mapsto> ledger_b]\<rparr>)\<rparr>"

theorem inert_extension_substitutes_compartment_witness:
  "\<exists>candidate ledger. prepare_inert_extension example_syntax ledger_view extended_record ledger_a
      example_subject = Inr (Prepared candidate ledger)
     \<and> effective_test_variants candidate = ''v''"
proof -
  have g: "m_axis (compare_facts example_guards example_guards CodeResult) = NoAxis"
    using example_guards_agree by (simp add: guards_agree_def example_record_def)
  have i: "inert_for_subject example_syntax ledger_a (clone_ledger ledger_b) ''TestA''"
    by code_simp
  have m: "require_members ledger_view [example_subject] = None"
    by (simp add: require_members_ok facts_of_def ledger_view_def example_facts_def)
  have l: "test_variant_ledger ledger_view example_subject = Inr (clone_ledger ledger_b)"
    unfolding test_variant_ledger_def m
    by (simp add: facts_of_def ledger_view_def example_subject_def)
  obtain candidate ledger where p: "prepare_inert_extension example_syntax ledger_view extended_record ledger_a
      example_subject = Inr (Prepared candidate ledger)"
    unfolding prepare_inert_extension_def l
    using g i
    by (simp add: extended_record_def example_record_def no_fingerprint_def
      recognized_applicability_def effective_test_variants_def recorded_evidence_verdict_def
      compartment_stale_def snapshot_guards_def facts_of_def ledger_view_def example_view_def
      example_facts_def example_subject_def closure_of_def facts_closure_def no_applicability_def
      InertTestVariantExtension_def DynamicStateStrategy_def no_subject_facts_def maximal_closure_def Let_def)
  from inert_extension_substitutes_compartment [OF p] p show ?thesis
    by (auto simp: closure_of_def facts_of_def ledger_view_def example_view_def example_facts_def facts_closure_def
      maximal_closure_def no_subject_facts_def)
qed

end
