(* ===== verification/Unit_Phase.thy ===== *)
theory Unit_Phase
  imports Effects
begin

text \<open>
  The life of a unit (unit.go's \<open>unitPhase\<close>), shared by the producing unit and the checking
  unit, and runs of a step relation. Two interfaces carry the arguments both machines need:
  an invariant that every step keeps holds along every run, and a lifecycle whose steps
  follow the phase edges never leaves a closed phase and never reopens.
\<close>

section \<open>Phases\<close>

datatype unit_phase = UnitOpen | UnitClosing | UnitClosed | UnitFailed | UnitAborted

definition ended :: "unit_phase \<Rightarrow> bool" where
  "ended p \<longleftrightarrow> p \<in> {UnitClosed, UnitFailed, UnitAborted}"

text \<open>The edges the sources take; a cancelled caller turns an abort into a failure.\<close>

fun phase_edge :: "unit_phase \<Rightarrow> unit_phase \<Rightarrow> bool" where
  "phase_edge UnitOpen q = True"
| "phase_edge UnitClosing q = (q \<noteq> UnitOpen)"
| "phase_edge UnitAborted q = (q = UnitAborted \<or> q = UnitFailed)"
| "phase_edge UnitFailed q = (q = UnitFailed)"
| "phase_edge UnitClosed q = (q = UnitClosed)"

lemma phase_edge_refl [simp]: "phase_edge p p"
  by (cases p) simp_all

lemma phase_edge_trans: "phase_edge p q \<Longrightarrow> phase_edge q r \<Longrightarrow> phase_edge p r"
  by (cases p; cases q; cases r) simp_all

lemma phase_edge_ended: "phase_edge p q \<Longrightarrow> ended p \<Longrightarrow> ended q \<and> (q = UnitClosed \<longrightarrow> p = UnitClosed)"
  by (cases p) (auto simp: ended_def)

definition unit_closed_error :: view_error where
  "unit_closed_error = OtherError ''gofresh: unit is closing or ended''"

definition unit_aborted_error :: view_error where
  "unit_aborted_error = OtherError ''gofresh: unit aborted before closing completed''"

definition unit_incomplete_error :: view_error where
  "unit_incomplete_error = OtherError ''gofresh: unit has incomplete contributing executions''"

definition unit_uninitialized_error :: view_error where
  "unit_uninitialized_error = OtherError ''gofresh: uninitialized unit''"

text \<open>Abort: only a unit that has not ended moves.\<close>

definition abort_phase :: "unit_phase \<Rightarrow> unit_phase" where
  "abort_phase p = (if p = UnitOpen \<or> p = UnitClosing then UnitAborted else p)"

lemma abort_phase_edge [simp]: "phase_edge p (abort_phase p)"
  by (cases p) (simp_all add: abort_phase_def)

section \<open>Runs\<close>

inductive runs :: "('s \<Rightarrow> 'e \<Rightarrow> 's \<Rightarrow> bool) \<Rightarrow> 's \<Rightarrow> 'e list \<Rightarrow> 's \<Rightarrow> bool" for step where
  runs_nil: "runs step s [] s"
| runs_snoc: "runs step s es t \<Longrightarrow> step t e u \<Longrightarrow> runs step s (es @ [e]) u"

inductive_cases runs_nilE: "runs step s [] t"

lemma runs_append: "runs step t fs u \<Longrightarrow> runs step s es t \<Longrightarrow> runs step s (es @ fs) u"
  by (induction rule: runs.induct) (auto simp flip: append_assoc intro: runs.intros)

lemma runs_one: "step s e t \<Longrightarrow> runs step s [e] t"
  using runs_snoc [OF runs_nil, of step s e t] by simp

lemma runs_two: "step s e t \<Longrightarrow> step t f u \<Longrightarrow> runs step s [e, f] u"
  using runs_snoc [OF runs_one, of step s e t f u] by simp

inductive_cases runs_snocE: "runs step s (es @ [e]) u"

lemma runs_snocD: "runs step s (es @ [e]) u \<Longrightarrow> \<exists>t. runs step s es t \<and> step t e u"
  by (erule runs_snocE) auto

lemma runs_split: "runs step s (es @ fs) u \<Longrightarrow> \<exists>t. runs step s es t \<and> runs step t fs u"
proof (induction fs arbitrary: u rule: rev_induct)
  case Nil
  then show ?case using runs_nil [of step u] by auto
next
  case (snoc f fs)
  then obtain t where "runs step s (es @ fs) t" "step t f u"
    using runs_snocD [of step s "es @ fs" f u] by auto
  with snoc.IH [of t] obtain t' where "runs step s es t'" "runs step t' fs t" by blast
  with runs_snoc [OF this(2) \<open>step t f u\<close>] show ?case by blast
qed

lemma runs_event:
  assumes "runs step s es u" "e \<in> set es"
  shows "\<exists>fs gs t t'. es = fs @ e # gs \<and> runs step s fs t \<and> step t e t' \<and> runs step t' gs u"
proof -
  from assms(2) obtain fs gs where es: "es = fs @ e # gs" by (meson split_list)
  from assms(1) have "runs step s ((fs @ [e]) @ gs) u" by (simp add: es)
  from runs_split [OF this] obtain t' where "runs step s (fs @ [e]) t'" "runs step t' gs u" by blast
  from runs_snocD [OF this(1)] obtain t where "runs step s fs t" "step t e t'" by blast
  with es \<open>runs step t' gs u\<close> show ?thesis by blast
qed

section \<open>Machine interfaces\<close>

text \<open>A property every step keeps.\<close>

locale step_invariant =
  fixes step :: "'s \<Rightarrow> 'e \<Rightarrow> 's \<Rightarrow> bool" and holds :: "'s \<Rightarrow> bool"
  assumes step_keeps: "step s e t \<Longrightarrow> holds s \<Longrightarrow> holds t"
begin

lemma runs_keep: "runs step s es t \<Longrightarrow> holds s \<Longrightarrow> holds t"
  by (induction rule: runs.induct) (auto intro: step_keeps)

end

text \<open>A reflexive and transitive relation of states every step stays in.\<close>

locale step_order =
  fixes step :: "'s \<Rightarrow> 'e \<Rightarrow> 's \<Rightarrow> bool" and below :: "'s \<Rightarrow> 's \<Rightarrow> bool"
  assumes step_below: "step s e t \<Longrightarrow> below s t"
    and below_refl: "below s s"
    and below_trans: "below s t \<Longrightarrow> below t u \<Longrightarrow> below s u"
begin

lemma runs_below: "runs step s es t \<Longrightarrow> below s t"
  by (induction rule: runs.induct) (auto intro: below_refl below_trans step_below)

end

text \<open>A lifecycle: steps follow the phase edges, and only a closing step grants.\<close>

locale lifecycle = step_invariant step holds
  for step :: "'s \<Rightarrow> 'e \<Rightarrow> 's \<Rightarrow> bool" and holds :: "'s \<Rightarrow> bool" +
  fixes phase :: "'s \<Rightarrow> unit_phase" and grants :: "'e \<Rightarrow> bool"
  assumes step_edge: "step s e t \<Longrightarrow> holds s \<Longrightarrow> phase_edge (phase s) (phase t)"
    and grant_closes: "step s e t \<Longrightarrow> holds s \<Longrightarrow> grants e
      \<Longrightarrow> phase s = UnitClosing \<and> phase t = UnitClosed"
begin

lemma runs_edge: "runs step s es t \<Longrightarrow> holds s \<Longrightarrow> phase_edge (phase s) (phase t)"
  by (induction rule: runs.induct) (auto intro: phase_edge_trans step_edge runs_keep)

lemma runs_ended: "runs step s es t \<Longrightarrow> holds s \<Longrightarrow> ended (phase s) \<Longrightarrow> ended (phase t)"
  using runs_edge phase_edge_ended by blast

lemma ended_grants_nothing:
  "runs step s es t \<Longrightarrow> holds s \<Longrightarrow> ended (phase s) \<Longrightarrow> \<not> (\<exists>e\<in>set es. grants e)"
proof (induction rule: runs.induct)
  case (runs_snoc s es t e u)
  have "ended (phase t)" using runs_ended runs_snoc by blast
  then have "\<not> grants e"
    using grant_closes [OF runs_snoc(2) runs_keep [OF runs_snoc(1)]] runs_snoc by (auto simp: ended_def)
  with runs_snoc show ?case by auto
qed simp

text \<open>A run grants at most once, and it ends closed exactly then.\<close>

lemma grants_once:
  assumes "runs step s es t" "holds s" "phase s \<noteq> UnitClosed"
  shows "length (filter grants es) \<le> 1 \<and> (filter grants es \<noteq> [] \<longrightarrow> phase t = UnitClosed)"
  using assms
proof (induction rule: runs.induct)
  case (runs_snoc s es t e u)
  have t: "holds t" using runs_keep runs_snoc by blast
  show ?case
  proof (cases "grants e")
    case True
    with runs_snoc grant_closes [OF runs_snoc(2) t] show ?thesis by auto
  next
    case False
    have "phase t = UnitClosed \<Longrightarrow> phase u = UnitClosed"
      using step_edge [OF runs_snoc(2) t] by simp
    with False runs_snoc show ?thesis by auto
  qed
qed simp

end

end
