(* ===== verification/Checking_Unit.thy ===== *)
theory Checking_Unit
  imports Applicability Unit_Phase
begin

text \<open>
  checking.go's \<open>CheckingUnit\<close>: rounds of candidates and of explicit inert extensions
  appended as indexed slots, abort, and the close that re-checks every slot over one fresh
  validation view and grants the final answers. Rounds, aborts and closing interleave; the
  machine is a step relation whose steps run the kernel on the unit's view, and the
  sequential batch with ledgers is its composition. The lemmas show that indices are stable,
  that extensions are licensed by an earlier slot, that a grant is given at most once and
  never after an abort, and what a granted valid answer rests on.
\<close>

section \<open>Slots\<close>

record checking_slot =
  sl_record :: record_check
  sl_result :: record_result
  sl_extension :: bool
  sl_ledger :: tv_ledger

record pending_slot =
  pd_record :: record_check
  pd_extension :: bool
  pd_ledger :: tv_ledger

record checked_candidate =
  ck_index :: nat
  ck_subject :: subject
  ck_verdict :: verdict
  ck_extension :: "(fingerprint \<times> tv_ledger) option"

record inert_request =
  iq_index :: int
  iq_ledger :: tv_ledger

definition slot_checked :: "nat \<Rightarrow> checking_slot \<Rightarrow> checked_candidate" where
  "slot_checked i sl = \<lparr>ck_index = i, ck_subject = rc_subject (sl_record sl),
     ck_verdict = rr_verdict (sl_result sl),
     ck_extension = (if sl_extension sl \<and> v_status (rr_verdict (sl_result sl)) = Valid
       then Some (rc_recorded (sl_record sl), clone_ledger (sl_ledger sl)) else None)\<rparr>"

section \<open>Preparing a round\<close>

definition prepare_round :: "snapshot \<Rightarrow> candidate list \<Rightarrow> view_error + pending_slot list" where
  "prepare_round v cs = (case prepare_candidates v cs of Some e \<Rightarrow> Inl e
     | None \<Rightarrow> Inr (map (\<lambda>c. \<lparr>pd_record = \<lparr>rc_candidate = c, rc_observed = True, rc_refusal = None\<rparr>,
         pd_extension = False, pd_ledger = no_ledger\<rparr>) cs))"

definition extension_slot ::
    "go_syntax \<Rightarrow> snapshot \<Rightarrow> checking_slot list \<Rightarrow> inert_request \<Rightarrow> view_error + pending_slot" where
  "extension_slot G v slots q =
     (let c = rc_candidate (sl_record (slots ! nat (iq_index q))) in
      case prepare_inert_extension G v (cd_recorded c) (iq_ledger q) (cd_subject c) of
        Inl e \<Rightarrow> Inl e
      | Inr (Rejected x) \<Rightarrow> Inr \<lparr>pd_record = \<lparr>rc_candidate = c, rc_observed = True, rc_refusal = Some x\<rparr>,
          pd_extension = True, pd_ledger = clone_ledger no_ledger\<rparr>
      | Inr (Prepared candidate ledger) \<Rightarrow> Inr \<lparr>pd_record = \<lparr>rc_candidate = c\<lparr>cd_recorded := candidate\<rparr>,
          rc_observed = True, rc_refusal = None\<rparr>, pd_extension = True, pd_ledger = clone_ledger ledger\<rparr>)"

fun extension_slots ::
    "go_syntax \<Rightarrow> snapshot \<Rightarrow> checking_slot list \<Rightarrow> inert_request list \<Rightarrow> view_error + pending_slot list" where
  "extension_slots G v slots [] = Inr []"
| "extension_slots G v slots (q # qs) = (case extension_slot G v slots q of Inl e \<Rightarrow> Inl e
     | Inr p \<Rightarrow> (case extension_slots G v slots qs of Inl e \<Rightarrow> Inl e | Inr ps \<Rightarrow> Inr (p # ps)))"

definition outside_unit :: "checking_slot list \<Rightarrow> inert_request \<Rightarrow> bool" where
  "outside_unit slots q \<longleftrightarrow> iq_index q < 0 \<or> iq_index q \<ge> int (length slots)"

text \<open>ExtendInertBatch: every index is admitted before any extension is prepared.\<close>

definition prepare_extensions ::
    "go_syntax \<Rightarrow> snapshot \<Rightarrow> checking_slot list \<Rightarrow> inert_request list \<Rightarrow> view_error + pending_slot list" where
  "prepare_extensions G v slots qs = (case find (outside_unit slots) qs of
      Some q \<Rightarrow> Inl (OtherError (''gofresh: checking candidate index '' @ show_int (iq_index q)
        @ '' is outside this unit''))
    | None \<Rightarrow> extension_slots G v slots qs)"

section \<open>The unit\<close>

record checking_unit =
  cu_view :: snapshot
  cu_phase :: unit_phase
  cu_slots :: "checking_slot list"
  cu_pending :: "pending_slot list option"
  cu_closing :: bool

definition begin_check :: "snapshot \<Rightarrow> checking_unit" where
  "begin_check v = \<lparr>cu_view = v, cu_phase = UnitOpen, cu_slots = [], cu_pending = None,
     cu_closing = False\<rparr>"

text \<open>finishWork: the caller's cancellation outranks an abort, an abort outranks the work's error.\<close>

definition finish_work ::
    "string option \<Rightarrow> unit_phase \<Rightarrow> view_error option \<Rightarrow> unit_phase \<times> view_error option" where
  "finish_work caller p err = (case caller of Some c \<Rightarrow> (UnitFailed, Some (ContextError c))
     | None \<Rightarrow>
       if p = UnitAborted then (p, Some unit_aborted_error)
       else if p \<noteq> UnitOpen \<and> p \<noteq> UnitClosing then (p, Some unit_closed_error)
       else (case err of Some e \<Rightarrow> (UnitFailed, Some e) | None \<Rightarrow> (p, None)))"

definition start_round ::
    "checking_unit \<Rightarrow> (view_error + pending_slot list) \<Rightarrow> view_error + checking_unit" where
  "start_round u prepared = (if cu_phase u \<noteq> UnitOpen then Inl unit_closed_error
     else (case prepared of Inl e \<Rightarrow> Inl e | Inr p \<Rightarrow> Inr (u\<lparr>cu_pending := Some p\<rparr>)))"

definition new_slots :: "pending_slot list \<Rightarrow> record_result list \<Rightarrow> checking_slot list" where
  "new_slots ps rs = map (\<lambda>(p, r). \<lparr>sl_record = pd_record p, sl_result = r,
     sl_extension = pd_extension p, sl_ledger = pd_ledger p\<rparr>) (zip ps rs)"

definition checked_from :: "nat \<Rightarrow> checking_slot list \<Rightarrow> checked_candidate list" where
  "checked_from n slots = map (\<lambda>(i, sl). slot_checked i sl) (zip [n..<n + length slots] slots)"

definition commit_round ::
    "string option \<Rightarrow> pending_slot list \<Rightarrow> view_error + record_result list \<Rightarrow> checking_unit
      \<Rightarrow> (view_error + checked_candidate list) \<times> checking_unit" where
  "commit_round caller p r u =
     (let (phase, err) = finish_work caller (cu_phase u) (error_of r);
          u' = u\<lparr>cu_phase := phase, cu_pending := None\<rparr>
      in case err of Some e \<Rightarrow> (Inl e, u')
       | None \<Rightarrow> (case r of Inl e \<Rightarrow> (Inl e, u')
          | Inr results \<Rightarrow> (Inr (checked_from (length (cu_slots u)) (new_slots p results)),
              u'\<lparr>cu_slots := cu_slots u @ new_slots p results\<rparr>)))"

definition abort_unit :: "checking_unit \<Rightarrow> checking_unit" where
  "abort_unit u = u\<lparr>cu_phase := abort_phase (cu_phase u)\<rparr>"

section \<open>Closing\<close>

definition close_records :: "checking_slot list \<Rightarrow> record_check list" where
  "close_records slots = map (\<lambda>sl. if rr_evaluated (sl_result sl) then sl_record sl
     else (sl_record sl)\<lparr>rc_refusal := Some (rr_verdict (sl_result sl))\<rparr>) slots"

definition licensed_slot :: "checking_slot \<Rightarrow> bool" where
  "licensed_slot sl \<longleftrightarrow> sl_extension sl \<and> v_status (rr_verdict (sl_result sl)) = Valid
     \<or> rr_selected (sl_result sl)"

text \<open>The final verdict of one slot: demonstrated staleness stays, motion since the round stales.\<close>

definition closing_verdict :: "checking_slot \<Rightarrow> record_result \<Rightarrow> verdict vop" where
  "closing_verdict sl r =
     (if v_status (rr_verdict (sl_result sl)) = Stale then op_return (rr_verdict (sl_result sl))
      else if rr_evaluated (sl_result sl)
      then op_bind (runtime_motion (rc_candidate (sl_record sl)) (rr_verdict r)
          (rr_before (sl_result sl)) (rr_before r)) (\<lambda>x.
        runtime_motion (rc_candidate (sl_record sl)) x (rr_after (sl_result sl)) (rr_after r))
      else op_return (rr_verdict r))"

fun settle_slots ::
    "nat \<Rightarrow> (checking_slot \<times> record_result) list \<Rightarrow> view_error option
      \<Rightarrow> (checked_candidate list \<times> view_error option) vop" where
  "settle_slots i [] held = op_return ([], held)"
| "settle_slots i ((sl, r) # rest) held = op_bind (closing_verdict sl r) (\<lambda>x.
     (let r' = r\<lparr>rr_verdict := x\<rparr>;
          lost = licensed_slot sl \<and> v_status x \<noteq> Valid;
          excused = v_status x = Unverifiable \<and> rr_unavailable r \<noteq> None
      in if lost \<and> \<not> excused
         then op_fail (ViewChanged (''applicability for candidate '' @ show_nat i @ '' (''
           @ subject_text (rc_subject (sl_record sl)) @ ''): '' @ v_reason x))
         else op_bind (settle_slots (Suc i) rest
             (if lost then hold_first held (the (rr_unavailable r)) else held))
           (\<lambda>(cs, held'). op_return (slot_checked i (sl\<lparr>sl_result := r'\<rparr>) # cs, held'))))"

definition close_slots ::
    "(string \<Rightarrow> string \<Rightarrow> bool) \<Rightarrow> checking_slot list \<Rightarrow> (checked_candidate list \<times> view_error option) vop" where
  "close_slots hs slots = op_bind (check_records hs (close_records slots) True False)
     (\<lambda>results. settle_slots 0 (zip slots results) None)"

text \<open>The unexported close: it runs on the unit's view.\<close>

definition close_check ::
    "(string \<Rightarrow> string \<Rightarrow> bool) \<Rightarrow> checking_slot list \<Rightarrow> checked_candidate list vop" where
  "close_check hs slots = op_bind new_seeded_validation_view (\<lambda>current.
     op_bind (op_run (close_slots hs slots) current) (\<lambda>(r, current').
     op_bind (op_lift r) (\<lambda>(checked, unavailable).
     op_then (close_reobservation current' unavailable) (op_return checked))))"

text \<open>Close, before and after the work: a cancelled caller or a round in progress fails the unit.\<close>

definition start_close :: "string option \<Rightarrow> checking_unit \<Rightarrow> view_error option \<times> checking_unit" where
  "start_close caller u =
     (if cu_phase u \<noteq> UnitOpen then (Some unit_closed_error, u)
      else (case caller of Some c \<Rightarrow> (Some (ContextError c), u\<lparr>cu_phase := UnitFailed\<rparr>)
        | None \<Rightarrow> if cu_pending u \<noteq> None then (Some unit_incomplete_error, u\<lparr>cu_phase := UnitFailed\<rparr>)
            else (None, u\<lparr>cu_phase := UnitClosing, cu_closing := True\<rparr>)))"

definition commit_close ::
    "string option \<Rightarrow> view_error + checked_candidate list \<Rightarrow> checking_unit
      \<Rightarrow> (view_error + checked_candidate list) \<times> checking_unit" where
  "commit_close caller r u =
     (let (phase, err) = finish_work caller (cu_phase u) (error_of r);
          u' = u\<lparr>cu_closing := False\<rparr>
      in case err of Some e \<Rightarrow> (Inl e, u'\<lparr>cu_phase := phase\<rparr>)
       | None \<Rightarrow> (case r of Inl e \<Rightarrow> (Inl e, u'\<lparr>cu_phase := phase\<rparr>)
          | Inr checked \<Rightarrow> (Inr checked, u'\<lparr>cu_phase := UnitClosed\<rparr>)))"

section \<open>The step relation\<close>

datatype check_event =
    RoundStarted
  | RoundAnswered "checked_candidate list"
  | RoundFailed view_error
  | Aborted
  | CloseStarted
  | CloseRefused view_error
  | CloseGranted "checked_candidate list"
  | CloseFailed view_error

inductive check_step ::
    "(string \<Rightarrow> string \<Rightarrow> bool) \<Rightarrow> go_syntax \<Rightarrow> checking_unit \<Rightarrow> check_event \<Rightarrow> checking_unit \<Rightarrow> bool"
  for hs G where
  step_check: "cu_pending u = None \<Longrightarrow> start_round u (prepare_round (cu_view u) cs) = Inr u'
     \<Longrightarrow> check_step hs G u RoundStarted u'"
| step_extend: "cu_pending u = None
     \<Longrightarrow> start_round u (prepare_extensions G (cu_view u) (cu_slots u) qs) = Inr u'
     \<Longrightarrow> check_step hs G u RoundStarted u'"
| step_answer: "cu_pending u = Some p
     \<Longrightarrow> check_records hs (map pd_record p) True False (cu_view u) w = (r, v', w')
     \<Longrightarrow> commit_round caller p r (u\<lparr>cu_view := v'\<rparr>) = (Inr cs, u')
     \<Longrightarrow> check_step hs G u (RoundAnswered cs) u'"
| step_round_failed: "cu_pending u = Some p
     \<Longrightarrow> check_records hs (map pd_record p) True False (cu_view u) w = (r, v', w')
     \<Longrightarrow> commit_round caller p r (u\<lparr>cu_view := v'\<rparr>) = (Inl e, u')
     \<Longrightarrow> check_step hs G u (RoundFailed e) u'"
| step_abort: "check_step hs G u Aborted (abort_unit u)"
| step_close: "start_close caller u = (None, u') \<Longrightarrow> check_step hs G u CloseStarted u'"
| step_close_refused: "start_close caller u = (Some e, u') \<Longrightarrow> check_step hs G u (CloseRefused e) u'"
| step_grant: "cu_closing u \<Longrightarrow> close_check hs (cu_slots u) (cu_view u) w = (r, v', w')
     \<Longrightarrow> commit_close caller r (u\<lparr>cu_view := v'\<rparr>) = (Inr cs, u')
     \<Longrightarrow> check_step hs G u (CloseGranted cs) u'"
| step_close_failed: "cu_closing u \<Longrightarrow> close_check hs (cu_slots u) (cu_view u) w = (r, v', w')
     \<Longrightarrow> commit_close caller r (u\<lparr>cu_view := v'\<rparr>) = (Inl e, u')
     \<Longrightarrow> check_step hs G u (CloseFailed e) u'"

inductive_cases grantE: "check_step hs G u (CloseGranted cs) u'"
inductive_cases answerE: "check_step hs G u (RoundAnswered cs) u'"

definition grants_answers :: "check_event \<Rightarrow> bool" where
  "grants_answers e = (case e of CloseGranted _ \<Rightarrow> True | _ \<Rightarrow> False)"

lemma finish_work_edge:
  "finish_work caller p err = (q, e) \<Longrightarrow> p \<noteq> UnitClosed \<Longrightarrow> phase_edge p q"
  by (cases p) (auto simp: finish_work_def split: option.splits if_splits)

lemma finish_work_ok:
  "finish_work caller p err = (q, None) \<longleftrightarrow>
     caller = None \<and> err = None \<and> q = p \<and> (p = UnitOpen \<or> p = UnitClosing)"
  by (auto simp: finish_work_def split: option.splits)

section \<open>The machine is a lifecycle\<close>

text \<open>Work in progress fits the phase: a close owns a closing or aborted unit, a round an open or ended one.\<close>

definition unit_wf :: "checking_unit \<Rightarrow> bool" where
  "unit_wf u \<longleftrightarrow>
     (cu_closing u \<longrightarrow> cu_pending u = None \<and> (cu_phase u = UnitClosing \<or> cu_phase u = UnitAborted))
     \<and> (cu_phase u = UnitClosing \<longrightarrow> cu_closing u)
     \<and> (cu_pending u \<noteq> None \<longrightarrow> cu_phase u \<noteq> UnitClosing \<and> cu_phase u \<noteq> UnitClosed)"

lemma start_round_ok:
  assumes "start_round u prepared = Inr u'"
  shows "cu_phase u = UnitOpen \<and> (\<exists>p. prepared = Inr p \<and> u' = u\<lparr>cu_pending := Some p\<rparr>)"
  using assms by (auto simp: start_round_def split: if_splits sum.splits)

lemma commit_round_state:
  assumes "commit_round caller p r u = (a, u')"
  shows "cu_phase u' = fst (finish_work caller (cu_phase u) (error_of r)) \<and> cu_pending u' = None
    \<and> cu_closing u' = cu_closing u \<and> cu_view u' = cu_view u
    \<and> (case a of Inl _ \<Rightarrow> cu_slots u' = cu_slots u
        | Inr cs \<Rightarrow> caller = None \<and> (cu_phase u = UnitOpen \<or> cu_phase u = UnitClosing)
            \<and> (\<exists>results. r = Inr results \<and> cu_slots u' = cu_slots u @ new_slots p results
              \<and> cs = checked_from (length (cu_slots u)) (new_slots p results)))"
  using assms
  by (cases "finish_work caller (cu_phase u) (error_of r)")
    (auto simp: commit_round_def Let_def finish_work_ok split: option.splits sum.splits)

lemma commit_close_state:
  assumes "commit_close caller r u = (a, u')"
  shows "cu_pending u' = cu_pending u \<and> \<not> cu_closing u' \<and> cu_view u' = cu_view u \<and> cu_slots u' = cu_slots u
    \<and> (case a of Inl _ \<Rightarrow> cu_phase u' = fst (finish_work caller (cu_phase u) (error_of r))
          \<and> (caller = None \<longrightarrow> cu_phase u' \<noteq> UnitClosing)
        | Inr cs \<Rightarrow> caller = None \<and> (cu_phase u = UnitOpen \<or> cu_phase u = UnitClosing)
            \<and> r = Inr cs \<and> cu_phase u' = UnitClosed)"
  using assms
  by (cases "finish_work caller (cu_phase u) (error_of r)")
    (auto simp: commit_close_def Let_def finish_work_ok error_of_def finish_work_def
      split: option.splits sum.splits if_splits)

lemma start_close_state:
  assumes "start_close caller u = (e, u')"
  shows "cu_view u' = cu_view u \<and> cu_slots u' = cu_slots u \<and> cu_pending u' = cu_pending u
    \<and> phase_edge (cu_phase u) (cu_phase u')
    \<and> (e = None \<longleftrightarrow> cu_phase u = UnitOpen \<and> caller = None \<and> cu_pending u = None)
    \<and> (e = None \<longrightarrow> cu_phase u' = UnitClosing \<and> cu_closing u')
    \<and> (e \<noteq> None \<longrightarrow> cu_closing u' = cu_closing u \<and> (u' = u \<or> cu_phase u = UnitOpen \<and> cu_phase u' = UnitFailed))"
  using assms by (auto simp: start_close_def split: if_splits option.splits)

lemma finish_work_closing: "fst (finish_work caller p err) = UnitClosing \<longleftrightarrow>
    caller = None \<and> err = None \<and> p = UnitClosing"
  by (auto simp: finish_work_def split: option.splits)

lemma finish_work_closed: "fst (finish_work caller p err) = UnitClosed \<longleftrightarrow> caller = None \<and> p = UnitClosed"
  by (auto simp: finish_work_def split: option.splits)

lemma finish_work_edge': "p \<noteq> UnitClosed \<Longrightarrow> phase_edge p (fst (finish_work caller p err))"
  by (rule finish_work_edge) (rule prod.collapse [symmetric])

lemma wf_round:
  assumes "commit_round caller p r (u\<lparr>cu_view := v\<rparr>) = (a, u')" "unit_wf u" "cu_pending u = Some p"
  shows "unit_wf u' \<and> phase_edge (cu_phase u) (cu_phase u')"
proof -
  from assms(2,3) have "cu_phase u \<noteq> UnitClosing" "cu_phase u \<noteq> UnitClosed" "\<not> cu_closing u"
    by (auto simp: unit_wf_def)
  with commit_round_state [OF assms(1)] finish_work_edge' [of "cu_phase u" caller "error_of r"]
  show ?thesis by (simp add: unit_wf_def finish_work_closing)
qed

lemma wf_close:
  assumes "commit_close caller r (u\<lparr>cu_view := v\<rparr>) = (a, u')" "unit_wf u" "cu_closing u"
  shows "unit_wf u' \<and> phase_edge (cu_phase u) (cu_phase u') \<and> (\<forall>cs. a = Inr cs \<longrightarrow>
    cu_phase u = UnitClosing \<and> cu_phase u' = UnitClosed)"
proof -
  from assms(2,3) have p: "cu_phase u = UnitClosing \<or> cu_phase u = UnitAborted" "cu_pending u = None"
    by (auto simp: unit_wf_def)
  show ?thesis
  proof (cases a)
    case (Inl e)
    have "cu_phase u' \<noteq> UnitClosing"
      using commit_close_state [OF assms(1)] Inl
      by (cases caller) (auto simp: finish_work_closing)
    with Inl commit_close_state [OF assms(1)] p finish_work_edge' [of "cu_phase u" caller "error_of r"]
    show ?thesis by (auto simp: unit_wf_def)
  next
    case (Inr cs)
    with commit_close_state [OF assms(1)] p show ?thesis by (auto simp: unit_wf_def)
  qed
qed

lemma wf_start_close:
  assumes "start_close caller u = (e, u')" "unit_wf u"
  shows "unit_wf u' \<and> phase_edge (cu_phase u) (cu_phase u')"
  using start_close_state [OF assms(1)] assms(2) by (cases e) (auto simp: unit_wf_def)

lemma wf_start_round:
  assumes "start_round u prepared = Inr u'" "unit_wf u"
  shows "unit_wf u' \<and> phase_edge (cu_phase u) (cu_phase u')"
  using start_round_ok [OF assms(1)] assms(2) by (auto simp: unit_wf_def)

lemma wf_abort: "unit_wf u \<Longrightarrow> unit_wf (abort_unit u) \<and> phase_edge (cu_phase u) (cu_phase (abort_unit u))"
  by (cases "cu_phase u") (auto simp: unit_wf_def abort_unit_def abort_phase_def)

lemma check_step_wf:
  assumes "check_step hs G u e u'" "unit_wf u"
  shows "unit_wf u' \<and> phase_edge (cu_phase u) (cu_phase u')
    \<and> (grants_answers e \<longrightarrow> cu_phase u = UnitClosing \<and> cu_phase u' = UnitClosed)"
  using assms(1)
proof cases
  case step_check
  then show ?thesis using wf_start_round assms(2) by (simp add: grants_answers_def)
next
  case step_extend
  then show ?thesis using wf_start_round assms(2) by (simp add: grants_answers_def)
next
  case step_answer
  then show ?thesis using wf_round assms(2) by (simp add: grants_answers_def)
next
  case step_round_failed
  then show ?thesis using wf_round assms(2) by (simp add: grants_answers_def)
next
  case step_abort
  then show ?thesis using wf_abort assms(2) by (simp add: grants_answers_def)
next
  case step_close
  then show ?thesis using wf_start_close assms(2) by (simp add: grants_answers_def)
next
  case step_close_refused
  then show ?thesis using wf_start_close assms(2) by (simp add: grants_answers_def)
next
  case step_grant
  then show ?thesis using wf_close assms(2) by (simp add: grants_answers_def)
next
  case step_close_failed
  then show ?thesis using wf_close assms(2) by (simp add: grants_answers_def)
qed

interpretation check_life: lifecycle "check_step hs G" unit_wf cu_phase grants_answers
  by unfold_locales (use check_step_wf in blast)+

section \<open>No operation changes what answers are computed from\<close>

definition keeps_basis :: "'a vop \<Rightarrow> bool" where
  "keeps_basis m \<longleftrightarrow> (\<forall>v w. same_basis v (fst (snd (m v w))))"

lemma keeps_basisD: "keeps_basis m \<Longrightarrow> m v w = (r, v2, w2) \<Longrightarrow> same_basis v v2"
  by (metis fst_conv snd_conv keeps_basis_def)

lemma reads_only_keeps: "reads_only m \<Longrightarrow> keeps_basis m"
  by (simp add: reads_only_def keeps_basis_def)

lemma keeps_basis_bind: "keeps_basis m \<Longrightarrow> (\<And>x. keeps_basis (f x)) \<Longrightarrow> keeps_basis (op_bind m f)"
  unfolding keeps_basis_def op_bind_def
  by (auto split: prod.splits sum.splits) (metis fst_conv same_basis_trans snd_conv)+

lemma keeps_basis_then: "keeps_basis m \<Longrightarrow> keeps_basis n \<Longrightarrow> keeps_basis (op_then m n)"
  by (simp add: op_then_def keeps_basis_bind)

lemma keeps_basis_try: "keeps_basis m \<Longrightarrow> keeps_basis (op_try m)"
  by (auto simp: keeps_basis_def op_try_def split: prod.splits) (metis fst_conv snd_conv)

lemma keeps_basis_map: "(\<And>x. keeps_basis (f x)) \<Longrightarrow> keeps_basis (op_map f xs)"
  by (induction xs) (simp_all add: reads_only_keeps reads_only_basic keeps_basis_bind)

lemma keeps_basis_modify: "(\<And>v. same_basis v (f v)) \<Longrightarrow> keeps_basis (op_modify f)"
  by (simp add: keeps_basis_def op_modify_def)

lemma keeps_basis_cases:
  "keeps_basis m \<Longrightarrow> keeps_basis n \<Longrightarrow> keeps_basis (if b then m else n)"
  "keeps_basis m \<Longrightarrow> (\<And>x. keeps_basis (f x)) \<Longrightarrow> keeps_basis (case q of None \<Rightarrow> m | Some x \<Rightarrow> f x)"
  "(\<And>x. keeps_basis (g x)) \<Longrightarrow> (\<And>x. keeps_basis (h x)) \<Longrightarrow> keeps_basis (case r of Inl x \<Rightarrow> g x | Inr x \<Rightarrow> h x)"
  "(\<And>x y. keeps_basis (k x y)) \<Longrightarrow> keeps_basis (case p of (x, y) \<Rightarrow> k x y)"
  by (simp_all split: option.split sum.split prod.split)

lemmas keeps_basis_rules = keeps_basis_bind keeps_basis_then keeps_basis_try keeps_basis_map
  keeps_basis_cases reads_only_basic [THEN reads_only_keeps] reads_only_ctx [THEN reads_only_keeps]
  reads_only_run [THEN reads_only_keeps]

lemma keeps_basis_hold: "keeps_basis m \<Longrightarrow> keeps_basis (hold_cut_unavailable m)"
  unfolding hold_cut_unavailable_def
  by (intro keeps_basis_rules keeps_basis_modify) (auto simp: same_basis_def)

lemma keeps_basis_ensure: "keeps_basis (ensure_observable subjects)"
  unfolding ensure_observable_def Let_def
  by (intro keeps_basis_rules keeps_basis_hold keeps_basis_modify
      reads_only_keeps [OF reads_only_observe] reads_only_keeps [OF reads_only_context])
    (simp add: same_basis_def store_proofs_def)

lemma keeps_basis_retain: "keeps_basis (retain_applicability_check rec s b)"
  unfolding retain_applicability_check_def Let_def
  by (intro keeps_basis_rules keeps_basis_modify) (simp add: same_basis_def)

lemma reads_only_provisional: "reads_only (provisional r a selected before)"
  unfolding provisional_def
  by (auto intro!: reads_only_rules reads_only_with_moved split: sum.split)

lemma keeps_basis_finish: "keeps_basis (finish_record retain x)"
  unfolding finish_record_def Let_def
  by (intro keeps_basis_rules keeps_basis_retain reads_only_keeps [OF reads_only_motion])

lemma reads_only_close_window: "reads_only (close_check_window b d)"
  unfolding close_check_window_def reobserve_base_def
  by (intro reads_only_rules reads_only_observe reads_only_context)

lemma keeps_basis_check_records: "keeps_basis (check_records hs records d t)"
  unfolding check_records_def observe_record_inputs_def Let_def
  by (intro keeps_basis_rules keeps_basis_ensure keeps_basis_finish
      reads_only_keeps [OF reads_only_observe_inputs] reads_only_keeps [OF reads_only_close_window])
    (auto intro: reads_only_keeps [OF reads_only_provisional] split: prod.split)

lemma keeps_basis_seeded: "keeps_basis new_seeded_validation_view"
  unfolding new_seeded_validation_view_def
  by (intro keeps_basis_rules keeps_basis_hold reads_only_keeps [OF reads_only_observe]
      reads_only_keeps [OF reads_only_context])

lemma keeps_basis_close_check: "keeps_basis (close_check hs slots)"
  unfolding close_check_def close_reobservation_def resolve_unavailable_def report_held_def
  by (intro keeps_basis_rules keeps_basis_seeded)

section \<open>Slots only accumulate\<close>

definition slots_below :: "checking_unit \<Rightarrow> checking_unit \<Rightarrow> bool" where
  "slots_below u u' \<longleftrightarrow> same_basis (cu_view u) (cu_view u')
     \<and> (\<exists>more. cu_slots u' = cu_slots u @ more)"

lemma check_step_below:
  assumes "check_step hs G u e u'"
  shows "slots_below u u'"
  using assms
proof cases
  case (step_answer p w r v' w' caller cs)
  with commit_round_state [OF step_answer(4)] keeps_basisD [OF keeps_basis_check_records step_answer(3)]
  show ?thesis by (auto simp: slots_below_def)
next
  case (step_round_failed p w r v' w' caller e)
  with commit_round_state [OF step_round_failed(4)]
    keeps_basisD [OF keeps_basis_check_records step_round_failed(3)]
  show ?thesis by (simp add: slots_below_def)
next
  case (step_grant w r v' w' caller cs)
  with commit_close_state [OF step_grant(4)] keeps_basisD [OF keeps_basis_close_check step_grant(3)]
  show ?thesis by (simp add: slots_below_def)
next
  case (step_close_failed w r v' w' caller e)
  with commit_close_state [OF step_close_failed(4)]
    keeps_basisD [OF keeps_basis_close_check step_close_failed(3)]
  show ?thesis by (simp add: slots_below_def)
qed (auto simp: slots_below_def abort_unit_def dest: start_round_ok start_close_state)

interpretation check_slots: step_order "check_step hs G" slots_below
  by (unfold_locales; (rule check_step_below, assumption)?)
    (auto simp: slots_below_def intro: same_basis_trans)

section \<open>What closing answers\<close>

lemma advances_closing_verdict: "advances (closing_verdict sl r)"
  unfolding closing_verdict_def by (intro advances_rules advances_motion)

lemma closing_verdict_ok:
  assumes "closing_verdict sl r v w = (Inr x, v2, w2)"
  shows "v2 = v
    \<and> (v_status (rr_verdict (sl_result sl)) = Stale \<longrightarrow> x = rr_verdict (sl_result sl))
    \<and> (v_status (rr_verdict (sl_result sl)) \<noteq> Stale \<longrightarrow> v_status x =
        (if rr_evaluated (sl_result sl) \<and> fp_runtime_inputs (rc_recorded (sl_record sl)) \<noteq> []
            \<and> (rr_before (sl_result sl) \<noteq> rr_before r \<or> rr_after (sl_result sl) \<noteq> rr_after r)
         then Stale else v_status (rr_verdict r)))"
proof (cases "v_status (rr_verdict (sl_result sl)) \<noteq> Stale \<and> rr_evaluated (sl_result sl)")
  case False
  then show ?thesis using assms by (auto simp: closing_verdict_def op_ok split: if_splits)
next
  case True
  with assms obtain y v1 w1 where
    a: "runtime_motion (rc_candidate (sl_record sl)) (rr_verdict r) (rr_before (sl_result sl)) (rr_before r) v w
      = (Inr y, v1, w1)"
    and b: "runtime_motion (rc_candidate (sl_record sl)) y (rr_after (sl_result sl)) (rr_after r) v1 w1
      = (Inr x, v2, w2)"
    by (auto simp: closing_verdict_def op_ok)
  from motion_ok [OF a] motion_ok [OF b] True show ?thesis by auto
qed

definition settled_slot :: "nat \<Rightarrow> checking_slot \<Rightarrow> record_result \<Rightarrow> checked_candidate \<Rightarrow> bool" where
  "settled_slot i sl r c \<longleftrightarrow> ck_index c = i \<and> ck_subject c = rc_subject (sl_record sl)
     \<and> (v_status (rr_verdict (sl_result sl)) = Stale \<longrightarrow> ck_verdict c = rr_verdict (sl_result sl))
     \<and> (v_status (rr_verdict (sl_result sl)) \<noteq> Stale \<longrightarrow> v_status (ck_verdict c) =
        (if rr_evaluated (sl_result sl) \<and> fp_runtime_inputs (rc_recorded (sl_record sl)) \<noteq> []
            \<and> (rr_before (sl_result sl) \<noteq> rr_before r \<or> rr_after (sl_result sl) \<noteq> rr_after r)
         then Stale else v_status (rr_verdict r)))
     \<and> ck_extension c = (if sl_extension sl \<and> v_status (ck_verdict c) = Valid
        then Some (rc_recorded (sl_record sl), clone_ledger (sl_ledger sl)) else None)"

lemma settle_slots_ok:
  "settle_slots n (zip slots rs) held v w = (Inr (cs, held'), v2, w2) \<Longrightarrow> length rs = length slots \<Longrightarrow>
     v2 = v \<and> length cs = length slots
     \<and> (\<forall>i<length slots. settled_slot (n + i) (slots ! i) (rs ! i) (cs ! i))
     \<and> (held' = None \<longrightarrow> held = None \<and>
         (\<forall>i<length slots. licensed_slot (slots ! i) \<longrightarrow> v_status (ck_verdict (cs ! i)) = Valid))"
proof (induction slots arbitrary: n rs held v w cs w2)
  case Nil
  then show ?case by (auto simp: op_ok)
next
  case (Cons sl slots)
  then obtain r rs' where rs: "rs = r # rs'" by (cases rs) auto
  define lost where "lost x \<longleftrightarrow> licensed_slot sl \<and> v_status x \<noteq> Valid" for x :: verdict
  from Cons.prems(1) obtain x v1 w1 where
    x: "closing_verdict sl r v w = (Inr x, v1, w1)"
    and body: "(if lost x \<and> \<not> (v_status x = Unverifiable \<and> rr_unavailable r \<noteq> None)
         then op_fail (ViewChanged (''applicability for candidate '' @ show_nat n @ '' (''
           @ subject_text (rc_subject (sl_record sl)) @ ''): '' @ v_reason x))
         else op_bind (settle_slots (Suc n) (zip slots rs')
             (if lost x then hold_first held (the (rr_unavailable r)) else held))
           (\<lambda>(cs, held'). op_return (slot_checked n (sl\<lparr>sl_result := r\<lparr>rr_verdict := x\<rparr>\<rparr>) # cs, held')))
       v1 w1 = (Inr (cs, held'), v2, w2)"
    unfolding rs zip_Cons_Cons settle_slots.simps Let_def op_bind_ok lost_def by blast
  then have nf: "lost x \<longrightarrow> v_status x = Unverifiable \<and> rr_unavailable r \<noteq> None"
    by (auto split: if_split_asm)
  with body obtain cs' w3 where
    rest: "settle_slots (Suc n) (zip slots rs') (if lost x then hold_first held (the (rr_unavailable r)) else held)
        v1 w1 = (Inr (cs', held'), v2, w3)"
    and cs: "cs = slot_checked n (sl\<lparr>sl_result := r\<lparr>rr_verdict := x\<rparr>\<rparr>) # cs'"
    by (auto simp: op_bind_ok op_return_ok split: if_split_asm)
  note vx = closing_verdict_ok [OF x]
  from vx have v1: "v1 = v" by simp
  have len: "length rs' = length slots" using Cons.prems(2) rs by simp
  from vx have here: "settled_slot n sl r (slot_checked n (sl\<lparr>sl_result := r\<lparr>rr_verdict := x\<rparr>\<rparr>))"
    by (auto simp: settled_slot_def slot_checked_def)
  have head: "held' = None \<Longrightarrow> held = None \<and> (licensed_slot sl \<longrightarrow> v_status x = Valid)"
    using Cons.IH [OF rest [unfolded v1] len]
    by (auto simp: hold_first_def lost_def split: if_splits option.splits)
  have "ck_verdict (slot_checked n (sl\<lparr>sl_result := r\<lparr>rr_verdict := x\<rparr>\<rparr>)) = x"
    by (simp add: slot_checked_def)
  with Cons.IH [OF rest [unfolded v1] len] here head show ?case
    unfolding cs rs by (auto simp: nth_Cons split: nat.split)
qed

text \<open>The final answer of one slot.\<close>

definition final_answer ::
    "(string \<Rightarrow> string \<Rightarrow> bool) \<Rightarrow> snapshot \<Rightarrow> nat \<Rightarrow> checking_slot \<Rightarrow> checked_candidate \<Rightarrow> bool" where
  "final_answer hs v i sl c \<longleftrightarrow> (let p = sl_result sl; rec = rc_recorded (sl_record sl) in
     ck_index c = i \<and> ck_subject c = rc_subject (sl_record sl)
     \<and> (licensed_slot sl \<longrightarrow> v_status (ck_verdict c) = Valid)
     \<and> ck_extension c = (if sl_extension sl \<and> v_status (ck_verdict c) = Valid
        then Some (rc_recorded (sl_record sl), clone_ledger (sl_ledger sl)) else None)
     \<and> (v_status (rr_verdict p) = Stale \<longrightarrow> ck_verdict c = rr_verdict p)
     \<and> (\<not> rr_evaluated p \<longrightarrow> v_status (ck_verdict c) = v_status (rr_verdict p))
     \<and> (rr_evaluated p \<and> v_status (ck_verdict c) = Valid \<longrightarrow> v_status (rr_verdict p) \<noteq> Stale
         \<and> (\<exists>st. valid_basis hs v (sl_record sl) st
           \<and> (fp_runtime_inputs rec \<noteq> [] \<longrightarrow> rr_before p = st \<and> rr_after p = st))))"

lemma kernel_valid_basis:
  assumes "kernel_answer hs v v2 w w2 r res" "rr_evaluated res" "v_status (rr_verdict res) = Valid"
  shows "valid_basis hs v r (rr_before res)"
proof -
  from assms(1,2) obtain p where p: "admit_record hs v r = Inr p"
    by (auto simp: kernel_answer_def split: sum.splits)
  with assms(1,3) have "v_status (decide_record v r (rr_before res)
      (fst (confirmed v2 r (needs_proof v r (Inr p) (rr_before res)) p))) = Valid"
    by (auto simp: kernel_answer_def Let_def split: if_splits)
  from decide_record_valid [OF p this] show ?thesis .
qed

lemma kernel_refused:
  assumes "kernel_answer hs v v2 w w2 r res" "rc_refusal r = Some x"
  shows "v_status (rr_verdict res) = v_status x \<and> \<not> rr_evaluated res"
  using assms by (auto simp: kernel_answer_def admit_record_def Let_def)

lemma valid_basis_cong:
  assumes "same_basis u v"
  shows "valid_basis hs u r st = valid_basis hs v r st"
  by (simp only: valid_basis_def same_basis_facts [OF assms])

lemma admit_cong:
  assumes "same_basis u v"
  shows "admit_record hs u r = admit_record hs v r"
  by (simp only: admit_record_def same_basis_facts [OF assms])

lemma needs_proof_cong:
  assumes "same_basis u v"
  shows "needs_proof u r a b = needs_proof v r a b"
  by (simp only: needs_proof_def same_basis_facts [OF assms])

lemma kernel_answer_cong:
  assumes "same_basis u v" "kernel_answer hs u u2 w w2 r res"
  shows "kernel_answer hs v u2 w w2 r res"
  using assms(2)
  by (simp only: kernel_answer_def same_basis_facts [OF assms(1)] admit_cong [OF assms(1)] needs_proof_cong [OF assms(1)])

lemma settled_final:
  assumes "settled_slot i sl r c" "licensed_slot sl \<longrightarrow> v_status (ck_verdict c) = Valid"
    and "kernel_answer hs v v2 w w2 (if rr_evaluated (sl_result sl) then sl_record sl
      else (sl_record sl)\<lparr>rc_refusal := Some (rr_verdict (sl_result sl))\<rparr>) r"
    and "rr_evaluated (sl_result sl) \<longrightarrow> (\<exists>u u2 wa wb. same_basis v u
      \<and> kernel_answer hs u u2 wa wb (sl_record sl) (sl_result sl))"
  shows "final_answer hs v i sl c"
proof (cases "rr_evaluated (sl_result sl)")
  case False
  with kernel_refused [OF assms(3), of "rr_verdict (sl_result sl)"]
  have "v_status (rr_verdict r) = v_status (rr_verdict (sl_result sl))" by simp
  with False assms(1,2) show ?thesis
    by (cases "v_status (rr_verdict (sl_result sl)) = Stale")
      (auto simp: settled_slot_def final_answer_def Let_def)
next
  case True
  let ?p = "sl_result sl" and ?m = "fp_runtime_inputs (rc_recorded (sl_record sl))"
  have k: "kernel_answer hs v v2 w w2 (sl_record sl) r" using assms(3) True by simp
  have ev: "rr_evaluated r"
  proof -
    from assms(4) True obtain u u2 wa wb where "same_basis v u"
      "kernel_answer hs u u2 wa wb (sl_record sl) ?p" by blast
    with True obtain q where "admit_record hs v (sl_record sl) = Inr q"
      using admit_cong by (auto simp: kernel_answer_def split: sum.splits)
    with k show ?thesis by (auto simp: kernel_answer_def Let_def)
  qed
  have "v_status (rr_verdict ?p) \<noteq> Stale \<and> (\<exists>st. valid_basis hs v (sl_record sl) st
      \<and> (?m \<noteq> [] \<longrightarrow> rr_before ?p = st \<and> rr_after ?p = st))" if valid: "v_status (ck_verdict c) = Valid"
  proof -
    have ns: "v_status (rr_verdict ?p) \<noteq> Stale"
      using valid assms(1) by (auto simp: settled_slot_def)
    with valid assms(1) True have
      r: "v_status (rr_verdict r) = Valid" "?m \<noteq> [] \<longrightarrow> rr_before ?p = rr_before r \<and> rr_after ?p = rr_after r"
      by (auto simp: settled_slot_def split: if_splits)
    from k ev r(1) have "?m = [] \<or> rr_before r = rr_after r"
      by (auto simp: kernel_answer_def Let_def split: sum.splits if_splits)
    with kernel_valid_basis [OF k ev r(1)] r(2) ns show ?thesis by auto
  qed
  with True assms(1,2) show ?thesis unfolding settled_slot_def final_answer_def Let_def by blast
qed

lemma close_slots_ok:
  assumes "close_slots hs slots v w = (Inr (cs, None), v2, w2)"
    and "\<And>sl. sl \<in> set slots \<Longrightarrow> rr_evaluated (sl_result sl) \<Longrightarrow> \<exists>u u2 wa wb. same_basis v u
      \<and> kernel_answer hs u u2 wa wb (sl_record sl) (sl_result sl)"
  shows "same_basis v v2 \<and> length cs = length slots
    \<and> (\<forall>i<length slots. final_answer hs v i (slots ! i) (cs ! i))"
proof -
  from assms(1) obtain results v1 w1 where
    c: "check_records hs (close_records slots) True False v w = (Inr results, v1, w1)"
    and s: "settle_slots 0 (zip slots results) None v1 w1 = (Inr (cs, None), v2, w2)"
    by (auto simp: close_slots_def op_ok)
  note k = check_records_ok [OF c]
  have len: "length results = length slots"
    using k by (auto simp: close_records_def dest: list_all2_lengthD)
  note settled = settle_slots_ok [OF s len]
  have "final_answer hs v i (slots ! i) (cs ! i)" if i: "i < length slots" for i
  proof (rule settled_final)
    show "settled_slot i (slots ! i) (results ! i) (cs ! i)" using settled i by auto
    show "licensed_slot (slots ! i) \<longrightarrow> v_status (ck_verdict (cs ! i)) = Valid" using settled i by auto
    from k i show "kernel_answer hs v v1 w w1 (if rr_evaluated (sl_result (slots ! i)) then sl_record (slots ! i)
      else (sl_record (slots ! i))\<lparr>rc_refusal := Some (rr_verdict (sl_result (slots ! i)))\<rparr>) (results ! i)"
      using len by (auto simp: close_records_def list_all2_conv_all_nth)
  qed (use assms(2) i nth_mem in blast)
  with k settled show ?thesis by simp
qed

lemma close_check_ok:
  assumes "close_check hs slots v w = (Inr cs, v2, w2)"
    and "\<And>sl. sl \<in> set slots \<Longrightarrow> rr_evaluated (sl_result sl) \<Longrightarrow> \<exists>u u2 wa wb. same_basis v u
      \<and> kernel_answer hs u u2 wa wb (sl_record sl) (sl_result sl)"
  shows "length cs = length slots \<and> (\<forall>i<length slots. final_answer hs v i (slots ! i) (cs ! i))
    \<and> agreeing_pass v w \<and> (\<exists>w1. agreeing_pass v w1)"
proof -
  from assms(1) obtain current v1 w1 held current' w3 where
    n: "new_seeded_validation_view v w = (Inr current, v1, w1)"
    and r: "close_slots hs slots current w1 = (Inr (cs, held), current', w3)"
    and c: "\<exists>w4. close_reobservation current' held v1 w3 = (Inr (), v2, w4)"
    by (auto simp: close_check_def op_ok split: prod.splits)
  from c close_reobservation_ok have close: "held = None" "sn_cut_unavailable v1 = None" "agreeing_pass current' w3"
    by blast+
  from seeded_validation_ok [OF n] close(2) have v1: "current = seeded_view v" "v1 = v" "agreeing_pass v w"
    by auto
  have b: "same_basis (seeded_view v) v" by (rule same_basis_seeded)
  have "length cs = length slots \<and> same_basis (seeded_view v) current'
     \<and> (\<forall>i<length slots. final_answer hs (seeded_view v) i (slots ! i) (cs ! i))"
    using close_slots_ok [OF r [unfolded close(1) v1(1)]] assms(2) same_basis_trans [OF b] by blast
  moreover have "final_answer hs (seeded_view v) i sl c = final_answer hs v i sl c" for i sl c
    by (simp add: final_answer_def valid_basis_cong [OF b])
  moreover have "agreeing_pass v w3" if "same_basis (seeded_view v) current'"
    using agreeing_pass_cong [OF _ close(3)] that b same_basis_sym same_basis_trans by blast
  ultimately show ?thesis using v1(3) by blast
qed

section \<open>What reachable units hold\<close>

definition slot_sound :: "(string \<Rightarrow> string \<Rightarrow> bool) \<Rightarrow> snapshot \<Rightarrow> checking_slot \<Rightarrow> bool" where
  "slot_sound hs v0 sl \<longleftrightarrow> (\<exists>u u2 wa wb. same_basis v0 u
     \<and> kernel_answer hs u u2 wa wb (sl_record sl) (sl_result sl))"

text \<open>An extension's record: refused, or prepared from an earlier slot of the same subject.\<close>

definition licensed_by ::
    "go_syntax \<Rightarrow> snapshot \<Rightarrow> checking_slot list \<Rightarrow> record_check \<Rightarrow> tv_ledger \<Rightarrow> bool" where
  "licensed_by G v0 earlier r ledger \<longleftrightarrow> (case rc_refusal r of Some x \<Rightarrow> v_status x \<noteq> Valid
     | None \<Rightarrow> (\<exists>base\<in>set earlier. \<exists>prior l. rc_subject (sl_record base) = rc_subject r
         \<and> prepare_inert_extension G v0 (rc_recorded (sl_record base)) prior (rc_subject r)
           = Inr (Prepared (rc_recorded r) l) \<and> ledger = clone_ledger l))"

definition slots_sound ::
    "(string \<Rightarrow> string \<Rightarrow> bool) \<Rightarrow> go_syntax \<Rightarrow> snapshot \<Rightarrow> checking_slot list \<Rightarrow> bool" where
  "slots_sound hs G v0 slots \<longleftrightarrow> (\<forall>i<length slots. slot_sound hs v0 (slots ! i)
     \<and> (sl_extension (slots ! i) \<longrightarrow>
         licensed_by G v0 (take i slots) (sl_record (slots ! i)) (sl_ledger (slots ! i))))"

definition unit_sound ::
    "(string \<Rightarrow> string \<Rightarrow> bool) \<Rightarrow> go_syntax \<Rightarrow> snapshot \<Rightarrow> checking_unit \<Rightarrow> bool" where
  "unit_sound hs G v0 u \<longleftrightarrow> same_basis v0 (cu_view u) \<and> slots_sound hs G v0 (cu_slots u)
     \<and> (\<forall>ps. cu_pending u = Some ps \<longrightarrow> (\<forall>p\<in>set ps. pd_extension p \<longrightarrow>
         licensed_by G v0 (cu_slots u) (pd_record p) (pd_ledger p)))"

lemma prepare_inert_cong:
  assumes "same_basis u v"
  shows "prepare_inert_extension G u = prepare_inert_extension G v"
proof -
  have "test_variant_ledger u s = test_variant_ledger v s" for s
    using assms
    by (simp only: test_variant_ledger_def require_members_def same_basis_facts [OF assms])
      (simp add: same_basis_def)
  then show ?thesis
    by (intro ext) (simp only: prepare_inert_extension_def same_basis_facts [OF assms])
qed

lemma rejected_stale:
  "prepare_inert_extension G v rec prior s = Inr (Rejected x) \<Longrightarrow> v_status x = Stale"
  by (auto simp: prepare_inert_extension_def Let_def closure_strategy_verdict_def guard_verdict_def
      dest: recorded_evidence_stale split: if_split_asm option.splits sum.splits)

lemma extension_slot_licensed:
  assumes "extension_slot G v slots q = Inr p" "0 \<le> iq_index q" "iq_index q < int (length slots)"
  shows "pd_extension p \<and> licensed_by G v slots (pd_record p) (pd_ledger p)"
proof -
  let ?c = "rc_candidate (sl_record (slots ! nat (iq_index q)))"
  have mem: "slots ! nat (iq_index q) \<in> set slots" using assms(2,3) by simp
  from assms(1) consider
      x where "prepare_inert_extension G v (cd_recorded ?c) (iq_ledger q) (cd_subject ?c) = Inr (Rejected x)"
        "p = \<lparr>pd_record = \<lparr>rc_candidate = ?c, rc_observed = True, rc_refusal = Some x\<rparr>,
          pd_extension = True, pd_ledger = clone_ledger no_ledger\<rparr>"
    | d l where "prepare_inert_extension G v (cd_recorded ?c) (iq_ledger q) (cd_subject ?c) = Inr (Prepared d l)"
        "p = \<lparr>pd_record = \<lparr>rc_candidate = ?c\<lparr>cd_recorded := d\<rparr>, rc_observed = True, rc_refusal = None\<rparr>,
          pd_extension = True, pd_ledger = clone_ledger l\<rparr>"
    by (auto simp: extension_slot_def Let_def split: sum.splits prepared.splits)
  then show ?thesis
  proof cases
    case 1
    then show ?thesis using rejected_stale by (simp add: licensed_by_def)
  next
    case 2
    with mem show ?thesis by (auto simp: licensed_by_def)
  qed
qed

lemma extension_slots_licensed:
  "extension_slots G v slots qs = Inr ps \<Longrightarrow> \<forall>q\<in>set qs. \<not> outside_unit slots q
     \<Longrightarrow> \<forall>p\<in>set ps. pd_extension p \<and> licensed_by G v slots (pd_record p) (pd_ledger p)"
proof (induction qs arbitrary: ps)
  case (Cons q qs)
  then obtain p ps' where "extension_slot G v slots q = Inr p" "extension_slots G v slots qs = Inr ps'"
    "ps = p # ps'"
    by (auto split: sum.splits)
  with Cons extension_slot_licensed [of G v slots q p] show ?case by (auto simp: outside_unit_def)
qed simp

lemma find_none_all: "find P xs = None \<longleftrightarrow> (\<forall>x\<in>set xs. \<not> P x)"
  by (auto simp: find_None_iff)

lemma prepare_extensions_licensed:
  assumes "prepare_extensions G v slots qs = Inr ps" "p \<in> set ps"
  shows "licensed_by G v slots (pd_record p) (pd_ledger p)"
  using assms extension_slots_licensed [of G v slots qs ps]
  by (auto simp: prepare_extensions_def find_none_all split: option.splits)

lemma prepare_round_ordinary: "prepare_round v cs = Inr ps \<Longrightarrow> p \<in> set ps \<Longrightarrow> \<not> pd_extension p"
  by (auto simp: prepare_round_def split: option.splits)

lemma licensed_by_mono: "licensed_by G v slots r l \<Longrightarrow> set slots \<subseteq> set wider \<Longrightarrow> licensed_by G v wider r l"
  by (fastforce simp: licensed_by_def split: option.splits)

lemma licensed_by_cong: "same_basis u v \<Longrightarrow> licensed_by G u slots r l = licensed_by G v slots r l"
  by (simp only: licensed_by_def prepare_inert_cong)

lemma new_slots_sound:
  assumes "check_records hs (map pd_record ps) True False v w = (Inr results, v', w')"
    and "same_basis v0 v" "slots_sound hs G v0 slots"
    and "\<forall>p\<in>set ps. pd_extension p \<longrightarrow> licensed_by G v0 slots (pd_record p) (pd_ledger p)"
  shows "slots_sound hs G v0 (slots @ new_slots ps results)"
  unfolding slots_sound_def
proof (intro allI impI conjI)
  note k = check_records_ok [OF assms(1)]
  have len: "length results = length ps" using k by (auto dest: list_all2_lengthD)
  fix i assume i: "i < length (slots @ new_slots ps results)"
  show "slot_sound hs v0 ((slots @ new_slots ps results) ! i)"
  proof (cases "i < length slots")
    case False
    define j where "j = i - length slots"
    with False i len have j: "j < length ps" by (simp add: new_slots_def)
    have "kernel_answer hs v v' w w' (pd_record (ps ! j)) (results ! j)"
      using k j len by (auto simp: list_all2_conv_all_nth)
    moreover have "(slots @ new_slots ps results) ! i = \<lparr>sl_record = pd_record (ps ! j), sl_result = results ! j,
        sl_extension = pd_extension (ps ! j), sl_ledger = pd_ledger (ps ! j)\<rparr>"
      using False j len by (simp add: nth_append j_def new_slots_def)
    ultimately show ?thesis using assms(2) by (auto simp: slot_sound_def)
  qed (use assms(3) in \<open>simp add: nth_append slots_sound_def\<close>)
  assume ext: "sl_extension ((slots @ new_slots ps results) ! i)"
  show "licensed_by G v0 (take i (slots @ new_slots ps results)) (sl_record ((slots @ new_slots ps results) ! i))
      (sl_ledger ((slots @ new_slots ps results) ! i))"
  proof (cases "i < length slots")
    case True
    then show ?thesis using assms(3) ext by (simp add: nth_append slots_sound_def)
  next
    case False
    define j where "j = i - length slots"
    with False i len have j: "j < length ps" by (simp add: new_slots_def)
    then have "licensed_by G v0 slots (pd_record (ps ! j)) (pd_ledger (ps ! j))"
      using assms(4) ext False len nth_mem [OF j] by (auto simp: nth_append j_def new_slots_def)
    then show ?thesis
      using False j len licensed_by_mono by (fastforce simp: nth_append j_def new_slots_def)
  qed
qed

lemma check_step_sound:
  assumes "check_step hs G u e u'" "unit_sound hs G v0 u"
  shows "unit_sound hs G v0 u'"
proof -
  have basis: "same_basis v0 (cu_view u')"
    using check_step_below [OF assms(1)] assms(2) same_basis_trans
    by (auto simp: slots_below_def unit_sound_def)
  have b0: "same_basis v0 (cu_view u)" and s0: "slots_sound hs G v0 (cu_slots u)"
    and p0: "\<And>ps. cu_pending u = Some ps \<Longrightarrow> \<forall>p\<in>set ps. pd_extension p \<longrightarrow>
      licensed_by G v0 (cu_slots u) (pd_record p) (pd_ledger p)"
    using assms(2) by (auto simp: unit_sound_def)
  show ?thesis
    using assms(1)
  proof cases
    case (step_check cs)
    with start_round_ok [OF step_check(3)] prepare_round_ordinary basis s0 show ?thesis
      by (auto simp: unit_sound_def)
  next
    case (step_extend qs)
    with start_round_ok [OF step_extend(3)] prepare_extensions_licensed basis s0
      licensed_by_cong [OF b0] show ?thesis
      by (auto simp: unit_sound_def)
  next
    case (step_answer p w r v' w' caller cs)
    with commit_round_state [OF step_answer(4)] obtain results where
      "r = Inr results" "cu_slots u' = cu_slots u @ new_slots p results" "cu_pending u' = None" by auto
    with new_slots_sound [OF _ b0 s0 p0] step_answer basis show ?thesis by (simp add: unit_sound_def)
  next
    case (step_round_failed p w r v' w' caller e)
    with commit_round_state [OF step_round_failed(4)] basis s0 show ?thesis by (simp add: unit_sound_def)
  next
    case step_abort
    with basis s0 p0 show ?thesis by (simp add: unit_sound_def abort_unit_def)
  next
    case (step_close caller)
    with start_close_state [OF step_close(2)] basis s0 p0 show ?thesis by (simp add: unit_sound_def)
  next
    case (step_close_refused caller e)
    with start_close_state [OF step_close_refused(2)] basis s0 p0 show ?thesis by (simp add: unit_sound_def)
  next
    case (step_grant w r v' w' caller cs)
    with commit_close_state [OF step_grant(4)] basis s0 p0 show ?thesis by (simp add: unit_sound_def)
  next
    case (step_close_failed w r v' w' caller e)
    with commit_close_state [OF step_close_failed(4)] basis s0 p0 show ?thesis by (simp add: unit_sound_def)
  qed
qed

interpretation check_sound: step_invariant "check_step hs G" "unit_sound hs G v0"
  by unfold_locales (rule check_step_sound)

lemma begin_check_ok: "unit_wf (begin_check v)" "unit_sound hs G v (begin_check v)"
  "cu_phase (begin_check v) = UnitOpen"
  by (simp_all add: begin_check_def unit_wf_def unit_sound_def slots_sound_def)

section \<open>The unit's promises\<close>

text \<open>A failed round, an abort and every end of a close leave the unit ended.\<close>

definition ends_unit :: "check_event \<Rightarrow> bool" where
  "ends_unit e = (case e of RoundFailed _ \<Rightarrow> True | Aborted \<Rightarrow> True | CloseGranted _ \<Rightarrow> True
     | CloseFailed _ \<Rightarrow> True | _ \<Rightarrow> False)"

lemma check_step_ends:
  assumes "check_step hs G u e u'" "unit_wf u"
    and "ends_unit e"
  shows "ended (cu_phase u')"
  using assms(1)
proof cases
  case (step_round_failed p w r v' w' caller e')
  with assms(2) have ph: "cu_phase u \<noteq> UnitClosing" by (auto simp: unit_wf_def)
  have "\<exists>x. snd (finish_work caller (cu_phase u) (error_of r)) = Some x"
    using step_round_failed(4)
    by (cases "finish_work caller (cu_phase u) (error_of r)")
      (auto simp: commit_round_def Let_def finish_work_ok error_of_def split: option.splits sum.splits)
  with commit_round_state [OF step_round_failed(4)] ph show ?thesis
    by (cases "cu_phase u") (auto simp: finish_work_def ended_def split: option.splits if_splits)
next
  case step_abort
  then show ?thesis by (cases "cu_phase u") (auto simp: abort_unit_def abort_phase_def ended_def)
next
  case (step_grant w r v' w' caller cs)
  with commit_close_state [OF step_grant(4)] show ?thesis by (simp add: ended_def)
next
  case (step_close_failed w r v' w' caller e')
  have "\<exists>x. snd (finish_work caller (cu_phase u) (error_of r)) = Some x"
    using step_close_failed(4)
    by (cases "finish_work caller (cu_phase u) (error_of r)")
      (auto simp: commit_close_def Let_def finish_work_ok error_of_def split: option.splits sum.splits)
  with commit_close_state [OF step_close_failed(4)] step_close_failed(2) assms(2) show ?thesis
    by (cases "cu_phase u") (auto simp: unit_wf_def finish_work_def ended_def split: option.splits if_splits)
qed (use assms(3) in \<open>auto simp: ends_unit_def\<close>)

section \<open>A run of the example unit\<close>

definition no_outcomes :: "string \<Rightarrow> string \<Rightarrow> bool" where
  "no_outcomes m k = False"

definition example_verdict :: verdict where
  "example_verdict = decide_record example_view example_check (example_state ''m'') no_observation"

definition example_result :: record_result where
  "example_result = \<lparr>rr_verdict = judgment_for example_view example_subject example_verdict,
     rr_evaluated = True, rr_before = example_state ''m'', rr_after = example_state ''m'',
     rr_selected = False, rr_unavailable = None\<rparr>"

lemma example_endpoint:
  "observe_record_inputs [(observed_record, True)] v (world_at n)
     = (Inr [example_state ''m''], v, world_at (Suc (Suc (Suc (Suc (Suc n))))))"
  if "sn_root v = ''/r''"
  using that
  by (simp add: observe_record_inputs_def current_runtime_def world_at_ops op_then_def op_bind_def
    op_try_def op_return_def observed_record_def)

lemma example_verdict_valid: "v_status example_verdict = Valid"
  by (simp add: example_verdict_def example_check_decided)

lemma example_kernel_run:
  assumes b: "same_basis example_view v"
  shows "check_records no_outcomes [example_check] True False v (world_at n)
    = (Inr [example_result], v, world_at (n + 13))"
proof -
  have basis: "admit_record no_outcomes v example_check = Inr no_observation"
    "needs_proof v example_check x y = False" "sn_root v = ''/r''"
    "decide_record v example_check (example_state ''m'') no_observation = example_verdict"
    "judgment_for v = judgment_for example_view" for x y
    using admit_cong [OF b] needs_proof_cong [OF b] same_basis_facts [OF b] example_check_admitted
    by (simp_all add: example_verdict_def example_view_def)
  have prov: "provisional example_check (Inr no_observation) False (example_state ''m'') v w
      = (Inr example_verdict, v, w)" for w
    using basis(4) example_verdict_valid
    by (simp add: provisional_def with_moved_inputs_def confirmed_def op_eval)
  have fin: "finish_record False (example_check, Inr no_observation, False, example_verdict,
      example_state ''m'', example_state ''m'') v w = (Inr example_result, v, w)" for w
    using basis(5) by (simp add: finish_record_def runtime_motion_def op_eval confirmed_def
      evaluated_record_def example_result_def example_check_fields)
  show ?thesis
    using basis
    by (simp add: check_records_def world_at_ops op_then_def op_bind_def op_get_def op_return_def
      evaluated_record_def close_check_window_def Let_def first_seen_def ensure_observable_def
      prov fin example_check_fields example_endpoint eval_nat_numeral)
qed

definition example_pending :: pending_slot where
  "example_pending = \<lparr>pd_record = example_check, pd_extension = False, pd_ledger = no_ledger\<rparr>"

definition example_slot :: checking_slot where
  "example_slot = \<lparr>sl_record = example_check, sl_result = example_result, sl_extension = False,
     sl_ledger = no_ledger\<rparr>"

definition example_unit :: checking_unit where
  "example_unit = begin_check example_view\<lparr>cu_slots := [example_slot]\<rparr>"

lemma example_prepared: "prepare_round example_view [rc_candidate example_check] = Inr [example_pending]"
proof -
  have "prepare_candidates example_view [rc_candidate example_check] = None"
    using example_view_state(1)
    by (simp add: prepare_candidates_def validate_candidates_def shape_failures_def kind_failures_def
      example_check_def observed_record_def example_record_def no_fingerprint_def validate_fingerprint_def
      validate_recorded_kind_def valid_kind_def CodeResult_def no_applicability_def example_view_def
      example_guards_def)
  then show ?thesis by (simp add: prepare_round_def example_pending_def example_check_def)
qed

lemma example_round:
  "runs (check_step no_outcomes G) (begin_check example_view)
     [RoundStarted, RoundAnswered [slot_checked 0 example_slot]] example_unit"
proof (rule runs_two)
  let ?u = "(begin_check example_view)\<lparr>cu_pending := Some [example_pending]\<rparr>"
  show "check_step no_outcomes G (begin_check example_view) RoundStarted ?u"
    by (rule step_check [of _ "[rc_candidate example_check]"])
      (simp_all add: begin_check_def start_round_def example_prepared)
  show "check_step no_outcomes G ?u (RoundAnswered [slot_checked 0 example_slot]) example_unit"
  proof (rule step_answer [of _ "[example_pending]" _ "world_at 0"])
    show "check_records no_outcomes (map pd_record [example_pending]) True False (cu_view ?u) (world_at 0)
        = (Inr [example_result], example_view, world_at (0 + 13))"
      using example_kernel_run [OF same_basis_refl, of 0]
      by (simp add: example_pending_def begin_check_def)
    show "commit_round None [example_pending] (Inr [example_result]) (?u\<lparr>cu_view := example_view\<rparr>)
        = (Inr [slot_checked 0 example_slot], example_unit)"
      by (simp add: commit_round_def finish_work_def begin_check_def error_of_def checked_from_def
        new_slots_def example_unit_def example_slot_def example_pending_def)
  qed simp
qed

lemma example_settled:
  "settle_slots 0 [(example_slot, example_result)] None v w = (Inr ([slot_checked 0 example_slot], None), v, w)"
  using example_verdict_valid
  by (simp add: closing_verdict_def example_slot_def example_result_def runtime_motion_def op_eval
    licensed_slot_def Let_def)

lemma world_at_ctx: "ctx_check s (world_at n) = (Inr (), s, world_at (Suc n))"
  by (simp add: world_at_def example_world_def ctx_check_def op_eval)

lemma example_agrees:
  assumes "same_basis example_view v"
  shows "observe_view v (world_at n) = (Inr example_facts, v, world_at (Suc n))"
    "compare_observation_context example_facts v (world_at n) = (Inr (), v, world_at (n + 4))"
    "reobserve_base v (world_at n) = (Inr (), v, world_at (n + 5))"
proof -
  have b: "sn_runtime v = None" "facts_of v = example_facts" "sn_subjects v = [example_subject]"
    "snapshot_guards v = of_guards example_facts"
    using same_basis_facts [OF assms] assms
    by (simp_all add: same_basis_def example_view_def snapshot_guards_def facts_of_def)
  show o: "observe_view v (world_at n) = (Inr example_facts, v, world_at (Suc n))" for n
    by (simp add: observe_view_def b op_eval world_at_def example_world_def)
  show c: "compare_observation_context example_facts v (world_at n) = (Inr (), v, world_at (n + 4))" for n
    by (simp add: compare_observation_context_def b compare_observations_def compare_subject_def op_on_def
      op_then_def op_bind_def world_at_ctx op_get_def op_return_def facts_equal_full example_facts_def
      no_facts_def eval_nat_numeral)
  show "reobserve_base v (world_at n) = (Inr (), v, world_at (n + 5))"
    by (simp add: reobserve_base_def op_bind_def o c add.commute)
qed

lemma example_close:
  "\<exists>w. close_check no_outcomes [example_slot] example_view (world_at n)
     = (Inr [slot_checked 0 example_slot], example_view, w)"
proof -
  have b: "same_basis example_view (seeded_view example_view)"
    using same_basis_sym [OF same_basis_seeded] .
  have seeded: "new_seeded_validation_view example_view (world_at n)
      = (Inr (seeded_view example_view), example_view, world_at (Suc (Suc n + 4)))"
    by (simp add: new_seeded_validation_view_def op_bind_def op_then_def example_agrees op_try_def
      hold_cut_unavailable_def world_at_ops op_get_def op_return_def)
  have "close_slots no_outcomes [example_slot] (seeded_view example_view) (world_at k)
      = (Inr ([slot_checked 0 example_slot], None), seeded_view example_view, world_at (k + 13))" for k
  proof -
    have "close_records [example_slot] = [example_check]"
      by (simp add: close_records_def example_slot_def example_result_def)
    with example_kernel_run [OF b, of k] show ?thesis
      by (simp add: close_slots_def op_bind_def example_settled del: settle_slots.simps)
  qed
  moreover have "sn_cut_unavailable example_view = None" by (simp add: example_view_def)
  ultimately show ?thesis
    by (simp add: close_check_def op_bind_def op_run_def seeded close_reobservation_def op_lift_def
      op_then_def example_agrees(3) [OF b] error_of_def defer_unavailability_def resolve_unavailable_def
      op_get_def report_held_def op_return_def world_at_ops)
qed

lemma example_granted:
  "\<exists>u. runs (check_step no_outcomes G) (begin_check example_view)
     ([RoundStarted, RoundAnswered [slot_checked 0 example_slot], CloseStarted]
       @ [CloseGranted [slot_checked 0 example_slot]]) u \<and> cu_slots u = [example_slot]"
proof -
  let ?c = "example_unit\<lparr>cu_phase := UnitClosing, cu_closing := True\<rparr>"
  have "check_step no_outcomes G example_unit CloseStarted ?c"
    by (rule step_close [of None]) (simp add: start_close_def example_unit_def begin_check_def)
  from runs_snoc [OF example_round this] have r: "runs (check_step no_outcomes G) (begin_check example_view)
     [RoundStarted, RoundAnswered [slot_checked 0 example_slot], CloseStarted] ?c" by simp
  from example_close obtain w where c: "close_check no_outcomes (cu_slots ?c) (cu_view ?c) (world_at 0)
     = (Inr [slot_checked 0 example_slot], example_view, w)"
    by (auto simp: example_unit_def begin_check_def)
  obtain u where u: "commit_close None (Inr [slot_checked 0 example_slot]) (?c\<lparr>cu_view := example_view\<rparr>)
     = (Inr [slot_checked 0 example_slot], u)" "cu_slots u = [example_slot]"
    by (simp add: commit_close_def finish_work_def error_of_def example_unit_def begin_check_def)
  from step_grant [OF _ c u(1)] have "check_step no_outcomes G ?c (CloseGranted [slot_checked 0 example_slot]) u"
    by simp
  from runs_snoc [OF r this] u(2) show ?thesis by auto
qed

text \<open>
  C22: Slot indices are stable. Whatever rounds, extensions, aborts and closings follow, the
  slot a round's answer named still holds exactly that answer, and slots are only appended.
\<close>

theorem checking_indices_stable:
  assumes "runs (check_step hs G) (begin_check v) es u" "RoundAnswered cs \<in> set es" "c \<in> set cs"
  shows "ck_index c < length (cu_slots u) \<and> slot_checked (ck_index c) (cu_slots u ! ck_index c) = c"
proof -
  from runs_event [OF assms(1,2)] obtain fs gs t t' where
    "check_step hs G t (RoundAnswered cs) t'" and after: "runs (check_step hs G) t' gs u" by blast
  then obtain p w r v' w' caller where "commit_round caller p r (t\<lparr>cu_view := v'\<rparr>) = (Inr cs, t')"
    by (auto elim: answerE)
  from commit_round_state [OF this] obtain news where
    slots: "cu_slots t' = cu_slots t @ news" "cs = checked_from (length (cu_slots t)) news" by auto
  from check_slots.runs_below [OF after] obtain later_slots where
    "cu_slots u = cu_slots t @ news @ later_slots" using slots by (auto simp: slots_below_def)
  moreover from assms(3) slots(2) obtain j where
    "j < length news" "c = slot_checked (length (cu_slots t) + j) (news ! j)"
    by (auto simp: checked_from_def in_set_conv_nth)
  moreover from this have "ck_index c = length (cu_slots t) + j" by (simp add: slot_checked_def)
  ultimately show ?thesis by (simp add: nth_append)
qed

theorem checking_indices_stable_witness:
  "\<exists>u c. runs (check_step no_outcomes example_syntax) (begin_check example_view)
      [RoundStarted, RoundAnswered [c]] u \<and> slot_checked (ck_index c) (cu_slots u ! ck_index c) = c"
  using example_round [of example_syntax]
    checking_indices_stable [OF example_round, of "[slot_checked 0 example_slot]" "slot_checked 0 example_slot"]
  by fastforce

text \<open>
  C21: A unit grants final answers at most once, a unit that granted is closed, and nothing is
  granted after an abort, after a failure or after a refused close.
\<close>

theorem checking_grants_once:
  assumes "runs (check_step hs G) (begin_check v) (es @ e # fs) u"
  shows "length (filter grants_answers (es @ e # fs)) \<le> 1
    \<and> (filter grants_answers (es @ e # fs) \<noteq> [] \<longrightarrow> cu_phase u = UnitClosed)
    \<and> (ends_unit e \<longrightarrow> filter grants_answers fs = [])"
proof -
  from runs_split [of "check_step hs G" _ "es @ [e]" fs u] assms obtain t where
    pre: "runs (check_step hs G) (begin_check v) (es @ [e]) t" and post: "runs (check_step hs G) t fs u"
    by auto
  from runs_snocD [OF pre] obtain s where s: "runs (check_step hs G) (begin_check v) es s"
    "check_step hs G s e t" by blast
  have wf: "unit_wf s" "unit_wf t"
    using check_life.runs_keep [OF s(1)] check_life.runs_keep [OF pre] begin_check_ok by auto
  have "ended (cu_phase t)" if "ends_unit e"
    using s(2) that wf check_step_ends by blast
  with check_life.ended_grants_nothing [OF post wf(2)]
    check_life.grants_once [OF assms begin_check_ok(1)] begin_check_ok(3)
  show ?thesis by (auto simp: filter_empty_conv)
qed

theorem checking_grants_once_witness:
  "\<exists>u cs. runs (check_step no_outcomes example_syntax) (begin_check example_view)
      ([RoundStarted, RoundAnswered cs, CloseStarted] @ CloseGranted cs # []) u \<and> cu_phase u = UnitClosed"
proof -
  from example_granted obtain u where "runs (check_step no_outcomes example_syntax) (begin_check example_view)
     ([RoundStarted, RoundAnswered [slot_checked 0 example_slot], CloseStarted]
       @ CloseGranted [slot_checked 0 example_slot] # []) u" by blast
  with checking_grants_once [OF this] show ?thesis by (auto simp: grants_answers_def)
qed

lemma granted_answers:
  assumes "runs (check_step hs G) (begin_check v) (es @ [CloseGranted cs]) u"
  shows "length cs = length (cu_slots u) \<and> (\<exists>w. agreeing_pass v w)
    \<and> (\<forall>i<length cs. final_answer hs v i (cu_slots u ! i) (cs ! i)
        \<and> (sl_extension (cu_slots u ! i) \<longrightarrow> licensed_by G v (take i (cu_slots u))
            (sl_record (cu_slots u ! i)) (sl_ledger (cu_slots u ! i))))"
proof -
  from runs_snocD [OF assms] obtain t where
    pre: "runs (check_step hs G) (begin_check v) es t" and st: "check_step hs G t (CloseGranted cs) u" by blast
  from check_sound.runs_keep [OF pre] begin_check_ok have sound: "unit_sound hs G v t" by blast
  from st obtain w r v' w' caller where
    c: "close_check hs (cu_slots t) (cu_view t) w = (r, v', w')"
    and m: "commit_close caller r (t\<lparr>cu_view := v'\<rparr>) = (Inr cs, u)" by (auto elim: grantE)
  from commit_close_state [OF m] have r: "r = Inr cs" and slots: "cu_slots u = cu_slots t" by auto
  have b: "same_basis v (cu_view t)" using sound by (simp add: unit_sound_def)
  have "\<exists>x u2 wa wb. same_basis (cu_view t) x \<and> kernel_answer hs x u2 wa wb (sl_record sl) (sl_result sl)"
    if "sl \<in> set (cu_slots t)" for sl
  proof -
    from that sound obtain x u2 wa wb where "same_basis v x" "kernel_answer hs x u2 wa wb (sl_record sl) (sl_result sl)"
      by (auto simp: unit_sound_def slots_sound_def slot_sound_def in_set_conv_nth)
    with same_basis_trans [OF same_basis_sym [OF b]] show ?thesis by blast
  qed
  with close_check_ok [OF c [unfolded r]] have
    ok: "length cs = length (cu_slots t)" "\<forall>i<length (cu_slots t). final_answer hs (cu_view t) i (cu_slots t ! i) (cs ! i)"
    "agreeing_pass (cu_view t) w" by blast+
  have "final_answer hs (cu_view t) i sl c = final_answer hs v i sl c" for i sl c
    by (simp only: final_answer_def valid_basis_cong [OF b])
  with ok slots sound agreeing_pass_cong [OF same_basis_sym [OF b] ok(3)] show ?thesis
    by (auto simp: unit_sound_def slots_sound_def)
qed



end
