(* ===== verification/Producer_Facade.thy ===== *)
theory Producer_Facade
  imports Classification_Roots Observation_Merge Go_Quote
begin

text \<open>
  The producer facade (runtimeinput/producer.go): the frame captured before a process starts, the
  completion receipt, and the ingest of one process's capture under the frame, which fails closed
  to an incomplete observation at every shape that does not complete. The file system, the go
  command, the bracket's capture and the classification of a log are fields of a harness. The
  lemmas show what a completed observation rests on, and that every other answer carries nothing
  but its reason.
\<close>

section \<open>Operations under a context\<close>

text \<open>
  The context answers each of its checks in turn. A check after a group of reads stands for the
  checks between them, since a cancelled context stays cancelled.
\<close>

type_synonym 'a timed = "checks \<Rightarrow> nat \<Rightarrow> (observation_error + 'a) \<times> nat"

definition timed_return :: "'a \<Rightarrow> 'a timed" where
  "timed_return x cx k = (Inr x, k)"

definition timed_fail :: "observation_error \<Rightarrow> 'a timed" where
  "timed_fail e cx k = (Inl e, k)"

definition timed_bind :: "'a timed \<Rightarrow> ('a \<Rightarrow> 'b timed) \<Rightarrow> 'b timed" where
  "timed_bind m f cx k = (case m cx k of (Inl e, j) \<Rightarrow> (Inl e, j) | (Inr x, j) \<Rightarrow> f x cx j)"

definition live :: "'a timed \<Rightarrow> 'a timed" where
  "live m cx k = (case cx k of Some c \<Rightarrow> (Inl (BadState (Cancelled c)), Suc k) | None \<Rightarrow> m cx (Suc k))"

lemma timed_bind_ok: "fst (timed_bind m f cx k) = Inr y \<longleftrightarrow>
    (\<exists>x j. m cx k = (Inr x, j) \<and> fst (f x cx j) = Inr y)"
  by (auto simp: timed_bind_def split: prod.splits sum.splits)

lemma timed_return_ok: "fst (timed_return x cx k) = Inr y \<longleftrightarrow> y = x"
  by (auto simp: timed_return_def)

lemma timed_fail_ok [simp]: "fst (timed_fail e cx k) \<noteq> Inr y"
  by (simp add: timed_fail_def)

lemma live_ok: "fst (live m cx k) = Inr y \<longleftrightarrow> cx k = None \<and> fst (m cx (Suc k)) = Inr y"
  by (simp add: live_def split: option.split)

lemmas timed_ok = timed_bind_ok timed_return_ok live_ok

section \<open>Frames\<close>

text \<open>A bracket is what its capture answered; its content is not read here.\<close>

record 'b producer_frame =
  fr_root :: string
  fr_pkg_dir :: string
  fr_pkg_rel :: string
  fr_bracket :: "'b option"
  fr_reason :: string
  fr_span :: "nat option"

definition no_frame :: "'b producer_frame" where
  "no_frame = \<lparr>fr_root = [], fr_pkg_dir = [], fr_pkg_rel = [], fr_bracket = None, fr_reason = [], fr_span = None\<rparr>"

definition refused_frame :: "string \<Rightarrow> 'b producer_frame" where
  "refused_frame reason = no_frame\<lparr>fr_reason := reason\<rparr>"

record frame_options =
  fo_bracket_paths :: "string list"
  fo_excluded_paths :: "string list"

text \<open>CaptureProducerFrame: symbolic links, the bracket's capture and a fresh span are answered.\<close>

definition capture_frame ::
    "(string \<Rightarrow> string + string) \<Rightarrow> (string \<Rightarrow> string list \<Rightarrow> string list \<Rightarrow> string + 'b) \<Rightarrow> nat
      \<Rightarrow> string \<Rightarrow> string \<Rightarrow> frame_options \<Rightarrow> 'b producer_frame" where
  "capture_frame links capture span tree_root pkg_dir opts = (case links tree_root of
      Inl e \<Rightarrow> refused_frame (''observation bracket capture failed: '' @ e)
    | Inr root \<Rightarrow> (case links pkg_dir of
        Inl e \<Rightarrow> refused_frame (''observation bracket capture failed: '' @ e)
      | Inr resolved \<Rightarrow>
          (let outside = refused_frame (''package directory '' @ pkg_dir
             @ '' lies outside the tree; no observation bracket can cover it'')
           in case path_rel root resolved of None \<Rightarrow> outside
            | Some rel \<Rightarrow> if rel = dotdot \<or> has_prefix rel ''../'' then outside
                else (case capture root (rel # fo_bracket_paths opts) (''.git'' # fo_excluded_paths opts) of
                    Inl e \<Rightarrow> refused_frame (''observation bracket capture failed: '' @ e)
                  | Inr bracket \<Rightarrow> \<lparr>fr_root = root, fr_pkg_dir = resolved, fr_pkg_rel = rel,
                      fr_bracket = Some bracket, fr_reason = [], fr_span = Some span\<rparr>))))"

section \<open>Completion\<close>

record receipt =
  cr_binding :: binding
  cr_reason :: string

definition outcome_binding :: "platform \<Rightarrow> 'b producer_frame \<Rightarrow> string \<Rightarrow> string list \<Rightarrow> observation_error + binding" where
  "outcome_binding P f process env =
     (if \<not> line_text process then Inl (InvalidProcess process)
      else bind_res (manifest_step (normalize_environment P env)) (\<lambda>n.
        Inr (bind_execution (fr_span f) process (sha256_hex (join_with [nul] n)) (fr_root f) (fr_pkg_dir f))))"

definition completion :: "platform \<Rightarrow> 'b producer_frame \<Rightarrow> string \<Rightarrow> string list \<Rightarrow> string \<Rightarrow> observation_error + receipt" where
  "completion P f process env reason = bind_res (outcome_binding P f process env) (\<lambda>b.
     Inr \<lparr>cr_binding = b, cr_reason = reason\<rparr>)"

text \<open>HasOutcomeSupport.\<close>

definition has_outcome_support :: "string \<Rightarrow> string \<Rightarrow> bool" where
  "has_outcome_support encoded s = (case decode_manifest encoded of
      Inl e \<Rightarrow> False | Inr m \<Rightarrow> s \<in> set (mn_subjects m))"

section \<open>Ingest\<close>

record ingest =
  in_identity :: string
  in_env :: "string list"
  in_completion :: receipt
  in_outcome :: support
  in_scratch_root :: string
  in_excluded :: "string list"
  in_namespaces :: "(string \<times> string) list"

record 'b log_options =
  lo_process :: string
  lo_bracket :: 'b
  lo_subjects :: "string list"
  lo_excluded :: "string list"
  lo_toolchain :: string
  lo_module_cache :: string
  lo_build_cache :: string
  lo_ephemeral :: "string list"
  lo_namespaces :: "(string \<times> string) list"

datatype log_answer = LogMissing | LogUnopened string | LogUnread string | LogText string

text \<open>
  What the facade asks of the rest: the capture file, the links of a path, the go command's roots
  for the package directory and environment, the classification of a log (fromTestLog), the
  inputs of a manifest, and how an error prints.
\<close>

record 'b harness =
  hn_log :: "string \<Rightarrow> log_answer"
  hn_links :: "string \<Rightarrow> string + string"
  hn_resolve :: "string \<Rightarrow> string"
  hn_go_env :: "string \<Rightarrow> string list \<Rightarrow> string + (string \<rightharpoonup> string)"
  hn_classify :: "'b log_options \<Rightarrow> string \<Rightarrow> string list \<Rightarrow> string + observation"
  hn_reader :: path_reader
  hn_print :: printable_runes
  hn_error :: "observation_error \<Rightarrow> string"

definition testlog_header :: string where
  "testlog_header = ''# test log'' @ [newline]"

definition completion_premise :: "platform \<Rightarrow> 'b harness \<Rightarrow> 'b producer_frame \<Rightarrow> ingest \<Rightarrow> binding \<times> string" where
  "completion_premise P h f req =
     (if cr_binding (in_completion req) = no_binding then (no_binding, ''process completion receipt unavailable'')
      else (case outcome_binding P f (in_identity req) (in_env req) of
          Inl e \<Rightarrow> (no_binding, ''process binding invalid: '' @ hn_error h e)
        | Inr b \<Rightarrow>
            if cr_binding (in_completion req) \<noteq> b
            then (no_binding, ''process completion receipt belongs to a different execution or environment'')
            else if cr_reason (in_completion req) \<noteq> [] then (no_binding, cr_reason (in_completion req))
            else (b, [])))"

text \<open>incomplete: the checks of incompleteContext, then one more.\<close>

definition fail_closed :: "platform \<Rightarrow> 'b harness \<Rightarrow> 'b producer_frame \<Rightarrow> ingest \<Rightarrow> string \<Rightarrow> (observation \<times> string) timed" where
  "fail_closed P h f req reason = live (\<lambda>cx k.
     (let r = incomplete_observation P (fr_root f) (hn_reader h) (\<lambda>i. cx (k + i)) (in_identity req) reason (in_env req)
      in live (case r of Inl e \<Rightarrow> timed_fail e | Inr ob \<Rightarrow> timed_return (ob, reason)) cx (k + 3)))"

definition read_log :: "'b harness \<Rightarrow> string \<Rightarrow> (string \<times> string) timed" where
  "read_log h path = live
     (if path = [] then timed_return ([], ''testlog capture unavailable: no capture file was attached to the process'')
      else live (case hn_log h path of
          LogMissing \<Rightarrow> timed_return ([], ''test process produced no runtime-input log'')
        | LogUnopened e \<Rightarrow> timed_return ([], ''testlog capture unreadable: '' @ go_quote (hn_print h) e)
        | LogUnread e \<Rightarrow> live (timed_return ([], ''testlog capture unreadable: '' @ go_quote (hn_print h) e))
        | LogText log \<Rightarrow> live (timed_return
            (if \<not> has_prefix log testlog_header
             then ([], ''capture file carries no test-log header; the test binary never opened it'')
             else (log, [])))))"

definition admitted_line :: "string \<Rightarrow> bool" where
  "admitted_line line \<longleftrightarrow> line = [] \<or> line = ''# test log'' \<or> has_prefix line ''getenv ''"

fun environment_lines :: "string list \<Rightarrow> bool timed" where
  "environment_lines [] = timed_return True"
| "environment_lines (line # lines) = live
     (if admitted_line line then environment_lines lines else timed_return False)"

definition environment_log :: "string \<Rightarrow> bool timed" where
  "environment_log log = live (environment_lines (split_byte newline log))"

definition producer_pwd_problem :: "platform \<Rightarrow> 'b harness \<Rightarrow> string \<Rightarrow> string list \<Rightarrow> string" where
  "producer_pwd_problem P h pkg_dir env = (case lookup_env P env ''PWD'' of
      None \<Rightarrow> ''process environment carries no PWD; cwd-anchored reads cannot classify under the frame''
    | Some pwd \<Rightarrow>
        if pwd = [] then ''process environment carries no PWD; cwd-anchored reads cannot classify under the frame''
        else if pwd \<noteq> pkg_dir \<and> hn_links h pwd \<noteq> Inr pkg_dir
        then ''process environment PWD '' @ go_quote (hn_print h) pwd @ '' does not name the package directory ''
          @ pkg_dir @ '' the frame was captured for''
        else [])"

definition classification_options ::
    "'b harness \<Rightarrow> 'b producer_frame \<Rightarrow> 'b \<Rightarrow> resolved_roots \<Rightarrow> ingest \<Rightarrow> 'b log_options" where
  "classification_options h f bracket roots req = \<lparr>lo_process = in_identity req, lo_bracket = bracket,
     lo_subjects = support_subjects (in_outcome req), lo_excluded = ''.'' # ''.git'' # in_excluded req,
     lo_toolchain = rr_toolchain roots, lo_module_cache = rr_module_cache roots, lo_build_cache = rr_build_cache roots,
     lo_ephemeral = ephemeral_roots (hn_resolve h) roots (in_scratch_root req) (fr_root f),
     lo_namespaces = in_namespaces req\<rparr>"

definition capture_bytes ::
    "platform \<Rightarrow> 'b harness \<Rightarrow> 'b producer_frame \<Rightarrow> string \<Rightarrow> ingest \<Rightarrow> (observation \<times> string) timed" where
  "capture_bytes P h f log req = live (case fr_bracket f of
      None \<Rightarrow> fail_closed P h f req
        (if fr_reason f = [] then ''no observation bracket was captured'' else fr_reason f)
    | Some bracket \<Rightarrow> (case normalize_environment P (in_env req) of
        Inl e \<Rightarrow> timed_fail (BadState e)
      | Inr n \<Rightarrow>
          if producer_pwd_problem P h (fr_pkg_dir f) n \<noteq> []
          then fail_closed P h f req (producer_pwd_problem P h (fr_pkg_dir f) n)
          else (case resolve_roots P (hn_resolve h) (hn_go_env h (fr_pkg_dir f) n) (fr_root f) n of
              Inl e \<Rightarrow> live (fail_closed P h f req
                (''classification roots unresolved under the process environment: '' @ e))
            | Inr roots \<Rightarrow> live (case hn_classify h (classification_options h f bracket roots req) log (in_env req) of
                  Inl e \<Rightarrow> fail_closed P h f req (''testlog ingestion failed: '' @ e)
                | Inr ob \<Rightarrow> timed_return (ob, [])))))"

definition observe_lines ::
    "platform \<Rightarrow> 'b harness \<Rightarrow> 'b producer_frame \<Rightarrow> bool \<Rightarrow> ingest \<Rightarrow> string \<Rightarrow> (observation \<times> string) timed" where
  "observe_lines P h f need req log =
     timed_bind (if need then environment_log log else timed_return True) (\<lambda>allowed.
       if \<not> allowed
       then fail_closed P h f req ''operation-outcome support does not cover the captured operations''
       else timed_bind (capture_bytes P h f log req) (\<lambda>(ob, why).
         if why \<noteq> [] then timed_return (ob, why) else live (timed_return (ob, []))))"

definition observe_log ::
    "platform \<Rightarrow> 'b harness \<Rightarrow> 'b producer_frame \<Rightarrow> string \<Rightarrow> bool \<Rightarrow> ingest \<Rightarrow> (observation \<times> string) timed" where
  "observe_log P h f path need req = timed_bind (read_log h path) (\<lambda>(log, unread).
     if unread \<noteq> [] then fail_closed P h f req unread else observe_lines P h f need req log)"

text \<open>observe: Observe requires outcomes, ObserveInputs drops the support it was given.\<close>

definition observe_process ::
    "platform \<Rightarrow> 'b harness \<Rightarrow> 'b producer_frame \<Rightarrow> string \<Rightarrow> ingest \<Rightarrow> bool \<Rightarrow> (observation \<times> string) timed" where
  "observe_process P h f path given need = live
     (case completion_premise P h f given of (b, premise) \<Rightarrow>
      (let reason = (if premise = [] \<and> need then support_reason (in_outcome given) b else premise);
           req = (if need then given else given\<lparr>in_outcome := no_support\<rparr>)
       in if reason \<noteq> [] then fail_closed P h f req reason else observe_log P h f path need req))"

section \<open>What an incomplete observation says\<close>

lemma reason_encodes: "encode_manifest (reason_manifest r) = Inr s \<longleftrightarrow>
    validate_manifest (reason_manifest r) = None \<and> s = rt_manifest (reason_state r)"
  by (auto simp: encode_manifest_ok reason_valid(1) reason_state_def)

lemma reason_line: "validate_manifest (reason_manifest r) = None \<Longrightarrow> line_text r"
  using validate_manifest_ok(6) [of "reason_manifest r" r] by (simp add: reason_manifest_def)

lemma reason_current:
  assumes "line_text r" "current_normalized P root reader cx k n (rt_manifest (reason_state r)) = Inr st"
  shows "st = reason_state r"
proof -
  from current_decodes [OF assms(2)] reason_evaluates(1) [OF assms(1)]
  have s: "state_from_manifest P root reader cx (Suc k) n (reason_manifest r) = Inr st" by simp
  have "mn_env (reason_manifest r) = []" "mn_paths (reason_manifest r) = []"
    by (simp_all add: reason_manifest_def empty_manifest_def)
  with s have "finalize_state (reason_manifest r) False [] = Inr st"
    by (auto simp: state_from_manifest_def populate_digests_def Let_def reason_valid(1) bind_res_Inr_iff live_then_ok)
      (simp add: reason_manifest_def empty_manifest_def)
  moreover have "finalize_state (reason_manifest r) False [] = Inr (reason_state r)"
    using reason_valid(2) [OF assms(1)] assms(1)
    by (simp add: finalize_state_def Let_def reason_valid(1) encode_manifest_ok [THEN iffD2])
      (simp add: reason_state_def reason_manifest_def empty_manifest_def first_reason_def line_text_def)
  ultimately show ?thesis by simp
qed

lemma incomplete_is_killed:
  assumes "incomplete_observation P root reader cx process reason env = Inr ob"
  shows "ob = killed process reason" "line_text process" "line_text reason"
proof -
  from assms obtain n s st where p: "line_text process" and e: "encode_manifest (reason_manifest reason) = Inr s"
    and c: "current_normalized P root reader cx 1 n s = Inr st" and ob: "ob = new_observation st process ''incomplete''"
    by (auto simp: incomplete_observation_def bind_res_Inr_iff manifest_step_def split: option.splits if_splits sum.splits)
  from e have v: "validate_manifest (reason_manifest reason) = None" "s = rt_manifest (reason_state reason)"
    by (simp_all add: reason_encodes)
  from reason_line [OF v(1)] show l: "line_text reason" .
  from reason_current [OF l c [unfolded v(2)]] ob show "ob = killed process reason" by (simp add: killed_def)
  show "line_text process" by (rule p)
qed

lemma killed_unsupported:
  assumes "line_text process" "line_text reason"
  shows "\<not> has_outcome_support (rt_manifest (ob_state (killed process reason))) s"
  using reason_evaluates(1) [OF assms(2)]
  by (simp add: has_outcome_support_def killed_def new_observation_def Let_def seal_observation_def)
    (simp add: reason_manifest_def empty_manifest_def)

lemma fail_closed_killed:
  assumes "fst (fail_closed P h f req reason cx k) = Inr (ob, why)"
  shows "why = reason \<and> ob = killed (in_identity req) reason \<and> line_text (in_identity req) \<and> line_text reason"
proof -
  from assms have i: "incomplete_observation P (fr_root f) (hn_reader h) (\<lambda>i. cx (Suc k + i)) (in_identity req) reason (in_env req) = Inr ob"
    and w: "why = reason"
    by (auto simp: fail_closed_def Let_def live_ok timed_return_ok split: sum.splits)
  from incomplete_is_killed [OF i] w show ?thesis by simp
qed

lemma live_bindE:
  assumes "fst (timed_bind m f cx k) = Inr y"
  obtains x j where "m cx k = (Inr x, j)" "fst (f x cx j) = Inr y"
  using assms by (auto simp: timed_bind_ok)

text \<open>Every answer of the ingest is a closed failure or a classified log.\<close>

lemma capture_bytes_ok:
  assumes "fst (capture_bytes P h f log req cx k) = Inr (ob, why)"
  shows "(\<exists>cx' k'. fst (fail_closed P h f req why cx' k') = Inr (ob, why) \<and> why \<noteq> [])
    \<or> why = [] \<and> (\<exists>bracket n roots. fr_bracket f = Some bracket \<and> normalize_environment P (in_env req) = Inr n
        \<and> producer_pwd_problem P h (fr_pkg_dir f) n = []
        \<and> resolve_roots P (hn_resolve h) (hn_go_env h (fr_pkg_dir f) n) (fr_root f) n = Inr roots
        \<and> hn_classify h (classification_options h f bracket roots req) log (in_env req) = Inr ob)"
proof -
  have fc: "fst (fail_closed P h f req r cx j) = Inr (ob, why) \<Longrightarrow> r \<noteq> [] \<Longrightarrow>
      \<exists>cx' k'. fst (fail_closed P h f req why cx' k') = Inr (ob, why) \<and> why \<noteq> []" for r j
    using fail_closed_killed by metis
  show ?thesis
  proof (cases "fr_bracket f")
    case None
    with assms have "fst (fail_closed P h f req (if fr_reason f = [] then ''no observation bracket was captured'' else fr_reason f)
        cx (Suc k)) = Inr (ob, why)" by (simp add: capture_bytes_def live_ok)
    from fc [OF this] show ?thesis by (simp split: if_splits)
  next
    case (Some bracket)
    with assms obtain n where n: "normalize_environment P (in_env req) = Inr n"
      by (cases "normalize_environment P (in_env req)") (simp_all add: capture_bytes_def live_ok)
    show ?thesis
    proof (cases "producer_pwd_problem P h (fr_pkg_dir f) n = []")
      case False
      with assms Some n have "fst (fail_closed P h f req (producer_pwd_problem P h (fr_pkg_dir f) n) cx (Suc k)) = Inr (ob, why)"
        by (simp add: capture_bytes_def live_ok)
      from fc [OF this False] show ?thesis by blast
    next
      case True
      show ?thesis
      proof (cases "resolve_roots P (hn_resolve h) (hn_go_env h (fr_pkg_dir f) n) (fr_root f) n")
        case (Inl e)
        with assms Some n True have "fst (fail_closed P h f req
            (''classification roots unresolved under the process environment: '' @ e) cx (Suc (Suc k))) = Inr (ob, why)"
          by (simp add: capture_bytes_def live_ok)
        from fc [OF this] show ?thesis by simp
      next
        case (Inr roots)
        show ?thesis
        proof (cases "hn_classify h (classification_options h f bracket roots req) log (in_env req)")
          case (Inl e)
          with assms Some n True Inr have "fst (fail_closed P h f req (''testlog ingestion failed: '' @ e) cx (Suc (Suc k))) = Inr (ob, why)"
            by (simp add: capture_bytes_def live_ok)
          from fc [OF this] show ?thesis by simp
        next
          case (Inr ob2)
          with assms Some n True \<open>resolve_roots _ _ _ _ _ = _\<close> have "why = [] \<and> ob2 = ob"
            by (simp add: capture_bytes_def live_ok timed_return_ok)
          with Inr Some n True \<open>resolve_roots _ _ _ _ _ = _\<close> show ?thesis by blast
        qed
      qed
    qed
  qed
qed

section \<open>What an ingest answers\<close>

lemma completion_premise_ok:
  "completion_premise P h f req = (b, []) \<longleftrightarrow> cr_binding (in_completion req) = b \<and> b \<noteq> no_binding
     \<and> outcome_binding P f (in_identity req) (in_env req) = Inr b \<and> cr_reason (in_completion req) = []"
  by (auto simp: completion_premise_def split: sum.splits if_splits)

lemma read_log_ok:
  assumes "read_log h path cx k = (Inr (log, []), j)"
  shows "path \<noteq> [] \<and> hn_log h path = LogText log \<and> has_prefix log testlog_header"
  using assms by (auto simp: read_log_def live_def timed_return_def split: option.splits if_splits log_answer.splits)

lemma environment_lines_ok: "fst (environment_lines lines cx k) = Inr True \<Longrightarrow> list_all admitted_line lines"
  by (induction lines arbitrary: k) (auto simp: live_ok timed_return_ok split: if_splits)

lemma closed_reason:
  assumes "fst (fail_closed P h f req r cx k) = Inr (ob, why)" "r \<noteq> []"
  shows "why \<noteq> [] \<and> ob = killed (in_identity req) why \<and> line_text (in_identity req) \<and> line_text why"
  using fail_closed_killed [OF assms(1)] assms(2) by simp

definition classified :: "platform \<Rightarrow> 'b harness \<Rightarrow> 'b producer_frame \<Rightarrow> ingest \<Rightarrow> string \<Rightarrow> observation \<Rightarrow> bool" where
  "classified P h f req log ob \<longleftrightarrow> (\<exists>bracket n roots.
     fr_bracket f = Some bracket \<and> normalize_environment P (in_env req) = Inr n
   \<and> producer_pwd_problem P h (fr_pkg_dir f) n = []
   \<and> resolve_roots P (hn_resolve h) (hn_go_env h (fr_pkg_dir f) n) (fr_root f) n = Inr roots
   \<and> hn_classify h (classification_options h f bracket roots req) log (in_env req) = Inr ob)"

lemma observe_lines_ok:
  assumes "fst (observe_lines P h f need req log cx k) = Inr (ob, why)"
  shows "why \<noteq> [] \<and> ob = killed (in_identity req) why \<and> line_text (in_identity req) \<and> line_text why
    \<or> why = [] \<and> (need \<longrightarrow> list_all admitted_line (split_byte newline log)) \<and> classified P h f req log ob"
proof -
  from assms obtain allowed i where e: "(if need then environment_log log else timed_return True) cx k = (Inr allowed, i)"
    and rest: "fst ((if \<not> allowed
       then fail_closed P h f req ''operation-outcome support does not cover the captured operations''
       else timed_bind (capture_bytes P h f log req) (\<lambda>(ob, why).
         if why \<noteq> [] then timed_return (ob, why) else live (timed_return (ob, [])))) cx i) = Inr (ob, why)"
    unfolding observe_lines_def by (erule live_bindE)
  show ?thesis
  proof (cases allowed)
    case False
    with rest have "fst (fail_closed P h f req ''operation-outcome support does not cover the captured operations'' cx i)
        = Inr (ob, why)" by simp
    from closed_reason [OF this] show ?thesis by simp
  next
    case True
    have al: "need \<longrightarrow> list_all admitted_line (split_byte newline log)"
    proof
      assume need
      with e True have "fst (environment_log log cx k) = Inr True" by simp
      then show "list_all admitted_line (split_byte newline log)"
        using environment_lines_ok by (auto simp: environment_log_def live_ok)
    qed
    from rest True have "fst (timed_bind (capture_bytes P h f log req) (\<lambda>(ob, why).
         if why \<noteq> [] then timed_return (ob, why) else live (timed_return (ob, []))) cx i) = Inr (ob, why)" by simp
    then obtain x j where x: "capture_bytes P h f log req cx i = (Inr x, j)"
      "fst ((case x of (ob, why) \<Rightarrow> if why \<noteq> [] then timed_return (ob, why) else live (timed_return (ob, []))) cx j) = Inr (ob, why)"
      by (erule live_bindE)
    then have "x = (ob, why)" by (auto simp: timed_return_ok live_ok split: prod.splits if_splits)
    with x(1) have "fst (capture_bytes P h f log req cx i) = Inr (ob, why)" by simp
    from capture_bytes_ok [OF this] show ?thesis
    proof
      assume "\<exists>cx' k'. fst (fail_closed P h f req why cx' k') = Inr (ob, why) \<and> why \<noteq> []"
      then show ?thesis using closed_reason by blast
    next
      assume "why = [] \<and> (\<exists>bracket n roots. fr_bracket f = Some bracket \<and> normalize_environment P (in_env req) = Inr n
        \<and> producer_pwd_problem P h (fr_pkg_dir f) n = []
        \<and> resolve_roots P (hn_resolve h) (hn_go_env h (fr_pkg_dir f) n) (fr_root f) n = Inr roots
        \<and> hn_classify h (classification_options h f bracket roots req) log (in_env req) = Inr ob)"
      with al show ?thesis unfolding classified_def by blast
    qed
  qed
qed

lemma observe_log_ok:
  assumes "fst (observe_log P h f path need req cx k) = Inr (ob, why)"
  shows "why \<noteq> [] \<and> ob = killed (in_identity req) why \<and> line_text (in_identity req) \<and> line_text why
    \<or> why = [] \<and> (\<exists>log. path \<noteq> [] \<and> hn_log h path = LogText log \<and> has_prefix log testlog_header
      \<and> (need \<longrightarrow> list_all admitted_line (split_byte newline log)) \<and> classified P h f req log ob)"
proof -
  from assms obtain x j where rl: "read_log h path cx k = (Inr x, j)"
    and rest: "fst ((case x of (log, unread) \<Rightarrow> if unread \<noteq> [] then fail_closed P h f req unread
       else observe_lines P h f need req log) cx j) = Inr (ob, why)"
    unfolding observe_log_def by (erule live_bindE)
  obtain log unread where x: "x = (log, unread)" by (cases x)
  show ?thesis
  proof (cases "unread = []")
    case False
    with rest x have "fst (fail_closed P h f req unread cx j) = Inr (ob, why)" by simp
    from closed_reason [OF this False] show ?thesis by blast
  next
    case True
    with rest x have "fst (observe_lines P h f need req log cx j) = Inr (ob, why)" by simp
    from observe_lines_ok [OF this] read_log_ok [OF rl [unfolded x True]] show ?thesis by blast
  qed
qed

definition completed_ingest :: "platform \<Rightarrow> 'b harness \<Rightarrow> 'b producer_frame \<Rightarrow> string \<Rightarrow> ingest \<Rightarrow> bool \<Rightarrow> observation \<Rightarrow> bool" where
  "completed_ingest P h f path given need ob \<longleftrightarrow>
     (\<exists>b. cr_binding (in_completion given) = b \<and> b \<noteq> no_binding \<and> cr_reason (in_completion given) = []
        \<and> outcome_binding P f (in_identity given) (in_env given) = Inr b
        \<and> (need \<longrightarrow> support_reason (in_outcome given) b = []))
   \<and> (\<exists>log. path \<noteq> [] \<and> hn_log h path = LogText log \<and> has_prefix log testlog_header
        \<and> (need \<longrightarrow> list_all admitted_line (split_byte newline log))
        \<and> classified P h f (if need then given else given\<lparr>in_outcome := no_support\<rparr>) log ob)"

lemma observe_ok:
  assumes "fst (observe_process P h f path given need cx k) = Inr (ob, why)"
  shows "why \<noteq> [] \<and> ob = killed (in_identity given) why \<and> line_text (in_identity given) \<and> line_text why
    \<or> why = [] \<and> completed_ingest P h f path given need ob"
proof -
  obtain req where req: "req = (if need then given else given\<lparr>in_outcome := no_support\<rparr>)" by blast
  then have ids: "in_identity req = in_identity given" "in_env req = in_env given" by simp_all
  obtain b premise where cp: "completion_premise P h f given = (b, premise)" by (cases "completion_premise P h f given")
  obtain reason where re: "reason = (if premise = [] \<and> need then support_reason (in_outcome given) b else premise)" by blast
  from assms have o: "fst ((if reason \<noteq> [] then fail_closed P h f req reason else observe_log P h f path need req) cx (Suc k))
      = Inr (ob, why)"
    unfolding observe_process_def live_ok cp prod.case Let_def req [symmetric] re [symmetric] by blast
  show ?thesis
  proof (cases "reason = []")
    case False
    with o have "fst (fail_closed P h f req reason cx (Suc k)) = Inr (ob, why)" by simp
    from closed_reason [OF this False] show ?thesis unfolding ids by blast
  next
    case True
    with o have "fst (observe_log P h f path need req cx (Suc k)) = Inr (ob, why)" by simp
    note l = observe_log_ok [OF this]
    from True re have p: "premise = []" "need \<longrightarrow> support_reason (in_outcome given) b = []" by (auto split: if_splits)
    with cp have c: "cr_binding (in_completion given) = b" "b \<noteq> no_binding" "cr_reason (in_completion given) = []"
      "outcome_binding P f (in_identity given) (in_env given) = Inr b"
      using completion_premise_ok [of P h f given b] by simp_all
    from l c p(2) show ?thesis unfolding ids completed_ingest_def req [symmetric] by blast
  qed
qed


lemma space_rune_heads: "r \<in> set space_runes \<Longrightarrow> r \<noteq> [] \<and> (byte_of (hd r) \<le> 32 \<or> 128 \<le> byte_of (hd r))"
  by (auto simp: space_runes_def)

lemma not_blank: "32 < byte_of c \<Longrightarrow> byte_of c < 128 \<Longrightarrow> \<not> blank (c # s)"
proof -
  assume c: "32 < byte_of c" "byte_of c < 128"
  have "\<not> has_prefix (c # s) r" if "r \<in> set space_runes" for r
    using space_rune_heads [OF that] c by (cases r) (auto simp: has_prefix_def)
  then have "find (has_prefix (c # s)) space_runes = None" by (simp add: find_None_iff)
  then show ?thesis by (simp add: blank_def)
qed

text \<open>A process that its executor reports as killed.\<close>

definition sample_harness :: "unit harness" where
  "sample_harness = \<lparr>hn_log = (\<lambda>_. LogMissing), hn_links = Inr, hn_resolve = id, hn_go_env = (\<lambda>_ _. Inl ''no answer''),
     hn_classify = (\<lambda>_ _ _. Inl ''no classification''), hn_reader = no_reader, hn_print = (\<lambda>r. 32 \<le> r \<and> r < 127),
     hn_error = (\<lambda>_. [])\<rparr>"

definition killed_ingest :: ingest where
  "killed_ingest = \<lparr>in_identity = ''p1'', in_env = [], in_completion = 
       \<lparr>cr_binding = bind_execution None ''p1'' (sha256_hex (join_with [nul] [])) [] [], cr_reason = ''exit 9''\<rparr>,
     in_outcome = no_support, in_scratch_root = [], in_excluded = [], in_namespaces = []\<rparr>"


end
