(* ===== verification/Producing_Unit.thy ===== *)
theory Producing_Unit
  imports Producer_Facade Checking_Unit
begin

text \<open>
  The producing unit (unit.go) and the runtime binding it is begun under (session.go): the
  registration that prepares a process's whole obligation before it runs, its one terminal
  disposition, abort, the close that observes, attaches, checks and validates, the account, and
  Execute, their composition. Registration, submission, abort and closing interleave as steps of
  a relation; preparation and closing work run on the unit's own view. Contexts are not nil.
  The lemmas show that evidence is granted once, for a registered execution with an admitted
  terminal disposition, that what the account has established is never lost, that supported
  observations rest on a normal completion, and that every close and every Execute ends the unit.
\<close>

section \<open>The site and the binding\<close>

text \<open>What a unit asks of its session and of the rest of the library.\<close>

record 'b site =
  st_platform :: platform
  st_harness :: "'b harness"
  st_bracket :: "string \<Rightarrow> string list \<Rightarrow> string list \<Rightarrow> string + 'b"
  st_root :: string
  st_abs :: "string \<Rightarrow> string result"
  st_canonical :: "string \<Rightarrow> string result"
  st_build_dir :: string
  st_build_env :: "string list"

text \<open>An error of the observation code, as the unit returns it.\<close>

definition unit_error :: "'b site \<Rightarrow> observation_error \<Rightarrow> view_error" where
  "unit_error S e = (case e of BadState (Cancelled c) \<Rightarrow> ContextError c
     | e \<Rightarrow> OtherError (hn_error (st_harness S) e))"

definition lift_error :: "'b site \<Rightarrow> observation_error + 'a \<Rightarrow> view_error + 'a" where
  "lift_error S r = (case r of Inl e \<Rightarrow> Inl (unit_error S e) | Inr x \<Rightarrow> Inr x)"

definition lift_text :: "string \<Rightarrow> string + 'a \<Rightarrow> view_error + 'a" where
  "lift_text prefix r = (case r of Inl e \<Rightarrow> Inl (OtherError (prefix @ e)) | Inr x \<Rightarrow> Inr x)"

text \<open>An operation under a context, asked of the world's.\<close>

definition op_timed :: "'b site \<Rightarrow> 'a timed \<Rightarrow> ('s, 'a) op" where
  "op_timed S m s w = (case m (w_ctx w) (w_clock w) of (r, k) \<Rightarrow> (lift_error S r, s, w\<lparr>w_clock := k\<rparr>))"

text \<open>rebaseProcessPath, where a path's separator is a slash.\<close>

definition rebase_process_path :: "string \<Rightarrow> string \<Rightarrow> string" where
  "rebase_process_path directory path =
     (if is_abs path then path else if path = [] then directory else directory @ slash # path)"

record runtime_binding =
  rb_generation :: nat
  rb_snapshot :: snapshot
  rb_dir :: string
  rb_env :: "string list"
  rb_guards :: runtime_guards

definition observe_guards :: "(snapshot, runtime_guards) op" where
  "observe_guards = op_bind (op_ask w_runtime_guards) (\<lambda>g. op_then ctx_check (op_return g))"

text \<open>BindRuntime: a nil environment is None; a cancelled context outranks any other answer.\<close>

definition bind_guards :: "nat \<Rightarrow> string \<Rightarrow> string list \<Rightarrow> (snapshot, runtime_binding) op" where
  "bind_guards generation dir env = op_bind observe_guards (\<lambda>g. op_bind observe_guards (\<lambda>second.
     if g \<noteq> second then op_fail (ViewChanged ''runtime guards during binding'')
     else op_bind op_get (\<lambda>v. op_return \<lparr>rb_generation = generation, rb_snapshot = v, rb_dir = dir,
       rb_env = env, rb_guards = g\<rparr>)))"

definition bind_runtime ::
    "'b site \<Rightarrow> nat \<Rightarrow> string \<Rightarrow> string list option \<Rightarrow> (snapshot, runtime_binding) op" where
  "bind_runtime S generation directory environment = op_bind (op_try (op_then ctx_check (op_bind op_get (\<lambda>v.
     if \<not> valid_kind (sn_kind v) then op_fail uninitialized
     else op_bind (op_lift (lift_text ''gofresh: runtime directory: ''
         (st_canonical S (rebase_process_path (st_build_dir S) directory)))) (\<lambda>dir.
      op_bind (op_lift (lift_text ''gofresh: runtime environment: ''
         (env_for_command (st_platform S) (st_abs S)
           (case environment of None \<Rightarrow> st_build_env S | Some env \<Rightarrow> env) dir))) (\<lambda>env.
      bind_guards generation dir env)))))) (\<lambda>r. op_then ctx_check (op_lift r))"

record build_binding =
  bb_generation :: nat
  bb_package :: string
  bb_identity :: string

text \<open>BindBuilt over BuildDescription's package check.\<close>

definition bind_built :: "'b site \<Rightarrow> nat \<Rightarrow> snapshot \<Rightarrow> string \<Rightarrow> string \<Rightarrow> view_error + build_binding" where
  "bind_built S generation v pkg identity =
     (if pkg \<notin> set (sn_packages v)
      then Inl (OtherError (''gofresh: package '' @ go_quote (hn_print (st_harness S)) pkg @ '' is outside the snapshot''))
      else if identity = [] then Inl (OtherError ''gofresh: empty built-artifact identity'')
      else Inr \<lparr>bb_generation = generation, bb_package = pkg, bb_identity = identity\<rparr>)"

section \<open>The unit\<close>

record process_description =
  ps_identity :: string
  ps_capture :: string
  ps_brackets :: "string list"
  ps_excluded :: "string list"
  ps_scratch_root :: string
  ps_namespaces :: "(string \<times> string) list"

record terminal =
  te_kind :: "8 word"
  te_reason :: string

definition normal_completion :: "8 word" where "normal_completion = 1"
definition abnormal_completion :: "8 word" where "abnormal_completion = 2"
definition never_started :: "8 word" where "never_started = 3"

definition no_terminal :: terminal where
  "no_terminal = \<lparr>te_kind = 0, te_reason = []\<rparr>"

record 'b execution =
  ex_process :: process_description
  ex_artifact :: string
  ex_env :: "string list"
  ex_frame :: "'b producer_frame"
  ex_support :: support
  ex_fingerprints :: "subject \<rightharpoonup> fingerprint"
  ex_observed :: "subject set"
  ex_outcome_reason :: string
  ex_inputs :: rt_state
  ex_observation_reason :: string
  ex_attribution :: string
  ex_terminal :: terminal
  ex_ready :: bool

definition reserved_execution :: "process_description \<Rightarrow> string \<Rightarrow> string list \<Rightarrow> 'b execution" where
  "reserved_execution p artifact env = \<lparr>ex_process = p, ex_artifact = artifact, ex_env = env,
     ex_frame = no_frame, ex_support = no_support, ex_fingerprints = (\<lambda>_. None), ex_observed = {},
     ex_outcome_reason = [], ex_inputs = no_rt_state, ex_observation_reason = [], ex_attribution = [],
     ex_terminal = no_terminal, ex_ready = False\<rparr>"

text \<open>A unit and a snapshot are known by number; a contribution names its unit, None is its zero.\<close>

record 'b producing_unit =
  pu_id :: nat
  pu_generation :: nat
  pu_view :: snapshot
  pu_dir :: string
  pu_env :: "string list"
  pu_identity_only :: bool
  pu_phase :: unit_phase
  pu_execution :: "'b execution option"
  pu_preparing :: bool
  pu_closing :: bool

type_synonym contribution = "nat option"

definition single_subject_model :: "snapshot \<Rightarrow> bool" where
  "single_subject_model v \<longleftrightarrow> (case sn_engine v of None \<Rightarrow> False | Some e \<Rightarrow> en_model e = SingleSubjectExecution)"

definition begin_unit :: "nat \<Rightarrow> runtime_binding \<Rightarrow> subject list \<Rightarrow> bool \<Rightarrow> view_error + 'b producing_unit" where
  "begin_unit i b subjects identity_only = (case bound_view (rb_snapshot b) (rb_guards b) subjects of
      Inl e \<Rightarrow> Inl e
    | Inr v \<Rightarrow>
      if length (sn_packages v) \<noteq> 1
      then Inl (OtherError ''gofresh: a producing execution must belong to one package'')
      else if length (sn_subjects v) > 1 \<and> single_subject_model v
      then Inl (OtherError ''gofresh: a multi-subject execution contradicts the single-subject assertion'')
      else Inr \<lparr>pu_id = i, pu_generation = rb_generation b, pu_view = v, pu_dir = rb_dir b, pu_env = rb_env b,
        pu_identity_only = identity_only, pu_phase = UnitOpen, pu_execution = None, pu_preparing = False,
        pu_closing = False\<rparr>)"

section \<open>Registration\<close>

definition breaking_char :: "char \<Rightarrow> bool" where
  "breaking_char c \<longleftrightarrow> c = nul \<or> c = CHR 0x0D \<or> c = newline"

text \<open>ValidateScratchNamespace.\<close>

definition validate_namespace :: "printable_runes \<Rightarrow> string \<Rightarrow> string \<Rightarrow> string option" where
  "validate_namespace ip dir pattern =
     (if pattern = [] \<or> \<not> valid_utf8 pattern \<or> (\<exists>c\<in>set pattern. breaking_char c \<or> c = slash \<or> c = backslash)
      then Some (''runtimeinputs: scratch namespace pattern must be a non-empty single path component, got '' @ go_quote ip pattern)
      else if dir = [] \<or> is_abs dir \<or> \<not> valid_utf8 dir \<or> (\<exists>c\<in>set dir. breaking_char c)
      then Some (''runtimeinputs: scratch namespace dir must be a module-relative path, got '' @ go_quote ip dir)
      else if path_clean dir = dotdot \<or> has_prefix (path_clean dir) ''../''
      then Some (''runtimeinputs: scratch namespace dir escapes module: '' @ go_quote ip dir)
      else None)"

fun namespace_fault :: "printable_runes \<Rightarrow> (string \<times> string) list \<Rightarrow> string option" where
  "namespace_fault ip [] = None"
| "namespace_fault ip ((dir, pattern) # ns) = (case validate_namespace ip dir pattern of
      Some e \<Rightarrow> Some e | None \<Rightarrow> namespace_fault ip ns)"

definition other_build :: "'b producing_unit \<Rightarrow> build_binding \<Rightarrow> bool" where
  "other_build u b \<longleftrightarrow> bb_generation b \<noteq> pu_generation u
     \<or> bb_package b \<noteq> s_package (hd (sn_subjects (pu_view u))) \<or> bb_identity b = []"

text \<open>Register before its unit's lock: the process as the execution keeps it.\<close>

definition admit_process ::
    "'b site \<Rightarrow> 'b producing_unit \<Rightarrow> build_binding \<Rightarrow> process_description \<Rightarrow> view_error + process_description" where
  "admit_process S u b p =
     (if other_build u b
      then Inl (OtherError ''gofresh: built artifact belongs to another snapshot or package'')
      else
       (let p' = (if ps_capture p = [] then p
                  else p\<lparr>ps_capture := rebase_process_path (pu_dir u) (ps_capture p)\<rparr>)
        in case namespace_fault (hn_print (st_harness S)) (ps_namespaces p) of
             Some e \<Rightarrow> Inl (OtherError e)
           | None \<Rightarrow> (case outcome_binding (st_platform S) (no_frame :: 'b producer_frame) (ps_identity p) (pu_env u) of
               Inl e \<Rightarrow> Inl (unit_error S e) | Inr _ \<Rightarrow> Inr p')))"

definition start_registration ::
    "'b site \<Rightarrow> string option \<Rightarrow> 'b producing_unit \<Rightarrow> build_binding \<Rightarrow> process_description
      \<Rightarrow> view_error + 'b producing_unit" where
  "start_registration S caller u b p = (case caller of Some c \<Rightarrow> Inl (ContextError c)
     | None \<Rightarrow> (case admit_process S u b p of Inl e \<Rightarrow> Inl e
       | Inr p' \<Rightarrow>
         if pu_phase u \<noteq> UnitOpen then Inl unit_closed_error
         else if pu_execution u \<noteq> None then Inl (OtherError ''gofresh: this unit already has its one contributor'')
         else Inr (u\<lparr>pu_execution := Some (reserved_execution p' (bb_identity b) (pu_env u)), pu_preparing := True\<rparr>)))"

text \<open>prepareOutcomeSupport.\<close>

definition unsupported_subject :: "snapshot \<Rightarrow> subject \<Rightarrow> bool" where
  "unsupported_subject v s \<longleftrightarrow> ob_outcome_method (map_get no_observability (sn_observable v) s) \<noteq> Method"

definition outcome_refusal :: "printable_runes \<Rightarrow> snapshot \<Rightarrow> string" where
  "outcome_refusal ip v = (case find (unsupported_subject v) (sn_subjects v) of None \<Rightarrow> []
     | Some s \<Rightarrow> ''operation-outcome support unavailable for '' @ go_quote ip (s_package s @ ''.'' @ s_symbol s))"

definition issue_support ::
    "'b site \<Rightarrow> binding \<Rightarrow> (subject \<rightharpoonup> fingerprint) \<Rightarrow> (support \<times> (subject \<rightharpoonup> fingerprint)) vop" where
  "issue_support S b fps = op_bind op_get (\<lambda>v.
     if sn_sealed v then op_fail ViewSealed
     else op_then ctx_check (op_return (prepare_support b
       (map (\<lambda>s. outcome_subject (map_get no_fingerprint fps s) s) (sn_subjects v))
       (outcome_refusal (hn_print (st_harness S)) v), fps)))"

definition prepare_outcome_support ::
    "'b site \<Rightarrow> 'b producer_frame \<Rightarrow> string \<Rightarrow> string list \<Rightarrow> (support \<times> (subject \<rightharpoonup> fingerprint)) vop" where
  "prepare_outcome_support S f process evidence_env = op_bind op_get (\<lambda>v.
     if sn_facts v = None \<or> sn_engine v = None then op_fail uninitialized
     else if sn_subjects v = [] then op_fail (OtherError ''gofresh: outcome support needs contributing subjects'')
     else op_bind (op_lift (lift_text [] (env_for_command (st_platform S) (st_abs S) evidence_env (fr_pkg_dir f)))) (\<lambda>env.
       op_bind (op_lift (lift_error S (outcome_binding (st_platform S) f process env))) (\<lambda>b.
       op_bind capture_observed_batch (issue_support S b))))"

record 'b preparation =
  pp_frame :: "'b producer_frame"
  pp_support :: support
  pp_fingerprints :: "subject \<rightharpoonup> fingerprint"
  pp_observed :: "subject set"

text \<open>The subjects the evidence ladder does not answer for without an observation.\<close>

definition observation_needed :: "snapshot \<Rightarrow> (subject \<rightharpoonup> fingerprint) \<Rightarrow> subject \<Rightarrow> bool" where
  "observation_needed v fps s \<longleftrightarrow> (let f = map_get no_fingerprint fps s in
     v_status (decide f (closure_of (facts_of v) s) (snapshot_guards v) no_rt_state (sn_kind v)
       (purity_matches v f s)) \<noteq> Valid)"

definition observed_subjects :: "snapshot \<Rightarrow> bool \<Rightarrow> (subject \<rightharpoonup> fingerprint) \<Rightarrow> subject set" where
  "observed_subjects v identity_only fps = (if identity_only then {}
     else set (filter (observation_needed v fps) (sn_subjects v)))"

definition observed_fingerprints ::
    "(subject \<rightharpoonup> fingerprint) \<Rightarrow> (subject \<rightharpoonup> fingerprint) \<Rightarrow> subject set \<Rightarrow> (subject \<rightharpoonup> fingerprint)" where
  "observed_fingerprints fps all_fps observed = (\<lambda>s. if s \<in> observed then Some (map_get no_fingerprint all_fps s) else fps s)"

definition prepare_execution ::
    "'b site \<Rightarrow> nat \<Rightarrow> 'b producing_unit \<Rightarrow> process_description \<Rightarrow> 'b preparation vop" where
  "prepare_execution S span u p =
     (let f = capture_frame (hn_links (st_harness S)) (st_bracket S) span (st_root S) (pu_dir u)
                \<lparr>fo_bracket_paths = ps_brackets p, fo_excluded_paths = ps_excluded p\<rparr>
      in op_bind (op_try (op_bind op_get (\<lambda>v. op_bind (op_lift (capture_batch v)) (\<lambda>fps.
           (let observed = observed_subjects v (pu_identity_only u) fps in
            if observed = {} then op_return \<lparr>pp_frame = f, pp_support = no_support, pp_fingerprints = fps, pp_observed = {}\<rparr>
            else op_bind (prepare_outcome_support S f (ps_identity p) (pu_env u)) (\<lambda>(support, all_fps).
              op_return \<lparr>pp_frame = f, pp_support = support,
                pp_fingerprints = observed_fingerprints fps all_fps observed, pp_observed = observed\<rparr>))))))
         (\<lambda>r. op_then ctx_check (op_lift r)))"

definition outcome_account :: "bool \<Rightarrow> 'b preparation \<Rightarrow> binding \<Rightarrow> string" where
  "outcome_account identity_only r b =
     (if identity_only then ''identity-only execution selected''
      else if pp_observed r = {} then ''source/assertion evidence selected; observation support not required''
      else support_reason (pp_support r) b)"

definition ready_execution :: "bool \<Rightarrow> 'b preparation \<Rightarrow> binding \<Rightarrow> 'b execution \<Rightarrow> 'b execution" where
  "ready_execution identity_only r b x = x\<lparr>ex_frame := pp_frame r, ex_support := pp_support r,
     ex_fingerprints := pp_fingerprints r, ex_observed := pp_observed r,
     ex_outcome_reason := outcome_account identity_only r b, ex_ready := True\<rparr>"

text \<open>
  Register under its unit's lock again: the caller's cancellation outranks the unit's phase, and
  a phase that is no longer open outranks the preparation's error.
\<close>

definition fail_unit :: "'b producing_unit \<Rightarrow> 'b producing_unit" where
  "fail_unit u = u\<lparr>pu_phase := UnitFailed\<rparr>"

definition commit_prepared ::
    "'b site \<Rightarrow> 'b preparation \<Rightarrow> 'b producing_unit \<Rightarrow> (view_error + contribution) \<times> 'b producing_unit" where
  "commit_prepared S r u = (case pu_execution u of None \<Rightarrow> (Inl unit_incomplete_error, u)
     | Some x \<Rightarrow> (case outcome_binding (st_platform S) (pp_frame r) (ps_identity (ex_process x)) (ex_env x) of
         Inl e \<Rightarrow> (Inl (unit_error S e), fail_unit u)
       | Inr b \<Rightarrow> (Inr (Some (pu_id u)),
           u\<lparr>pu_execution := Some (ready_execution (pu_identity_only u) r b x)\<rparr>)))"

definition commit_registration ::
    "'b site \<Rightarrow> string option \<Rightarrow> view_error + 'b preparation \<Rightarrow> 'b producing_unit
      \<Rightarrow> (view_error + contribution) \<times> 'b producing_unit" where
  "commit_registration S caller r u0 = (let u = u0\<lparr>pu_preparing := False\<rparr> in
     case caller of Some c \<Rightarrow> (Inl (ContextError c), if pu_phase u = UnitOpen then fail_unit u else u)
     | None \<Rightarrow>
       if pu_phase u \<noteq> UnitOpen then (Inl unit_closed_error, u)
       else (case r of Inl e \<Rightarrow> (Inl e, fail_unit u) | Inr prepared \<Rightarrow> commit_prepared S prepared u))"

section \<open>Submission and abort\<close>

definition invalid_terminal :: "terminal \<Rightarrow> bool" where
  "invalid_terminal t \<longleftrightarrow> te_kind t < normal_completion \<or> te_kind t > never_started
     \<or> (te_kind t = normal_completion) \<noteq> (te_reason t = [])"

definition submit :: "contribution \<Rightarrow> terminal \<Rightarrow> 'b producing_unit \<Rightarrow> view_error + 'b producing_unit" where
  "submit c t u =
     (if pu_phase u \<noteq> UnitOpen then Inl unit_closed_error
      else (case pu_execution u of
          None \<Rightarrow> Inl (OtherError ''gofresh: contribution belongs to another unit or is unprepared'')
        | Some x \<Rightarrow>
          if c \<noteq> Some (pu_id u) \<or> \<not> ex_ready x
          then Inl (OtherError ''gofresh: contribution belongs to another unit or is unprepared'')
          else if invalid_terminal t then Inl (OtherError ''gofresh: invalid terminal execution disposition'')
          else if te_kind (ex_terminal x) \<noteq> 0
          then Inl (OtherError ''gofresh: execution already has a terminal disposition'')
          else Inr (u\<lparr>pu_execution := Some (x\<lparr>ex_terminal := t\<rparr>)\<rparr>)))"

definition abort_producing :: "'b producing_unit \<Rightarrow> 'b producing_unit" where
  "abort_producing u = u\<lparr>pu_phase := abort_phase (pu_phase u)\<rparr>"

section \<open>The account\<close>

datatype observation_disposition =
    UnknownObservation | SupportedObservation | IdentityObservation | IncompleteObservation

record process_account =
  pa_process :: string
  pa_artifact :: string
  pa_prepared :: bool
  pa_terminal :: terminal
  pa_observation :: observation_disposition
  pa_observation_reason :: string
  pa_outcome_reason :: string
  pa_attribution :: string
  pa_inputs :: rt_state

definition disposition_of :: "'b execution \<Rightarrow> observation_disposition" where
  "disposition_of x =
     (if rt_manifest (ex_inputs x) = [] then UnknownObservation
      else if ex_observation_reason x \<noteq> [] then IncompleteObservation
      else if ex_observed x = {} then IdentityObservation
      else if \<exists>s\<in>ex_observed x. \<not> has_outcome_support (rt_manifest (ex_inputs x))
        (outcome_subject (map_get no_fingerprint (ex_fingerprints x) s) s)
      then IdentityObservation else SupportedObservation)"

definition account_of :: "'b execution \<Rightarrow> process_account" where
  "account_of x = \<lparr>pa_process = ps_identity (ex_process x), pa_artifact = ex_artifact x,
     pa_prepared = ex_ready x, pa_terminal = ex_terminal x, pa_observation = disposition_of x,
     pa_observation_reason = ex_observation_reason x, pa_outcome_reason = ex_outcome_reason x,
     pa_attribution = ex_attribution x, pa_inputs = ex_inputs x\<rparr>"

definition unit_account :: "'b producing_unit \<Rightarrow> process_account option" where
  "unit_account u = map_option account_of (pu_execution u)"

section \<open>Closing\<close>

record finalized_subject =
  fz_subject :: subject
  fz_fingerprint :: fingerprint
  fz_verdict :: "verdict option"

record finalized =
  fi_process :: string
  fi_artifact :: string
  fi_subjects :: "finalized_subject list"
  fi_terminal :: terminal
  fi_observation :: observation_disposition
  fi_observation_reason :: string
  fi_outcome_reason :: string
  fi_attribution :: string

datatype close_answer = SpanMoved string | Evidence finalized

datatype close_refusal = UnitRefused view_error | RuntimeSpanError string

definition span_cause :: cause where
  "span_cause = \<lparr>ca_kind = RuntimeInputsCause, ca_condition = Changed, ca_culprit = no_subject\<rparr>"

definition span_error_text :: "string \<Rightarrow> string" where
  "span_error_text reason = ''gofresh: runtime-input producing span changed: '' @ reason"

text \<open>An absent optional capture is not observed.\<close>

definition must_observe :: "'b producing_unit \<Rightarrow> 'b execution \<Rightarrow> bool" where
  "must_observe u x \<longleftrightarrow> ex_observed x \<noteq> {} \<or> pu_identity_only u \<or> ps_capture (ex_process x) \<noteq> []
     \<or> te_kind (ex_terminal x) \<noteq> normal_completion"

definition execution_ingest :: "'b execution \<Rightarrow> receipt \<Rightarrow> ingest" where
  "execution_ingest x receipt = \<lparr>in_identity = ps_identity (ex_process x), in_env = ex_env x,
     in_completion = receipt, in_outcome = ex_support x, in_scratch_root = ps_scratch_root (ex_process x),
     in_excluded = ps_excluded (ex_process x), in_namespaces = ps_namespaces (ex_process x)\<rparr>"

type_synonym ('b, 'a) uop = "('b producing_unit, 'a) op"

definition on_view :: "'a vop \<Rightarrow> ('b, 'a) uop" where
  "on_view m u w = (case m (pu_view u) w of (r, v, w') \<Rightarrow> (r, u\<lparr>pu_view := v\<rparr>, w'))"

definition observed_execution :: "rt_state \<Rightarrow> string \<Rightarrow> string \<Rightarrow> 'b execution \<Rightarrow> 'b execution" where
  "observed_execution st reason attribution x =
     x\<lparr>ex_inputs := st, ex_observation_reason := reason, ex_attribution := attribution\<rparr>"

definition record_observation :: "'b site \<Rightarrow> observation \<Rightarrow> string \<Rightarrow> ('b, unit) uop" where
  "record_observation S ob reason = op_bind (op_lift (lift_error S (completed_input_state ob))) (\<lambda>st.
     op_modify (\<lambda>u. u\<lparr>pu_execution :=
       map_option (observed_execution st reason (ob_attribution ob)) (pu_execution u)\<rparr>))"

definition close_observation :: "'b site \<Rightarrow> 'b execution \<Rightarrow> ('b, observation \<times> rt_state) uop" where
  "close_observation S x =
     op_bind (op_lift (lift_error S (completion (st_platform S) (ex_frame x) (ps_identity (ex_process x))
       (ex_env x) (te_reason (ex_terminal x))))) (\<lambda>receipt.
     op_bind (op_timed S (observe_process (st_platform S) (st_harness S) (ex_frame x) (ps_capture (ex_process x))
       (execution_ingest x receipt) (ex_outcome_reason x = []))) (\<lambda>(ob, reason).
     op_then (record_observation S ob reason)
     (op_bind (op_lift (lift_error S (completed_input_state ob))) (\<lambda>st. op_return (ob, st)))))"

definition attach_subject ::
    "'b execution \<Rightarrow> rt_state option \<Rightarrow> subject \<Rightarrow> ('b, subject \<times> fingerprint) uop" where
  "attach_subject x inputs s u w = (case attach_runtime_state (pu_view u) s
        (map_get no_fingerprint (ex_fingerprints x) s) inputs (s \<in> ex_observed x) of
      Inl e \<Rightarrow> (Inl e, u, w) | Inr (fp, v) \<Rightarrow> (Inr (s, fp), u\<lparr>pu_view := v\<rparr>, w))"

definition finalize :: "process_account \<Rightarrow> (subject \<times> fingerprint) list \<Rightarrow> (subject \<rightharpoonup> verdict) \<Rightarrow> finalized" where
  "finalize a fps verdicts = \<lparr>fi_process = pa_process a, fi_artifact = pa_artifact a,
     fi_subjects = map (\<lambda>(s, fp). \<lparr>fz_subject = s, fz_fingerprint = fp, fz_verdict = verdicts s\<rparr>) fps,
     fi_terminal = pa_terminal a, fi_observation = pa_observation a,
     fi_observation_reason = pa_observation_reason a, fi_outcome_reason = pa_outcome_reason a,
     fi_attribution = pa_attribution a\<rparr>"

text \<open>Validation, the moved bracket, and the deferred unavailability, in the source's precedence.\<close>

definition moved_span :: "observation option \<Rightarrow> string option" where
  "moved_span ob = (case ob of None \<Rightarrow> None | Some x \<Rightarrow>
     if rt_bracket_moved (ob_state x) then Some (rt_reason (ob_state x)) else None)"

definition grant_evidence :: "(subject \<times> fingerprint) list \<Rightarrow> (subject \<rightharpoonup> verdict) \<Rightarrow> ('b, close_answer) uop" where
  "grant_evidence fps verdicts = op_bind op_get (\<lambda>u. case pu_execution u of
      None \<Rightarrow> op_fail unit_incomplete_error
    | Some x \<Rightarrow> op_return (Evidence (finalize (account_of x) fps verdicts)))"

definition close_judgment ::
    "observation option \<Rightarrow> (subject \<times> fingerprint) list \<Rightarrow> (subject \<rightharpoonup> verdict) \<Rightarrow> ('b, close_answer) uop" where
  "close_judgment ob fps verdicts = op_bind (op_try (on_view (validate has_outcome_support))) (\<lambda>r.
     case r of
       Inr _ \<Rightarrow> (case moved_span ob of Some why \<Rightarrow> op_return (SpanMoved why) | None \<Rightarrow> grant_evidence fps verdicts)
     | Inl e \<Rightarrow> if \<not> analysis_unavailable_error e then op_fail e
         else (case moved_span ob of Some why \<Rightarrow> op_return (SpanMoved why) | None \<Rightarrow> op_fail e))"

definition close_evidence :: "'b execution \<Rightarrow> (observation \<times> rt_state) option \<Rightarrow> ('b, close_answer) uop" where
  "close_evidence x seen = op_bind op_get (\<lambda>u.
     op_bind (op_map (attach_subject x (map_option snd seen)) (sn_subjects (pu_view u))) (\<lambda>fps.
     op_bind (on_view (check_map has_outcome_support fps True True)) (\<lambda>verdicts.
     close_judgment (map_option fst seen) fps verdicts)))"

definition never_started_error :: "'b site \<Rightarrow> 'b execution \<Rightarrow> view_error" where
  "never_started_error S x = OtherError (''gofresh: execution ''
     @ go_quote (hn_print (st_harness S)) (ps_identity (ex_process x)) @ '' never started: '' @ te_reason (ex_terminal x))"

definition close_execution :: "'b site \<Rightarrow> bool \<Rightarrow> 'b execution \<Rightarrow> ('b, close_answer) uop" where
  "close_execution S observing x =
     (if te_kind (ex_terminal x) = never_started then op_fail (never_started_error S x)
      else op_bind (if observing then op_bind (close_observation S x) (\<lambda>o1. op_return (Some o1)) else op_return None)
        (close_evidence x))"

text \<open>Close between its two holds of the unit's lock.\<close>

definition close_work :: "'b site \<Rightarrow> ('b, close_answer) uop" where
  "close_work S = op_then ctx_check (op_bind op_get (\<lambda>u. case pu_execution u of
      None \<Rightarrow> op_fail unit_incomplete_error
    | Some x \<Rightarrow> if \<not> ex_ready x \<or> te_kind (ex_terminal x) = 0 then op_fail unit_incomplete_error
        else close_execution S (must_observe u x) x))"

definition start_closing :: "'b producing_unit \<Rightarrow> view_error + 'b producing_unit" where
  "start_closing u = (if pu_phase u \<noteq> UnitOpen then Inl unit_closed_error
     else Inr (u\<lparr>pu_phase := UnitClosing, pu_closing := True\<rparr>))"

definition close_error ::
    "string option \<Rightarrow> unit_phase \<Rightarrow> view_error + close_answer \<Rightarrow> close_refusal + finalized" where
  "close_error caller p r = (case caller of Some c \<Rightarrow> Inl (UnitRefused (ContextError c))
     | None \<Rightarrow> if p = UnitAborted then Inl (UnitRefused unit_aborted_error)
       else (case r of Inl e \<Rightarrow> Inl (UnitRefused e) | Inr (SpanMoved why) \<Rightarrow> Inl (RuntimeSpanError why)
         | Inr (Evidence f) \<Rightarrow> Inr f))"

definition commit_closing ::
    "string option \<Rightarrow> view_error + close_answer \<Rightarrow> 'b producing_unit \<Rightarrow> (close_refusal + finalized) \<times> 'b producing_unit" where
  "commit_closing caller r u = (let answer = close_error caller (pu_phase u) r in
     (answer, u\<lparr>pu_closing := False,
        pu_phase := (case answer of Inr _ \<Rightarrow> UnitClosed
          | Inl _ \<Rightarrow> if pu_phase u = UnitAborted then UnitAborted else UnitFailed)\<rparr>))"

section \<open>The step relation\<close>

datatype producing_event =
    RegisterStarted
  | RegisterRefused view_error
  | Registered nat
  | RegisterFailed view_error
  | Submitted terminal
  | UnitAbort
  | ClosingStarted
  | ClosingGranted finalized
  | ClosingFailed close_refusal

text \<open>Preparation runs on the unit's view; its answer, and closing's, is committed under the lock.\<close>

inductive producing_step ::
    "'b site \<Rightarrow> 'b producing_unit \<Rightarrow> producing_event \<Rightarrow> 'b producing_unit \<Rightarrow> bool" for S where
  step_reserve: "start_registration S caller u b p = Inr u' \<Longrightarrow> producing_step S u RegisterStarted u'"
| step_refuse: "start_registration S caller u b p = Inl e \<Longrightarrow> producing_step S u (RegisterRefused e) u"
| step_register: "pu_preparing u \<Longrightarrow> pu_execution u = Some x
     \<Longrightarrow> prepare_execution S span u (ex_process x) (pu_view u) w = (r, v, w')
     \<Longrightarrow> commit_registration S caller r (u\<lparr>pu_view := v\<rparr>) = (Inr (Some i), u')
     \<Longrightarrow> producing_step S u (Registered i) u'"
| step_register_failed: "pu_preparing u \<Longrightarrow> pu_execution u = Some x
     \<Longrightarrow> prepare_execution S span u (ex_process x) (pu_view u) w = (r, v, w')
     \<Longrightarrow> commit_registration S caller r (u\<lparr>pu_view := v\<rparr>) = (Inl e, u')
     \<Longrightarrow> producing_step S u (RegisterFailed e) u'"
| step_submit: "submit c t u = Inr u' \<Longrightarrow> producing_step S u (Submitted t) u'"
| step_abort: "producing_step S u UnitAbort (abort_producing u)"
| step_closing: "start_closing u = Inr u' \<Longrightarrow> producing_step S u ClosingStarted u'"
| step_granted: "pu_closing u \<Longrightarrow> close_work S u w = (r, u1, w') \<Longrightarrow> commit_closing caller r u1 = (Inr f, u')
     \<Longrightarrow> producing_step S u (ClosingGranted f) u'"
| step_failed: "pu_closing u \<Longrightarrow> close_work S u w = (r, u1, w') \<Longrightarrow> commit_closing caller r u1 = (Inl e, u')
     \<Longrightarrow> producing_step S u (ClosingFailed e) u'"

section \<open>Execute\<close>

definition register_unit ::
    "'b site \<Rightarrow> nat \<Rightarrow> build_binding \<Rightarrow> process_description \<Rightarrow> 'b producing_unit \<Rightarrow> world
      \<Rightarrow> (view_error + contribution) \<times> 'b producing_unit \<times> world" where
  "register_unit S span b p u w = (case start_registration S (w_ctx w (w_clock w)) u b p of
      Inl e \<Rightarrow> (Inl e, u, tick w)
    | Inr u1 \<Rightarrow> (case prepare_execution S span u1 (ex_process (the (pu_execution u1))) (pu_view u1) (tick w) of
        (r, v, w1) \<Rightarrow> (case commit_registration S (w_ctx w1 (w_clock w1)) r (u1\<lparr>pu_view := v\<rparr>) of
          (a, u2) \<Rightarrow> (a, u2, tick w1))))"

definition close_unit ::
    "'b site \<Rightarrow> 'b producing_unit \<Rightarrow> world \<Rightarrow> (close_refusal + finalized) \<times> 'b producing_unit \<times> world" where
  "close_unit S u w = (case start_closing u of Inl e \<Rightarrow> (Inl (UnitRefused e), u, w)
     | Inr u1 \<Rightarrow> (case close_work S u1 w of (r, u2, w2) \<Rightarrow>
         (case commit_closing (w_ctx w2 (w_clock w2)) r u2 of (a, u3) \<Rightarrow> (a, u3, tick w2))))"

definition execute_steps ::
    "'b site \<Rightarrow> nat \<Rightarrow> build_binding \<Rightarrow> process_description
      \<Rightarrow> ('b producing_unit \<Rightarrow> contribution \<Rightarrow> world \<Rightarrow> (view_error + terminal) \<times> world)
      \<Rightarrow> 'b producing_unit \<Rightarrow> world \<Rightarrow> (close_refusal + finalized) \<times> 'b producing_unit \<times> world" where
  "execute_steps S span b p run u w = (case register_unit S span b p u w of
      (Inl e, u1, w1) \<Rightarrow> (Inl (UnitRefused e), u1, w1)
    | (Inr c, u1, w1) \<Rightarrow> (case run u1 c w1 of
        (Inl e, w2) \<Rightarrow> (Inl (UnitRefused e), u1, w2)
      | (Inr t, w2) \<Rightarrow> (case submit c t u1 of
          Inl e \<Rightarrow> (Inl (UnitRefused e), u1, w2)
        | Inr u2 \<Rightarrow> close_unit S u2 w2)))"

text \<open>Execute: the deferred abort ends whatever the steps left open.\<close>

definition execute ::
    "'b site \<Rightarrow> nat \<Rightarrow> build_binding \<Rightarrow> process_description
      \<Rightarrow> ('b producing_unit \<Rightarrow> contribution \<Rightarrow> world \<Rightarrow> (view_error + terminal) \<times> world)
      \<Rightarrow> 'b producing_unit \<Rightarrow> world \<Rightarrow> (close_refusal + finalized) \<times> 'b producing_unit \<times> world" where
  "execute S span b p run u w = (case execute_steps S span b p run u w of (a, u1, w1) \<Rightarrow> (a, abort_producing u1, w1))"

end
