(* ===== verification/Producing_Life.thy ===== *)
theory Producing_Life
  imports Producing_Unit
begin

text \<open>
  The life of a producing unit: what each operation keeps of its state, the invariants of the step
  relation, its reading as a lifecycle, what later steps keep of an execution, and what a grant
  judged. The lemmas show that coherent units stay coherent, that each fact of an execution is made
  by the one step that reports it, and that an open or closing unit keeps its subjects.
\<close>

section \<open>What an operation keeps\<close>

definition keeps :: "('s \<Rightarrow> 'q) \<Rightarrow> ('s, 'a) op \<Rightarrow> bool" where
  "keeps q m \<longleftrightarrow> (\<forall>s w. q (fst (snd (m s w))) = q s)"

lemma keepsD: "keeps q m \<Longrightarrow> m s w = (r, s2, w2) \<Longrightarrow> q s2 = q s"
  by (metis fst_conv snd_conv keeps_def)

lemma producing_reads_keep: "reads_only m \<Longrightarrow> keeps q m"
  by (simp add: keeps_def reads_only_def)

lemma keeps_basic: "keeps q (op_return x)" "keeps q (op_fail e)" "keeps q (op_lift r)" "keeps q (op_ask a)"
  "keeps q op_get" "keeps q ctx_check"
  by (simp_all add: producing_reads_keep reads_only_rules)

lemma keeps_modify: "(\<And>s. q (f s) = q s) \<Longrightarrow> keeps q (op_modify f)"
  by (simp add: keeps_def op_modify_def)

lemma keeps_bind: "keeps q m \<Longrightarrow> (\<And>x. keeps q (f x)) \<Longrightarrow> keeps q (op_bind m f)"
  by (auto simp: keeps_def op_bind_def split: prod.splits sum.splits) (metis fst_conv snd_conv)+

lemma keeps_then: "keeps q m \<Longrightarrow> keeps q n \<Longrightarrow> keeps q (op_then m n)"
  by (simp add: op_then_def keeps_bind)

lemma keeps_try: "keeps q m \<Longrightarrow> keeps q (op_try m)"
  by (auto simp: keeps_def op_try_def split: prod.splits) (metis fst_conv snd_conv)

lemma keeps_map: "(\<And>x. keeps q (f x)) \<Longrightarrow> keeps q (op_map f xs)"
  by (induction xs) (simp_all add: keeps_basic keeps_bind)

lemma keeps_if: "keeps q m \<Longrightarrow> keeps q n \<Longrightarrow> keeps q (if b then m else n)"
  by simp

lemma keeps_option: "keeps q m \<Longrightarrow> (\<And>x. keeps q (f x)) \<Longrightarrow> keeps q (case y of None \<Rightarrow> m | Some x \<Rightarrow> f x)"
  by (simp split: option.split)

lemma keeps_sum: "(\<And>x. keeps q (f x)) \<Longrightarrow> (\<And>x. keeps q (g x)) \<Longrightarrow> keeps q (case y of Inl x \<Rightarrow> f x | Inr x \<Rightarrow> g x)"
  by (simp split: sum.split)

lemma keeps_prod: "(\<And>x y. keeps q (f x y)) \<Longrightarrow> keeps q (case z of (x, y) \<Rightarrow> f x y)"
  by (simp split: prod.split)

lemmas keeps_rules = keeps_basic keeps_bind keeps_then keeps_try keeps_map keeps_if keeps_option keeps_sum keeps_prod

text \<open>Preparation selects proofs on the view; its subjects stay.\<close>

lemma hold_cut_keeps: "keeps sn_subjects m \<Longrightarrow> keeps sn_subjects (hold_cut_unavailable m)"
  unfolding hold_cut_unavailable_def by (intro keeps_rules keeps_modify) simp_all

lemma ensure_observable_keeps: "keeps sn_subjects (ensure_observable subjects)"
  unfolding ensure_observable_def Let_def
  by (intro keeps_rules keeps_modify hold_cut_keeps producing_reads_keep [OF reads_only_observe]
      producing_reads_keep [OF reads_only_context]) (simp_all add: store_proofs_def)

lemma capture_observed_batch_keeps: "keeps sn_subjects capture_observed_batch"
  unfolding capture_observed_batch_def
  by (intro keeps_rules keeps_modify ensure_observable_keeps) simp_all

lemma prepare_outcome_support_keeps: "keeps sn_subjects (prepare_outcome_support S f process env)"
  unfolding prepare_outcome_support_def issue_support_def
  by (intro keeps_rules capture_observed_batch_keeps)

lemma prepare_execution_keeps: "keeps sn_subjects (prepare_execution S span u p)"
  unfolding prepare_execution_def Let_def by (intro keeps_rules prepare_outcome_support_keeps)

section \<open>What closing work keeps\<close>

lemma on_view_keeps: "keeps (\<lambda>u. u\<lparr>pu_view := v\<rparr>) (on_view m)"
  by (simp add: keeps_def on_view_def split: prod.split)

lemma attach_subject_keeps: "keeps (\<lambda>u. u\<lparr>pu_view := v\<rparr>) (attach_subject x inputs s)"
  by (simp add: keeps_def attach_subject_def split: prod.split sum.split)

lemma close_judgment_keeps: "keeps (\<lambda>u. u\<lparr>pu_view := v\<rparr>) (close_judgment ob fps verdicts)"
  unfolding close_judgment_def grant_evidence_def by (intro keeps_rules on_view_keeps)

lemma close_evidence_keeps: "keeps (\<lambda>u. u\<lparr>pu_view := v\<rparr>) (close_evidence x seen)"
  unfolding close_evidence_def
  by (intro keeps_rules on_view_keeps attach_subject_keeps close_judgment_keeps)

lemma close_evidence_view:
  assumes "close_evidence x seen u w = (r, u1, w1)"
  shows "u1 = u\<lparr>pu_view := pu_view u1\<rparr>"
proof -
  have "u1\<lparr>pu_view := pu_view u1\<rparr> = u\<lparr>pu_view := pu_view u1\<rparr>"
    by (rule keepsD [OF close_evidence_keeps assms])
  then show ?thesis by simp
qed

text \<open>What a finished execution's observation is.\<close>

definition observed_as :: "'b site \<Rightarrow> 'b execution \<Rightarrow> observation \<Rightarrow> rt_state \<Rightarrow> string \<Rightarrow> bool" where
  "observed_as S x ob st why \<longleftrightarrow> completed_input_state ob = Inr st
     \<and> (\<exists>receipt cx k. completion (st_platform S) (ex_frame x) (ps_identity (ex_process x)) (ex_env x)
          (te_reason (ex_terminal x)) = Inr receipt
        \<and> fst (observe_process (st_platform S) (st_harness S) (ex_frame x) (ps_capture (ex_process x))
          (execution_ingest x receipt) (ex_outcome_reason x = []) cx k) = Inr (ob, why))"

lemma lift_error_ok: "lift_error S r = Inr x \<longleftrightarrow> r = Inr x"
  by (simp add: lift_error_def split: sum.split)

lemma op_timed_ok: "op_timed S m s w = (Inr x, s1, w1) \<Longrightarrow> s1 = s \<and> fst (m (w_ctx w) (w_clock w)) = Inr x"
  by (auto simp: op_timed_def lift_error_ok split: prod.splits)

lemma op_timed_keeps: "keeps q (op_timed S m)"
  by (simp add: keeps_def op_timed_def split: prod.split)

definition recorded_unit :: "rt_state \<Rightarrow> string \<Rightarrow> string \<Rightarrow> 'b producing_unit \<Rightarrow> 'b producing_unit" where
  "recorded_unit st why attribution u = u\<lparr>pu_execution := map_option (observed_execution st why attribution) (pu_execution u)\<rparr>"

lemma record_observation_eq: "record_observation S ob why u w = (case completed_input_state ob of
    Inl e \<Rightarrow> (Inl (unit_error S e), u, w)
  | Inr st \<Rightarrow> (Inr (), recorded_unit st why (ob_attribution ob) u, w))"
  by (simp add: record_observation_def op_bind_def op_lift_def op_modify_def lift_error_def recorded_unit_def split: sum.split)

lemma close_observation_state:
  assumes "close_observation S x u w = (r, u1, w1)"
  shows "u1 = u \<and> (\<exists>e. r = Inl e)
    \<or> (\<exists>ob st why. observed_as S x ob st why \<and> u1 = recorded_unit st why (ob_attribution ob) u \<and> r = Inr (ob, st))"
proof (cases "completion (st_platform S) (ex_frame x) (ps_identity (ex_process x)) (ex_env x) (te_reason (ex_terminal x))")
  case (Inl e)
  with assms show ?thesis by (auto simp: close_observation_def op_bind_def op_lift_def lift_error_def)
next
  case (Inr receipt)
  let ?m = "observe_process (st_platform S) (st_harness S) (ex_frame x) (ps_capture (ex_process x))
    (execution_ingest x receipt) (ex_outcome_reason x = [])"
  obtain a k where m: "?m (w_ctx w) (w_clock w) = (a, k)" by (cases "?m (w_ctx w) (w_clock w)")
  show ?thesis
  proof (cases a)
    case (Inl e)
    with assms Inr m show ?thesis
      by (auto simp: close_observation_def op_bind_def op_lift_def lift_error_def op_timed_def)
  next
    case (Inr y)
    obtain ob why where y: "y = (ob, why)" by (cases y)
    have t: "op_timed S ?m u w = (Inr (ob, why), u, w\<lparr>w_clock := k\<rparr>)"
      using m Inr y by (simp add: op_timed_def lift_error_def)
    show ?thesis
    proof (cases "completed_input_state ob")
      case (Inl e)
      with assms t \<open>completion _ _ _ _ _ = _\<close> show ?thesis
        by (auto simp: close_observation_def op_bind_def op_lift_def lift_error_def op_then_def record_observation_eq)
    next
      case (Inr st)
      have "observed_as S x ob st why"
        unfolding observed_as_def using Inr m \<open>a = Inr y\<close> y \<open>completion _ _ _ _ _ = _\<close>
        by (intro conjI exI [of _ receipt] exI [of _ "w_ctx w"] exI [of _ "w_clock w"]) simp_all
      moreover have "r = Inr (ob, st) \<and> u1 = recorded_unit st why (ob_attribution ob) u"
        using assms t Inr \<open>completion _ _ _ _ _ = _\<close>
        by (auto simp: close_observation_def op_bind_def op_lift_def lift_error_def op_then_def record_observation_eq
            op_return_def)
      ultimately show ?thesis by blast
    qed
  qed
qed

text \<open>Closing work moves the view, and records at most one observation of its execution.\<close>

definition closes_execution :: "'b site \<Rightarrow> 'b producing_unit \<Rightarrow> 'b producing_unit \<Rightarrow> bool" where
  "closes_execution S u u1 \<longleftrightarrow> u1 = u\<lparr>pu_view := pu_view u1\<rparr>
     \<or> (\<exists>x ob st why. pu_execution u = Some x \<and> ex_ready x \<and> te_kind (ex_terminal x) \<noteq> 0
        \<and> observed_as S x ob st why \<and> u1 = (recorded_unit st why (ob_attribution ob) u)\<lparr>pu_view := pu_view u1\<rparr>)"

lemma close_execution_state:
  assumes "close_execution S observing x u w = (r, u1, w1)"
  shows "u1 = u\<lparr>pu_view := pu_view u1\<rparr>
    \<or> (\<exists>ob st why. observed_as S x ob st why \<and> u1 = (recorded_unit st why (ob_attribution ob) u)\<lparr>pu_view := pu_view u1\<rparr>)"
proof (cases "te_kind (ex_terminal x) = never_started")
  case True
  with assms show ?thesis by (simp add: close_execution_def op_fail_def)
next
  case False
  show ?thesis
  proof (cases observing)
    case False
    with assms \<open>te_kind _ \<noteq> _\<close> have "close_evidence x None u w = (r, u1, w1)"
      by (simp add: close_execution_def op_bind_def op_return_def)
    from close_evidence_view [OF this] show ?thesis by blast
  next
    case True
    obtain a u2 w2 where o1: "close_observation S x u w = (a, u2, w2)" by (cases "close_observation S x u w")
    from close_observation_state [OF o1] show ?thesis
    proof
      assume "u2 = u \<and> (\<exists>e. a = Inl e)"
      with assms True False o1 show ?thesis by (auto simp: close_execution_def op_bind_def)
    next
      assume "\<exists>ob st why. observed_as S x ob st why \<and> u2 = recorded_unit st why (ob_attribution ob) u \<and> a = Inr (ob, st)"
      then obtain ob st why where k: "observed_as S x ob st why" "u2 = recorded_unit st why (ob_attribution ob) u"
        "a = Inr (ob, st)" by blast
      with assms True False o1 have "close_evidence x (Some (ob, st)) u2 w2 = (r, u1, w1)"
        by (simp add: close_execution_def op_bind_def op_return_def)
      from close_evidence_view [OF this] k show ?thesis by blast
    qed
  qed
qed

lemma close_work_cases:
  assumes "close_work S u w = (r, u1, w1)"
  shows "u1 = u \<and> (\<exists>e. r = Inl e)
    \<or> (\<exists>x. pu_execution u = Some x \<and> ex_ready x \<and> te_kind (ex_terminal x) \<noteq> 0
        \<and> close_execution S (must_observe u x) x u (tick w) = (r, u1, w1))"
  using assms
  by (auto simp: close_work_def op_then_def op_bind_def op_get_def op_fail_def ctx_check_def op_ask_def
      split: option.splits if_splits)

lemma close_work_state:
  assumes "close_work S u w = (r, u1, w1)"
  shows "closes_execution S u u1"
  using close_work_cases [OF assms]
proof
  assume "\<exists>x. pu_execution u = Some x \<and> ex_ready x \<and> te_kind (ex_terminal x) \<noteq> 0
    \<and> close_execution S (must_observe u x) x u (tick w) = (r, u1, w1)"
  then obtain x where x: "pu_execution u = Some x" "ex_ready x" "te_kind (ex_terminal x) \<noteq> 0"
    "close_execution S (must_observe u x) x u (tick w) = (r, u1, w1)" by blast
  from close_execution_state [OF x(4)] x(1-3) show ?thesis unfolding closes_execution_def by blast
qed (simp add: closes_execution_def)

section \<open>What a commit leaves\<close>

lemma start_registration_ok:
  assumes "start_registration S caller u b p = Inr u'"
  shows "pu_phase u = UnitOpen \<and> pu_execution u = None
    \<and> (\<exists>q. u' = u\<lparr>pu_execution := Some (reserved_execution q (bb_identity b) (pu_env u)), pu_preparing := True\<rparr>)"
  using assms by (auto simp: start_registration_def split: option.splits sum.splits if_splits)

lemma commit_registration_ok:
  assumes "commit_registration S caller r u = (Inr c, u')"
  shows "pu_phase u = UnitOpen \<and> c = Some (pu_id u)
    \<and> (\<exists>p x b. pu_execution u = Some x \<and> r = Inr p
       \<and> outcome_binding (st_platform S) (pp_frame p) (ps_identity (ex_process x)) (ex_env x) = Inr b
       \<and> u' = u\<lparr>pu_preparing := False, pu_execution := Some (ready_execution (pu_identity_only u) p b x)\<rparr>)"
  using assms
  by (auto simp: commit_registration_def commit_prepared_def Let_def split: option.splits sum.splits if_splits)

lemma commit_registration_failed:
  assumes "commit_registration S caller r u = (Inl e, u')" "pu_execution u \<noteq> None"
  shows "u' = u\<lparr>pu_preparing := False, pu_phase := pu_phase u'\<rparr>
    \<and> pu_phase u' = (if pu_phase u = UnitOpen then UnitFailed else pu_phase u)"
  using assms
  by (auto simp: commit_registration_def commit_prepared_def fail_unit_def Let_def split: option.splits sum.splits if_splits)

lemma submit_ok: "submit c t u = Inr u' \<longleftrightarrow> pu_phase u = UnitOpen \<and> c = Some (pu_id u) \<and> \<not> invalid_terminal t
    \<and> (\<exists>x. pu_execution u = Some x \<and> ex_ready x \<and> te_kind (ex_terminal x) = 0
       \<and> u' = u\<lparr>pu_execution := Some (x\<lparr>ex_terminal := t\<rparr>)\<rparr>)"
  by (auto simp: submit_def split: option.splits)

lemma start_closing_ok: "start_closing u = Inr u' \<longleftrightarrow> pu_phase u = UnitOpen \<and> u' = u\<lparr>pu_phase := UnitClosing, pu_closing := True\<rparr>"
  by (auto simp: start_closing_def)

lemma commit_closing_ok: "commit_closing caller r u = (Inr f, u') \<longleftrightarrow> caller = None \<and> pu_phase u \<noteq> UnitAborted
    \<and> r = Inr (Evidence f) \<and> u' = u\<lparr>pu_closing := False, pu_phase := UnitClosed\<rparr>"
  by (auto simp: commit_closing_def close_error_def Let_def split: option.splits sum.splits close_answer.splits)

lemma commit_closing_failed: "commit_closing caller r u = (Inl e, u') \<Longrightarrow>
    u' = u\<lparr>pu_closing := False, pu_phase := if pu_phase u = UnitAborted then UnitAborted else UnitFailed\<rparr>"
  by (auto simp: commit_closing_def Let_def)

section \<open>Invariants\<close>

definition established :: "'b execution \<Rightarrow> bool" where
  "established x \<longleftrightarrow> rt_manifest (ex_inputs x) \<noteq> []"

definition submitted :: "'b execution \<Rightarrow> bool" where
  "submitted x \<longleftrightarrow> te_kind (ex_terminal x) \<noteq> 0"

text \<open>What an execution's fields rest on.\<close>

definition sound_execution :: "'b site \<Rightarrow> bool \<Rightarrow> 'b execution \<Rightarrow> bool" where
  "sound_execution S identity_only x \<longleftrightarrow>
     (submitted x \<longrightarrow> ex_ready x \<and> \<not> invalid_terminal (ex_terminal x))
   \<and> (established x \<longrightarrow> submitted x \<and> (\<exists>ob. observed_as S x ob (ex_inputs x) (ex_observation_reason x)))
   \<and> (ex_ready x \<longrightarrow> (\<exists>(p :: 'b preparation) b. outcome_binding (st_platform S) (ex_frame x) (ps_identity (ex_process x)) (ex_env x) = Inr b
        \<and> ex_outcome_reason x = outcome_account identity_only p b
        \<and> ex_support x = pp_support p \<and> ex_observed x = pp_observed p))"

definition unit_coherent :: "'b site \<Rightarrow> 'b producing_unit \<Rightarrow> bool" where
  "unit_coherent S u \<longleftrightarrow>
     (pu_closing u \<longrightarrow> pu_phase u = UnitClosing \<or> pu_phase u = UnitAborted)
   \<and> (pu_phase u = UnitClosing \<longrightarrow> pu_closing u)
   \<and> (pu_preparing u \<longrightarrow> (\<exists>x. pu_execution u = Some x \<and> \<not> ex_ready x))
   \<and> (\<forall>x. pu_execution u = Some x \<longrightarrow> sound_execution S (pu_identity_only u) x
        \<and> (established x \<longrightarrow> pu_phase u \<noteq> UnitOpen \<and> \<not> pu_closing u))"

lemma view_sound [simp]: "unit_coherent S (u\<lparr>pu_view := v\<rparr>) = unit_coherent S u"
  by (simp add: unit_coherent_def)

lemma reserved_sound [simp]: "sound_execution S io (reserved_execution p artifact env)" "\<not> established (reserved_execution p artifact env)"
  "\<not> ex_ready (reserved_execution p artifact env)" "\<not> submitted (reserved_execution p artifact env)"
  by (simp_all add: sound_execution_def reserved_execution_def submitted_def established_def no_terminal_def no_rt_state_def)

lemma ready_sound:
  assumes "sound_execution S io x" "\<not> ex_ready x"
    and "outcome_binding (st_platform S) (pp_frame p) (ps_identity (ex_process x)) (ex_env x) = Inr b"
  shows "sound_execution S io (ready_execution io p b x)"
  using assms by (auto simp: sound_execution_def ready_execution_def established_def submitted_def)

lemma submit_sound:
  assumes "sound_execution S io x" "ex_ready x" "\<not> submitted x" "\<not> invalid_terminal t"
  shows "sound_execution S io (x\<lparr>ex_terminal := t\<rparr>)"
  using assms by (auto simp: sound_execution_def established_def submitted_def)

lemma recorded_sound:
  assumes "sound_execution S io x" "submitted x" "observed_as S x ob st why"
  shows "sound_execution S io (observed_execution st why attribution x)"
  using assms
  by (auto simp: sound_execution_def submitted_def observed_execution_def observed_as_def execution_ingest_def)

lemma closed_sound:
  assumes "closes_execution S u u1" "unit_coherent S u" "pu_closing u"
  shows "pu_phase u1 = pu_phase u \<and> pu_closing u1 \<and> pu_preparing u1 = pu_preparing u \<and> pu_identity_only u1 = pu_identity_only u
    \<and> (\<forall>x. pu_execution u1 = Some x \<longrightarrow> sound_execution S (pu_identity_only u) x)
    \<and> (pu_preparing u \<longrightarrow> (\<exists>x. pu_execution u1 = Some x \<and> \<not> ex_ready x))"
  using assms(1) unfolding closes_execution_def
proof
  assume "u1 = u\<lparr>pu_view := pu_view u1\<rparr>"
  then obtain v where "u1 = u\<lparr>pu_view := v\<rparr>" by blast
  with assms(2,3) show ?thesis by (auto simp: unit_coherent_def)
next
  assume "\<exists>x ob st why. pu_execution u = Some x \<and> ex_ready x \<and> te_kind (ex_terminal x) \<noteq> 0
    \<and> observed_as S x ob st why \<and> u1 = (recorded_unit st why (ob_attribution ob) u)\<lparr>pu_view := pu_view u1\<rparr>"
  then obtain x ob st why v where k: "pu_execution u = Some x" "ex_ready x" "te_kind (ex_terminal x) \<noteq> 0"
    "observed_as S x ob st why" "u1 = (recorded_unit st why (ob_attribution ob) u)\<lparr>pu_view := v\<rparr>" by blast
  then have "sound_execution S (pu_identity_only u) (observed_execution st why (ob_attribution ob) x)"
    using assms(2) recorded_sound unfolding unit_coherent_def submitted_def by blast
  with k assms(2,3) show ?thesis
    by (auto simp: unit_coherent_def recorded_unit_def)
qed

lemma producing_step_sound:
  assumes "producing_step S u e u'" "unit_coherent S u"
  shows "unit_coherent S u'"
  using assms(1)
proof cases
  case (step_reserve caller b p)
  from start_registration_ok [OF step_reserve(2)] assms(2) show ?thesis
    by (auto simp: unit_coherent_def)
next
  case (step_register x span w r v w' caller i)
  from commit_registration_ok [OF step_register(5)] obtain p b where
    k: "pu_phase u = UnitOpen" "outcome_binding (st_platform S) (pp_frame p) (ps_identity (ex_process x)) (ex_env x) = Inr b"
    "u' = u\<lparr>pu_view := v, pu_preparing := False, pu_execution := Some (ready_execution (pu_identity_only u) p b x)\<rparr>"
    using step_register(3) by auto
  have "sound_execution S (pu_identity_only u) x" "\<not> ex_ready x" "\<not> established x"
    using step_register(2,3) assms(2) k(1) by (auto simp: unit_coherent_def)
  moreover from this k(2) have "sound_execution S (pu_identity_only u) (ready_execution (pu_identity_only u) p b x)"
    by (simp add: ready_sound)
  ultimately show ?thesis using k assms(2)
    by (auto simp: unit_coherent_def established_def ready_execution_def)
next
  case (step_register_failed x span w r v w' caller e')
  from commit_registration_failed [OF step_register_failed(5)] step_register_failed(3)
  obtain q where "u' = u\<lparr>pu_view := v, pu_preparing := False, pu_phase := q\<rparr>"
    "q = (if pu_phase u = UnitOpen then UnitFailed else pu_phase u)" by auto
  with assms(2) show ?thesis by (auto simp: unit_coherent_def)
next
  case (step_submit c t)
  then obtain x where k: "pu_phase u = UnitOpen" "\<not> invalid_terminal t" "pu_execution u = Some x" "ex_ready x"
    "te_kind (ex_terminal x) = 0" "u' = u\<lparr>pu_execution := Some (x\<lparr>ex_terminal := t\<rparr>)\<rparr>"
    by (auto simp: submit_ok)
  then have "sound_execution S (pu_identity_only u) (x\<lparr>ex_terminal := t\<rparr>)" "\<not> established x"
    using assms(2) by (auto simp: unit_coherent_def submitted_def intro: submit_sound)
  with k assms(2) show ?thesis by (auto simp: unit_coherent_def established_def)
next
  case step_abort
  with assms(2) show ?thesis
    by (cases "pu_phase u") (auto simp: unit_coherent_def abort_producing_def abort_phase_def)
next
  case step_closing
  with assms(2) show ?thesis by (auto simp: unit_coherent_def start_closing_ok)
next
  case (step_granted w r u1 w' caller f)
  from closed_sound [OF close_work_state [OF step_granted(3)] assms(2) step_granted(2)] step_granted(4) assms(2)
  show ?thesis by (auto simp: unit_coherent_def commit_closing_ok)
next
  case (step_failed w r u1 w' caller e')
  from closed_sound [OF close_work_state [OF step_failed(3)] assms(2) step_failed(2)]
    commit_closing_failed [OF step_failed(4)] assms(2)
  show ?thesis by (auto simp: unit_coherent_def)
qed (use assms(2) in simp_all)

interpretation producing_sound: step_invariant "producing_step S" "unit_coherent S"
  by unfold_locales (rule producing_step_sound)

lemma begin_unit_ok:
  assumes "begin_unit i b subjects io = Inr u"
  shows "pu_phase u = UnitOpen \<and> pu_execution u = None \<and> \<not> pu_preparing u \<and> \<not> pu_closing u
    \<and> pu_id u = i \<and> pu_identity_only u = io \<and> unit_coherent S u"
  using assms by (auto simp: begin_unit_def unit_coherent_def split: sum.splits if_splits)

section \<open>The unit's lifecycle\<close>

definition grants_evidence :: "producing_event \<Rightarrow> bool" where
  "grants_evidence e = (case e of ClosingGranted _ \<Rightarrow> True | _ \<Rightarrow> False)"

lemma closed_phase:
  assumes "closes_execution S u u1"
  shows "pu_phase u1 = pu_phase u \<and> pu_closing u1 = pu_closing u \<and> pu_id u1 = pu_id u
    \<and> pu_identity_only u1 = pu_identity_only u \<and> pu_preparing u1 = pu_preparing u"
proof -
  from assms obtain t v where "u1 = t\<lparr>pu_view := v\<rparr>" "t = u \<or> (\<exists>st why a. t = recorded_unit st why a u)"
    unfolding closes_execution_def by blast
  then show ?thesis by (auto simp: recorded_unit_def)
qed

lemma producing_step_edge:
  assumes "producing_step S u e u'" "unit_coherent S u"
  shows "phase_edge (pu_phase u) (pu_phase u')"
  using assms(1)
proof cases
  case (step_reserve caller b p)
  from start_registration_ok [OF step_reserve(2)] show ?thesis by simp
next
  case (step_register x span w r v w' caller i)
  from commit_registration_ok [OF step_register(5)] show ?thesis by auto
next
  case (step_register_failed x span w r v w' caller e')
  from commit_registration_failed [OF step_register_failed(5)] step_register_failed(3) show ?thesis by auto
next
  case step_abort
  then show ?thesis by (simp add: abort_producing_def)
next
  case (step_granted w r u1 w' caller f)
  with closed_phase [OF close_work_state [OF step_granted(3)]] assms(2) show ?thesis
    by (auto simp: commit_closing_ok unit_coherent_def)
next
  case (step_failed w r u1 w' caller e')
  with closed_phase [OF close_work_state [OF step_failed(3)]] commit_closing_failed [OF step_failed(4)] assms(2)
  show ?thesis by (auto simp: unit_coherent_def)
qed (auto simp: submit_ok start_closing_ok)

lemma producing_grant_closes:
  assumes "producing_step S u e u'" "unit_coherent S u" "grants_evidence e"
  shows "pu_phase u = UnitClosing \<and> pu_phase u' = UnitClosed"
  using assms(1)
proof cases
  case (step_granted w r u1 w' caller f)
  with closed_phase [OF close_work_state [OF step_granted(3)]] assms(2) show ?thesis
    by (auto simp: commit_closing_ok unit_coherent_def)
qed (use assms(3) in \<open>auto simp: grants_evidence_def\<close>)

interpretation producing_life: lifecycle "producing_step S" "unit_coherent S" pu_phase grants_evidence
  by unfold_locales (rule producing_step_edge, assumption+, rule producing_grant_closes)

section \<open>What later steps keep\<close>

text \<open>An account's established facts.\<close>

definition facts_kept :: "process_account \<Rightarrow> process_account \<Rightarrow> bool" where
  "facts_kept a c \<longleftrightarrow> pa_process c = pa_process a \<and> pa_artifact c = pa_artifact a
   \<and> (pa_prepared a \<longrightarrow> pa_prepared c \<and> pa_outcome_reason c = pa_outcome_reason a)
   \<and> (te_kind (pa_terminal a) \<noteq> 0 \<longrightarrow> pa_terminal c = pa_terminal a)
   \<and> (pa_observation a \<noteq> UnknownObservation \<longrightarrow> pa_observation c = pa_observation a
        \<and> pa_observation_reason c = pa_observation_reason a \<and> pa_attribution c = pa_attribution a
        \<and> pa_inputs c = pa_inputs a)"

definition execution_kept :: "'b execution \<Rightarrow> 'b execution \<Rightarrow> bool" where
  "execution_kept x y \<longleftrightarrow> ex_process y = ex_process x \<and> ex_artifact y = ex_artifact x \<and> ex_env y = ex_env x
   \<and> (ex_ready x \<longrightarrow> ex_ready y \<and> ex_frame y = ex_frame x \<and> ex_support y = ex_support x
        \<and> ex_fingerprints y = ex_fingerprints x \<and> ex_observed y = ex_observed x \<and> ex_outcome_reason y = ex_outcome_reason x)
   \<and> (submitted x \<longrightarrow> ex_terminal y = ex_terminal x)
   \<and> (established x \<longrightarrow> ex_ready x \<and> ex_inputs y = ex_inputs x \<and> ex_observation_reason y = ex_observation_reason x
        \<and> ex_attribution y = ex_attribution x)"

lemma disposition_known: "disposition_of x \<noteq> UnknownObservation \<longleftrightarrow> established x"
  by (simp add: disposition_of_def established_def)

lemma account_kept:
  assumes "execution_kept x y"
  shows "facts_kept (account_of x) (account_of y)"
proof -
  have "established x \<Longrightarrow> disposition_of y = disposition_of x"
    using assms by (simp add: execution_kept_def disposition_of_def)
  with assms show ?thesis
    by (auto simp: facts_kept_def execution_kept_def account_of_def submitted_def disposition_known)
qed

definition executions_kept :: "'b producing_unit \<Rightarrow> 'b producing_unit \<Rightarrow> bool" where
  "executions_kept s t \<longleftrightarrow> (\<forall>x. pu_execution s = Some x \<longrightarrow> (\<exists>y. pu_execution t = Some y \<and> execution_kept x y))"

lemma execution_kept_refl: "sound_execution S io x \<Longrightarrow> execution_kept x x"
  by (auto simp: execution_kept_def sound_execution_def)

lemma execution_kept_trans: "execution_kept x y \<Longrightarrow> execution_kept y z \<Longrightarrow> execution_kept x z"
  by (auto simp: execution_kept_def submitted_def established_def)

text \<open>Steps from coherent units stay coherent and keep what their executions established.\<close>

definition unit_kept :: "'b site \<Rightarrow> 'b producing_unit \<Rightarrow> 'b producing_unit \<Rightarrow> bool" where
  "unit_kept S s t \<longleftrightarrow> (unit_coherent S s \<longrightarrow> unit_coherent S t \<and> pu_id t = pu_id s
     \<and> pu_identity_only t = pu_identity_only s \<and> executions_kept s t)"

lemma executions_same: "unit_coherent S s \<Longrightarrow> pu_execution t = pu_execution s \<Longrightarrow> executions_kept s t"
  unfolding executions_kept_def unit_coherent_def using execution_kept_refl by metis

lemma recorded_kept: "\<not> established x \<Longrightarrow> execution_kept x (observed_execution st why attribution x)"
  by (simp add: execution_kept_def observed_execution_def)

lemma closed_kept:
  assumes "closes_execution S u u1" "unit_coherent S u" "pu_closing u"
  shows "executions_kept u u1"
  using assms(1) unfolding closes_execution_def
proof
  assume "u1 = u\<lparr>pu_view := pu_view u1\<rparr>"
  then obtain v where "u1 = u\<lparr>pu_view := v\<rparr>" by blast
  then have "pu_execution u1 = pu_execution u" by simp
  with assms(2) show ?thesis by (rule executions_same)
next
  assume "\<exists>x ob st why. pu_execution u = Some x \<and> ex_ready x \<and> te_kind (ex_terminal x) \<noteq> 0
    \<and> observed_as S x ob st why \<and> u1 = (recorded_unit st why (ob_attribution ob) u)\<lparr>pu_view := pu_view u1\<rparr>"
  then obtain x st why a v where k: "pu_execution u = Some x" "u1 = (recorded_unit st why a u)\<lparr>pu_view := v\<rparr>" by blast
  moreover have "\<not> established x" using assms(2,3) k(1) by (auto simp: unit_coherent_def)
  ultimately show ?thesis using recorded_kept by (simp add: executions_kept_def recorded_unit_def)
qed

lemma ready_kept:
  assumes "\<not> ex_ready x" "sound_execution S io x"
  shows "execution_kept x (ready_execution io p b x)"
  using assms by (auto simp: execution_kept_def ready_execution_def sound_execution_def)

lemma producing_step_kept:
  assumes "producing_step S u e u'"
  shows "unit_kept S u u'"
proof -
  have "executions_kept u u' \<and> pu_id u' = pu_id u \<and> pu_identity_only u' = pu_identity_only u" if c: "unit_coherent S u"
    using assms
  proof cases
    case (step_reserve caller b p)
    from start_registration_ok [OF step_reserve(2)] show ?thesis by (auto simp: executions_kept_def)
  next
    case (step_register x span w r v w' caller i)
    from commit_registration_ok [OF step_register(5)] step_register(3) obtain p b where
      "pu_execution u' = Some (ready_execution (pu_identity_only u) p b x)" "pu_id u' = pu_id u"
      "pu_identity_only u' = pu_identity_only u" by auto
    moreover have "\<not> ex_ready x" "sound_execution S (pu_identity_only u) x"
      using c step_register(2,3) by (auto simp: unit_coherent_def)
    ultimately show ?thesis using step_register(3) ready_kept by (auto simp: executions_kept_def)
  next
    case (step_register_failed x span w r v w' caller e')
    from commit_registration_failed [OF step_register_failed(5)] step_register_failed(3)
    obtain q where "u' = u\<lparr>pu_view := v, pu_preparing := False, pu_phase := q\<rparr>" by auto
    then show ?thesis using executions_same [OF c, of u'] by simp
  next
    case (step_submit c' t)
    then obtain x where k: "pu_execution u = Some x" "ex_ready x" "te_kind (ex_terminal x) = 0"
      "u' = u\<lparr>pu_execution := Some (x\<lparr>ex_terminal := t\<rparr>)\<rparr>" by (auto simp: submit_ok)
    moreover have "sound_execution S (pu_identity_only u) x" using c k(1) by (simp add: unit_coherent_def)
    ultimately have "execution_kept x (x\<lparr>ex_terminal := t\<rparr>)"
      by (auto simp: execution_kept_def sound_execution_def submitted_def)
    with k show ?thesis by (simp add: executions_kept_def)
  next
    case step_abort
    then show ?thesis using executions_same [OF c, of u'] by (simp add: abort_producing_def)
  next
    case step_closing
    then show ?thesis using executions_same [OF c, of u'] by (auto simp: start_closing_ok)
  next
    case (step_granted w r u1 w' caller f)
    with closed_kept [OF close_work_state [OF step_granted(3)] c step_granted(2)]
      closed_phase [OF close_work_state [OF step_granted(3)]] show ?thesis
      by (auto simp: commit_closing_ok executions_kept_def)
  next
    case (step_failed w r u1 w' caller e')
    with closed_kept [OF close_work_state [OF step_failed(3)] c step_failed(2)]
      closed_phase [OF close_work_state [OF step_failed(3)]] commit_closing_failed [OF step_failed(4)] show ?thesis
      by (auto simp: executions_kept_def)
  qed (use executions_same [OF c refl] in simp)
  with producing_step_sound [OF assms] show ?thesis by (simp add: unit_kept_def)
qed

lemma unit_kept_trans: "unit_kept S s t \<Longrightarrow> unit_kept S t u \<Longrightarrow> unit_kept S s u"
  unfolding unit_kept_def executions_kept_def using execution_kept_trans by (metis (no_types, lifting))

interpretation producing_order: step_order "producing_step S" "unit_kept S"
  by unfold_locales (rule producing_step_kept, assumption, simp add: unit_kept_def executions_same,
    rule unit_kept_trans)

section \<open>What a grant judged\<close>

text \<open>The fingerprint a subject's attachment answers: the prepared one with the observed inputs.\<close>

definition attached_fingerprint :: "'b execution \<Rightarrow> rt_state option \<Rightarrow> subject \<Rightarrow> fingerprint" where
  "attached_fingerprint x inputs s = (let f = map_get no_fingerprint (ex_fingerprints x) s in
     case inputs of None \<Rightarrow> f
     | Some st \<Rightarrow> f\<lparr>fp_runtime_inputs := rt_manifest st, fp_runtime_digest := rt_digest st\<rparr>)"

definition judged_evidence :: "'b execution \<Rightarrow> rt_state option \<Rightarrow> subject list \<Rightarrow> finalized \<Rightarrow> bool" where
  "judged_evidence x inputs subjects f \<longleftrightarrow> (\<exists>fps verdicts v1 w1 v2 w2 v3 w3.
     f = finalize (account_of x) fps verdicts
   \<and> fps = map (\<lambda>s. (s, attached_fingerprint x inputs s)) subjects
   \<and> check_map has_outcome_support fps True True v1 w1 = (Inr verdicts, v2, w2)
   \<and> validate has_outcome_support v2 w2 = (Inr (), v3, w3))"

lemma attach_subject_ok:
  assumes "attach_subject x inputs s u w = (Inr p, u1, w1)"
  shows "p = (s, attached_fingerprint x inputs s)"
  using assms
  by (auto simp: attach_subject_def attach_runtime_state_def attached_fingerprint_def Let_def
      split: sum.splits option.splits if_splits)

lemma attach_subjects_ok:
  "op_map (attach_subject x inputs) subjects u w = (Inr fps, u1, w1)
     \<Longrightarrow> fps = map (\<lambda>s. (s, attached_fingerprint x inputs s)) subjects"
  by (induction subjects arbitrary: u w fps) (auto simp: op_bind_ok op_return_ok dest: attach_subject_ok)

lemma on_view_ok: "on_view m u w = (r, u1, w1) \<longleftrightarrow> (\<exists>v. u1 = u\<lparr>pu_view := v\<rparr> \<and> m (pu_view u) w = (r, v, w1))"
  by (auto simp: on_view_def split: prod.splits)

lemma close_judgment_granted:
  assumes "close_judgment ob fps verdicts u w = (Inr (Evidence f), u1, w1)"
  shows "\<exists>x v w2. validate has_outcome_support (pu_view u) w = (Inr (), v, w2) \<and> u1 = u\<lparr>pu_view := v\<rparr>
    \<and> pu_execution u = Some x \<and> f = finalize (account_of x) fps verdicts"
proof -
  obtain r u2 w2 where r: "on_view (validate has_outcome_support) u w = (r, u2, w2)"
    by (cases "on_view (validate has_outcome_support) u w")
  with assms have g: "r = Inr () \<and> grant_evidence fps verdicts u2 w2 = (Inr (Evidence f), u1, w1)"
    by (auto simp: close_judgment_def op_bind_def op_try_def op_fail_def op_return_def split: sum.splits if_splits option.splits)
  moreover from r obtain v where "u2 = u\<lparr>pu_view := v\<rparr>" "validate has_outcome_support (pu_view u) w = (r, v, w2)"
    unfolding on_view_ok by blast
  moreover have "\<exists>x. pu_execution u2 = Some x \<and> f = finalize (account_of x) fps verdicts \<and> u1 = u2"
    using g by (auto simp: grant_evidence_def op_bind_def op_get_def op_fail_def op_return_def split: option.splits)
  ultimately show ?thesis by auto
qed

lemma close_evidence_granted:
  assumes "close_evidence x seen u w = (Inr (Evidence f), u1, w1)" "pu_execution u = Some y"
    and "ex_fingerprints y = ex_fingerprints x"
  shows "judged_evidence y (map_option snd seen) (sn_subjects (pu_view u)) f"
proof -
  from assms(1) obtain fps u2 w2 verdicts u3 w3 where
    a: "op_map (attach_subject x (map_option snd seen)) (sn_subjects (pu_view u)) u w = (Inr fps, u2, w2)"
    and c: "on_view (check_map has_outcome_support fps True True) u2 w2 = (Inr verdicts, u3, w3)"
    and j: "close_judgment (map_option fst seen) fps verdicts u3 w3 = (Inr (Evidence f), u1, w1)"
    by (auto simp: close_evidence_def op_bind_ok op_get_ok)
  have u2: "u2\<lparr>pu_view := pu_view u\<rparr> = u\<lparr>pu_view := pu_view u\<rparr>"
    by (rule keepsD [OF keeps_map [OF attach_subject_keeps] a])
  from c obtain v2 where v: "u3 = u2\<lparr>pu_view := v2\<rparr>"
    "check_map has_outcome_support fps True True (pu_view u2) w2 = (Inr verdicts, v2, w3)" unfolding on_view_ok by blast
  have "pu_execution (u2\<lparr>pu_view := pu_view u\<rparr>) = Some y" unfolding u2 using assms(2) by simp
  then have x: "pu_execution u3 = Some y" using v(1) by simp
  from close_judgment_granted [OF j] x v(1) obtain v3 w4 where
    "validate has_outcome_support v2 w3 = (Inr (), v3, w4)" "f = finalize (account_of y) fps verdicts" by auto
  moreover have "attached_fingerprint x inputs s = attached_fingerprint y inputs s" for inputs s
    using assms(3) by (simp add: attached_fingerprint_def)
  then have "fps = map (\<lambda>s. (s, attached_fingerprint y (map_option snd seen) s)) (sn_subjects (pu_view u))"
    using attach_subjects_ok [OF a] by simp
  ultimately show ?thesis using v(2) unfolding judged_evidence_def by blast
qed

definition final_inputs :: "'b producing_unit \<Rightarrow> 'b execution \<Rightarrow> rt_state option" where
  "final_inputs u x = (if must_observe u x then Some (ex_inputs x) else None)"

lemma close_work_granted:
  assumes "close_work S u w = (Inr (Evidence f), u1, w1)"
  shows "\<exists>x y. pu_execution u = Some x \<and> ex_ready x \<and> submitted x \<and> te_kind (ex_terminal x) \<noteq> never_started
    \<and> pu_execution u1 = Some y \<and> ex_terminal y = ex_terminal x \<and> judged_evidence y (final_inputs u1 y) (sn_subjects (pu_view u)) f"
proof -
  from close_work_cases [OF assms] obtain x where x: "pu_execution u = Some x" "ex_ready x" "te_kind (ex_terminal x) \<noteq> 0"
    and e: "close_execution S (must_observe u x) x u (tick w) = (Inr (Evidence f), u1, w1)" by auto
  have n: "te_kind (ex_terminal x) \<noteq> never_started" using e by (auto simp: close_execution_def)
  show ?thesis
  proof (cases "must_observe u x")
    case False
    with e n have "close_evidence x None u (tick w) = (Inr (Evidence f), u1, w1)"
      by (simp add: close_execution_def op_bind_ok op_return_ok)
    from close_evidence_granted [OF this x(1) refl] close_evidence_view [OF this]
    obtain v where "judged_evidence x None (sn_subjects (pu_view u)) f" "u1 = u\<lparr>pu_view := v\<rparr>" by auto
    moreover from this(2) False have "final_inputs u1 x = None" by (simp add: final_inputs_def must_observe_def)
    ultimately show ?thesis using x n by (auto simp: submitted_def)
  next
    case True
    with e n obtain o1 st u2 w2 where o1: "close_observation S x u (tick w) = (Inr (o1, st), u2, w2)"
      and c: "close_evidence x (Some (o1, st)) u2 w2 = (Inr (Evidence f), u1, w1)"
      by (auto simp: close_execution_def op_bind_ok op_return_ok)
    from close_observation_state [OF o1] obtain why where u2: "u2 = recorded_unit st why (ob_attribution o1) u" by auto
    let ?y = "observed_execution st why (ob_attribution o1) x"
    have y: "pu_execution u2 = Some ?y" "ex_fingerprints ?y = ex_fingerprints x" "sn_subjects (pu_view u2) = sn_subjects (pu_view u)"
      using u2 x(1) by (simp_all add: recorded_unit_def observed_execution_def)
    from close_evidence_granted [OF c y(1,2)] close_evidence_view [OF c]
    obtain v where g: "judged_evidence ?y (Some st) (sn_subjects (pu_view u)) f" "u1 = u2\<lparr>pu_view := v\<rparr>"
      using y(3) by auto
    have "final_inputs u1 ?y = Some st"
      using True u2 g(2) by (auto simp: final_inputs_def must_observe_def recorded_unit_def observed_execution_def)
    with g y(1) x n show ?thesis by (auto simp: submitted_def observed_execution_def)
  qed
qed

section \<open>When a step established what holds\<close>

lemma runs_establish:
  assumes "runs step s es u" "\<not> Q s" "Q u"
  shows "\<exists>fs e gs t t'. es = fs @ e # gs \<and> runs step s fs t \<and> step t e t' \<and> runs step t' gs u \<and> \<not> Q t \<and> Q t'"
  using assms
proof (induction rule: runs.induct)
  case (runs_snoc s es t e u)
  show ?case
  proof (cases "Q t")
    case True
    with runs_snoc obtain fs e' gs t1 t2 where "es = fs @ e' # gs" "runs step s fs t1" "step t1 e' t2" "runs step t2 gs t"
      "\<not> Q t1" "Q t2" by blast
    then show ?thesis
      by (intro exI [of _ fs] exI [of _ e'] exI [of _ "gs @ [e]"] exI [of _ t1] exI [of _ t2])
        (auto intro: runs.runs_snoc runs_snoc(2))
  next
    case False
    with runs_snoc show ?thesis
      by (intro exI [of _ es] exI [of _ e] exI [of _ "[]"] exI [of _ t] exI [of _ u]) (auto intro: runs.intros)
  qed
qed simp

definition ready_unit :: "'b producing_unit \<Rightarrow> bool" where
  "ready_unit u \<longleftrightarrow> (\<exists>x. pu_execution u = Some x \<and> ex_ready x)"

definition submitted_unit :: "'b producing_unit \<Rightarrow> bool" where
  "submitted_unit u \<longleftrightarrow> (\<exists>x. pu_execution u = Some x \<and> submitted x)"

lemma closes_settled:
  assumes "closes_execution S u u1"
  shows "map_option (\<lambda>x. (ex_ready x, ex_terminal x)) (pu_execution u1)
    = map_option (\<lambda>x. (ex_ready x, ex_terminal x)) (pu_execution u)"
proof -
  from assms obtain t v where "u1 = t\<lparr>pu_view := v\<rparr>" "t = u \<or> (\<exists>st why a. t = recorded_unit st why a u)"
    unfolding closes_execution_def by blast
  then show ?thesis by (cases "pu_execution u") (auto simp: recorded_unit_def observed_execution_def)
qed

lemma settled_ready: "map_option (\<lambda>x. (ex_ready x, ex_terminal x)) a = map_option (\<lambda>x. (ex_ready x, ex_terminal x)) b
    \<Longrightarrow> (\<exists>x. a = Some x \<and> ex_ready x) = (\<exists>x. b = Some x \<and> ex_ready x)
      \<and> (\<exists>x. a = Some x \<and> submitted x) = (\<exists>x. b = Some x \<and> submitted x)"
  by (cases a; cases b) (simp_all add: submitted_def)

text \<open>Each fact of an execution is made by the step that reports it, and by no other.\<close>

definition reports :: "producing_event \<Rightarrow> 'b producing_unit \<Rightarrow> 'b producing_unit \<Rightarrow> bool" where
  "reports e u u' \<longleftrightarrow> (ready_unit u' \<and> \<not> ready_unit u \<longrightarrow> (\<exists>i. e = Registered i))
   \<and> (submitted_unit u' \<and> \<not> submitted_unit u \<longrightarrow> ready_unit u \<and> (\<exists>x. pu_execution u' = Some x \<and> e = Submitted (ex_terminal x)))
   \<and> (pu_closing u' \<and> \<not> pu_closing u \<longrightarrow> e = ClosingStarted \<and> pu_phase u = UnitOpen)
   \<and> (pu_phase u \<noteq> UnitOpen \<longrightarrow> pu_phase u' \<noteq> UnitOpen \<and> submitted_unit u' = submitted_unit u)"

lemma closing_reports:
  assumes "closes_execution S u u1" "pu_closing u" "pu_execution u' = pu_execution u1" "\<not> pu_closing u'"
    and "pu_phase u' \<noteq> UnitOpen"
  shows "reports e u u'"
  using assms settled_ready [OF closes_settled [OF assms(1)]]
  unfolding reports_def ready_unit_def submitted_unit_def by simp blast

lemma producing_step_reports:
  assumes "producing_step S u e u'" "unit_coherent S u"
  shows "reports e u u'"
  using assms(1)
proof cases
  case (step_reserve caller b p)
  from start_registration_ok [OF step_reserve(2)] show ?thesis
    by (auto simp: reports_def ready_unit_def submitted_unit_def)
next
  case (step_register x span w r v w' caller i)
  from commit_registration_ok [OF step_register(5)] step_register(3) show ?thesis
    by (auto simp: step_register(1) reports_def ready_unit_def submitted_unit_def ready_execution_def submitted_def)
next
  case (step_register_failed x span w r v w' caller e')
  from commit_registration_failed [OF step_register_failed(5)] step_register_failed(3)
  obtain q where "u' = u\<lparr>pu_view := v, pu_preparing := False, pu_phase := q\<rparr>"
    "q = (if pu_phase u = UnitOpen then UnitFailed else pu_phase u)" by auto
  then show ?thesis by (auto simp: reports_def ready_unit_def submitted_unit_def)
next
  case (step_submit c t)
  then show ?thesis by (auto simp: reports_def ready_unit_def submitted_unit_def submit_ok)
next
  case step_abort
  then show ?thesis
    by (cases "pu_phase u") (auto simp: reports_def ready_unit_def submitted_unit_def abort_producing_def abort_phase_def)
next
  case step_closing
  then show ?thesis by (auto simp: reports_def ready_unit_def submitted_unit_def start_closing_ok)
next
  case (step_granted w r u1 w' caller f)
  from step_granted(4) show ?thesis
    by (intro closing_reports [OF close_work_state [OF step_granted(3)] step_granted(2)]) (auto simp: commit_closing_ok)
next
  case (step_failed w r u1 w' caller e')
  from commit_closing_failed [OF step_failed(4)] show ?thesis
    by (intro closing_reports [OF close_work_state [OF step_failed(3)] step_failed(2)]) auto
qed (simp add: reports_def)

lemma run_reports:
  assumes "runs (producing_step S) s es u" "unit_coherent S s" "\<not> Q s" "Q u"
  shows "\<exists>fs e gs t t'. es = fs @ e # gs \<and> runs (producing_step S) s fs t \<and> producing_step S t e t'
    \<and> runs (producing_step S) t' gs u \<and> reports e t t' \<and> \<not> Q t \<and> Q t' \<and> unit_coherent S t'"
proof -
  from runs_establish [of "producing_step S" s es u Q] assms obtain fs e gs t t' where
    r: "es = fs @ e # gs" "runs (producing_step S) s fs t" "producing_step S t e t'" "runs (producing_step S) t' gs u"
      "\<not> Q t" "Q t'" by blast
  from producing_sound.runs_keep [OF r(2) assms(2)] have t: "unit_coherent S t" .
  with r producing_step_reports [OF r(3) t] producing_step_sound [OF r(3) t] show ?thesis by blast
qed

lemma run_registered:
  assumes "runs (producing_step S) s es u" "unit_coherent S s" "\<not> ready_unit s" "ready_unit u"
  shows "\<exists>as i bs. es = as @ Registered i # bs"
proof -
  from run_reports [of S s es u ready_unit, OF assms] obtain as e bs t t' where
    "es = as @ e # bs" "producing_step S t e t'" "reports e t t'" "\<not> ready_unit t" "ready_unit t'" by blast
  then show ?thesis by (auto simp: reports_def)
qed

lemma run_settled:
  assumes "runs (producing_step S) s es u" "unit_coherent S s" "pu_phase s \<noteq> UnitOpen"
  shows "pu_phase u \<noteq> UnitOpen \<and> submitted_unit u = submitted_unit s"
  using assms
proof (induction rule: runs.induct)
  case (runs_snoc s es t e u)
  with producing_step_reports [OF runs_snoc(2) producing_sound.runs_keep [OF runs_snoc(1)]] show ?case
    by (auto simp: reports_def)
qed simp

text \<open>The protocol of a unit whose closing has a submitted execution.\<close>

lemma closing_protocol:
  assumes "runs (producing_step S) u0 es u" "unit_coherent S u0" "pu_execution u0 = None" "\<not> pu_closing u0"
    and "pu_closing u" "pu_execution u = Some x" "submitted x"
  shows "\<exists>as i bs cs ds. es = as @ Registered i # bs @ Submitted (ex_terminal x) # cs @ ClosingStarted # ds"
proof -
  from run_reports [of S u0 es u pu_closing, OF assms(1,2,4,5)] obtain as1 e1 ds t1 t1' where
    c: "es = as1 @ e1 # ds" "runs (producing_step S) u0 as1 t1" "producing_step S t1 e1 t1'" "runs (producing_step S) t1' ds u"
      "reports e1 t1 t1'" "\<not> pu_closing t1" "pu_closing t1'" "unit_coherent S t1'" by blast
  then have e1: "e1 = ClosingStarted" "pu_phase t1 = UnitOpen" by (auto simp: reports_def)
  with c(3,6,7) have t1': "pu_execution t1' = pu_execution t1" "pu_phase t1' \<noteq> UnitOpen"
    by (auto simp: start_closing_ok elim: producing_step.cases)
  from run_settled [OF c(4,8) t1'(2)] assms(6,7) have "submitted_unit t1'" by (simp add: submitted_unit_def)
  then have "submitted_unit t1" using t1'(1) by (simp add: submitted_unit_def)
  then obtain y where y: "pu_execution t1 = Some y" "submitted y" by (auto simp: submitted_unit_def)
  have "\<not> submitted_unit u0" using assms(3) by (simp add: submitted_unit_def)
  from run_reports [of S u0 as1 t1 submitted_unit, OF c(2) assms(2) this \<open>submitted_unit t1\<close>] obtain as2 e2 cs t2 t2' where s: "as1 = as2 @ e2 # cs" "runs (producing_step S) u0 as2 t2"
    "runs (producing_step S) t2' cs t1" "reports e2 t2 t2'" "\<not> submitted_unit t2" "submitted_unit t2'" "unit_coherent S t2'"
    by blast
  then obtain z where z: "ready_unit t2" "pu_execution t2' = Some z" "e2 = Submitted (ex_terminal z)" "submitted z"
    by (auto simp: reports_def submitted_unit_def)
  have "unit_kept S t2' t1" by (rule producing_order.runs_below [OF s(3)])
  with s(7) z(2,4) y have ty: "ex_terminal y = ex_terminal z"
    by (auto simp: unit_kept_def executions_kept_def execution_kept_def)
  have "unit_kept S t1' u" by (rule producing_order.runs_below [OF c(4)])
  with c(8) y t1'(1) assms(6) have tx: "ex_terminal x = ex_terminal y"
    by (auto simp: unit_kept_def executions_kept_def execution_kept_def)
  have "\<not> ready_unit u0" using assms(3) by (simp add: ready_unit_def)
  from run_registered [OF s(2) assms(2) this z(1)] obtain as3 i bs where r: "as2 = as3 @ Registered i # bs" by blast
  with c(1) s(1) r e1(1) z(3) tx ty
  have "es = as3 @ Registered i # bs @ Submitted (ex_terminal x) # cs @ ClosingStarted # ds" by simp
  then show ?thesis by blast
qed

text \<open>The subjects of an open or closing unit are those it was begun with.\<close>

definition active_unit :: "'b producing_unit \<Rightarrow> bool" where
  "active_unit u \<longleftrightarrow> pu_phase u = UnitOpen \<or> pu_closing u"

definition roster_kept :: "'b producing_unit \<Rightarrow> 'b producing_unit \<Rightarrow> bool" where
  "roster_kept s t \<longleftrightarrow> (active_unit t \<longrightarrow> active_unit s \<and> sn_subjects (pu_view t) = sn_subjects (pu_view s))"

lemma producing_step_roster:
  assumes "producing_step S u e u'"
  shows "roster_kept u u'"
  using assms
proof cases
  case (step_reserve caller b p)
  from start_registration_ok [OF step_reserve(2)] show ?thesis by (auto simp: roster_kept_def active_unit_def)
next
  case (step_register x span w r v w' caller i)
  have "sn_subjects v = sn_subjects (pu_view u)" by (rule keepsD [OF prepare_execution_keeps step_register(4)])
  with commit_registration_ok [OF step_register(5)] show ?thesis by (auto simp: roster_kept_def active_unit_def)
next
  case (step_register_failed x span w r v w' caller e')
  have "sn_subjects v = sn_subjects (pu_view u)" by (rule keepsD [OF prepare_execution_keeps step_register_failed(4)])
  moreover from commit_registration_failed [OF step_register_failed(5)] step_register_failed(3)
  obtain q where "u' = u\<lparr>pu_view := v, pu_preparing := False, pu_phase := q\<rparr>"
    "q = (if pu_phase u = UnitOpen then UnitFailed else pu_phase u)" by auto
  ultimately show ?thesis by (auto simp: roster_kept_def active_unit_def)
next
  case (step_submit c t)
  then show ?thesis by (auto simp: submit_ok roster_kept_def active_unit_def)
next
  case step_abort
  then show ?thesis by (cases "pu_phase u") (simp_all add: abort_producing_def abort_phase_def roster_kept_def active_unit_def)
next
  case step_closing
  then show ?thesis by (auto simp: start_closing_ok roster_kept_def active_unit_def)
next
  case (step_granted w r u1 w' caller f)
  then show ?thesis by (auto simp: commit_closing_ok roster_kept_def active_unit_def)
next
  case (step_failed w r u1 w' caller e')
  from commit_closing_failed [OF step_failed(4)] show ?thesis by (auto simp: roster_kept_def active_unit_def)
qed (simp add: roster_kept_def)

interpretation producing_roster: step_order "producing_step S" roster_kept
  by unfold_locales (rule producing_step_roster, auto simp: roster_kept_def)

end
