(* ===== verification/Producing_Promises.thy ===== *)
theory Producing_Promises
  imports Producing_Life
begin

text \<open>
  What a producing unit promises. Evidence is granted at most once and rests on one registered,
  submitted and closed execution; established facts of the account survive every later step; a
  supported observation rests on a normal completion; Execute ends the unit. Two runs of a unit
  over a one-subject package apply the promises: an ordinary execution whose close grants, and a
  killed one whose close is refused.
\<close>

section \<open>Terminals\<close>

lemma admitted_terminal:
  assumes "\<not> invalid_terminal t" "te_kind t \<noteq> never_started"
  shows "te_kind t \<in> {normal_completion, abnormal_completion}"
proof -
  have "unat (te_kind t) \<noteq> 3" using assms(2) by (simp add: never_started_def word_unat_eq_iff)
  moreover have "0 < unat (te_kind t)" "unat (te_kind t) \<le> 3"
    using assms(1) by (auto simp: invalid_terminal_def normal_completion_def never_started_def word_less_nat_alt not_less)
  ultimately have "unat (te_kind t) = 1 \<or> unat (te_kind t) = 2" by linarith
  then show ?thesis by (auto simp: normal_completion_def abnormal_completion_def word_unat_eq_iff)
qed

lemma normal_terminal: "\<not> invalid_terminal t \<Longrightarrow> te_reason t = [] \<Longrightarrow> te_kind t = normal_completion"
  by (auto simp: invalid_terminal_def)

section \<open>The unit's promises\<close>


definition ends_producing :: "producing_event \<Rightarrow> bool" where
  "ends_producing e = (case e of UnitAbort \<Rightarrow> True | ClosingGranted _ \<Rightarrow> True | ClosingFailed _ \<Rightarrow> True | _ \<Rightarrow> False)"

lemma producing_step_ends:
  assumes "producing_step S u e u'" "ends_producing e"
  shows "ended (pu_phase u')"
  using assms(1)
proof cases
  case step_abort
  then show ?thesis by (cases "pu_phase u") (simp_all add: abort_producing_def abort_phase_def ended_def)
next
  case (step_granted w r u1 w' caller f)
  then show ?thesis by (auto simp: commit_closing_ok ended_def)
next
  case (step_failed w r u1 w' caller e')
  from commit_closing_failed [OF step_failed(4)] show ?thesis by (auto simp: ended_def)
qed (use assms(2) in \<open>auto simp: ends_producing_def\<close>)

text \<open>C18: A producing unit grants evidence at most once, a unit that granted is closed, and after an
abort, a failed close or a grant nothing is granted any more, whatever registrations, submissions or
closings are still under way.\<close>

theorem producing_grants_once:
  assumes "begin_unit i b subjects io = Inr u0" "runs (producing_step S) u0 (es @ e # fs) u"
  shows "length (filter grants_evidence (es @ e # fs)) \<le> 1
    \<and> (filter grants_evidence (es @ e # fs) \<noteq> [] \<longrightarrow> pu_phase u = UnitClosed)
    \<and> (ends_producing e \<longrightarrow> filter grants_evidence fs = [])"
proof -
  have u0: "unit_coherent S u0" "pu_phase u0 \<noteq> UnitClosed" using begin_unit_ok [OF assms(1)] by auto
  from runs_split [of "producing_step S" _ "es @ [e]" fs u] assms(2) obtain t where
    pre: "runs (producing_step S) u0 (es @ [e]) t" and post: "runs (producing_step S) t fs u" by auto
  from runs_snocD [OF pre] obtain s where "producing_step S s e t" by blast
  then have "ends_producing e \<Longrightarrow> ended (pu_phase t)" by (rule producing_step_ends)
  with producing_life.ended_grants_nothing [OF post producing_sound.runs_keep [OF pre u0(1)]]
    producing_life.grants_once [OF assms(2) u0] show ?thesis by (auto simp: filter_empty_conv)
qed

text \<open>C19: An account never loses what it reported. Once a unit's account is available it names the same
process and artifact; a prepared execution stays prepared with its outcome account, a submitted
terminal disposition stays the disposition, and a finalized observation stays as it was finalized,
through every later step, aborts and refused closes included.\<close>

theorem account_facts_persist:
  assumes "begin_unit i b subjects io = Inr u0" "runs (producing_step S) u0 es s" "runs (producing_step S) s fs t"
    and "unit_account s = Some a"
  shows "\<exists>c. unit_account t = Some c \<and> facts_kept a c"
proof -
  have "unit_coherent S s" using producing_sound.runs_keep [OF assms(2)] begin_unit_ok [OF assms(1)] by blast
  with producing_order.runs_below [OF assms(3)] have "executions_kept s t" by (simp add: unit_kept_def)
  moreover from assms(4) obtain x where "pu_execution s = Some x" "a = account_of x" by (auto simp: unit_account_def)
  ultimately show ?thesis using account_kept by (auto simp: executions_kept_def unit_account_def)
qed

text \<open>What the classification of a log promises: it supports no subject it was not given.\<close>

definition classification_law :: "'b harness \<Rightarrow> bool" where
  "classification_law h \<longleftrightarrow> (\<forall>opts log env ob s. hn_classify h opts log env = Inr ob
     \<longrightarrow> has_outcome_support (rt_manifest (ob_state ob)) s \<longrightarrow> s \<in> set (lo_subjects opts))"

definition supported_execution :: "'b site \<Rightarrow> 'b execution \<Rightarrow> bool" where
  "supported_execution S x \<longleftrightarrow> te_kind (ex_terminal x) = normal_completion \<and> ex_outcome_reason x = [] \<and> ex_observed x \<noteq> {}
   \<and> (\<exists>b. outcome_binding (st_platform S) (ex_frame x) (ps_identity (ex_process x)) (ex_env x) = Inr b
       \<and> support_reason (ex_support x) b = [])
   \<and> (\<exists>log. hn_log (st_harness S) (ps_capture (ex_process x)) = LogText log \<and> has_prefix log testlog_header
       \<and> list_all admitted_line (split_byte newline log))
   \<and> (\<forall>s\<in>ex_observed x. outcome_subject (map_get no_fingerprint (ex_fingerprints x) s) s \<in> set (support_subjects (ex_support x)))"

lemma classified_subjects:
  assumes "classified P h f req log ob" "classification_law h" "has_outcome_support (rt_manifest (ob_state ob)) s"
  shows "s \<in> set (support_subjects (in_outcome req))"
proof -
  from assms(1) obtain bracket roots where "hn_classify h (classification_options h f bracket roots req) log (in_env req) = Inr ob"
    unfolding classified_def by blast
  with assms(2,3) have "s \<in> set (lo_subjects (classification_options h f bracket roots req))"
    unfolding classification_law_def by blast
  then show ?thesis by (simp add: classification_options_def)
qed

lemma completion_ok: "completion P f process env reason = Inr c \<Longrightarrow> cr_reason c = reason"
  by (auto simp: completion_def bind_res_Inr_iff)

text \<open>An observation with neither a reason nor a missing subject was ingested with its support.\<close>

lemma observed_support:
  assumes "observed_as S x ob (ex_inputs x) []" "classification_law (st_harness S)"
    and "\<forall>s\<in>ex_observed x. has_outcome_support (rt_manifest (ex_inputs x)) (outcome_subject (map_get no_fingerprint (ex_fingerprints x) s) s)"
    and "ex_observed x \<noteq> {}" "\<not> invalid_terminal (ex_terminal x)"
  shows "supported_execution S x"
proof -
  let ?key = "\<lambda>s. outcome_subject (map_get no_fingerprint (ex_fingerprints x) s) s"
  from assms(1) obtain receipt cx k where st: "completed_input_state ob = Inr (ex_inputs x)"
    and c: "completion (st_platform S) (ex_frame x) (ps_identity (ex_process x)) (ex_env x) (te_reason (ex_terminal x)) = Inr receipt"
    and o1: "fst (observe_process (st_platform S) (st_harness S) (ex_frame x) (ps_capture (ex_process x))
      (execution_ingest x receipt) (ex_outcome_reason x = []) cx k) = Inr (ob, [])"
    unfolding observed_as_def by blast
  let ?req = "if ex_outcome_reason x = [] then execution_ingest x receipt else (execution_ingest x receipt)\<lparr>in_outcome := no_support\<rparr>"
  from observe_ok [OF o1] have ci: "completed_ingest (st_platform S) (st_harness S) (ex_frame x) (ps_capture (ex_process x))
      (execution_ingest x receipt) (ex_outcome_reason x = []) ob" by simp
  then obtain b log where b: "cr_reason receipt = []"
    "outcome_binding (st_platform S) (ex_frame x) (ps_identity (ex_process x)) (ex_env x) = Inr b"
    "ex_outcome_reason x = [] \<longrightarrow> support_reason (ex_support x) b = []"
    and l: "hn_log (st_harness S) (ps_capture (ex_process x)) = LogText log" "has_prefix log testlog_header"
    "ex_outcome_reason x = [] \<longrightarrow> list_all admitted_line (split_byte newline log)"
    "classified (st_platform S) (st_harness S) (ex_frame x) ?req log ob"
    unfolding completed_ingest_def by (auto simp: execution_ingest_def)
  have "te_reason (ex_terminal x) = []" using completion_ok [OF c] b(1) by simp
  from normal_terminal [OF assms(5) this] have n: "te_kind (ex_terminal x) = normal_completion" .
  have "ob_state ob = ex_inputs x" using st by (auto simp: completed_input_state_def split: option.splits if_splits)
  with assms(3) classified_subjects [OF l(4) assms(2)] have
    k: "\<forall>s\<in>ex_observed x. ?key s \<in> set (support_subjects (in_outcome ?req))" by simp
  have e: "ex_outcome_reason x = []"
  proof (rule ccontr)
    assume "ex_outcome_reason x \<noteq> []"
    with k assms(4) show False by (auto simp: support_subjects_def no_support_def)
  qed
  from k e have "\<forall>s\<in>ex_observed x. ?key s \<in> set (support_subjects (ex_support x))" by (simp add: execution_ingest_def)
  with n e b(2,3) l(1-3) assms(4) show ?thesis unfolding supported_execution_def by blast
qed


section \<open>Execute returns\<close>

lemma register_unit_phase:
  assumes "register_unit S span b p u w = (r, u1, w1)"
  shows "pu_phase u1 = UnitClosed \<longleftrightarrow> pu_phase u = UnitClosed"
proof (cases "start_registration S (w_ctx w (w_clock w)) u b p")
  case (Inl e)
  with assms show ?thesis by (simp add: register_unit_def)
next
  case (Inr t)
  obtain q v w2 where p: "prepare_execution S span t (ex_process (the (pu_execution t))) (pu_view t) (tick w) = (q, v, w2)"
    by (cases "prepare_execution S span t (ex_process (the (pu_execution t))) (pu_view t) (tick w)")
  from start_registration_ok [OF Inr] have t: "pu_phase u = UnitOpen" "pu_phase t = UnitOpen" "pu_execution t \<noteq> None" by auto
  from assms Inr p have c: "commit_registration S (w_ctx w2 (w_clock w2)) q (t\<lparr>pu_view := v\<rparr>) = (r, u1)"
    by (auto simp: register_unit_def split: prod.splits)
  have "pu_phase u1 \<noteq> UnitClosed"
  proof (cases r)
    case (Inl e)
    with commit_registration_failed [OF c [unfolded Inl]] t show ?thesis by simp
  next
    case (Inr i)
    with commit_registration_ok [OF c [unfolded Inr]] t show ?thesis by auto
  qed
  with t(1) show ?thesis by simp
qed

lemma close_unit_phase:
  assumes "close_unit S u w = (a, u1, w1)"
  shows "if pu_phase u = UnitOpen then ended (pu_phase u1) \<and> (pu_phase u1 = UnitClosed \<longleftrightarrow> (\<exists>f. a = Inr f))
    else u1 = u \<and> (\<exists>e. a = Inl e)"
proof (cases "start_closing u")
  case (Inl e)
  with assms show ?thesis by (auto simp: close_unit_def start_closing_def split: if_splits)
next
  case (Inr t)
  obtain r t2 w2 where w: "close_work S t w = (r, t2, w2)" by (cases "close_work S t w")
  from assms Inr w have c: "commit_closing (w_ctx w2 (w_clock w2)) r t2 = (a, u1)"
    by (auto simp: close_unit_def split: prod.splits)
  have "pu_phase u = UnitOpen" using Inr by (simp add: start_closing_ok)
  moreover have "ended (pu_phase u1) \<and> (pu_phase u1 = UnitClosed \<longleftrightarrow> (\<exists>f. a = Inr f))"
  proof (cases a)
    case (Inl e)
    with commit_closing_failed [OF c [unfolded Inl]] show ?thesis by (simp add: ended_def)
  next
    case (Inr f)
    with c show ?thesis by (auto simp: commit_closing_ok ended_def)
  qed
  ultimately show ?thesis by simp
qed

lemma execute_steps_closed:
  assumes "execute_steps S span b p run u w = (a, u1, w1)"
  shows "(\<exists>f. a = Inr f) \<longleftrightarrow> pu_phase u \<noteq> UnitClosed \<and> pu_phase u1 = UnitClosed"
proof -
  obtain r t tw where r: "register_unit S span b p u w = (r, t, tw)" by (cases "register_unit S span b p u w")
  note ph = register_unit_phase [OF r]
  show ?thesis
  proof (cases r)
    case (Inl e)
    with assms r ph show ?thesis by (auto simp: execute_steps_def)
  next
    case (Inr c)
    obtain q rw where q: "run t c tw = (q, rw)" by (cases "run t c tw")
    show ?thesis
    proof (cases q)
      case (Inl e)
      with assms r Inr q ph show ?thesis by (auto simp: execute_steps_def)
    next
      case (Inr te)
      show ?thesis
      proof (cases "submit c te t")
        case (Inl e)
        with assms r \<open>r = Inr c\<close> q Inr ph show ?thesis by (auto simp: execute_steps_def)
      next
        case (Inr t2)
        with assms r \<open>r = Inr c\<close> q \<open>q = Inr te\<close> have "close_unit S t2 rw = (a, u1, w1)" by (simp add: execute_steps_def)
        from close_unit_phase [OF this] Inr ph show ?thesis by (auto simp: submit_ok)
      qed
    qed
  qed
qed

text \<open>C20: Execute always returns with its unit ended. Whatever the registration, the callback, the
submission and the closing answer, no unit is left open or closing; and Execute answers evidence
exactly when this call took the unit to closed, so an ended unit without evidence was failed or
aborted.\<close>

theorem execute_ends_unit:
  "ended (pu_phase (fst (snd (execute S span b p run u w))))
   \<and> ((\<exists>f. fst (execute S span b p run u w) = Inr f)
      \<longleftrightarrow> pu_phase u \<noteq> UnitClosed \<and> pu_phase (fst (snd (execute S span b p run u w))) = UnitClosed)"
proof -
  obtain a t tw where e: "execute_steps S span b p run u w = (a, t, tw)" by (cases "execute_steps S span b p run u w")
  then have x: "execute S span b p run u w = (a, abort_producing t, tw)" by (simp add: execute_def)
  have "ended (pu_phase (abort_producing t))"
    by (cases "pu_phase t") (simp_all add: abort_producing_def abort_phase_def ended_def)
  moreover have "pu_phase (abort_producing t) = UnitClosed \<longleftrightarrow> pu_phase t = UnitClosed"
    by (cases "pu_phase t") (simp_all add: abort_producing_def abort_phase_def)
  ultimately show ?thesis using execute_steps_closed [OF e] by (simp only: x fst_conv snd_conv)
qed

section \<open>A unit of the example package\<close>

definition sample_site :: "unit site" where
  "sample_site = \<lparr>st_platform = sample_platform, st_harness = sample_harness, st_bracket = (\<lambda>_ _ _. Inr ()),
     st_root = ''/r'', st_abs = Inr, st_canonical = Inr, st_build_dir = ''/r'', st_build_env = []\<rparr>"

definition begun_view :: snapshot where
  "begun_view = example_view\<lparr>sn_captured := {}, sn_observable := (\<lambda>_. None),
     sn_facts := Some (sibling_facts example_facts [example_subject] [''p'']),
     sn_runtime := Some \<lparr>rg_machine = [], rg_runtime_config = []\<rparr>\<rparr>"

definition sample_binding :: runtime_binding where
  "sample_binding = \<lparr>rb_generation = 0, rb_snapshot = example_view\<lparr>sn_captured := {}, sn_observable := (\<lambda>_. None)\<rparr>,
     rb_dir = ''/r/p'', rb_env = [], rb_guards = \<lparr>rg_machine = [], rg_runtime_config = []\<rparr>\<rparr>"

definition begun :: "bool \<Rightarrow> unit producing_unit" where
  "begun io = \<lparr>pu_id = 0, pu_generation = 0, pu_view = begun_view, pu_dir = ''/r/p'', pu_env = [],
     pu_identity_only = io, pu_phase = UnitOpen, pu_execution = None, pu_preparing = False, pu_closing = False\<rparr>"

lemma sample_begun: "begin_unit 0 sample_binding [example_subject] io = Inr (begun io)"
  by (simp add: begin_unit_def bound_view_def sibling_def sample_binding_def begun_def begun_view_def example_view_def
      require_subjects_def missing_subjects_def first_seen_def scope_subjects_def empty_subject_def
      example_subject_def single_subject_model_def restrict_to_def Let_def)

definition bound_world :: "nat \<Rightarrow> world" where
  "bound_world n = (world_at n)\<lparr>w_runtime_guards := (\<lambda>_. Inr \<lparr>rg_machine = [], rg_runtime_config = []\<rparr>)\<rparr>"

lemma bound_ctx: "ctx_check s (bound_world n) = (Inr (), s, bound_world (Suc n))"
  by (simp add: bound_world_def world_at_def example_world_def ctx_check_def op_eval)

definition sample_process :: process_description where
  "sample_process = \<lparr>ps_identity = ''p1'', ps_capture = [], ps_brackets = [], ps_excluded = [], ps_scratch_root = [],
     ps_namespaces = []\<rparr>"

definition sample_build :: build_binding where
  "sample_build = \<lparr>bb_generation = 0, bb_package = ''p'', bb_identity = ''bin''\<rparr>"

definition sample_frame :: "unit producer_frame" where
  "sample_frame = \<lparr>fr_root = ''/r'', fr_pkg_dir = ''/r/p'', fr_pkg_rel = ''p'', fr_bracket = Some (), fr_reason = [],
     fr_span = Some 0\<rparr>"

definition sample_prepared :: "unit preparation" where
  "sample_prepared = \<lparr>pp_frame = sample_frame, pp_support = no_support,
     pp_fingerprints = [example_subject \<mapsto> fingerprint_locked begun_view example_subject (closure_of (facts_of begun_view) example_subject)],
     pp_observed = {}\<rparr>"

lemma empty_env: "normalize_env sample_platform [] = Inr []" by code_simp

lemma sample_binds: "outcome_binding sample_platform f ''p1'' []
    = Inr (bind_execution (fr_span f) ''p1'' (sha256_hex (join_with [nul] [])) (fr_root f) (fr_pkg_dir f))"
  using line_texts(1) empty_env by (simp add: outcome_binding_def manifest_step_def normalize_environment_def)

definition reserved :: "bool \<Rightarrow> unit producing_unit" where
  "reserved io = (begun io)\<lparr>pu_execution := Some (reserved_execution sample_process ''bin'' []), pu_preparing := True\<rparr>"

lemma sample_reserved: "start_registration sample_site None (begun io) sample_build sample_process = Inr (reserved io)"
  by (simp add: start_registration_def admit_process_def other_build_def begun_def reserved_def sample_build_def sample_process_def
      sample_site_def sample_binds begun_view_def example_view_def example_subject_def)

lemma sample_framed: "capture_frame (hn_links sample_harness) (\<lambda>_ _ _. Inr ()) 0 ''/r'' ''/r/p'' opts = sample_frame"
proof -
  have "path_rel ''/r'' ''/r/p'' = Some ''p''" by code_simp
  then show ?thesis by (simp add: capture_frame_def sample_harness_def sample_frame_def has_prefix_def Let_def)
qed

lemma begun_fields: "sn_subjects begun_view = [example_subject]" "sn_sealed begun_view = False" "sn_facts begun_view \<noteq> None"
  by (simp_all add: begun_view_def example_view_def)

lemma begun_answers: "observation_needed begun_view [example_subject \<mapsto> fingerprint_locked begun_view example_subject
    (closure_of (facts_of begun_view) example_subject)] example_subject = False"
proof -
  have "v_status (decide (fingerprint_locked begun_view example_subject (closure_of (facts_of begun_view) example_subject))
      (closure_of (facts_of begun_view) example_subject) (snapshot_guards begun_view) no_rt_state (sn_kind begun_view)
      (purity_matches begun_view (fingerprint_locked begun_view example_subject (closure_of (facts_of begun_view) example_subject)) example_subject)) = Valid"
    by code_simp
  then show ?thesis by (simp add: observation_needed_def)
qed

lemma sample_prepares:
  "prepare_execution sample_site 0 (reserved io) sample_process begun_view (bound_world n)
    = (Inr sample_prepared, begun_view, bound_world (Suc n))"
  using begun_answers begun_fields
  by (simp add: prepare_execution_def sample_framed sample_site_def reserved_def begun_def capture_batch_def
      observed_subjects_def bound_ctx sample_prepared_def sample_process_def Let_def op_try_def op_bind_def op_lift_def op_get_def op_then_def op_return_def)

definition sample_bound :: binding where
  "sample_bound = bind_execution (Some 0) ''p1'' (sha256_hex (join_with [nul] [])) ''/r'' ''/r/p''"

definition sample_execution :: "bool \<Rightarrow> terminal \<Rightarrow> unit execution" where
  "sample_execution io t = (ready_execution io sample_prepared sample_bound (reserved_execution sample_process ''bin'' []))\<lparr>ex_terminal := t\<rparr>"

definition sample_unit :: "bool \<Rightarrow> terminal \<Rightarrow> unit producing_unit" where
  "sample_unit io t = (begun io)\<lparr>pu_execution := Some (sample_execution io t)\<rparr>"

lemma sample_registered:
  "producing_step sample_site (begun io) RegisterStarted (reserved io)"
  "producing_step sample_site (reserved io) (Registered 0) (sample_unit io no_terminal)"
proof -
  show "producing_step sample_site (begun io) RegisterStarted (reserved io)" by (rule step_reserve [OF sample_reserved])
  let ?u = "(reserved io)\<lparr>pu_view := begun_view\<rparr>"
  have r: "pu_preparing (reserved io)" "pu_execution (reserved io) = Some (reserved_execution sample_process ''bin'' [])"
    "pu_view (reserved io) = begun_view"
    by (simp_all add: reserved_def begun_def)
  have p: "prepare_execution sample_site 0 (reserved io) (ex_process (reserved_execution sample_process ''bin'' []))
      (pu_view (reserved io)) (bound_world 0) = (Inr sample_prepared, begun_view, bound_world 1)"
    using sample_prepares [of io 0] r(3) by (simp add: reserved_execution_def)
  have "commit_registration sample_site None (Inr sample_prepared) ?u = (Inr (Some 0), sample_unit io no_terminal)"
    by (simp add: commit_registration_def commit_prepared_def reserved_def begun_def sample_unit_def sample_execution_def
        sample_site_def sample_prepared_def sample_frame_def sample_binds sample_process_def reserved_execution_def
        ready_execution_def sample_bound_def)
  from step_register [OF r(1,2) p this] show "producing_step sample_site (reserved io) (Registered 0) (sample_unit io no_terminal)" .
qed

definition closing_unit :: "bool \<Rightarrow> terminal \<Rightarrow> unit producing_unit" where
  "closing_unit io t = (sample_unit io t)\<lparr>pu_phase := UnitClosing, pu_closing := True\<rparr>"

lemma sample_closing:
  assumes "\<not> invalid_terminal t"
  shows "runs (producing_step sample_site) (begun io) [RegisterStarted, Registered 0, Submitted t] (sample_unit io t)"
    "runs (producing_step sample_site) (begun io) [RegisterStarted, Registered 0, Submitted t, ClosingStarted] (closing_unit io t)"
proof -
  have "submit (Some 0) t (sample_unit io no_terminal) = Inr (sample_unit io t)"
    unfolding submit_ok using assms
    by (simp add: sample_unit_def begun_def sample_execution_def ready_execution_def no_terminal_def)
  from runs_snoc [OF runs_two [of "producing_step sample_site", OF sample_registered] step_submit [OF this]]
  show r: "runs (producing_step sample_site) (begun io) [RegisterStarted, Registered 0, Submitted t] (sample_unit io t)" by simp
  have "start_closing (sample_unit io t) = Inr (closing_unit io t)"
    by (simp add: start_closing_def sample_unit_def begun_def closing_unit_def)
  from runs_snoc [OF r step_closing [OF this]]
  show "runs (producing_step sample_site) (begun io) [RegisterStarted, Registered 0, Submitted t, ClosingStarted] (closing_unit io t)" by simp
qed

text \<open>An execution its executor reports as killed.\<close>

definition killed_terminal :: terminal where
  "killed_terminal = \<lparr>te_kind = abnormal_completion, te_reason = ''exit 9''\<rparr>"

lemma killed_completes: "completed_input_state (killed ''p1'' ''exit 9'') = Inr (reason_state ''exit 9'')"
proof -
  have "accepted_input sample_platform [] no_reader [] (killed ''p1'' ''exit 9'')" by (rule killed_accepted [OF line_texts(1,3)])
  then have "validate_observation (killed ''p1'' ''exit 9'') = None" by (simp add: accepted_input_def)
  then show ?thesis
    by (simp add: completed_input_state_def) (simp add: killed_def new_observation_def Let_def seal_observation_def)
qed

lemma live_background: "live m background k = m background (Suc k)"
  by (simp add: live_def background_def)

lemma killed_incomplete:
  "incomplete_observation sample_platform root no_reader background ''p1'' ''exit 9'' [] = Inr (killed ''p1'' ''exit 9'')"
proof -
  have "\<not> blank ''exit 9''" by (rule not_blank) simp_all
  note l = line_texts(1,3) this
  have e: "encode_manifest (reason_manifest ''exit 9'') = Inr (rt_manifest (reason_state ''exit 9''))"
    by (simp only: reason_encodes reason_valid(2) [OF l(2)] simp_thms)
  show ?thesis
    using l e empty_env reason_evaluates(2) [OF l(2), of sample_platform root no_reader 1 "[]"]
    by (simp add: incomplete_observation_def manifest_step_def killed_def background_def [THEN fun_cong] normalize_environment_def)
qed

lemma killed_fails_closed:
  assumes "in_identity req = ''p1''" "in_env req = []"
  shows "fail_closed sample_platform sample_harness f req ''exit 9'' background k
    = (Inr (killed ''p1'' ''exit 9'', ''exit 9''), k + 5)"
proof -
  have "(\<lambda>i. background (Suc (k + i))) = background" for k by (simp add: background_def)
  with killed_incomplete [of "fr_root f"] show ?thesis
    unfolding fail_closed_def live_background
    by (simp add: assms sample_harness_def timed_return_def Let_def live_background)
qed

lemma killed_observed:
  assumes "x = sample_execution io killed_terminal"
  shows "close_observation sample_site x u (bound_world n)
    = (Inr (killed ''p1'' ''exit 9'', reason_state ''exit 9''),
       recorded_unit (reason_state ''exit 9'') ''exit 9'' (ob_attribution (killed ''p1'' ''exit 9'')) u, bound_world (n + 6))"
proof -
  let ?r = "\<lparr>cr_binding = sample_bound, cr_reason = ''exit 9''\<rparr>" and ?i = "execution_ingest x \<lparr>cr_binding = sample_bound, cr_reason = ''exit 9''\<rparr>"
  have f: "ex_process x = sample_process" "ex_env x = []" "ex_frame x = sample_frame" "te_reason (ex_terminal x) = ''exit 9''"
    by (simp_all add: assms sample_execution_def ready_execution_def reserved_execution_def sample_prepared_def killed_terminal_def)
  have b: "outcome_binding sample_platform sample_frame ''p1'' [] = Inr sample_bound"
    by (simp add: sample_binds sample_frame_def sample_bound_def)
  then have c: "completion sample_platform sample_frame ''p1'' [] ''exit 9'' = Inr ?r" by (simp add: completion_def)
  have n: "sample_bound \<noteq> no_binding" by (simp add: sample_bound_def no_binding_def bind_execution_def)
  have i: "in_identity ?i = ''p1''" "in_env ?i = []" "in_completion ?i = ?r"
    by (simp_all add: execution_ingest_def f sample_process_def)
  have p: "completion_premise sample_platform sample_harness sample_frame ?i = (no_binding, ''exit 9'')"
    by (simp add: completion_premise_def i b n)
  have w: "w_ctx (bound_world n) = background" "w_clock (bound_world n) = n"
    by (simp_all add: bound_world_def world_at_def example_world_def background_def fun_eq_iff)
  have o1: "observe_process sample_platform sample_harness sample_frame [] ?i need background k
      = (Inr (killed ''p1'' ''exit 9'', ''exit 9''), k + 6)" for need k
    by (simp add: observe_process_def live_background p killed_fails_closed i Let_def)
  have "op_timed sample_site (observe_process sample_platform sample_harness sample_frame [] ?i need) u (bound_world n)
      = (Inr (killed ''p1'' ''exit 9'', ''exit 9''), u, bound_world (n + 6))" for need
    by (simp add: op_timed_def w o1 lift_error_def) (simp add: bound_world_def world_at_def)
  then show ?thesis
    by (simp add: close_observation_def f sample_process_def sample_site_def [THEN arg_cong, of st_platform]
      sample_site_def [THEN arg_cong, of st_harness] c op_bind_def op_lift_def lift_error_def op_then_def
      record_observation_eq killed_completes op_return_def)
qed

text \<open>Closing a killed identity execution, by a caller that has gone.\<close>

definition killed_execution :: "unit execution" where
  "killed_execution = observed_execution (reason_state ''exit 9'') ''exit 9'' (ob_attribution (killed ''p1'' ''exit 9''))
     (sample_execution True killed_terminal)"

lemma killed_admitted: "\<not> invalid_terminal killed_terminal"
  by (simp add: invalid_terminal_def killed_terminal_def abnormal_completion_def normal_completion_def never_started_def)

lemma killed_closed:
  "\<exists>u e. producing_step sample_site (closing_unit True killed_terminal) (ClosingFailed e) u \<and> pu_execution u = Some killed_execution"
proof -
  let ?u = "closing_unit True killed_terminal" and ?x = "sample_execution True killed_terminal"
  have x: "pu_execution ?u = Some ?x" "pu_closing ?u" by (simp_all add: closing_unit_def sample_unit_def)
  have k: "ex_ready ?x" "te_kind (ex_terminal ?x) = abnormal_completion"
    by (simp_all add: sample_execution_def ready_execution_def killed_terminal_def)
  then have m: "must_observe ?u ?x" "te_kind (ex_terminal ?x) \<noteq> never_started" "te_kind (ex_terminal ?x) \<noteq> 0"
    by (simp_all add: must_observe_def abnormal_completion_def normal_completion_def never_started_def)
  let ?o = "recorded_unit (reason_state ''exit 9'') ''exit 9'' (ob_attribution (killed ''p1'' ''exit 9'')) ?u"
  obtain r u1 w1 where e: "close_evidence ?x (Some (killed ''p1'' ''exit 9'', reason_state ''exit 9'')) ?o (bound_world 7) = (r, u1, w1)"
    by (cases "close_evidence ?x (Some (killed ''p1'' ''exit 9'', reason_state ''exit 9'')) ?o (bound_world 7)")
  have "close_execution sample_site True ?x ?u (bound_world 1) = (r, u1, w1)"
    using e m(2) killed_observed [OF refl, of True ?u 1] by (simp add: close_execution_def op_bind_def op_return_def)
  then have w: "close_work sample_site ?u (bound_world 0) = (r, u1, w1)"
    using x k(1) m by (simp add: close_work_def op_then_def op_bind_def op_get_def bound_ctx)
  from close_evidence_view [OF e] obtain v where u1: "u1 = ?o\<lparr>pu_view := v\<rparr>" by blast
  have "commit_closing (Some ''context canceled'') r u1
      = (Inl (UnitRefused (ContextError ''context canceled'')), u1\<lparr>pu_closing := False, pu_phase := UnitFailed\<rparr>)"
    using u1 by (simp add: commit_closing_def close_error_def recorded_unit_def closing_unit_def)
  from step_failed [OF x(2) w this] u1 x(1) show ?thesis
    by (intro exI conjI) (assumption, simp add: recorded_unit_def killed_execution_def)
qed

lemma killed_disposition: "disposition_of killed_execution = IncompleteObservation"
proof -
  have "rt_manifest (reason_state ''exit 9'') \<noteq> []" using decoded_nonempty [OF reason_evaluates(1) [OF line_texts(3)]] .
  then show ?thesis by (simp add: disposition_of_def killed_execution_def observed_execution_def)
qed

lemma killed_run:
  "\<exists>u e. runs (producing_step sample_site) (begun True)
      ([RegisterStarted, Registered 0, Submitted killed_terminal] @ ClosingStarted # [ClosingFailed e]) u
    \<and> runs (producing_step sample_site) (sample_unit True killed_terminal) [ClosingStarted, ClosingFailed e] u
    \<and> pu_execution u = Some killed_execution"
proof -
  from killed_closed obtain u e where u: "producing_step sample_site (closing_unit True killed_terminal) (ClosingFailed e) u"
    "pu_execution u = Some killed_execution" by blast
  have "start_closing (sample_unit True killed_terminal) = Inr (closing_unit True killed_terminal)"
    by (simp add: start_closing_def sample_unit_def begun_def closing_unit_def)
  from runs_two [of "producing_step sample_site", OF step_closing [OF this] u(1)]
  have r: "runs (producing_step sample_site) (sample_unit True killed_terminal) [ClosingStarted, ClosingFailed e] u" .
  from runs_append [OF this sample_closing(1) [OF killed_admitted]] r u(2) show ?thesis by auto
qed

theorem account_facts_persist_witness:
  "\<exists>(u :: unit producing_unit) c. unit_account u = Some c \<and> pa_terminal c = killed_terminal \<and> pa_observation c = IncompleteObservation
     \<and> facts_kept (account_of (sample_execution True killed_terminal)) c"
proof -
  from killed_run obtain u e where u: "runs (producing_step sample_site) (sample_unit True killed_terminal) [ClosingStarted, ClosingFailed e] u"
    "pu_execution u = Some killed_execution" by blast
  have "unit_account (sample_unit True killed_terminal) = Some (account_of (sample_execution True killed_terminal))"
    by (simp add: unit_account_def sample_unit_def)
  from account_facts_persist [OF sample_begun sample_closing(1) [OF killed_admitted] u(1) this]
  have "facts_kept (account_of (sample_execution True killed_terminal)) (account_of killed_execution)"
    "unit_account u = Some (account_of killed_execution)" using u(2) by (auto simp: unit_account_def)
  moreover have "pa_terminal (account_of killed_execution) = killed_terminal" "pa_observation (account_of killed_execution) = IncompleteObservation"
    using killed_disposition by (simp_all add: account_of_def) (simp add: killed_execution_def observed_execution_def sample_execution_def)
  ultimately show ?thesis by blast
qed


text \<open>An ordinary execution that needs no observation.\<close>

definition ok_terminal :: terminal where
  "ok_terminal = \<lparr>te_kind = normal_completion, te_reason = []\<rparr>"

abbreviation begun_fingerprint :: fingerprint where
  "begun_fingerprint \<equiv> fingerprint_locked begun_view example_subject (closure_of (facts_of begun_view) example_subject)"

definition begun_check :: record_check where
  "begun_check = \<lparr>rc_candidate = \<lparr>cd_subject = example_subject, cd_recorded = begun_fingerprint\<rparr>, rc_observed = True, rc_refusal = None\<rparr>"

definition begun_verdict :: verdict where
  "begun_verdict = decide_record begun_view begun_check no_rt_state no_observation"

definition begun_result :: record_result where
  "begun_result = \<lparr>rr_verdict = judgment_for begun_view example_subject begun_verdict, rr_evaluated = True,
     rr_before = no_rt_state, rr_after = no_rt_state, rr_selected = False, rr_unavailable = None\<rparr>"

lemma begun_members: "require_members begun_view [example_subject] = None"
  by (simp add: require_members_ok facts_of_def begun_view_def sibling_facts_def restrict_to_def example_facts_def)

lemma begun_admitted:
  "admit_record hs begun_view begun_check = Inr no_observation"
  "needs_proof begun_view begun_check (Inr no_observation) no_rt_state = False"
  "fp_runtime_inputs begun_fingerprint = []"
  "v_status begun_verdict = Valid"
  "validate_fingerprint begun_fingerprint = None"
  "fp_kind begun_fingerprint = CodeResult"
  by code_simp+

lemma begun_records:
  "check_records hs [begun_check] True True begun_view (bound_world n) = (Inr [begun_result], begun_view, bound_world (n + 9))"
proof -
  have r: "rc_recorded begun_check = begun_fingerprint" "rc_subject begun_check = example_subject"
    "cd_recorded (rc_candidate begun_check) = begun_fingerprint" by (simp_all add: begun_check_def)
  have o1: "observe_record_inputs [(begun_fingerprint, True)] begun_view (bound_world k) = (Inr [no_rt_state], begun_view, bound_world (k + 3))" for k
    by (simp add: observe_record_inputs_def current_runtime_def begun_admitted op_then_def op_bind_def op_return_def bound_ctx eval_nat_numeral)
  have prov: "provisional begun_check (Inr no_observation) False no_rt_state begun_view w = (Inr begun_verdict, begun_view, w)" for w
    using begun_admitted(4) by (simp add: provisional_def with_moved_inputs_def confirmed_def op_bind_def op_get_def op_return_def
        flip: begun_verdict_def)
  have fin: "finish_record True (begun_check, Inr no_observation, False, begun_verdict, no_rt_state, no_rt_state) begun_view w
      = (Inr begun_result, begun_view, w)" for w
    by (simp add: finish_record_def runtime_motion_def op_bind_def op_get_def op_return_def op_then_def confirmed_def
        evaluated_record_def begun_result_def r)
  show ?thesis
    using begun_admitted
    by (simp add: check_records_def bound_ctx op_then_def op_bind_def op_get_def op_return_def
        evaluated_record_def close_check_window_def Let_def first_seen_def ensure_observable_def prov fin r o1 eval_nat_numeral)
qed

lemma begun_check_subject: "cd_subject (rc_candidate begun_check) = example_subject"
  by (simp add: begun_check_def)

lemma begun_checked:
  "check_map hs [(example_subject, begun_fingerprint)] True True begun_view (bound_world n)
    = (Inr [example_subject \<mapsto> rr_verdict begun_result], begun_view, bound_world (n + 10))"
proof -
  have c: "ordered_candidates [(example_subject, begun_fingerprint)] = [rc_candidate begun_check]"
    by (simp add: ordered_candidates_def begun_check_def)
  have "sn_kind begun_view = CodeResult" by (simp add: begun_view_def example_view_def)
  then have p: "prepare_candidates begun_view [rc_candidate begun_check] = None"
    using begun_members begun_admitted(5,6)
    by (simp add: prepare_candidates_def validate_candidates_def shape_failures_def kind_failures_def begun_check_def)
  have "\<lparr>rc_candidate = rc_candidate begun_check, rc_observed = True, rc_refusal = None\<rparr> = begun_check"
    by (simp add: begun_check_def)
  with begun_records [of hs "Suc n"] show ?thesis
    using begun_check_subject by (simp add: check_map_def op_then_def op_bind_def op_get_def op_return_def bound_ctx c p Let_def eval_nat_numeral)
qed

lemma begun_validated: "\<exists>v w. validate hs begun_view (bound_world n) = (Inr (), v, w)"
proof -
  have "fst (validate hs begun_view (bound_world n)) = Inr ()"
    by (simp add: validate_def closing_identities_def identity_subjects_def owed_comparisons_def seal_def
      compare_attached_def require_completed_def completed_state_def runtime_check_def observe_view_def
      compare_observation_context_def compare_observations_def compare_subject_def facts_equal_full
      snapshot_guards_def facts_of_def begun_view_def example_view_def bound_world_def world_at_def sibling_facts_def restrict_to_def
      example_world_def example_facts_def example_subject_def no_facts_def op_eval Let_def sorted_union_def first_seen_def)
  then show ?thesis by (cases "validate hs begun_view (bound_world n)") auto
qed

lemma ok_admitted: "\<not> invalid_terminal ok_terminal"
  by (simp add: invalid_terminal_def ok_terminal_def normal_completion_def never_started_def)

definition ok_finalized :: finalized where
  "ok_finalized = finalize (account_of (sample_execution False ok_terminal)) [(example_subject, begun_fingerprint)]
     [example_subject \<mapsto> rr_verdict begun_result]"

lemma begun_attached:
  assumes "pu_view u = begun_view" "x = sample_execution False ok_terminal"
  shows "attach_subject x None example_subject u w = (Inr (example_subject, begun_fingerprint), u, w)"
proof -
  have "map_get no_fingerprint (ex_fingerprints x) example_subject = begun_fingerprint" "example_subject \<notin> ex_observed x"
    by (simp_all add: assms(2) sample_execution_def ready_execution_def sample_prepared_def)
  with begun_members begun_fields(2) show ?thesis
    by (simp add: attach_subject_def attach_runtime_state_def assms(1))
qed

lemma ok_granted:
  "\<exists>u. producing_step sample_site (closing_unit False ok_terminal) (ClosingGranted ok_finalized) u"
proof -
  let ?u = "closing_unit False ok_terminal" and ?x = "sample_execution False ok_terminal"
  have x: "pu_execution ?u = Some ?x" "pu_closing ?u" "pu_view ?u = begun_view" "pu_identity_only ?u = False"
    "pu_phase ?u = UnitClosing"
    by (simp_all add: closing_unit_def sample_unit_def begun_def)
  have k: "ex_ready ?x" "te_kind (ex_terminal ?x) = normal_completion" "ex_observed ?x = {}" "ps_capture (ex_process ?x) = []"
    by (simp_all add: sample_execution_def ready_execution_def ok_terminal_def sample_prepared_def reserved_execution_def sample_process_def)
  then have m: "\<not> must_observe ?u ?x" "te_kind (ex_terminal ?x) \<noteq> never_started" "te_kind (ex_terminal ?x) \<noteq> 0"
    using x(4) by (simp_all add: must_observe_def normal_completion_def never_started_def)
  obtain v w where v: "validate has_outcome_support begun_view (bound_world 11) = (Inr (), v, w)" using begun_validated by blast
  have c: "on_view (check_map has_outcome_support [(example_subject, begun_fingerprint)] True True) ?u (bound_world 1)
      = (Inr [example_subject \<mapsto> rr_verdict begun_result], ?u\<lparr>pu_view := begun_view\<rparr>, bound_world 11)"
    using begun_checked [of has_outcome_support 1] x(3) by (simp add: on_view_def)
  let ?v = "?u\<lparr>pu_view := begun_view\<rparr>"
  have "on_view (validate has_outcome_support) ?v (bound_world 11) = (Inr (), ?u\<lparr>pu_view := v\<rparr>, w)"
    using v by (simp add: on_view_def)
  then have j: "close_judgment None [(example_subject, begun_fingerprint)] [example_subject \<mapsto> rr_verdict begun_result] ?v (bound_world 11)
      = (Inr (Evidence ok_finalized), ?u\<lparr>pu_view := v\<rparr>, w)"
    using x(1) by (simp add: close_judgment_def op_bind_def op_try_def moved_span_def grant_evidence_def op_get_def op_return_def ok_finalized_def)
  have "close_evidence ?x None ?u (bound_world 1) = (Inr (Evidence ok_finalized), ?u\<lparr>pu_view := v\<rparr>, w)"
    using begun_attached [OF x(3) refl] c j x(3) begun_fields(1)
    by (simp add: close_evidence_def op_bind_def op_get_def op_return_def)
  then have w: "close_work sample_site ?u (bound_world 0) = (Inr (Evidence ok_finalized), ?u\<lparr>pu_view := v\<rparr>, w)"
    using x k(1) m by (simp add: close_work_def close_execution_def op_then_def op_bind_def op_get_def op_return_def bound_ctx)
  have "\<exists>u'. commit_closing None (Inr (Evidence ok_finalized)) (?u\<lparr>pu_view := v\<rparr>) = (Inr ok_finalized, u')"
    unfolding commit_closing_ok using x(5) by simp
  with step_granted [OF x(2) w] show ?thesis by blast
qed

lemma ok_run:
  "\<exists>u. runs (producing_step sample_site) (begun False)
      ([RegisterStarted, Registered 0, Submitted ok_terminal] @ ClosingStarted # [ClosingGranted ok_finalized]) u"
  using ok_granted runs_snoc [OF sample_closing(2) [OF ok_admitted]] by fastforce

lemma judged_subjects: "judged_evidence x inputs subjects f \<Longrightarrow> map fz_subject (fi_subjects f) = subjects"
  by (auto simp: judged_evidence_def finalize_def comp_def)


theorem producing_grants_once_witness:
  "\<exists>u. runs (producing_step sample_site) (begun False)
      ([RegisterStarted, Registered 0, Submitted ok_terminal] @ ClosingStarted # [ClosingGranted ok_finalized]) u
    \<and> pu_phase u = UnitClosed"
proof -
  from ok_run obtain u where u: "runs (producing_step sample_site) (begun False)
      ([RegisterStarted, Registered 0, Submitted ok_terminal] @ ClosingStarted # [ClosingGranted ok_finalized]) u" by blast
  from producing_grants_once [OF sample_begun this] u show ?thesis by (auto simp: grants_evidence_def)
qed

end
