(* ===== verification/Binding_Checks.thy ===== *)
theory Binding_Checks
  imports Checking_Unit Producing_Promises
begin

text \<open>
  The sequential checks of a runtime binding: session.go's \<open>RuntimeBinding.Check\<close> and
  \<open>CurrentFacts\<close>, and checking.go's \<open>CheckBatchWithLedgers\<close>, which checks a batch, tries an
  inert extension for every answer stale by test variants that has a prior ledger, closes the
  one unit and substitutes the extensions that closed valid. Each is a run of the checking
  unit's machine in one goroutine; the lemmas show which run.
\<close>

section \<open>Rounds and closing in sequence\<close>

type_synonym 'a cop = "(checking_unit, 'a) op"

text \<open>The caller's context as it stands, where the code compares causes.\<close>

definition caller_now :: "'a itself \<Rightarrow> ('a, string option) op" where
  "caller_now T = op_ask (\<lambda>w t. Inr (w_ctx w t))"

text \<open>The commit of an answer with the state it leaves.\<close>

definition op_settle :: "(view_error + 'a) \<times> 's \<Rightarrow> ('s, 'a) op" where
  "op_settle x s w = (fst x, snd x, w)"

definition run_round ::
    "(string \<Rightarrow> string \<Rightarrow> bool) \<Rightarrow> pending_slot list \<Rightarrow> checked_candidate list cop" where
  "run_round hs p = op_bind op_get (\<lambda>u.
     op_bind (op_run (check_records hs (map pd_record p) True False) (cu_view u)) (\<lambda>(r, v).
     op_bind (caller_now TYPE(checking_unit)) (\<lambda>caller.
       op_settle (commit_round caller p r (u\<lparr>cu_view := v\<rparr>)))))"

text \<open>round: three reads of the context precede the work, the last outranks the preparation's error.\<close>

definition round_op ::
    "(string \<Rightarrow> string \<Rightarrow> bool) \<Rightarrow> (checking_unit \<Rightarrow> view_error + pending_slot list)
      \<Rightarrow> checked_candidate list cop" where
  "round_op hs prepare = op_then ctx_check (op_then ctx_check (op_bind op_get (\<lambda>u.
     if cu_phase u \<noteq> UnitOpen then op_fail unit_closed_error
     else op_then ctx_check (op_bind (op_lift (start_round u (prepare u))) (\<lambda>u1.
       op_then (op_modify (\<lambda>_. u1)) (run_round hs (the (cu_pending u1))))))))"

definition close_op :: "(string \<Rightarrow> string \<Rightarrow> bool) \<Rightarrow> checked_candidate list cop" where
  "close_op hs = op_bind (caller_now TYPE(checking_unit)) (\<lambda>caller. op_bind op_get (\<lambda>u.
     (case start_close caller u of
        (Some e, u1) \<Rightarrow> op_then (op_modify (\<lambda>_. u1)) (op_fail e)
      | (None, u1) \<Rightarrow> op_then (op_modify (\<lambda>_. u1))
          (op_bind (op_run (close_check hs (cu_slots u1)) (cu_view u1)) (\<lambda>(r, v).
           op_bind (caller_now TYPE(checking_unit)) (\<lambda>after.
             op_settle (commit_close after r (u1\<lparr>cu_view := v\<rparr>))))))))"

section \<open>The batch with ledgers\<close>

definition extension_request :: "(int \<rightharpoonup> tv_ledger) \<Rightarrow> nat \<Rightarrow> checked_candidate \<Rightarrow> inert_request option" where
  "extension_request ledgers i p =
     (if v_status (ck_verdict p) = Stale \<and> v_reason (ck_verdict p) = ReasonTestVariants
      then map_option (\<lambda>prior. \<lparr>iq_index = int i, iq_ledger = prior\<rparr>) (ledgers (int i)) else None)"

definition extension_requests :: "(int \<rightharpoonup> tv_ledger) \<Rightarrow> checked_candidate list \<Rightarrow> inert_request list" where
  "extension_requests ledgers ps =
     List.map_filter (\<lambda>(i, p). extension_request ledgers i p) (zip [0..<length ps] ps)"

text \<open>A valid extension's answer takes the place of the candidate's it was requested for.\<close>

definition take_extension :: "candidate list \<Rightarrow> checked_candidate list \<Rightarrow> nat \<times> inert_request
    \<Rightarrow> checked_candidate list \<Rightarrow> checked_candidate list" where
  "take_extension cs closed kq rs = (case kq of (k, q) \<Rightarrow>
     (let ext = closed ! (length cs + k); i = nat (iq_index q) in
      if v_status (ck_verdict ext) = Valid \<and> ck_extension ext \<noteq> None
      then rs[i := \<lparr>ck_index = i, ck_subject = cd_subject (cs ! i), ck_verdict = ck_verdict ext,
        ck_extension = ck_extension ext\<rparr>]
      else rs))"

definition ledger_answers ::
    "candidate list \<Rightarrow> inert_request list \<Rightarrow> checked_candidate list \<Rightarrow> checked_candidate list" where
  "ledger_answers cs qs closed = fold (take_extension cs closed) (zip [0..<length qs] qs)
     (take (length cs) closed)"

definition ledger_steps ::
    "(string \<Rightarrow> string \<Rightarrow> bool) \<Rightarrow> go_syntax \<Rightarrow> candidate list \<Rightarrow> (int \<rightharpoonup> tv_ledger)
      \<Rightarrow> checked_candidate list cop" where
  "ledger_steps hs G cs ledgers = op_bind (round_op hs (\<lambda>u. prepare_round (cu_view u) cs)) (\<lambda>ps.
     (let qs = extension_requests ledgers ps in
      op_then (if qs = [] then op_return []
        else round_op hs (\<lambda>u. prepare_extensions G (cu_view u) (cu_slots u) qs))
       (op_bind (close_op hs) (\<lambda>closed. op_return (ledger_answers cs qs closed)))))"

section \<open>The binding's operations\<close>

text \<open>BeginCheck, the work on the new unit, and the deferred abort.\<close>

definition in_unit ::
    "runtime_binding \<Rightarrow> subject list \<Rightarrow> 'a cop \<Rightarrow> world
      \<Rightarrow> (view_error + 'a) \<times> checking_unit option \<times> world" where
  "in_unit b subjects m w = (case bound_view (rb_snapshot b) (rb_guards b) subjects of
      Inl e \<Rightarrow> (Inl e, None, w)
    | Inr v \<Rightarrow> (case m (begin_check v) w of (r, u, w2) \<Rightarrow> (r, Some (abort_unit u), w2)))"

definition batch_subjects :: "runtime_binding \<Rightarrow> candidate list \<Rightarrow> subject list" where
  "batch_subjects b cs = (if cs = [] then sn_subjects (rb_snapshot b) else first_seen (map cd_subject cs))"

definition check_batch_with_ledgers ::
    "(string \<Rightarrow> string \<Rightarrow> bool) \<Rightarrow> go_syntax \<Rightarrow> runtime_binding \<Rightarrow> candidate list
      \<Rightarrow> (int \<rightharpoonup> tv_ledger) \<Rightarrow> world
      \<Rightarrow> (view_error + checked_candidate list) \<times> checking_unit option \<times> world" where
  "check_batch_with_ledgers hs G b cs ledgers w = (case ctx_check () w of
      (Inl e, _, w1) \<Rightarrow> (Inl e, None, w1)
    | (Inr _, _, w1) \<Rightarrow>
      (if sn_facts (rb_snapshot b) = None
       then (Inl (OtherError ''gofresh: uninitialized runtime binding''), None, w1)
       else (case prepare_candidates (rb_snapshot b) cs of Some e \<Rightarrow> (Inl e, None, w1)
        | None \<Rightarrow> in_unit b (batch_subjects b cs) (ledger_steps hs G cs ledgers) w1)))"

definition binding_check ::
    "(string \<Rightarrow> string \<Rightarrow> bool) \<Rightarrow> runtime_binding \<Rightarrow> subject \<Rightarrow> fingerprint \<Rightarrow> world
      \<Rightarrow> (view_error + verdict) \<times> checking_unit option \<times> world" where
  "binding_check hs b s prior = in_unit b [s]
     (op_then (round_op hs (\<lambda>u. prepare_round (cu_view u) [\<lparr>cd_subject = s, cd_recorded = prior\<rparr>]))
       (op_bind (close_op hs) (\<lambda>closed. op_return (ck_verdict (closed ! 0)))))"

definition current_facts :: "runtime_binding \<Rightarrow> subject \<Rightarrow> (unit, fingerprint) op" where
  "current_facts b s = op_then ctx_check
     (if sn_facts (rb_snapshot b) = None then op_fail (OtherError ''gofresh: uninitialized runtime binding'')
      else (case require_subjects [s] (\<lambda>x. x \<in> set (sn_subjects (rb_snapshot b))) SelectedView of
          Some e \<Rightarrow> op_fail e
        | None \<Rightarrow> op_bind (op_lift (bound_view (rb_snapshot b) (rb_guards b) [s])) (\<lambda>v.
            op_lift (capture v s))))"

section \<open>The run behind an answer\<close>

lemma caller_now_ok: "caller_now T s w = (Inr c, s2, w2) \<longleftrightarrow>
    c = w_ctx w (w_clock w) \<and> s2 = s \<and> w2 = tick w"
  by (auto simp: caller_now_def op_ok)

lemma op_settle_ok: "op_settle x s w = (Inr y, s2, w2) \<longleftrightarrow> x = (Inr y, s2) \<and> w2 = w"
  by (cases x) (auto simp: op_settle_def)

lemma run_round_ok:
  assumes "run_round hs p u w = (Inr cs, u2, w2)"
  shows "\<exists>r v w1 caller. check_records hs (map pd_record p) True False (cu_view u) w = (r, v, w1)
    \<and> commit_round caller p r (u\<lparr>cu_view := v\<rparr>) = (Inr cs, u2)"
  using assms unfolding run_round_def
  by (auto simp: op_bind_ok op_get_ok op_run_ok caller_now_ok op_settle_ok split: prod.splits)

lemma round_op_ok:
  assumes "round_op hs prepare u w = (Inr cs, u2, w2)" "cu_pending u = None"
    and starts: "\<And>u1. start_round u (prepare u) = Inr u1 \<Longrightarrow> check_step hs G u RoundStarted u1"
  shows "runs (check_step hs G) u [RoundStarted, RoundAnswered cs] u2
    \<and> (\<exists>ps results. prepare u = Inr ps \<and> length results = length ps \<and> cu_pending u2 = None
        \<and> cu_slots u2 = cu_slots u @ new_slots ps results
        \<and> cs = checked_from (length (cu_slots u)) (new_slots ps results))"
proof -
  from assms(1) obtain u1 w1 where u1: "start_round u (prepare u) = Inr u1"
    and r: "run_round hs (the (cu_pending u1)) u1 w1 = (Inr cs, u2, w2)"
    by (auto simp: round_op_def op_then_ok op_bind_ok op_get_ok op_lift_ok op_modify_ok ctx_check_ok
        split: if_splits)
  from start_round_ok [OF u1] obtain p where p: "prepare u = Inr p" "u1 = u\<lparr>cu_pending := Some p\<rparr>" by blast
  from run_round_ok [OF r] p obtain res v w3 caller where
    k: "check_records hs (map pd_record p) True False (cu_view u) w1 = (res, v, w3)"
    and c: "commit_round caller p res (u1\<lparr>cu_view := v\<rparr>) = (Inr cs, u2)" by auto
  from commit_round_state [OF c] p(2) obtain results where results: "res = Inr results"
    "cu_slots u2 = cu_slots u @ new_slots p results" "cu_pending u2 = None"
    "cs = checked_from (length (cu_slots u)) (new_slots p results)" by auto
  have "length results = length p"
    using check_records_ok [OF k [unfolded results(1)]] by (auto dest: list_all2_lengthD)
  moreover have "check_step hs G u1 (RoundAnswered cs) u2"
    using step_answer [OF _ _ c] p(2) k by simp
  ultimately show ?thesis
    using runs_two [of "check_step hs G", OF starts [OF u1]] p(1) results by auto
qed

lemma close_op_ok:
  assumes "close_op hs u w = (Inr cs, u2, w2)"
  shows "runs (check_step hs G) u [CloseStarted, CloseGranted cs] u2 \<and> cu_slots u2 = cu_slots u
    \<and> cu_phase u2 = UnitClosed"
proof -
  obtain e u1 where s: "start_close (w_ctx w (w_clock w)) u = (e, u1)" by force
  with assms have e: "e = None"
    by (cases e) (auto simp: close_op_def op_ok caller_now_ok)
  from assms s e obtain r v w3 caller where
    k: "close_check hs (cu_slots u1) (cu_view u1) (tick w) = (r, v, w3)"
    and c: "commit_close caller r (u1\<lparr>cu_view := v\<rparr>) = (Inr cs, u2)"
    by (auto simp: close_op_def op_then_ok op_bind_ok op_get_ok op_run_ok caller_now_ok op_modify_ok
        op_settle_ok split: prod.splits)
  have u1: "cu_closing u1" "cu_slots u1 = cu_slots u" using start_close_state [OF s] e by auto
  have "check_step hs G u CloseStarted u1" using step_close s e by blast
  moreover have "check_step hs G u1 (CloseGranted cs) u2" by (rule step_grant [OF u1(1) k c])
  ultimately show ?thesis
    using runs_two [of "check_step hs G"] commit_close_state [OF c] u1(2) by fastforce
qed

section \<open>Which answers the batch reports\<close>

definition extension_taken :: "candidate list \<Rightarrow> checked_candidate list \<Rightarrow> nat \<Rightarrow> bool" where
  "extension_taken cs closed k \<longleftrightarrow> (let ext = closed ! (length cs + k) in
     v_status (ck_verdict ext) = Valid \<and> ck_extension ext \<noteq> None)"

lemma take_extensions:
  "length (fold (take_extension cs closed) kqs rs) = length rs"
  "\<forall>(k, q)\<in>set kqs. nat (iq_index q) = i \<longrightarrow> \<not> extension_taken cs closed k
     \<Longrightarrow> fold (take_extension cs closed) kqs rs ! i = rs ! i"
  "\<exists>(k, q)\<in>set kqs. nat (iq_index q) = i \<and> extension_taken cs closed k \<Longrightarrow> i < length rs \<Longrightarrow>
     \<exists>(k, q)\<in>set kqs. nat (iq_index q) = i \<and> extension_taken cs closed k
       \<and> fold (take_extension cs closed) kqs rs ! i = \<lparr>ck_index = i, ck_subject = cd_subject (cs ! i),
          ck_verdict = ck_verdict (closed ! (length cs + k)),
          ck_extension = ck_extension (closed ! (length cs + k))\<rparr>"
proof (induction kqs rule: rev_induct)
  case (snoc kq kqs)
  obtain k q where kq: "kq = (k, q)" by force
  { case 1 show ?case using snoc(1) by (simp add: kq take_extension_def Let_def)
  next
    case 2 then show ?case
      using snoc(2) by (auto simp: kq take_extension_def Let_def extension_taken_def)
  next
    case 3
    show ?case
    proof (cases "nat (iq_index q) = i \<and> extension_taken cs closed k")
      case True
      then show ?thesis using 3(2) snoc(1)
        by (intro bexI [of _ kq]) (auto simp: kq take_extension_def Let_def extension_taken_def)
    next
      case False
      with 3(1) have "\<exists>(k, q)\<in>set kqs. nat (iq_index q) = i \<and> extension_taken cs closed k"
        by (auto simp: kq)
      from snoc(3) [OF this 3(2)] False show ?thesis
        by (auto simp: kq take_extension_def Let_def extension_taken_def split: if_splits)
    qed }
qed auto

lemma extension_requests_nth:
  assumes "k < length (extension_requests ledgers ps)"
  shows "\<exists>i<length ps. \<exists>prior. extension_requests ledgers ps ! k = \<lparr>iq_index = int i, iq_ledger = prior\<rparr>
    \<and> ledgers (int i) = Some prior \<and> v_status (ck_verdict (ps ! i)) = Stale
    \<and> v_reason (ck_verdict (ps ! i)) = ReasonTestVariants"
proof -
  have "extension_requests ledgers ps ! k \<in> set (extension_requests ledgers ps)" using assms by simp
  then obtain i where "i < length ps" "extension_request ledgers i (ps ! i) = Some (extension_requests ledgers ps ! k)"
    unfolding extension_requests_def by (auto simp: List.map_filter_def set_zip)
  then show ?thesis by (auto simp: extension_request_def split: if_splits)
qed

text \<open>A candidate as the unit's first round checks it.\<close>

definition ordinary_check :: "candidate \<Rightarrow> record_check" where
  "ordinary_check c = \<lparr>rc_candidate = c, rc_observed = True, rc_refusal = None\<rparr>"

lemma prepare_round_ok: "prepare_round v cs = Inr ps \<longleftrightarrow> prepare_candidates v cs = None
    \<and> ps = map (\<lambda>c. \<lparr>pd_record = ordinary_check c, pd_extension = False, pd_ledger = no_ledger\<rparr>) cs"
  by (auto simp: prepare_round_def ordinary_check_def split: option.splits)

lemma extension_slots_nth:
  "extension_slots G v slots qs = Inr ps \<Longrightarrow> length ps = length qs
     \<and> (\<forall>k<length qs. extension_slot G v slots (qs ! k) = Inr (ps ! k))"
  by (induction qs arbitrary: ps) (auto simp: nth_Cons split: sum.splits nat.split)

text \<open>
  The slots a batch leaves: the candidates' in order, then one extension's per request, and
  the closed answers are those of one run of the unit's machine.
\<close>

definition batch_run ::
    "(string \<Rightarrow> string \<Rightarrow> bool) \<Rightarrow> go_syntax \<Rightarrow> snapshot \<Rightarrow> candidate list \<Rightarrow> inert_request list
      \<Rightarrow> checked_candidate list \<Rightarrow> checking_unit \<Rightarrow> bool" where
  "batch_run hs G v cs qs closed u \<longleftrightarrow>
     (\<exists>es. runs (check_step hs G) (begin_check v) (es @ [CloseGranted closed]) u)
     \<and> cu_phase u = UnitClosed \<and> length (cu_slots u) = length cs + length qs
     \<and> (\<forall>i<length cs. sl_record (cu_slots u ! i) = ordinary_check (cs ! i)
         \<and> \<not> sl_extension (cu_slots u ! i))
     \<and> (\<forall>k<length qs. \<exists>p. extension_slot G v (take (length cs) (cu_slots u)) (qs ! k) = Inr p
         \<and> sl_record (cu_slots u ! (length cs + k)) = pd_record p
         \<and> sl_extension (cu_slots u ! (length cs + k)) = pd_extension p
         \<and> sl_ledger (cu_slots u ! (length cs + k)) = pd_ledger p)"

lemma extension_slot_cong: "same_basis u v \<Longrightarrow> extension_slot G u = extension_slot G v"
  by (intro ext) (simp only: extension_slot_def prepare_inert_cong)

lemma extension_slots_cong: "same_basis u v \<Longrightarrow> extension_slots G u slots qs = extension_slots G v slots qs"
  by (induction qs) (auto simp: extension_slot_cong split: sum.split)

lemma new_slots_nth:
  "length results = length ps \<Longrightarrow> length (new_slots ps results) = length ps
    \<and> (\<forall>i<length ps. new_slots ps results ! i = \<lparr>sl_record = pd_record (ps ! i), sl_result = results ! i,
        sl_extension = pd_extension (ps ! i), sl_ledger = pd_ledger (ps ! i)\<rparr>)"
  by (simp add: new_slots_def)

lemma begin_check_fields [simp]: "cu_slots (begin_check v) = []" "cu_pending (begin_check v) = None"
  "cu_view (begin_check v) = v"
  by (simp_all add: begin_check_def)

lemma ledger_steps_ok:
  assumes "ledger_steps hs G cs ledgers (begin_check v) w = (Inr rs, u, w2)"
  shows "\<exists>closed qs. batch_run hs G v cs qs closed u
    \<and> qs = extension_requests ledgers (checked_from 0 (take (length cs) (cu_slots u)))
    \<and> rs = ledger_answers cs qs closed"
proof -
  let ?st = "check_step hs G" and ?b = "begin_check v"
  from assms obtain ps u1 w1 where
    r1: "round_op hs (\<lambda>u. prepare_round (cu_view u) cs) ?b w = (Inr ps, u1, w1)"
    and rest: "op_then (if extension_requests ledgers ps = [] then op_return []
        else round_op hs (\<lambda>u. prepare_extensions G (cu_view u) (cu_slots u) (extension_requests ledgers ps)))
       (op_bind (close_op hs) (\<lambda>closed. op_return (ledger_answers cs (extension_requests ledgers ps) closed))) u1 w1
      = (Inr rs, u, w2)"
    unfolding ledger_steps_def Let_def op_bind_ok by blast
  have "\<And>x. start_round ?b (prepare_round (cu_view ?b) cs) = Inr x \<Longrightarrow> ?st ?b RoundStarted x"
    by (rule step_check) simp_all
  from round_op_ok [OF r1 _ this] obtain p1 results1 where
    run1: "runs ?st ?b [RoundStarted, RoundAnswered ps] u1" and p1: "prepare_round v cs = Inr p1"
    and n1: "length results1 = length p1" "cu_slots u1 = new_slots p1 results1" "cu_pending u1 = None"
    and ps: "ps = checked_from 0 (new_slots p1 results1)" by auto
  define qs where "qs = extension_requests ledgers ps"
  from rest obtain es u2 w3 where
    r2: "(if qs = [] then op_return [] else round_op hs (\<lambda>u. prepare_extensions G (cu_view u) (cu_slots u) qs)) u1 w1
      = (Inr es, u2, w3)"
    and cl: "op_bind (close_op hs) (\<lambda>closed. op_return (ledger_answers cs qs closed)) u2 w3 = (Inr rs, u, w2)"
    unfolding qs_def op_then_ok by blast
  from cl obtain closed w4 where c: "close_op hs u2 w3 = (Inr closed, u, w4)"
    and rs: "rs = ledger_answers cs qs closed"
    by (auto simp: op_bind_ok op_return_ok)
  note close = close_op_ok [OF c, of G]
  have b1: "same_basis v (cu_view u1)" using check_slots.runs_below [OF run1] by (simp add: slots_below_def)
  have second: "\<exists>fs news. runs ?st ?b ([RoundStarted, RoundAnswered ps] @ fs) u2
    \<and> cu_slots u2 = cu_slots u1 @ news \<and> length news = length qs
    \<and> (\<forall>k<length qs. \<exists>p. extension_slot G v (cu_slots u1) (qs ! k) = Inr p \<and> sl_record (news ! k) = pd_record p
        \<and> sl_extension (news ! k) = pd_extension p \<and> sl_ledger (news ! k) = pd_ledger p)"
  proof (cases "qs = []")
    case True
    with r2 run1 show ?thesis by (intro exI [of _ "[]"]) (auto simp: op_return_ok)
  next
    case False
    with r2 have r: "round_op hs (\<lambda>u. prepare_extensions G (cu_view u) (cu_slots u) qs) u1 w1 = (Inr es, u2, w3)"
      by simp
    have "\<And>x. start_round u1 (prepare_extensions G (cu_view u1) (cu_slots u1) qs) = Inr x \<Longrightarrow> ?st u1 RoundStarted x"
      by (rule step_extend [OF n1(3)])
    from round_op_ok [OF r n1(3) this] obtain p2 results2 where
      run2: "runs ?st u1 [RoundStarted, RoundAnswered es] u2"
      and p2: "prepare_extensions G (cu_view u1) (cu_slots u1) qs = Inr p2"
      and n2: "length results2 = length p2" "cu_slots u2 = cu_slots u1 @ new_slots p2 results2" by auto
    from p2 have e: "extension_slots G v (cu_slots u1) qs = Inr p2"
      by (auto simp: prepare_extensions_def extension_slots_cong [OF same_basis_sym [OF b1]] split: option.splits)
    from extension_slots_nth [OF this] new_slots_nth [OF n2(1)] n2(2) runs_append [OF run2 run1] show ?thesis
      by (intro exI [of _ "[RoundStarted, RoundAnswered es]"] exI [of _ "new_slots p2 results2"]) auto
  qed
  then obtain fs news where run2: "runs ?st ?b ([RoundStarted, RoundAnswered ps] @ fs) u2"
    and n2: "cu_slots u2 = cu_slots u1 @ news" "length news = length qs"
    and ext: "\<forall>k<length qs. \<exists>p. extension_slot G v (cu_slots u1) (qs ! k) = Inr p \<and> sl_record (news ! k) = pd_record p
        \<and> sl_extension (news ! k) = pd_extension p \<and> sl_ledger (news ! k) = pd_ledger p" by blast
  from p1 have p1': "p1 = map (\<lambda>c. \<lparr>pd_record = ordinary_check c, pd_extension = False, pd_ledger = no_ledger\<rparr>) cs"
    by (simp add: prepare_round_ok)
  have l1: "length (cu_slots u1) = length cs" using n1(1,2) p1' new_slots_nth by simp
  have slots: "take (length cs) (cu_slots u) = cu_slots u1" using close n2(1) l1 by simp
  have "runs ?st ?b (([RoundStarted, RoundAnswered ps] @ fs @ [CloseStarted]) @ [CloseGranted closed]) u"
    using runs_append [OF conjunct1 [OF close] run2] by simp
  then have "\<exists>es. runs ?st ?b (es @ [CloseGranted closed]) u" by (rule exI)
  moreover have "\<forall>i<length cs. sl_record (cu_slots u ! i) = ordinary_check (cs ! i) \<and> \<not> sl_extension (cu_slots u ! i)"
    using new_slots_nth [OF n1(1)] n1(2) p1' close n2(1) l1 by (simp add: nth_append)
  moreover have "\<forall>k<length qs. \<exists>p. extension_slot G v (take (length cs) (cu_slots u)) (qs ! k) = Inr p
         \<and> sl_record (cu_slots u ! (length cs + k)) = pd_record p
         \<and> sl_extension (cu_slots u ! (length cs + k)) = pd_extension p
         \<and> sl_ledger (cu_slots u ! (length cs + k)) = pd_ledger p"
    using ext close n2(1) l1 by (simp only: slots) (simp add: nth_append)
  ultimately have "batch_run hs G v cs qs closed u"
    unfolding batch_run_def using close n2 l1 by simp
  moreover have "qs = extension_requests ledgers (checked_from 0 (take (length cs) (cu_slots u)))"
    by (simp add: slots qs_def ps n1(2))
  ultimately show ?thesis using rs by blast
qed

lemma kernel_unevaluated:
  assumes "kernel_answer hs v v2 w w2 r res" "\<not> rr_evaluated res"
    and "\<forall>x. rc_refusal r = Some x \<longrightarrow> v_status x \<noteq> Valid"
  shows "v_status (rr_verdict res) \<noteq> Valid"
proof -
  from assms(1,2) obtain y where y: "admit_record hs v r = Inl y" "v_status (rr_verdict res) = v_status y"
    by (auto simp: kernel_answer_def Let_def split: sum.splits)
  with assms(3) recorded_evidence_stale show ?thesis
    by (auto simp: admit_record_def Let_def split: option.splits)
qed

lemma valid_slot_basis:
  assumes "final_answer hs v i sl c" "slot_sound hs v sl" "v_status (ck_verdict c) = Valid"
    and "\<forall>x. rc_refusal (sl_record sl) = Some x \<longrightarrow> v_status x \<noteq> Valid"
  shows "rc_refusal (sl_record sl) = None \<and> (\<exists>st. valid_basis hs v (sl_record sl) st)"
proof -
  from assms(2) obtain u u2 wa wb where k: "kernel_answer hs u u2 wa wb (sl_record sl) (sl_result sl)"
    by (auto simp: slot_sound_def)
  have ev: "rr_evaluated (sl_result sl)"
    using kernel_unevaluated [OF k _ assms(4)] assms(1,3) by (auto simp: final_answer_def Let_def)
  with kernel_refused [OF k] assms(1,3) show ?thesis
    by (cases "rc_refusal (sl_record sl)") (auto simp: final_answer_def Let_def)
qed

text \<open>An answer of its own record, and an answer an extension took over.\<close>

definition ordinary_answer ::
    "(string \<Rightarrow> string \<Rightarrow> bool) \<Rightarrow> snapshot \<Rightarrow> candidate \<Rightarrow> checked_candidate \<Rightarrow> bool" where
  "ordinary_answer hs v c r \<longleftrightarrow> ck_extension r = None
     \<and> (v_status (ck_verdict r) = Valid \<longrightarrow> (\<exists>st. valid_basis hs v (ordinary_check c) st))"

definition extended_answer ::
    "(string \<Rightarrow> string \<Rightarrow> bool) \<Rightarrow> go_syntax \<Rightarrow> snapshot \<Rightarrow> candidate \<Rightarrow> tv_ledger \<Rightarrow> checked_candidate \<Rightarrow> bool" where
  "extended_answer hs G v c prior r \<longleftrightarrow> v_status (ck_verdict r) = Valid
     \<and> (\<exists>fp l st. prepare_inert_extension G v (cd_recorded c) prior (cd_subject c) = Inr (Prepared fp l)
         \<and> ck_extension r = Some (fp, clone_ledger l)
         \<and> valid_basis hs v (ordinary_check (c\<lparr>cd_recorded := fp\<rparr>)) st)"

lemma batch_run_slots:
  assumes "batch_run hs G v cs qs closed u" "n < length (cu_slots u)"
  shows "final_answer hs v n (cu_slots u ! n) (closed ! n) \<and> slot_sound hs v (cu_slots u ! n)"
proof -
  from assms(1) obtain es where r: "runs (check_step hs G) (begin_check v) (es @ [CloseGranted closed]) u"
    by (auto simp: batch_run_def)
  have "unit_sound hs G v u" by (rule check_sound.runs_keep [OF r begin_check_ok(2)])
  with granted_answers [OF r] assms(2) show ?thesis by (simp add: unit_sound_def slots_sound_def)
qed

lemma ordinary_slot_answer:
  assumes "batch_run hs G v cs qs closed u" "i < length cs"
  shows "ordinary_answer hs v (cs ! i) (closed ! i) \<and> ck_index (closed ! i) = i
    \<and> ck_subject (closed ! i) = cd_subject (cs ! i)"
proof -
  let ?sl = "cu_slots u ! i"
  from assms have n: "i < length (cu_slots u)" "sl_record ?sl = ordinary_check (cs ! i)" "\<not> sl_extension ?sl"
    by (auto simp: batch_run_def)
  note f = batch_run_slots [OF assms(1) n(1)]
  from valid_slot_basis [OF conjunct1 [OF f] conjunct2 [OF f]] n(2) have
    "v_status (ck_verdict (closed ! i)) = Valid \<Longrightarrow> \<exists>st. valid_basis hs v (ordinary_check (cs ! i)) st"
    by (simp add: ordinary_check_def)
  moreover have "ck_extension (closed ! i) = None" "ck_index (closed ! i) = i"
    "ck_subject (closed ! i) = cd_subject (cs ! i)"
    using f n by (auto simp: final_answer_def Let_def ordinary_check_def)
  ultimately show ?thesis by (simp add: ordinary_answer_def)
qed

lemma extension_slot_answer:
  assumes "batch_run hs G v cs qs closed u" "k < length qs" "extension_taken cs closed k"
    and "qs ! k = \<lparr>iq_index = int i, iq_ledger = prior\<rparr>" "i < length cs"
  shows "extended_answer hs G v (cs ! i) prior (closed ! (length cs + k))"
proof -
  let ?n = "length cs + k" let ?sl = "cu_slots u ! ?n" let ?c = "cs ! i"
  from assms(1,2) obtain p where n: "?n < length (cu_slots u)"
    and p: "extension_slot G v (take (length cs) (cu_slots u)) (qs ! k) = Inr p"
      "sl_record ?sl = pd_record p" "sl_ledger ?sl = pd_ledger p"
    by (auto simp: batch_run_def)
  have base: "rc_candidate (sl_record (take (length cs) (cu_slots u) ! i)) = ?c"
    using assms(1,5) by (simp add: batch_run_def ordinary_check_def)
  note f = batch_run_slots [OF assms(1) n]
  from assms(3) have valid: "v_status (ck_verdict (closed ! ?n)) = Valid"
    and ext: "ck_extension (closed ! ?n) \<noteq> None"
    by (auto simp: extension_taken_def Let_def)
  from p(1) base assms(4) consider
      x where "prepare_inert_extension G v (cd_recorded ?c) prior (cd_subject ?c) = Inr (Rejected x)"
        "rc_refusal (pd_record p) = Some x"
    | fp l where "prepare_inert_extension G v (cd_recorded ?c) prior (cd_subject ?c) = Inr (Prepared fp l)"
        "pd_record p = ordinary_check (?c\<lparr>cd_recorded := fp\<rparr>)" "pd_ledger p = clone_ledger l"
    by (auto simp: extension_slot_def Let_def ordinary_check_def split: sum.splits prepared.splits)
  then show ?thesis
  proof cases
    case 1
    have "rc_refusal (sl_record ?sl) = None"
      using valid_slot_basis [OF conjunct1 [OF f] conjunct2 [OF f] valid] rejected_stale [OF 1(1)] 1(2) p(2)
      by simp
    with 1(2) p(2) show ?thesis by simp
  next
    case 2
    then have "\<exists>st. valid_basis hs v (ordinary_check (?c\<lparr>cd_recorded := fp\<rparr>)) st"
      using valid_slot_basis [OF conjunct1 [OF f] conjunct2 [OF f] valid] p(2) by (simp add: ordinary_check_def)
    moreover have "ck_extension (closed ! ?n) = Some (fp, clone_ledger l)"
      using f ext 2 p by (auto simp: final_answer_def Let_def ordinary_check_def clone_ledger_idem split: if_splits)
    ultimately show ?thesis using valid 2(1) by (auto simp: extended_answer_def)
  qed
qed

lemma zip_upt_nth: "(k, q) \<in> set (zip [0..<length qs] qs) \<longleftrightarrow> k < length qs \<and> q = qs ! k"
  by (auto simp: in_set_conv_nth)

text \<open>Every candidate's answer is its own, or that of a valid extension from its prior ledger.\<close>

lemma ledger_answer:
  assumes "batch_run hs G v cs qs closed u" "i < length cs"
    and qs: "\<And>k. k < length qs \<Longrightarrow> \<exists>j prior. qs ! k = \<lparr>iq_index = int j, iq_ledger = prior\<rparr> \<and> j < length cs
      \<and> ledgers (int j) = Some prior"
  shows "let r = ledger_answers cs qs closed ! i in ck_index r = i \<and> ck_subject r = cd_subject (cs ! i)
    \<and> (ordinary_answer hs v (cs ! i) r
       \<or> (\<exists>prior. ledgers (int i) = Some prior \<and> extended_answer hs G v (cs ! i) prior r))"
proof -
  let ?kqs = "zip [0..<length qs] qs" let ?rs = "take (length cs) closed"
  have l: "length closed = length (cu_slots u)" "length (cu_slots u) = length cs + length qs"
    using assms(1) granted_answers by (auto simp: batch_run_def)
  then have i: "i < length ?rs" using assms(2) by simp
  show ?thesis
  proof (cases "\<exists>(k, q)\<in>set ?kqs. nat (iq_index q) = i \<and> extension_taken cs closed k")
    case True
    from take_extensions(3) [OF this i] obtain k where k: "k < length qs" "nat (iq_index (qs ! k)) = i"
      "extension_taken cs closed k" "ledger_answers cs qs closed ! i = \<lparr>ck_index = i, ck_subject = cd_subject (cs ! i),
          ck_verdict = ck_verdict (closed ! (length cs + k)), ck_extension = ck_extension (closed ! (length cs + k))\<rparr>"
      by (auto simp: ledger_answers_def zip_upt_nth)
    from qs [OF k(1)] k(2) obtain prior where q: "qs ! k = \<lparr>iq_index = int i, iq_ledger = prior\<rparr>"
      "ledgers (int i) = Some prior" by auto
    from extension_slot_answer [OF assms(1) k(1,3) q(1) assms(2)] k(4) q(2) show ?thesis
      by (auto simp: extended_answer_def Let_def)
  next
    case False
    then have "ledger_answers cs qs closed ! i = ?rs ! i"
      unfolding ledger_answers_def by (intro take_extensions(2)) auto
    with ordinary_slot_answer [OF assms(1,2)] assms(2) show ?thesis by (simp add: Let_def)
  qed
qed

end
