(* ===== verification/Binding_Promises.thy ===== *)
theory Binding_Promises
  imports Binding_Checks
begin

text \<open>
  What a batch checked with prior ledgers answers, and one run of it in full: a view whose
  ledger differs inertly from the prior one, a current record that is valid as it stands and an
  older one whose stale compartment an extension takes over.
\<close>


section \<open>Kernel runs that read no inputs\<close>

definition quiet_record :: "snapshot \<Rightarrow> record_check \<Rightarrow> bool" where
  "quiet_record v r \<longleftrightarrow> (case admit_record no_outcomes v r of Inl y \<Rightarrow> True
     | Inr p \<Rightarrow> fp_runtime_inputs (rc_recorded r) = [] \<and> \<not> needs_proof v r (Inr p) no_rt_state
         \<and> v_status (decide_record v r no_rt_state p) = Valid)"

definition quiet_result :: "snapshot \<Rightarrow> record_check \<Rightarrow> record_result" where
  "quiet_result v r = (let a = admit_record no_outcomes v r in
     \<lparr>rr_verdict = judgment_for v (rc_subject r) (case a of Inl y \<Rightarrow> y | Inr p \<Rightarrow> decide_record v r no_rt_state p),
      rr_evaluated = evaluated_record a, rr_before = no_rt_state, rr_after = no_rt_state,
      rr_selected = False, rr_unavailable = None\<rparr>)"

lemma quiet_inputs:
  "\<forall>(rec, live)\<in>set xs. live \<longrightarrow> fp_runtime_inputs rec = [] \<Longrightarrow>
     \<exists>m. observe_inputs_from sh xs v (bound_world n) = (Inr (replicate (length xs) no_rt_state), v, bound_world m)"
proof (induction xs arbitrary: n)
  case (Cons x xs)
  obtain rec live where x: "x = (rec, live)" by force
  let ?n = "if live then Suc (Suc n) else Suc n"
  from Cons obtain m where "observe_inputs_from sh xs v (bound_world ?n)
      = (Inr (replicate (length xs) no_rt_state), v, bound_world m)" by fastforce
  with Cons.prems show ?case
    by (auto simp: x op_then_def op_bind_def bound_ctx current_runtime_def op_return_def split: if_splits)
qed (auto simp: op_then_def op_bind_def bound_ctx op_return_def)

lemma op_map_quiet:
  assumes "\<And>x. x \<in> set xs \<Longrightarrow> f (h x) v w = (Inr (g x), v, w)"
  shows "op_map f (map h xs) v w = (Inr (map g xs), v, w)"
  using assms by (induction xs) (simp_all add: op_bind_def op_return_def)

lemma zip_maps: "zip (map f xs) (map g xs) = map (\<lambda>x. (f x, g x)) xs" "zip xs (map g xs) = map (\<lambda>x. (x, g x)) xs"
  by (induction xs) simp_all

lemma quiet_kernel:
  assumes "\<forall>r\<in>set rs. quiet_record v r"
  shows "\<exists>m. check_records no_outcomes rs True False v (bound_world n) = (Inr (map (quiet_result v) rs), v, bound_world m)"
proof -
  let ?a = "admit_record no_outcomes v"
  let ?A = "map ?a rs"
  let ?I = "map (\<lambda>r. (rc_recorded r, evaluated_record (?a r))) rs"
  let ?B = "map (\<lambda>_. no_rt_state) rs"
  let ?d = "\<lambda>r. case ?a r of Inl y \<Rightarrow> y | Inr p \<Rightarrow> decide_record v r no_rt_state p"
  have live: "evaluated_record (?a r) \<Longrightarrow> fp_runtime_inputs (rc_recorded r) = []" if "r \<in> set rs" for r
    using assms that by (auto simp: quiet_record_def evaluated_record_def split: sum.splits)
  have I: "\<exists>m. observe_record_inputs ?I v (bound_world k) = (Inr ?B, v, bound_world m)" for k
    using quiet_inputs [of ?I "\<lambda>_. None" v k] live by (auto simp: observe_record_inputs_def map_replicate_const)
  obtain m1 where m1: "observe_record_inputs ?I v (bound_world (Suc n)) = (Inr ?B, v, bound_world m1)" using I by blast
  obtain m2 where m2: "observe_record_inputs ?I v (bound_world m1) = (Inr ?B, v, bound_world m2)" using I by blast
  have np: "needs_proof v r (?a r) no_rt_state = False" if "r \<in> set rs" for r
    using assms that by (auto simp: quiet_record_def needs_proof_def split: sum.splits)
  have V: "op_map (\<lambda>(r, a, s, b). provisional r a s b) (map (\<lambda>r. (r, ?a r, False, no_rt_state)) rs) v w = (Inr (map ?d rs), v, w)" for w
  proof (rule op_map_quiet)
    fix r assume "r \<in> set rs"
    with assms show "(case (r, ?a r, False, no_rt_state) of (r, a, s, b) \<Rightarrow> provisional r a s b) v w = (Inr (?d r), v, w)"
      by (auto simp: provisional_def with_moved_inputs_def op_bind_def op_get_def op_return_def quiet_record_def confirmed_def split: sum.splits)
  qed
  have F: "op_map (finish_record False) (map (\<lambda>r. (r, ?a r, False, ?d r, no_rt_state, no_rt_state)) rs) v w
      = (Inr (map (quiet_result v) rs), v, w)" for w
  proof (rule op_map_quiet)
    fix r assume "r \<in> set rs"
    show "finish_record False (r, ?a r, False, ?d r, no_rt_state, no_rt_state) v w = (Inr (quiet_result v r), v, w)"
      by (simp add: finish_record_def runtime_motion_def op_bind_def op_get_def op_return_def op_then_def quiet_result_def
          confirmed_def Let_def split: sum.split)
  qed
  have S: "map (\<lambda>(r, a, b). needs_proof v r a b) (map (\<lambda>r. (r, ?a r, no_rt_state)) rs) = map (\<lambda>_. False) rs"
    using np by simp
  have none: "filter (\<lambda>(r, s). s) (map (\<lambda>x. (x, False)) rs) = []" by (simp add: filter_empty_conv)
  have nr: "\<not> (\<exists>(r, a)\<in>set (map (\<lambda>x. (x, ?a x)) rs). evaluated_record a \<and> fp_runtime_inputs (rc_recorded r) \<noteq> [])"
    using live by auto
  have i: "map (\<lambda>(r, a). (rc_recorded r, evaluated_record a)) (map (\<lambda>x. (x, ?a x)) rs) = ?I" by simp
  have E: "ensure_observable [] v (bound_world k) = (Inr (), v, bound_world (Suc k))" for k
    by (simp add: ensure_observable_def op_then_def op_bind_def op_get_def op_return_def bound_ctx)
  obtain m3 where m3: "observe_record_inputs ?I v (bound_world (Suc m1)) = (Inr ?B, v, bound_world m3)" using I by blast
  show ?thesis
    by (rule exI [of _ "Suc m3"])
      (simp only: check_records_def op_then_def op_bind_def op_get_def bound_ctx Let_def zip_maps prod.case sum.case
       nr i m1 m3 S V E F none first_seen_def first_seen_from.simps list.map close_check_window_def op_return_def if_True if_False simp_thms)
qed

lemma quiet_settles:
  assumes "\<forall>(sl, r)\<in>set xs. sl_result sl = r \<and> fp_runtime_inputs (rc_recorded (sl_record sl)) = [] \<and> v_status (rr_verdict r) = Valid
      \<or> v_status (rr_verdict (sl_result sl)) = Stale \<and> \<not> licensed_slot sl"
  shows "settle_slots n xs None v w = (Inr (checked_from n (map fst xs), None), v, w)"
  using assms
proof (induction xs arbitrary: n)
  case (Cons x xs)
  obtain sl r where x: "x = (sl, r)" by force
  have c: "closing_verdict sl r v w = (Inr (rr_verdict (sl_result sl)), v, w)"
    using Cons.prems by (auto simp: x closing_verdict_def op_return_def op_bind_def runtime_motion_def)
  have "slot_checked n (sl\<lparr>sl_result := r\<lparr>rr_verdict := rr_verdict (sl_result sl)\<rparr>\<rparr>) = slot_checked n sl"
    by (simp add: slot_checked_def)
  moreover have "licensed_slot sl \<longrightarrow> v_status (rr_verdict (sl_result sl)) = Valid"
    using Cons.prems by (auto simp: x)
  ultimately show ?case
    using Cons by (auto simp: x op_bind_def c Let_def op_return_def checked_from_def upt_conv_Cons simp del: upt_Suc)
qed (simp add: op_return_def checked_from_def)

definition ledger_binding :: runtime_binding where
  "ledger_binding = sample_binding\<lparr>rb_snapshot := (rb_snapshot sample_binding)
     \<lparr>sn_facts := Some (example_facts\<lparr>of_ledgers := [''p'' \<mapsto> ledger_b]\<rparr>)\<rparr>\<rparr>"

definition bound_ledger_view :: snapshot where
  "bound_ledger_view = begun_view\<lparr>sn_facts := Some (sibling_facts
     (example_facts\<lparr>of_ledgers := [''p'' \<mapsto> ledger_b]\<rparr>) [example_subject] [''p''])\<rparr>"

definition current_candidate :: candidate where
  "current_candidate = \<lparr>cd_subject = example_subject, cd_recorded = begun_fingerprint\<rparr>"

definition older_candidate :: candidate where
  "older_candidate = \<lparr>cd_subject = example_subject, cd_recorded = begun_fingerprint\<lparr>fp_test_variants := ''old''\<rparr>\<rparr>"

definition extended_candidate :: candidate where
  "extended_candidate = older_candidate\<lparr>cd_recorded := (cd_recorded older_candidate)\<lparr>fp_applicability :=
     \<lparr>ap_strategy = InertTestVariantExtension, ap_closure = ''v''\<rparr>\<rparr>\<rparr>"

definition stale_verdict :: verdict where
  "stale_verdict = judgment_for bound_ledger_view example_subject (refusal Stale TestVariantsCause Changed ReasonTestVariants)"

lemma ledger_bound: "bound_view (rb_snapshot ledger_binding) (rb_guards ledger_binding) [example_subject] = Inr bound_ledger_view"
  by (simp add: bound_view_def sibling_def ledger_binding_def sample_binding_def bound_ledger_view_def begun_view_def example_view_def
      require_subjects_def missing_subjects_def first_seen_def scope_subjects_def empty_subject_def
      example_subject_def restrict_to_def Let_def example_facts_def)

lemma current_admitted: "admit_record no_outcomes bound_ledger_view (ordinary_check current_candidate) = Inr no_observation"
  by code_simp

lemma older_refused: "admit_record no_outcomes bound_ledger_view (ordinary_check older_candidate) = Inl stale_verdict"
  by code_simp

lemma extension_admitted: "admit_record no_outcomes bound_ledger_view (ordinary_check extended_candidate) = Inr no_observation"
  by code_simp

lemma extension_prepared: "prepare_inert_extension example_syntax bound_ledger_view (cd_recorded older_candidate) ledger_a example_subject = Inr (Prepared (cd_recorded extended_candidate) (clone_ledger ledger_b))"
  by code_simp

lemma ledger_batch_members: "prepare_candidates bound_ledger_view [current_candidate, older_candidate] = None"
  by code_simp

lemma current_quiet: "quiet_record bound_ledger_view (ordinary_check current_candidate)"
  by code_simp

lemma extension_quiet: "quiet_record bound_ledger_view (ordinary_check extended_candidate)"
  by code_simp

lemma quiet_answers_cong:
  assumes "same_basis u v"
  shows "quiet_record u r = quiet_record v r" "quiet_result u r = quiet_result v r"
  by (simp_all only: quiet_record_def quiet_result_def admit_cong [OF assms] needs_proof_cong [OF assms] same_basis_facts [OF assms]
    decide_record_def Let_def)

lemma quiet_round:
  assumes "prepare u = Inr ps" "cu_phase u = UnitOpen" "cu_view u = v" "\<forall>p\<in>set ps. quiet_record v (pd_record p)"
    and "cu_pending u = None"
    and news: "news = new_slots ps (map (quiet_result v) (map pd_record ps))"
  shows "\<exists>m. round_op no_outcomes prepare u (bound_world n)
    = (Inr (checked_from (length (cu_slots u)) news), u\<lparr>cu_slots := cu_slots u @ news\<rparr>, bound_world m)"
proof -
  obtain m where m: "check_records no_outcomes (map pd_record ps) True False v (bound_world (Suc (Suc (Suc n))))
      = (Inr (map (quiet_result v) (map pd_record ps)), v, bound_world m)"
    using quiet_kernel [of "map pd_record ps"] assms(4) by (metis imageE list.set_map)
  have c: "caller_now TYPE(checking_unit) x (bound_world k) = (Inr None, x, bound_world (Suc k))" for x k
    by (simp add: caller_now_def op_ask_def tick_def bound_world_def world_at_def example_world_def)
  show ?thesis
    using assms(1-3,5) m
    by (intro exI [of _ "Suc m"])
      (simp add: round_op_def run_round_def op_then_def op_bind_def op_get_def bound_ctx start_round_def op_lift_def op_modify_def
        op_run_def op_settle_def commit_round_def finish_work_def error_of_def c news)
qed

lemma ledger_view_fields: "sn_cut_unavailable bound_ledger_view = None" "sn_subjects bound_ledger_view = [example_subject]"
  by (simp_all add: bound_ledger_view_def begun_view_def example_view_def)

lemma ledger_reobserved:
  assumes "same_basis bound_ledger_view v"
  shows "\<exists>f m. observe_view v (bound_world n) = (Inr f, v, bound_world m)
    \<and> (\<exists>k. compare_observation_context f v (bound_world m) = (Inr (), v, bound_world k))"
proof -
  have b: "sn_runtime v = sn_runtime bound_ledger_view" "facts_of v = facts_of bound_ledger_view" "sn_subjects v = [example_subject]"
    "snapshot_guards v = snapshot_guards bound_ledger_view"
    using same_basis_facts [OF assms] assms ledger_view_fields
    by (simp_all add: same_basis_def)
  have fv: "facts_of v = sibling_facts (example_facts\<lparr>of_ledgers := [''p'' \<mapsto> ledger_b]\<rparr>) [example_subject] [''p'']"
    and gv: "snapshot_guards v = (of_guards example_facts)\<lparr>g_machine := [], g_runtime_config := []\<rparr>"
    using b(2,4) by (simp_all add: facts_of_def snapshot_guards_def bound_ledger_view_def begun_view_def example_view_def sibling_facts_def)
  obtain f where f: "observe_view v (bound_world n) = (Inr f, v, bound_world (Suc (Suc n)))"
     "f = example_facts\<lparr>of_guards := (of_guards example_facts)\<lparr>g_machine := [], g_runtime_config := []\<rparr>\<rparr>"
    by (simp add: observe_view_def b op_eval bound_world_def world_at_def example_world_def bound_ledger_view_def begun_view_def)
  have "\<exists>k. compare_observation_context f v (bound_world (Suc (Suc n))) = (Inr (), v, bound_world k)"
    by (simp add: compare_observation_context_def b(3) fv gv compare_observations_def compare_subject_def op_on_def
      op_then_def op_bind_def bound_ctx op_get_def op_return_def facts_equal_full f(2)
      sibling_facts_def restrict_to_def
      example_facts_def example_subject_def no_facts_def Let_def sorted_union_def first_seen_def) blast
  with f show ?thesis by blast
qed

definition ledger_slot :: "candidate \<Rightarrow> bool \<Rightarrow> tv_ledger \<Rightarrow> checking_slot" where
  "ledger_slot c extension l = \<lparr>sl_record = ordinary_check c,
     sl_result = quiet_result bound_ledger_view (ordinary_check c), sl_extension = extension, sl_ledger = l\<rparr>"

definition ledger_slots :: "checking_slot list" where
  "ledger_slots = [ledger_slot current_candidate False no_ledger, ledger_slot older_candidate False no_ledger,
     ledger_slot extended_candidate True (clone_ledger ledger_b)]"

lemma ledger_verdicts:
  "v_status (rr_verdict (quiet_result bound_ledger_view (ordinary_check current_candidate))) = Valid"
  "v_status (rr_verdict (quiet_result bound_ledger_view (ordinary_check extended_candidate))) = Valid"
  "v_status (rr_verdict (quiet_result bound_ledger_view (ordinary_check older_candidate))) = Stale"
  "v_reason (rr_verdict (quiet_result bound_ledger_view (ordinary_check older_candidate))) = ReasonTestVariants"
  using current_quiet extension_quiet by (simp_all add: quiet_record_def quiet_result_def current_admitted older_refused extension_admitted stale_verdict_def refusal_def
    judgment_for_def Let_def)

lemma ledger_quiet_inputs:
  "fp_runtime_inputs (rc_recorded (ordinary_check current_candidate)) = []"
  "fp_runtime_inputs (rc_recorded (ordinary_check extended_candidate)) = []"
  by (simp_all add: ordinary_check_def current_candidate_def extended_candidate_def older_candidate_def begun_admitted(3))

lemma quiet_unselected: "rr_selected (quiet_result v r) = False"
  by (simp add: quiet_result_def Let_def)

lemma ledger_closes:
  "\<exists>m. close_check no_outcomes ledger_slots bound_ledger_view (bound_world n)
     = (Inr (checked_from 0 ledger_slots), bound_ledger_view, bound_world m)"
proof -
  let ?V = bound_ledger_view let ?S = "seeded_view ?V" let ?R = "close_records ledger_slots"
  have b: "same_basis ?V ?S" "same_basis ?S ?V" using same_basis_seeded same_basis_sym by blast+
  obtain m where seeded: "new_seeded_validation_view ?V (bound_world n) = (Inr ?S, ?V, bound_world m)"
  proof -
    from ledger_reobserved [OF same_basis_refl, of n] obtain f k l where
      "observe_view ?V (bound_world n) = (Inr f, ?V, bound_world k)"
      "compare_observation_context f ?V (bound_world k) = (Inr (), ?V, bound_world l)" by blast
    then have "new_seeded_validation_view ?V (bound_world n) = (Inr ?S, ?V, bound_world (Suc l))"
      by (simp add: new_seeded_validation_view_def op_then_def op_bind_def op_try_def hold_cut_unavailable_def op_return_def
        bound_ctx op_get_def)
    with that show ?thesis .
  qed
  have R: "?R = [ordinary_check current_candidate, (ordinary_check older_candidate)\<lparr>rc_refusal := Some
      (rr_verdict (quiet_result ?V (ordinary_check older_candidate)))\<rparr>, ordinary_check extended_candidate]"
    by (simp add: close_records_def ledger_slots_def ledger_slot_def quiet_result_def current_admitted older_refused extension_admitted evaluated_record_def Let_def)
  have "\<forall>r\<in>set ?R. quiet_record ?V r"
    using current_quiet extension_quiet by (simp add: R quiet_record_def admit_record_def Let_def)
  then obtain k where k: "check_records no_outcomes ?R True False ?S (bound_world m) = (Inr (map (quiet_result ?S) ?R), ?S, bound_world k)"
    using quiet_kernel [of ?R ?S m] by (auto simp: quiet_answers_cong [OF b(2)])
  have "settle_slots 0 (zip ledger_slots (map (quiet_result ?V) ?R)) None ?S w = (Inr (checked_from 0 ledger_slots, None), ?S, w)" for w
  proof -
    have "\<forall>(sl, r)\<in>set (zip ledger_slots (map (quiet_result ?V) ?R)). sl_result sl = r
        \<and> fp_runtime_inputs (rc_recorded (sl_record sl)) = [] \<and> v_status (rr_verdict r) = Valid
      \<or> v_status (rr_verdict (sl_result sl)) = Stale \<and> \<not> licensed_slot sl"
      using ledger_verdicts ledger_quiet_inputs
      unfolding R by (simp add: ledger_slots_def ledger_slot_def licensed_slot_def quiet_unselected)
    from quiet_settles [OF this] show ?thesis by (simp add: close_records_def del: settle_slots.simps)
  qed
  moreover have Q: "quiet_result ?S = quiet_result ?V" by (rule ext) (rule quiet_answers_cong(2) [OF b(2)])
  ultimately have slots: "close_slots no_outcomes ledger_slots ?S (bound_world m) = (Inr (checked_from 0 ledger_slots, None), ?S, bound_world k)"
    using k by (simp add: close_slots_def op_bind_def Q)
  from ledger_reobserved [OF b(1), of k] obtain f i l where
    "observe_view ?S (bound_world k) = (Inr f, ?S, bound_world i)"
    "compare_observation_context f ?S (bound_world i) = (Inr (), ?S, bound_world l)" by blast
  then have "close_reobservation ?S None ?V (bound_world k) = (Inr (), ?V, bound_world (Suc l))"
    by (simp add: close_reobservation_def reobserve_base_def op_run_def op_bind_def op_lift_def op_then_def error_of_def
      defer_unavailability_def resolve_unavailable_def op_get_def report_held_def op_return_def bound_ctx ledger_view_fields
      seeded_view_def)
  with seeded slots show ?thesis
    by (simp add: close_check_def op_bind_def op_run_def op_lift_def op_then_def op_return_def) blast
qed

lemma ledger_run:
  "\<exists>u w. check_batch_with_ledgers no_outcomes example_syntax ledger_binding [current_candidate, older_candidate]
     [1 \<mapsto> ledger_a] (bound_world n)
    = (Inr [slot_checked 0 (ledger_slot current_candidate False no_ledger),
        (slot_checked 2 (ledger_slot extended_candidate True (clone_ledger ledger_b)))\<lparr>ck_index := 1\<rparr>], u, w)"
proof -
  let ?V = bound_ledger_view let ?cs = "[current_candidate, older_candidate]" let ?u = "begin_check ?V"
  let ?first = "[ledger_slot current_candidate False no_ledger, ledger_slot older_candidate False no_ledger]"
  let ?third = "ledger_slot extended_candidate True (clone_ledger ledger_b)"
  have p: "prepare_round ?V ?cs = Inr (map (\<lambda>c. \<lparr>pd_record = ordinary_check c, pd_extension = False, pd_ledger = no_ledger\<rparr>) ?cs)"
    using ledger_batch_members by (simp add: prepare_round_ok)
  have q: "quiet_record ?V (ordinary_check older_candidate)" by (simp add: quiet_record_def older_refused)
  have n: "new_slots (map (\<lambda>c. \<lparr>pd_record = ordinary_check c, pd_extension = False, pd_ledger = no_ledger\<rparr>) ?cs)
      (map (quiet_result ?V) (map pd_record (map (\<lambda>c. \<lparr>pd_record = ordinary_check c, pd_extension = False, pd_ledger = no_ledger\<rparr>) ?cs))) = ?first"
    by (simp add: new_slots_def ledger_slot_def)
  let ?u1 = "?u\<lparr>cu_slots := ?first\<rparr>"
  let ?p = "map (\<lambda>c. \<lparr>pd_record = ordinary_check c, pd_extension = False, pd_ledger = no_ledger\<rparr>) ?cs"
  have r1: "\<exists>m. round_op no_outcomes (\<lambda>u. prepare_round (cu_view u) ?cs) ?u (bound_world k)
      = (Inr (checked_from 0 ?first), ?u1, bound_world m)" for k
    using quiet_round [where prepare = "\<lambda>u. prepare_round (cu_view u) ?cs" and u = ?u and ps = ?p and v = ?V and news = ?first and n = k,
      OF _ _ _ _ _ n [symmetric]] p q current_quiet
    by (simp add: begin_check_def)
  have e: "extension_requests [1 \<mapsto> ledger_a] (checked_from 0 ?first) = [\<lparr>iq_index = 1, iq_ledger = ledger_a\<rparr>]"
    using ledger_verdicts
    by (simp add: extension_requests_def extension_request_def checked_from_def slot_checked_def ledger_slot_def List.map_filter_def upt_rec)
  have s: "cd_subject older_candidate = example_subject" "rc_candidate (ordinary_check older_candidate) = older_candidate"
    "older_candidate\<lparr>cd_recorded := cd_recorded extended_candidate\<rparr> = extended_candidate"
    by (simp_all add: older_candidate_def ordinary_check_def extended_candidate_def)
  let ?p2 = "[\<lparr>pd_record = ordinary_check extended_candidate, pd_extension = True, pd_ledger = clone_ledger ledger_b\<rparr>]"
  have p2: "prepare_extensions example_syntax ?V ?first [\<lparr>iq_index = 1, iq_ledger = ledger_a\<rparr>] = Inr ?p2"
    using extension_prepared s by (simp add: prepare_extensions_def outside_unit_def extension_slot_def ledger_slot_def ordinary_check_def
      clone_ledger_idem Let_def)
  have n2: "new_slots ?p2 (map (quiet_result ?V) (map pd_record ?p2)) = [?third]"
    by (simp add: new_slots_def ledger_slot_def)
  have r2: "\<exists>m. round_op no_outcomes (\<lambda>u. prepare_extensions example_syntax (cu_view u) (cu_slots u) [\<lparr>iq_index = 1, iq_ledger = ledger_a\<rparr>])
      ?u1 (bound_world k) = (Inr (checked_from 2 [?third]), ?u\<lparr>cu_slots := ledger_slots\<rparr>, bound_world m)" for k
    using quiet_round [where prepare = "\<lambda>u. prepare_extensions example_syntax (cu_view u) (cu_slots u) [\<lparr>iq_index = 1, iq_ledger = ledger_a\<rparr>]"
      and u = ?u1 and ps = ?p2 and v = ?V and news = "[?third]" and n = k, OF _ _ _ _ _ n2 [symmetric]] p2 extension_quiet
    by (simp add: begin_check_def ledger_slots_def numeral_2_eq_2)
  have cl: "\<exists>u w. close_op no_outcomes (?u\<lparr>cu_slots := ledger_slots\<rparr>) (bound_world k) = (Inr (checked_from 0 ledger_slots), u, w)" for k
  proof -
    have c: "caller_now TYPE(checking_unit) x (bound_world j) = (Inr None, x, bound_world (Suc j))" for x j
      by (simp add: caller_now_def op_ask_def tick_def bound_world_def world_at_def example_world_def)
    from ledger_closes [of "Suc k"] obtain m where "close_check no_outcomes ledger_slots ?V (bound_world (Suc k))
      = (Inr (checked_from 0 ledger_slots), ?V, bound_world m)" by blast
    then show ?thesis
      by (simp add: close_op_def op_bind_def op_then_def op_get_def op_modify_def op_run_def op_settle_def c start_close_def
        begin_check_def commit_close_def finish_work_def error_of_def)
  qed
  obtain m1 where m1: "round_op no_outcomes (\<lambda>u. prepare_round (cu_view u) ?cs) ?u (bound_world (Suc n))
      = (Inr (checked_from 0 ?first), ?u1, bound_world m1)" using r1 by blast
  obtain m2 where m2: "round_op no_outcomes (\<lambda>u. prepare_extensions example_syntax (cu_view u) (cu_slots u) [\<lparr>iq_index = 1, iq_ledger = ledger_a\<rparr>])
      ?u1 (bound_world m1) = (Inr (checked_from 2 [?third]), ?u\<lparr>cu_slots := ledger_slots\<rparr>, bound_world m2)" using r2 by blast
  obtain u w where u: "close_op no_outcomes (?u\<lparr>cu_slots := ledger_slots\<rparr>) (bound_world m2) = (Inr (checked_from 0 ledger_slots), u, w)"
    using cl by blast
  have answers: "ledger_answers ?cs [\<lparr>iq_index = 1, iq_ledger = ledger_a\<rparr>] (checked_from 0 ledger_slots)
    = [slot_checked 0 (ledger_slot current_candidate False no_ledger), (slot_checked 2 ?third)\<lparr>ck_index := 1\<rparr>]"
    using ledger_verdicts(2)
    by (simp add: ledger_answers_def take_extension_def checked_from_def ledger_slots_def ledger_slot_def slot_checked_def Let_def
      upt_rec older_candidate_def extended_candidate_def ordinary_check_def)
  have "ledger_steps no_outcomes example_syntax ?cs [1 \<mapsto> ledger_a] ?u (bound_world (Suc n))
    = (Inr [slot_checked 0 (ledger_slot current_candidate False no_ledger), (slot_checked 2 ?third)\<lparr>ck_index := 1\<rparr>], u, w)"
    by (simp add: ledger_steps_def op_bind_def op_then_def op_return_def m1 e m2 u answers Let_def del: fun_upd_apply)
  moreover have "prepare_candidates (rb_snapshot ledger_binding) ?cs = None" by code_simp
  moreover have "batch_subjects ledger_binding ?cs = [example_subject]"
    by (simp add: batch_subjects_def first_seen_def current_candidate_def older_candidate_def)
  moreover have "sn_facts (rb_snapshot ledger_binding) \<noteq> None" by (simp add: ledger_binding_def)
  ultimately show ?thesis
    by (simp add: check_batch_with_ledgers_def bound_ctx in_unit_def ledger_bound)
qed


end
