(* ===== verification/Type_Mentions.thy ===== *)
theory Type_Mentions
  imports Prelude
begin

text \<open>
  Types of the analysed program, as the reachability analysis of
  internal/closure/internal/rta/rta.go reads them (go/types): a type is a number standing for
  one class of identical unaliased types, and the program gives each its form. Holds
  ContainsTypeParam, the search for a type parameter anywhere in a type's structure, and the
  proof that the search with its seen map, over any cyclic type graph, returns and decides
  reachability of a type parameter.
\<close>

section \<open>Loops over a list that may stop early\<close>

fun any_until :: "('a \<Rightarrow> 's \<Rightarrow> (bool \<times> 's) option) \<Rightarrow> 'a list \<Rightarrow> 's \<Rightarrow> (bool \<times> 's) option" where
  "any_until f [] s = Some (False, s)"
| "any_until f (x # xs) s = (case f x s of
      None \<Rightarrow> None
    | Some (True, s') \<Rightarrow> Some (True, s')
    | Some (False, s') \<Rightarrow> any_until f xs s')"

section \<open>Types\<close>

type_synonym ty = nat

text \<open>The dynamic kinds of types.Type the analysis distinguishes; OtherT is any other kind.\<close>

datatype go_type =
    BasicT
  | TypeParamT
  | UnionT
  | PointerT ty
  | SliceT ty
  | ArrayT ty
  | ChanT ty
  | MapT ty ty
  | SignatureT (sig_has_recv: bool) (sig_generic: bool) (sig_params: ty) (sig_results: ty)
  | TupleT "ty list"
  | StructT "ty list"
  | NamedT (named_params: bool) (named_args: "ty list option") (named_underlying: ty)
  | InterfaceT (embedded: "ty list") (explicit_methods: "ty list")
  | OtherT

text \<open>The operands of the search's recursive calls, in order, and the arms that answer at once.\<close>

fun mention_children :: "go_type \<Rightarrow> ty list" where
  "mention_children (PointerT e) = [e]"
| "mention_children (SliceT e) = [e]"
| "mention_children (ArrayT e) = [e]"
| "mention_children (ChanT e) = [e]"
| "mention_children (MapT k v) = [k, v]"
| "mention_children (SignatureT _ _ ps rs) = [ps, rs]"
| "mention_children (TupleT ts) = ts"
| "mention_children (StructT ts) = ts"
| "mention_children (NamedT _ targs u) = (case targs of None \<Rightarrow> [] | Some ts \<Rightarrow> ts) @ [u]"
| "mention_children (InterfaceT es ms) = es @ ms"
| "mention_children _ = []"

fun generic_arm :: "go_type \<Rightarrow> bool" where
  "generic_arm (SignatureT _ g _ _) = g"
| "generic_arm (NamedT ps targs _) = (ps \<and> targs = None)"
| "generic_arm _ = False"

fun parameter_kind :: "go_type \<Rightarrow> bool" where
  "parameter_kind TypeParamT = True"
| "parameter_kind UnionT = True"
| "parameter_kind _ = False"

text \<open>ContainsTypeParam; the seen map is threaded through the calls.\<close>

fun contains_type_param :: "nat \<Rightarrow> (ty \<Rightarrow> go_type) \<Rightarrow> ty \<Rightarrow> ty list \<Rightarrow> (bool \<times> ty list) option" where
  "contains_type_param 0 G t seen = None"
| "contains_type_param (Suc n) G t seen =
     (if parameter_kind (G t) then Some (True, seen)
      else if G t = BasicT then Some (False, seen)
      else if t \<in> set seen then Some (False, seen)
      else if generic_arm (G t) then Some (True, t # seen)
      else any_until (contains_type_param n G) (mention_children (G t)) (t # seen))"

text \<open>What it decides: a parameter, or a generic origin or signature, is reachable.\<close>

inductive mentions :: "(ty \<Rightarrow> go_type) \<Rightarrow> ty \<Rightarrow> bool" for G where
  here: "parameter_kind (G t) \<Longrightarrow> mentions G t"
| generic: "generic_arm (G t) \<Longrightarrow> mentions G t"
| inside: "c \<in> set (mention_children (G t)) \<Longrightarrow> mentions G c \<Longrightarrow> mentions G t"

section \<open>The search with a seen map\<close>

lemma any_until_seen:
  assumes "\<And>x s b s'. x \<in> set xs \<Longrightarrow> f x s = Some (b, s') \<Longrightarrow> set s \<subseteq> set s'"
  shows "any_until f xs s = Some (b, s') \<Longrightarrow> set s \<subseteq> set s'"
  using assms
proof (induction xs arbitrary: s)
  case (Cons x xs)
  then show ?case
    by (fastforce split: option.splits prod.splits bool.splits)
qed simp

lemma contains_seen: "contains_type_param n G t seen = Some (b, seen') \<Longrightarrow> set seen \<subseteq> set seen'"
proof (induction n arbitrary: t seen b seen')
  case (Suc n)
  show ?case
  proof (cases "parameter_kind (G t) \<or> G t = BasicT \<or> t \<in> set seen \<or> generic_arm (G t)")
    case False
    with Suc.prems have "any_until (contains_type_param n G) (mention_children (G t)) (t # seen) = Some (b, seen')"
      by simp
    then have "set (t # seen) \<subseteq> set seen'" by (rule any_until_seen [rotated]) (rule Suc.IH)
    then show ?thesis by simp
  qed (use Suc.prems in \<open>auto split: if_splits\<close>)
qed simp

text \<open>A positive answer is a reachable parameter.\<close>

lemma any_until_true:
  "any_until f xs s = Some (True, s') \<Longrightarrow> \<exists>x\<in>set xs. \<exists>s1 s2. f x s1 = Some (True, s2)"
proof (induction xs arbitrary: s)
  case (Cons x xs)
  then show ?case by (fastforce split: option.splits prod.splits bool.splits)
qed simp

lemma contains_sound: "contains_type_param n G t seen = Some (True, seen') \<Longrightarrow> mentions G t"
proof (induction n arbitrary: t seen seen')
  case (Suc n)
  show ?case
  proof (cases "parameter_kind (G t) \<or> generic_arm (G t)")
    case True
    then show ?thesis by (auto intro: mentions.intros)
  next
    case False
    with Suc.prems have "any_until (contains_type_param n G) (mention_children (G t)) (t # seen) = Some (True, seen')"
      by (auto split: if_splits)
    from any_until_true [OF this] Suc.IH show ?thesis by (blast intro: mentions.inside)
  qed
qed simp

text \<open>After a negative answer every type newly seen has only seen, or closed, children.\<close>

definition quiet :: "(ty \<Rightarrow> go_type) \<Rightarrow> ty set \<Rightarrow> ty \<Rightarrow> bool" where
  "quiet G S t \<longleftrightarrow> \<not> parameter_kind (G t) \<and> (G t = BasicT \<or> t \<in> S)"

definition settled :: "(ty \<Rightarrow> go_type) \<Rightarrow> ty set \<Rightarrow> ty \<Rightarrow> bool" where
  "settled G S t \<longleftrightarrow> \<not> generic_arm (G t) \<and> (\<forall>c \<in> set (mention_children (G t)). quiet G S c)"

lemma quiet_mono: "quiet G S t \<Longrightarrow> S \<subseteq> S' \<Longrightarrow> quiet G S' t"
  by (auto simp: quiet_def)

lemma settled_mono: "settled G S t \<Longrightarrow> S \<subseteq> S' \<Longrightarrow> settled G S' t"
  by (auto simp: settled_def intro: quiet_mono)

definition closes :: "(ty \<Rightarrow> go_type) \<Rightarrow> (ty \<Rightarrow> ty list \<Rightarrow> (bool \<times> ty list) option) \<Rightarrow> bool" where
  "closes G f \<longleftrightarrow> (\<forall>t s s'. f t s = Some (False, s') \<longrightarrow> set s \<subseteq> set s' \<and> quiet G (set s') t
     \<and> (\<forall>u \<in> set s' - set s. settled G (set s') u))"

lemma any_until_closes:
  assumes "closes G f"
  shows "any_until f xs s = Some (False, s') \<Longrightarrow> set s \<subseteq> set s' \<and> (\<forall>x\<in>set xs. quiet G (set s') x)
     \<and> (\<forall>u \<in> set s' - set s. settled G (set s') u)"
proof (induction xs arbitrary: s)
  case (Cons x xs)
  then obtain s1 where a: "f x s = Some (False, s1)" "any_until f xs s1 = Some (False, s')"
    by (auto split: option.splits prod.splits bool.splits)
  from assms a(1) have b: "set s \<subseteq> set s1" "quiet G (set s1) x" "\<forall>u \<in> set s1 - set s. settled G (set s1) u"
    unfolding closes_def by blast+
  note c = Cons.IH [OF a(2)]
  have "\<forall>u \<in> set s' - set s. settled G (set s') u"
    using b(3) c by (meson DiffD1 DiffD2 DiffI settled_mono)
  with b c show ?case by (auto intro: quiet_mono)
qed simp

lemma contains_closes: "closes G (contains_type_param n G)"
proof (induction n)
  case 0
  show ?case by (simp add: closes_def)
next
  case (Suc n)
  have "set s \<subseteq> set s' \<and> quiet G (set s') t \<and> (\<forall>u \<in> set s' - set s. settled G (set s') u)"
    if r: "contains_type_param (Suc n) G t s = Some (False, s')" for t s s'
  proof (cases "G t = BasicT \<or> t \<in> set s")
    case True
    with r show ?thesis by (auto simp: quiet_def split: if_splits)
  next
    case False
    with r have p: "\<not> parameter_kind (G t)" "\<not> generic_arm (G t)"
      and a: "any_until (contains_type_param n G) (mention_children (G t)) (t # s) = Some (False, s')"
      by (auto split: if_splits)
    note c = any_until_closes [OF Suc.IH a]
    from c p have "settled G (set s') t" by (simp add: settled_def)
    moreover from c p have "quiet G (set s') t" by (simp add: quiet_def)
    ultimately show ?thesis using c by auto
  qed
  then show ?case unfolding closes_def by blast
qed

lemma quiet_not_mentions:
  assumes "\<forall>u \<in> S. settled G S u"
  shows "mentions G t \<Longrightarrow> \<not> quiet G S t"
proof (induction rule: mentions.induct)
  case (here t)
  then show ?case by (simp add: quiet_def)
next
  case (generic t)
  then show ?case using assms by (auto simp: quiet_def settled_def)
next
  case (inside c t)
  then show ?case using assms by (auto simp: quiet_def settled_def)
qed

text \<open>From an empty seen map the answer is exact.\<close>

lemma contains_exact:
  assumes "contains_type_param n G t [] = Some (b, seen)"
  shows "b \<longleftrightarrow> mentions G t"
proof (cases b)
  case True
  with assms have "contains_type_param n G t [] = Some (True, seen)" by simp
  from contains_sound [OF this] True show ?thesis by simp
next
  case False
  with assms have "contains_type_param n G t [] = Some (False, seen)" by simp
  then have "quiet G (set seen) t" "\<forall>u \<in> set seen. settled G (set seen) u"
    using contains_closes [of G n] unfolding closes_def by fastforce+
  with quiet_not_mentions False show ?thesis by blast
qed

section \<open>Termination\<close>

definition types_closed :: "(ty \<Rightarrow> go_type) \<Rightarrow> ty set \<Rightarrow> bool" where
  "types_closed G U \<longleftrightarrow> finite U \<and> (\<forall>t\<in>U. set (mention_children (G t)) \<subseteq> U)"

lemma any_until_returns:
  assumes "\<And>x s. x \<in> set xs \<Longrightarrow> set s0 \<subseteq> set s \<Longrightarrow> \<exists>b s'. f x s = Some (b, s') \<and> set s \<subseteq> set s'"
  shows "set s0 \<subseteq> set s \<Longrightarrow> \<exists>b s'. any_until f xs s = Some (b, s')"
  using assms
proof (induction xs arbitrary: s)
  case (Cons x xs)
  from Cons.prems(2) [of x s] Cons.prems(1) obtain b s1 where x: "f x s = Some (b, s1)" "set s \<subseteq> set s1"
    by auto
  show ?case
  proof (cases b)
    case False
    have "set s0 \<subseteq> set s1" using Cons.prems(1) x(2) by blast
    from Cons.IH [OF this] Cons.prems(2) x(1) False show ?thesis by auto
  next
    case True
    with x(1) have "any_until f (x # xs) s = Some (True, s1)" by simp
    then show ?thesis by blast
  qed
qed auto

lemma contains_returns:
  assumes "types_closed G U"
  shows "t \<in> U \<Longrightarrow> card (U - set seen) < n \<Longrightarrow> \<exists>b seen'. contains_type_param n G t seen = Some (b, seen')"
proof (induction n arbitrary: t seen)
  case (Suc n)
  show ?case
  proof (cases "parameter_kind (G t) \<or> G t = BasicT \<or> t \<in> set seen \<or> generic_arm (G t)")
    case False
    have "\<exists>b s'. any_until (contains_type_param n G) (mention_children (G t)) (t # seen) = Some (b, s')"
    proof (rule any_until_returns [of _ "t # seen"])
      fix x s assume x: "x \<in> set (mention_children (G t))" and s: "set (t # seen) \<subseteq> set s"
      have "U - set s \<subset> U - set seen" using Suc.prems(1) s False by auto
      then have "card (U - set s) < card (U - set seen)"
        using assms by (intro psubset_card_mono) (auto simp: types_closed_def)
      moreover have "x \<in> U" using assms Suc.prems(1) x by (auto simp: types_closed_def)
      ultimately obtain b s' where "contains_type_param n G x s = Some (b, s')"
        using Suc.IH [of x s] Suc.prems(2) by auto
      with contains_seen show "\<exists>b s'. contains_type_param n G x s = Some (b, s') \<and> set s \<subseteq> set s'"
        by blast
    qed simp
    with False show ?thesis by simp
  qed auto
qed simp

lemma contains_total:
  "types_closed G U \<Longrightarrow> t \<in> U \<Longrightarrow> card U < n \<Longrightarrow> \<exists>seen. contains_type_param n G t [] = Some (mentions G t, seen)"
  using contains_returns [of G U t "[]" n] contains_exact by fastforce

section \<open>Properties\<close>

text \<open>C16: On a finite type graph, cyclic or not, the search for a type parameter returns, and
  answers yes exactly when a parameter, a union, a generic signature or an uninstantiated
  generic type is reachable through the structure: the seen map that cuts cycles hides none.\<close>

theorem type_param_search_decides:
  assumes "types_closed G U" "t \<in> U" "card U < n"
  shows "\<exists>seen. contains_type_param n G t [] = Some (mentions G t, seen)"
  by (rule contains_total [OF assms])

text \<open>A recursive named type over a pointer to itself, and one whose field is a parameter.\<close>

theorem type_param_search_decides_witness:
  "\<exists>G. (\<exists>seen. contains_type_param 5 G 0 [] = Some (False, seen))
     \<and> (\<exists>seen. contains_type_param 5 G 3 [] = Some (True, seen))
     \<and> \<not> mentions G 0 \<and> mentions G 3"
proof -
  let ?G = "(\<lambda>_. OtherT)(0 := NamedT False None 1, 1 := StructT [2], 2 := PointerT 0,
     3 := StructT [0, 4], 4 := TypeParamT)"
  let ?U = "{0, 1, 2, 3, 4} :: ty set"
  have U: "types_closed ?G ?U" by (simp add: types_closed_def)
  have c: "card ?U < 6" by simp
  obtain a where a: "contains_type_param 6 ?G 0 [] = Some (mentions ?G 0, a)"
    using type_param_search_decides [OF U _ c, of 0] by auto
  obtain b where b: "contains_type_param 6 ?G 3 [] = Some (mentions ?G 3, b)"
    using type_param_search_decides [OF U _ c, of 3] by auto
  have "contains_type_param 5 ?G 0 [] = Some (False, [2, 1, 0])"
    "contains_type_param 6 ?G 0 [] = Some (False, [2, 1, 0])"
    "\<exists>seen. contains_type_param 5 ?G 3 [] = Some (True, seen)"
    "\<exists>seen. contains_type_param 6 ?G 3 [] = Some (True, seen)"
    by (simp_all add: numeral_eq_Suc)
  with a b show ?thesis by (intro exI [of _ ?G]) auto
qed

end
