(* ===== verification/Rta.thy ===== *)
theory Rta
  imports Type_Mentions "HOL-Library.Word" "HOL-Library.AList"
begin

text \<open>
  Attributed rapid type analysis (internal/closure/internal/rta/rta.go): reachability over the
  SSA program for up to 64 subjects at once, every fact carrying the mask of the subjects that
  reached it. The program (functions, instructions, method sets, the implements relation) is
  data, as the SSA builder and go/types answer it; Go's map iteration order is a parameter.
  Holds the state, every operation of the walk, the worklist loop and Analyze, and the rules
  of the analysis for one subject alone.
\<close>

unbundle bit_operations_syntax

section \<open>The program\<close>

type_synonym fn = nat
type_synonym site = nat
type_synonym mask = "64 word"

text \<open>One selection of a method set, with the function prog.MethodValue answers for it.\<close>

record method_sel =
  ms_id :: string
  ms_nparams :: nat
  ms_nresults :: nat
  ms_generic :: bool
  ms_exported :: bool
  ms_value :: "fn option"
  ms_params :: ty
  ms_results :: ty

text \<open>
  A referrer of a closure; a call says whether it is an interface call, whether the closure is
  its callee, and whether the closure is also among its arguments.
\<close>

datatype referrer = DebugRef | CallRef bool bool bool | OtherRef

text \<open>
  An instruction with its operands, functions as Some; the operands of a call begin with its
  callee value.
\<close>

datatype instr =
    Invoke site "fn option list"
  | StaticCall site fn "fn option list"
  | BuiltinCall site "fn option list"
  | DynCall site "fn option list"
  | MakeInterface ty "fn option list"
  | MakeClosure "referrer list" "fn option list"
  | OtherInstr "fn option list"

record rta_program =
  pg_form :: "ty \<Rightarrow> go_type"
  pg_pointer :: "ty \<Rightarrow> ty"
  pg_methods :: "ty \<Rightarrow> method_sel list"
  pg_implements :: "ty \<Rightarrow> ty \<Rightarrow> bool"
  pg_lookup :: "ty \<Rightarrow> site \<Rightarrow> fn option"
  pg_sig :: "fn \<Rightarrow> ty"
  pg_body :: "fn \<Rightarrow> instr list"
  pg_fn_generic :: "fn \<Rightarrow> bool"
  pg_fn_args :: "fn \<Rightarrow> ty list"
  pg_site_sig :: "site \<Rightarrow> ty"
  pg_site_iface :: "site \<Rightarrow> ty"
  pg_reflect_call :: "fn option"

text \<open>The order in which Go ranges over a map is unspecified.\<close>

record range_order =
  ord_fns :: "(fn \<times> mask) list \<Rightarrow> (fn \<times> mask) list"
  ord_sites :: "(site \<times> mask) list \<Rightarrow> (site \<times> mask) list"
  ord_types :: "ty list \<Rightarrow> ty list"

datatype rta_error = NilContext | RtaCancelled string | ParameterizedRoot fn | UnsupportedShape ty | Exhausted

section \<open>The state\<close>

record concrete_info =
  ci_fprint :: mask
  ci_masks :: mask
  ci_implements :: "ty list"

record interface_info =
  ii_fprint :: mask
  ii_implementations :: "ty list"

record rta =
  r_reach :: "fn \<Rightarrow> mask"
  r_resolved :: "site \<Rightarrow> mask"
  r_targets :: "site \<Rightarrow> fn \<Rightarrow> mask"
  r_worklist :: "fn list"
  r_pending :: "fn \<Rightarrow> mask"
  r_queued :: "fn \<Rightarrow> bool"
  r_addr :: "ty \<Rightarrow> (fn \<times> mask) list"
  r_dyn :: "ty \<Rightarrow> (site \<times> mask) list"
  r_invoke :: "ty \<Rightarrow> (site \<times> mask) list"
  r_concrete :: "(ty \<times> concrete_info) list"
  r_ifaces :: "(ty \<times> interface_info) list"
  r_runtime :: "ty \<Rightarrow> mask"
  r_traversed :: "ty \<Rightarrow> mask"

definition empty_rta :: rta where
  "empty_rta = \<lparr>r_reach = \<lambda>_. 0, r_resolved = \<lambda>_. 0, r_targets = \<lambda>_ _. 0, r_worklist = [],
     r_pending = \<lambda>_. 0, r_queued = \<lambda>_. False, r_addr = \<lambda>_. [], r_dyn = \<lambda>_. [], r_invoke = \<lambda>_. [],
     r_concrete = [], r_ifaces = [], r_runtime = \<lambda>_. 0, r_traversed = \<lambda>_. 0\<rparr>"

definition mask_of :: "('k \<times> mask) list \<Rightarrow> 'k \<Rightarrow> mask" where
  "mask_of m k = (case map_of m k of None \<Rightarrow> 0 | Some x \<Rightarrow> x)"

section \<open>Method-set fingerprints\<close>

text \<open>hash/crc32, IEEE polynomial, bit by bit.\<close>

definition crc_bit :: "32 word \<Rightarrow> 32 word" where
  "crc_bit c = (if bit c 0 then drop_bit 1 c XOR 0xEDB88320 else drop_bit 1 c)"

definition crc32 :: "string \<Rightarrow> 32 word" where
  "crc32 s = NOT (foldl (\<lambda>c b. (crc_bit ^^ 8) (c XOR of_nat (of_char b))) (NOT 0) s)"

definition method_key :: "method_sel \<Rightarrow> string" where
  "method_key m = ms_id m @ ''/'' @ show_nat (ms_nparams m) @ ''/'' @ show_nat (ms_nresults m)"

definition method_fingerprint :: "method_sel list \<Rightarrow> mask" where
  "method_fingerprint ms = foldl (\<lambda>mask m. if ms_generic m then mask
     else mask OR push_bit (unat (crc32 (method_key m)) mod 64) 1) 0 ms"

definition attributed_implements :: "rta_program \<Rightarrow> ty \<Rightarrow> concrete_info \<Rightarrow> ty \<Rightarrow> interface_info \<Rightarrow> bool" where
  "attributed_implements P C ci I ii \<longleftrightarrow> ii_fprint ii AND NOT (ci_fprint ci) = 0 \<and> pg_implements P C I"

section \<open>Reachability and resolved edges\<close>

definition add_reachable :: "fn option \<Rightarrow> mask \<Rightarrow> rta \<Rightarrow> rta" where
  "add_reachable target masks s = (case target of None \<Rightarrow> s | Some f \<Rightarrow>
     (let delta = masks AND NOT (r_reach s f) in
      if delta = 0 then s
      else s\<lparr>r_reach := (r_reach s)(f := r_reach s f OR delta),
             r_pending := (r_pending s)(f := r_pending s f OR delta),
             r_queued := (r_queued s)(f := True),
             r_worklist := (if r_queued s f then r_worklist s else r_worklist s @ [f])\<rparr>))"

definition add_resolved_target :: "site option \<Rightarrow> fn option \<Rightarrow> mask \<Rightarrow> rta \<Rightarrow> rta" where
  "add_resolved_target site target masks s = (case (site, target) of
      (Some c, Some f) \<Rightarrow>
        (if masks = 0 then s
         else s\<lparr>r_resolved := (r_resolved s)(c := r_resolved s c OR masks),
                r_targets := (r_targets s)(c := (r_targets s c)(f := r_targets s c f OR masks))\<rparr>)
    | _ \<Rightarrow> s)"

definition visit_addr_taken :: "rta_program \<Rightarrow> range_order \<Rightarrow> fn \<Rightarrow> mask \<Rightarrow> rta \<Rightarrow> rta" where
  "visit_addr_taken P ord f masks s = (let S = pg_sig P f; funcs = r_addr s S;
      delta = masks AND NOT (mask_of funcs f) in
    if delta = 0 then s
    else let s1 = s\<lparr>r_addr := (r_addr s)(S := AList.update f (mask_of funcs f OR delta) funcs)\<rparr>;
             s2 = fold (\<lambda>(c, site_masks) s. let matched = delta AND site_masks;
                      s' = add_reachable (Some f) matched s in
                    if matched \<noteq> 0 then add_resolved_target (Some c) (Some f) matched s' else s')
                  (ord_sites ord (r_dyn s1 S)) s1
         in if pg_reflect_call P \<noteq> None then add_reachable (Some f) delta s2 else s2)"

definition visit_dyn_call :: "rta_program \<Rightarrow> range_order \<Rightarrow> site \<Rightarrow> mask \<Rightarrow> rta \<Rightarrow> rta" where
  "visit_dyn_call P ord c masks s = (let S = pg_site_sig P c; sites = r_dyn s S;
      delta = masks AND NOT (mask_of sites c) in
    if delta = 0 then s
    else let s1 = s\<lparr>r_dyn := (r_dyn s)(S := AList.update c (mask_of sites c OR delta) sites)\<rparr>
         in fold (\<lambda>(f, function_masks) s. let matched = delta AND function_masks;
                      s' = add_reachable (Some f) matched s in
                    if matched \<noteq> 0 then add_resolved_target (Some c) (Some f) matched s' else s')
              (ord_fns ord (r_addr s1 S)) s1)"

section \<open>Interfaces and concrete types\<close>

definition add_invoke_edge :: "rta_program \<Rightarrow> site \<Rightarrow> ty \<Rightarrow> mask \<Rightarrow> rta \<Rightarrow> rta" where
  "add_invoke_edge P c C masks s =
     (if masks = 0 then s
      else let cmethod = pg_lookup P C c; s' = add_reachable cmethod masks s in
        if cmethod \<noteq> None then add_resolved_target (Some c) cmethod masks s' else s')"

definition note_interfaces :: "rta_program \<Rightarrow> range_order \<Rightarrow> ty \<Rightarrow> rta \<Rightarrow> rta" where
  "note_interfaces P ord C s = (if C \<in> fst ` set (r_concrete s) then s
     else let ci = \<lparr>ci_fprint = method_fingerprint (pg_methods P C), ci_masks = 0, ci_implements = []\<rparr>;
              hits = filter (\<lambda>(I, ii). attributed_implements P C ci I ii) (r_ifaces s) in
       s\<lparr>r_ifaces := map (\<lambda>(I, ii). if attributed_implements P C ci I ii
              then (I, ii\<lparr>ii_implementations := ii_implementations ii @ [C]\<rparr>) else (I, ii)) (r_ifaces s),
         r_concrete := r_concrete s @ [(C, ci\<lparr>ci_implements := ord_types ord (map fst hits)\<rparr>)]\<rparr>)"

definition note_implementations :: "rta_program \<Rightarrow> range_order \<Rightarrow> ty \<Rightarrow> rta \<Rightarrow> rta" where
  "note_implementations P ord I s = (if I \<in> fst ` set (r_ifaces s) then s
     else let ii = \<lparr>ii_fprint = method_fingerprint (pg_methods P I), ii_implementations = []\<rparr>;
              hits = filter (\<lambda>(C, ci). attributed_implements P C ci I ii) (r_concrete s) in
       s\<lparr>r_concrete := map (\<lambda>(C, ci). if attributed_implements P C ci I ii
              then (C, ci\<lparr>ci_implements := ci_implements ci @ [I]\<rparr>) else (C, ci)) (r_concrete s),
         r_ifaces := r_ifaces s @ [(I, ii\<lparr>ii_implementations := ord_types ord (map fst hits)\<rparr>)]\<rparr>)"

definition implemented_by :: "rta \<Rightarrow> ty \<Rightarrow> ty list" where
  "implemented_by s C = (case map_of (r_concrete s) C of None \<Rightarrow> [] | Some ci \<Rightarrow> ci_implements ci)"

definition implementations_of :: "rta \<Rightarrow> ty \<Rightarrow> ty list" where
  "implementations_of s I = (case map_of (r_ifaces s) I of None \<Rightarrow> [] | Some ii \<Rightarrow> ii_implementations ii)"

definition concrete_masks :: "rta \<Rightarrow> ty \<Rightarrow> mask" where
  "concrete_masks s C = (case map_of (r_concrete s) C of None \<Rightarrow> 0 | Some ci \<Rightarrow> ci_masks ci)"

definition visit_invoke :: "rta_program \<Rightarrow> range_order \<Rightarrow> site \<Rightarrow> mask \<Rightarrow> rta \<Rightarrow> rta" where
  "visit_invoke P ord c masks s = (let I = pg_site_iface P c; sites = r_invoke s I;
      delta = masks AND NOT (mask_of sites c) in
    if delta = 0 then s
    else let s1 = s\<lparr>r_invoke := (r_invoke s)(I := AList.update c (mask_of sites c OR delta) sites)\<rparr>;
             s2 = note_implementations P ord I s1
         in fold (\<lambda>C s. add_invoke_edge P c C (delta AND concrete_masks s2 C) s) (implementations_of s2 I) s2)"

section \<open>Runtime types\<close>

definition underlying :: "(ty \<Rightarrow> go_type) \<Rightarrow> ty \<Rightarrow> ty" where
  "underlying G t = (case G t of NamedT _ _ u \<Rightarrow> u | _ \<Rightarrow> t)"

definition interface_kind :: "(ty \<Rightarrow> go_type) \<Rightarrow> ty \<Rightarrow> bool" where
  "interface_kind G t \<longleftrightarrow> (case G (underlying G t) of InterfaceT _ _ \<Rightarrow> True | _ \<Rightarrow> False)"

text \<open>The body of the access arm: exported methods, the implements tables, the invoke edges.\<close>

definition access_type :: "rta_program \<Rightarrow> range_order \<Rightarrow> ty \<Rightarrow> mask \<Rightarrow> rta \<Rightarrow> rta" where
  "access_type P ord t access s =
     (let s1 = s\<lparr>r_runtime := (r_runtime s)(t := r_runtime s t OR access)\<rparr> in
      if interface_kind (pg_form P) t then s1
      else let s2 = fold (\<lambda>m s. if ms_exported m \<and> \<not> ms_generic m then add_reachable (ms_value m) access s else s)
                     (pg_methods P t) s1;
               s3 = note_interfaces P ord t s2;
               s4 = s3\<lparr>r_concrete := map (\<lambda>(C, ci). if C = t then (C, ci\<lparr>ci_masks := ci_masks ci OR access\<rparr>)
                      else (C, ci)) (r_concrete s3)\<rparr>
           in fold (\<lambda>I s. fold (\<lambda>(c, site_masks) s. add_invoke_edge P c t (access AND site_masks) s)
                (ord_sites ord (r_invoke s4 I)) s) (implemented_by s4 t) s4)"

text \<open>The recursive calls of the traversal, each with its skip flag; None where it panics.\<close>

definition method_children :: "method_sel list \<Rightarrow> (ty \<times> bool) list" where
  "method_children ms = concat (map (\<lambda>m. if ms_generic m then [] else [(ms_params m, True), (ms_results m, True)]) ms)"

definition shape_children :: "rta_program \<Rightarrow> ty \<Rightarrow> (ty \<times> bool) list option" where
  "shape_children P t = (case pg_form P t of
      BasicT \<Rightarrow> Some []
    | InterfaceT _ _ \<Rightarrow> Some []
    | PointerT e \<Rightarrow> Some [(e, False)]
    | SliceT e \<Rightarrow> Some [(e, False)]
    | ChanT e \<Rightarrow> Some [(e, False)]
    | MapT k v \<Rightarrow> Some [(k, False), (v, False)]
    | SignatureT recv _ ps rs \<Rightarrow> if recv then None else Some [(ps, True), (rs, True)]
    | NamedT _ _ u \<Rightarrow> Some [(pg_pointer P t, False), (u, True)]
    | ArrayT e \<Rightarrow> Some [(e, False)]
    | StructT ts \<Rightarrow> Some (map (\<lambda>c. (c, False)) ts)
    | TupleT ts \<Rightarrow> Some (map (\<lambda>c. (c, False)) ts)
    | _ \<Rightarrow> None)"

definition never_runtime :: "rta_program \<Rightarrow> nat \<Rightarrow> ty \<Rightarrow> rta_error + bool" where
  "never_runtime P q t = (case contains_type_param q (pg_form P) t [] of
      None \<Rightarrow> Inl Exhausted | Some (b, _) \<Rightarrow> Inr b)"

text \<open>addRuntimeType; \<open>q\<close> bounds the nested search, the first argument the descent.\<close>

fun add_runtime_type :: "nat \<Rightarrow> nat \<Rightarrow> rta_program \<Rightarrow> range_order \<Rightarrow> ty \<Rightarrow> mask \<Rightarrow> bool \<Rightarrow> rta \<Rightarrow> rta_error + rta" where
  "add_runtime_type 0 q P ord t masks skip s = Inl Exhausted"
| "add_runtime_type (Suc n) q P ord t masks skip s =
     (if masks = 0 then Inr s
      else let access = (if skip then 0 else masks AND NOT (r_runtime s t));
               traverse = masks AND NOT (r_traversed s t) in
        if access = 0 \<and> traverse = 0 then Inr s
        else bind_res (if r_traversed s t = 0 then never_runtime P q t else Inr False) (\<lambda>stop.
          if stop then Inr s
          else let s1 = (if access \<noteq> 0 then access_type P ord t access s else s) in
            if traverse = 0 then Inr s1
            else bind_res (fold_res (\<lambda>(c, sk). add_runtime_type n q P ord c traverse sk)
                (method_children (pg_methods P t))
                (s1\<lparr>r_traversed := (r_traversed s1)(t := r_traversed s t OR traverse)\<rparr>)) (\<lambda>s2.
              case shape_children P t of
                None \<Rightarrow> Inl (UnsupportedShape t)
              | Some cs \<Rightarrow> fold_res (\<lambda>(c, sk). add_runtime_type n q P ord c traverse sk) cs s2)))"

section \<open>Function bodies\<close>

definition only_direct_call_callee :: "referrer list \<Rightarrow> bool" where
  "only_direct_call_callee refs \<longleftrightarrow> refs \<noteq> [] \<and> list_all (\<lambda>r. case r of
      DebugRef \<Rightarrow> True
    | CallRef is_invoke callee argument \<Rightarrow> \<not> is_invoke \<and> callee \<and> \<not> argument
    | OtherRef \<Rightarrow> False) refs"

text \<open>The operands left for the address-taken scan.\<close>

fun address_operands :: "instr \<Rightarrow> fn option list" where
  "address_operands (Invoke _ ops) = tl ops"
| "address_operands (StaticCall _ _ ops) = tl ops"
| "address_operands (BuiltinCall _ ops) = tl ops"
| "address_operands (DynCall _ ops) = tl ops"
| "address_operands (MakeInterface _ ops) = ops"
| "address_operands (MakeClosure refs ops) = (if only_direct_call_callee refs then tl ops else ops)"
| "address_operands (OtherInstr ops) = ops"

definition visit_operands :: "rta_program \<Rightarrow> range_order \<Rightarrow> mask \<Rightarrow> fn option list \<Rightarrow> rta \<Rightarrow> rta" where
  "visit_operands P ord masks ops = fold (\<lambda>op s. case op of None \<Rightarrow> s | Some g \<Rightarrow> visit_addr_taken P ord g masks s) ops"

fun visit_instr :: "nat \<Rightarrow> rta_program \<Rightarrow> range_order \<Rightarrow> mask \<Rightarrow> instr \<Rightarrow> rta \<Rightarrow> rta_error + rta" where
  "visit_instr n P ord masks (Invoke c ops) s =
     Inr (visit_operands P ord masks (address_operands (Invoke c ops)) (visit_invoke P ord c masks s))"
| "visit_instr n P ord masks (StaticCall c g ops) s =
     Inr (visit_operands P ord masks (address_operands (StaticCall c g ops)) (add_reachable (Some g) masks s))"
| "visit_instr n P ord masks (BuiltinCall c ops) s =
     Inr (visit_operands P ord masks (address_operands (BuiltinCall c ops)) s)"
| "visit_instr n P ord masks (DynCall c ops) s =
     Inr (visit_operands P ord masks (address_operands (DynCall c ops)) (visit_dyn_call P ord c masks s))"
| "visit_instr n P ord masks (MakeInterface t ops) s =
     bind_res (add_runtime_type n n P ord t masks False s)
       (\<lambda>s'. Inr (visit_operands P ord masks (address_operands (MakeInterface t ops)) s'))"
| "visit_instr n P ord masks (MakeClosure refs ops) s =
     Inr (visit_operands P ord masks (address_operands (MakeClosure refs ops)) s)"
| "visit_instr n P ord masks (OtherInstr ops) s =
     Inr (visit_operands P ord masks (address_operands (OtherInstr ops)) s)"

definition visit_func :: "nat \<Rightarrow> rta_program \<Rightarrow> range_order \<Rightarrow> fn \<Rightarrow> mask \<Rightarrow> rta \<Rightarrow> rta_error + rta" where
  "visit_func n P ord f masks s = fold_res (visit_instr n P ord masks) (pg_body P f) s"

section \<open>The walk\<close>

type_synonym rta_checks = "nat \<Rightarrow> string option"

fun visit_shadow :: "nat \<Rightarrow> rta_program \<Rightarrow> range_order \<Rightarrow> rta_checks \<Rightarrow> nat \<Rightarrow> fn list \<Rightarrow> rta \<Rightarrow> rta_error + (nat \<times> rta)" where
  "visit_shadow n P ord cx k [] s = Inr (k, s)"
| "visit_shadow n P ord cx k (f # fs) s = (case cx k of Some e \<Rightarrow> Inl (RtaCancelled e) | None \<Rightarrow>
     bind_res (visit_func n P ord f (r_pending s f)
         (s\<lparr>r_queued := (r_queued s)(f := False), r_pending := (r_pending s)(f := 0)\<rparr>))
       (visit_shadow n P ord cx (Suc k) fs))"

fun rta_loop :: "nat \<Rightarrow> nat \<Rightarrow> rta_program \<Rightarrow> range_order \<Rightarrow> rta_checks \<Rightarrow> nat \<Rightarrow> rta \<Rightarrow> rta_error + rta" where
  "rta_loop 0 n P ord cx k s = (if r_worklist s = [] then Inr s else Inl Exhausted)"
| "rta_loop (Suc m) n P ord cx k s =
     (if r_worklist s = [] then Inr s
      else case cx k of Some e \<Rightarrow> Inl (RtaCancelled e) | None \<Rightarrow>
        bind_res (visit_shadow n P ord cx (Suc k) (r_worklist s) (s\<lparr>r_worklist := []\<rparr>))
          (\<lambda>(k', s'). rta_loop m n P ord cx k' s'))"

record rta_seeds =
  seed_addr :: "(fn \<times> mask) list"
  seed_types :: "(ty \<times> mask) list"

definition apply_seeds :: "nat \<Rightarrow> rta_program \<Rightarrow> range_order \<Rightarrow> rta_seeds option \<Rightarrow> rta \<Rightarrow> rta_error + rta" where
  "apply_seeds n P ord seeds s = (case seeds of None \<Rightarrow> Inr s | Some sd \<Rightarrow>
     fold_res (\<lambda>(t, masks) s. if masks \<noteq> 0 then add_runtime_type n n P ord t masks False s else Inr s) (seed_types sd)
       (fold (\<lambda>(f, masks) s. if masks \<noteq> 0 then visit_addr_taken P ord f masks s else s) (seed_addr sd) s))"

text \<open>The roots check: a generic function without arguments, or with a parameterized one.\<close>

definition check_root :: "nat \<Rightarrow> rta_program \<Rightarrow> fn \<Rightarrow> rta_error + unit" where
  "check_root n P f =
     (if \<not> pg_fn_generic P f then Inr ()
      else if pg_fn_args P f = [] then Inl (ParameterizedRoot f)
      else bind_res (fold_res (\<lambda>t found. if found then Inr True else never_runtime P n t) (pg_fn_args P f) False)
        (\<lambda>found. if found then Inl (ParameterizedRoot f) else Inr ()))"

definition rta_analyze ::
    "nat \<Rightarrow> rta_program \<Rightarrow> range_order \<Rightarrow> rta_checks option \<Rightarrow> (fn \<times> mask) list \<Rightarrow> rta_seeds option
      \<Rightarrow> rta_error + rta option" where
  "rta_analyze n P ord ctx roots seeds = (case ctx of None \<Rightarrow> Inl NilContext | Some cx \<Rightarrow>
     (case cx 0 of Some e \<Rightarrow> Inl (RtaCancelled e) | None \<Rightarrow>
       if roots = [] then Inr None
       else bind_res (fold_res (\<lambda>(f, _) _. check_root n P f) roots ()) (\<lambda>_.
         bind_res (apply_seeds n P ord seeds empty_rta) (\<lambda>s.
         bind_res (rta_loop n n P ord cx 1 (fold (\<lambda>(f, masks) s. add_reachable (Some f) masks s) roots s))
           (\<lambda>s. Inr (Some s))))))"

section \<open>The analysis of one subject\<close>

datatype rta_fact = Reach fn | AddrTaken fn | DynSite site | InvokeSite site | RuntimeType ty | Traversed ty

definition rt_children :: "rta_program \<Rightarrow> ty \<Rightarrow> (ty \<times> bool) list" where
  "rt_children P t = method_children (pg_methods P t) @ (case shape_children P t of None \<Rightarrow> [] | Some cs \<Rightarrow> cs)"

inductive derives :: "rta_program \<Rightarrow> fn set \<Rightarrow> fn set \<Rightarrow> ty set \<Rightarrow> rta_fact \<Rightarrow> bool"
  for P roots addrs types where
  root: "f \<in> roots \<Longrightarrow> derives P roots addrs types (Reach f)"
| seeded: "f \<in> addrs \<Longrightarrow> derives P roots addrs types (AddrTaken f)"
| seeded_type: "t \<in> types \<Longrightarrow> \<not> mentions (pg_form P) t \<Longrightarrow> derives P roots addrs types (RuntimeType t)"
| static: "derives P roots addrs types (Reach f) \<Longrightarrow> StaticCall c g ops \<in> set (pg_body P f) \<Longrightarrow>
    derives P roots addrs types (Reach g)"
| dynamic: "derives P roots addrs types (Reach f) \<Longrightarrow> DynCall c ops \<in> set (pg_body P f) \<Longrightarrow>
    derives P roots addrs types (DynSite c)"
| invoked: "derives P roots addrs types (Reach f) \<Longrightarrow> Invoke c ops \<in> set (pg_body P f) \<Longrightarrow>
    derives P roots addrs types (InvokeSite c)"
| operand: "derives P roots addrs types (Reach f) \<Longrightarrow> x \<in> set (pg_body P f) \<Longrightarrow>
    Some g \<in> set (address_operands x) \<Longrightarrow> derives P roots addrs types (AddrTaken g)"
| made: "derives P roots addrs types (Reach f) \<Longrightarrow> MakeInterface t ops \<in> set (pg_body P f) \<Longrightarrow>
    \<not> mentions (pg_form P) t \<Longrightarrow> derives P roots addrs types (RuntimeType t)"
| dyn_call: "derives P roots addrs types (DynSite c) \<Longrightarrow> derives P roots addrs types (AddrTaken g) \<Longrightarrow>
    pg_site_sig P c = pg_sig P g \<Longrightarrow> derives P roots addrs types (Reach g)"
| reflected: "pg_reflect_call P \<noteq> None \<Longrightarrow> derives P roots addrs types (AddrTaken g) \<Longrightarrow>
    derives P roots addrs types (Reach g)"
| exported: "derives P roots addrs types (RuntimeType t) \<Longrightarrow> \<not> interface_kind (pg_form P) t \<Longrightarrow>
    m \<in> set (pg_methods P t) \<Longrightarrow> ms_exported m \<Longrightarrow> \<not> ms_generic m \<Longrightarrow> ms_value m = Some g \<Longrightarrow>
    derives P roots addrs types (Reach g)"
| invoke_call: "derives P roots addrs types (InvokeSite c) \<Longrightarrow> derives P roots addrs types (RuntimeType t) \<Longrightarrow>
    \<not> interface_kind (pg_form P) t \<Longrightarrow> pg_implements P t (pg_site_iface P c) \<Longrightarrow> pg_lookup P t c = Some g \<Longrightarrow>
    derives P roots addrs types (Reach g)"
| traverse: "derives P roots addrs types (RuntimeType t) \<Longrightarrow> derives P roots addrs types (Traversed t)"
| child: "derives P roots addrs types (Traversed t) \<Longrightarrow> (c, sk) \<in> set (rt_children P t) \<Longrightarrow>
    \<not> mentions (pg_form P) c \<Longrightarrow> derives P roots addrs types (Traversed c)"
| child_type: "derives P roots addrs types (Traversed t) \<Longrightarrow> (c, False) \<in> set (rt_children P t) \<Longrightarrow>
    \<not> mentions (pg_form P) c \<Longrightarrow> derives P roots addrs types (RuntimeType c)"

text \<open>The subject \<open>i\<close> of a batch: what the masks give it.\<close>

definition owned :: "('a \<times> mask) list \<Rightarrow> nat \<Rightarrow> 'a set" where
  "owned xs i = {x. \<exists>m. (x, m) \<in> set xs \<and> bit m i}"

definition subject_derives :: "rta_program \<Rightarrow> (fn \<times> mask) list \<Rightarrow> rta_seeds option \<Rightarrow> nat \<Rightarrow> rta_fact \<Rightarrow> bool" where
  "subject_derives P roots seeds i = derives P (owned roots i)
     (case seeds of None \<Rightarrow> {} | Some sd \<Rightarrow> owned (seed_addr sd) i)
     (case seeds of None \<Rightarrow> {} | Some sd \<Rightarrow> owned (seed_types sd) i)"

text \<open>The call edges of one subject: a dynamic or an interface call with both ends its own.\<close>

definition subject_edge :: "rta_program \<Rightarrow> (rta_fact \<Rightarrow> bool) \<Rightarrow> site \<Rightarrow> fn \<Rightarrow> bool" where
  "subject_edge P D c g \<longleftrightarrow>
     D (DynSite c) \<and> D (AddrTaken g) \<and> pg_site_sig P c = pg_sig P g
     \<or> (\<exists>t. D (InvokeSite c) \<and> D (RuntimeType t) \<and> \<not> interface_kind (pg_form P) t
          \<and> pg_implements P t (pg_site_iface P c) \<and> pg_lookup P t c = Some g)"

end
