(* ===== verification/Rta_Steps.thy ===== *)
theory Rta_Steps
  imports Rta
begin

text \<open>
  The operations of the attributed walk one at a time: what each adds to the state, bit by
  bit, and that each keeps the walk's invariant: every fact held for a subject is derivable for
  that subject alone, and every pair of facts that makes a call edge has made it.
\<close>

section \<open>Masks\<close>

lemma mask_zero: "w = 0 \<longleftrightarrow> (\<forall>i. \<not> bit w i)" for w :: mask
  by (metis bit_eqI bit_0_eq bot_apply bot_bool_def)

lemma bits_delta [simp]: "bit (m AND NOT r) i \<longleftrightarrow> bit m i \<and> \<not> bit r i" for m r :: mask
  by (auto simp: bit_and_iff bit_not_iff dest: bit_imp_le_length)

lemma bits_matched [simp]: "bit ((m AND NOT r) AND b) i \<longleftrightarrow> bit m i \<and> \<not> bit r i \<and> bit b i" for m r :: mask
  by (subst bit_and_iff) simp

lemma mask_of_update [simp]: "mask_of (AList.update k v xs) j = (if j = k then v else mask_of xs j)"
  by (simp add: mask_of_def update_conv')

lemma mask_of_entry: "distinct (map fst xs) \<Longrightarrow> (k, m) \<in> set xs \<Longrightarrow> mask_of xs k = m"
  by (simp add: mask_of_def)

lemma entry_of_mask: "bit (mask_of xs k) i \<Longrightarrow> (k, mask_of xs k) \<in> set xs"
  by (auto simp: mask_of_def dest: map_of_SomeD split: option.splits)

section \<open>Edges\<close>

text \<open>Every update of reachability is a list of edges: a call site, if any, a target, the mask.\<close>

definition edge :: "site option \<times> fn option \<times> mask \<Rightarrow> rta \<Rightarrow> rta" where
  "edge e s = (case e of (c, g, m) \<Rightarrow> add_resolved_target c g m (add_reachable g m s))"

abbreviation edges :: "(site option \<times> fn option \<times> mask) list \<Rightarrow> rta \<Rightarrow> rta" where
  "edges es \<equiv> fold edge es"

lemma add_reachable_zero [simp]: "add_reachable g 0 s = s"
  by (simp add: add_reachable_def split: option.split)

lemma add_resolved_zero [simp]: "add_resolved_target c g 0 s = s"
  by (simp add: add_resolved_target_def split: option.split)

lemma add_resolved_none [simp]: "add_resolved_target None g m s = s" "add_resolved_target c None m s = s"
  by (simp_all add: add_resolved_target_def split: option.split)

lemma add_reachable_none [simp]: "add_reachable None m s = s"
  by (simp add: add_reachable_def)

lemma add_reachable_edge: "add_reachable g m s = edge (None, g, m) s"
  by (simp add: edge_def)

lemma matched_edge:
  "(let matched = m; s' = add_reachable (Some f) matched s in
    if matched \<noteq> 0 then add_resolved_target (Some c) (Some f) matched s' else s') = edge (Some c, Some f, m) s"
  by (auto simp: edge_def Let_def)

lemma invoke_edge: "add_invoke_edge P c C m s = edge (Some c, pg_lookup P C c, m) s"
  by (auto simp: add_invoke_edge_def edge_def Let_def)

text \<open>The tables an edge leaves alone.\<close>

definition same_tables :: "rta \<Rightarrow> rta \<Rightarrow> bool" where
  "same_tables s s' \<longleftrightarrow> r_addr s' = r_addr s \<and> r_dyn s' = r_dyn s \<and> r_invoke s' = r_invoke s
     \<and> r_concrete s' = r_concrete s \<and> r_ifaces s' = r_ifaces s \<and> r_runtime s' = r_runtime s
     \<and> r_traversed s' = r_traversed s"

lemma edge_tables: "same_tables s (edge e s)"
  by (auto simp: same_tables_def edge_def add_reachable_def add_resolved_target_def Let_def
      split: prod.splits option.splits)

lemma edges_tables: "same_tables s (edges es s)"
proof (induction es arbitrary: s)
  case (Cons e es)
  from edge_tables [of s e] Cons [of "edge e s"] show ?case by (simp add: same_tables_def)
qed (simp add: same_tables_def)

lemma add_reachable_reach:
  "bit (r_reach (add_reachable g m s) f) i \<longleftrightarrow> bit (r_reach s f) i \<or> g = Some f \<and> bit m i"
proof (cases g)
  case (Some h)
  show ?thesis
  proof (cases "m AND NOT (r_reach s h) = 0")
    case True
    then have "bit m i \<Longrightarrow> bit (r_reach s h) i" by (auto simp: mask_zero)
    with True Some show ?thesis by (auto simp: add_reachable_def)
  next
    case False
    with Some show ?thesis by (cases "f = h") (simp_all add: add_reachable_def Let_def bit_or_iff, blast)
  qed
qed (simp add: add_reachable_def)

lemma add_resolved_target_reach: "r_reach (add_resolved_target c g m s) = r_reach s"
  by (simp add: add_resolved_target_def split: option.split)

lemma edge_reach: "bit (r_reach (edge (c, g, m) s) f) i \<longleftrightarrow> bit (r_reach s f) i \<or> g = Some f \<and> bit m i"
  by (simp add: edge_def add_resolved_target_reach add_reachable_reach)

lemma edges_reach:
  "bit (r_reach (edges es s) f) i \<longleftrightarrow> bit (r_reach s f) i \<or> (\<exists>c m. (c, Some f, m) \<in> set es \<and> bit m i)"
proof (induction es arbitrary: s)
  case (Cons e es)
  obtain c g m where "e = (c, g, m)" by (cases e)
  with Cons show ?case by (auto simp: edge_reach)
qed simp

lemma edge_targets:
  "bit (r_targets (edge (c, g, m) s) d f) i \<longleftrightarrow> bit (r_targets s d f) i \<or> c = Some d \<and> g = Some f \<and> bit m i"
proof -
  have "r_targets (add_reachable g m s) = r_targets s"
    by (simp add: add_reachable_def Let_def split: option.split)
  moreover have "bit (r_targets (add_resolved_target c g m s) d f) i
      \<longleftrightarrow> bit (r_targets s d f) i \<or> c = Some d \<and> g = Some f \<and> bit m i" for s
    by (cases c; cases g) (auto simp: add_resolved_target_def bit_or_iff)
  ultimately show ?thesis by (simp add: edge_def)
qed

lemma edges_targets:
  "bit (r_targets (edges es s) d f) i \<longleftrightarrow>
     bit (r_targets s d f) i \<or> (\<exists>m. (Some d, Some f, m) \<in> set es \<and> bit m i)"
proof (induction es arbitrary: s)
  case (Cons e es)
  obtain c g m where "e = (c, g, m)" by (cases e)
  with Cons show ?case by (auto simp: edge_targets)
qed simp

text \<open>The resolved mask of a site is the union of its targets' masks.\<close>

definition resolved_union :: "rta \<Rightarrow> bool" where
  "resolved_union s \<longleftrightarrow> (\<forall>c i. bit (r_resolved s c) i \<longleftrightarrow> (\<exists>f. bit (r_targets s c f) i))"

lemma edge_resolved_mask:
  "bit (r_resolved (edge (c, g, m) s) d) i \<longleftrightarrow> bit (r_resolved s d) i \<or> c = Some d \<and> g \<noteq> None \<and> bit m i"
proof -
  have "r_resolved (add_reachable g m s) = r_resolved s"
    by (simp add: add_reachable_def Let_def split: option.split)
  moreover have "bit (r_resolved (add_resolved_target c g m s) d) i
      \<longleftrightarrow> bit (r_resolved s d) i \<or> c = Some d \<and> g \<noteq> None \<and> bit m i" for s
    by (cases c; cases g) (auto simp: add_resolved_target_def bit_or_iff)
  ultimately show ?thesis by (simp add: edge_def)
qed

lemma edge_resolved: "resolved_union s \<Longrightarrow> resolved_union (edge e s)"
proof (cases e)
  case (fields c g m)
  assume "resolved_union s"
  then show ?thesis unfolding resolved_union_def fields edge_resolved_mask edge_targets by blast
qed

lemma edges_resolved: "resolved_union s \<Longrightarrow> resolved_union (edges es s)"
  by (induction es arbitrary: s) (simp_all add: edge_resolved)

section \<open>Facts held, and growth\<close>

fun holds :: "rta_program \<Rightarrow> rta \<Rightarrow> nat \<Rightarrow> rta_fact \<Rightarrow> bool" where
  "holds P s i (Reach f) = bit (r_reach s f) i"
| "holds P s i (AddrTaken f) = bit (mask_of (r_addr s (pg_sig P f)) f) i"
| "holds P s i (DynSite c) = bit (mask_of (r_dyn s (pg_site_sig P c)) c) i"
| "holds P s i (InvokeSite c) = bit (mask_of (r_invoke s (pg_site_iface P c)) c) i"
| "holds P s i (RuntimeType t) = bit (r_runtime s t) i"
| "holds P s i (Traversed t) = bit (r_traversed s t) i"

lemma holds_bound: "holds P s i x \<Longrightarrow> i < 64"
  by (cases x) (auto dest: bit_imp_le_length)

definition enqueues :: "rta \<Rightarrow> rta \<Rightarrow> bool" where
  "enqueues s s' \<longleftrightarrow>
     (\<forall>f i. bit (r_pending s' f) i \<longleftrightarrow> bit (r_pending s f) i \<or> bit (r_reach s' f) i \<and> \<not> bit (r_reach s f) i)
     \<and> (\<exists>new. r_worklist s' = r_worklist s @ new \<and> (\<forall>f. r_queued s' f \<longleftrightarrow> r_queued s f \<or> f \<in> set new)
          \<and> (\<forall>f\<in>set new. r_reach s' f \<noteq> r_reach s f))
     \<and> (\<forall>f. r_reach s' f \<noteq> r_reach s f \<longrightarrow> r_queued s' f)"

definition grows :: "rta_program \<Rightarrow> rta \<Rightarrow> rta \<Rightarrow> bool" where
  "grows P s s' \<longleftrightarrow> (\<forall>i x. holds P s i x \<longrightarrow> holds P s' i x)
     \<and> (\<forall>c f i. bit (r_targets s c f) i \<longrightarrow> bit (r_targets s' c f) i)"

definition extends :: "rta_program \<Rightarrow> rta \<Rightarrow> rta \<Rightarrow> bool" where
  "extends P s s' \<longleftrightarrow> grows P s s' \<and> enqueues s s'"

lemma growsD: "grows P s s' \<Longrightarrow> holds P s i x \<Longrightarrow> holds P s' i x"
  by (simp add: grows_def)

lemma grows_reach: "grows P s s' \<Longrightarrow> bit (r_reach s f) i \<Longrightarrow> bit (r_reach s' f) i"
  using growsD [of P s s' i "Reach f"] by simp

lemma reach_differs: "grows P s s' \<Longrightarrow> r_reach s' f \<noteq> r_reach s f \<longleftrightarrow> (\<exists>i. bit (r_reach s' f) i \<and> \<not> bit (r_reach s f) i)"
  using grows_reach by (metis bit_eqI)

lemma grows_refl [simp]: "grows P s s"
  by (simp add: grows_def)

lemma grows_trans [trans]: "grows P s s' \<Longrightarrow> grows P s' s'' \<Longrightarrow> grows P s s''"
  by (auto simp: grows_def)

lemma extends_refl [simp]: "extends P s s"
  by (auto simp: extends_def enqueues_def)

lemma extends_trans [trans]:
  assumes "extends P s s'" "extends P s' s''"
  shows "extends P s s''"
proof -
  from assms have g: "grows P s s'" "grows P s' s''" and e: "enqueues s s'" "enqueues s' s''"
    by (auto simp: extends_def)
  from e(1) obtain n where n: "r_worklist s' = r_worklist s @ n" "\<forall>f. r_queued s' f \<longleftrightarrow> r_queued s f \<or> f \<in> set n"
    "\<forall>f\<in>set n. r_reach s' f \<noteq> r_reach s f" unfolding enqueues_def by blast
  from e(2) obtain m where m: "r_worklist s'' = r_worklist s' @ m" "\<forall>f. r_queued s'' f \<longleftrightarrow> r_queued s' f \<or> f \<in> set m"
    "\<forall>f\<in>set m. r_reach s'' f \<noteq> r_reach s' f" unfolding enqueues_def by blast
  note gg = grows_trans [OF g]
  have up: "r_reach s'' f \<noteq> r_reach s f" if "r_reach s' f \<noteq> r_reach s f \<or> r_reach s'' f \<noteq> r_reach s' f" for f
    using that unfolding reach_differs [OF g(1)] reach_differs [OF g(2)] reach_differs [OF gg]
    using grows_reach [OF g(1)] grows_reach [OF g(2)] by blast
  have "\<forall>f i. bit (r_pending s'' f) i \<longleftrightarrow> bit (r_pending s f) i \<or> bit (r_reach s'' f) i \<and> \<not> bit (r_reach s f) i"
    using e grows_reach [OF g(1)] grows_reach [OF g(2)] unfolding enqueues_def by blast
  moreover have "\<forall>f. r_reach s'' f \<noteq> r_reach s f \<longrightarrow> r_queued s'' f"
    using e m(2) unfolding enqueues_def by metis
  moreover have "r_worklist s'' = r_worklist s @ (n @ m)
      \<and> (\<forall>f. r_queued s'' f \<longleftrightarrow> r_queued s f \<or> f \<in> set (n @ m)) \<and> (\<forall>f\<in>set (n @ m). r_reach s'' f \<noteq> r_reach s f)"
  proof (intro conjI allI ballI)
    show "r_worklist s'' = r_worklist s @ (n @ m)" using n(1) m(1) by simp
    show "r_queued s'' f \<longleftrightarrow> r_queued s f \<or> f \<in> set (n @ m)" for f using n(2) m(2) by simp
    show "r_reach s'' f \<noteq> r_reach s f" if "f \<in> set (n @ m)" for f
      by (rule up) (use that n(3) m(3) in \<open>unfold set_append, blast\<close>)
  qed
  ultimately have "enqueues s s''" unfolding enqueues_def by blast
  with gg show ?thesis by (simp add: extends_def)
qed

lemma edge_extends: "extends P s (edge e s)"
proof -
  obtain c g m where e: "e = (c, g, m)" by (cases e)
  have "holds P (edge e s) i x" if "holds P s i x" for i x
    using that edge_tables [of s e] by (cases x) (auto simp: e edge_reach same_tables_def)
  then have "grows P s (edge e s)" by (auto simp: grows_def e edge_targets)
  moreover have "enqueues s (edge e s)"
  proof (cases g)
    case None
    then show ?thesis by (simp add: e edge_def enqueues_def)
  next
    case (Some f)
    let ?d = "m AND NOT (r_reach s f)"
    have t: "r_reach (edge e s) = r_reach (add_reachable g m s)" "r_pending (edge e s) = r_pending (add_reachable g m s)"
      "r_queued (edge e s) = r_queued (add_reachable g m s)" "r_worklist (edge e s) = r_worklist (add_reachable g m s)"
      by (auto simp: e edge_def add_resolved_target_def split: option.split)
    show ?thesis
    proof (cases "?d = 0")
      case True
      then show ?thesis unfolding enqueues_def t by (simp add: Some add_reachable_def)
    next
      case False
      then obtain i where i: "bit m i" "\<not> bit (r_reach s f) i" unfolding mask_zero by auto
      then have ne: "r_reach s f OR ?d \<noteq> r_reach s f" by (metis bit_or_iff bits_delta)
      have b: "bit (r_pending s f OR ?d) j \<longleftrightarrow> bit (r_pending s f) j \<or> bit (r_reach s f OR ?d) j \<and> \<not> bit (r_reach s f) j" for j
        by (auto simp: bit_or_iff)
      show ?thesis unfolding enqueues_def t using False ne b
        by (cases "r_queued s f") (auto simp: Some add_reachable_def Let_def)
    qed
  qed
  ultimately show ?thesis by (simp add: extends_def)
qed

lemma edges_extends: "extends P s (edges es s)"
proof (induction es arbitrary: s)
  case (Cons e es)
  from extends_trans [OF edge_extends [of P s e] Cons [of "edge e s"]] show ?case by simp
qed simp

text \<open>A table update that loses no fact extends, as long as it leaves the queue alone.\<close>

lemma table_extends:
  assumes "r_reach s' = r_reach s" "r_pending s' = r_pending s" "r_queued s' = r_queued s"
    "r_worklist s' = r_worklist s" "r_targets s' = r_targets s" "\<And>i x. holds P s i x \<Longrightarrow> holds P s' i x"
  shows "extends P s s'"
  using assms by (auto simp: extends_def grows_def enqueues_def)

section \<open>The invariant\<close>

text \<open>The rules of the analysis, as closure of a set of facts.\<close>

definition rules_closed :: "rta_program \<Rightarrow> (rta_fact \<Rightarrow> bool) \<Rightarrow> bool" where
  "rules_closed P D \<longleftrightarrow>
     (\<forall>f c g ops. D (Reach f) \<longrightarrow> StaticCall c g ops \<in> set (pg_body P f) \<longrightarrow> D (Reach g))
   \<and> (\<forall>f c ops. D (Reach f) \<longrightarrow> DynCall c ops \<in> set (pg_body P f) \<longrightarrow> D (DynSite c))
   \<and> (\<forall>f c ops. D (Reach f) \<longrightarrow> Invoke c ops \<in> set (pg_body P f) \<longrightarrow> D (InvokeSite c))
   \<and> (\<forall>f x g. D (Reach f) \<longrightarrow> x \<in> set (pg_body P f) \<longrightarrow> Some g \<in> set (address_operands x) \<longrightarrow> D (AddrTaken g))
   \<and> (\<forall>f t ops. D (Reach f) \<longrightarrow> MakeInterface t ops \<in> set (pg_body P f) \<longrightarrow> \<not> mentions (pg_form P) t \<longrightarrow> D (RuntimeType t))
   \<and> (\<forall>c g. D (DynSite c) \<longrightarrow> D (AddrTaken g) \<longrightarrow> pg_site_sig P c = pg_sig P g \<longrightarrow> D (Reach g))
   \<and> (\<forall>g. pg_reflect_call P \<noteq> None \<longrightarrow> D (AddrTaken g) \<longrightarrow> D (Reach g))
   \<and> (\<forall>t m g. D (RuntimeType t) \<longrightarrow> \<not> interface_kind (pg_form P) t \<longrightarrow> m \<in> set (pg_methods P t) \<longrightarrow>
        ms_exported m \<longrightarrow> \<not> ms_generic m \<longrightarrow> ms_value m = Some g \<longrightarrow> D (Reach g))
   \<and> (\<forall>c t g. D (InvokeSite c) \<longrightarrow> D (RuntimeType t) \<longrightarrow> \<not> interface_kind (pg_form P) t \<longrightarrow>
        pg_implements P t (pg_site_iface P c) \<longrightarrow> pg_lookup P t c = Some g \<longrightarrow> D (Reach g))
   \<and> (\<forall>t. D (RuntimeType t) \<longrightarrow> D (Traversed t))
   \<and> (\<forall>t c sk. D (Traversed t) \<longrightarrow> (c, sk) \<in> set (rt_children P t) \<longrightarrow> \<not> mentions (pg_form P) c \<longrightarrow> D (Traversed c))
   \<and> (\<forall>t c. D (Traversed t) \<longrightarrow> (c, False) \<in> set (rt_children P t) \<longrightarrow> \<not> mentions (pg_form P) c \<longrightarrow> D (RuntimeType c))
   \<and> (\<forall>t. D (Traversed t) \<longrightarrow> \<not> mentions (pg_form P) t)"

lemma rules_closedD:
  assumes "rules_closed P D"
  shows "D (Reach f) \<Longrightarrow> StaticCall c g ops \<in> set (pg_body P f) \<Longrightarrow> D (Reach g)"
    "D (Reach f) \<Longrightarrow> DynCall c ops \<in> set (pg_body P f) \<Longrightarrow> D (DynSite c)"
    "D (Reach f) \<Longrightarrow> Invoke c ops \<in> set (pg_body P f) \<Longrightarrow> D (InvokeSite c)"
    "D (Reach f) \<Longrightarrow> x \<in> set (pg_body P f) \<Longrightarrow> Some g \<in> set (address_operands x) \<Longrightarrow> D (AddrTaken g)"
    "D (Reach f) \<Longrightarrow> MakeInterface t ops \<in> set (pg_body P f) \<Longrightarrow> \<not> mentions (pg_form P) t \<Longrightarrow> D (RuntimeType t)"
    "D (DynSite c) \<Longrightarrow> D (AddrTaken g) \<Longrightarrow> pg_site_sig P c = pg_sig P g \<Longrightarrow> D (Reach g)"
    "pg_reflect_call P \<noteq> None \<Longrightarrow> D (AddrTaken g) \<Longrightarrow> D (Reach g)"
    "D (RuntimeType t) \<Longrightarrow> \<not> interface_kind (pg_form P) t \<Longrightarrow> m \<in> set (pg_methods P t) \<Longrightarrow>
        ms_exported m \<Longrightarrow> \<not> ms_generic m \<Longrightarrow> ms_value m = Some g \<Longrightarrow> D (Reach g)"
    "D (InvokeSite c) \<Longrightarrow> D (RuntimeType t) \<Longrightarrow> \<not> interface_kind (pg_form P) t \<Longrightarrow>
        pg_implements P t (pg_site_iface P c) \<Longrightarrow> pg_lookup P t c = Some g \<Longrightarrow> D (Reach g)"
    "D (RuntimeType t) \<Longrightarrow> D (Traversed t)"
    "D (Traversed t) \<Longrightarrow> (c, sk) \<in> set (rt_children P t) \<Longrightarrow> \<not> mentions (pg_form P) c \<Longrightarrow> D (Traversed c)"
    "D (Traversed t) \<Longrightarrow> (c, False) \<in> set (rt_children P t) \<Longrightarrow> \<not> mentions (pg_form P) c \<Longrightarrow> D (RuntimeType c)"
    "D (Traversed t) \<Longrightarrow> \<not> mentions (pg_form P) t"
proof -
  note a = assms [unfolded rules_closed_def]
  note c0 = conjunct1 [OF a]
  note a = conjunct2 [OF a]
  note c1 = conjunct1 [OF a]
  note a = conjunct2 [OF a]
  note c2 = conjunct1 [OF a]
  note a = conjunct2 [OF a]
  note c3 = conjunct1 [OF a]
  note a = conjunct2 [OF a]
  note c4 = conjunct1 [OF a]
  note a = conjunct2 [OF a]
  note c5 = conjunct1 [OF a]
  note a = conjunct2 [OF a]
  note c6 = conjunct1 [OF a]
  note a = conjunct2 [OF a]
  note c7 = conjunct1 [OF a]
  note a = conjunct2 [OF a]
  note c8 = conjunct1 [OF a]
  note a = conjunct2 [OF a]
  note c9 = conjunct1 [OF a]
  note a = conjunct2 [OF a]
  note c10 = conjunct1 [OF a]
  note a = conjunct2 [OF a]
  note c11 = conjunct1 [OF a]
  note a = conjunct2 [OF a]
  note c12 = a
  show "D (Reach f) \<Longrightarrow> StaticCall c g ops \<in> set (pg_body P f) \<Longrightarrow> D (Reach g)"
    using c0 by blast
  show "D (Reach f) \<Longrightarrow> DynCall c ops \<in> set (pg_body P f) \<Longrightarrow> D (DynSite c)"
    using c1 by blast
  show "D (Reach f) \<Longrightarrow> Invoke c ops \<in> set (pg_body P f) \<Longrightarrow> D (InvokeSite c)"
    using c2 by blast
  show "D (Reach f) \<Longrightarrow> x \<in> set (pg_body P f) \<Longrightarrow> Some g \<in> set (address_operands x) \<Longrightarrow> D (AddrTaken g)"
    using c3 by blast
  show "D (Reach f) \<Longrightarrow> MakeInterface t ops \<in> set (pg_body P f) \<Longrightarrow> \<not> mentions (pg_form P) t \<Longrightarrow> D (RuntimeType t)"
    using c4 by blast
  show "D (DynSite c) \<Longrightarrow> D (AddrTaken g) \<Longrightarrow> pg_site_sig P c = pg_sig P g \<Longrightarrow> D (Reach g)"
    using c5 by blast
  show "pg_reflect_call P \<noteq> None \<Longrightarrow> D (AddrTaken g) \<Longrightarrow> D (Reach g)"
    using c6 by blast
  show "D (RuntimeType t) \<Longrightarrow> \<not> interface_kind (pg_form P) t \<Longrightarrow> m \<in> set (pg_methods P t) \<Longrightarrow>
        ms_exported m \<Longrightarrow> \<not> ms_generic m \<Longrightarrow> ms_value m = Some g \<Longrightarrow> D (Reach g)"
    using c7 by blast
  show "D (InvokeSite c) \<Longrightarrow> D (RuntimeType t) \<Longrightarrow> \<not> interface_kind (pg_form P) t \<Longrightarrow>
        pg_implements P t (pg_site_iface P c) \<Longrightarrow> pg_lookup P t c = Some g \<Longrightarrow> D (Reach g)"
    using c8 by blast
  show "D (RuntimeType t) \<Longrightarrow> D (Traversed t)"
    using c9 by blast
  show "D (Traversed t) \<Longrightarrow> (c, sk) \<in> set (rt_children P t) \<Longrightarrow> \<not> mentions (pg_form P) c \<Longrightarrow> D (Traversed c)"
    using c10 by blast
  show "D (Traversed t) \<Longrightarrow> (c, False) \<in> set (rt_children P t) \<Longrightarrow> \<not> mentions (pg_form P) c \<Longrightarrow> D (RuntimeType c)"
    using c11 by blast
  show "D (Traversed t) \<Longrightarrow> \<not> mentions (pg_form P) t"
    using c12 by blast
qed

lemma edge_reaches: "rules_closed P D \<Longrightarrow> subject_edge P D c g \<Longrightarrow> D (Reach g)"
  unfolding subject_edge_def using rules_closedD(6,9) by blast

lemma derives_type_closed:
  "derives P R A T x \<Longrightarrow> (case x of RuntimeType t \<Rightarrow> \<not> mentions (pg_form P) t
     | Traversed t \<Rightarrow> \<not> mentions (pg_form P) t | _ \<Rightarrow> True)"
  by (induction rule: derives.induct) auto

lemma derives_rules_closed: "rules_closed P (derives P R A T)"
  unfolding rules_closed_def
proof (intro conjI allI impI)
  show "\<not> mentions (pg_form P) t" if "derives P R A T (Traversed t)" for t
    using derives_type_closed [OF that] by simp
qed (erule (5) derives.exported | erule (4) derives.invoke_call | erule (2) derives.operand derives.made
  | erule (2) derives.dyn_call derives.child derives.child_type
  | erule (1) derives.static derives.dynamic derives.invoked derives.reflected | erule derives.traverse)+

text \<open>The implements tables: fingerprints, and who implements what among the types seen.\<close>

definition implements_ok :: "rta_program \<Rightarrow> rta \<Rightarrow> bool" where
  "implements_ok P s \<longleftrightarrow> distinct (map fst (r_concrete s)) \<and> distinct (map fst (r_ifaces s))
   \<and> (\<forall>e\<in>set (r_concrete s). ci_fprint (snd e) = method_fingerprint (pg_methods P (fst e))
        \<and> set (ci_implements (snd e)) = {I \<in> fst ` set (r_ifaces s). pg_implements P (fst e) I})
   \<and> (\<forall>e\<in>set (r_ifaces s). ii_fprint (snd e) = method_fingerprint (pg_methods P (fst e))
        \<and> set (ii_implementations (snd e)) = {C \<in> fst ` set (r_concrete s). pg_implements P C (fst e)})"

text \<open>What the maps of the state mean: each key under its own signature, one entry a key.\<close>

definition keyed :: "('k \<Rightarrow> ty) \<Rightarrow> (ty \<Rightarrow> ('k \<times> mask) list) \<Rightarrow> bool" where
  "keyed sig m \<longleftrightarrow> (\<forall>S. distinct (map fst (m S)) \<and> (\<forall>k\<in>fst ` set (m S). sig k = S))"

definition types_known :: "rta_program \<Rightarrow> rta \<Rightarrow> bool" where
  "types_known P s \<longleftrightarrow>
     (\<forall>e\<in>set (r_concrete s). \<not> interface_kind (pg_form P) (fst e) \<and> ci_masks (snd e) = r_runtime s (fst e))
   \<and> (\<forall>t i. bit (r_runtime s t) i \<longrightarrow> interface_kind (pg_form P) t \<or> t \<in> fst ` set (r_concrete s))"

definition tables_ok :: "rta_program \<Rightarrow> rta \<Rightarrow> bool" where
  "tables_ok P s \<longleftrightarrow> keyed (pg_sig P) (r_addr s) \<and> keyed (pg_site_sig P) (r_dyn s)
   \<and> keyed (pg_site_iface P) (r_invoke s) \<and> implements_ok P s \<and> types_known P s
   \<and> (\<forall>I. r_invoke s I \<noteq> [] \<longrightarrow> I \<in> fst ` set (r_ifaces s))"

text \<open>Every edge two held facts make has been made.\<close>

definition edges_made :: "rta_program \<Rightarrow> rta \<Rightarrow> bool" where
  "edges_made P s \<longleftrightarrow>
     (\<forall>i c g. subject_edge P (holds P s i) c g \<longrightarrow> holds P s i (Reach g) \<and> bit (r_targets s c g) i)
   \<and> (\<forall>i g. pg_reflect_call P \<noteq> None \<longrightarrow> holds P s i (AddrTaken g) \<longrightarrow> holds P s i (Reach g))
   \<and> (\<forall>i t m g. holds P s i (RuntimeType t) \<longrightarrow> \<not> interface_kind (pg_form P) t \<longrightarrow> m \<in> set (pg_methods P t) \<longrightarrow>
        ms_exported m \<longrightarrow> \<not> ms_generic m \<longrightarrow> ms_value m = Some g \<longrightarrow> holds P s i (Reach g))"

definition sound :: "rta_program \<Rightarrow> (nat \<Rightarrow> rta_fact \<Rightarrow> bool) \<Rightarrow> rta \<Rightarrow> bool" where
  "sound P D s \<longleftrightarrow> (\<forall>i x. holds P s i x \<longrightarrow> D i x)
     \<and> (\<forall>i c g. bit (r_targets s c g) i \<longrightarrow> subject_edge P (D i) c g)"

definition walk_inv :: "rta_program \<Rightarrow> (nat \<Rightarrow> rta_fact \<Rightarrow> bool) \<Rightarrow> rta \<Rightarrow> bool" where
  "walk_inv P D s \<longleftrightarrow> sound P D s \<and> tables_ok P s \<and> edges_made P s \<and> resolved_union s"

text \<open>The order of a range visits every entry; an implementation has the interface's methods.\<close>

definition lawful :: "rta_program \<Rightarrow> range_order \<Rightarrow> bool" where
  "lawful P ord \<longleftrightarrow> (\<forall>xs. set (ord_fns ord xs) = set xs) \<and> (\<forall>xs. set (ord_sites ord xs) = set xs)
     \<and> (\<forall>xs. set (ord_types ord xs) = set xs)
     \<and> (\<forall>C I. pg_implements P C I \<longrightarrow> (\<forall>m\<in>set (pg_methods P I). \<not> ms_generic m \<longrightarrow>
          (\<exists>m'\<in>set (pg_methods P C). \<not> ms_generic m' \<and> method_key m' = method_key m)))"

section \<open>The implements tables\<close>

lemma fingerprint_bits_from:
  "bit (foldl (\<lambda>mask m. if ms_generic m then mask
     else mask OR push_bit (unat (crc32 (method_key m)) mod 64) 1) acc ms) i \<longleftrightarrow> bit (acc :: mask) i
   \<or> i < 64 \<and> (\<exists>m\<in>set ms. \<not> ms_generic m \<and> unat (crc32 (method_key m)) mod 64 = i)"
proof (induction ms arbitrary: acc)
  case (Cons m ms)
  have "bit (push_bit n 1 :: mask) i \<longleftrightarrow> i < 64 \<and> n = i" for n
    by (auto simp: bit_push_bit_iff bit_1_iff simp del: push_bit_of_1)
  with Cons show ?case by (auto simp: bit_or_iff simp del: push_bit_of_1)
qed simp

lemma fingerprint_bits:
  "bit (method_fingerprint ms) i \<longleftrightarrow> i < 64 \<and> (\<exists>m\<in>set ms. \<not> ms_generic m \<and> unat (crc32 (method_key m)) mod 64 = i)"
  by (simp add: method_fingerprint_def fingerprint_bits_from)

text \<open>The fingerprint filter never rejects an implementation.\<close>

lemma attributed_implements_iff:
  assumes "lawful P ord" "ci_fprint ci = method_fingerprint (pg_methods P C)" "ii_fprint ii = method_fingerprint (pg_methods P I)"
  shows "attributed_implements P C ci I ii \<longleftrightarrow> pg_implements P C I"
proof -
  have "ii_fprint ii AND NOT (ci_fprint ci) = 0" if "pg_implements P C I"
    unfolding mask_zero bits_delta assms(2,3) fingerprint_bits using assms(1) that
    unfolding lawful_def by metis
  then show ?thesis by (auto simp: attributed_implements_def)
qed

lemma fst_map_snd: "fst ` (\<lambda>(k, v). if p k v then (k, f k v) else (k, g k v)) ` A = fst ` A"
  unfolding image_image by (rule image_cong) (auto split: prod.splits)

lemma map_fst_snd: "map fst (map (\<lambda>(k, v). if p k v then (k, f k v) else (k, g k v)) xs) = map fst xs"
  by (induction xs) auto

lemma note_implementations_keys:
  "fst ` set (r_concrete (note_implementations P ord I s)) = fst ` set (r_concrete s)"
  "fst ` set (r_ifaces (note_implementations P ord I s)) = insert I (fst ` set (r_ifaces s))"
  by (auto simp: note_implementations_def Let_def fst_map_snd) 

lemma note_implementations_rest:
  "r_addr (note_implementations P ord I s) = r_addr s" "r_dyn (note_implementations P ord I s) = r_dyn s"
  "r_invoke (note_implementations P ord I s) = r_invoke s" "r_runtime (note_implementations P ord I s) = r_runtime s"
  "r_traversed (note_implementations P ord I s) = r_traversed s" "r_reach (note_implementations P ord I s) = r_reach s"
  "r_pending (note_implementations P ord I s) = r_pending s" "r_queued (note_implementations P ord I s) = r_queued s"
  "r_worklist (note_implementations P ord I s) = r_worklist s" "r_targets (note_implementations P ord I s) = r_targets s"
  "r_resolved (note_implementations P ord I s) = r_resolved s"
  by (simp_all add: note_implementations_def Let_def)

lemma note_interfaces_rest:
  "r_addr (note_interfaces P ord I s) = r_addr s" "r_dyn (note_interfaces P ord I s) = r_dyn s"
  "r_invoke (note_interfaces P ord I s) = r_invoke s" "r_runtime (note_interfaces P ord I s) = r_runtime s"
  "r_traversed (note_interfaces P ord I s) = r_traversed s" "r_reach (note_interfaces P ord I s) = r_reach s"
  "r_pending (note_interfaces P ord I s) = r_pending s" "r_queued (note_interfaces P ord I s) = r_queued s"
  "r_worklist (note_interfaces P ord I s) = r_worklist s" "r_targets (note_interfaces P ord I s) = r_targets s"
  "r_resolved (note_interfaces P ord I s) = r_resolved s"
  by (simp_all add: note_interfaces_def Let_def)

lemma note_interfaces_keys:
  "fst ` set (r_concrete (note_interfaces P ord C s)) = insert C (fst ` set (r_concrete s))"
  "fst ` set (r_ifaces (note_interfaces P ord C s)) = fst ` set (r_ifaces s)"
  by (auto simp: note_interfaces_def Let_def fst_map_snd)

lemma implements_okD:
  assumes "implements_ok P s"
  shows "(C, ci) \<in> set (r_concrete s) \<Longrightarrow> ci_fprint ci = method_fingerprint (pg_methods P C)
      \<and> set (ci_implements ci) = {I \<in> fst ` set (r_ifaces s). pg_implements P C I}"
    and "(I, ii) \<in> set (r_ifaces s) \<Longrightarrow> ii_fprint ii = method_fingerprint (pg_methods P I)
      \<and> set (ii_implementations ii) = {C \<in> fst ` set (r_concrete s). pg_implements P C I}"
proof -
  from assms have c: "\<forall>e\<in>set (r_concrete s). ci_fprint (snd e) = method_fingerprint (pg_methods P (fst e))
        \<and> set (ci_implements (snd e)) = {I \<in> fst ` set (r_ifaces s). pg_implements P (fst e) I}"
    and i: "\<forall>e\<in>set (r_ifaces s). ii_fprint (snd e) = method_fingerprint (pg_methods P (fst e))
        \<and> set (ii_implementations (snd e)) = {C \<in> fst ` set (r_concrete s). pg_implements P C (fst e)}"
    unfolding implements_ok_def by simp_all
  show "(C, ci) \<in> set (r_concrete s) \<Longrightarrow> ci_fprint ci = method_fingerprint (pg_methods P C)
      \<and> set (ci_implements ci) = {I \<in> fst ` set (r_ifaces s). pg_implements P C I}"
    by (drule bspec [OF c]) simp
  show "(I, ii) \<in> set (r_ifaces s) \<Longrightarrow> ii_fprint ii = method_fingerprint (pg_methods P I)
      \<and> set (ii_implementations ii) = {C \<in> fst ` set (r_concrete s). pg_implements P C I}"
    by (drule bspec [OF i]) simp
qed

lemma implements_okI:
  assumes "distinct (map fst (r_concrete s))" "distinct (map fst (r_ifaces s))"
    and "\<And>C ci. (C, ci) \<in> set (r_concrete s) \<Longrightarrow> ci_fprint ci = method_fingerprint (pg_methods P C)
      \<and> set (ci_implements ci) = {I \<in> fst ` set (r_ifaces s). pg_implements P C I}"
    and "\<And>I ii. (I, ii) \<in> set (r_ifaces s) \<Longrightarrow> ii_fprint ii = method_fingerprint (pg_methods P I)
      \<and> set (ii_implementations ii) = {C \<in> fst ` set (r_concrete s). pg_implements P C I}"
  shows "implements_ok P s"
  unfolding implements_ok_def
proof (intro conjI(1) conjI ballI)
  fix e assume "e \<in> set (r_concrete s)"
  then show "ci_fprint (snd e) = method_fingerprint (pg_methods P (fst e))"
    "set (ci_implements (snd e)) = {I \<in> fst ` set (r_ifaces s). pg_implements P (fst e) I}"
    using assms(3) [of "fst e" "snd e"] by simp_all
next
  fix e assume "e \<in> set (r_ifaces s)"
  then show "ii_fprint (snd e) = method_fingerprint (pg_methods P (fst e))"
    "set (ii_implementations (snd e)) = {C \<in> fst ` set (r_concrete s). pg_implements P C (fst e)}"
    using assms(4) [of "fst e" "snd e"] by simp_all
qed (fact assms)+

lemma note_implementations_ok:
  assumes l: "lawful P ord" and ok: "implements_ok P s"
  shows "implements_ok P (note_implementations P ord I s)"
proof (cases "I \<in> fst ` set (r_ifaces s)")
  case True
  with ok show ?thesis by (simp add: note_implementations_def)
next
  case False
  let ?ii = "\<lparr>ii_fprint = method_fingerprint (pg_methods P I), ii_implementations = []\<rparr>"
  let ?hits = "filter (\<lambda>(C, ci). attributed_implements P C ci I ?ii) (r_concrete s)"
  have fp: "ci_fprint ci = method_fingerprint (pg_methods P C)" if "(C, ci) \<in> set (r_concrete s)" for C ci
    using implements_okD [OF ok] that by blast
  have imp: "attributed_implements P C ci I ?ii \<longleftrightarrow> pg_implements P C I" if "(C, ci) \<in> set (r_concrete s)" for C ci
    by (rule attributed_implements_iff [OF l fp [OF that]]) simp
  have "set (ord_types ord (map fst ?hits)) = fst ` set ?hits" using l by (simp add: lawful_def)
  also have "\<dots> = {C \<in> fst ` set (r_concrete s). pg_implements P C I}" using imp by fastforce
  finally have hits: "set (ord_types ord (map fst ?hits)) = {C \<in> fst ` set (r_concrete s). pg_implements P C I}" .
  let ?s = "note_implementations P ord I s"
  have rc: "r_concrete ?s = map (\<lambda>(C, ci). if attributed_implements P C ci I ?ii
      then (C, ci\<lparr>ci_implements := ci_implements ci @ [I]\<rparr>) else (C, ci)) (r_concrete s)"
    and ri: "r_ifaces ?s = r_ifaces s @ [(I, ?ii\<lparr>ii_implementations := ord_types ord (map fst ?hits)\<rparr>)]"
    using False by (simp_all add: note_implementations_def Let_def)
  note keys = note_implementations_keys [of P ord I s]
  have "ci_fprint ci' = method_fingerprint (pg_methods P C)
      \<and> set (ci_implements ci') = {J \<in> insert I (fst ` set (r_ifaces s)). pg_implements P C J}"
    if "(C, ci') \<in> set (r_concrete ?s)" for C ci'
  proof -
    from that obtain ci where ci: "(C, ci) \<in> set (r_concrete s)"
      "ci' = (if attributed_implements P C ci I ?ii then ci\<lparr>ci_implements := ci_implements ci @ [I]\<rparr> else ci)"
      unfolding rc by (auto split: if_splits)
    from ok ci(1) have "ci_fprint ci = method_fingerprint (pg_methods P C)"
      "set (ci_implements ci) = {J \<in> fst ` set (r_ifaces s). pg_implements P C J}"
      using implements_okD [OF ok] by blast+
    then show ?thesis using imp [OF ci(1)] ci(2) by auto
  qed
  moreover have "ii_fprint ii = method_fingerprint (pg_methods P J)
      \<and> set (ii_implementations ii) = {C \<in> fst ` set (r_concrete s). pg_implements P C J}"
    if "(J, ii) \<in> set (r_ifaces ?s)" for J ii
  proof (cases "(J, ii) \<in> set (r_ifaces s)")
    case True
    then show ?thesis using implements_okD [OF ok] by blast
  next
    case F: False
    with that have "J = I" "ii = ?ii\<lparr>ii_implementations := ord_types ord (map fst ?hits)\<rparr>"
      unfolding ri by auto
    with hits show ?thesis by simp
  qed
  moreover have "distinct (map fst (r_concrete ?s))" "distinct (map fst (r_ifaces ?s))"
    using ok False unfolding implements_ok_def by (simp_all add: rc ri map_fst_snd del: map_map)
  ultimately show ?thesis by (intro implements_okI) (simp_all add: keys)
qed

lemma note_interfaces_ok:
  assumes l: "lawful P ord" and ok: "implements_ok P s"
  shows "implements_ok P (note_interfaces P ord C s)"
proof (cases "C \<in> fst ` set (r_concrete s)")
  case True
  with ok show ?thesis by (simp add: note_interfaces_def)
next
  case False
  let ?ci = "\<lparr>ci_fprint = method_fingerprint (pg_methods P C), ci_masks = 0, ci_implements = []\<rparr>"
  let ?hits = "filter (\<lambda>(I, ii). attributed_implements P C ?ci I ii) (r_ifaces s)"
  have fp: "ii_fprint ii = method_fingerprint (pg_methods P I)" if "(I, ii) \<in> set (r_ifaces s)" for I ii
    using implements_okD [OF ok] that by blast
  have imp: "attributed_implements P C ?ci I ii \<longleftrightarrow> pg_implements P C I" if "(I, ii) \<in> set (r_ifaces s)" for I ii
    by (rule attributed_implements_iff [OF l _ fp [OF that]]) simp
  have "set (ord_types ord (map fst ?hits)) = fst ` set ?hits" using l by (simp add: lawful_def)
  also have "\<dots> = {I \<in> fst ` set (r_ifaces s). pg_implements P C I}" using imp by fastforce
  finally have hits: "set (ord_types ord (map fst ?hits)) = {I \<in> fst ` set (r_ifaces s). pg_implements P C I}" .
  let ?s = "note_interfaces P ord C s"
  have ri: "r_ifaces ?s = map (\<lambda>(I, ii). if attributed_implements P C ?ci I ii
      then (I, ii\<lparr>ii_implementations := ii_implementations ii @ [C]\<rparr>) else (I, ii)) (r_ifaces s)"
    and rc: "r_concrete ?s = r_concrete s @ [(C, ?ci\<lparr>ci_implements := ord_types ord (map fst ?hits)\<rparr>)]"
    using False by (simp_all add: note_interfaces_def Let_def)
  note keys = note_interfaces_keys [of P ord C s]
  have "ii_fprint ii' = method_fingerprint (pg_methods P I)
      \<and> set (ii_implementations ii') = {D \<in> insert C (fst ` set (r_concrete s)). pg_implements P D I}"
    if "(I, ii') \<in> set (r_ifaces ?s)" for I ii'
  proof -
    from that obtain ii where ii: "(I, ii) \<in> set (r_ifaces s)"
      "ii' = (if attributed_implements P C ?ci I ii then ii\<lparr>ii_implementations := ii_implementations ii @ [C]\<rparr> else ii)"
      unfolding ri by (auto split: if_splits)
    from ok ii(1) have "ii_fprint ii = method_fingerprint (pg_methods P I)"
      "set (ii_implementations ii) = {D \<in> fst ` set (r_concrete s). pg_implements P D I}"
      using implements_okD [OF ok] by blast+
    then show ?thesis using imp [OF ii(1)] ii(2) by auto
  qed
  moreover have "ci_fprint ci = method_fingerprint (pg_methods P D)
      \<and> set (ci_implements ci) = {I \<in> fst ` set (r_ifaces s). pg_implements P D I}"
    if "(D, ci) \<in> set (r_concrete ?s)" for D ci
  proof (cases "(D, ci) \<in> set (r_concrete s)")
    case True
    then show ?thesis using implements_okD [OF ok] by blast
  next
    case F: False
    with that have "D = C" "ci = ?ci\<lparr>ci_implements := ord_types ord (map fst ?hits)\<rparr>"
      unfolding rc by auto
    with hits show ?thesis by simp
  qed
  moreover have "distinct (map fst (r_concrete ?s))" "distinct (map fst (r_ifaces ?s))"
    using ok False unfolding implements_ok_def by (simp_all add: rc ri map_fst_snd del: map_map)
  ultimately show ?thesis by (intro implements_okI) (simp_all add: keys)
qed

section \<open>Operations as table updates followed by edges\<close>

lemma keyed_entry:
  assumes "keyed sig m" "(k, x) \<in> set (m S)"
  shows "sig k = S" "mask_of (m (sig k)) k = x"
proof -
  from assms have "distinct (map fst (m S))" "k \<in> fst ` set (m S)" by (force simp: keyed_def)+
  with assms(1) show "sig k = S" unfolding keyed_def by blast
  with \<open>distinct (map fst (m S))\<close> assms(2) show "mask_of (m (sig k)) k = x" by (simp add: mask_of_entry)
qed

lemma keyed_update: "keyed sig m \<Longrightarrow> keyed sig (m(sig k := AList.update k v (m (sig k))))"
  unfolding keyed_def
proof
  fix S assume k: "\<forall>S. distinct (map fst (m S)) \<and> (\<forall>k\<in>fst ` set (m S). sig k = S)"
  show "distinct (map fst ((m(sig k := AList.update k v (m (sig k)))) S))
      \<and> (\<forall>j\<in>fst ` set ((m(sig k := AList.update k v (m (sig k)))) S). sig j = S)"
  proof (cases "S = sig k")
    case True
    from k have "distinct (map fst (m (sig k)))" "\<forall>j\<in>fst ` set (m (sig k)). sig j = sig k" by blast+
    then show ?thesis unfolding True fun_upd_same dom_update by (blast intro: distinct_update)
  qed (use k in simp)
qed

lemma edges_other:
  assumes "\<And>g. x \<noteq> Reach g"
  shows "holds P (edges es s) i x = holds P s i x"
proof (cases x)
  case (Reach g)
  with assms show ?thesis by blast
qed (use edges_tables [of s es] in \<open>simp_all add: same_tables_def\<close>)

lemma edges_edge [simp]: "subject_edge P (holds P (edges es s) i) c g = subject_edge P (holds P s i) c g"
  unfolding subject_edge_def by (subst (1 2 3 4) edges_other) auto

lemma edges_tables_ok: "tables_ok P s \<Longrightarrow> tables_ok P (edges es s)"
  using edges_tables [of s es] by (simp add: same_tables_def tables_ok_def implements_ok_def types_known_def)

lemma subject_edge_mono: "(\<And>x. D x \<Longrightarrow> D' x) \<Longrightarrow> subject_edge P D c g \<Longrightarrow> subject_edge P D' c g"
  unfolding subject_edge_def by blast

text \<open>After a table update, the edges that complete it restore the invariant.\<close>

lemma walk_inv_edges:
  assumes facts: "\<And>i x. holds P s i x \<Longrightarrow> D i x"
    and targets: "\<And>i c g. bit (r_targets s c g) i \<Longrightarrow> subject_edge P (D i) c g"
    and tables: "tables_ok P s" and resolved: "resolved_union s"
    and just: "\<And>i c g m. (c, Some g, m) \<in> set es \<Longrightarrow> bit m i \<Longrightarrow>
        D i (Reach g) \<and> (\<forall>d. c = Some d \<longrightarrow> subject_edge P (D i) d g)"
    and calls: "\<And>i c g. subject_edge P (holds P s i) c g \<Longrightarrow>
        holds P s i (Reach g) \<and> bit (r_targets s c g) i \<or> (\<exists>m. (Some c, Some g, m) \<in> set es \<and> bit m i)"
    and reflects: "\<And>i g. pg_reflect_call P \<noteq> None \<Longrightarrow> holds P s i (AddrTaken g) \<Longrightarrow>
        holds P s i (Reach g) \<or> (\<exists>c m. (c, Some g, m) \<in> set es \<and> bit m i)"
    and methods: "\<And>i t m g. holds P s i (RuntimeType t) \<Longrightarrow> \<not> interface_kind (pg_form P) t \<Longrightarrow>
        m \<in> set (pg_methods P t) \<Longrightarrow> ms_exported m \<Longrightarrow> \<not> ms_generic m \<Longrightarrow> ms_value m = Some g \<Longrightarrow>
        holds P s i (Reach g) \<or> (\<exists>c k. (c, Some g, k) \<in> set es \<and> bit k i)"
  shows "walk_inv P D (edges es s)"
proof -
  have "D i x" if "holds P (edges es s) i x" for i x
  proof (cases x)
    case (Reach g)
    with that facts [of i "Reach g"] just show ?thesis by (auto simp: edges_reach)
  qed (use that facts edges_other [of x P es s i] in auto)
  moreover have "subject_edge P (D i) c g" if "bit (r_targets (edges es s) c g) i" for i c g
    using that targets just by (auto simp: edges_targets)
  moreover have "tables_ok P (edges es s)" by (rule edges_tables_ok [OF tables])
  moreover have "holds P (edges es s) i (Reach g) \<and> bit (r_targets (edges es s) c g) i"
    if "subject_edge P (holds P s i) c g" for i c g
    using calls [OF that] by (auto simp: edges_reach edges_targets)
  moreover have "holds P (edges es s) i (Reach g)"
    if "pg_reflect_call P \<noteq> None" "holds P (edges es s) i (AddrTaken g)" for i g
    using reflects [of i g] that edges_other [of "AddrTaken g" P es s i] by (auto simp: edges_reach)
  moreover have "holds P (edges es s) i (Reach g)"
    if "holds P (edges es s) i (RuntimeType t)" "\<not> interface_kind (pg_form P) t" "m \<in> set (pg_methods P t)"
      "ms_exported m" "\<not> ms_generic m" "ms_value m = Some g" for i t m g
    using methods [of i t m g] that edges_other [of "RuntimeType t" P es s i] by (auto simp: edges_reach)
  ultimately show ?thesis
    unfolding walk_inv_def sound_def edges_made_def edges_edge using edges_resolved [OF resolved] by blast
qed

lemma walk_invD:
  assumes "walk_inv P D s"
  shows "holds P s i x \<Longrightarrow> D i x" "bit (r_targets s c g) i \<Longrightarrow> subject_edge P (D i) c g"
    "tables_ok P s" "resolved_union s"
    "subject_edge P (holds P s i) c g \<Longrightarrow> holds P s i (Reach g) \<and> bit (r_targets s c g) i"
    "pg_reflect_call P \<noteq> None \<Longrightarrow> holds P s i (AddrTaken g) \<Longrightarrow> holds P s i (Reach g)"
    "holds P s i (RuntimeType t) \<Longrightarrow> \<not> interface_kind (pg_form P) t \<Longrightarrow> m \<in> set (pg_methods P t) \<Longrightarrow>
       ms_exported m \<Longrightarrow> \<not> ms_generic m \<Longrightarrow> ms_value m = Some g \<Longrightarrow> holds P s i (Reach g)"
  using assms unfolding walk_inv_def sound_def edges_made_def by blast+

text \<open>A step that keeps the invariant, loses nothing, and sees no new type.\<close>

definition plain_step :: "rta_program \<Rightarrow> (nat \<Rightarrow> rta_fact \<Rightarrow> bool) \<Rightarrow> rta \<Rightarrow> rta \<Rightarrow> bool" where
  "plain_step P D s s' \<longleftrightarrow> walk_inv P D s' \<and> extends P s s' \<and> r_runtime s' = r_runtime s
     \<and> r_traversed s' = r_traversed s"

lemma plain_refl [simp]: "walk_inv P D s \<Longrightarrow> plain_step P D s s"
  by (simp add: plain_step_def)

lemma plain_trans [trans]: "plain_step P D s s' \<Longrightarrow> plain_step P D s' s'' \<Longrightarrow> plain_step P D s s''"
  by (auto simp: plain_step_def intro: extends_trans)

lemma fold_plain:
  assumes "\<And>x s. x \<in> set xs \<Longrightarrow> walk_inv P D s \<Longrightarrow> plain_step P D s (f x s)"
  shows "walk_inv P D s \<Longrightarrow> plain_step P D s (fold f xs s)"
  using assms
proof (induction xs arbitrary: s)
  case (Cons x xs)
  have a: "plain_step P D s (f x s)" using Cons.prems by simp
  then have "walk_inv P D (f x s)" by (simp add: plain_step_def)
  from plain_trans [OF a Cons.IH [OF this]] Cons.prems(2) show ?case by simp
qed simp

lemma edges_types: "r_runtime (edges es s) = r_runtime s" "r_traversed (edges es s) = r_traversed s"
  using edges_tables [of s es] by (simp_all add: same_tables_def)

lemma reachable_step:
  assumes "walk_inv P D s" "\<And>i f. g = Some f \<Longrightarrow> bit m i \<Longrightarrow> D i (Reach f)"
  shows "plain_step P D s (add_reachable g m s)"
    "g = Some f \<Longrightarrow> bit m i \<Longrightarrow> holds P (add_reachable g m s) i (Reach f)"
proof -
  have e: "add_reachable g m s = edges [(None, g, m)] s" by (simp add: add_reachable_edge)
  note inv = walk_invD [OF assms(1)]
  have "walk_inv P D (edges [(None, g, m)] s)"
    by (rule walk_inv_edges) (use inv assms(2) in auto)
  then show "plain_step P D s (add_reachable g m s)"
    unfolding e plain_step_def using edges_extends edges_types by blast
  show "g = Some f \<Longrightarrow> bit m i \<Longrightarrow> holds P (add_reachable g m s) i (Reach f)"
    unfolding e holds.simps edges_reach by auto
qed

subsection \<open>Address-taken functions and dynamic calls\<close>

abbreviation addr_edges :: "rta_program \<Rightarrow> range_order \<Rightarrow> fn \<Rightarrow> mask \<Rightarrow> rta \<Rightarrow> (site option \<times> fn option \<times> mask) list" where
  "addr_edges P ord f d s \<equiv> map (\<lambda>(c, m). (Some c, Some f, d AND m)) (ord_sites ord (r_dyn s (pg_sig P f)))
     @ (if pg_reflect_call P \<noteq> None then [(None, Some f, d)] else [])"

lemma visit_addr_taken_edges:
  "visit_addr_taken P ord f masks s = (let funcs = r_addr s (pg_sig P f); d = masks AND NOT (mask_of funcs f) in
     if d = 0 then s else edges (addr_edges P ord f d s)
       (s\<lparr>r_addr := (r_addr s)(pg_sig P f := AList.update f (mask_of funcs f OR d) funcs)\<rparr>))"
  unfolding visit_addr_taken_def Let_def matched_edge [unfolded Let_def]
  by (simp add: fold_map comp_def split_def add_reachable_edge)

lemma visit_addr_taken_step:
  assumes inv: "walk_inv P D s" and l: "lawful P ord" and cl: "\<And>i. rules_closed P (D i)"
    and just: "\<And>i. bit masks i \<Longrightarrow> D i (AddrTaken f)"
  shows "plain_step P D s (visit_addr_taken P ord f masks s)"
    and "bit masks i \<Longrightarrow> holds P (visit_addr_taken P ord f masks s) i (AddrTaken f)"
proof -
  let ?S = "pg_sig P f" let ?funcs = "r_addr s ?S" let ?d = "masks AND NOT (mask_of ?funcs f)"
  let ?s1 = "s\<lparr>r_addr := (r_addr s)(?S := AList.update f (mask_of ?funcs f OR ?d) ?funcs)\<rparr>"
  let ?es = "addr_edges P ord f ?d s"
  note I = walk_invD [OF inv]
  have h: "holds P ?s1 i x \<longleftrightarrow> holds P s i x \<or> x = AddrTaken f \<and> bit masks i" for i x
    by (cases x) (auto simp: bit_or_iff)
  show "bit masks i \<Longrightarrow> holds P (visit_addr_taken P ord f masks s) i (AddrTaken f)"
  proof (cases "?d = 0")
    case True
    assume "bit masks i"
    with True show ?thesis by (simp add: visit_addr_taken_edges mask_zero)
  next
    case False
    assume b: "bit masks i"
    have "holds P (edges ?es ?s1) i (AddrTaken f)"
    proof (subst edges_other)
      show "holds P ?s1 i (AddrTaken f)" unfolding h using b by blast
    qed simp
    with False show ?thesis by (simp add: visit_addr_taken_edges Let_def)
  qed
  show "plain_step P D s (visit_addr_taken P ord f masks s)"
  proof (cases "?d = 0")
    case True
    with inv show ?thesis by (simp add: visit_addr_taken_edges)
  next
    case False
    have dyn: "holds P s i (DynSite c) \<and> pg_site_sig P c = ?S" if "(c, m) \<in> set (r_dyn s ?S)" "bit m i" for c m i
      using keyed_entry [of "pg_site_sig P" "r_dyn s"] that I(3) by (auto simp: tables_ok_def)
    have "walk_inv P D (edges ?es ?s1)"
    proof (rule walk_inv_edges)
      show "D i x" if "holds P ?s1 i x" for i x using that h I(1) just by blast
      show "subject_edge P (D i) c g" if "bit (r_targets ?s1 c g) i" for i c g using that I(2) by simp
      show "tables_ok P ?s1"
        using I(3) by (simp add: tables_ok_def implements_ok_def types_known_def keyed_update)
      show "resolved_union ?s1" using I(4) by (simp add: resolved_union_def)
    next
      fix i c g m assume e: "(c, Some g, m) \<in> set ?es" "bit m i"
      then have g: "g = f" and b: "bit masks i" by (auto split: if_splits)
      show "D i (Reach g) \<and> (\<forall>d. c = Some d \<longrightarrow> subject_edge P (D i) d g)"
      proof (cases c)
        case None
        with e have "pg_reflect_call P \<noteq> None" by (auto split: if_splits)
        with rules_closedD(7) [OF cl] just [OF b] g None show ?thesis by blast
      next
        case (Some d)
        with e obtain k where k: "(d, k) \<in> set (r_dyn s ?S)" "bit k i"
          using l by (auto simp: lawful_def split: if_splits)
        from dyn [OF k] I(1) have "D i (DynSite d)" "pg_site_sig P d = ?S" by blast+
        with just [OF b] g have "subject_edge P (D i) d g" unfolding subject_edge_def by blast
        with edge_reaches [OF cl this] Some show ?thesis by simp
      qed
    next
      fix i c g assume e: "subject_edge P (holds P ?s1 i) c g"
      show "holds P ?s1 i (Reach g) \<and> bit (r_targets ?s1 c g) i \<or> (\<exists>m. (Some c, Some g, m) \<in> set ?es \<and> bit m i)"
      proof (cases "subject_edge P (holds P s i) c g")
        case True
        with I(5) h show ?thesis by simp
      next
        case F: False
        with e have "g = f" "bit masks i" "\<not> holds P s i (AddrTaken f)" "holds P s i (DynSite c)" "pg_site_sig P c = ?S"
          unfolding subject_edge_def h by blast+
        then have "(c, mask_of (r_dyn s ?S) c) \<in> set (r_dyn s ?S)" "bit (?d AND mask_of (r_dyn s ?S) c) i"
          by (auto dest: entry_of_mask)
        with l \<open>g = f\<close> show ?thesis by (force simp: lawful_def)
      qed
    next
      fix i g assume r: "pg_reflect_call P \<noteq> None" and a: "holds P ?s1 i (AddrTaken g)"
      show "holds P ?s1 i (Reach g) \<or> (\<exists>c m. (c, Some g, m) \<in> set ?es \<and> bit m i)"
      proof (cases "holds P s i (AddrTaken g)")
        case True
        from I(6) [OF r True] h show ?thesis by blast
      next
        case False
        with a have "g = f" "bit masks i" unfolding h by blast+
        with False have "bit ?d i" by simp
        moreover from r have "(None, Some f, ?d) \<in> set ?es" by simp
        ultimately show ?thesis using \<open>g = f\<close> by blast
      qed
    next
      fix i t m g assume "holds P ?s1 i (RuntimeType t)" "\<not> interface_kind (pg_form P) t"
        "m \<in> set (pg_methods P t)" "ms_exported m" "\<not> ms_generic m" "ms_value m = Some g"
      then show "holds P ?s1 i (Reach g) \<or> (\<exists>c k. (c, Some g, k) \<in> set ?es \<and> bit k i)"
        using I(7) h by blast
    qed
    moreover have "extends P s ?s1" by (rule table_extends) (simp_all add: h del: holds.simps)
    moreover note edges_extends [of P ?s1 ?es] edges_types [of ?es ?s1]
    ultimately show ?thesis using False
      by (auto simp: visit_addr_taken_edges Let_def plain_step_def intro: extends_trans)
  qed
qed

abbreviation dyn_edges :: "rta_program \<Rightarrow> range_order \<Rightarrow> site \<Rightarrow> mask \<Rightarrow> rta \<Rightarrow> (site option \<times> fn option \<times> mask) list" where
  "dyn_edges P ord c d s \<equiv> map (\<lambda>(f, m). (Some c, Some f, d AND m)) (ord_fns ord (r_addr s (pg_site_sig P c)))"

lemma visit_dyn_call_edges:
  "visit_dyn_call P ord c masks s = (let sites = r_dyn s (pg_site_sig P c); d = masks AND NOT (mask_of sites c) in
     if d = 0 then s else edges (dyn_edges P ord c d s)
       (s\<lparr>r_dyn := (r_dyn s)(pg_site_sig P c := AList.update c (mask_of sites c OR d) sites)\<rparr>))"
  unfolding visit_dyn_call_def Let_def matched_edge [unfolded Let_def]
  by (simp add: fold_map comp_def split_def)

lemma visit_dyn_call_step:
  assumes inv: "walk_inv P D s" and l: "lawful P ord" and cl: "\<And>i. rules_closed P (D i)"
    and just: "\<And>i. bit masks i \<Longrightarrow> D i (DynSite c)"
  shows "plain_step P D s (visit_dyn_call P ord c masks s)"
    and "bit masks i \<Longrightarrow> holds P (visit_dyn_call P ord c masks s) i (DynSite c)"
proof -
  let ?S = "pg_site_sig P c" let ?sites = "r_dyn s ?S" let ?d = "masks AND NOT (mask_of ?sites c)"
  let ?s1 = "s\<lparr>r_dyn := (r_dyn s)(?S := AList.update c (mask_of ?sites c OR ?d) ?sites)\<rparr>"
  let ?es = "dyn_edges P ord c ?d s"
  note I = walk_invD [OF inv]
  have h: "holds P ?s1 i x \<longleftrightarrow> holds P s i x \<or> x = DynSite c \<and> bit masks i" for i x
    by (cases x) (auto simp: bit_or_iff)
  show "bit masks i \<Longrightarrow> holds P (visit_dyn_call P ord c masks s) i (DynSite c)"
  proof (cases "?d = 0")
    case True
    assume "bit masks i"
    with True show ?thesis by (simp add: visit_dyn_call_edges mask_zero)
  next
    case False
    assume b: "bit masks i"
    have "holds P (edges ?es ?s1) i (DynSite c)"
    proof (subst edges_other)
      show "holds P ?s1 i (DynSite c)" unfolding h using b by blast
    qed simp
    with False show ?thesis by (simp add: visit_dyn_call_edges Let_def)
  qed
  show "plain_step P D s (visit_dyn_call P ord c masks s)"
  proof (cases "?d = 0")
    case True
    with inv show ?thesis by (simp add: visit_dyn_call_edges)
  next
    case False
    have taken: "holds P s i (AddrTaken f) \<and> pg_sig P f = ?S" if "(f, m) \<in> set (r_addr s ?S)" "bit m i" for f m i
      using keyed_entry [of "pg_sig P" "r_addr s"] that I(3) by (auto simp: tables_ok_def)
    have "walk_inv P D (edges ?es ?s1)"
    proof (rule walk_inv_edges)
      show "D i x" if "holds P ?s1 i x" for i x using that h I(1) just by blast
      show "subject_edge P (D i) c g" if "bit (r_targets ?s1 c g) i" for i c g using that I(2) by simp
      show "tables_ok P ?s1"
        using I(3) by (simp add: tables_ok_def implements_ok_def types_known_def keyed_update)
      show "resolved_union ?s1" using I(4) by (simp add: resolved_union_def)
    next
      fix i c' g m assume e: "(c', Some g, m) \<in> set ?es" "bit m i"
      then obtain k where k: "(g, k) \<in> set (r_addr s ?S)" "bit k i" and c: "c' = Some c" and b: "bit masks i"
        using l by (auto simp: lawful_def)
      from taken [OF k] I(1) have "D i (AddrTaken g)" "pg_sig P g = ?S" by blast+
      with just [OF b] have "subject_edge P (D i) c g" unfolding subject_edge_def by metis
      with edge_reaches [OF cl this] c show "D i (Reach g) \<and> (\<forall>d. c' = Some d \<longrightarrow> subject_edge P (D i) d g)"
        by simp
    next
      fix i c' g assume e: "subject_edge P (holds P ?s1 i) c' g"
      show "holds P ?s1 i (Reach g) \<and> bit (r_targets ?s1 c' g) i \<or> (\<exists>m. (Some c', Some g, m) \<in> set ?es \<and> bit m i)"
      proof (cases "subject_edge P (holds P s i) c' g")
        case True
        with I(5) h show ?thesis by simp
      next
        case F: False
        with e have "c' = c" "bit masks i" "\<not> holds P s i (DynSite c)" "holds P s i (AddrTaken g)" "?S = pg_sig P g"
          unfolding subject_edge_def h by blast+
        then have "(g, mask_of (r_addr s ?S) g) \<in> set (r_addr s ?S)" "bit (?d AND mask_of (r_addr s ?S) g) i"
          by (auto dest: entry_of_mask)
        with l \<open>c' = c\<close> show ?thesis by (force simp: lawful_def)
      qed
    next
      fix i g assume "pg_reflect_call P \<noteq> None" "holds P ?s1 i (AddrTaken g)"
      then show "holds P ?s1 i (Reach g) \<or> (\<exists>c m. (c, Some g, m) \<in> set ?es \<and> bit m i)" using I(6) h by blast
    next
      fix i t m g assume "holds P ?s1 i (RuntimeType t)" "\<not> interface_kind (pg_form P) t"
        "m \<in> set (pg_methods P t)" "ms_exported m" "\<not> ms_generic m" "ms_value m = Some g"
      then show "holds P ?s1 i (Reach g) \<or> (\<exists>c k. (c, Some g, k) \<in> set ?es \<and> bit k i)"
        using I(7) h by blast
    qed
    moreover have "extends P s ?s1" by (rule table_extends) (simp_all add: h del: holds.simps)
    moreover note edges_extends [of P ?s1 ?es] edges_types [of ?es ?s1]
    ultimately show ?thesis using False
      by (auto simp: visit_dyn_call_edges Let_def plain_step_def intro: extends_trans)
  qed
qed

subsection \<open>Interface calls\<close>

text \<open>Noting an interface or a concrete type changes the implements tables alone.\<close>

lemma runtime_known:
  "types_known P s \<Longrightarrow> bit (r_runtime s t) i \<Longrightarrow> \<not> interface_kind (pg_form P) t \<Longrightarrow> t \<in> fst ` set (r_concrete s)"
  unfolding types_known_def by blast

lemma note_implementations_invoke:
  "note_implementations P ord I (s\<lparr>r_invoke := x\<rparr>) = note_implementations P ord I s\<lparr>r_invoke := x\<rparr>"
  by (simp add: note_implementations_def Let_def)

lemma note_implementations_masks:
  "\<forall>e\<in>set (r_concrete s). Q (fst e) (ci_masks (snd e)) \<Longrightarrow>
     \<forall>e\<in>set (r_concrete (note_implementations P ord I s)). Q (fst e) (ci_masks (snd e))"
  by (auto simp: note_implementations_def Let_def)

lemma note_implementations_tables:
  assumes "lawful P ord" "tables_ok P s"
  shows "tables_ok P (note_implementations P ord I s)"
proof -
  from assms(2) have "types_known P s" by (simp add: tables_ok_def)
  then have "\<forall>e\<in>set (r_concrete (note_implementations P ord I s)).
      \<not> interface_kind (pg_form P) (fst e) \<and> ci_masks (snd e) = r_runtime s (fst e)"
    by (intro note_implementations_masks) (unfold types_known_def, blast)
  with \<open>types_known P s\<close> have "types_known P (note_implementations P ord I s)"
    unfolding types_known_def note_implementations_keys note_implementations_rest by blast
  moreover have "implements_ok P (note_implementations P ord I s)"
    using assms note_implementations_ok [OF assms(1)] by (simp add: tables_ok_def)
  ultimately show ?thesis
    using assms(2) unfolding tables_ok_def note_implementations_keys note_implementations_rest by blast
qed

lemma implementations_of_ok:
  assumes "implements_ok P s" "I \<in> fst ` set (r_ifaces s)"
  shows "set (implementations_of s I) = {C \<in> fst ` set (r_concrete s). pg_implements P C I}"
proof -
  from assms(2) obtain ii where ii: "(I, ii) \<in> set (r_ifaces s)" by force
  with assms(1) have "map_of (r_ifaces s) I = Some ii" by (simp add: implements_ok_def)
  with implements_okD(2) [OF assms(1) ii] show ?thesis by (simp add: implementations_of_def)
qed

lemma implemented_by_ok:
  assumes "implements_ok P s" "C \<in> fst ` set (r_concrete s)"
  shows "set (implemented_by s C) = {I \<in> fst ` set (r_ifaces s). pg_implements P C I}"
proof -
  from assms(2) obtain ci where ci: "(C, ci) \<in> set (r_concrete s)" by force
  with assms(1) have "map_of (r_concrete s) C = Some ci" by (simp add: implements_ok_def)
  with implements_okD(1) [OF assms(1) ci] show ?thesis by (simp add: implemented_by_def)
qed

lemma concrete_masks_ok:
  assumes "implements_ok P s" "types_known P s" "C \<in> fst ` set (r_concrete s)"
  shows "concrete_masks s C = r_runtime s C"
proof -
  from assms(3) obtain ci where ci: "(C, ci) \<in> set (r_concrete s)" by force
  with assms(1) have "map_of (r_concrete s) C = Some ci" by (simp add: implements_ok_def)
  with assms(2) ci show ?thesis by (force simp: concrete_masks_def types_known_def)
qed

abbreviation invoke_edges :: "rta_program \<Rightarrow> site \<Rightarrow> mask \<Rightarrow> rta \<Rightarrow> (site option \<times> fn option \<times> mask) list" where
  "invoke_edges P c d s \<equiv> map (\<lambda>C. (Some c, pg_lookup P C c, d AND concrete_masks s C))
     (implementations_of s (pg_site_iface P c))"

lemma visit_invoke_edges:
  "visit_invoke P ord c masks s = (let I = pg_site_iface P c; sites = r_invoke s I;
      d = masks AND NOT (mask_of sites c);
      s2 = note_implementations P ord I (s\<lparr>r_invoke := (r_invoke s)(I := AList.update c (mask_of sites c OR d) sites)\<rparr>) in
     if d = 0 then s else edges (invoke_edges P c d s2) s2)"
  unfolding visit_invoke_def Let_def invoke_edge by (simp add: fold_map comp_def)

lemma visit_invoke_step:
  assumes inv: "walk_inv P D s" and l: "lawful P ord" and cl: "\<And>i. rules_closed P (D i)"
    and just: "\<And>i. bit masks i \<Longrightarrow> D i (InvokeSite c)"
  shows "plain_step P D s (visit_invoke P ord c masks s)"
    and "bit masks i \<Longrightarrow> holds P (visit_invoke P ord c masks s) i (InvokeSite c)"
proof -
  let ?I = "pg_site_iface P c" let ?sites = "r_invoke s ?I" let ?d = "masks AND NOT (mask_of ?sites c)"
  let ?upd = "(r_invoke s)(?I := AList.update c (mask_of ?sites c OR ?d) ?sites)"
  let ?s2 = "note_implementations P ord ?I (s\<lparr>r_invoke := ?upd\<rparr>)"
  let ?es = "invoke_edges P c ?d ?s2"
  note I = walk_invD [OF inv]
  have h: "holds P ?s2 i x \<longleftrightarrow> holds P s i x \<or> x = InvokeSite c \<and> bit masks i" for i x
    by (cases x) (auto simp: bit_or_iff note_implementations_rest)
  have t2: "tables_ok P ?s2"
    using note_implementations_tables [OF l I(3), of ?I] unfolding note_implementations_invoke
    by (auto simp: tables_ok_def implements_ok_def types_known_def note_implementations_rest note_implementations_keys
        intro!: keyed_update)
  have ik: "implements_ok P ?s2" "types_known P ?s2" "?I \<in> fst ` set (r_ifaces ?s2)"
    using t2 by (simp_all add: tables_ok_def note_implementations_keys)
  show "bit masks i \<Longrightarrow> holds P (visit_invoke P ord c masks s) i (InvokeSite c)"
  proof (cases "?d = 0")
    case True
    assume "bit masks i"
    with True show ?thesis by (simp add: visit_invoke_edges mask_zero)
  next
    case False
    assume b: "bit masks i"
    have "holds P (edges ?es ?s2) i (InvokeSite c)"
    proof (subst edges_other)
      show "holds P ?s2 i (InvokeSite c)" unfolding h using b by blast
    qed simp
    with False show ?thesis by (simp add: visit_invoke_edges Let_def)
  qed
  show "plain_step P D s (visit_invoke P ord c masks s)"
  proof (cases "?d = 0")
    case True
    with inv show ?thesis by (simp add: visit_invoke_edges)
  next
    case False
    have impls: "C \<in> set (implementations_of ?s2 ?I) \<longleftrightarrow> C \<in> fst ` set (r_concrete ?s2) \<and> pg_implements P C ?I" for C
      using implementations_of_ok [OF ik(1,3)] by simp
    have masks: "concrete_masks ?s2 C = r_runtime s C" if "C \<in> fst ` set (r_concrete ?s2)" for C
      using concrete_masks_ok [OF ik(1,2) that] by (simp add: note_implementations_rest)
    have "walk_inv P D (edges ?es ?s2)"
    proof (rule walk_inv_edges)
      show "D i x" if "holds P ?s2 i x" for i x using that h I(1) just by blast
      show "subject_edge P (D i) c g" if "bit (r_targets ?s2 c g) i" for i c g
        using that I(2) by (simp add: note_implementations_rest)
      show "tables_ok P ?s2" by (rule t2)
      show "resolved_union ?s2" using I(4) by (simp add: resolved_union_def note_implementations_rest)
    next
      fix i c' g m assume e: "(c', Some g, m) \<in> set ?es" "bit m i"
      then obtain C where C': "C \<in> set (implementations_of ?s2 ?I)" and c: "c' = Some c"
        and m: "m = ?d AND concrete_masks ?s2 C" "pg_lookup P C c = Some g" by auto
      from m(1) e(2) have b: "bit masks i" "bit (concrete_masks ?s2 C) i" by simp_all
      from C' impls m(2) have C: "C \<in> fst ` set (r_concrete ?s2)" "pg_implements P C ?I" "pg_lookup P C c = Some g"
        by blast+
      have "holds P s i (RuntimeType C)" using b(2) masks [OF C(1)] by simp
      moreover have "\<not> interface_kind (pg_form P) C" using C(1) ik(2) unfolding types_known_def by blast
      ultimately have "subject_edge P (D i) c g" unfolding subject_edge_def using just [OF b(1)] C I(1) by blast
      with edge_reaches [OF cl this] c show "D i (Reach g) \<and> (\<forall>d. c' = Some d \<longrightarrow> subject_edge P (D i) d g)"
        by simp
    next
      fix i c' g assume e: "subject_edge P (holds P ?s2 i) c' g"
      show "holds P ?s2 i (Reach g) \<and> bit (r_targets ?s2 c' g) i \<or> (\<exists>m. (Some c', Some g, m) \<in> set ?es \<and> bit m i)"
      proof (cases "subject_edge P (holds P s i) c' g")
        case True
        from I(5) [OF this] show ?thesis unfolding h by (simp add: note_implementations_rest)
      next
        case F: False
        with e obtain t where c: "c' = c" and b: "bit masks i" "\<not> holds P s i (InvokeSite c)"
          and t: "holds P s i (RuntimeType t)" "\<not> interface_kind (pg_form P) t" "pg_implements P t ?I"
            "pg_lookup P t c = Some g"
          unfolding subject_edge_def h by blast
        from t(1,2) ik(2) have k: "t \<in> fst ` set (r_concrete ?s2)"
          using runtime_known [OF ik(2), of t i] by (simp add: note_implementations_rest)
        with t impls have "t \<in> set (implementations_of ?s2 ?I)" by blast
        moreover have "bit (?d AND concrete_masks ?s2 t) i" using b t(1) masks [OF k] by simp
        moreover from \<open>t \<in> set (implementations_of ?s2 ?I)\<close> t(4)
        have "(Some c, Some g, ?d AND concrete_masks ?s2 t) \<in> set ?es" by (metis (no_types, lifting) image_eqI set_map)
        ultimately show ?thesis using c by blast
      qed
    next
      fix i g assume "pg_reflect_call P \<noteq> None" "holds P ?s2 i (AddrTaken g)"
      then show "holds P ?s2 i (Reach g) \<or> (\<exists>c m. (c, Some g, m) \<in> set ?es \<and> bit m i)" using I(6) h by blast
    next
      fix i t m g assume "holds P ?s2 i (RuntimeType t)" "\<not> interface_kind (pg_form P) t"
        "m \<in> set (pg_methods P t)" "ms_exported m" "\<not> ms_generic m" "ms_value m = Some g"
      then show "holds P ?s2 i (Reach g) \<or> (\<exists>c k. (c, Some g, k) \<in> set ?es \<and> bit k i)"
        using I(7) h by blast
    qed
    moreover have "extends P s ?s2"
      by (rule table_extends) (simp_all add: h note_implementations_rest del: holds.simps)
    moreover note edges_extends [of P ?s2 ?es] edges_types [of ?es ?s2]
    ultimately show ?thesis using False
      by (auto simp: visit_invoke_edges Let_def plain_step_def note_implementations_rest intro: extends_trans)
  qed
qed

subsection \<open>Runtime types\<close>

lemma edge_updates:
  "edge e (s\<lparr>r_concrete := a, r_ifaces := b\<rparr>) = edge e s\<lparr>r_concrete := a, r_ifaces := b\<rparr>"
  by (auto simp: edge_def add_reachable_def add_resolved_target_def Let_def split: prod.splits option.splits)

lemma edges_updates:
  "edges es (s\<lparr>r_concrete := a, r_ifaces := b\<rparr>) = edges es s\<lparr>r_concrete := a, r_ifaces := b\<rparr>"
  by (induction es arbitrary: s) (simp_all add: edge_updates)

lemma edges_concrete: "r_concrete (edges es s) = r_concrete s" "r_ifaces (edges es s) = r_ifaces s"
  "r_invoke (edges es s) = r_invoke s"
  using edges_tables [of s es] by (simp_all add: same_tables_def)

definition noted :: "rta_program \<Rightarrow> range_order \<Rightarrow> ty \<Rightarrow> mask \<Rightarrow> rta \<Rightarrow> rta" where
  "noted P ord t access s = (let s3 = note_interfaces P ord t s in
     s3\<lparr>r_concrete := map (\<lambda>(C, ci). if C = t then (C, ci\<lparr>ci_masks := ci_masks ci OR access\<rparr>) else (C, ci))
       (r_concrete s3)\<rparr>)"

lemma noted_edges: "noted P ord t access (edges es s) = edges es (noted P ord t access s)"
proof -
  define a where "a = r_concrete (noted P ord t access s)"
  define b where "b = r_ifaces (noted P ord t access s)"
  have n: "noted P ord t access s = s\<lparr>r_concrete := a, r_ifaces := b\<rparr>"
    unfolding a_def b_def by (simp add: noted_def note_interfaces_def Let_def)
  have "noted P ord t access (edges es s) = edges es s\<lparr>r_concrete := a, r_ifaces := b\<rparr>"
    unfolding a_def b_def by (simp add: noted_def note_interfaces_def Let_def edges_concrete)
  then show ?thesis by (simp add: n edges_updates)
qed

lemma fold_concat: "fold f (concat xss) s = fold (fold f) xss s"
  by (induction xss arbitrary: s) simp_all

abbreviation method_edges :: "rta_program \<Rightarrow> ty \<Rightarrow> mask \<Rightarrow> (site option \<times> fn option \<times> mask) list" where
  "method_edges P t access \<equiv> map (\<lambda>m. (None, ms_value m, access))
     (filter (\<lambda>m. ms_exported m \<and> \<not> ms_generic m) (pg_methods P t))"

abbreviation type_invoke_edges ::
    "rta_program \<Rightarrow> range_order \<Rightarrow> ty \<Rightarrow> mask \<Rightarrow> rta \<Rightarrow> (site option \<times> fn option \<times> mask) list" where
  "type_invoke_edges P ord t access s \<equiv> concat (map (\<lambda>I. map (\<lambda>(c, m). (Some c, pg_lookup P t c, access AND m))
     (ord_sites ord (r_invoke s I))) (implemented_by s t))"

lemma fold_filtered: "fold (\<lambda>m s. if p m then f m s else s) ms s = fold f (filter p ms) s"
  by (induction ms arbitrary: s) simp_all

lemma access_type_edges:
  "access_type P ord t access s = (let s1 = s\<lparr>r_runtime := (r_runtime s)(t := r_runtime s t OR access)\<rparr>;
      s4 = noted P ord t access s1 in
    if interface_kind (pg_form P) t then s1
    else edges (method_edges P t access @ type_invoke_edges P ord t access s4) s4)"
proof (cases "interface_kind (pg_form P) t")
  case True
  then show ?thesis by (simp add: access_type_def)
next
  case False
  let ?s1 = "s\<lparr>r_runtime := (r_runtime s)(t := r_runtime s t OR access)\<rparr>"
  let ?s4 = "noted P ord t access ?s1"
  have m: "fold (\<lambda>m s. if ms_exported m \<and> \<not> ms_generic m then add_reachable (ms_value m) access s else s)
      (pg_methods P t) ?s1 = edges (method_edges P t access) ?s1"
    unfolding fold_filtered add_reachable_edge by (simp add: fold_map comp_def)
  have i: "implemented_by (edges es ?s4) t = implemented_by ?s4 t" "r_invoke (edges es ?s4) = r_invoke ?s4" for es
    by (simp_all add: implemented_by_def edges_concrete)
  have n: "note_interfaces P ord t (edges (method_edges P t access) ?s1)\<lparr>r_concrete :=
      map (\<lambda>(C, ci). if C = t then (C, ci\<lparr>ci_masks := ci_masks ci OR access\<rparr>) else (C, ci))
       (r_concrete (note_interfaces P ord t (edges (method_edges P t access) ?s1)))\<rparr>
      = edges (method_edges P t access) ?s4"
    using noted_edges [of P ord t access "method_edges P t access" ?s1] by (simp add: noted_def Let_def)
  show ?thesis
    using False unfolding access_type_def Let_def m n i invoke_edge
    by (simp add: fold_concat fold_map comp_def split_def)
qed

lemma noted_rest:
  "r_addr (noted P ord t access s) = r_addr s" "r_dyn (noted P ord t access s) = r_dyn s"
  "r_invoke (noted P ord t access s) = r_invoke s" "r_runtime (noted P ord t access s) = r_runtime s"
  "r_traversed (noted P ord t access s) = r_traversed s" "r_reach (noted P ord t access s) = r_reach s"
  "r_pending (noted P ord t access s) = r_pending s" "r_queued (noted P ord t access s) = r_queued s"
  "r_worklist (noted P ord t access s) = r_worklist s" "r_targets (noted P ord t access s) = r_targets s"
  "r_resolved (noted P ord t access s) = r_resolved s"
  "r_ifaces (noted P ord t access s) = r_ifaces (note_interfaces P ord t s)"
  by (simp_all add: noted_def Let_def note_interfaces_rest)

lemma noted_keys:
  "fst ` set (r_concrete (noted P ord t access s)) = insert t (fst ` set (r_concrete s))"
  "fst ` set (r_ifaces (noted P ord t access s)) = fst ` set (r_ifaces s)"
  by (simp_all add: noted_def Let_def fst_map_snd note_interfaces_keys)

lemma noted_entry:
  assumes "(C, ci) \<in> set (r_concrete (noted P ord t access s))"
  obtains ci' where "(C, ci') \<in> set (r_concrete (note_interfaces P ord t s))"
    "ci = (if C = t then ci'\<lparr>ci_masks := ci_masks ci' OR access\<rparr> else ci')"
  using assms by (auto simp: noted_def Let_def split: if_splits)

lemma noted_implements:
  assumes "lawful P ord" "implements_ok P s"
  shows "implements_ok P (noted P ord t access s)"
proof -
  note n = note_interfaces_ok [OF assms, of t]
  show ?thesis
  proof (rule implements_okI)
    show "distinct (map fst (r_concrete (noted P ord t access s)))"
      using n by (simp add: noted_def Let_def map_fst_snd implements_ok_def del: map_map)
    show "distinct (map fst (r_ifaces (noted P ord t access s)))"
      using n by (simp add: noted_rest implements_ok_def)
  next
    fix C ci assume "(C, ci) \<in> set (r_concrete (noted P ord t access s))"
    then show "ci_fprint ci = method_fingerprint (pg_methods P C) \<and>
        set (ci_implements ci) = {I \<in> fst ` set (r_ifaces (noted P ord t access s)). pg_implements P C I}"
      by (rule noted_entry) (use implements_okD(1) [OF n] in \<open>auto simp: noted_rest\<close>)
  next
    fix I ii assume "(I, ii) \<in> set (r_ifaces (noted P ord t access s))"
    then show "ii_fprint ii = method_fingerprint (pg_methods P I) \<and>
        set (ii_implementations ii) = {C \<in> fst ` set (r_concrete (noted P ord t access s)). pg_implements P C I}"
      using implements_okD(2) [OF n] by (simp add: noted_rest noted_keys note_interfaces_keys)
  qed
qed

lemma noted_types:
  assumes "types_known P s" "\<not> interface_kind (pg_form P) t"
  shows "types_known P (noted P ord t access (s\<lparr>r_runtime := (r_runtime s)(t := r_runtime s t OR access)\<rparr>))"
proof -
  let ?s1 = "s\<lparr>r_runtime := (r_runtime s)(t := r_runtime s t OR access)\<rparr>"
  have zero: "r_runtime s t = 0" if "t \<notin> fst ` set (r_concrete s)"
    using assms that unfolding mask_zero types_known_def by blast
  have old: "\<not> interface_kind (pg_form P) C \<and> ci_masks ci = r_runtime s C"
    if "(C, ci) \<in> set (r_concrete (note_interfaces P ord t ?s1))" for C ci
    using that assms zero unfolding types_known_def
    by (auto simp: note_interfaces_def Let_def split: if_splits)
  have "\<not> interface_kind (pg_form P) (fst e) \<and> ci_masks (snd e) = r_runtime ?s1 (fst e)"
    if "e \<in> set (r_concrete (noted P ord t access ?s1))" for e
  proof -
    obtain C ci where e: "e = (C, ci)" by (cases e)
    show ?thesis using that unfolding e by (rule noted_entry) (use old in \<open>auto split: if_splits\<close>)
  qed
  moreover have "interface_kind (pg_form P) u \<or> u \<in> fst ` set (r_concrete (noted P ord t access ?s1))"
    if "bit (r_runtime ?s1 u) i" for u i
    using that assms(1) unfolding noted_keys types_known_def by (auto split: if_splits)
  ultimately show ?thesis unfolding types_known_def noted_rest by blast
qed

lemma access_type_step:
  assumes inv: "walk_inv P D s" and l: "lawful P ord" and cl: "\<And>i. rules_closed P (D i)"
    and just: "\<And>i. bit access i \<Longrightarrow> D i (RuntimeType t)"
  shows "walk_inv P D (access_type P ord t access s)" "extends P s (access_type P ord t access s)"
    "r_traversed (access_type P ord t access s) = r_traversed s"
    "r_runtime (access_type P ord t access s) = (r_runtime s)(t := r_runtime s t OR access)"
proof -
  let ?s1 = "s\<lparr>r_runtime := (r_runtime s)(t := r_runtime s t OR access)\<rparr>"
  let ?s4 = "noted P ord t access ?s1"
  let ?es = "method_edges P t access @ type_invoke_edges P ord t access ?s4"
  note I = walk_invD [OF inv]
  have h1: "holds P ?s1 i x \<longleftrightarrow> holds P s i x \<or> x = RuntimeType t \<and> bit access i" for i x
    by (cases x) (auto simp: bit_or_iff)
  have h4: "holds P ?s4 i x \<longleftrightarrow> holds P s i x \<or> x = RuntimeType t \<and> bit access i" for i x
    unfolding h1 [symmetric] by (cases x) (simp_all add: noted_rest)
  show "walk_inv P D (access_type P ord t access s)"
  proof (cases "interface_kind (pg_form P) t")
    case True
    have "walk_inv P D (edges [] ?s1)"
    proof (rule walk_inv_edges)
      show "D i x" if "holds P ?s1 i x" for i x using that I(1) just unfolding h1 by blast
      show "subject_edge P (D i) c g" if "bit (r_targets ?s1 c g) i" for i c g using that I(2) by simp
      show "resolved_union ?s1" using I(4) by (simp add: resolved_union_def)
      have "types_known P ?s1" using True I(3) unfolding tables_ok_def types_known_def by auto
      then show "tables_ok P ?s1" using I(3) by (simp add: tables_ok_def implements_ok_def)
      show "holds P ?s1 i (Reach g) \<and> bit (r_targets ?s1 c g) i \<or> (\<exists>m. (Some c, Some g, m) \<in> set [] \<and> bit m i)"
        if "subject_edge P (holds P ?s1 i) c g" for i c g
      proof -
        from that True have "subject_edge P (holds P s i) c g" unfolding subject_edge_def h1 by blast
        from I(5) [OF this] show ?thesis by simp
      qed
    qed (use I(6,7) True h1 in \<open>auto simp del: holds.simps\<close>)
    with True show ?thesis by (simp add: access_type_edges)
  next
    case False
    have t4: "tables_ok P ?s4"
      using I(3) noted_implements [OF l, of ?s1 t access] noted_types [OF _ False, of s ord access]
      by (auto simp: tables_ok_def noted_rest noted_keys note_interfaces_keys implements_ok_def types_known_def)
    have ik: "implements_ok P ?s4" "t \<in> fst ` set (r_concrete ?s4)"
      using t4 by (simp_all add: tables_ok_def noted_keys)
    have impl: "J \<in> set (implemented_by ?s4 t) \<longleftrightarrow> J \<in> fst ` set (r_ifaces s) \<and> pg_implements P t J" for J
      using implemented_by_ok [OF ik] by (simp add: noted_rest note_interfaces_keys)
    have inv4: "r_invoke ?s4 = r_invoke s" by (simp add: noted_rest)
    have site: "holds P s i (InvokeSite c) \<and> pg_site_iface P c = J" if "(c, m) \<in> set (r_invoke s J)" "bit m i" for c m i J
      using keyed_entry [of "pg_site_iface P" "r_invoke s"] that I(3) by (auto simp: tables_ok_def)
    have "walk_inv P D (edges ?es ?s4)"
    proof (rule walk_inv_edges)
      show "D i x" if "holds P ?s4 i x" for i x using that I(1) just unfolding h4 by blast
      show "subject_edge P (D i) c g" if "bit (r_targets ?s4 c g) i" for i c g
        using that I(2) by (simp add: noted_rest)
      show "resolved_union ?s4" using I(4) by (simp add: resolved_union_def noted_rest)
      show "tables_ok P ?s4" by (rule t4)
    next
      fix i c g m assume e: "(c, Some g, m) \<in> set ?es" "bit m i"
      show "D i (Reach g) \<and> (\<forall>d. c = Some d \<longrightarrow> subject_edge P (D i) d g)"
      proof (cases c)
        case None
        with e obtain k where k: "k \<in> set (pg_methods P t)" "ms_exported k" "\<not> ms_generic k" "ms_value k = Some g"
          and "m = access" by auto
        with e(2) just rules_closedD(8) [OF cl _ False k] None show ?thesis by blast
      next
        case (Some d)
        with e(1) obtain J k where J: "J \<in> set (implemented_by ?s4 t)" "(d, k) \<in> set (r_invoke s J)"
          "pg_lookup P t d = Some g" "m = access AND k"
          using l unfolding inv4 by (auto simp: lawful_def)
        from J(4) e(2) have b: "bit access i" "bit k i" by (simp_all add: bit_and_iff)
        from site [OF J(2) b(2)] have sd: "holds P s i (InvokeSite d)" "pg_site_iface P d = J" by blast+
        from J(1) impl have "pg_implements P t J" by blast
        with sd I(1) just [OF b(1)] J(3) False have "subject_edge P (D i) d g" unfolding subject_edge_def by blast
        with edge_reaches [OF cl this] Some show ?thesis by simp
      qed
    next
      fix i c g assume e: "subject_edge P (holds P ?s4 i) c g"
      show "holds P ?s4 i (Reach g) \<and> bit (r_targets ?s4 c g) i \<or> (\<exists>m. (Some c, Some g, m) \<in> set ?es \<and> bit m i)"
      proof (cases "subject_edge P (holds P s i) c g")
        case True
        from I(5) [OF this] show ?thesis unfolding h4 by (simp add: noted_rest)
      next
        case F: False
        let ?J = "pg_site_iface P c" let ?k = "mask_of (r_invoke s (pg_site_iface P c)) c"
        from F e have b: "bit access i" and c: "holds P s i (InvokeSite c)" "pg_implements P t ?J"
          "pg_lookup P t c = Some g"
          unfolding subject_edge_def h4 by blast+
        from c(1) have k: "(c, ?k) \<in> set (r_invoke s ?J)" by (auto dest: entry_of_mask)
        then have "r_invoke s ?J \<noteq> []" by (metis empty_iff list.set(1))
        then have "?J \<in> fst ` set (r_ifaces s)" using I(3) unfolding tables_ok_def by blast
        with c(2) impl have "?J \<in> set (implemented_by ?s4 t)" by blast
        moreover have "(Some c, Some g, access AND ?k)
            \<in> set (map (\<lambda>(c, m). (Some c, pg_lookup P t c, access AND m)) (ord_sites ord (r_invoke ?s4 ?J)))"
          unfolding set_map inv4 by (rule image_eqI [of _ _ "(c, ?k)"]) (use k l c(3) in \<open>simp_all add: lawful_def\<close>)
        ultimately have "(Some c, Some g, access AND ?k) \<in> set (type_invoke_edges P ord t access ?s4)"
          unfolding set_concat set_map [of _ "implemented_by ?s4 t"] by blast
        moreover have "bit (access AND ?k) i" using b c(1) by (simp add: bit_and_iff)
        ultimately show ?thesis unfolding set_append by blast
      qed
    next
      fix i g assume "pg_reflect_call P \<noteq> None" "holds P ?s4 i (AddrTaken g)"
      then show "holds P ?s4 i (Reach g) \<or> (\<exists>c m. (c, Some g, m) \<in> set ?es \<and> bit m i)"
        using I(6) unfolding h4 by blast
    next
      fix i u m g assume a: "holds P ?s4 i (RuntimeType u)" "\<not> interface_kind (pg_form P) u"
        "m \<in> set (pg_methods P u)" "ms_exported m" "\<not> ms_generic m" "ms_value m = Some g"
      show "holds P ?s4 i (Reach g) \<or> (\<exists>c k. (c, Some g, k) \<in> set ?es \<and> bit k i)"
      proof (cases "holds P s i (RuntimeType u)")
        case True
        from I(7) [OF this a(2-6)] show ?thesis unfolding h4 by blast
      next
        case F: False
        with a(1) have "u = t" "bit access i" unfolding h4 by blast+
        moreover from a \<open>u = t\<close> have "(None, Some g, access) \<in> set ?es" by force
        ultimately show ?thesis by blast
      qed
    qed
    with False show ?thesis by (simp add: access_type_edges Let_def)
  qed
  have e1: "extends P s ?s1" "extends P s ?s4"
    by (rule table_extends, simp_all add: h1 h4 noted_rest del: holds.simps)+
  show "extends P s (access_type P ord t access s)"
    using e1(1) extends_trans [OF e1(2) edges_extends] unfolding access_type_edges Let_def by presburger
  show "r_traversed (access_type P ord t access s) = r_traversed s"
    "r_runtime (access_type P ord t access s) = (r_runtime s)(t := r_runtime s t OR access)"
    by (simp_all add: access_type_edges Let_def edges_types noted_rest)
qed

end
