(* ===== verification/Rta_Walk.thy ===== *)
theory Rta_Walk
  imports Rta_Steps
begin

text \<open>
  The recursive descent into runtime types, the visit of a function body and the worklist
  loop of the attributed walk: what each leaves closed, the invariant of the loop, and the
  result: when the walk returns, a subject's bits are exactly what the rules derive for that
  subject alone.
\<close>

section \<open>Descending into a type\<close>

definition type_done :: "rta_program \<Rightarrow> rta \<Rightarrow> nat \<Rightarrow> ty \<Rightarrow> bool" where
  "type_done P s i t \<longleftrightarrow> shape_children P t \<noteq> None
     \<and> (\<forall>e\<in>set (rt_children P t). \<not> mentions (pg_form P) (fst e) \<longrightarrow>
          holds P s i (Traversed (fst e)) \<and> (\<not> snd e \<longrightarrow> holds P s i (RuntimeType (fst e))))"

lemma type_done_mono: "type_done P s i t \<Longrightarrow> grows P s s' \<Longrightarrow> type_done P s' i t"
  unfolding type_done_def grows_def by blast

text \<open>A step that keeps the invariant and leaves every type it reached newly closed.\<close>

definition type_step :: "rta_program \<Rightarrow> (nat \<Rightarrow> rta_fact \<Rightarrow> bool) \<Rightarrow> rta \<Rightarrow> rta \<Rightarrow> bool" where
  "type_step P D s s' \<longleftrightarrow> walk_inv P D s' \<and> extends P s s'
     \<and> (\<forall>i t. holds P s' i (Traversed t) \<longrightarrow> holds P s i (Traversed t) \<or> type_done P s' i t)
     \<and> (\<forall>i t. holds P s' i (RuntimeType t) \<longrightarrow> holds P s i (RuntimeType t) \<or> holds P s' i (Traversed t))"

lemma type_step_grows: "type_step P D s s' \<Longrightarrow> grows P s s'"
  by (simp add: type_step_def extends_def)

lemma type_step_refl: "walk_inv P D s \<Longrightarrow> type_step P D s s"
  by (simp add: type_step_def)

lemma plain_type_step: "plain_step P D s s' \<Longrightarrow> type_step P D s s'"
  by (simp add: plain_step_def type_step_def)

lemma type_step_trans [trans]:
  assumes "type_step P D s s'" "type_step P D s' s''"
  shows "type_step P D s s''"
proof -
  note g = type_step_grows [OF assms(1)] type_step_grows [OF assms(2)]
  from assms have a: "walk_inv P D s''" "extends P s s''" unfolding type_step_def by (blast intro: extends_trans)+
  have "holds P s i (Traversed t) \<or> type_done P s'' i t" if "holds P s'' i (Traversed t)" for i t
    using that assms type_done_mono [OF _ g(2)] unfolding type_step_def by blast
  moreover have "holds P s i (RuntimeType t) \<or> holds P s'' i (Traversed t)" if "holds P s'' i (RuntimeType t)" for i t
    using that assms growsD [OF g(2)] unfolding type_step_def by blast
  ultimately show ?thesis using a unfolding type_step_def by blast
qed

lemma fold_res_steps:
  assumes "\<And>x s s'. x \<in> set xs \<Longrightarrow> walk_inv P D s \<Longrightarrow> f x s = Inr s' \<Longrightarrow> type_step P D s s' \<and> Q x s'"
    and "\<And>x s s'. Q x s \<Longrightarrow> grows P s s' \<Longrightarrow> Q x s'"
  shows "walk_inv P D s \<Longrightarrow> fold_res f xs s = Inr s' \<Longrightarrow> type_step P D s s' \<and> (\<forall>x\<in>set xs. Q x s')"
  using assms(1)
proof (induction xs arbitrary: s)
  case Nil
  then show ?case by (simp add: type_step_refl)
next
  case (Cons x xs)
  from Cons.prems(2) obtain s1 where s1: "f x s = Inr s1" "fold_res f xs s1 = Inr s'"
    by (auto simp: bind_res_Inr_iff)
  from Cons.prems(3) [OF _ Cons.prems(1) s1(1)] have a: "type_step P D s s1" "Q x s1" by auto
  then have "walk_inv P D s1" by (simp add: type_step_def)
  from Cons.IH [OF this s1(2)] Cons.prems(3) have b: "type_step P D s1 s'" "\<forall>y\<in>set xs. Q y s'" by auto
  from assms(2) [OF a(2) type_step_grows [OF b(1)]] b(2) type_step_trans [OF a(1) b(1)] show ?case by simp
qed

lemma never_runtime_exact: "never_runtime P q t = Inr b \<Longrightarrow> b \<longleftrightarrow> mentions (pg_form P) t"
  by (auto simp: never_runtime_def dest: contains_exact split: option.splits)

lemma traversed_inv:
  assumes "walk_inv P D s" "\<And>i. bit m i \<Longrightarrow> D i (Traversed t)"
  shows "walk_inv P D (s\<lparr>r_traversed := (r_traversed s)(t := r_traversed s t OR m)\<rparr>)"
proof -
  let ?s = "s\<lparr>r_traversed := (r_traversed s)(t := r_traversed s t OR m)\<rparr>"
  note I = walk_invD [OF assms(1)]
  have h: "holds P ?s i x \<longleftrightarrow> holds P s i x \<or> x = Traversed t \<and> bit m i" for i x
    by (cases x) (auto simp: bit_or_iff)
  have "walk_inv P D (edges [] ?s)"
  proof (rule walk_inv_edges)
    show "D i x" if "holds P ?s i x" for i x using that I(1) assms(2) unfolding h by blast
    show "subject_edge P (D i) c g" if "bit (r_targets ?s c g) i" for i c g using that I(2) by simp
    show "resolved_union ?s" using I(4) by (simp add: resolved_union_def)
    show "tables_ok P ?s" using I(3) by (simp add: tables_ok_def implements_ok_def types_known_def)
    show "holds P ?s i (Reach g) \<and> bit (r_targets ?s c g) i \<or> (\<exists>m. (Some c, Some g, m) \<in> set [] \<and> bit m i)"
      if "subject_edge P (holds P ?s i) c g" for i c g
    proof -
      from that have "subject_edge P (holds P s i) c g" unfolding subject_edge_def h by blast
      from I(5) [OF this] show ?thesis by simp
    qed
  qed (use I(6,7) h in \<open>auto simp del: holds.simps\<close>)
  then show ?thesis by simp
qed

text \<open>The two ways a call goes: nothing new for these subjects, or a descent behind the gate.\<close>

abbreviation access_delta :: "ty \<Rightarrow> mask \<Rightarrow> bool \<Rightarrow> rta \<Rightarrow> mask" where
  "access_delta t masks skip s \<equiv> if skip then 0 else masks AND NOT (r_runtime s t)"

abbreviation traverse_delta :: "ty \<Rightarrow> mask \<Rightarrow> rta \<Rightarrow> mask" where
  "traverse_delta t masks s \<equiv> masks AND NOT (r_traversed s t)"

lemma add_runtime_type_nothing:
  "masks = 0 \<or> access_delta t masks skip s = 0 \<and> traverse_delta t masks s = 0 \<Longrightarrow>
     add_runtime_type (Suc n) q P ord t masks skip s = Inr s"
  unfolding add_runtime_type.simps Let_def by presburger

lemma add_runtime_type_descend:
  "\<not> (masks = 0 \<or> access_delta t masks skip s = 0 \<and> traverse_delta t masks s = 0) \<Longrightarrow>
     add_runtime_type (Suc n) q P ord t masks skip s =
     bind_res (if r_traversed s t = 0 then never_runtime P q t else Inr False) (\<lambda>stop.
       if stop then Inr s
       else let s1 = (if access_delta t masks skip s \<noteq> 0 then access_type P ord t (access_delta t masks skip s) s else s) in
         if traverse_delta t masks s = 0 then Inr s1
         else bind_res (fold_res (\<lambda>(c, sk). add_runtime_type n q P ord c (traverse_delta t masks s) sk)
             (method_children (pg_methods P t))
             (s1\<lparr>r_traversed := (r_traversed s1)(t := r_traversed s t OR traverse_delta t masks s)\<rparr>)) (\<lambda>s2.
           case shape_children P t of
             None \<Rightarrow> Inl (UnsupportedShape t)
           | Some cs \<Rightarrow> fold_res (\<lambda>(c, sk). add_runtime_type n q P ord c (traverse_delta t masks s) sk) cs s2))"
  unfolding add_runtime_type.simps Let_def by presburger

lemma add_runtime_type_step:
  assumes l: "lawful P ord" and cl: "\<And>i. rules_closed P (D i)"
  shows "add_runtime_type n q P ord t masks skip s = Inr s' \<Longrightarrow> walk_inv P D s \<Longrightarrow>
    (\<And>i. bit masks i \<Longrightarrow> \<not> mentions (pg_form P) t \<Longrightarrow> D i (Traversed t) \<and> (\<not> skip \<longrightarrow> D i (RuntimeType t))) \<Longrightarrow>
    type_step P D s s' \<and> (\<forall>i. bit masks i \<longrightarrow> \<not> mentions (pg_form P) t \<longrightarrow>
      holds P s' i (Traversed t) \<and> (\<not> skip \<longrightarrow> holds P s' i (RuntimeType t)))"
proof (induction n arbitrary: t masks skip s s')
  case (Suc n)
  let ?acc = "if skip then 0 else masks AND NOT (r_runtime s t)"
  let ?trv = "masks AND NOT (r_traversed s t)"
  show ?case
  proof (cases "masks = 0 \<or> ?acc = 0 \<and> ?trv = 0")
    case True
    then have "s' = s" using Suc.prems(1) unfolding add_runtime_type_nothing [OF True] by simp
    moreover have "bit (r_traversed s t) i \<and> (\<not> skip \<longrightarrow> bit (r_runtime s t) i)" if "bit masks i" for i
      using True that by (cases "masks = 0") (auto simp: mask_zero [of "_ AND _"] split: if_splits)
    ultimately show ?thesis using Suc.prems(2) by (simp add: type_step_refl)
  next
    case False
    note run = Suc.prems(1) [unfolded add_runtime_type_descend [OF False]]
    then obtain stop where
      stop: "(if r_traversed s t = 0 then never_runtime P q t else Inr False) = Inr stop"
      unfolding bind_res_Inr_iff by blast
    have gate: "stop \<longleftrightarrow> mentions (pg_form P) t"
    proof (cases "r_traversed s t = 0")
      case True
      with stop never_runtime_exact show ?thesis by simp
    next
      case nz: False
      then obtain i where "bit (r_traversed s t) i" using mask_zero by blast
      then have "D i (Traversed t)" using walk_invD(1) [OF Suc.prems(2), of i "Traversed t"] by simp
      with rules_closedD(13) [OF cl] nz stop show ?thesis by auto
    qed
    show ?thesis
    proof (cases stop)
      case True
      with run have "s' = s" unfolding stop by simp
      with True gate Suc.prems(2) show ?thesis by (simp add: type_step_refl)
    next
      case go: False
      with gate have nm: "\<not> mentions (pg_form P) t" by simp
      let ?s1 = "if ?acc \<noteq> 0 then access_type P ord t ?acc s else s"
      let ?s2 = "?s1\<lparr>r_traversed := (r_traversed ?s1)(t := r_traversed s t OR ?trv)\<rparr>"
      have ja: "D i (RuntimeType t)" if "bit ?acc i" for i
        using that Suc.prems(3) [OF _ nm] by (auto split: if_splits)
      have w1: "walk_inv P D ?s1" "extends P s ?s1" "r_traversed ?s1 = r_traversed s"
        "r_runtime ?s1 = (r_runtime s)(t := r_runtime s t OR ?acc)"
        using access_type_step [OF Suc.prems(2) l cl ja] Suc.prems(2) by auto
      have ran: "holds P ?s1 i (RuntimeType u) \<longleftrightarrow> holds P s i (RuntimeType u) \<or> u = t \<and> \<not> skip \<and> bit masks i" for i u
        unfolding holds.simps w1(4) by (auto simp: bit_or_iff)
      have rest: "(if ?trv = 0 then Inr ?s1 else bind_res (fold_res (\<lambda>(c, sk). add_runtime_type n q P ord c ?trv sk)
          (method_children (pg_methods P t)) ?s2) (\<lambda>s2. case shape_children P t of None \<Rightarrow> Inl (UnsupportedShape t)
            | Some cs \<Rightarrow> fold_res (\<lambda>(c, sk). add_runtime_type n q P ord c ?trv sk) cs s2)) = Inr s'"
        using run go unfolding stop by (simp only: bind_res.simps Let_def if_False)
      show ?thesis
      proof (cases "?trv = 0")
        case True
        with rest have s': "s' = ?s1" by simp
        have tb: "bit (r_traversed s t) i" if "bit masks i" for i using True that by (auto simp: mask_zero)
        have "type_step P D s ?s1"
          unfolding type_step_def ran using w1(1,2) tb by (auto simp: w1(3))
        with tb show ?thesis unfolding s' ran by (auto simp: w1(3))
      next
        case tr: False
        have jt: "D i (Traversed t)" if "bit ?trv i" for i using that Suc.prems(3) [OF _ nm] by auto
        have w2: "walk_inv P D ?s2" using traversed_inv [OF w1(1), of ?trv t] jt w1(3) by simp
        have h2: "holds P ?s2 i x \<longleftrightarrow> holds P ?s1 i x \<or> x = Traversed t \<and> bit masks i" for i x
          by (cases x) (auto simp: bit_or_iff w1(3))
        have e2: "extends P s ?s2"
          by (rule extends_trans [OF w1(2)]) (rule table_extends, simp_all add: h2 del: holds.simps)
        let ?f = "\<lambda>(c, sk). add_runtime_type n q P ord c ?trv sk"
        let ?Q = "\<lambda>e s. \<forall>i. bit ?trv i \<longrightarrow> \<not> mentions (pg_form P) (fst e) \<longrightarrow>
            holds P s i (Traversed (fst e)) \<and> (\<not> snd e \<longrightarrow> holds P s i (RuntimeType (fst e)))"
        have call: "type_step P D s s' \<and> ?Q e s'"
          if "e \<in> set (rt_children P t)" "walk_inv P D s" "?f e s = Inr s'" for e s s'
        proof -
          obtain c sk where e: "e = (c, sk)" by (cases e)
          have d: "D i (Traversed c) \<and> (\<not> sk \<longrightarrow> D i (RuntimeType c))"
            if b: "bit ?trv i" and nc: "\<not> mentions (pg_form P) c" for i
          proof -
            from \<open>e \<in> set (rt_children P t)\<close> have c: "(c, sk) \<in> set (rt_children P t)" by (simp add: e)
            note j = jt [OF b]
            from rules_closedD(11) [OF cl j c nc] rules_closedD(12) [OF cl j _ nc] c show ?thesis by (cases sk) auto
          qed
          from that(3) have r: "add_runtime_type n q P ord c ?trv sk s = Inr s'" by (simp add: e)
          from Suc.IH [OF r that(2) d] show ?thesis unfolding e by simp
        qed
        from rest tr obtain s3 cs where s3: "fold_res ?f (method_children (pg_methods P t)) ?s2 = Inr s3"
          and cs: "shape_children P t = Some cs" "fold_res ?f cs s3 = Inr s'"
          by (auto simp: bind_res_Inr_iff split: option.splits)
        have sub: "set (rt_children P t) = set (method_children (pg_methods P t)) \<union> set cs"
          by (simp add: rt_children_def cs(1))
        have mono: "?Q x s'" if "?Q x s" "grows P s s'" for x s s' using that growsD by blast
        have st3: "type_step P D ?s2 s3 \<and> (\<forall>e\<in>set (method_children (pg_methods P t)). ?Q e s3)"
          by (rule fold_res_steps [OF _ _ w2 s3]) (use call sub mono in blast)+
        then have w3: "walk_inv P D s3" by (simp add: type_step_def)
        have st4: "type_step P D s3 s' \<and> (\<forall>e\<in>set cs. ?Q e s')"
          by (rule fold_res_steps [OF _ _ w3 cs(2)]) (use call sub mono in blast)+
        have q: "?Q e s'" if "e \<in> set (rt_children P t)" for e
          using that st3 st4 mono type_step_grows unfolding sub by blast
        have st: "type_step P D ?s2 s'" using st3 st4 type_step_trans by blast
        then have g: "grows P ?s2 s'" by (rule type_step_grows)
        have dn: "type_done P s' i t" if "bit ?trv i" for i
          unfolding type_done_def using q that cs(1) by blast
        have t': "holds P s' i (Traversed t) \<and> (\<not> skip \<longrightarrow> holds P s' i (RuntimeType t))" if "bit masks i" for i
          using growsD [OF g] h2 ran that by blast
        have "holds P s i (Traversed u) \<or> type_done P s' i u" if "holds P s' i (Traversed u)" for i u
        proof (cases "type_done P s' i u")
          case nd: False
          with st that have "holds P ?s2 i (Traversed u)" unfolding type_step_def by blast
          then have "holds P s i (Traversed u) \<or> u = t \<and> bit masks i" unfolding h2 by (auto simp: w1(3))
          with dn nd show ?thesis by (cases "bit (r_traversed s t) i") auto
        qed simp
        moreover have "holds P s i (RuntimeType u) \<or> holds P s' i (Traversed u)" if "holds P s' i (RuntimeType u)" for i u
        proof (cases "holds P s' i (Traversed u)")
          case nd: False
          with st that have "holds P ?s2 i (RuntimeType u)" unfolding type_step_def by blast
          then have "holds P s i (RuntimeType u) \<or> u = t \<and> bit masks i" unfolding h2 ran by blast
          with t' nd show ?thesis by blast
        qed simp
        moreover have "walk_inv P D s'" "extends P s s'"
          using st extends_trans [OF e2] unfolding type_step_def by blast+
        ultimately have "type_step P D s s'" unfolding type_step_def by blast
        with t' show ?thesis by blast
      qed
    qed
  qed
qed simp

section \<open>Visiting a body\<close>

text \<open>What an instruction of a reached function means for a subject.\<close>

fun instr_effect :: "rta_program \<Rightarrow> (rta_fact \<Rightarrow> bool) \<Rightarrow> instr \<Rightarrow> bool" where
  "instr_effect P H (Invoke c ops) = H (InvokeSite c)"
| "instr_effect P H (StaticCall c g ops) = H (Reach g)"
| "instr_effect P H (DynCall c ops) = H (DynSite c)"
| "instr_effect P H (MakeInterface t ops) = (\<not> mentions (pg_form P) t \<longrightarrow> H (RuntimeType t))"
| "instr_effect P H _ = True"

definition instr_done :: "rta_program \<Rightarrow> rta \<Rightarrow> nat \<Rightarrow> instr \<Rightarrow> bool" where
  "instr_done P s i x \<longleftrightarrow> instr_effect P (holds P s i) x
     \<and> (\<forall>g. Some g \<in> set (address_operands x) \<longrightarrow> holds P s i (AddrTaken g))"

lemma instr_effect_mono: "(\<And>x. H x \<Longrightarrow> H' x) \<Longrightarrow> instr_effect P H x \<Longrightarrow> instr_effect P H' x"
  by (cases x) auto

lemma instr_done_mono: "instr_done P s i x \<Longrightarrow> grows P s s' \<Longrightarrow> instr_done P s' i x"
  unfolding instr_done_def using instr_effect_mono [of "holds P s i" "holds P s' i"] growsD by blast

lemma visit_operands_step:
  assumes l: "lawful P ord" and cl: "\<And>i. rules_closed P (D i)"
  shows "walk_inv P D s \<Longrightarrow> (\<And>g i. Some g \<in> set ops \<Longrightarrow> bit m i \<Longrightarrow> D i (AddrTaken g)) \<Longrightarrow>
    plain_step P D s (visit_operands P ord m ops s)
    \<and> (\<forall>g i. Some g \<in> set ops \<longrightarrow> bit m i \<longrightarrow> holds P (visit_operands P ord m ops s) i (AddrTaken g))"
proof (induction ops arbitrary: s)
  case (Cons x ops)
  let ?s1 = "case x of None \<Rightarrow> s | Some g \<Rightarrow> visit_addr_taken P ord g m s"
  have s': "visit_operands P ord m (x # ops) s = visit_operands P ord m ops ?s1" by (simp add: visit_operands_def)
  have a: "plain_step P D s ?s1 \<and> (\<forall>g i. x = Some g \<longrightarrow> bit m i \<longrightarrow> holds P ?s1 i (AddrTaken g))"
  proof (cases x)
    case (Some g)
    with visit_addr_taken_step [OF Cons.prems(1) l cl] Cons.prems(2) show ?thesis by auto
  qed (use Cons.prems(1) in simp)
  then have w: "walk_inv P D ?s1" by (simp add: plain_step_def)
  have b: "plain_step P D ?s1 (visit_operands P ord m ops ?s1)
      \<and> (\<forall>g i. Some g \<in> set ops \<longrightarrow> bit m i \<longrightarrow> holds P (visit_operands P ord m ops ?s1) i (AddrTaken g))"
    by (rule Cons.IH [OF w]) (use Cons.prems(2) in auto)
  then have g: "grows P ?s1 (visit_operands P ord m ops ?s1)" by (simp add: plain_step_def extends_def)
  show ?case unfolding s'
  proof (intro conjI allI impI)
    show "plain_step P D s (visit_operands P ord m ops ?s1)" using a b plain_trans by blast
    show "holds P (visit_operands P ord m ops ?s1) i (AddrTaken f)" if "Some f \<in> set (x # ops)" "bit m i" for f i
    proof (cases "x = Some f")
      case True
      with a that(2) have "holds P ?s1 i (AddrTaken f)" by blast
      then show ?thesis by (rule growsD [OF g])
    next
      case False
      with b that show ?thesis unfolding list.set(2) by blast
    qed
  qed
qed (simp add: visit_operands_def)

lemma visit_instr_step:
  assumes l: "lawful P ord" and cl: "\<And>i. rules_closed P (D i)"
    and v: "visit_instr n P ord m x s = Inr s'" and w: "walk_inv P D s"
    and r: "\<And>i. bit m i \<Longrightarrow> D i (Reach f)" and x: "x \<in> set (pg_body P f)"
  shows "type_step P D s s' \<and> (\<forall>i. bit m i \<longrightarrow> instr_done P s' i x)"
proof -
  obtain s1 where s': "s' = visit_operands P ord m (address_operands x) s1"
    and s1: "type_step P D s s1" "\<forall>i. bit m i \<longrightarrow> instr_effect P (holds P s1 i) x"
  proof (cases x)
    case (Invoke c ops)
    have j: "D i (InvokeSite c)" if "bit m i" for i
      using rules_closedD(3) [OF cl r [OF that]] x unfolding Invoke by blast
    from visit_invoke_step [OF w l cl j] show thesis
      by (intro that [of "visit_invoke P ord c m s"]) (use v Invoke in \<open>auto intro: plain_type_step\<close>)
  next
    case (StaticCall c g ops)
    have j: "D i (Reach g)" if "bit m i" for i
      using rules_closedD(1) [OF cl r [OF that]] x unfolding StaticCall by blast
    have k: "D i (Reach h)" if "Some g = Some h" "bit m i" for i h using j that by simp
    note a = reachable_step [of P D s "Some g" m, OF w k]
    show thesis
    proof (rule that [of "add_reachable (Some g) m s"])
      show "type_step P D s (add_reachable (Some g) m s)" by (rule plain_type_step [OF a(1)])
      show "\<forall>i. bit m i \<longrightarrow> instr_effect P (holds P (add_reachable (Some g) m s) i) x"
        using a(2) unfolding StaticCall instr_effect.simps by blast
    qed (use v StaticCall in simp)
  next
    case (DynCall c ops)
    have j: "D i (DynSite c)" if "bit m i" for i
      using rules_closedD(2) [OF cl r [OF that]] x unfolding DynCall by blast
    from visit_dyn_call_step [OF w l cl j] show thesis
      by (intro that [of "visit_dyn_call P ord c m s"]) (use v DynCall in \<open>auto intro: plain_type_step\<close>)
  next
    case (MakeInterface t ops)
    with v obtain s1 where a: "add_runtime_type n n P ord t m False s = Inr s1"
      "s' = visit_operands P ord m (address_operands x) s1"
      by (auto simp: bind_res_Inr_iff)
    have j: "D i (RuntimeType t)" if "bit m i" "\<not> mentions (pg_form P) t" for i
      using rules_closedD(5) [OF cl r [OF that(1)]] x that(2) unfolding MakeInterface by blast
    have "D i (Traversed t) \<and> (\<not> False \<longrightarrow> D i (RuntimeType t))" if "bit m i" "\<not> mentions (pg_form P) t" for i
      using rules_closedD(10) [OF cl j [OF that]] j [OF that] by blast
    from add_runtime_type_step [OF l cl a(1) w this] show thesis
      by (intro that [OF a(2)]) (simp_all add: MakeInterface)
  qed (use v w in \<open>auto intro!: that type_step_refl\<close>)
  from s1(1) have w1: "walk_inv P D s1" by (simp add: type_step_def)
  have "plain_step P D s1 s' \<and> (\<forall>g i. Some g \<in> set (address_operands x) \<longrightarrow> bit m i \<longrightarrow> holds P s' i (AddrTaken g))"
    unfolding s' by (rule visit_operands_step [OF l cl w1]) (use rules_closedD(4) [OF cl r] x in blast)
  then have o: "type_step P D s1 s'" "grows P s1 s'"
    "\<forall>g i. Some g \<in> set (address_operands x) \<longrightarrow> bit m i \<longrightarrow> holds P s' i (AddrTaken g)"
    using plain_type_step type_step_grows by blast+
  have "instr_effect P (holds P s' i) x" if "bit m i" for i
    by (rule instr_effect_mono [of "holds P s1 i"]) (use growsD [OF o(2)] s1(2) that in auto)
  with o type_step_trans [OF s1(1) o(1)] show ?thesis unfolding instr_done_def by blast
qed

definition body_done :: "rta_program \<Rightarrow> rta \<Rightarrow> nat \<Rightarrow> fn \<Rightarrow> bool" where
  "body_done P s i f \<longleftrightarrow> (\<forall>x\<in>set (pg_body P f). instr_done P s i x)"

lemma body_done_mono: "body_done P s i f \<Longrightarrow> grows P s s' \<Longrightarrow> body_done P s' i f"
  unfolding body_done_def using instr_done_mono by blast

lemma visit_func_step:
  assumes "lawful P ord" "\<And>i. rules_closed P (D i)" "visit_func n P ord f m s = Inr s'" "walk_inv P D s"
    and "\<And>i. bit m i \<Longrightarrow> D i (Reach f)"
  shows "type_step P D s s' \<and> (\<forall>i. bit m i \<longrightarrow> body_done P s' i f)"
proof -
  let ?Q = "\<lambda>x s. \<forall>i. bit m i \<longrightarrow> instr_done P s i x"
  have "type_step P D s s' \<and> (\<forall>x\<in>set (pg_body P f). ?Q x s')"
  proof (rule fold_res_steps [OF _ _ assms(4)])
    show "fold_res (visit_instr n P ord m) (pg_body P f) s = Inr s'" using assms(3) by (simp add: visit_func_def)
    show "type_step P D s s' \<and> ?Q x s'" if "x \<in> set (pg_body P f)" "walk_inv P D s" "visit_instr n P ord m x s = Inr s'"
      for x s s' using visit_instr_step [OF assms(1,2) that(3,2) assms(5) that(1)] by blast
    show "?Q x s'" if "?Q x s" "grows P s s'" for x s s' using that instr_done_mono by blast
  qed
  then show ?thesis unfolding body_done_def by blast
qed

section \<open>The worklist loop\<close>

text \<open>
  The invariant of the loop: the walk's, every type reached is closed, and the body of every
  function is done for each subject that reached it, except what is pending; a function with
  something pending is queued.
\<close>

definition loop_inv :: "rta_program \<Rightarrow> (nat \<Rightarrow> rta_fact \<Rightarrow> bool) \<Rightarrow> fn list \<Rightarrow> rta \<Rightarrow> bool" where
  "loop_inv P D shadow s \<longleftrightarrow> walk_inv P D s
     \<and> (\<forall>i t. holds P s i (Traversed t) \<longrightarrow> type_done P s i t)
     \<and> (\<forall>i t. holds P s i (RuntimeType t) \<longrightarrow> holds P s i (Traversed t))
     \<and> (\<forall>i f. holds P s i (Reach f) \<longrightarrow> bit (r_pending s f) i \<or> body_done P s i f)
     \<and> (\<forall>i f. bit (r_pending s f) i \<longrightarrow> holds P s i (Reach f) \<and> r_queued s f)
     \<and> (\<forall>f. r_queued s f \<longrightarrow> f \<in> set shadow \<union> set (r_worklist s))"

lemma loop_invD:
  assumes "loop_inv P D shadow s"
  shows "walk_inv P D s" "holds P s i (Traversed t) \<Longrightarrow> type_done P s i t"
    "holds P s i (RuntimeType t) \<Longrightarrow> holds P s i (Traversed t)"
    "holds P s i (Reach f) \<Longrightarrow> bit (r_pending s f) i \<or> body_done P s i f"
    "bit (r_pending s f) i \<Longrightarrow> holds P s i (Reach f) \<and> r_queued s f"
    "r_queued s f \<Longrightarrow> f \<in> set shadow \<union> set (r_worklist s)"
  using assms unfolding loop_inv_def by blast+

text \<open>A type step keeps the invariant: what it reaches anew it also queues.\<close>

lemma loop_inv_step:
  assumes inv: "loop_inv P D shadow s" and st: "type_step P D s s'"
  shows "loop_inv P D shadow s'"
proof -
  note I = loop_invD [OF inv] and g = type_step_grows [OF st]
  from st have e: "enqueues s s'" by (simp add: type_step_def extends_def)
  then have pend: "bit (r_pending s' f) i \<longleftrightarrow> bit (r_pending s f) i \<or> bit (r_reach s' f) i \<and> \<not> bit (r_reach s f) i" for f i
    unfolding enqueues_def by blast
  from e obtain new where new: "r_worklist s' = r_worklist s @ new" "\<And>f. r_queued s' f \<longleftrightarrow> r_queued s f \<or> f \<in> set new"
    unfolding enqueues_def by blast
  from e have q: "r_queued s' f" if "bit (r_reach s' f) i" "\<not> bit (r_reach s f) i" for f i
    using that unfolding enqueues_def by metis
  have "type_done P s' i t" if "holds P s' i (Traversed t)" for i t
    using st that I(2) type_done_mono [OF _ g] unfolding type_step_def by blast
  moreover have "holds P s' i (Traversed t)" if "holds P s' i (RuntimeType t)" for i t
    using st that I(3) growsD [OF g] unfolding type_step_def by blast
  moreover have "bit (r_pending s' f) i \<or> body_done P s' i f" if "holds P s' i (Reach f)" for i f
    using that I(4) [of i f] body_done_mono [OF _ g] unfolding pend holds.simps by blast
  moreover have "holds P s' i (Reach f) \<and> r_queued s' f" if "bit (r_pending s' f) i" for i f
    using that I(5) [of f i] q growsD [OF g, of i "Reach f"] new(2) unfolding pend holds.simps by blast
  moreover have "f \<in> set shadow \<union> set (r_worklist s')" if "r_queued s' f" for f
    using that I(6) [of f] new by auto
  ultimately show ?thesis using st unfolding loop_inv_def type_step_def by blast
qed

text \<open>Taking a function off the shadow list and visiting it with all that was pending.\<close>

abbreviation popped :: "fn \<Rightarrow> rta \<Rightarrow> rta" where
  "popped f s \<equiv> s\<lparr>r_queued := (r_queued s)(f := False), r_pending := (r_pending s)(f := 0)\<rparr>"

lemma popped_holds [simp]: "holds P (popped f s) i x = holds P s i x"
  by (cases x) simp_all

lemma same_facts_inv:
  assumes "walk_inv P D s" "\<And>i x. holds P s' i x = holds P s i x" "r_targets s' = r_targets s"
    "r_resolved s' = r_resolved s" "same_tables s s'"
  shows "walk_inv P D s'"
proof -
  have "holds P s' i = holds P s i" for i using assms(2) by blast
  with assms show ?thesis
    unfolding walk_inv_def sound_def edges_made_def resolved_union_def tables_ok_def same_tables_def
      implements_ok_def types_known_def by simp
qed

lemma visit_popped:
  assumes l: "lawful P ord" and cl: "\<And>i. rules_closed P (D i)" and inv: "loop_inv P D (f # fs) s"
    and v: "visit_func n P ord f (r_pending s f) (popped f s) = Inr s'"
  shows "loop_inv P D fs s' \<and> grows P s s' \<and> type_step P D (popped f s) s'"
proof -
  note I = loop_invD [OF inv]
  have w: "walk_inv P D (popped f s)"
    by (rule same_facts_inv [OF I(1)]) (simp_all add: same_tables_def)
  have "D i (Reach f)" if "bit (r_pending s f) i" for i
    using I(5) [OF that] walk_invD(1) [OF I(1)] by blast
  from visit_func_step [OF l cl v w this]
  have st: "type_step P D (popped f s) s'" and d: "\<And>i. bit (r_pending s f) i \<Longrightarrow> body_done P s' i f" by blast+
  note g0 = type_step_grows [OF st]
  then have g: "grows P s s'" unfolding grows_def popped_holds by simp
  from st have e: "enqueues (popped f s) s'" by (simp add: type_step_def extends_def)
  then have pend: "bit (r_pending s' h) i \<longleftrightarrow> h \<noteq> f \<and> bit (r_pending s h) i \<or> bit (r_reach s' h) i \<and> \<not> bit (r_reach s h) i" for h i
    unfolding enqueues_def by (auto split: if_splits)
  from e obtain new where new: "r_worklist s' = r_worklist s @ new"
    "\<And>h. r_queued s' h \<longleftrightarrow> h \<noteq> f \<and> r_queued s h \<or> h \<in> set new"
    unfolding enqueues_def by (auto split: if_splits)
  from e have q: "r_queued s' h" if "bit (r_reach s' h) i" "\<not> bit (r_reach s h) i" for h i
    using that unfolding enqueues_def by (metis popped_holds holds.simps(1))
  have td: "type_done P s' i t" if "holds P s i (Traversed t)" for i t
    using I(2) [OF that] type_done_mono [OF _ g] by blast
  have "type_done P s' i t" if "holds P s' i (Traversed t)" for i t
    using st that td unfolding type_step_def popped_holds by blast
  moreover have "holds P s' i (Traversed t)" if "holds P s' i (RuntimeType t)" for i t
    using st that I(3) growsD [OF g] unfolding type_step_def popped_holds by blast
  moreover have "bit (r_pending s' h) i \<or> body_done P s' i h" if "holds P s' i (Reach h)" for i h
    using that I(4) [of i h] body_done_mono [OF _ g] d unfolding pend holds.simps by blast
  moreover have "holds P s' i (Reach h) \<and> r_queued s' h" if "bit (r_pending s' h) i" for i h
    using that I(5) [of h i] q growsD [OF g, of i "Reach h"] new(2) unfolding pend holds.simps by blast
  moreover have "h \<in> set fs \<union> set (r_worklist s')" if "r_queued s' h" for h
    using that I(6) [of h] new by auto
  moreover have "walk_inv P D s'" using st by (simp add: type_step_def)
  ultimately have "loop_inv P D fs s'" unfolding loop_inv_def by blast
  with g st show ?thesis by blast
qed

lemma visit_shadow_step:
  assumes l: "lawful P ord" and cl: "\<And>i. rules_closed P (D i)"
  shows "visit_shadow n P ord cx k fs s = Inr (k', s') \<Longrightarrow> loop_inv P D fs s \<Longrightarrow> loop_inv P D [] s' \<and> grows P s s'"
proof (induction fs arbitrary: k s)
  case (Cons f fs)
  then obtain s1 where s1: "visit_func n P ord f (r_pending s f) (popped f s) = Inr s1"
    "visit_shadow n P ord cx (Suc k) fs s1 = Inr (k', s')"
    by (auto simp: bind_res_Inr_iff split: option.splits)
  from visit_popped [OF l cl Cons.prems(2) s1(1)] have a: "loop_inv P D fs s1" "grows P s s1" by blast+
  from Cons.IH [OF s1(2) a(1)] a(2) show ?case by (blast intro: grows_trans)
qed simp

lemma shadow_start: "loop_inv P D [] s \<Longrightarrow> loop_inv P D (r_worklist s) (s\<lparr>r_worklist := []\<rparr>) \<and> grows P s (s\<lparr>r_worklist := []\<rparr>)"
proof -
  assume inv: "loop_inv P D [] s"
  let ?s = "s\<lparr>r_worklist := []\<rparr>"
  have h: "holds P ?s i x = holds P s i x" for i x by (cases x) simp_all
  then have H: "holds P ?s i = holds P s i" for i by blast
  have "walk_inv P D ?s"
    by (rule same_facts_inv [OF loop_invD(1) [OF inv]]) (simp_all add: h same_tables_def)
  with inv show ?thesis
    unfolding loop_inv_def type_done_def body_done_def instr_done_def grows_def H by simp
qed

lemma rta_loop_step:
  assumes l: "lawful P ord" and cl: "\<And>i. rules_closed P (D i)"
  shows "rta_loop m n P ord cx k s = Inr s' \<Longrightarrow> loop_inv P D [] s \<Longrightarrow>
    loop_inv P D [] s' \<and> grows P s s' \<and> r_worklist s' = []"
proof (induction m arbitrary: k s)
  case (Suc m)
  show ?case
  proof (cases "r_worklist s = []")
    case True
    with Suc.prems show ?thesis by simp
  next
    case False
    with Suc.prems(1) obtain k1 s1 where s1: "visit_shadow n P ord cx (Suc k) (r_worklist s) (s\<lparr>r_worklist := []\<rparr>) = Inr (k1, s1)"
      "rta_loop m n P ord cx k1 s1 = Inr s'"
      by (auto simp: bind_res_Inr_iff split: option.splits)
    from shadow_start [OF Suc.prems(2)] have a: "loop_inv P D (r_worklist s) (s\<lparr>r_worklist := []\<rparr>)"
      "grows P s (s\<lparr>r_worklist := []\<rparr>)" by blast+
    from visit_shadow_step [OF l cl s1(1) a(1)] have b: "loop_inv P D [] s1" "grows P (s\<lparr>r_worklist := []\<rparr>) s1" by blast+
    from Suc.IH [OF s1(2) b(1)] grows_trans [OF a(2) b(2)] show ?thesis by (blast intro: grows_trans)
  qed
qed (auto split: if_splits)

end
