(* ===== verification/Rta_Result.thy ===== *)
theory Rta_Result
  imports Rta_Walk
begin

text \<open>
  What the attributed analysis answers (internal/closure/internal/rta/rta.go, Analyze): the
  reachable functions and the call edges of each subject are exactly those of an analysis of
  that subject alone, in any iteration order and any batch, and on a finite program the
  recursive descent and the worklist both end.
\<close>

section \<open>The answer is exact\<close>

lemma empty_inv: "loop_inv P D [] empty_rta"
proof -
  have h: "holds P empty_rta i x = False" for i x by (cases x) (simp_all add: empty_rta_def mask_of_def)
  have "walk_inv P D empty_rta"
    unfolding walk_inv_def sound_def edges_made_def subject_edge_def h
    by (simp add: empty_rta_def resolved_union_def tables_ok_def keyed_def implements_ok_def types_known_def)
  then show ?thesis unfolding loop_inv_def h by (simp add: empty_rta_def)
qed

text \<open>Once nothing is queued, the facts held are closed under the rules.\<close>

lemma nothing_pending:
  assumes "loop_inv P D [] s" "r_worklist s = []"
  shows "\<not> bit (r_pending s f) i"
  using loop_invD(5,6) [OF assms(1), of f] assms(2) by auto

lemma held_of_derived:
  assumes inv: "loop_inv P D [] s" and e: "r_worklist s = []"
    and R: "\<And>f. f \<in> R \<Longrightarrow> holds P s i (Reach f)" and A: "\<And>f. f \<in> A \<Longrightarrow> holds P s i (AddrTaken f)"
    and T: "\<And>t. t \<in> T \<Longrightarrow> \<not> mentions (pg_form P) t \<Longrightarrow> holds P s i (RuntimeType t)"
  shows "derives P R A T x \<Longrightarrow> holds P s i x"
proof (induction rule: derives.induct)
  case (root f)
  then show ?case by (rule R)
next
  case (seeded f)
  then show ?case by (rule A)
next
  case (seeded_type t)
  then show ?case by (rule T)
next
  case (static f c g ops)
  with loop_invD(4) [OF inv] nothing_pending [OF inv e] have "instr_done P s i (StaticCall c g ops)"
    unfolding body_done_def by blast
  then show ?case by (simp add: instr_done_def)
next
  case (dynamic f c ops)
  with loop_invD(4) [OF inv] nothing_pending [OF inv e] have "instr_done P s i (DynCall c ops)"
    unfolding body_done_def by blast
  then show ?case by (simp add: instr_done_def)
next
  case (invoked f c ops)
  with loop_invD(4) [OF inv] nothing_pending [OF inv e] have "instr_done P s i (Invoke c ops)"
    unfolding body_done_def by blast
  then show ?case by (simp add: instr_done_def)
next
  case (operand f x g)
  with loop_invD(4) [OF inv] nothing_pending [OF inv e] have "instr_done P s i x"
    unfolding body_done_def by blast
  with operand show ?case unfolding instr_done_def by blast
next
  case (made f t ops)
  with loop_invD(4) [OF inv] nothing_pending [OF inv e] have "instr_done P s i (MakeInterface t ops)"
    unfolding body_done_def by blast
  with made show ?case by (simp add: instr_done_def)
next
  case (dyn_call c g)
  then have "subject_edge P (holds P s i) c g" unfolding subject_edge_def by blast
  with walk_invD(5) [OF loop_invD(1) [OF inv]] show ?case by blast
next
  case (reflected g)
  with walk_invD(6) [OF loop_invD(1) [OF inv]] show ?case by blast
next
  case (exported t m g)
  with walk_invD(7) [OF loop_invD(1) [OF inv]] show ?case by blast
next
  case (invoke_call c t g)
  then have "subject_edge P (holds P s i) c g" unfolding subject_edge_def by blast
  with walk_invD(5) [OF loop_invD(1) [OF inv]] show ?case by blast
next
  case (traverse t)
  with loop_invD(3) [OF inv] show ?case by blast
next
  case (child t c sk)
  with loop_invD(2) [OF inv] show ?case unfolding type_done_def by force
next
  case (child_type t c)
  with loop_invD(2) [OF inv] show ?case unfolding type_done_def by force
qed

abbreviation seeded_fns :: "rta_seeds option \<Rightarrow> (fn \<times> mask) list" where
  "seeded_fns seeds \<equiv> (case seeds of None \<Rightarrow> [] | Some sd \<Rightarrow> seed_addr sd)"

abbreviation seeded_types :: "rta_seeds option \<Rightarrow> (ty \<times> mask) list" where
  "seeded_types seeds \<equiv> (case seeds of None \<Rightarrow> [] | Some sd \<Rightarrow> seed_types sd)"

lemma subject_derives_seeds:
  "subject_derives P roots seeds i = derives P (owned roots i) (owned (seeded_fns seeds) i) (owned (seeded_types seeds) i)"
  by (simp add: subject_derives_def owned_def split: option.split)

lemma apply_seeds_folds:
  "apply_seeds n P ord seeds s = fold_res (\<lambda>(t, m) s. if m \<noteq> 0 then add_runtime_type n n P ord t m False s else Inr s)
     (seeded_types seeds) (fold (\<lambda>(f, m) s. if m \<noteq> 0 then visit_addr_taken P ord f m s else s) (seeded_fns seeds) s)"
  by (simp add: apply_seeds_def split: option.split)

lemma fold_plain_posts:
  assumes "\<And>x s. x \<in> set xs \<Longrightarrow> walk_inv P D s \<Longrightarrow> plain_step P D s (f x s) \<and> Q x (f x s)"
    and "\<And>x s s'. Q x s \<Longrightarrow> grows P s s' \<Longrightarrow> Q x s'"
  shows "walk_inv P D s \<Longrightarrow> plain_step P D s (fold f xs s) \<and> (\<forall>x\<in>set xs. Q x (fold f xs s))"
  using assms(1)
proof (induction xs arbitrary: s)
  case (Cons x xs)
  have a: "plain_step P D s (f x s)" "Q x (f x s)" using Cons.prems by auto
  then have w: "walk_inv P D (f x s)" by (simp add: plain_step_def)
  have b: "plain_step P D (f x s) (fold f xs (f x s)) \<and> (\<forall>y\<in>set xs. Q y (fold f xs (f x s)))"
    by (rule Cons.IH [OF w]) (use Cons.prems(2) in auto)
  then have "grows P (f x s) (fold f xs (f x s))" by (simp add: plain_step_def extends_def)
  with a b plain_trans assms(2) show ?case by fastforce
qed simp

text \<open>Seeding and rooting hold what they are given.\<close>

lemma seeds_step:
  assumes l: "lawful P ord" and r: "apply_seeds n P ord seeds empty_rta = Inr s"
    and D: "D = subject_derives P roots seeds"
  shows "type_step P D empty_rta s \<and> (\<forall>i. \<forall>f\<in>owned (seeded_fns seeds) i. holds P s i (AddrTaken f))
    \<and> (\<forall>i. \<forall>t\<in>owned (seeded_types seeds) i. \<not> mentions (pg_form P) t \<longrightarrow> holds P s i (RuntimeType t))"
proof -
  have cl: "rules_closed P (D i)" for i unfolding D subject_derives_seeds by (rule derives_rules_closed)
  let ?f = "\<lambda>(f, m) s. if m \<noteq> 0 then visit_addr_taken P ord f m s else s"
  let ?s1 = "fold ?f (seeded_fns seeds) empty_rta"
  let ?g = "\<lambda>(t, m) s. if m \<noteq> 0 then add_runtime_type n n P ord t m False s else Inr s"
  let ?Q = "\<lambda>x s. \<forall>i. bit (snd x) i \<longrightarrow> holds P s i (AddrTaken (fst x))"
  let ?R = "\<lambda>x s. \<forall>i. bit (snd x) i \<longrightarrow> \<not> mentions (pg_form P) (fst x) \<longrightarrow> holds P s i (RuntimeType (fst x))"
  have w0: "walk_inv P D empty_rta" by (rule loop_invD(1) [OF empty_inv])
  have a: "plain_step P D empty_rta ?s1 \<and> (\<forall>x\<in>set (seeded_fns seeds). ?Q x ?s1)"
  proof (rule fold_plain_posts [OF _ _ w0])
    show "plain_step P D s (?f x s) \<and> ?Q x (?f x s)" if "x \<in> set (seeded_fns seeds)" "walk_inv P D s" for x s
    proof -
      obtain f m where x: "x = (f, m)" by (cases x)
      have "D i (AddrTaken f)" if "bit m i" for i
        unfolding D subject_derives_seeds
        by (rule derives.seeded) (use that \<open>x \<in> _\<close> x in \<open>auto simp: owned_def\<close>)
      from visit_addr_taken_step [OF that(2) l cl this] that(2) show ?thesis unfolding x by (auto simp: mask_zero)
    qed
    show "?Q x s'" if "?Q x s" "grows P s s'" for x s s' using that growsD by blast
  qed
  then have w1: "walk_inv P D ?s1" by (simp add: plain_step_def)
  have b: "type_step P D ?s1 s \<and> (\<forall>x\<in>set (seeded_types seeds). ?R x s)"
  proof (rule fold_res_steps [OF _ _ w1])
    show "fold_res ?g (seeded_types seeds) ?s1 = Inr s" using r by (simp add: apply_seeds_folds)
    show "?R x s'" if "?R x s" "grows P s s'" for x s s' using that growsD by blast
    show "type_step P D s s' \<and> ?R x s'" if "x \<in> set (seeded_types seeds)" "walk_inv P D s" "?g x s = Inr s'" for x s s'
    proof -
      obtain t m where x: "x = (t, m)" by (cases x)
      have j: "D i (RuntimeType t)" if "bit m i" "\<not> mentions (pg_form P) t" for i
        unfolding D subject_derives_seeds
        by (rule derives.seeded_type) (use that \<open>x \<in> _\<close> x in \<open>auto simp: owned_def\<close>)
      have jj: "D i (Traversed t) \<and> (\<not> False \<longrightarrow> D i (RuntimeType t))" if "bit m i" "\<not> mentions (pg_form P) t" for i
        using rules_closedD(10) [OF cl j [OF that]] j [OF that] by blast
      show ?thesis
      proof (cases "m = 0")
        case True
        with that(2,3) show ?thesis unfolding x by (simp add: type_step_refl)
      next
        case False
        with that(3) have "add_runtime_type n n P ord t m False s = Inr s'" by (simp add: x)
        from add_runtime_type_step [OF l cl this that(2) jj] show ?thesis unfolding x by simp
      qed
    qed
  qed
  then have g: "grows P ?s1 s" using type_step_grows by blast
  have "type_step P D empty_rta s" using a b plain_type_step type_step_trans by blast
  moreover have "holds P s i (AddrTaken f)" if "f \<in> owned (seeded_fns seeds) i" for i f
    using that a growsD [OF g] unfolding owned_def by fastforce
  moreover have "holds P s i (RuntimeType t)"
    if "t \<in> owned (seeded_types seeds) i" "\<not> mentions (pg_form P) t" for i t
    using that b unfolding owned_def by fastforce
  ultimately show ?thesis by blast
qed

lemma roots_step:
  assumes w: "walk_inv P D s" and D: "D = subject_derives P roots seeds"
  shows "plain_step P D s (fold (\<lambda>(f, m) s. add_reachable (Some f) m s) roots s)
    \<and> (\<forall>i. \<forall>f\<in>owned roots i. holds P (fold (\<lambda>(f, m) s. add_reachable (Some f) m s) roots s) i (Reach f))"
proof -
  let ?f = "\<lambda>(f, m) s. add_reachable (Some f) m s"
  let ?Q = "\<lambda>x s. \<forall>i. bit (snd x) i \<longrightarrow> holds P s i (Reach (fst x))"
  have "plain_step P D s (fold ?f roots s) \<and> (\<forall>x\<in>set roots. ?Q x (fold ?f roots s))"
  proof (rule fold_plain_posts [OF _ _ w])
    show "?Q x s'" if "?Q x s" "grows P s s'" for x s s' using that growsD by blast
    show "plain_step P D s (?f x s) \<and> ?Q x (?f x s)" if "x \<in> set roots" "walk_inv P D s" for x s
    proof -
      obtain f m where x: "x = (f, m)" by (cases x)
      have "D i (Reach g)" if "Some f = Some g" "bit m i" for i g
        unfolding D subject_derives_seeds
        by (rule derives.root) (use that \<open>x \<in> _\<close> x in \<open>auto simp: owned_def\<close>)
      from reachable_step [of P D s "Some f" m, OF that(2) this] show ?thesis unfolding x by auto
    qed
  qed
  then show ?thesis unfolding owned_def by fastforce
qed

lemma analyze_cases:
  assumes "rta_analyze n P ord ctx roots seeds = Inr (Some s)"
  obtains cx s0 where "ctx = Some cx" "apply_seeds n P ord seeds empty_rta = Inr s0"
    "rta_loop n n P ord cx 1 (fold (\<lambda>(f, m) s. add_reachable (Some f) m s) roots s0) = Inr s"
  using assms unfolding rta_analyze_def
  by (auto simp: bind_res_Inr_iff split: option.splits if_splits)

lemma analysis_exact:
  assumes l: "lawful P ord" and r: "rta_analyze n P ord ctx roots seeds = Inr (Some s)"
  shows "holds P s i x \<longleftrightarrow> subject_derives P roots seeds i x"
    "bit (r_targets s c g) i \<longleftrightarrow> subject_edge P (subject_derives P roots seeds i) c g"
    "bit (r_resolved s c) i \<longleftrightarrow> (\<exists>g. bit (r_targets s c g) i)"
proof -
  define D where "D = subject_derives P roots seeds"
  have cl: "rules_closed P (D i)" for i unfolding D_def subject_derives_seeds by (rule derives_rules_closed)
  from r obtain cx s0 where s0: "apply_seeds n P ord seeds empty_rta = Inr s0"
    and lp: "rta_loop n n P ord cx 1 (fold (\<lambda>(f, m) s. add_reachable (Some f) m s) roots s0) = Inr s"
    by (rule analyze_cases)
  let ?s1 = "fold (\<lambda>(f, m) s. add_reachable (Some f) m s) roots s0"
  note sd = seeds_step [OF l s0 D_def]
  then have i0: "loop_inv P D [] s0" using loop_inv_step [OF empty_inv] by blast
  note rt = roots_step [OF loop_invD(1) [OF i0] D_def]
  then have i1: "loop_inv P D [] ?s1" using loop_inv_step [OF i0] plain_type_step by blast
  have g1: "grows P s0 ?s1" using rt by (simp add: plain_step_def extends_def)
  from rta_loop_step [OF l cl lp i1] have f: "loop_inv P D [] s" "grows P ?s1 s" "r_worklist s = []" by blast+
  note g = grows_trans [OF g1 f(2)]
  have d: "holds P s i x" if "D i x" for i x
  proof (rule held_of_derived [OF f(1,3)])
    show "derives P (owned roots i) (owned (seeded_fns seeds) i) (owned (seeded_types seeds) i) x"
      using that by (simp add: D_def subject_derives_seeds)
    show "holds P s i (Reach h)" if "h \<in> owned roots i" for h using rt that growsD [OF f(2)] by blast
    show "holds P s i (AddrTaken h)" if "h \<in> owned (seeded_fns seeds) i" for h using sd that growsD [OF g] by blast
    show "holds P s i (RuntimeType t)" if "t \<in> owned (seeded_types seeds) i" "\<not> mentions (pg_form P) t" for t
      using sd that growsD [OF g] by blast
  qed
  note W = walk_invD [OF loop_invD(1) [OF f(1)]]
  have eq: "holds P s i = D i" for i using d W(1) by blast
  show "holds P s i x \<longleftrightarrow> subject_derives P roots seeds i x" using eq by (simp add: D_def)
  show "bit (r_targets s c g) i \<longleftrightarrow> subject_edge P (subject_derives P roots seeds i) c g"
    using W(2) [of c g i] W(5) [of i c g] unfolding eq D_def by blast
  show "bit (r_resolved s c) i \<longleftrightarrow> (\<exists>g. bit (r_targets s c g) i)"
    using W(4) unfolding resolved_union_def by blast
qed

section \<open>Termination\<close>

text \<open>The functions and types a finite program gives the walk.\<close>

definition instr_within :: "fn set \<Rightarrow> ty set \<Rightarrow> instr \<Rightarrow> bool" where
  "instr_within F U x \<longleftrightarrow> (\<forall>g. Some g \<in> set (address_operands x) \<longrightarrow> g \<in> F)
     \<and> (case x of StaticCall c g ops \<Rightarrow> g \<in> F | MakeInterface t ops \<Rightarrow> t \<in> U | _ \<Rightarrow> True)"

definition program_within :: "rta_program \<Rightarrow> fn set \<Rightarrow> ty set \<Rightarrow> bool" where
  "program_within P F U \<longleftrightarrow> finite F \<and> types_closed (pg_form P) U
     \<and> (\<forall>f\<in>F. \<forall>x\<in>set (pg_body P f). instr_within F U x)
     \<and> (\<forall>t\<in>U. fst ` set (rt_children P t) \<subseteq> U \<and> (\<not> mentions (pg_form P) t \<longrightarrow> shape_children P t \<noteq> None)
          \<and> (\<forall>m\<in>set (pg_methods P t). \<forall>g. ms_value m = Some g \<longrightarrow> g \<in> F)
          \<and> (\<forall>c g. pg_lookup P t c = Some g \<longrightarrow> g \<in> F))"

fun fact_within :: "fn set \<Rightarrow> ty set \<Rightarrow> rta_fact \<Rightarrow> bool" where
  "fact_within F U (Reach f) = (f \<in> F)"
| "fact_within F U (AddrTaken f) = (f \<in> F)"
| "fact_within F U (RuntimeType t) = (t \<in> U)"
| "fact_within F U (Traversed t) = (t \<in> U)"
| "fact_within F U _ = True"

lemma program_withinD:
  assumes "program_within P F U"
  shows "f \<in> F \<Longrightarrow> x \<in> set (pg_body P f) \<Longrightarrow> instr_within F U x"
    "t \<in> U \<Longrightarrow> (c, sk) \<in> set (rt_children P t) \<Longrightarrow> c \<in> U"
    "t \<in> U \<Longrightarrow> m \<in> set (pg_methods P t) \<Longrightarrow> ms_value m = Some g \<Longrightarrow> g \<in> F"
    "t \<in> U \<Longrightarrow> pg_lookup P t s = Some g \<Longrightarrow> g \<in> F"
proof -
  note a = assms [unfolded program_within_def]
  show "instr_within F U x" if "f \<in> F" "x \<in> set (pg_body P f)"
    using conjunct1 [OF conjunct2 [OF conjunct2 [OF a]]] that by blast
  note b = bspec [OF conjunct2 [OF conjunct2 [OF conjunct2 [OF a]]]]
  show "c \<in> U" if "t \<in> U" "(c, sk) \<in> set (rt_children P t)"
    using conjunct1 [OF b [OF that(1)]] imageI [OF that(2), of fst] by (metis fst_conv subsetD)
  show "g \<in> F" if "t \<in> U" "m \<in> set (pg_methods P t)" "ms_value m = Some g"
    using conjunct1 [OF conjunct2 [OF conjunct2 [OF b [OF that(1)]]]] that(2,3) by blast
  show "g \<in> F" if "t \<in> U" "pg_lookup P t s = Some g"
    using conjunct2 [OF conjunct2 [OF conjunct2 [OF b [OF that(1)]]]] that(2) by blast
qed

lemma derives_within:
  assumes p: "program_within P F U" and R: "R \<subseteq> F" and A: "A \<subseteq> F" and T: "T \<subseteq> U"
  shows "derives P R A T x \<Longrightarrow> fact_within F U x"
proof (induction rule: derives.induct)
  case (static f c g ops)
  with program_withinD(1) [OF p, of f "StaticCall c g ops"] show ?case by (simp add: instr_within_def)
next
  case (operand f x g)
  with program_withinD(1) [OF p, of f x] show ?case by (simp add: instr_within_def)
next
  case (made f t ops)
  with program_withinD(1) [OF p, of f "MakeInterface t ops"] show ?case by (simp add: instr_within_def)
next
  case (exported t m g)
  with program_withinD(3) [OF p, of t m g] show ?case by simp
next
  case (invoke_call c t g)
  with program_withinD(4) [OF p, of t c g] show ?case by simp
next
  case (child t c sk)
  with program_withinD(2) [OF p, of t c sk] show ?case by simp
next
  case (child_type t c)
  with program_withinD(2) [OF p, of t c False] show ?case by simp
next
  case (root f)
  with R show ?case by auto
next
  case (seeded f)
  with A show ?case by auto
next
  case (seeded_type t)
  with T show ?case by auto
qed simp_all

lemma fold_res_returns:
  assumes "\<And>x s. x \<in> set xs \<Longrightarrow> J s \<Longrightarrow> \<exists>s'. f x s = Inr s' \<and> J s'"
  shows "J s \<Longrightarrow> \<exists>s'. fold_res f xs s = Inr s' \<and> J s'"
  using assms
proof (induction xs arbitrary: s)
  case (Cons x xs)
  from Cons.prems(2) [of x s] Cons.prems(1) obtain s1 where s1: "f x s = Inr s1" "J s1" by auto
  from Cons.IH [OF s1(2)] Cons.prems(2) s1(1) show ?case by auto
qed simp

definition missing :: "ty set \<Rightarrow> rta \<Rightarrow> (ty \<times> nat) set" where
  "missing U s = {(t, i). t \<in> U \<and> i < 64 \<and> \<not> bit (r_traversed s t) i}"

lemma finite_missing: "finite U \<Longrightarrow> finite (missing U s)"
  by (rule finite_subset [of _ "U \<times> {..<64}"]) (auto simp: missing_def)

lemma card_missing: "finite U \<Longrightarrow> card (missing U s) \<le> 64 * card U"
proof -
  assume f: "finite U"
  then have "card (missing U s) \<le> card (U \<times> {..<64::nat})"
    by (intro card_mono) (auto simp: missing_def)
  also have "\<dots> = 64 * card U" by (simp add: card_cartesian_product)
  finally show ?thesis .
qed

lemma missing_grows: "grows P s s' \<Longrightarrow> missing U s' \<subseteq> missing U s"
  unfolding missing_def using growsD [of P s s' _ "Traversed _"] by auto

lemma add_runtime_type_returns:
  assumes l: "lawful P ord" and cl: "\<And>i. rules_closed P (D i)" and p: "program_within P F U" and q: "card U < q"
  shows "card (missing U s) < n \<Longrightarrow> walk_inv P D s \<Longrightarrow> t \<in> U \<Longrightarrow>
    (\<And>i. bit masks i \<Longrightarrow> \<not> mentions (pg_form P) t \<Longrightarrow> D i (Traversed t) \<and> (\<not> skip \<longrightarrow> D i (RuntimeType t))) \<Longrightarrow>
    \<exists>s'. add_runtime_type n q P ord t masks skip s = Inr s'"
proof (induction n arbitrary: t masks skip s)
  case (Suc n)
  from p have U: "finite U" "types_closed (pg_form P) U"
    and ch: "fst ` set (rt_children P t) \<subseteq> U" "\<not> mentions (pg_form P) t \<Longrightarrow> shape_children P t \<noteq> None"
    using Suc.prems(3) by (auto simp: program_within_def types_closed_def)
  let ?acc = "access_delta t masks skip s" and ?trv = "traverse_delta t masks s"
  show ?case
  proof (cases "masks = 0 \<or> ?acc = 0 \<and> ?trv = 0")
    case True
    then show ?thesis using add_runtime_type_nothing by blast
  next
    case False
    obtain seen where "contains_type_param q (pg_form P) t [] = Some (mentions (pg_form P) t, seen)"
      using contains_total [OF U(2) Suc.prems(3) q] by blast
    then have nr: "never_runtime P q t = Inr (mentions (pg_form P) t)" by (simp add: never_runtime_def)
    have nt: "\<not> mentions (pg_form P) t" if "r_traversed s t \<noteq> 0"
    proof -
      from that obtain i where "bit (r_traversed s t) i" using mask_zero by blast
      then have "D i (Traversed t)" using walk_invD(1) [OF Suc.prems(2), of i "Traversed t"] by simp
      with rules_closedD(13) [OF cl] show ?thesis by blast
    qed
    then have gate: "(if r_traversed s t = 0 then never_runtime P q t else Inr False) = Inr (mentions (pg_form P) t)"
      using nr by auto
    show ?thesis
    proof (cases "mentions (pg_form P) t \<or> ?trv = 0")
      case True
      then show ?thesis unfolding add_runtime_type_descend [OF False] gate by (auto simp: Let_def)
    next
      case go: False
      then have nm: "\<not> mentions (pg_form P) t" by simp
      let ?s1 = "if ?acc \<noteq> 0 then access_type P ord t ?acc s else s"
      let ?s2 = "?s1\<lparr>r_traversed := (r_traversed ?s1)(t := r_traversed s t OR ?trv)\<rparr>"
      have ja: "D i (RuntimeType t)" if "bit ?acc i" for i
        using that Suc.prems(4) [OF _ nm] by (auto split: if_splits)
      have w1: "walk_inv P D ?s1" "r_traversed ?s1 = r_traversed s"
        using access_type_step [OF Suc.prems(2) l cl ja] Suc.prems(2) by auto
      have jt: "D i (Traversed t)" if "bit ?trv i" for i using that Suc.prems(4) [OF _ nm] by auto
      have w2: "walk_inv P D ?s2" using traversed_inv [OF w1(1), of ?trv t] jt w1(2) by simp
      from go obtain i where i: "bit ?trv i" using mask_zero by blast
      then have "(t, i) \<in> missing U s" "(t, i) \<notin> missing U ?s2"
        using Suc.prems(3) bit_imp_le_length [of ?trv i] by (auto simp: missing_def bit_or_iff)
      moreover have "missing U ?s2 \<subseteq> missing U s" by (auto simp: missing_def bit_or_iff w1(2) split: if_splits)
      ultimately have "card (missing U ?s2) < card (missing U s)"
        by (intro psubset_card_mono finite_missing U(1)) blast
      then have m2: "card (missing U ?s2) < n" using Suc.prems(1) by simp
      let ?f = "\<lambda>(c, sk). add_runtime_type n q P ord c ?trv sk"
      let ?J = "\<lambda>s. walk_inv P D s \<and> card (missing U s) < n"
      have call: "\<exists>s'. ?f e s = Inr s' \<and> ?J s'" if "e \<in> set (rt_children P t)" "?J s" for e s
      proof -
        obtain c sk where e: "e = (c, sk)" by (cases e)
        with that(1) have c: "(c, sk) \<in> set (rt_children P t)" "c \<in> U" using ch(1) by force+
        have d: "D i (Traversed c) \<and> (\<not> sk \<longrightarrow> D i (RuntimeType c))"
          if b: "bit ?trv i" and nc: "\<not> mentions (pg_form P) c" for i
        proof -
          note j = jt [OF b]
          from rules_closedD(11) [OF cl j c(1) nc] rules_closedD(12) [OF cl j _ nc] c(1) show ?thesis by (cases sk) auto
        qed
        from Suc.IH [OF _ _ c(2) d] that(2) obtain s' where s': "add_runtime_type n q P ord c ?trv sk s = Inr s'" by blast
        from add_runtime_type_step [of P ord D, OF l cl s' _ d] that(2) have st: "type_step P D s s'" by blast
        have "card (missing U s') \<le> card (missing U s)"
          by (rule card_mono [OF finite_missing [OF U(1)] missing_grows [OF type_step_grows [OF st]]])
        with st that(2) s' show ?thesis unfolding e type_step_def by auto
      qed
      from ch(2) [OF nm] obtain cs where cs: "shape_children P t = Some cs" by blast
      have sub: "set (rt_children P t) = set (method_children (pg_methods P t)) \<union> set cs"
        by (simp add: rt_children_def cs)
      have "\<exists>s3. fold_res ?f (method_children (pg_methods P t)) ?s2 = Inr s3 \<and> ?J s3"
        by (rule fold_res_returns) (use call sub w2 m2 in blast)+
      then obtain s3 where s3: "fold_res ?f (method_children (pg_methods P t)) ?s2 = Inr s3" "?J s3" by blast
      have "\<exists>s4. fold_res ?f cs s3 = Inr s4 \<and> ?J s4"
        by (rule fold_res_returns) (use call sub s3(2) in blast)+
      then obtain s4 where "fold_res ?f cs s3 = Inr s4" by blast
      with s3(1) go cs show ?thesis unfolding add_runtime_type_descend [OF False] gate by (simp add: Let_def)
    qed
  qed
qed simp

text \<open>The facts of the walk stay within the program, so every fuel above the bound is enough.\<close>

definition fuelled :: "rta_program \<Rightarrow> fn set \<Rightarrow> ty set \<Rightarrow> (nat \<Rightarrow> rta_fact \<Rightarrow> bool) \<Rightarrow> nat \<Rightarrow> bool" where
  "fuelled P F U D n \<longleftrightarrow> program_within P F U \<and> 64 * card U < n \<and> 64 * card F < n
     \<and> (\<forall>i. rules_closed P (D i)) \<and> (\<forall>i x. D i x \<longrightarrow> fact_within F U x)"

lemma runtime_type_returns:
  assumes l: "lawful P ord" and n: "fuelled P F U D n" and w: "walk_inv P D s" and t: "t \<in> U"
    and j: "\<And>i. bit m i \<Longrightarrow> \<not> mentions (pg_form P) t \<Longrightarrow> D i (RuntimeType t)"
  shows "\<exists>s'. add_runtime_type n n P ord t m False s = Inr s' \<and> type_step P D s s'"
proof -
  from n have cl: "rules_closed P (D i)" for i by (simp add: fuelled_def)
  from n have U: "finite U" and p: "program_within P F U" and b: "64 * card U < n"
    by (auto simp: fuelled_def program_within_def types_closed_def)
  have d: "D i (Traversed t) \<and> (\<not> False \<longrightarrow> D i (RuntimeType t))" if "bit m i" "\<not> mentions (pg_form P) t" for i
    using rules_closedD(10) [OF cl j [OF that]] j [OF that] by blast
  have "card U < n" "card (missing U s) < n" using b card_missing [OF U, of s] by linarith+
  from add_runtime_type_returns [OF l cl p this(1,2) w t d] obtain s' where
    "add_runtime_type n n P ord t m False s = Inr s'" by blast
  with add_runtime_type_step [OF l cl this w d] show ?thesis by blast
qed

lemma visit_func_returns:
  assumes l: "lawful P ord" and n: "fuelled P F U D n" and w: "walk_inv P D s"
    and r: "\<And>i. bit m i \<Longrightarrow> D i (Reach f)" and f: "f \<in> F"
  shows "\<exists>s'. visit_func n P ord f m s = Inr s'"
proof -
  from n have cl: "rules_closed P (D i)" for i by (simp add: fuelled_def)
  have "\<exists>s'. fold_res (visit_instr n P ord m) (pg_body P f) s = Inr s' \<and> walk_inv P D s'"
  proof (rule fold_res_returns [where J = "walk_inv P D", OF _ w])
    fix x s assume x: "x \<in> set (pg_body P f)" and ws: "walk_inv P D s"
    have "\<exists>s'. visit_instr n P ord m x s = Inr s'"
    proof (cases x)
      case (MakeInterface t ops)
      from n f x have "instr_within F U x" by (auto simp: fuelled_def program_within_def)
      then have t: "t \<in> U" by (simp add: MakeInterface instr_within_def)
      have "D i (RuntimeType t)" if "bit m i" "\<not> mentions (pg_form P) t" for i
        using rules_closedD(5) [OF cl r [OF that(1)]] x that(2) unfolding MakeInterface by blast
      from runtime_type_returns [OF l n ws t this] obtain s2 where "add_runtime_type n n P ord t m False s = Inr s2" by blast
      then show ?thesis by (simp add: MakeInterface)
    qed auto
    then obtain s' where s': "visit_instr n P ord m x s = Inr s'" by blast
    with visit_instr_step [OF l cl s' ws r x] show "\<exists>s'. visit_instr n P ord m x s = Inr s' \<and> walk_inv P D s'"
      by (auto simp: type_step_def)
  qed
  then show ?thesis by (auto simp: visit_func_def)
qed

lemma visit_shadow_returns:
  assumes l: "lawful P ord" and n: "fuelled P F U D n" and cx: "\<And>k. cx k = None"
  shows "loop_inv P D fs s \<Longrightarrow> \<exists>k' s'. visit_shadow n P ord cx k fs s = Inr (k', s')
    \<and> (\<forall>f\<in>set (r_worklist s'). f \<in> set (r_worklist s) \<or> r_reach s' f \<noteq> r_reach s f)"
proof (induction fs arbitrary: k s)
  case (Cons f fs)
  from n have cl: "rules_closed P (D i)" for i by (simp add: fuelled_def)
  note I = loop_invD [OF Cons.prems]
  have w: "walk_inv P D (popped f s)" by (rule same_facts_inv [OF I(1)]) (simp_all add: same_tables_def)
  have "\<exists>s1. visit_func n P ord f (r_pending s f) (popped f s) = Inr s1"
  proof (cases "r_pending s f = 0")
    case True
    have "\<exists>s'. fold_res (visit_instr n P ord 0) xs s = Inr s' \<and> True" for xs s
    proof (rule fold_res_returns)
      show "\<exists>s'. visit_instr n P ord 0 x s = Inr s' \<and> True" if "x \<in> set xs" for x s
        using n by (cases x; cases n) (auto simp: fuelled_def)
    qed simp
    with True show ?thesis by (simp add: visit_func_def)
  next
    case False
    then obtain i where i: "bit (r_pending s f) i" using mask_zero by blast
    have d: "D i (Reach f)" if "bit (r_pending s f) i" for i
      using I(5) [OF that] walk_invD(1) [OF I(1)] by blast
    have "f \<in> F" using n d [OF i] by (force simp: fuelled_def)
    from visit_func_returns [OF l n w d this] show ?thesis by blast
  qed
  then obtain s1 where s1: "visit_func n P ord f (r_pending s f) (popped f s) = Inr s1" by blast
  from visit_popped [OF l cl Cons.prems s1] have a: "loop_inv P D fs s1" "grows P s s1" "type_step P D (popped f s) s1" by blast+
  from Cons.IH [OF a(1)] obtain k' s' where s': "visit_shadow n P ord cx (Suc k) fs s1 = Inr (k', s')"
    "\<forall>f\<in>set (r_worklist s'). f \<in> set (r_worklist s1) \<or> r_reach s' f \<noteq> r_reach s1 f" by blast
  from visit_shadow_step [OF l cl s'(1) a(1)] have g: "grows P s1 s'" by blast
  from a(3) have "enqueues (popped f s) s1" by (simp add: type_step_def extends_def)
  then have new: "h \<in> set (r_worklist s) \<or> r_reach s1 h \<noteq> r_reach s h" if "h \<in> set (r_worklist s1)" for h
    using that unfolding enqueues_def by fastforce
  have "h \<in> set (r_worklist s) \<or> r_reach s' h \<noteq> r_reach s h" if "h \<in> set (r_worklist s')" for h
    using s'(2) new that reach_differs [OF a(2), of h] reach_differs [OF g, of h]
      reach_differs [OF grows_trans [OF a(2) g], of h] grows_reach [OF a(2)] grows_reach [OF g] by blast
  moreover have "visit_shadow n P ord cx k (f # fs) s = Inr (k', s')" using s1 s'(1) cx [of k] by simp
  ultimately show ?case by blast
qed simp

text \<open>Each round of the loop that leaves work behind has reached something new.\<close>

definition unreached :: "fn set \<Rightarrow> rta \<Rightarrow> (fn \<times> nat) set" where
  "unreached F s = {(f, i). f \<in> F \<and> i < 64 \<and> \<not> bit (r_reach s f) i}"

lemma card_unreached: "finite F \<Longrightarrow> finite (unreached F s) \<and> card (unreached F s) \<le> 64 * card F"
proof -
  assume f: "finite F"
  have sub: "unreached F s \<subseteq> F \<times> {..<64}" by (auto simp: unreached_def)
  with f have "card (unreached F s) \<le> card (F \<times> {..<64::nat})" by (intro card_mono) auto
  with finite_subset [OF sub] f show ?thesis by (simp add: card_cartesian_product)
qed

lemma rta_loop_returns:
  assumes l: "lawful P ord" and n: "fuelled P F U D n" and cx: "\<And>k. cx k = None"
  shows "loop_inv P D [] s \<Longrightarrow> r_worklist s = [] \<or> card (unreached F s) < m \<Longrightarrow> \<exists>s'. rta_loop m n P ord cx k s = Inr s'"
proof (induction m arbitrary: k s)
  case (Suc m)
  from n have cl: "rules_closed P (D i)" for i by (simp add: fuelled_def)
  from n have F: "finite F" by (simp add: fuelled_def program_within_def)
  show ?case
  proof (cases "r_worklist s = []")
    case False
    let ?s0 = "s\<lparr>r_worklist := []\<rparr>"
    from shadow_start [OF Suc.prems(1)] have a: "loop_inv P D (r_worklist s) ?s0" by blast
    from visit_shadow_returns [OF l n cx a] obtain k1 s1 where
      s1: "visit_shadow n P ord cx (Suc k) (r_worklist s) ?s0 = Inr (k1, s1)"
      and new: "\<forall>f\<in>set (r_worklist s1). r_reach s1 f \<noteq> r_reach s f" by force
    from visit_shadow_step [OF l cl s1 a] have b: "loop_inv P D [] s1" "grows P ?s0 s1" by blast+
    have "r_worklist s1 = [] \<or> card (unreached F s1) < m"
    proof (cases "r_worklist s1")
      case (Cons h hs)
      with new have "r_reach s1 h \<noteq> r_reach ?s0 h" by simp
      with reach_differs [OF b(2)] obtain i where i: "bit (r_reach s1 h) i" "\<not> bit (r_reach s h) i" by auto
      then have "h \<in> F" using n walk_invD(1) [OF loop_invD(1) [OF b(1)], of i "Reach h"]
        by (force simp: fuelled_def)
      with i have "(h, i) \<in> unreached F s" "(h, i) \<notin> unreached F s1"
        by (auto simp: unreached_def dest: bit_imp_le_length)
      moreover have "unreached F s1 \<subseteq> unreached F s"
        unfolding unreached_def using growsD [OF b(2), of _ "Reach _"] by auto
      ultimately have "card (unreached F s1) < card (unreached F s)"
        using card_unreached [OF F] by (intro psubset_card_mono) blast+
      with Suc.prems(2) False show ?thesis by simp
    qed simp
    from Suc.IH [OF b(1) this] obtain s' where "rta_loop m n P ord cx k1 s1 = Inr s'" by blast
    with False s1 cx [of k] show ?thesis by simp
  qed simp
qed simp

definition concrete_root :: "rta_program \<Rightarrow> ty set \<Rightarrow> fn \<Rightarrow> bool" where
  "concrete_root P U f \<longleftrightarrow> (pg_fn_generic P f \<longrightarrow> pg_fn_args P f \<noteq> []
     \<and> (\<forall>t\<in>set (pg_fn_args P f). t \<in> U \<and> \<not> mentions (pg_form P) t))"

lemma check_root_accepts:
  assumes U: "types_closed (pg_form P) U" and q: "card U < n" and r: "concrete_root P U f"
  shows "check_root n P f = Inr ()"
proof -
  have nr: "never_runtime P n t = Inr False" if "t \<in> U" "\<not> mentions (pg_form P) t" for t
    using contains_total [OF U that(1) q] that(2) by (auto simp: never_runtime_def)
  have "fold_res (\<lambda>t found. if found then Inr True else never_runtime P n t) ts False = Inr False"
    if "\<forall>t\<in>set ts. t \<in> U \<and> \<not> mentions (pg_form P) t" for ts
    using that by (induction ts) (simp_all add: nr)
  with r show ?thesis by (auto simp: check_root_def concrete_root_def)
qed

lemma analysis_returns:
  assumes l: "lawful P ord" and p: "program_within P F U" and n: "64 * card F < n" "64 * card U < n"
    and roots: "fst ` set roots \<subseteq> F" "roots \<noteq> []" "\<forall>f\<in>fst ` set roots. concrete_root P U f"
    and seeds: "fst ` set (seeded_fns seeds) \<subseteq> F" "fst ` set (seeded_types seeds) \<subseteq> U"
    and cx: "\<And>k. cx k = None"
  shows "\<exists>s. rta_analyze n P ord (Some cx) roots seeds = Inr (Some s)"
proof -
  define D where "D = subject_derives P roots seeds"
  have cl: "rules_closed P (D i)" for i unfolding D_def subject_derives_seeds by (rule derives_rules_closed)
  from p have F: "finite F" and U: "types_closed (pg_form P) U" "finite U"
    by (auto simp: program_within_def types_closed_def)
  have "fact_within F U x" if "D i x" for i x
    using that unfolding D_def subject_derives_seeds
    by (rule derives_within [OF p, rotated 3]) (use roots(1) seeds in \<open>force simp: owned_def\<close>)+
  with p n cl have fu: "fuelled P F U D n" by (simp add: fuelled_def)
  have "card U < n" using n(2) by linarith
  then have rc: "fold_res (\<lambda>(f, _) _. check_root n P f) rs () = Inr ()" if "set rs \<subseteq> set roots" for rs
    using that
  proof (induction rs)
    case (Cons r rs)
    obtain f m where r: "r = (f, m)" by (cases r)
    with Cons.prems roots(3) have "concrete_root P U f" by force
    from check_root_accepts [OF U(1) Cons.prems(1) this] Cons show ?case by (simp add: r)
  qed simp
  let ?f = "\<lambda>(f, m) s. if m \<noteq> 0 then visit_addr_taken P ord f m s else s"
  let ?s1 = "fold ?f (seeded_fns seeds) empty_rta"
  have w1: "walk_inv P D ?s1"
  proof -
    have "plain_step P D empty_rta ?s1"
    proof (rule fold_plain)
      show "walk_inv P D empty_rta" by (rule loop_invD(1) [OF empty_inv])
      show "plain_step P D s (?f x s)" if "x \<in> set (seeded_fns seeds)" "walk_inv P D s" for x s
      proof -
        obtain f m where x: "x = (f, m)" by (cases x)
        have "D i (AddrTaken f)" if "bit m i" for i
          unfolding D_def subject_derives_seeds
          by (rule derives.seeded) (use that \<open>x \<in> _\<close> x in \<open>auto simp: owned_def\<close>)
        from visit_addr_taken_step [OF that(2) l cl this] that(2) show ?thesis unfolding x by auto
      qed
    qed
    then show ?thesis by (simp add: plain_step_def)
  qed
  have "\<exists>s0. apply_seeds n P ord seeds empty_rta = Inr s0 \<and> walk_inv P D s0"
    unfolding apply_seeds_folds
  proof (rule fold_res_returns [where J = "walk_inv P D", OF _ w1])
    fix x s assume x: "x \<in> set (seeded_types seeds)" and w: "walk_inv P D s"
    obtain t m where xt: "x = (t, m)" by (cases x)
    have t: "t \<in> U" using x seeds(2) by (force simp: xt)
    have "D i (RuntimeType t)" if "bit m i" "\<not> mentions (pg_form P) t" for i
      unfolding D_def subject_derives_seeds
      by (rule derives.seeded_type) (use that x xt in \<open>auto simp: owned_def\<close>)
    from runtime_type_returns [OF l fu w t this] obtain s2 where
      "add_runtime_type n n P ord t m False s = Inr s2" "walk_inv P D s2" unfolding type_step_def by blast
    with w show "\<exists>s'. (\<lambda>(t, m) s. if m \<noteq> 0 then add_runtime_type n n P ord t m False s else Inr s) x s = Inr s' \<and> walk_inv P D s'"
      by (simp add: xt)
  qed
  then obtain s0 where s0: "apply_seeds n P ord seeds empty_rta = Inr s0" by blast
  let ?s1 = "fold (\<lambda>(f, m) s. add_reachable (Some f) m s) roots s0"
  have i0: "loop_inv P D [] s0" using seeds_step [OF l s0 D_def] loop_inv_step [OF empty_inv] by blast
  from roots_step [OF loop_invD(1) [OF i0] D_def] have i1: "loop_inv P D [] ?s1"
    using loop_inv_step [OF i0] plain_type_step by blast
  have "card (unreached F ?s1) < n" using card_unreached [OF F, of ?s1] n(1) by linarith
  with rta_loop_returns [OF l fu _ i1, of cx n 1] cx obtain s where "rta_loop n n P ord cx 1 ?s1 = Inr s" by blast
  then show ?thesis
    unfolding rta_analyze_def using cx roots(2) rc [OF subset_refl] s0 by simp
qed

section \<open>Properties\<close>

text \<open>C12: A batch of up to 64 subjects is analysed exactly: a function carries a subject's bit
  precisely when the rules of the analysis reach it from that subject's own roots and seeds, a
  call site has a target for a subject precisely when both ends of the edge are that subject's
  own, and a site's mask is the union of its targets'. Nothing depends on the order of Go's map
  iterations, and the method-set fingerprints reject no implementation.\<close>

theorem attributed_analysis_exact:
  assumes "lawful P ord" "rta_analyze n P ord ctx roots seeds = Inr (Some s)"
  shows "(bit (r_reach s f) i \<longleftrightarrow> subject_derives P roots seeds i (Reach f))
    \<and> (bit (r_targets s c g) i \<longleftrightarrow> subject_edge P (subject_derives P roots seeds i) c g)
    \<and> (bit (r_resolved s c) i \<longleftrightarrow> (\<exists>g. bit (r_targets s c g) i))"
  using analysis_exact(1) [OF assms, of i "Reach f"] analysis_exact(2,3) [OF assms] by simp

text \<open>Two subjects share a dynamic call's signature; only the first takes the callee's address.\<close>

definition sample_program :: rta_program where
  "sample_program = \<lparr>pg_form = \<lambda>_. BasicT, pg_pointer = \<lambda>t. t, pg_methods = \<lambda>_. [], pg_implements = \<lambda>_ _. False,
     pg_lookup = \<lambda>_ _. None, pg_sig = \<lambda>_. 0,
     pg_body = \<lambda>f. if f = 0 then [OtherInstr [Some 2], DynCall 7 [None]]
       else if f = 1 then [MakeInterface 0 [None], DynCall 8 [None]] else [],
     pg_fn_generic = \<lambda>_. False, pg_fn_args = \<lambda>_. [], pg_site_sig = \<lambda>_. 0, pg_site_iface = \<lambda>_. 0,
     pg_reflect_call = None\<rparr>"

definition sample_order :: range_order where
  "sample_order = \<lparr>ord_fns = \<lambda>xs. xs, ord_sites = \<lambda>xs. xs, ord_types = \<lambda>xs. xs\<rparr>"

lemma sample_lawful: "lawful sample_program sample_order"
  by (simp add: lawful_def sample_program_def sample_order_def)

lemma sample_within: "program_within sample_program {0, 1, 2} {0}"
  by (auto simp: program_within_def sample_program_def types_closed_def instr_within_def rt_children_def
      method_children_def shape_children_def)

lemma sample_runs:
  "(case rta_analyze 5 sample_program sample_order (Some (\<lambda>_. None)) [(0, 1), (1, 2)] None of
      Inr (Some s) \<Rightarrow> bit (r_reach s 2) 0 \<and> \<not> bit (r_reach s 2) 1 | _ \<Rightarrow> False)"
  by code_simp

lemma sample_state:
  obtains s where "rta_analyze 5 sample_program sample_order (Some (\<lambda>_. None)) [(0, 1), (1, 2)] None = Inr (Some s)"
    "bit (r_reach s 2) 0" "\<not> bit (r_reach s 2) 1"
  using sample_runs by (auto split: sum.splits option.splits)

theorem attributed_analysis_exact_witness:
  "subject_derives sample_program [(0, 1), (1, 2)] None 0 (Reach 2)
   \<and> \<not> subject_derives sample_program [(0, 1), (1, 2)] None 1 (Reach 2)"
proof -
  obtain s where s: "rta_analyze 5 sample_program sample_order (Some (\<lambda>_. None)) [(0, 1), (1, 2)] None = Inr (Some s)"
    "bit (r_reach s 2) 0" "\<not> bit (r_reach s 2) 1" by (rule sample_state)
  from attributed_analysis_exact [OF sample_lawful s(1), of 2 0] attributed_analysis_exact [OF sample_lawful s(1), of 2 1]
    s(2,3) show ?thesis by blast
qed

text \<open>C13: On a finite program whose runtime types all have a shape the walk knows, with concrete
  roots and a live context, the analysis returns: the descent into recursive types ends because
  each level marks a new subject and type, and the worklist ends because each round that leaves
  work behind has reached something new. Fuel above 64 times the functions and the types is
  enough for both.\<close>

theorem attributed_analysis_returns:
  assumes "lawful P ord" "program_within P F U" "64 * card F < n" "64 * card U < n"
    and "fst ` set roots \<subseteq> F" "roots \<noteq> []" "\<forall>f\<in>fst ` set roots. concrete_root P U f"
    and "fst ` set (seeded_fns seeds) \<subseteq> F" "fst ` set (seeded_types seeds) \<subseteq> U" "\<forall>k. cx k = None"
  shows "\<exists>s. rta_analyze n P ord (Some cx) roots seeds = Inr (Some s)"
  by (rule analysis_returns [OF assms(1-9)]) (use assms(10) in blast)

theorem attributed_analysis_returns_witness:
  "\<exists>s. rta_analyze 193 sample_program sample_order (Some (\<lambda>_. None)) [(0, 1), (1, 2)] None = Inr (Some s)"
  by (rule attributed_analysis_returns [OF sample_lawful sample_within])
    (simp_all add: concrete_root_def sample_program_def)

definition subject_only :: "nat \<Rightarrow> ('a \<times> mask) list \<Rightarrow> ('a \<times> mask) list" where
  "subject_only i xs = map (\<lambda>(x, m). (x, m AND push_bit i 1)) xs"

definition seeds_only :: "nat \<Rightarrow> rta_seeds option \<Rightarrow> rta_seeds option" where
  "seeds_only i seeds = map_option (\<lambda>sd. \<lparr>seed_addr = subject_only i (seed_addr sd),
     seed_types = subject_only i (seed_types sd)\<rparr>) seeds"

lemma owned_only: "owned (subject_only i xs) i = owned xs i"
proof -
  have "bit (m AND push_bit i 1) i \<longleftrightarrow> bit m i" for m :: mask
    by (subst bit_and_iff) (auto simp: bit_push_bit_iff bit_1_iff dest: bit_imp_le_length simp del: push_bit_of_1)
  then show ?thesis by (force simp: owned_def subject_only_def simp del: push_bit_of_1)
qed

text \<open>C15: Batching contaminates nothing: whatever else is analysed in the same batch, and in
  whatever order the maps are iterated, a subject reaches the same functions through the same
  call targets as when it is analysed alone.\<close>

theorem batch_of_one_agrees:
  assumes "lawful P ord" "lawful P ord1"
    and "rta_analyze n P ord ctx roots seeds = Inr (Some s)"
    and "rta_analyze n1 P ord1 ctx1 (subject_only i roots) (seeds_only i seeds) = Inr (Some s1)"
  shows "bit (r_reach s f) i = bit (r_reach s1 f) i \<and> bit (r_targets s c g) i = bit (r_targets s1 c g) i"
proof -
  have "seeded_fns (seeds_only i seeds) = subject_only i (seeded_fns seeds)"
    "seeded_types (seeds_only i seeds) = subject_only i (seeded_types seeds)"
    by (simp_all add: seeds_only_def subject_only_def split: option.split)
  then have "subject_derives P (subject_only i roots) (seeds_only i seeds) i = subject_derives P roots seeds i"
    by (simp add: subject_derives_seeds owned_only)
  with analysis_exact(1) [OF assms(1,3), of i "Reach f"] analysis_exact(1) [OF assms(2,4), of i "Reach f"]
    analysis_exact(2) [OF assms(1,3), of c g i] analysis_exact(2) [OF assms(2,4), of c g i]
  show ?thesis by simp
qed

theorem batch_of_one_agrees_witness:
  "\<exists>s1. rta_analyze 193 sample_program sample_order (Some (\<lambda>_. None)) (subject_only 1 [(0, 1), (1, 2)]) None = Inr (Some s1)
     \<and> \<not> bit (r_reach s1 2) 1"
proof -
  obtain s where s: "rta_analyze 5 sample_program sample_order (Some (\<lambda>_. None)) [(0, 1), (1, 2)] None = Inr (Some s)"
    "bit (r_reach s 2) 0" "\<not> bit (r_reach s 2) 1" by (rule sample_state)
  have "\<exists>s1. rta_analyze 193 sample_program sample_order (Some (\<lambda>_. None)) (subject_only 1 [(0, 1), (1, 2)]) None = Inr (Some s1)"
    by (rule analysis_returns [OF sample_lawful sample_within])
      (simp_all add: concrete_root_def sample_program_def subject_only_def)
  then obtain s1 where s1: "rta_analyze 193 sample_program sample_order (Some (\<lambda>_. None))
      (subject_only 1 [(0, 1), (1, 2)]) (seeds_only 1 None) = Inr (Some s1)"
    by (auto simp: seeds_only_def)
  from batch_of_one_agrees [OF sample_lawful sample_lawful s(1) s1, of 2] s(3) s1 show ?thesis
    by (auto simp: seeds_only_def)
qed

lemma underived: "derives P {} {} {} x \<Longrightarrow> False"
  by (induction rule: derives.induct) simp_all

lemma mask_below:
  fixes m :: mask
  assumes "\<And>i. k \<le> i \<Longrightarrow> \<not> bit m i"
  shows "unat m < 2 ^ k"
proof -
  have "take_bit k m = m" by (rule bit_eqI) (use assms in \<open>metis bit_take_bit_iff not_less\<close>)
  then have "unat m = take_bit k (unat m)" by (metis unsigned_take_bit_eq)
  then show ?thesis by (metis take_bit_nat_less_exp)
qed

lemma mask_bit_below: "unat (m :: mask) < 2 ^ k \<Longrightarrow> bit m i \<Longrightarrow> i < k"
proof -
  assume m: "unat m < 2 ^ k" "bit m i"
  from m(1) have "take_bit k (unat m) = unat m" by (simp add: take_bit_nat_eq_self_iff)
  moreover have "bit (unat m) i" using m(2) by (simp add: bit_unsigned_iff bit_imp_le_length)
  ultimately show "i < k" by (metis bit_take_bit_iff)
qed

lemma owned_below: "\<forall>(x, m)\<in>set xs. unat m < 2 ^ k \<Longrightarrow> k \<le> i \<Longrightarrow> owned xs i = {}"
  using mask_bit_below by (fastforce simp: owned_def)

text \<open>C14: Masks stay in the batch. When the masks of a batch's roots and seeds are below two to the
  number of its subjects, so are the mask of every function it reaches, of every call target and of
  every resolved site: no shift or union of the 64-bit masks answers for a subject that is not there.\<close>

theorem masks_stay_in_batch:
  assumes "lawful P ord" "rta_analyze n P ord ctx roots seeds = Inr (Some s)"
    and "\<forall>(f, m)\<in>set roots. unat m < 2 ^ k" "\<forall>(f, m)\<in>set (seeded_fns seeds). unat m < 2 ^ k"
    and "\<forall>(t, m)\<in>set (seeded_types seeds). unat m < 2 ^ k"
  shows "unat (r_reach s f) < 2 ^ k \<and> unat (r_targets s c g) < 2 ^ k \<and> unat (r_resolved s c) < 2 ^ k"
proof -
  have none: "\<not> subject_derives P roots seeds i x" if "k \<le> i" for i x
    using owned_below [OF assms(3) that] owned_below [OF assms(4) that] owned_below [OF assms(5) that] underived
    by (auto simp: subject_derives_seeds)
  have "\<not> bit (r_reach s f) i" "\<not> bit (r_targets s c h) i" if "k \<le> i" for h i
    using none [OF that] analysis_exact(1) [OF assms(1,2), of i "Reach f"] analysis_exact(2) [OF assms(1,2), of c h i]
    by (auto simp: subject_edge_def)
  moreover from this(2) have "\<not> bit (r_resolved s c) i" if "k \<le> i" for i
    using that analysis_exact(3) [OF assms(1,2), of c i] by blast
  ultimately show ?thesis using mask_below by blast
qed

theorem masks_stay_in_batch_witness:
  "\<exists>s. rta_analyze 5 sample_program sample_order (Some (\<lambda>_. None)) [(0, 1), (1, 2)] None = Inr (Some s)
     \<and> unat (r_reach s 2) < 4"
proof -
  obtain s where s: "rta_analyze 5 sample_program sample_order (Some (\<lambda>_. None)) [(0, 1), (1, 2)] None = Inr (Some s)"
    by (rule sample_state)
  from masks_stay_in_batch [OF sample_lawful s, of 2] s show ?thesis by auto
qed

end
