(* ===== verification/Spec2Isabelle.thy ===== *)
theory Spec2Isabelle
  imports Judgment Build_Flags Fingerprint_Record Observation_Identity Binding_Promises Rta_Result
begin

text \<open>
  gofresh decides whether a recorded result of a Go test or benchmark is still valid.
\<close>

end
